(* ===== verification/Prelude.thy ===== *)
theory Prelude
  imports Main "HOL-Library.Word" "HOL-Library.Signed_Division"
begin

text \<open>
  Shared vocabulary of the development: the error numbers the code returns, the kernel's
  machine integers, the time and division helpers of the kernel's base library that the
  drivers call, and the generic list lemmas the components share.
\<close>

section \<open>Machine integers\<close>

type_synonym u8 = "8 word"
type_synonym u32 = "32 word"
type_synonym u64 = "64 word"
type_synonym s64 = "64 word"  \<comment> \<open>read with \<open>sint\<close>\<close>

text \<open>Arithmetic on these types wraps, as in the kernel build (\<open>-fno-strict-overflow\<close>).\<close>

section \<open>Error values\<close>

text \<open>
  A C function that returns 0 or a negative error number is modelled by \<open>ret\<close>:
  \<open>None\<close> is 0, \<open>Some e\<close> is \<open>-e\<close>. \<open>OtherErrno\<close> is any number a callback of another
  subsystem may hand through.
\<close>

datatype errno =
    EPERM | ENOENT | EINTR | ENOMEM | EFAULT | EBUSY | EEXIST | ENODEV | EINVAL
  | ENOTTY | ENOSPC | ERANGE | ENODATA | EMSGSIZE | EOPNOTSUPP | ERESTARTSYS
  | OtherErrno nat

type_synonym ret = "errno option"

text \<open>
  The result of code that can also dereference a dead object: \<open>Ok\<close> with a value, \<open>Err\<close>
  with an error number, or \<open>Fault\<close> where the C would read through a NULL or freed pointer.
\<close>

datatype 'a res = Ok 'a | Err errno | Fault

primrec andthen :: "'a res \<Rightarrow> ('a \<Rightarrow> 'b res) \<Rightarrow> 'b res" where
  "andthen (Ok a) f = f a"
| "andthen (Err e) f = Err e"
| "andthen Fault f = Fault"

lemma andthen_Ok_iff: "andthen m f = Ok b \<longleftrightarrow> (\<exists>a. m = Ok a \<and> f a = Ok b)"
  by (cases m) auto

lemma andthen_assoc: "andthen (andthen m f) g = andthen m (\<lambda>x. andthen (f x) g)"
  by (cases m) auto

primrec of_sum :: "errno + 'a \<Rightarrow> 'a res" where
  "of_sum (Inl e) = Err e"
| "of_sum (Inr a) = Ok a"

text \<open>A pointer that may be NULL, about to be dereferenced.\<close>

primrec deref :: "'a option \<Rightarrow> 'a res" where
  "deref None = Fault"
| "deref (Some a) = Ok a"

text \<open>The newline at the end of a line of text.\<close>

definition newline :: char where
  "newline = CHR 0x0A"

section \<open>Kernel time helpers\<close>

text \<open>
  \<open>struct timespec64\<close> and its conversions (\<open>linux/time64.h\<close>): the scalar form is signed
  64-bit nanoseconds; the split form has a nanosecond part in \<open>[0, 10^9)\<close> and seconds
  rounded down, and \<open>timespec64_to_ns\<close> saturates at the ends of the scalar range.
\<close>

definition NSEC_PER_SEC :: nat where "NSEC_PER_SEC = 1000000000"
definition NSEC_PER_MSEC :: nat where "NSEC_PER_MSEC = 1000000"

record timespec64 =
  tv_sec :: int
  tv_nsec :: int

definition KTIME_SEC_MAX :: int where "KTIME_SEC_MAX = 9223372036"

definition timespec64_to_ns :: "timespec64 \<Rightarrow> s64" where
  "timespec64_to_ns ts =
     (if tv_sec ts \<ge> KTIME_SEC_MAX then word_of_int (2 ^ 63 - 1)
      else if tv_sec ts \<le> - KTIME_SEC_MAX then word_of_int (- (2 ^ 63))
      else word_of_int (tv_sec ts * 1000000000 + tv_nsec ts))"

definition ns_to_timespec64 :: "s64 \<Rightarrow> timespec64" where
  "ns_to_timespec64 ns =
     \<lparr>tv_sec = sint ns div 1000000000, tv_nsec = sint ns mod 1000000000\<rparr>"

text \<open>\<open>timespec64_to_ktime\<close> (\<open>ktime_set\<close>): saturates upwards only.\<close>

definition timespec64_to_ktime :: "timespec64 \<Rightarrow> s64" where
  "timespec64_to_ktime ts =
     (if tv_sec ts \<ge> KTIME_SEC_MAX then word_of_int (2 ^ 63 - 1)
      else word_of_int (tv_sec ts * 1000000000 + tv_nsec ts))"

text \<open>A timespec that the scalar form represents exactly.\<close>

definition ts_valid :: "timespec64 \<Rightarrow> bool" where
  "ts_valid ts \<longleftrightarrow> \<bar>tv_sec ts\<bar> < KTIME_SEC_MAX \<and> 0 \<le> tv_nsec ts \<and> tv_nsec ts < 1000000000"

text \<open>Integers that a signed 64-bit variable holds; there, word arithmetic is exact.\<close>

definition s64_fits :: "int \<Rightarrow> bool" where
  "s64_fits k \<longleftrightarrow> - (2 ^ 63) \<le> k \<and> k < 2 ^ 63"

named_theorems s64_exact

lemma signed_take_bit_fits: "s64_fits k \<Longrightarrow> signed_take_bit 63 k = k"
  by (rule signed_take_bit_int_eq_self) (simp_all add: s64_fits_def)

lemma sint_word_of_int64 [s64_exact]: "s64_fits k \<Longrightarrow> sint (word_of_int k :: s64) = k"
  by (simp add: sint_sbintrunc' signed_take_bit_fits)

lemma sint_add_exact [s64_exact]:
  "s64_fits (sint a + sint b) \<Longrightarrow> sint (a + b :: s64) = sint a + sint b"
  by (simp add: sint_word_add signed_take_bit_fits)

lemma sint_diff_exact [s64_exact]:
  "s64_fits (sint a - sint b) \<Longrightarrow> sint (a - b :: s64) = sint a - sint b"
  by (simp add: sint_word_diff signed_take_bit_fits)

lemma sint_mult_exact [s64_exact]:
  "s64_fits (sint a * sint b) \<Longrightarrow> sint (a * b :: s64) = sint a * sint b"
  by (simp add: sint_word_mult signed_take_bit_fits)

lemma s64_fits_sint [simp]: "s64_fits (sint (a :: s64))"
  using sint_greater_eq [of a] sint_less [of a] by (simp add: s64_fits_def)

lemma ts_roundtrip: "ts_valid ts \<Longrightarrow> ns_to_timespec64 (timespec64_to_ns ts) = ts"
proof -
  assume v: "ts_valid ts"
  then have b: "s64_fits (tv_sec ts * 1000000000 + tv_nsec ts)"
    by (auto simp: ts_valid_def KTIME_SEC_MAX_def s64_fits_def)
  have "timespec64_to_ns ts = word_of_int (tv_sec ts * 1000000000 + tv_nsec ts)"
    using v by (auto simp: timespec64_to_ns_def ts_valid_def)
  then have "sint (timespec64_to_ns ts) = tv_sec ts * 1000000000 + tv_nsec ts"
    using sint_word_of_int64 [OF b] by (simp only:)
  then show ?thesis
    using v by (simp add: ns_to_timespec64_def ts_valid_def)
qed

text \<open>\<open>div_s64\<close> (\<open>linux/math64.h\<close>): signed division rounding towards zero.\<close>

definition div_s64 :: "s64 \<Rightarrow> s64 \<Rightarrow> s64" where
  "div_s64 a b = word_of_int (sint a sdiv sint b)"

lemma sdiv_abs: "0 < (b :: int) \<Longrightarrow> \<bar>a sdiv b\<bar> = \<bar>a\<bar> div b"
  by (simp add: signed_divide_int_def abs_mult sgn_if pos_imp_zdiv_nonneg_iff)

lemma sdiv_pos_abs_le: "0 < (b :: int) \<Longrightarrow> \<bar>a sdiv b\<bar> \<le> \<bar>a\<bar>"
  using zdiv_mono2 [of "\<bar>a\<bar>" 1 b] by (simp add: sdiv_abs)

lemma sdiv_fits: "0 < b \<Longrightarrow> s64_fits a \<Longrightarrow> s64_fits (a sdiv b)"
  using sdiv_pos_abs_le [of b a] pos_imp_zdiv_nonneg_iff [of b "- a"]
  by (cases "0 \<le> a") (auto simp: s64_fits_def signed_divide_int_def sgn_if)

text \<open>Truncation loses less than one unit of the quotient.\<close>

lemma sdiv_rounding: "0 < (b :: int) \<Longrightarrow> \<bar>a - b * (a sdiv b)\<bar> < b"
proof -
  assume b: "0 < b"
  have "b * (\<bar>a\<bar> div b) \<le> \<bar>a\<bar>" "\<bar>a\<bar> - b * (\<bar>a\<bar> div b) < b"
    using b pos_mod_bound [OF b, of "\<bar>a\<bar>"] pos_mod_sign [OF b, of "\<bar>a\<bar>"]
    by (simp_all add: minus_mult_div_eq_mod [symmetric])
  with b show ?thesis
    by (cases "0 \<le> a") (auto simp: signed_divide_int_def sgn_if)
qed

section \<open>Generic lemmas\<close>

lemma find_Some_iff_in: "find P xs = Some x \<Longrightarrow> x \<in> set xs \<and> P x"
  by (induction xs) (auto split: if_splits)

lemma find_None_all: "find P xs = None \<longleftrightarrow> (\<forall>x\<in>set xs. \<not> P x)"
  by (induction xs) auto

lemma drop_take_split: "n \<le> length xs \<Longrightarrow> take n xs @ drop n xs = xs"
  by simp

end
