(* ===== verification/Ts_Queue.thy ===== *)
theory Ts_Queue
  imports Prelude "HOL-Library.Sublist"
begin

text \<open>
  The timestamp event queue of the PTP core (\<open>ptp/ptp_private.h\<close>, \<open>ptp/ptp_clock.c\<close>): a
  ring buffer of 128 slots that a reader and the event path share. The ring is shown to
  implement a bounded first-in first-out queue of 127 events that drops its oldest event
  when it overflows; the locale \<open>bounded_fifo\<close> is that contract, and what the readers
  need is proved from it.
\<close>

section \<open>Data\<close>

definition PTP_MAX_TIMESTAMPS :: int where "PTP_MAX_TIMESTAMPS = 128"
definition PTP_BUF_TIMESTAMPS :: nat where "PTP_BUF_TIMESTAMPS = 30"
definition PTP_MAX_CHANNELS :: nat where "PTP_MAX_CHANNELS = 2048"

definition PTP_EXTTS_EVENT_VALID :: u32 where "PTP_EXTTS_EVENT_VALID = 1"
definition PTP_EXT_OFFSET :: u32 where "PTP_EXT_OFFSET = 16"

text \<open>\<open>struct ptp_extts_event\<close> (\<open>t.sec\<close>, \<open>t.nsec\<close>, \<open>index\<close>, \<open>flags\<close>).\<close>

record extts_event =
  ev_sec :: int
  ev_nsec :: int
  ev_index :: u32
  ev_flags :: u32

text \<open>
  \<open>struct ptp_clock_event\<close>: the type with the member of the union that goes with it. The
  index is the C \<open>int\<close> as its 32-bit pattern.
\<close>

datatype ptp_event =
    PTP_CLOCK_ALARM
  | PTP_CLOCK_EXTTS u32 u64
  | PTP_CLOCK_EXTOFF u32 s64
  | PTP_CLOCK_PPS
  | PTP_CLOCK_PPSUSR timespec64

text \<open>
  \<open>struct timestamp_event_queue\<close>: the slots, the two indices (C \<open>int\<close>), the channel mask.
\<close>

record ts_queue =
  q_buf :: "extts_event list"
  q_head :: int
  q_tail :: int
  q_mask :: "nat set"

section \<open>Operations\<close>

definition queue_cnt :: "ts_queue \<Rightarrow> int" where
  "queue_cnt q = (let cnt = q_tail q - q_head q
                  in if cnt < 0 then PTP_MAX_TIMESTAMPS + cnt else cnt)"

definition queue_free :: "ts_queue \<Rightarrow> int" where
  "queue_free q = PTP_MAX_TIMESTAMPS - queue_cnt q - 1"

text \<open>The slot write and the two index updates, in the code's order.\<close>

definition ring_put :: "extts_event \<Rightarrow> ts_queue \<Rightarrow> ts_queue" where
  "ring_put e q =
     (let q1 = q\<lparr>q_buf := (q_buf q)[nat (q_tail q) := e]\<rparr>;
          q2 = (if queue_free q1 = 0
                then q1\<lparr>q_head := (q_head q1 + 1) mod PTP_MAX_TIMESTAMPS\<rparr> else q1)
      in q2\<lparr>q_tail := (q_tail q2 + 1) mod PTP_MAX_TIMESTAMPS\<rparr>)"

definition extts_of_event :: "ptp_event \<Rightarrow> extts_event option" where
  "extts_of_event src =
     (case src of
        PTP_CLOCK_EXTTS i ts \<Rightarrow>
          Some \<lparr>ev_sec = uint ts div 1000000000, ev_nsec = uint ts mod 1000000000,
                ev_index = i, ev_flags = PTP_EXTTS_EVENT_VALID\<rparr>
      | PTP_CLOCK_EXTOFF i off \<Rightarrow>
          (let offset_ts = ns_to_timespec64 off
           in Some \<lparr>ev_sec = tv_sec offset_ts, ev_nsec = tv_nsec offset_ts,
                    ev_index = i, ev_flags = or PTP_EXTTS_EVENT_VALID PTP_EXT_OFFSET\<rparr>)
      | _ \<Rightarrow> None)"

definition enqueue_external_timestamp :: "ts_queue \<Rightarrow> ptp_event \<Rightarrow> ts_queue" where
  "enqueue_external_timestamp queue src =
     (case extts_of_event src of
        None \<Rightarrow> queue
      | Some dst \<Rightarrow> ring_put dst queue)"

text \<open>The copy loop of \<open>ptp_read\<close>: \<open>cnt\<close> slots from the head on.\<close>

primrec ring_take :: "nat \<Rightarrow> ts_queue \<Rightarrow> extts_event list \<times> ts_queue" where
  "ring_take 0 q = ([], q)"
| "ring_take (Suc n) q =
     (let e = q_buf q ! nat (q_head q);
          q1 = q\<lparr>q_head := (q_head q + 1) mod PTP_MAX_TIMESTAMPS\<rparr>;
          (es, q2) = ring_take n q1
      in (e # es, q2))"

text \<open>A queue as \<open>kzalloc\<close> and \<open>bitmap_set\<close> leave it.\<close>

definition empty_event :: extts_event where
  "empty_event = \<lparr>ev_sec = 0, ev_nsec = 0, ev_index = 0, ev_flags = 0\<rparr>"

definition new_queue :: ts_queue where
  "new_queue = \<lparr>q_buf = replicate 128 empty_event, q_head = 0, q_tail = 0,
                q_mask = {0..<PTP_MAX_CHANNELS}\<rparr>"

section \<open>The contract\<close>

text \<open>
  A bounded queue: \<open>contents\<close> is the abstract value, oldest first; a full queue loses its
  oldest element to a new one; removing takes the oldest elements.
\<close>

text \<open>
  A run over a queue: insertions, and removals of at most \<open>n\<close> elements whose result is kept or
  lost. It returns what was kept.
\<close>

lemma subseq_drop: "subseq (drop n xs) xs"
  by (metis append_take_drop_id list_emb_append2 subseq_order.order_refl)

datatype 'a fifo_step = Put 'a | Take bool nat

fun fifo_run ::
    "('a \<Rightarrow> 'q \<Rightarrow> 'q) \<Rightarrow> (nat \<Rightarrow> 'q \<Rightarrow> 'a list \<times> 'q) \<Rightarrow> ('q \<Rightarrow> nat) \<Rightarrow> 'a fifo_step list \<Rightarrow> 'q
      \<Rightarrow> 'a list \<times> 'q" where
  "fifo_run enq deq count [] q = ([], q)"
| "fifo_run enq deq count (Put x # ss) q = fifo_run enq deq count ss (enq x q)"
| "fifo_run enq deq count (Take keep n # ss) q =
     (let (xs, q1) = deq (min n (count q)) q;
          (ys, q2) = fifo_run enq deq count ss q1
      in (if keep then xs @ ys else ys, q2))"

fun puts :: "'a fifo_step list \<Rightarrow> 'a list" where
  "puts [] = []"
| "puts (Put x # ss) = x # puts ss"
| "puts (Take keep n # ss) = puts ss"

fun all_kept :: "'a fifo_step list \<Rightarrow> bool" where
  "all_kept [] = True"
| "all_kept (Put x # ss) = all_kept ss"
| "all_kept (Take keep n # ss) = (keep \<and> all_kept ss)"

lemma fifo_run_append:
  "fifo_run enq deq count (fs @ gs) q =
     (let (xs, q1) = fifo_run enq deq count fs q; (ys, q2) = fifo_run enq deq count gs q1
      in (xs @ ys, q2))"
proof (induction fs arbitrary: q)
  case (Cons f fs)
  then show ?case by (cases f) (simp_all add: Let_def case_prod_beta)
qed simp

lemma puts_append [simp]: "puts (fs @ gs) = puts fs @ puts gs"
  by (induction fs rule: puts.induct) auto

lemma all_kept_append [simp]: "all_kept (fs @ gs) \<longleftrightarrow> all_kept fs \<and> all_kept gs"
  by (induction fs rule: all_kept.induct) auto

locale bounded_fifo =
  fixes cap :: nat
    and enq :: "'a \<Rightarrow> 'q \<Rightarrow> 'q"
    and deq :: "nat \<Rightarrow> 'q \<Rightarrow> 'a list \<times> 'q"
    and count :: "'q \<Rightarrow> nat"
    and contents :: "'q \<Rightarrow> 'a list"
    and invar :: "'q \<Rightarrow> bool"
  assumes invar_enq: "invar q \<Longrightarrow> invar (enq x q)"
    and invar_deq: "invar q \<Longrightarrow> n \<le> count q \<Longrightarrow> invar (snd (deq n q))"
    and count_contents: "invar q \<Longrightarrow> count q = length (contents q)"
    and count_cap: "invar q \<Longrightarrow> count q \<le> cap"
    and contents_enq: "invar q \<Longrightarrow>
      contents (enq x q) = drop (Suc (length (contents q)) - cap) (contents q @ [x])"
    and deq_taken: "invar q \<Longrightarrow> n \<le> count q \<Longrightarrow> fst (deq n q) = take n (contents q)"
    and deq_left: "invar q \<Longrightarrow> n \<le> count q \<Longrightarrow> contents (snd (deq n q)) = drop n (contents q)"
begin

lemma invar_enqs: "invar q \<Longrightarrow> invar (fold enq xs q)"
  by (induction xs arbitrary: q) (auto intro: invar_enq)

text \<open>Any number of insertions leaves the last \<open>cap\<close> elements ever held.\<close>

lemma contents_enqs:
  "invar q \<Longrightarrow> contents (fold enq xs q)
     = drop (length (contents q) + length xs - cap) (contents q @ xs)"
proof (induction xs arbitrary: q)
  case Nil
  then show ?case using count_cap count_contents by fastforce
next
  case (Cons x xs)
  let ?c = "contents q"
  have len: "length ?c \<le> cap" using Cons.prems count_cap count_contents by fastforce
  have "contents (fold enq (x # xs) q)
      = drop (length (contents (enq x q)) + length xs - cap) (contents (enq x q) @ xs)"
    using Cons.IH [OF invar_enq [OF Cons.prems]] by simp
  also have "contents (enq x q) = drop (Suc (length ?c) - cap) (?c @ [x])"
    by (rule contents_enq [OF Cons.prems])
  finally show ?case
    using len by (cases "length ?c < cap") (auto simp: drop_Cons')
qed

text \<open>What was put into an empty queue comes out whole and in order while it fits.\<close>

lemma enqs_deq_all:
  assumes "invar q" and "contents q = []" and "length xs \<le> cap"
  shows "fst (deq (length xs) (fold enq xs q)) = xs"
proof -
  have c: "contents (fold enq xs q) = xs"
    using contents_enqs [OF assms(1)] assms by simp
  then have "length xs \<le> count (fold enq xs q)"
    using count_contents [OF invar_enqs [OF assms(1)]] by simp
  then show ?thesis using deq_taken [OF invar_enqs [OF assms(1)]] c by simp
qed

text \<open>Reading in two goes is reading in one.\<close>

lemma deq_split:
  assumes "invar q" and "m + n \<le> count q"
  shows "fst (deq (m + n) q) = fst (deq m q) @ fst (deq n (snd (deq m q)))"
proof -
  have "m \<le> count q" using assms(2) by simp
  note m = deq_taken [OF assms(1) this] deq_left [OF assms(1) this] invar_deq [OF assms(1) this]
  have "n \<le> count (snd (deq m q))"
    using count_contents [OF m(3)] m(2) count_contents [OF assms(1)] assms(2) by simp
  then show ?thesis
    using deq_taken [OF m(3)] m(1,2) deq_taken [OF assms] by (simp add: take_add)
qed

text \<open>
  Whatever the run, what it returns followed by what is left is in the order of insertion
  with nothing invented or repeated; and nothing is missing while all fits and no result
  is lost.
\<close>

lemma run_ordered:
  "invar q \<Longrightarrow> invar (snd (fifo_run enq deq count ss q))
     \<and> subseq (fst (fifo_run enq deq count ss q) @ contents (snd (fifo_run enq deq count ss q)))
              (contents q @ puts ss)"
proof (induction ss arbitrary: q)
  case (Cons s ss)
  show ?case
  proof (cases s)
    case (Put x)
    have put: "subseq (contents (enq x q)) (contents q @ [x])"
      using contents_enq [OF Cons.prems] by (simp del: drop_append add: subseq_drop)
    have "subseq (contents (enq x q) @ puts ss) ((contents q @ [x]) @ puts ss)"
      by (rule list_emb_append_mono [OF put]) simp
    then show ?thesis
      using Put Cons.IH [OF invar_enq [OF Cons.prems, of x]] subseq_order.trans by fastforce
  next
    case (Take keep n)
    let ?m = "min n (count q)" let ?q1 = "snd (deq ?m q)"
    have q1: "invar ?q1" and c: "contents q = fst (deq ?m q) @ contents ?q1"
      using invar_deq [OF Cons.prems, of ?m] deq_taken [OF Cons.prems, of ?m]
        deq_left [OF Cons.prems, of ?m] by simp_all
    from Cons.IH [OF q1]
    have "subseq (fst (fifo_run enq deq count ss ?q1) @ contents (snd (fifo_run enq deq count ss ?q1)))
        (contents ?q1 @ puts ss)" and inv: "invar (snd (fifo_run enq deq count ss ?q1))" by auto
    then show ?thesis
      unfolding c Take by (auto simp: case_prod_beta Let_def
          intro: list_emb_append2 list_emb_append_mono [OF subseq_order.order_refl])
  qed
qed simp

lemma run_complete:
  "invar q \<Longrightarrow> all_kept ss \<Longrightarrow> length (contents q) + length (puts ss) \<le> cap \<Longrightarrow>
     fst (fifo_run enq deq count ss q) @ contents (snd (fifo_run enq deq count ss q))
       = contents q @ puts ss"
proof (induction ss arbitrary: q)
  case (Cons s ss)
  show ?case
  proof (cases s)
    case (Put x)
    then have "contents (enq x q) = contents q @ [x]"
      using contents_enq [OF Cons.prems(1)] Cons.prems(3) by simp
    then show ?thesis
      using Put Cons.IH [OF invar_enq [OF Cons.prems(1), of x]] Cons.prems by simp
  next
    case (Take keep n)
    let ?m = "min n (count q)" let ?q1 = "snd (deq ?m q)"
    have q1: "invar ?q1" and c: "contents q = fst (deq ?m q) @ contents ?q1"
      using invar_deq [OF Cons.prems(1), of ?m] deq_taken [OF Cons.prems(1), of ?m]
        deq_left [OF Cons.prems(1), of ?m] by simp_all
    have "length (contents ?q1) + length (puts ss) \<le> cap"
      using Cons.prems(3) Take arg_cong [OF c, of length] by simp
    with Cons.IH [OF q1] Cons.prems(2) Take show ?thesis
      by (subst c) (simp add: case_prod_beta Let_def)
  qed
qed simp

end

section \<open>The ring implements it\<close>

definition queue_ok :: "ts_queue \<Rightarrow> bool" where
  "queue_ok q \<longleftrightarrow> length (q_buf q) = 128 \<and> 0 \<le> q_head q \<and> q_head q < 128
     \<and> 0 \<le> q_tail q \<and> q_tail q < 128"

definition queue_list :: "ts_queue \<Rightarrow> extts_event list" where
  "queue_list q =
     map (\<lambda>i. q_buf q ! ((nat (q_head q) + i) mod 128)) [0..<nat (queue_cnt q)]"

named_theorems ring_simps
lemmas ring_consts [ring_simps] =
  PTP_MAX_TIMESTAMPS_def queue_cnt_def queue_free_def queue_ok_def Let_def

lemma queue_cnt_range: "queue_ok q \<Longrightarrow> 0 \<le> queue_cnt q \<and> queue_cnt q < 128"
  by (auto simp: ring_simps)

lemma queue_cnt_nat: "queue_ok q \<Longrightarrow> nat (queue_cnt q) < 128"
  using queue_cnt_range [of q] by linarith

lemma length_queue_list [simp]: "length (queue_list q) = nat (queue_cnt q)"
  by (simp add: queue_list_def)

lemma wrap_succ: "0 \<le> x \<Longrightarrow> x < 128 \<Longrightarrow> (x + 1) mod 128 = (if x = 127 then 0 else x + 1 :: int)"
  by (auto simp: mod_pos_pos_trivial)

lemma queue_cnt_eq:
  "queue_cnt q = (if q_tail q < q_head q then 128 + (q_tail q - q_head q)
                  else q_tail q - q_head q)"
  by (simp add: queue_cnt_def PTP_MAX_TIMESTAMPS_def Let_def)

text \<open>The two indices as naturals.\<close>

lemma queue_ok_nat:
  assumes "queue_ok q"
  obtains h t where "q_head q = int h" and "q_tail q = int t" and "h < 128" and "t < 128"
    and "queue_cnt q = int (if t < h then 128 + t - h else t - h)"
    and "length (q_buf q) = 128"
proof (rule that)
  show "q_head q = int (nat (q_head q))" "q_tail q = int (nat (q_tail q))"
    "nat (q_head q) < 128" "nat (q_tail q) < 128" "length (q_buf q) = 128"
    using assms by (auto simp: queue_ok_def)
  show "queue_cnt q
      = int (if nat (q_tail q) < nat (q_head q) then 128 + nat (q_tail q) - nat (q_head q)
             else nat (q_tail q) - nat (q_head q))"
    using assms by (auto simp: queue_cnt_eq queue_ok_def of_nat_diff nat_less_iff)
qed

lemma queue_tail_eq:
  assumes "queue_ok q"
  shows "nat (q_tail q) = (nat (q_head q) + nat (queue_cnt q)) mod 128"
proof -
  from assms obtain h t where "q_head q = int h" "q_tail q = int t" "h < 128" "t < 128"
    "queue_cnt q = int (if t < h then 128 + t - h else t - h)"
    by (rule queue_ok_nat)
  then show ?thesis by (auto simp: mod_if)
qed

lemma ring_slot_neq:
  "h < 128 \<Longrightarrow> i < j \<Longrightarrow> j < 128 \<Longrightarrow> (h + i) mod 128 \<noteq> (h + j) mod (128 :: nat)"
  by (auto simp: mod_if)

lemma ring_put_ok: "queue_ok q \<Longrightarrow> queue_ok (ring_put e q)"
  by (simp add: ring_put_def queue_ok_def PTP_MAX_TIMESTAMPS_def Let_def)

lemma ring_put_mask [simp]: "q_mask (ring_put e q) = q_mask q"
  by (simp add: ring_put_def Let_def)

lemma ring_put_buf: "q_buf (ring_put e q) = (q_buf q)[nat (q_tail q) := e]"
  by (simp add: ring_put_def Let_def)

lemma ring_put_head:
  "q_head (ring_put e q)
     = (if queue_cnt q = 127 then (q_head q + 1) mod 128 else q_head q)"
  by (simp add: ring_put_def queue_free_def queue_cnt_def PTP_MAX_TIMESTAMPS_def Let_def)

lemma ring_put_tail: "q_tail (ring_put e q) = (q_tail q + 1) mod 128"
  by (simp add: ring_put_def PTP_MAX_TIMESTAMPS_def Let_def)

lemma ring_put_cnt:
  assumes "queue_ok q"
  shows "queue_cnt (ring_put e q) = (if queue_cnt q = 127 then 127 else queue_cnt q + 1)"
proof -
  from assms obtain h t where ht: "q_head q = int h" "q_tail q = int t" "h < 128" "t < 128"
    and c: "queue_cnt q = int (if t < h then 128 + t - h else t - h)"
    by (rule queue_ok_nat)
  show ?thesis
    using ht unfolding queue_cnt_eq [of "ring_put e q"] ring_put_head ring_put_tail c
    by (auto simp: wrap_succ split: if_splits)
qed

text \<open>One turn of the copy loop.\<close>

abbreviation ring_pop :: "ts_queue \<Rightarrow> ts_queue" where
  "ring_pop q \<equiv> q\<lparr>q_head := (q_head q + 1) mod 128\<rparr>"

lemma ring_take_Suc:
  "ring_take (Suc n) q = (q_buf q ! nat (q_head q) # fst (ring_take n (ring_pop q)),
                          snd (ring_take n (ring_pop q)))"
  by (simp add: Let_def PTP_MAX_TIMESTAMPS_def split: prod.splits)

declare ring_take.simps(2) [simp del]

lemma ring_pop_ok: "queue_ok q \<Longrightarrow> queue_ok (ring_pop q)"
  by (simp add: queue_ok_def)

lemma ring_pop_cnt:
  assumes "queue_ok q" and "0 < queue_cnt q"
  shows "queue_cnt (ring_pop q) = queue_cnt q - 1"
  using assms by (auto simp: queue_ok_def queue_cnt_eq wrap_succ split: if_splits)

lemma ring_pop_list:
  assumes "queue_ok q" and "0 < queue_cnt q"
  shows "queue_list q = q_buf q ! nat (q_head q) # queue_list (ring_pop q)"
proof -
  define n where "n = nat (queue_cnt q - 1)"
  have n: "nat (queue_cnt q) = Suc n" "nat (queue_cnt (ring_pop q)) = n"
    using assms ring_pop_cnt [OF assms] by (auto simp: n_def)
  have h: "nat (q_head q) < 128" "nat ((q_head q + 1) mod 128) = (nat (q_head q) + 1) mod 128"
    using assms by (auto simp: queue_ok_def nat_mod_distrib nat_add_distrib)
  have "queue_list q = map (\<lambda>i. q_buf q ! ((nat (q_head q) + i) mod 128)) (0 # map Suc [0..<n])"
    unfolding queue_list_def n(1) by (simp only: upt_conv_Cons map_Suc_upt zero_less_Suc)
  also have "\<dots> = q_buf q ! nat (q_head q) # queue_list (ring_pop q)"
    unfolding queue_list_def n(2) using h by (simp add: mod_simps)
  finally show ?thesis .
qed

lemma ring_take_ok: "queue_ok q \<Longrightarrow> queue_ok (snd (ring_take n q))"
  by (induction n arbitrary: q) (auto simp: ring_take_Suc ring_pop_ok)

lemma ring_take_frame:
  "q_buf (snd (ring_take n q)) = q_buf q \<and> q_tail (snd (ring_take n q)) = q_tail q
     \<and> q_mask (snd (ring_take n q)) = q_mask q"
  by (induction n arbitrary: q) (auto simp: ring_take_Suc)

lemma ring_take_list:
  "queue_ok q \<Longrightarrow> int n \<le> queue_cnt q \<Longrightarrow>
     fst (ring_take n q) = take n (queue_list q)
     \<and> queue_list (snd (ring_take n q)) = drop n (queue_list q)"
proof (induction n arbitrary: q)
  case 0
  then show ?case by simp
next
  case (Suc n)
  then have "0 < queue_cnt q" "int n \<le> queue_cnt (ring_pop q)"
    by (auto simp: ring_pop_cnt)
  with Suc show ?case
    by (simp add: ring_take_Suc ring_pop_list ring_pop_ok)
qed

lemma ring_put_list:
  assumes "queue_ok q"
  shows "queue_list (ring_put e q)
    = drop (Suc (length (queue_list q)) - 127) (queue_list q @ [e])"
proof -
  let ?q1 = "q\<lparr>q_buf := (q_buf q)[nat (q_tail q) := e]\<rparr>"
  let ?n = "nat (queue_cnt q)"
  have n: "?n < 128" by (rule queue_cnt_nat [OF assms])
  have h: "nat (q_head q) < 128" and len: "length (q_buf q) = 128"
    using assms by (auto simp: queue_ok_def)
  have t: "nat (q_tail q) = (nat (q_head q) + ?n) mod 128" by (rule queue_tail_eq [OF assms])
  have c: "queue_cnt ?q1 = queue_cnt q" by (simp add: queue_cnt_eq)
  have neq: "(nat (q_head q) + ?n) mod 128 \<noteq> (nat (q_head q) + i) mod 128" if "i < ?n" for i
    using ring_slot_neq [OF h that n] by simp
  have old: "queue_list ?q1 = queue_list q"
    unfolding queue_list_def c using neq by (auto simp: t)
  have new: "q_buf ?q1 ! ((nat (q_head q) + ?n) mod 128) = e"
    using len by (simp add: t)
  show ?thesis
  proof (cases "queue_cnt q = 127")
    case False
    then have "queue_cnt (ring_put e q) = queue_cnt q + 1" "q_head (ring_put e q) = q_head q"
      using ring_put_cnt [OF assms] by (auto simp: ring_put_head)
    moreover have "0 \<le> queue_cnt q" using queue_cnt_range [OF assms] by simp
    ultimately have "queue_list (ring_put e q) = queue_list ?q1 @ [e]"
      unfolding queue_list_def using new
      by (simp add: ring_put_buf nat_add_distrib queue_cnt_eq)
    then show ?thesis using old False n by simp
  next
    case True
    have ok1: "queue_ok ?q1" using assms by (simp add: queue_ok_def)
    have c1: "queue_cnt ?q1 = 127" using True c by (simp only:)
    have pop: "queue_list ?q1 = q_buf ?q1 ! nat (q_head ?q1) # queue_list (ring_pop ?q1)"
      by (rule ring_pop_list [OF ok1]) (simp add: c1)
    have cp: "queue_cnt (ring_pop ?q1) = 126" using ring_pop_cnt [OF ok1] c1 by simp
    have cr: "queue_cnt (ring_put e q) = 127" using ring_put_cnt [OF assms] True by simp
    have hp: "q_head (ring_put e q) = q_head (ring_pop ?q1)"
      using True by (simp add: ring_put_head)
    have hn: "nat ((q_head q + 1) mod 128) = (nat (q_head q) + 1) mod 128"
      using assms by (auto simp: queue_ok_def nat_mod_distrib nat_add_distrib)
    have eq: "queue_list (ring_put e q) = queue_list (ring_pop ?q1) @ [e]"
      unfolding queue_list_def cr cp hp
      using new True hn by (simp add: add.commute ring_put_buf upt_Suc_append [of 0 126, simplified] mod_simps)
    from pop old have q: "queue_list q = q_buf ?q1 ! nat (q_head ?q1) # queue_list (ring_pop ?q1)"
      by (simp only:)
    have "Suc (length (queue_list q)) - 127 = 1" using True by simp
    then show ?thesis unfolding eq by (simp only: q append_Cons drop0 drop_Suc_Cons One_nat_def)
  qed
qed

lemma queue_list_new: "queue_list new_queue = [] \<and> queue_ok new_queue"
  by (simp add: queue_list_def new_queue_def queue_cnt_eq queue_ok_def)

interpretation ring: bounded_fifo 127 ring_put ring_take "\<lambda>q. nat (queue_cnt q)"
    queue_list queue_ok
proof
  fix q :: ts_queue and n
  assume ok: "queue_ok q"
  show "nat (queue_cnt q) \<le> 127" using queue_cnt_nat [OF ok] by linarith
  assume "n \<le> nat (queue_cnt q)"
  then have n: "int n \<le> queue_cnt q" using queue_cnt_range [OF ok] by linarith
  show "fst (ring_take n q) = take n (queue_list q)"
    and "queue_list (snd (ring_take n q)) = drop n (queue_list q)"
    using ring_take_list [OF ok n] by auto
qed (auto simp: ring_put_ok ring_take_ok ring_put_list)

end
