(* ===== verification/Ptp_Types.thy ===== *)
theory Ptp_Types
  imports Ts_Queue
begin

text \<open>
  The data the PTP core and its drivers exchange (\<open>include/linux/ptp_clock_kernel.h\<close> and the
  user-space structures it carries): pins, requests, and the table of driver callbacks
  \<open>struct ptp_clock_info\<close>.
\<close>

section \<open>Pins\<close>

text \<open>\<open>enum ptp_pin_function\<close>; any other number is \<open>PTP_PF_OTHER\<close>.\<close>

datatype ptp_pin_function =
  PTP_PF_NONE | PTP_PF_EXTTS | PTP_PF_PEROUT | PTP_PF_PHYSYNC | PTP_PF_OTHER nat

record ptp_pin_desc =
  pin_name :: string
  pin_index :: nat
  pin_func :: ptp_pin_function
  pin_chan :: nat

section \<open>Requests\<close>

record ptp_clock_time =
  pt_sec :: int
  pt_nsec :: nat

definition zero_time :: ptp_clock_time where
  "zero_time = \<lparr>pt_sec = 0, pt_nsec = 0\<rparr>"

record ptp_extts_request =
  xr_index :: nat
  xr_flags :: u32
  xr_rsv :: "u32 list"

text \<open>
  \<open>pr_start\<close> is the union of \<open>start\<close> and \<open>phase\<close>; \<open>pr_on\<close> with \<open>pr_on_rsv\<close> is the union of
  \<open>on\<close> and \<open>rsv[4]\<close>: the reserved words are all zero exactly if the time and its padding are.
\<close>

record ptp_perout_request =
  pr_start :: ptp_clock_time
  pr_period :: ptp_clock_time
  pr_index :: nat
  pr_flags :: u32
  pr_on :: ptp_clock_time
  pr_on_rsv :: u32

datatype ptp_clock_request =
    PTP_CLK_REQ_EXTTS ptp_extts_request
  | PTP_CLK_REQ_PEROUT ptp_perout_request
  | PTP_CLK_REQ_PPS

section \<open>Driver callbacks\<close>

text \<open>
  \<open>struct ptp_clock_info\<close> over a driver state \<open>'d\<close>. A callback that the driver may leave NULL
  is an option. Of a cross timestamp only the device time is kept. Reading the clock may update the driver's bookkeeping, so the getters return
  the state too. The pin table \<open>pin_config\<close> is state of the clock (theory \<open>Ptp_Clock\<close>).
\<close>

record 'd ptp_clock_info =
  max_adj :: int
  n_alarm :: int
  n_ext_ts :: nat
  n_per_out :: nat
  n_pins :: nat
  has_pps :: bool
  adjfine :: "s64 \<Rightarrow> 'd \<Rightarrow> ret \<times> 'd"
  adjphase :: "(s64 \<Rightarrow> 'd \<Rightarrow> ret \<times> 'd) option"
  getmaxphase :: "('d \<Rightarrow> int) option"
  adjtime :: "s64 \<Rightarrow> 'd \<Rightarrow> ret \<times> 'd"
  gettime64 :: "'d \<Rightarrow> (errno + timespec64) \<times> 'd"
  gettimex64 :: "('d \<Rightarrow> (errno + timespec64) \<times> 'd) option"
  getcrosststamp :: "('d \<Rightarrow> (errno + timespec64) \<times> 'd) option"
  settime64 :: "timespec64 \<Rightarrow> 'd \<Rightarrow> ret \<times> 'd"
  getcycles64 :: "('d \<Rightarrow> (errno + timespec64) \<times> 'd) option"
  getcyclesx64 :: "('d \<Rightarrow> (errno + timespec64) \<times> 'd) option"
  getcrosscycles :: "('d \<Rightarrow> (errno + timespec64) \<times> 'd) option"
  enable :: "ptp_clock_request \<Rightarrow> bool \<Rightarrow> 'd \<Rightarrow> ret \<times> 'd"
  verify :: "nat \<Rightarrow> ptp_pin_function \<Rightarrow> nat \<Rightarrow> 'd \<Rightarrow> bool"  \<comment> \<open>nonzero: refused\<close>
  do_aux_work :: "('d \<Rightarrow> int \<times> 'd) option"

text \<open>\<open>scaled_ppm_to_ppb\<close>: the shift is arithmetic.\<close>

definition scaled_ppm_to_ppb :: "s64 \<Rightarrow> s64" where
  "scaled_ppm_to_ppb ppm =
     (let ppb = 1 + ppm;
          ppb = ppb * 125
      in word_of_int (sint ppb div 2 ^ 13))"

lemma scaled_ppm_to_ppb_exact:
  assumes "\<bar>sint ppm\<bar> \<le> 2 ^ 55"
  shows "sint (scaled_ppm_to_ppb ppm) = (1 + sint ppm) * 125 div 2 ^ 13"
proof -
  have one: "sint (1 + ppm) = 1 + sint ppm"
    using assms by (subst sint_add_exact) (auto simp: s64_fits_def)
  have m: "sint ((1 + ppm) * 125) = (1 + sint ppm) * 125"
    using assms by (subst sint_mult_exact) (auto simp: s64_fits_def one)
  have "s64_fits ((1 + sint ppm) * 125 div 2 ^ 13)"
    using assms by (auto simp: s64_fits_def)
  then show ?thesis
    unfolding scaled_ppm_to_ppb_def Let_def m by (rule sint_word_of_int64)
qed

end
