(* ===== verification/Mock_Phc.thy ===== *)
theory Mock_Phc
  imports Ptp_Types
begin

text \<open>
  The mock PTP hardware clock (\<open>ptp/ptp_mock.c\<close>): time is CLOCK_MONOTONIC plus an offset that
  a frequency correction moves, and a timer simulates a 1PPS input with one external
  timestamp per CLOCK_TAI second. Every function takes the clock readings it makes as
  arguments: \<open>raw\<close>, \<open>mono_ns\<close> for \<open>ktime_get_ns()\<close>, \<open>tai\<close> for \<open>ktime_get_clocktai_ns()\<close>.
\<close>

section \<open>State\<close>

definition MOCK_PHC_MAX_ADJ_PPB :: int where "MOCK_PHC_MAX_ADJ_PPB = 500000000"
definition EXTTS_IDLE_POLL_NS :: u64 where "EXTTS_IDLE_POLL_NS = 100000000"
definition EXTTS_EDGE_SLACK_NS :: u64 where "EXTTS_EDGE_SLACK_NS = 1000000"
definition EXTTS_MAX_DELAY_MS :: u32 where "EXTTS_MAX_DELAY_MS = 900"

record mock_phc =
  logical_clk_id :: int
  offset_ns :: s64
  freq_ppb :: s64
  last_mono_ns :: u64
  extts_enabled :: bool
  extts_channel :: u32
  last_extts_sec :: u64
  extts_delay_ms :: u32

section \<open>Timekeeping\<close>

definition mock_phc_read_locked :: "u64 \<Rightarrow> mock_phc \<Rightarrow> u64 \<times> mock_phc" where
  "mock_phc_read_locked raw phc =
     (let elapsed = raw - last_mono_ns phc;
          phc1 = (if sint elapsed > 0 \<and> freq_ppb phc \<noteq> 0
                  then phc\<lparr>offset_ns := offset_ns phc
                                        + div_s64 (elapsed * freq_ppb phc) 1000000000\<rparr>
                  else phc);
          phc2 = phc1\<lparr>last_mono_ns := raw\<rparr>
      in (raw + offset_ns phc2, phc2))"

definition mock_phc_adjfine :: "u64 \<Rightarrow> s64 \<Rightarrow> mock_phc \<Rightarrow> ret \<times> mock_phc" where
  "mock_phc_adjfine raw scaled_ppm phc =
     (let phc1 = snd (mock_phc_read_locked raw phc)
      in (None, phc1\<lparr>freq_ppb := div_s64 (scaled_ppm * 1000) 65536\<rparr>))"

definition mock_phc_adjtime :: "u64 \<Rightarrow> s64 \<Rightarrow> mock_phc \<Rightarrow> ret \<times> mock_phc" where
  "mock_phc_adjtime raw delta phc =
     (let phc1 = snd (mock_phc_read_locked raw phc)
      in (None, phc1\<lparr>offset_ns := offset_ns phc1 + delta\<rparr>))"

definition mock_phc_settime64 :: "u64 \<Rightarrow> timespec64 \<Rightarrow> mock_phc \<Rightarrow> ret \<times> mock_phc" where
  "mock_phc_settime64 raw ts phc =
     (None, phc\<lparr>last_mono_ns := raw, offset_ns := timespec64_to_ns ts - raw, freq_ppb := 0\<rparr>)"

definition mock_phc_gettime64 :: "u64 \<Rightarrow> mock_phc \<Rightarrow> (errno + timespec64) \<times> mock_phc" where
  "mock_phc_gettime64 raw phc =
     (let (ns, phc1) = mock_phc_read_locked raw phc
      in (Inr (ns_to_timespec64 ns), phc1))"

section \<open>The 1PPS timer\<close>

text \<open>
  The timer callback: the event it sends, if any, the interval it forwards itself by, and the
  new state. It always restarts.
\<close>

definition mock_phc_extts_timer ::
    "u64 \<Rightarrow> u64 \<Rightarrow> mock_phc \<Rightarrow> ptp_event option \<times> u64 \<times> mock_phc" where
  "mock_phc_extts_timer tai_ns mono_ns phc =
     (let delay_ns = ucast (extts_delay_ms phc) * 1000000 :: u64
      in if \<not> extts_enabled phc then (None, EXTTS_IDLE_POLL_NS, phc)
      else
        (let tai_sec = tai_ns div 1000000000;
             late_ns = tai_ns - tai_sec * 1000000000;
             next_delta_ns = (1000000000 - late_ns) + delay_ns + EXTTS_EDGE_SLACK_NS;
             next_delta_ns = (if next_delta_ns < EXTTS_EDGE_SLACK_NS
                              then EXTTS_EDGE_SLACK_NS else next_delta_ns)
         in if tai_sec \<noteq> last_extts_sec phc then
              (if late_ns < delay_ns then (None, delay_ns - late_ns, phc)
               else
                 (let phc1 = phc\<lparr>last_extts_sec := tai_sec\<rparr>;
                      (phc_ns, phc2) = mock_phc_read_locked mono_ns phc1;
                      event = PTP_CLOCK_EXTTS (extts_channel phc2)
                                (phc_ns - (late_ns - delay_ns))
                  in (Some event, next_delta_ns, phc2)))
            else (None, next_delta_ns, phc)))"

section \<open>Requests and attributes\<close>

definition mock_phc_verify :: "nat \<Rightarrow> ptp_pin_function \<Rightarrow> nat \<Rightarrow> mock_phc \<Rightarrow> bool" where
  "mock_phc_verify pin func chan phc = False"

definition mock_phc_enable ::
    "u64 \<Rightarrow> u64 \<Rightarrow> ptp_clock_request \<Rightarrow> bool \<Rightarrow> mock_phc \<Rightarrow> ret \<times> mock_phc" where
  "mock_phc_enable mono_ns tai_ns rq on phc =
     (case rq of
        PTP_CLK_REQ_EXTTS ex \<Rightarrow>
          if xr_index ex \<ge> 1 then (Some EINVAL, phc)
          else if on then
            (let phc1 = phc\<lparr>extts_channel := of_nat (xr_index ex)\<rparr>;
                 phc2 = phc1\<lparr>last_mono_ns := mono_ns, offset_ns := tai_ns - mono_ns,
                             freq_ppb := 0\<rparr>;
                 phc3 = phc2\<lparr>last_extts_sec := tai_ns div 1000000000\<rparr>
             in (None, phc3\<lparr>extts_enabled := True\<rparr>))
          else (None, phc\<lparr>extts_enabled := False\<rparr>)
      | _ \<Rightarrow> (Some EOPNOTSUPP, phc))"

text \<open>
  The attribute \<open>extts_delay_ms\<close>. The written text is parsed by \<open>kstrtouint\<close>, whose answer is
  the argument; the result is the error or the byte count, and the delay the timer is
  restarted with, if it is.
\<close>

definition extts_delay_ms_show :: "mock_phc \<Rightarrow> u32" where
  "extts_delay_ms_show phc = extts_delay_ms phc"

definition extts_delay_ms_store ::
    "errno + u32 \<Rightarrow> nat \<Rightarrow> mock_phc \<Rightarrow> (errno + nat) \<times> u64 option \<times> mock_phc" where
  "extts_delay_ms_store parsed count phc =
     (case parsed of
        Inl err \<Rightarrow> (Inl err, None, phc)
      | Inr delay_ms \<Rightarrow>
          if delay_ms > EXTTS_MAX_DELAY_MS then (Inl ERANGE, None, phc)
          else
            (let phc1 = phc\<lparr>extts_delay_ms := delay_ms\<rparr>
             in (Inr count,
                 if extts_enabled phc1 then Some EXTTS_EDGE_SLACK_NS else None, phc1)))"

definition mock_phc_logical_clk_id :: "mock_phc \<Rightarrow> int" where
  "mock_phc_logical_clk_id phc = logical_clk_id phc"

section \<open>Creation\<close>

definition mock_pins :: "ptp_pin_desc list" where
  "mock_pins =
     [\<lparr>pin_name = ''GNSS-1PPS'', pin_index = 0, pin_func = PTP_PF_EXTTS, pin_chan = 0\<rparr>,
      \<lparr>pin_name = ''SMA1'', pin_index = 1, pin_func = PTP_PF_NONE, pin_chan = 0\<rparr>,
      \<lparr>pin_name = ''SMA2'', pin_index = 2, pin_func = PTP_PF_NONE, pin_chan = 0\<rparr>,
      \<lparr>pin_name = ''U.FL1'', pin_index = 3, pin_func = PTP_PF_NONE, pin_chan = 0\<rparr>,
      \<lparr>pin_name = ''U.FL2'', pin_index = 4, pin_func = PTP_PF_NONE, pin_chan = 0\<rparr>]"

text \<open>The callback table, at the clock readings the callbacks will make.\<close>

definition mock_phc_info :: "u64 \<Rightarrow> u64 \<Rightarrow> mock_phc ptp_clock_info" where
  "mock_phc_info mono_ns tai =
     \<lparr>max_adj = MOCK_PHC_MAX_ADJ_PPB, n_alarm = 0, n_ext_ts = 1, n_per_out = 0,
      n_pins = length mock_pins, has_pps = False,
      adjfine = mock_phc_adjfine mono_ns, adjphase = None, getmaxphase = None,
      adjtime = mock_phc_adjtime mono_ns, gettime64 = mock_phc_gettime64 mono_ns,
      gettimex64 = None, getcrosststamp = None, settime64 = mock_phc_settime64 mono_ns,
      getcycles64 = None, getcyclesx64 = None, getcrosscycles = None,
      enable = mock_phc_enable mono_ns tai, verify = mock_phc_verify, do_aux_work = None\<rparr>"

definition mock_phc_initial :: "u64 \<Rightarrow> int \<Rightarrow> mock_phc" where
  "mock_phc_initial raw lclk =
     \<lparr>logical_clk_id = lclk, offset_ns = 0, freq_ppb = 0, last_mono_ns = raw,
      extts_enabled = False, extts_channel = 0, last_extts_sec = 0, extts_delay_ms = 0\<rparr>"

section \<open>What a clock driver promises\<close>

text \<open>
  The contract between the PTP core and a clock driver: \<open>reading t d\<close> is the driver's scalar
  time when CLOCK_MONOTONIC is \<open>t\<close>. Setting it makes it read what was set, shifting it
  shifts it by exactly the amount, and reading it does not change it.
\<close>

locale ptp_hw_clock =
  fixes reading :: "u64 \<Rightarrow> 'd \<Rightarrow> u64"
    and gettime :: "u64 \<Rightarrow> 'd \<Rightarrow> (errno + timespec64) \<times> 'd"
    and settime :: "u64 \<Rightarrow> timespec64 \<Rightarrow> 'd \<Rightarrow> ret \<times> 'd"
    and adjust :: "u64 \<Rightarrow> s64 \<Rightarrow> 'd \<Rightarrow> ret \<times> 'd"
  assumes get_value: "fst (gettime t d) = Inr (ns_to_timespec64 (reading t d))"
    and get_stable: "reading t (snd (gettime t d)) = reading t d"
    and set_value: "reading t (snd (settime t ts d)) = timespec64_to_ns ts"
    and set_ok: "fst (settime t ts d) = None"
    and adj_value: "reading t (snd (adjust t delta d)) = reading t d + delta"
    and adj_ok: "fst (adjust t delta d) = None"
begin

lemma set_get: "ts_valid ts \<Longrightarrow> fst (gettime t (snd (settime t ts d))) = Inr ts"
  by (simp add: get_value set_value ts_roundtrip)

lemma adj_adj:
  "reading t (snd (adjust t b (snd (adjust t a d)))) = reading t (snd (adjust t (a + b) d))"
  by (simp add: adj_value add.assoc)

lemma adj_undo: "fst (gettime t (snd (adjust t (- a) (snd (adjust t a d))))) = fst (gettime t d)"
  by (simp add: get_value adj_value)

lemma set_then_shift:
  "fst (gettime t (snd (adjust t a (snd (settime t ts d)))))
     = Inr (ns_to_timespec64 (timespec64_to_ns ts + a))"
  by (simp add: get_value adj_value set_value)

end

section \<open>The mock clock keeps the contract\<close>

named_theorems phc_defs
lemmas phc_time_defs [phc_defs] =
  mock_phc_read_locked_def mock_phc_adjfine_def mock_phc_adjtime_def
  mock_phc_settime64_def mock_phc_gettime64_def

definition phc_reading :: "u64 \<Rightarrow> mock_phc \<Rightarrow> u64" where
  "phc_reading raw phc = fst (mock_phc_read_locked raw phc)"

lemma read_locked_pair: "mock_phc_read_locked raw phc
    = (phc_reading raw phc, snd (mock_phc_read_locked raw phc))"
  by (simp add: phc_reading_def)

lemma read_sync: "last_mono_ns (snd (mock_phc_read_locked raw phc)) = raw"
  by (simp add: mock_phc_read_locked_def Let_def)

lemma read_frame:
  "freq_ppb (snd (mock_phc_read_locked raw phc)) = freq_ppb phc
   \<and> extts_enabled (snd (mock_phc_read_locked raw phc)) = extts_enabled phc
   \<and> extts_channel (snd (mock_phc_read_locked raw phc)) = extts_channel phc
   \<and> last_extts_sec (snd (mock_phc_read_locked raw phc)) = last_extts_sec phc
   \<and> extts_delay_ms (snd (mock_phc_read_locked raw phc)) = extts_delay_ms phc"
  by (simp add: mock_phc_read_locked_def Let_def)

lemma reading_synced: "last_mono_ns phc = raw \<Longrightarrow> phc_reading raw phc = raw + offset_ns phc"
  by (simp add: phc_reading_def mock_phc_read_locked_def Let_def)

lemma read_offset: "raw + offset_ns (snd (mock_phc_read_locked raw phc)) = phc_reading raw phc"
  by (simp add: phc_reading_def mock_phc_read_locked_def Let_def)

interpretation mock: ptp_hw_clock phc_reading mock_phc_gettime64 mock_phc_settime64
    mock_phc_adjtime
proof
  fix t d ts delta
  show "fst (mock_phc_gettime64 t d) = Inr (ns_to_timespec64 (phc_reading t d))"
    by (simp add: mock_phc_gettime64_def phc_reading_def split: prod.splits)
  show "phc_reading t (snd (mock_phc_gettime64 t d)) = phc_reading t d"
    by (simp add: mock_phc_gettime64_def case_prod_beta reading_synced read_sync read_offset)
  show "phc_reading t (snd (mock_phc_settime64 t ts d)) = timespec64_to_ns ts"
    by (simp add: mock_phc_settime64_def reading_synced)
  show "phc_reading t (snd (mock_phc_adjtime t delta d)) = phc_reading t d + delta"
    using read_offset [of t d]
    by (simp add: mock_phc_adjtime_def Let_def reading_synced read_sync add.assoc [symmetric])
qed (simp_all add: mock_phc_settime64_def mock_phc_adjtime_def Let_def)

section \<open>How the clock runs\<close>

text \<open>
  Between two readings the clock advances by the elapsed monotonic time plus the frequency
  correction of it, as long as the product of the two fits the signed 64-bit intermediate.
\<close>

lemma read_drift:
  assumes "0 \<le> sint (raw - last_mono_ns phc)"
    and "s64_fits (sint (raw - last_mono_ns phc) * sint (freq_ppb phc))"
  shows "phc_reading raw phc = raw + offset_ns phc
    + word_of_int (sint (raw - last_mono_ns phc) * sint (freq_ppb phc) sdiv 1000000000)"
proof (cases "sint (raw - last_mono_ns phc) > 0 \<and> freq_ppb phc \<noteq> 0")
  case True
  then show ?thesis
    using assms(2)
    by (simp add: phc_reading_def mock_phc_read_locked_def Let_def div_s64_def sint_mult_exact)
next
  case False
  then have zero: "sint (raw - last_mono_ns phc) * sint (freq_ppb phc) = 0"
    using assms(1) by auto
  have "phc_reading raw phc = raw + offset_ns phc"
    using False by (auto simp: phc_reading_def mock_phc_read_locked_def Let_def)
  then show ?thesis unfolding zero by (simp add: signed_divide_int_def)
qed

lemma phc_advance:
  assumes "0 \<le> sint (t1 - t0)" and "s64_fits (sint (t1 - t0) * sint (freq_ppb p))"
  shows "phc_reading t1 (snd (mock_phc_read_locked t0 p)) - phc_reading t0 p
    = word_of_int (sint (t1 - t0) + sint (t1 - t0) * sint (freq_ppb p) sdiv 1000000000)"
proof -
  let ?p = "snd (mock_phc_read_locked t0 p)"
  have "phc_reading t1 ?p = t1 + offset_ns ?p
      + word_of_int (sint (t1 - t0) * sint (freq_ppb p) sdiv 1000000000)"
    using read_drift [of t1 ?p] assms by (simp add: read_sync read_frame)
  moreover have "phc_reading t0 p = t0 + offset_ns ?p" by (rule read_offset [symmetric])
  moreover have "t1 - t0 = (word_of_int (sint (t1 - t0)) :: u64)" by simp
  ultimately show ?thesis by simp
qed

text \<open>
  The correction is at most half of the elapsed time, so a corrected clock never runs
  backwards and never faster than one and a half times CLOCK_MONOTONIC. The bound on the
  time between readings is what keeps the product inside 64 bits.
\<close>

lemma drift_bounds:
  assumes "0 \<le> (e :: int)" and "\<bar>f\<bar> \<le> 500000000"
  shows "\<bar>2 * (e * f sdiv 1000000000)\<bar> \<le> e"
proof -
  have "\<bar>e * f\<bar> \<le> e * 500000000"
    using assms by (simp add: abs_mult mult_left_mono)
  then have "\<bar>e * f\<bar> div 1000000000 \<le> e * 500000000 div 1000000000"
    by (rule zdiv_mono1) simp
  then have "2 * \<bar>e * f sdiv 1000000000\<bar> \<le> 2 * (e * 500000000 div 1000000000)"
    by (simp add: sdiv_abs)
  also have "\<dots> \<le> e" by simp
  finally show ?thesis by (simp add: abs_mult)
qed

lemma drift_fits:
  assumes "0 \<le> (e :: int)" and "e \<le> 18446744073" and "\<bar>f\<bar> \<le> 500000000"
  shows "s64_fits (e * f)"
proof -
  have "\<bar>e * f\<bar> \<le> 18446744073 * 500000000"
    unfolding abs_mult using assms by (intro mult_mono) auto
  then show ?thesis by (auto simp: s64_fits_def abs_le_iff)
qed

text \<open>
  C1: . Between two readings at most 18.4 seconds apart, a mock clock whose correction is within
  its advertised \<open>max_adj\<close> advances by the elapsed monotonic time plus exactly its frequency
  correction, which is between half and one and a half times the elapsed time: it never
  runs backwards.
\<close>

theorem phc_advance_bounds:
  assumes "0 \<le> sint (t1 - t0)" and "sint (t1 - t0) \<le> 18446744073"
    and "\<bar>sint (freq_ppb p)\<bar> \<le> MOCK_PHC_MAX_ADJ_PPB"
  shows "\<exists>adv. phc_reading t1 (snd (mock_phc_read_locked t0 p)) - phc_reading t0 p = word_of_int adv
     \<and> adv = sint (t1 - t0) + sint (t1 - t0) * sint (freq_ppb p) sdiv 1000000000
     \<and> sint (t1 - t0) \<le> 2 * adv \<and> 2 * adv \<le> 3 * sint (t1 - t0)"
proof -
  let ?e = "sint (t1 - t0)" and ?f = "sint (freq_ppb p)"
  have f: "\<bar>?f\<bar> \<le> 500000000" using assms(3) by (simp add: MOCK_PHC_MAX_ADJ_PPB_def)
  have "phc_reading t1 (snd (mock_phc_read_locked t0 p)) - phc_reading t0 p
      = word_of_int (?e + ?e * ?f sdiv 1000000000)"
    by (rule phc_advance) (use assms f drift_fits in auto)
  with drift_bounds [OF assms(1) f] show ?thesis by (intro exI conjI) auto
qed

lemma phc_advance_bounds_witness:
  "\<exists>adv. phc_reading 1000000000 (snd (mock_phc_read_locked 0
        ((mock_phc_initial 0 1)\<lparr>freq_ppb := 100\<rparr>)))
      - phc_reading 0 ((mock_phc_initial 0 1)\<lparr>freq_ppb := 100\<rparr>) = word_of_int adv
     \<and> adv = 1000000100"
  using phc_advance_bounds [of 1000000000 0 "(mock_phc_initial 0 1)\<lparr>freq_ppb := 100\<rparr>"]
  by (auto simp: mock_phc_initial_def MOCK_PHC_MAX_ADJ_PPB_def signed_divide_int_def)

text \<open>
  . Beyond that bound the 64-bit product in \<open>mock_phc_read_locked\<close> overflows: at the maximal
  correction of +500000000 ppb, a clock that is not read for 20 seconds then shows about
  11.55 seconds instead of the 30 seconds that the correction of +10 seconds gives.
\<close>

theorem phc_drift_overflows:
  "phc_reading 20000000000 ((mock_phc_initial 0 0)\<lparr>freq_ppb := 500000000\<rparr>) = 11553255927
   \<and> sint (20000000000 :: s64) * 500000000 sdiv 1000000000 = 10000000000"
  by (simp add: phc_reading_def mock_phc_read_locked_def mock_phc_initial_def Let_def
      div_s64_def signed_divide_int_def)

section \<open>The 1PPS timer at work\<close>

text \<open>
  The timer's arithmetic over natural numbers: the second it is in, how late in it, the
  configured delay, and the interval it asks for.
\<close>

definition delay_nat :: "mock_phc \<Rightarrow> nat" where
  "delay_nat phc = unat (extts_delay_ms phc) * 1000000"

definition phc_ok :: "mock_phc \<Rightarrow> bool" where
  "phc_ok phc \<longleftrightarrow> unat (extts_delay_ms phc) \<le> 900"

definition next_nat :: "u64 \<Rightarrow> mock_phc \<Rightarrow> nat" where
  "next_nat tai phc = (1000000000 - unat tai mod 1000000000) + delay_nat phc + 1000000"

lemma delay_nat_bound: "phc_ok phc \<Longrightarrow> delay_nat phc \<le> 900000000"
  by (simp add: phc_ok_def delay_nat_def)

lemma u64_of_nat_eqI: "unat (w :: u64) = n \<Longrightarrow> w = of_nat n"
  by auto

lemma unat_of_nat64: "n < 2 ^ 64 \<Longrightarrow> unat (of_nat n :: u64) = n"
  by (simp add: unat_of_nat take_bit_nat_eq_self)

lemma late_word: "(tai :: u64) - tai div 1000000000 * 1000000000 = of_nat (unat tai mod 1000000000)"
proof -
  have "tai - tai div 1000000000 * 1000000000 = tai mod 1000000000"
    by (rule minus_div_mult_eq_mod)
  also have "\<dots> = of_nat (unat tai mod 1000000000)"
    by (rule u64_of_nat_eqI) (simp add: unat_mod)
  finally show ?thesis .
qed

lemma delay_word: "ucast (extts_delay_ms phc) * 1000000 = (of_nat (delay_nat phc) :: u64)"
  by (simp add: delay_nat_def)


text \<open>The callback in terms of natural numbers.\<close>

lemma next_word:
  assumes "phc_ok phc"
  shows "(1000000000 - of_nat (unat tai mod 1000000000)) + of_nat (delay_nat phc)
      + EXTTS_EDGE_SLACK_NS = (of_nat (next_nat tai phc) :: u64)"
proof -
  have "unat tai mod 1000000000 \<le> (1000000000 :: nat)" by (simp add: less_imp_le)
  then show ?thesis by (simp add: next_nat_def EXTTS_EDGE_SLACK_NS_def of_nat_diff)
qed

lemma next_nat_bounds:
  "phc_ok phc \<Longrightarrow> 1000000 < next_nat tai phc \<and> next_nat tai phc \<le> 1901000000"
  using delay_nat_bound [of phc] mod_less_divisor [of 1000000000 "unat tai"]
  unfolding next_nat_def by linarith

lemma extts_timer_eq:
  assumes "phc_ok phc" and "extts_enabled phc"
  shows "mock_phc_extts_timer tai m phc =
    (if tai div 1000000000 = last_extts_sec phc then (None, of_nat (next_nat tai phc), phc)
     else if unat tai mod 1000000000 < delay_nat phc
       then (None, of_nat (delay_nat phc - unat tai mod 1000000000), phc)
     else (let (ns, phc') = mock_phc_read_locked m (phc\<lparr>last_extts_sec := tai div 1000000000\<rparr>)
           in (Some (PTP_CLOCK_EXTTS (extts_channel phc)
                 (ns - of_nat (unat tai mod 1000000000 - delay_nat phc))),
               of_nat (next_nat tai phc), phc')))"
proof -
  let ?l = "unat tai mod 1000000000"
  have l: "?l < 1000000000" by simp
  have d: "delay_nat phc \<le> 900000000" by (rule delay_nat_bound [OF assms(1)])
  have less: "((of_nat ?l :: u64) < of_nat (delay_nat phc)) = (?l < delay_nat phc)"
    using l d by (simp add: word_less_nat_alt unat_of_nat64)
  have nb: "\<not> (of_nat (next_nat tai phc) :: u64) < EXTTS_EDGE_SLACK_NS"
    using next_nat_bounds [OF assms(1), of tai]
    by (simp add: word_less_nat_alt unat_of_nat64 EXTTS_EDGE_SLACK_NS_def)
  show ?thesis
    unfolding mock_phc_extts_timer_def delay_word late_word Let_def next_word [OF assms(1)]
    using assms(2) nb less
    by (simp add: of_nat_diff case_prod_beta read_frame)
qed

lemma reading_last_sec [simp]:
  "phc_reading m (phc\<lparr>last_extts_sec := x\<rparr>) = phc_reading m phc"
  by (simp add: phc_reading_def mock_phc_read_locked_def Let_def)

text \<open>Every operation keeps the bound on the delay.\<close>

lemma phc_ok_read: "phc_ok phc \<Longrightarrow> phc_ok (snd (mock_phc_read_locked raw phc))"
  by (simp add: phc_ok_def read_frame)

lemma phc_ok_store: "phc_ok phc \<Longrightarrow> phc_ok (snd (snd (extts_delay_ms_store r n phc)))"
  by (auto simp: extts_delay_ms_store_def phc_ok_def EXTTS_MAX_DELAY_MS_def Let_def
      word_less_nat_alt split: sum.splits)

lemma phc_ok_enable: "phc_ok phc \<Longrightarrow> phc_ok (snd (mock_phc_enable m tai rq on phc))"
  by (simp add: mock_phc_enable_def phc_ok_def Let_def split: ptp_clock_request.splits)

lemma phc_ok_timer:
  assumes "phc_ok phc"
  shows "phc_ok (snd (snd (mock_phc_extts_timer tai m phc)))"
proof (cases "extts_enabled phc")
  case True
  have ok': "phc_ok (phc\<lparr>last_extts_sec := tai div 1000000000\<rparr>)"
    using assms by (simp add: phc_ok_def)
  show ?thesis
    using phc_ok_read [OF ok', of m] assms
    by (simp add: extts_timer_eq [OF assms True] case_prod_beta)
next
  case False
  then show ?thesis using assms by (simp add: mock_phc_extts_timer_def Let_def)
qed

lemma extts_timer_state:
  assumes "phc_ok phc" and "extts_enabled phc"
  shows "last_extts_sec (snd (snd (mock_phc_extts_timer tai m phc)))
      = (if fst (mock_phc_extts_timer tai m phc) = None then last_extts_sec phc
         else tai div 1000000000)
    \<and> extts_enabled (snd (snd (mock_phc_extts_timer tai m phc)))
    \<and> (fst (mock_phc_extts_timer tai m phc) \<noteq> None
        \<longrightarrow> tai div 1000000000 \<noteq> last_extts_sec phc)"
  using assms(2) by (simp add: extts_timer_eq [OF assms] case_prod_beta read_frame)

text \<open>A run of callbacks at given clock readings: the TAI seconds it sent an event for.\<close>

primrec timer_run :: "(u64 \<times> u64) list \<Rightarrow> mock_phc \<Rightarrow> nat list" where
  "timer_run [] phc = []"
| "timer_run (c # cs) phc =
     (let (ev, fwd, phc') = mock_phc_extts_timer (fst c) (snd c) phc
      in if ev = None then timer_run cs phc'
         else unat (fst c) div 1000000000 # timer_run cs phc')"

lemma unat_sec: "unat (tai div 1000000000 :: u64) = unat tai div 1000000000"
  by (simp add: unat_div)



lemma next_target:
  "t + ((1000000000 - t mod 1000000000) + d) = (t div 1000000000 + 1) * 1000000000 + (d :: nat)"
proof -
  define q r where "q = t div 1000000000" and "r = t mod 1000000000"
  have t: "t = q * 1000000000 + r" unfolding q_def r_def by (rule div_mult_mod_eq [symmetric])
  have "r < 1000000000" unfolding r_def by simp
  then have "r + (1000000000 - r) = 1000000000" by simp
  then show ?thesis
    unfolding q_def [symmetric] r_def [symmetric] by (simp add: t algebra_simps)
qed

lemma unat_add_of_nat: "unat a + n < 2 ^ 64 \<Longrightarrow> unat (a + of_nat n :: u64) = unat a + n"
  by (simp add: unat_word_ariths unat_of_nat64)

lemma late_second:
  assumes "unat (t :: u64) = n * 1000000000 + x" and "x < 1000000000"
  shows "unat (t div 1000000000) = n" and "unat t mod 1000000000 = x"
proof -
  show "unat (t div 1000000000) = n"
    unfolding unat_sec assms(1) using assms(2) by (simp only: div_mult_self3 div_less)
  show "unat t mod 1000000000 = x"
    unfolding assms(1) using assms(2) by (simp only: mod_mult_self3 mod_less)
qed

text \<open>A callback past the delay in a second it has not reported yet sends the event.\<close>

lemma extts_timer_fires:
  assumes "phc_ok phc" and "extts_enabled phc"
    and t: "unat tai = n * 1000000000 + (delay_nat phc + x)"
    and x: "delay_nat phc + x < 1000000000" and "unat (last_extts_sec phc) \<noteq> n"
  shows "fst (mock_phc_extts_timer tai m phc)
      = Some (PTP_CLOCK_EXTTS (extts_channel phc) (phc_reading m phc - of_nat x))
    \<and> unat (last_extts_sec (snd (snd (mock_phc_extts_timer tai m phc)))) = n"
proof -
  have sec: "unat (tai div 1000000000) = n" by (rule late_second(1) [OF t x])
  have late: "unat tai mod 1000000000 = delay_nat phc + x" by (rule late_second(2) [OF t x])
  have "tai div 1000000000 \<noteq> last_extts_sec phc" using sec assms(5) by auto
  then have "fst (mock_phc_extts_timer tai m phc)
      = Some (PTP_CLOCK_EXTTS (extts_channel phc) (phc_reading m phc - of_nat x))"
    unfolding extts_timer_eq [OF assms(1,2)] late
    by (simp add: case_prod_beta phc_reading_def [symmetric])
  then show ?thesis using extts_timer_state [OF assms(1,2), of tai m] sec by simp
qed

text \<open>What a callback leaves for the next one.\<close>

lemma extts_timer_rearm:
  assumes "phc_ok phc" and "extts_enabled phc"
    and call: "mock_phc_extts_timer tai m phc = (ev, fwd, p1)"
  defines "wait \<equiv> ev = None \<and> last_extts_sec phc \<noteq> tai div 1000000000"
  shows "unat tai + unat fwd = (unat tai div 1000000000 + (if wait then 0 else 1)) * 1000000000
      + delay_nat phc + (if wait then 0 else 1000000)"
    and "phc_ok p1 \<and> extts_enabled p1 \<and> extts_channel p1 = extts_channel phc
      \<and> delay_nat p1 = delay_nat phc"
    and "if wait then p1 = phc else last_extts_sec p1 = tai div 1000000000"
proof -
  note eq = call [unfolded extts_timer_eq [OF assms(1,2)] case_prod_beta Let_def]
  have nn: "unat (of_nat (next_nat tai phc) :: u64) = next_nat tai phc"
    by (rule unat_of_nat64) (use next_nat_bounds [OF assms(1), of tai] in simp)
  have nt: "unat tai + next_nat tai phc
      = (unat tai div 1000000000 + 1) * 1000000000 + delay_nat phc + 1000000"
    using next_target [of "unat tai" "delay_nat phc + 1000000"] by (simp add: next_nat_def)
  have dn: "unat (of_nat (delay_nat phc - unat tai mod 1000000000) :: u64)
      = delay_nat phc - unat tai mod 1000000000"
    by (rule unat_of_nat64) (use delay_nat_bound [OF assms(1)] in simp)
  have dm: "unat tai div 1000000000 * 1000000000 + unat tai mod 1000000000 = unat tai"
    by (rule div_mult_mod_eq)
  show "unat tai + unat fwd = (unat tai div 1000000000 + (if wait then 0 else 1)) * 1000000000
      + delay_nat phc + (if wait then 0 else 1000000)"
  proof (cases "ev = None \<and> last_extts_sec phc \<noteq> tai div 1000000000")
    case True
    then have "fwd = of_nat (delay_nat phc - unat tai mod 1000000000)"
      and "unat tai mod 1000000000 < delay_nat phc"
      using eq by (auto simp del: of_nat_diff split: if_splits)
    then have "unat fwd + unat tai mod 1000000000 = delay_nat phc"
      using dn by (simp del: of_nat_diff)
    then have "unat tai + unat fwd = unat tai div 1000000000 * 1000000000 + delay_nat phc"
      using dm by linarith
    then show ?thesis using True unfolding wait_def by simp
  next
    case False
    then have "fwd = of_nat (next_nat tai phc)"
      using eq by (auto simp del: of_nat_diff split: if_splits)
    then show ?thesis using False nn nt unfolding wait_def by simp
  qed
  show "phc_ok p1 \<and> extts_enabled p1 \<and> extts_channel p1 = extts_channel phc
      \<and> delay_nat p1 = delay_nat phc"
    using eq assms(1,2)
    by (auto simp: phc_ok_def delay_nat_def read_frame split: if_splits)
  show "if wait then p1 = phc else last_extts_sec p1 = tai div 1000000000"
    using eq unfolding wait_def by (auto simp: read_frame split: if_splits)
qed

text \<open>
  C3: . On time: take any callback of the enabled timer, at CLOCK_TAI time \<open>tai\<close>, the interval
  \<open>fwd\<close> it forwards itself by and the state it leaves. The interval ends exactly at the
  configured delay after the start of a TAI second: of the current one when the callback
  found it unreported but its delay not yet over, and otherwise, a slack of 1 ms later, of the
  next one. The callback that follows, when the kernel runs it \<open>j\<close> nanoseconds after that,
  sends the event of that second, and its timestamp is the clock's reading minus exactly the
  slack and \<open>j\<close>: the reading at the delayed edge, whatever the scheduling latency. The
  conditions are that the delay is one the attribute accepts, that CLOCK_TAI does not reach
  its 64-bit end, and that delay, slack and latency together stay below a second.
\<close>

theorem extts_on_time:
  assumes "phc_ok phc" and "extts_enabled phc"
    and "mock_phc_extts_timer tai m phc = (ev, fwd, p1)"
    and "unat tai + 1901000000 + j < 2 ^ 64"
    and "unat (extts_delay_ms phc) * 1000000 + 1000000 + j < 1000000000"
    and wait: "wait = (ev = None \<and> last_extts_sec phc \<noteq> tai div 1000000000)"
    and slack: "slack = (if wait then 0 else 1000000)"
    and edge: "edge = unat tai div 1000000000 + (if wait then 0 else 1)"
  shows "unat tai + unat fwd
        = edge * 1000000000 + unat (extts_delay_ms phc) * 1000000 + slack
    \<and> (\<exists>fwd' p2. mock_phc_extts_timer (tai + fwd + of_nat j) m' p1
        = (Some (PTP_CLOCK_EXTTS (extts_channel phc) (phc_reading m' p1 - of_nat (slack + j))),
           fwd', p2)
        \<and> unat (last_extts_sec p2) = edge)"
proof -
  have w: "(ev = None \<and> last_extts_sec phc \<noteq> tai div 1000000000) = wait" by (rule wait [symmetric])
  note rearm = extts_timer_rearm [OF assms(1-3), unfolded w, folded slack edge]
  have total: "unat tai + unat fwd = edge * 1000000000 + delay_nat phc + slack" by (rule rearm(1))
  have "edge * 1000000000 \<le> unat tai + 1000000000"
    using div_times_less_eq_dividend [of "unat tai" 1000000000] unfolding edge
    by (cases wait) simp_all
  moreover have "slack \<le> 1000000" unfolding slack by simp
  ultimately have "unat tai + unat fwd \<le> unat tai + 1901000000"
    using delay_nat_bound [OF assms(1)] total by linarith
  then have fit: "unat (tai + fwd) + j < 2 ^ 64" "unat (tai + fwd) = unat tai + unat fwd"
    using assms(4) unat_add_of_nat [of tai "unat fwd"] by simp_all
  let ?t = "tai + fwd + of_nat j"
  have t: "unat ?t = edge * 1000000000 + (delay_nat p1 + (slack + j))"
    using unat_add_of_nat [OF fit(1)] fit(2) total rearm(2) by simp
  have x: "delay_nat p1 + (slack + j) < 1000000000"
    using assms(5) rearm(2) unfolding slack delay_nat_def by (simp split: if_split)
  have new: "unat (last_extts_sec p1) \<noteq> edge"
    using rearm(3) wait unfolding edge
    by (cases wait) (auto simp: unat_sec [symmetric] simp del: unat_div dest: word_unat_eq_iff [THEN iffD2])
  note fires = extts_timer_fires [OF _ _ t x new, of m']
  show ?thesis
    using fires rearm(2) total unfolding delay_nat_def
    by (cases "mock_phc_extts_timer ?t m' p1") auto
qed

lemma extts_on_time_witness:
  "\<exists>fwd' p2. mock_phc_extts_timer 7001000007 3
      ((mock_phc_initial 0 0)\<lparr>extts_enabled := True, last_extts_sec := 6\<rparr>)
    = (Some (PTP_CLOCK_EXTTS 0 (phc_reading 3
        ((mock_phc_initial 0 0)\<lparr>extts_enabled := True, last_extts_sec := 6\<rparr>) - 1000007)),
       fwd', p2) \<and> unat (last_extts_sec p2) = 7"
proof -
  let ?p = "(mock_phc_initial 0 0)\<lparr>extts_enabled := True, last_extts_sec := 6\<rparr>"
  have call: "mock_phc_extts_timer 6005000000 2 ?p = (None, 996000000, ?p)"
    by (simp add: mock_phc_extts_timer_def mock_phc_initial_def EXTTS_EDGE_SLACK_NS_def)
  have ok: "phc_ok ?p" and on: "extts_enabled ?p"
    by (simp_all add: phc_ok_def mock_phc_initial_def)
  have fit: "unat (6005000000 :: u64) + 1901000000 + 7 < 2 ^ 64" by simp
  have short: "unat (extts_delay_ms ?p) * 1000000 + 1000000 + 7 < 1000000000"
    by (simp add: mock_phc_initial_def)
  have reported: "False = (None = (None :: ptp_event option)
      \<and> last_extts_sec ?p \<noteq> (6005000000 :: u64) div 1000000000)" by simp
  have slack: "(1000000 :: nat) = (if False then 0 else 1000000)" by simp
  have edge: "(7 :: nat) = unat (6005000000 :: u64) div 1000000000 + (if False then 0 else 1)"
    by simp
  have "extts_channel ?p = 0" by (simp add: mock_phc_initial_def)
  then show ?thesis
    using extts_on_time [OF ok on call fit short reported slack edge, of 3] by simp
qed

text \<open>
  . Enabling the 1PPS input parks the clock on CLOCK_TAI: it then reads TAI at that moment
  plus the monotonic time since, however CLOCK_TAI is stepped later, and the rest of the
  TAI second in which it was enabled gives no event.
\<close>

theorem extts_enable_parks:
  assumes "xr_index ex = 0"
  shows "phc_reading t (snd (mock_phc_enable mono_ns tai (PTP_CLK_REQ_EXTTS ex) True phc))
      = tai + (t - mono_ns)
    \<and> (tai' div 1000000000 = tai div 1000000000 \<longrightarrow>
        fst (mock_phc_extts_timer tai' m
          (snd (mock_phc_enable mono_ns tai (PTP_CLK_REQ_EXTTS ex) True phc))) = None)"
  using assms
  by (simp add: mock_phc_enable_def phc_reading_def mock_phc_read_locked_def
      mock_phc_extts_timer_def Let_def)

lemma extts_enable_parks_witness:
  "phc_reading 12 (snd (mock_phc_enable 5 100
      (PTP_CLK_REQ_EXTTS \<lparr>xr_index = 0, xr_flags = 1, xr_rsv = [0, 0]\<rparr>) True
      (mock_phc_initial 0 0))) = 107"
  using extts_enable_parks
    [of "\<lparr>xr_index = 0, xr_flags = 1, xr_rsv = [0, 0]\<rparr>" 12 5 100 "mock_phc_initial 0 0"]
  by simp

end
