(* ===== verification/Xarray.thy ===== *)
theory Xarray
  imports Prelude
begin

text \<open>
  The kernel's XArray as the code uses it: a finite map from indices to entries, walked in
  increasing index order. It is kept as an association list sorted by index, so that a walk
  is a list traversal. The locale \<open>index_map\<close> is the interface the components rely on.
\<close>

section \<open>Operations\<close>

type_synonym 'a xarray = "(nat \<times> 'a) list"

definition xa_load :: "'a xarray \<Rightarrow> nat \<Rightarrow> 'a option" where
  "xa_load xa i = map_of xa i"

definition xa_empty :: "'a xarray \<Rightarrow> bool" where
  "xa_empty xa \<longleftrightarrow> xa = []"

fun xa_store :: "nat \<Rightarrow> 'a \<Rightarrow> 'a xarray \<Rightarrow> 'a xarray" where
  "xa_store i v [] = [(i, v)]"
| "xa_store i v ((j, w) # xa) =
     (if i < j then (i, v) # (j, w) # xa
      else if i = j then (i, v) # xa
      else (j, w) # xa_store i v xa)"

definition xa_erase :: "nat \<Rightarrow> 'a xarray \<Rightarrow> 'a xarray" where
  "xa_erase i xa = filter (\<lambda>p. fst p \<noteq> i) xa"

text \<open>
  \<open>xa_insert\<close> refuses an occupied index with \<open>-EBUSY\<close>, and fails with \<open>-ENOMEM\<close> when its
  node allocation does (the Boolean argument says whether that succeeds).
\<close>

definition xa_insert :: "bool \<Rightarrow> nat \<Rightarrow> 'a \<Rightarrow> 'a xarray \<Rightarrow> errno + 'a xarray" where
  "xa_insert mem i v xa =
     (if xa_load xa i \<noteq> None then Inl EBUSY
      else if \<not> mem then Inl ENOMEM
      else Inr (xa_store i v xa))"

text \<open>A write through the pointer that the entry at an index is.\<close>

definition xa_modify :: "nat \<Rightarrow> ('a \<Rightarrow> 'a) \<Rightarrow> 'a xarray \<Rightarrow> 'a xarray" where
  "xa_modify i f xa = map (\<lambda>(j, w). if j = i then (j, f w) else (j, w)) xa"

definition xa_ok :: "'a xarray \<Rightarrow> bool" where
  "xa_ok xa \<longleftrightarrow> sorted_wrt (<) (map fst xa)"

section \<open>The interface\<close>

locale index_map =
  fixes load :: "'m \<Rightarrow> nat \<Rightarrow> 'a option"
    and store :: "nat \<Rightarrow> 'a \<Rightarrow> 'm \<Rightarrow> 'm"
    and erase :: "nat \<Rightarrow> 'm \<Rightarrow> 'm"
    and modify :: "nat \<Rightarrow> ('a \<Rightarrow> 'a) \<Rightarrow> 'm \<Rightarrow> 'm"
    and invar :: "'m \<Rightarrow> bool"
  assumes load_store: "invar m \<Longrightarrow> load (store i v m) = (load m)(i \<mapsto> v)"
    and load_erase: "load (erase i m) = (load m)(i := None)"
    and load_modify: "load (modify i f m) j = (if j = i then map_option f (load m i) else load m j)"
    and invar_store: "invar m \<Longrightarrow> invar (store i v m)"
    and invar_erase: "invar m \<Longrightarrow> invar (erase i m)"
    and invar_modify: "invar m \<Longrightarrow> invar (modify i f m)"
    and extensional: "invar m \<Longrightarrow> invar m' \<Longrightarrow> load m = load m' \<Longrightarrow> m = m'"
begin

text \<open>Undoing an insertion gives back the very same map.\<close>

lemma erase_store:
  assumes "invar m" and "load m i = None"
  shows "erase i (store i v m) = m"
proof (rule extensional)
  show "load (erase i (store i v m)) = load m"
    using assms by (auto simp: load_erase load_store)
qed (use assms in \<open>simp_all add: invar_erase invar_store\<close>)

lemma modify_store: "invar m \<Longrightarrow> modify i f (store i v m) = store i (f v) m"
  by (rule extensional) (auto simp: load_modify load_store invar_store invar_modify)

lemma modify_modify: "invar m \<Longrightarrow> modify i g (modify i f m) = modify i (g \<circ> f) m"
  by (rule extensional)
    (auto simp: load_modify invar_modify option.map_comp fun_eq_iff)

lemma modify_id: "invar m \<Longrightarrow> (\<And>v. load m i = Some v \<Longrightarrow> f v = v) \<Longrightarrow> modify i f m = m"
  by (rule extensional) (auto simp: load_modify invar_modify fun_eq_iff map_option_case split: option.split)

lemma store_load: "invar m \<Longrightarrow> load m i = Some v \<Longrightarrow> store i v m = m"
  by (rule extensional) (auto simp: load_store invar_store fun_eq_iff)

lemma modify_eq_store:
  "invar m \<Longrightarrow> load m i = Some v \<Longrightarrow> modify i f m = store i (f v) m"
  by (rule extensional) (auto simp: load_store load_modify invar_store invar_modify fun_eq_iff)

lemma erase_modify: "invar m \<Longrightarrow> erase i (modify i f m) = erase i m"
  by (rule extensional) (auto simp: load_erase load_modify invar_erase invar_modify fun_eq_iff)

end

section \<open>The sorted list implements it\<close>

lemma xa_ok_Nil [simp]: "xa_ok []"
  by (simp add: xa_ok_def)

lemma xa_ok_Cons: "xa_ok ((i, v) # xa) \<longleftrightarrow> (\<forall>p\<in>set xa. i < fst p) \<and> xa_ok xa"
  by (auto simp: xa_ok_def)

lemma xa_load_simps [simp]:
  "xa_load [] i = None"
  "xa_load ((j, v) # xa) i = (if i = j then Some v else xa_load xa i)"
  by (simp_all add: xa_load_def)

lemma xa_load_above: "\<forall>p\<in>set xa. i < fst p \<Longrightarrow> xa_load xa i = None"
  by (induction xa) auto

lemma xa_load_in: "xa_ok xa \<Longrightarrow> xa_load xa i = Some v \<longleftrightarrow> (i, v) \<in> set xa"
  by (simp add: xa_load_def xa_ok_def strict_sorted_iff)

lemma xa_load_store: "xa_ok xa \<Longrightarrow> xa_load (xa_store i v xa) = (xa_load xa)(i \<mapsto> v)"
  by (induction i v xa rule: xa_store.induct) (auto simp: xa_ok_Cons fun_eq_iff)

lemma xa_store_fst: "p \<in> set (xa_store i v xa) \<Longrightarrow> p = (i, v) \<or> p \<in> set xa"
  by (induction i v xa rule: xa_store.induct) (auto split: if_splits)

lemma xa_ok_store: "xa_ok xa \<Longrightarrow> xa_ok (xa_store i v xa)"
  by (induction i v xa rule: xa_store.induct)
    (auto simp: xa_ok_Cons dest!: xa_store_fst)

lemma xa_load_erase: "xa_load (xa_erase i xa) = (xa_load xa)(i := None)"
  by (induction xa) (auto simp: xa_erase_def fun_eq_iff)

lemma xa_ok_erase: "xa_ok xa \<Longrightarrow> xa_ok (xa_erase i xa)"
  by (induction xa) (auto simp: xa_erase_def xa_ok_Cons)

lemma xa_load_modify:
  "xa_load (xa_modify i f xa) j = (if j = i then map_option f (xa_load xa i) else xa_load xa j)"
  by (induction xa) (auto simp: xa_modify_def)

lemma fst_modify: "map fst (xa_modify i f xa) = map fst xa"
  by (induction xa) (auto simp: xa_modify_def)

lemma xa_ok_modify: "xa_ok (xa_modify i f xa) = xa_ok xa"
  by (simp add: xa_ok_def fst_modify)

lemma xa_ext: "xa_ok xa \<Longrightarrow> xa_ok ya \<Longrightarrow> xa_load xa = xa_load ya \<Longrightarrow> xa = ya"
proof (induction xa arbitrary: ya)
  case Nil
  then show ?case by (cases ya) (auto simp: fun_eq_iff split: if_splits)
next
  case (Cons p xa)
  obtain i v where p: "p = (i, v)" by (cases p)
  show ?case
  proof (cases ya)
    case Nil
    then show ?thesis using Cons.prems(3) p by (auto simp: fun_eq_iff split: if_splits)
  next
    case (Cons q yb)
    obtain j w where q: "q = (j, w)" by (cases q)
    note ok = Cons.prems(1,2)[unfolded p \<open>ya = q # yb\<close> q xa_ok_Cons]
    have eq: "\<And>k. (if k = i then Some v else xa_load xa k) = (if k = j then Some w else xa_load yb k)"
      using Cons.prems(3) p q \<open>ya = q # yb\<close> by (simp add: fun_eq_iff)
    have ij: "i = j"
      using eq [of i] eq [of j] ok
      by (metis less_asym' option.distinct(1) xa_load_in fst_conv)
    have "xa_load xa = xa_load yb"
    proof
      fix k
      show "xa_load xa k = xa_load yb k"
        using eq [of k] ok ij xa_load_above [of xa i] xa_load_above [of yb i]
        by (cases "k = i") auto
    qed
    then show ?thesis using Cons.IH ok ij eq [of i] p q \<open>ya = q # yb\<close> by simp
  qed
qed

interpretation xa: index_map xa_load xa_store xa_erase xa_modify xa_ok
  by unfold_locales
    (auto simp: xa_load_store xa_load_erase xa_load_modify xa_ok_modify
      intro: xa_ok_store xa_ok_erase xa_ext)

lemma xa_erase_absent: "xa_ok xa \<Longrightarrow> xa_load xa i = None \<Longrightarrow> xa_erase i xa = xa"
  by (rule xa_ext) (auto simp: xa_load_erase xa_ok_erase fun_eq_iff)

lemma xa_insert_Inr:
  "xa_insert mem i v xa = Inr xa' \<longleftrightarrow> xa_load xa i = None \<and> mem \<and> xa' = xa_store i v xa"
  by (auto simp: xa_insert_def)

lemma find_xa_load: "xa_ok xa \<Longrightarrow> find P xa = Some (i, v) \<Longrightarrow> xa_load xa i = Some v \<and> P (i, v)"
  by (auto dest!: find_Some_iff_in simp: xa_load_in)

end
