(* ===== verification/Ptp_Clock.thy ===== *)
theory Ptp_Clock
  imports Mock_Phc Xarray
begin

text \<open>
  The PTP core (\<open>ptp/ptp_clock.c\<close>, and the pin handling of \<open>ptp/ptp_chardev.c\<close>): the posix
  clock operations, the distribution of events to the readers' queues, the assignment of
  functions to pins, and the registration of clocks. The driver is reached through its
  callback table only. The configuration is the one of the native kernel, with
  \<open>HAVE_POSIX_CLOCK_CONTEXT\<close> and \<open>HAVE_PTP_CLOCK_EXTOFF\<close>.
\<close>

section \<open>State\<close>

definition PTP_MAX_ALARMS :: int where "PTP_MAX_ALARMS = 4"
definition PTP_DEFAULT_MAX_VCLOCKS :: nat where "PTP_DEFAULT_MAX_VCLOCKS = 20"

text \<open>
  \<open>struct ptp_clock\<close>. The pin table that \<open>info->pin_config\<close> points to, and the driver's own
  state, are part of it. A queue on \<open>tsevqs\<close> is named by the address it was allocated at
  (a number); 0 is the queue that \<open>ptp_clock_register\<close> allocates.
\<close>

record 'd ptp_clock =
  ptp_index :: nat
  drv :: 'd
  pin_config :: "ptp_pin_desc list"
  dialed_frequency :: s64
  tsevqs :: "(nat \<times> ts_queue) list"
  defunct :: bool
  max_vclocks :: nat
  n_vclocks :: nat
  vclock_index :: "int list"
  is_virtual_clock :: bool
  has_cycles :: bool

text \<open>\<open>intr\<close> says that a signal interrupts the wait for the mutex.\<close>

definition ptp_vclock_in_use :: "bool \<Rightarrow> 'd ptp_clock \<Rightarrow> bool" where
  "ptp_vclock_in_use intr ptp =
     (if intr then True else \<not> is_virtual_clock ptp \<and> n_vclocks ptp \<noteq> 0)"

definition ptp_clock_freerun :: "bool \<Rightarrow> 'd ptp_clock \<Rightarrow> bool" where
  "ptp_clock_freerun intr ptp = (if has_cycles ptp then False else ptp_vclock_in_use intr ptp)"

text \<open>Running a driver callback on the clock's driver state.\<close>

definition call_drv :: "('d \<Rightarrow> 'r \<times> 'd) \<Rightarrow> 'd ptp_clock \<Rightarrow> 'r \<times> 'd ptp_clock" where
  "call_drv f ptp = (let (r, d) = f (drv ptp) in (r, ptp\<lparr>drv := d\<rparr>))"

section \<open>Posix clock operations\<close>

definition ptp_clock_getres :: timespec64 where
  "ptp_clock_getres = \<lparr>tv_sec = 0, tv_nsec = 1\<rparr>"

definition ptp_clock_settime ::
    "'d ptp_clock_info \<Rightarrow> bool \<Rightarrow> timespec64 \<Rightarrow> 'd ptp_clock \<Rightarrow> ret \<times> 'd ptp_clock" where
  "ptp_clock_settime info intr tp ptp =
     (if ptp_clock_freerun intr ptp then (Some EBUSY, ptp)
      else call_drv (settime64 info tp) ptp)"

definition ptp_clock_gettime ::
    "'d ptp_clock_info \<Rightarrow> 'd ptp_clock \<Rightarrow> (errno + timespec64) \<times> 'd ptp_clock" where
  "ptp_clock_gettime info ptp =
     (case gettimex64 info of
        Some f \<Rightarrow> call_drv f ptp
      | None \<Rightarrow> call_drv (gettime64 info) ptp)"

text \<open>\<open>struct __kernel_timex\<close>, the fields the code reads or writes.\<close>

record timex =
  modes :: u32
  tx_freq :: s64
  tx_offset :: s64
  tx_sec :: int
  tx_usec :: s64

definition ADJ_OFFSET :: u32 where "ADJ_OFFSET = 0x0001"
definition ADJ_FREQUENCY :: u32 where "ADJ_FREQUENCY = 0x0002"
definition ADJ_SETOFFSET :: u32 where "ADJ_SETOFFSET = 0x0100"
definition ADJ_NANO :: u32 where "ADJ_NANO = 0x2000"

definition mode_set :: "u32 \<Rightarrow> timex \<Rightarrow> bool" where
  "mode_set m tx \<longleftrightarrow> and (modes tx) m \<noteq> 0"

text \<open>
  \<open>ptp_clock_adjtime\<close> returns its error, the \<open>timex\<close> (the query mode writes into it) and the
  clock. A driver with \<open>adjphase\<close> but no \<open>getmaxphase\<close> would make it call through NULL.
\<close>

definition ptp_clock_adjtime ::
    "'d ptp_clock_info \<Rightarrow> bool \<Rightarrow> timex \<Rightarrow> 'd ptp_clock \<Rightarrow> (ret \<times> timex \<times> 'd ptp_clock) res" where
  "ptp_clock_adjtime ops intr tx ptp =
     (if ptp_clock_freerun intr ptp then Ok (Some EBUSY, tx, ptp)
      else if mode_set ADJ_SETOFFSET tx then
        (let nsec = (if \<not> mode_set ADJ_NANO tx then tx_usec tx * 1000 else tx_usec tx)
         in if nsec \<ge> 1000000000 then Ok (Some EINVAL, tx, ptp)
            else
              (let delta = timespec64_to_ktime \<lparr>tv_sec = tx_sec tx, tv_nsec = uint nsec\<rparr>;
                   (err, ptp1) = call_drv (adjtime ops delta) ptp
               in Ok (err, tx, ptp1)))
      else if mode_set ADJ_FREQUENCY tx then
        (let ppb = sint (scaled_ppm_to_ppb (tx_freq tx))
         in if ppb > max_adj ops \<or> ppb < - max_adj ops then Ok (Some ERANGE, tx, ptp)
            else
              (let (err, ptp1) = call_drv (adjfine ops (tx_freq tx)) ptp
               in Ok (err, tx, ptp1\<lparr>dialed_frequency := tx_freq tx\<rparr>)))
      else if mode_set ADJ_OFFSET tx then
        (case adjphase ops of
           None \<Rightarrow> Ok (Some EOPNOTSUPP, tx, ptp)
         | Some phase \<Rightarrow>
             (case getmaxphase ops of
                None \<Rightarrow> Fault
              | Some maxphase \<Rightarrow>
                  (let max_phase_adj = maxphase (drv ptp);
                       offset = ucast (tx_offset tx) :: u32;
                       offset = (if \<not> mode_set ADJ_NANO tx then offset * 1000 else offset)
                   in if sint offset > max_phase_adj \<or> sint offset < - max_phase_adj
                      then Ok (Some ERANGE, tx, ptp)
                      else
                        (let (err, ptp1) = call_drv (phase (scast offset)) ptp
                         in Ok (err, tx, ptp1)))))
      else if modes tx = 0 then Ok (None, tx\<lparr>tx_freq := dialed_frequency ptp\<rparr>, ptp)
      else Ok (Some EOPNOTSUPP, tx, ptp))"

section \<open>Events\<close>

text \<open>What an event hands to the PPS subsystem.\<close>

datatype pps_call = Pps_now | Pps_at timespec64

definition deliver :: "ptp_event \<Rightarrow> u32 \<Rightarrow> 'd ptp_clock \<Rightarrow> 'd ptp_clock" where
  "deliver event i ptp =
     ptp\<lparr>tsevqs := map (\<lambda>(h, q). (h, if unat i \<in> q_mask q
                                     then enqueue_external_timestamp q event else q))
                      (tsevqs ptp)\<rparr>"

definition ptp_clock_event :: "ptp_event \<Rightarrow> 'd ptp_clock \<Rightarrow> pps_call option \<times> 'd ptp_clock" where
  "ptp_clock_event event ptp =
     (case event of
        PTP_CLOCK_ALARM \<Rightarrow> (None, ptp)
      | PTP_CLOCK_EXTTS i ts \<Rightarrow> (None, deliver event i ptp)
      | PTP_CLOCK_EXTOFF i off \<Rightarrow> (None, deliver event i ptp)
      | PTP_CLOCK_PPS \<Rightarrow> (Some Pps_now, ptp)
      | PTP_CLOCK_PPSUSR ts \<Rightarrow> (Some (Pps_at ts), ptp))"

section \<open>Pins\<close>

text \<open>The search loop, from index \<open>i\<close> on: the first pin with this function and channel.\<close>

fun find_pin_from :: "nat \<Rightarrow> ptp_pin_desc list \<Rightarrow> ptp_pin_function \<Rightarrow> nat \<Rightarrow> nat option" where
  "find_pin_from i [] func chan = None"
| "find_pin_from i (p # ps) func chan =
     (if pin_func p = func \<and> pin_chan p = chan then Some i
      else find_pin_from (Suc i) ps func chan)"

definition ptp_find_pin ::
    "'d ptp_clock_info \<Rightarrow> 'd ptp_clock \<Rightarrow> ptp_pin_function \<Rightarrow> nat \<Rightarrow> int" where
  "ptp_find_pin info ptp func chan =
     (case find_pin_from 0 (take (n_pins info) (pin_config ptp)) func chan of
        Some i \<Rightarrow> int i
      | None \<Rightarrow> -1)"

definition ptp_disable_pinfunc ::
    "'d ptp_clock_info \<Rightarrow> ptp_pin_function \<Rightarrow> nat \<Rightarrow> 'd ptp_clock \<Rightarrow> ret \<times> 'd ptp_clock" where
  "ptp_disable_pinfunc ops func chan ptp =
     (case func of
        PTP_PF_NONE \<Rightarrow> (None, ptp)
      | PTP_PF_EXTTS \<Rightarrow>
          call_drv (enable ops (PTP_CLK_REQ_EXTTS
            \<lparr>xr_index = chan, xr_flags = 0, xr_rsv = [0, 0]\<rparr>) False) ptp
      | PTP_PF_PEROUT \<Rightarrow>
          call_drv (enable ops (PTP_CLK_REQ_PEROUT
            \<lparr>pr_start = zero_time, pr_period = zero_time, pr_index = chan, pr_flags = 0,
             pr_on = zero_time, pr_on_rsv = 0\<rparr>) False) ptp
      | PTP_PF_PHYSYNC \<Rightarrow> (None, ptp)
      | PTP_PF_OTHER _ \<Rightarrow> (Some EINVAL, ptp))"

text \<open>The check of the desired function and channel.\<close>

definition pinfunc_ok :: "'d ptp_clock_info \<Rightarrow> ptp_pin_function \<Rightarrow> nat \<Rightarrow> bool" where
  "pinfunc_ok info func chan =
     (case func of
        PTP_PF_NONE \<Rightarrow> True
      | PTP_PF_EXTTS \<Rightarrow> chan < n_ext_ts info
      | PTP_PF_PEROUT \<Rightarrow> chan < n_per_out info
      | PTP_PF_PHYSYNC \<Rightarrow> chan = 0
      | PTP_PF_OTHER _ \<Rightarrow> False)"

definition set_pin :: "nat \<Rightarrow> ptp_pin_function \<Rightarrow> nat \<Rightarrow> 'd ptp_clock \<Rightarrow> 'd ptp_clock" where
  "set_pin i func chan ptp =
     ptp\<lparr>pin_config := (pin_config ptp)
            [i := (pin_config ptp ! i)\<lparr>pin_func := func, pin_chan := chan\<rparr>]\<rparr>"

definition ptp_set_pinfunc ::
    "'d ptp_clock_info \<Rightarrow> nat \<Rightarrow> ptp_pin_function \<Rightarrow> nat \<Rightarrow> 'd ptp_clock
      \<Rightarrow> ret \<times> 'd ptp_clock" where
  "ptp_set_pinfunc info pin func chan ptp =
     (let pin1 = find_pin_from 0 (take (n_pins info) (pin_config ptp)) func chan
      in if pin1 = Some pin then (None, ptp)
      else if \<not> pinfunc_ok info func chan then (Some EINVAL, ptp)
      else if verify info pin func chan (drv ptp) then (Some EOPNOTSUPP, ptp)
      else
        (let ptp1 = (case pin1 of
                       Some i \<Rightarrow> set_pin i PTP_PF_NONE 0 (snd (ptp_disable_pinfunc info func chan ptp))
                     | None \<Rightarrow> ptp);
             old = pin_config ptp1 ! pin;
             ptp2 = snd (ptp_disable_pinfunc info (pin_func old) (pin_chan old) ptp1)
         in (None, set_pin pin func chan ptp2)))"

section \<open>Properties of the clock operations\<close>

lemma call_drv_simps [simp]:
  "fst (call_drv f ptp) = fst (f (drv ptp))"
  "snd (call_drv f ptp) = ptp\<lparr>drv := snd (f (drv ptp))\<rparr>"
  by (simp_all add: call_drv_def case_prod_beta)

lemma call_drv_pair: "call_drv f ptp = (fst (f (drv ptp)), ptp\<lparr>drv := snd (f (drv ptp))\<rparr>)"
  by (simp add: call_drv_def case_prod_beta)

text \<open>What a driver's contract gives a user of the posix clock.\<close>

context ptp_hw_clock
begin

lemma core_set_get:
  assumes "settime64 info = settime t" and "gettime64 info = gettime t"
    and "gettimex64 info = None" and "\<not> ptp_clock_freerun intr ptp" and "ts_valid ts"
  shows "fst (ptp_clock_gettime info (snd (ptp_clock_settime info intr ts ptp))) = Inr ts"
  using assms by (simp add: ptp_clock_gettime_def ptp_clock_settime_def set_get)

lemma core_set_offset:
  assumes "adjtime info = adjust t" and "mode_set ADJ_SETOFFSET tx" and "mode_set ADJ_NANO tx"
    and "tx_usec tx < 1000000000" and "\<not> ptp_clock_freerun intr ptp"
  shows "\<exists>ptp'. ptp_clock_adjtime info intr tx ptp = Ok (None, tx, ptp')
    \<and> reading t (drv ptp') = reading t (drv ptp)
        + timespec64_to_ktime \<lparr>tv_sec = tx_sec tx, tv_nsec = uint (tx_usec tx)\<rparr>"
  using assms by (auto simp: ptp_clock_adjtime_def call_drv_pair adj_ok adj_value Let_def not_le)

end

text \<open>
  . Setting the clock through the posix interface and reading it back at the same moment
  gives the time that was set, exactly, for every time that the scalar form can hold.
\<close>

theorem mock_settime_gettime:
  assumes "\<not> ptp_clock_freerun intr ptp" and "ts_valid ts"
  shows "fst (ptp_clock_gettime (mock_phc_info t tai)
           (snd (ptp_clock_settime (mock_phc_info t tai) intr ts ptp))) = Inr ts"
  by (rule mock.core_set_get) (simp_all add: mock_phc_info_def assms)

definition mock_clock :: "mock_phc \<Rightarrow> mock_phc ptp_clock" where
  "mock_clock phc =
     \<lparr>ptp_index = 0, drv = phc, pin_config = mock_pins, dialed_frequency = 0,
      tsevqs = [(0, new_queue)], defunct = False, max_vclocks = PTP_DEFAULT_MAX_VCLOCKS,
      n_vclocks = 0, vclock_index = replicate PTP_DEFAULT_MAX_VCLOCKS 0,
      is_virtual_clock = False, has_cycles = False\<rparr>"

lemma drv_mock_clock [simp]: "drv (mock_clock phc) = phc"
  by (simp add: mock_clock_def)

lemma tsevqs_mock_clock [simp]: "tsevqs (mock_clock phc) = [(0, new_queue)]"
  by (simp add: mock_clock_def)

lemma mask_new: "i \<in> q_mask new_queue \<longleftrightarrow> i < 2048"
  by (simp add: new_queue_def PTP_MAX_CHANNELS_def)

lemma mock_clock_not_freerun: "\<not> ptp_clock_freerun False (mock_clock phc)"
  by (simp add: ptp_clock_freerun_def ptp_vclock_in_use_def mock_clock_def)

lemma mock_settime_gettime_witness:
  "fst (ptp_clock_gettime (mock_phc_info 77 0) (snd (ptp_clock_settime (mock_phc_info 77 0) False
      \<lparr>tv_sec = 1700000000, tv_nsec = 999999999\<rparr> (mock_clock (mock_phc_initial 5 1)))))
    = Inr \<lparr>tv_sec = 1700000000, tv_nsec = 999999999\<rparr>"
  by (rule mock_settime_gettime)
    (simp_all add: mock_clock_not_freerun ts_valid_def KTIME_SEC_MAX_def)

text \<open>
  . A clock that must run freely, because virtual clocks depend on it and it has no separate
  cycle counter, can be neither set nor adjusted nor have its frequency changed:
  every request is refused with \<open>-EBUSY\<close> and changes nothing.
\<close>

theorem freerun_refuses:
  assumes "\<not> has_cycles ptp" and "\<not> is_virtual_clock ptp" and "0 < n_vclocks ptp"
  shows "ptp_clock_settime info intr ts ptp = (Some EBUSY, ptp)
    \<and> ptp_clock_adjtime info intr tx ptp = Ok (Some EBUSY, tx, ptp)"
  using assms
  by (simp add: ptp_clock_settime_def ptp_clock_adjtime_def ptp_clock_freerun_def
      ptp_vclock_in_use_def)

lemma freerun_refuses_witness:
  "ptp_clock_settime (mock_phc_info 0 0) False \<lparr>tv_sec = 1, tv_nsec = 0\<rparr>
      ((mock_clock (mock_phc_initial 0 0))\<lparr>n_vclocks := 2\<rparr>)
    = (Some EBUSY, (mock_clock (mock_phc_initial 0 0))\<lparr>n_vclocks := 2\<rparr>)"
  using freerun_refuses [of "(mock_clock (mock_phc_initial 0 0))\<lparr>n_vclocks := 2\<rparr>"]
  by (simp add: mock_clock_def)

text \<open>The two conversions of a scaled frequency agree even where they wrap.\<close>

lemma freq_ppb_bound:
  assumes "\<bar>sint (scaled_ppm_to_ppb f)\<bar> \<le> 500000000"
  shows "\<bar>sint (div_s64 (f * 1000) 65536)\<bar> \<le> 500000000"
proof -
  define P where "P = sint ((1 + f) * 125)"
  have "s64_fits (P div 2 ^ 13)"
  proof -
    have "s64_fits P" unfolding P_def by simp
    then show ?thesis by (auto simp: s64_fits_def)
  qed
  then have ppb: "sint (scaled_ppm_to_ppb f) = P div 2 ^ 13"
    unfolding scaled_ppm_to_ppb_def Let_def P_def by (rule sint_word_of_int64)
  have div: "\<bar>P div 8192\<bar> \<le> 500000000" using assms unfolding ppb by simp
  then have P: "-4096000000000 \<le> P" by linarith
  moreover from div have "P < 4096000008192" by linarith
  ultimately have P: "-4096000000000 \<le> P" "P < 4096000008192" by auto
  have fits: "s64_fits (8 * P - 1000)" using P by (simp add: s64_fits_def)
  have "f * 1000 = word_of_int (8 * P - 1000)"
    unfolding P_def by (simp add: algebra_simps)
  then have prod: "sint (f * 1000) = 8 * P - 1000"
    using sint_word_of_int64 [OF fits] by simp
  have "sint (div_s64 (f * 1000) 65536) = (8 * P - 1000) sdiv 65536"
    unfolding div_s64_def prod
    using sdiv_fits [OF _ fits, of 65536] by (simp add: sint_word_of_int64)
  also have "\<bar>\<dots>\<bar> = \<bar>8 * P - 1000\<bar> div 65536" by (simp add: sdiv_abs)
  also have "\<dots> \<le> 500000000" using P by linarith
  finally show ?thesis .
qed

text \<open>
  No \<open>ADJ_FREQUENCY\<close> request, however large or even wrapping its value, gets the mock
  clock outside the advertised range: if the correction was within \<open>max_adj\<close> before, it is
  after, and an accepted request is remembered as the dialed frequency.
\<close>

theorem mock_frequency_bounded:
  assumes "modes tx = ADJ_FREQUENCY"
    and "ptp_clock_adjtime (mock_phc_info t tai) intr tx ptp = Ok (err, tx', ptp')"
    and "\<bar>sint (freq_ppb (drv ptp))\<bar> \<le> MOCK_PHC_MAX_ADJ_PPB"
  shows "\<bar>sint (freq_ppb (drv ptp'))\<bar> \<le> MOCK_PHC_MAX_ADJ_PPB
    \<and> (err = None \<longrightarrow> dialed_frequency ptp' = tx_freq tx)
    \<and> (err \<noteq> None \<longrightarrow> ptp' = ptp)"
proof -
  have m: "\<not> mode_set ADJ_SETOFFSET tx" "mode_set ADJ_FREQUENCY tx"
    using assms(1) by (simp_all add: mode_set_def ADJ_FREQUENCY_def ADJ_SETOFFSET_def)
  show ?thesis
    using assms(2,3) m freq_ppb_bound [of "tx_freq tx"]
    by (auto simp: ptp_clock_adjtime_def mock_phc_info_def MOCK_PHC_MAX_ADJ_PPB_def
        mock_phc_adjfine_def call_drv_pair Let_def split: if_splits)
qed

definition freq_tx :: "u32 \<Rightarrow> s64 \<Rightarrow> timex" where
  "freq_tx m f = \<lparr>modes = m, tx_freq = f, tx_offset = f, tx_sec = 0, tx_usec = 0\<rparr>"

lemma mock_frequency_bounded_witness:
  "\<exists>ptp'. ptp_clock_adjtime (mock_phc_info 9 0) False (freq_tx ADJ_FREQUENCY 6553600)
        (mock_clock (mock_phc_initial 5 1)) = Ok (None, freq_tx ADJ_FREQUENCY 6553600, ptp')
    \<and> dialed_frequency ptp' = 6553600"
proof -
  let ?tx = "freq_tx ADJ_FREQUENCY 6553600"
  have ok: "\<exists>ptp'. ptp_clock_adjtime (mock_phc_info 9 0) False ?tx
      (mock_clock (mock_phc_initial 5 1)) = Ok (None, ?tx, ptp')"
    by (simp add: ptp_clock_adjtime_def mock_clock_not_freerun freq_tx_def mode_set_def
        ADJ_FREQUENCY_def ADJ_SETOFFSET_def scaled_ppm_to_ppb_def mock_phc_info_def Let_def
        MOCK_PHC_MAX_ADJ_PPB_def mock_phc_adjfine_def call_drv_pair)
  then obtain ptp' where r: "ptp_clock_adjtime (mock_phc_info 9 0) False ?tx
      (mock_clock (mock_phc_initial 5 1)) = Ok (None, ?tx, ptp')" by blast
  have "modes ?tx = ADJ_FREQUENCY" by (simp add: freq_tx_def)
  from mock_frequency_bounded [OF this r]
  have "dialed_frequency ptp' = tx_freq ?tx"
    by (simp add: mock_clock_def mock_phc_initial_def MOCK_PHC_MAX_ADJ_PPB_def)
  with r show ?thesis by (auto simp: freq_tx_def)
qed

text \<open>
  \<open>ADJ_SETOFFSET\<close> moves the mock clock by exactly the offset asked for, to the nanosecond.
\<close>

theorem mock_set_offset:
  assumes "modes tx = or ADJ_SETOFFSET ADJ_NANO" and "tx_usec tx < 1000000000"
    and "\<not> ptp_clock_freerun intr ptp"
  shows "\<exists>ptp'. ptp_clock_adjtime (mock_phc_info t tai) intr tx ptp = Ok (None, tx, ptp')
    \<and> phc_reading t (drv ptp') = phc_reading t (drv ptp)
        + timespec64_to_ktime \<lparr>tv_sec = tx_sec tx, tv_nsec = uint (tx_usec tx)\<rparr>"
  by (rule mock.core_set_offset)
    (use assms in \<open>simp_all add: mock_phc_info_def mode_set_def ADJ_SETOFFSET_def ADJ_NANO_def\<close>)

lemma mock_set_offset_witness:
  "\<exists>ptp'. ptp_clock_adjtime (mock_phc_info 9 0) False
        \<lparr>modes = or ADJ_SETOFFSET ADJ_NANO, tx_freq = 0, tx_offset = 0, tx_sec = -1, tx_usec = 5\<rparr>
        (mock_clock (mock_phc_initial 5 1))
      = Ok (None, \<lparr>modes = or ADJ_SETOFFSET ADJ_NANO, tx_freq = 0, tx_offset = 0,
                    tx_sec = -1, tx_usec = 5\<rparr>, ptp')
    \<and> phc_reading 9 (drv ptp') = phc_reading 9 (mock_phc_initial 5 1) - 999999995"
  using mock_set_offset [of "\<lparr>modes = or ADJ_SETOFFSET ADJ_NANO, tx_freq = 0, tx_offset = 0,
      tx_sec = -1, tx_usec = 5\<rparr>" False "mock_clock (mock_phc_initial 5 1)" 9 0]
  by (simp add: mock_clock_not_freerun timespec64_to_ktime_def KTIME_SEC_MAX_def)

text \<open>
  . A phase adjustment is checked only after it has been cut to 32 bits: adding \<open>2^32\<close>
  nanoseconds (4.29 seconds) to the requested offset changes neither the range check nor what the driver
  is told, whatever the driver.
\<close>

theorem phase_offset_truncated:
  "ptp_clock_adjtime info intr (freq_tx (or ADJ_OFFSET ADJ_NANO) (x + 2 ^ 32)) ptp
     = (case ptp_clock_adjtime info intr (freq_tx (or ADJ_OFFSET ADJ_NANO) x) ptp of
          Ok (err, tx, ptp') \<Rightarrow> Ok (err, freq_tx (or ADJ_OFFSET ADJ_NANO) (x + 2 ^ 32), ptp')
        | Err e \<Rightarrow> Err e | Fault \<Rightarrow> Fault)"
proof -
  have cut: "(ucast (x + 4294967296) :: u32) = ucast x"
    by transfer (simp add: take_bit_eq_mod mod_mod_cancel)
  show ?thesis
    using cut by (auto simp: ptp_clock_adjtime_def freq_tx_def mode_set_def ADJ_OFFSET_def
      ADJ_NANO_def ADJ_SETOFFSET_def ADJ_FREQUENCY_def Let_def
      split: option.splits prod.splits)
qed

section \<open>Properties of event delivery\<close>

definition clock_queues_ok :: "'d ptp_clock \<Rightarrow> bool" where
  "clock_queues_ok ptp \<longleftrightarrow> (\<forall>(h, q) \<in> set (tsevqs ptp). queue_ok q)"

text \<open>The abstract effect of one insertion: append, and drop the oldest beyond 127.\<close>

definition push127 :: "'a \<Rightarrow> 'a list \<Rightarrow> 'a list" where
  "push127 e es = drop (Suc (length es) - 127) (es @ [e])"

lemma enqueue_ok: "queue_ok q \<Longrightarrow> queue_ok (enqueue_external_timestamp q ev)"
  by (auto simp: enqueue_external_timestamp_def intro: ring_put_ok split: option.splits)

lemma enqueue_list:
  "queue_ok q \<Longrightarrow> extts_of_event ev = Some e \<Longrightarrow>
     queue_list (enqueue_external_timestamp q ev) = push127 e (queue_list q)"
  by (simp add: enqueue_external_timestamp_def push127_def ring.contents_enq)

lemma ptp_clock_event_queues_ok:
  "clock_queues_ok ptp \<Longrightarrow> clock_queues_ok (snd (ptp_clock_event ev ptp))"
  by (auto simp: clock_queues_ok_def ptp_clock_event_def deliver_def
      intro!: enqueue_ok split: ptp_event.splits)

text \<open>
  C4: . An external timestamp reaches every reader that listens to its channel, as the newest
  event of that reader's queue with its seconds and nanoseconds split, at the expense of the oldest event of
  a full queue only; the queues of the other readers do not change.
\<close>

theorem extts_event_delivered:
  assumes "clock_queues_ok ptp"
  shows "map (\<lambda>(h, q). (h, queue_list q, q_mask q))
        (tsevqs (snd (ptp_clock_event (PTP_CLOCK_EXTTS i ts) ptp)))
    = map (\<lambda>(h, q). (h,
         if unat i \<in> q_mask q
         then push127 \<lparr>ev_sec = uint ts div 1000000000, ev_nsec = uint ts mod 1000000000,
                       ev_index = i, ev_flags = PTP_EXTTS_EVENT_VALID\<rparr> (queue_list q)
         else queue_list q, q_mask q)) (tsevqs ptp)"
proof -
  have mask: "q_mask (enqueue_external_timestamp q ev) = q_mask q" for q ev
    by (simp add: enqueue_external_timestamp_def split: option.split)
  show ?thesis
    using assms by (auto simp: ptp_clock_event_def deliver_def clock_queues_ok_def mask
        enqueue_list extts_of_event_def split: if_splits)
qed

lemma extts_event_delivered_witness:
  "map (\<lambda>(h, q). queue_list q) (tsevqs (snd (ptp_clock_event (PTP_CLOCK_EXTTS 3 1500000000)
      (mock_clock (mock_phc_initial 0 0)))))
    = [[\<lparr>ev_sec = 1, ev_nsec = 500000000, ev_index = 3, ev_flags = PTP_EXTTS_EVENT_VALID\<rparr>]]"
proof -
  have "clock_queues_ok (mock_clock (mock_phc_initial 0 0))"
    using queue_list_new by (simp add: clock_queues_ok_def)
  from arg_cong [where f = "map (\<lambda>(h, es, m). es)",
      OF extts_event_delivered [OF this, of 3 1500000000]]
  show ?thesis
    using queue_list_new by (simp add: mask_new push127_def comp_def case_prod_unfold)
qed

section \<open>Properties of pin assignment\<close>

text \<open>No two pins carry the same function and channel.\<close>

definition pins_unique :: "ptp_pin_desc list \<Rightarrow> bool" where
  "pins_unique ps \<longleftrightarrow> (\<forall>i < length ps. \<forall>j < length ps. i \<noteq> j \<longrightarrow> pin_func (ps ! i) \<noteq> PTP_PF_NONE
     \<longrightarrow> (pin_func (ps ! i), pin_chan (ps ! i)) \<noteq> (pin_func (ps ! j), pin_chan (ps ! j)))"

lemma find_pin_from_Some:
  "find_pin_from i ps func chan = Some k \<Longrightarrow>
     i \<le> k \<and> k - i < length ps \<and> pin_func (ps ! (k - i)) = func \<and> pin_chan (ps ! (k - i)) = chan"
  by (induction i ps func chan rule: find_pin_from.induct)
    (auto simp: nth_Cons' Suc_diff_le split: if_splits)

lemma find_pin_from_None:
  "find_pin_from i ps func chan = None \<longleftrightarrow>
     (\<forall>p \<in> set ps. \<not> (pin_func p = func \<and> pin_chan p = chan))"
  by (induction i ps func chan rule: find_pin_from.induct) auto

lemma disable_pinfunc_pins [simp]:
  "pin_config (snd (ptp_disable_pinfunc info func chan ptp)) = pin_config ptp"
  by (simp add: ptp_disable_pinfunc_def split: ptp_pin_function.splits)

lemma disable_pinfunc_tsevqs [simp]:
  "tsevqs (snd (ptp_disable_pinfunc info func chan ptp)) = tsevqs ptp"
  by (simp add: ptp_disable_pinfunc_def split: ptp_pin_function.splits)

lemma set_pinfunc_tsevqs [simp]:
  "tsevqs (snd (ptp_set_pinfunc info pin func chan ptp)) = tsevqs ptp"
  by (simp add: ptp_set_pinfunc_def Let_def set_pin_def split: option.split)

lemma set_pin_config: "pin_config (set_pin i func chan ptp)
    = (pin_config ptp)[i := (pin_config ptp ! i)\<lparr>pin_func := func, pin_chan := chan\<rparr>]"
  by (simp add: set_pin_def)

lemma pins_unique_assign:
  assumes "pins_unique ps"
    and "\<forall>j < length ps. j \<noteq> i \<longrightarrow> func \<noteq> PTP_PF_NONE
          \<longrightarrow> (pin_func (ps ! j), pin_chan (ps ! j)) \<noteq> (func, chan)"
  shows "pins_unique (ps[i := (ps ! i)\<lparr>pin_func := func, pin_chan := chan\<rparr>])"
proof -
  let ?p = "(ps ! i)\<lparr>pin_func := func, pin_chan := chan\<rparr>"
  have nth: "ps[i := ?p] ! k = (if k = i then ?p else ps ! k)" if "k < length ps" for k
    using that by (simp add: nth_list_update)
  show ?thesis
    using assms unfolding pins_unique_def length_list_update by (simp add: nth) metis
qed

lemma pins_unique_clear:
  "pins_unique ps \<Longrightarrow> pins_unique (ps[i := (ps ! i)\<lparr>pin_func := PTP_PF_NONE, pin_chan := 0\<rparr>])"
  by (rule pins_unique_assign) auto

abbreviation assign_pin :: "nat \<Rightarrow> ptp_pin_function \<Rightarrow> nat \<Rightarrow> ptp_pin_desc list \<Rightarrow> ptp_pin_desc list"
  where "assign_pin i func chan ps \<equiv> ps[i := (ps ! i)\<lparr>pin_func := func, pin_chan := chan\<rparr>]"

lemma set_pinfunc_cases:
  assumes "n_pins info = length (pin_config ptp)"
    and "ptp_set_pinfunc info pin func chan ptp = (r, ptp')"
  obtains
    (same) "find_pin_from 0 (pin_config ptp) func chan = Some pin" "r = None" "ptp' = ptp"
  | (refused) "r \<noteq> None" "ptp' = ptp"
  | (moved) i where "find_pin_from 0 (pin_config ptp) func chan = Some i" "i \<noteq> pin" "r = None"
      "pin_config ptp' = assign_pin pin func chan (assign_pin i PTP_PF_NONE 0 (pin_config ptp))"
  | (fresh) "find_pin_from 0 (pin_config ptp) func chan = None" "r = None"
      "pin_config ptp' = assign_pin pin func chan (pin_config ptp)"
proof (cases "find_pin_from 0 (pin_config ptp) func chan = Some pin
    \<or> \<not> pinfunc_ok info func chan \<or> verify info pin func chan (drv ptp)")
  case True
  then have "(find_pin_from 0 (pin_config ptp) func chan = Some pin \<and> r = None \<and> ptp' = ptp)
      \<or> (r \<noteq> None \<and> ptp' = ptp)"
    using assms by (auto simp: ptp_set_pinfunc_def Let_def split: if_splits)
  then show ?thesis using that(1,2) by blast
next
  case False
  then have r: "r = None" and p: "ptp' = snd (ptp_set_pinfunc info pin func chan ptp)"
    using assms by (auto simp: ptp_set_pinfunc_def Let_def)
  show ?thesis
  proof (cases "find_pin_from 0 (pin_config ptp) func chan")
    case None
    with False assms(1) have "pin_config ptp' = assign_pin pin func chan (pin_config ptp)"
      unfolding p by (simp add: ptp_set_pinfunc_def Let_def set_pin_config)
    with None r show ?thesis by (rule that(4))
  next
    case (Some i)
    with False assms(1)
    have "pin_config ptp' = assign_pin pin func chan (assign_pin i PTP_PF_NONE 0 (pin_config ptp))"
      unfolding p by (simp add: ptp_set_pinfunc_def Let_def set_pin_config)
    moreover have "i \<noteq> pin" using Some False by auto
    ultimately show ?thesis using Some r that(3) by blast
  qed
qed

lemma set_pinfunc_pins:
  assumes "pins_unique (pin_config ptp)" and "n_pins info = length (pin_config ptp)"
    and "pin < length (pin_config ptp)"
    and "ptp_set_pinfunc info pin func chan ptp = (r, ptp')"
  shows "pins_unique (pin_config ptp')
    \<and> length (pin_config ptp') = length (pin_config ptp)
    \<and> (r = None \<longrightarrow> pin_func (pin_config ptp' ! pin) = func \<and> pin_chan (pin_config ptp' ! pin) = chan)
    \<and> (r \<noteq> None \<longrightarrow> ptp' = ptp)"
proof -
  let ?ps = "pin_config ptp"
  from assms(2,4) show ?thesis
  proof (cases rule: set_pinfunc_cases)
    case same
    then show ?thesis using assms(1) find_pin_from_Some [OF same(1)] by simp
  next
    case refused
    then show ?thesis using assms(1) by auto
  next
    case (moved i)
    let ?qs = "assign_pin i PTP_PF_NONE 0 ?ps"
    have i: "i < length ?ps" "pin_func (?ps ! i) = func" "pin_chan (?ps ! i) = chan"
      using find_pin_from_Some [OF moved(1)] by auto
    have "pins_unique (assign_pin pin func chan ?qs)"
    proof (rule pins_unique_assign [OF pins_unique_clear [OF assms(1)]])
      show "\<forall>j<length ?qs. j \<noteq> pin \<longrightarrow> func \<noteq> PTP_PF_NONE
          \<longrightarrow> (pin_func (?qs ! j), pin_chan (?qs ! j)) \<noteq> (func, chan)"
        using assms(1) i by (auto simp: pins_unique_def nth_list_update)
    qed
    then show ?thesis using moved assms(3) by (simp add: Let_def)
  next
    case fresh
    have "pins_unique (pin_config ptp')"
      unfolding fresh(3) by (rule pins_unique_assign [OF assms(1)])
        (use fresh(1) in \<open>auto simp: find_pin_from_None\<close>)
    then show ?thesis using fresh assms(3) by simp
  qed
qed

text \<open>
  C5: . Assigning a function keeps every function and channel on at most one pin; on success
  the chosen pin has them, and a refused request changes nothing.
\<close>

theorem set_pinfunc_unique:
  assumes "pins_unique (pin_config ptp)" and "n_pins info = length (pin_config ptp)"
    and "pin < length (pin_config ptp)"
    and "ptp_set_pinfunc info pin func chan ptp = (r, ptp')"
  shows "pins_unique (pin_config ptp')
    \<and> length (pin_config ptp') = length (pin_config ptp)
    \<and> (r = None \<longrightarrow> pin_func (pin_config ptp' ! pin) = func \<and> pin_chan (pin_config ptp' ! pin) = chan)
    \<and> (r \<noteq> None \<longrightarrow> ptp' = ptp)"
  using assms by (rule set_pinfunc_pins)

lemma set_pinfunc_unique_witness:
  "pins_unique (pin_config (snd (ptp_set_pinfunc (mock_phc_info 0 0) 1 PTP_PF_EXTTS 0
      (mock_clock (mock_phc_initial 0 0)))))
   \<and> map pin_func (pin_config (snd (ptp_set_pinfunc (mock_phc_info 0 0) 1 PTP_PF_EXTTS 0
      (mock_clock (mock_phc_initial 0 0)))))
    = [PTP_PF_NONE, PTP_PF_EXTTS, PTP_PF_NONE, PTP_PF_NONE, PTP_PF_NONE]"
proof -
  have u: "pins_unique (pin_config (mock_clock phc))" for phc
    by (auto simp: pins_unique_def mock_clock_def mock_pins_def less_Suc_eq nth_Cons'
        split: if_splits)
  note set_pinfunc_unique [OF u, of "mock_phc_info 0 0" _ 1 PTP_PF_EXTTS 0,
      OF _ _ surjective_pairing]
  from this [of "mock_phc_initial 0 0"] show ?thesis
    by (simp add: mock_clock_def mock_phc_info_def mock_pins_def ptp_set_pinfunc_def Let_def
        set_pin_config ptp_disable_pinfunc_def mock_phc_enable_def mock_phc_verify_def
        pinfunc_ok_def set_pin_def)
qed

end
