(* ===== verification/Ptp_Chardev.thy ===== *)
theory Ptp_Chardev
  imports Ptp_Clock "HOL-Library.Sublist"
begin

text \<open>
  The character device of a PTP clock (\<open>ptp/ptp_chardev.c\<close>): opening and closing a reader,
  the ioctls, poll and read. A reader is named by the address of its queue, the value of
  \<open>pccontext->private_clkdata\<close>. What user space hands over is an argument (\<open>None\<close> where the
  copy faults), and so are the allocations, the signals and the system clock readings that
  a call meets. Assigning a function to a pin is in theory \<open>Ptp_Clock\<close>.
\<close>

section \<open>Opening and closing\<close>

definition ptp_open :: "bool \<Rightarrow> bool \<Rightarrow> nat \<Rightarrow> 'd ptp_clock \<Rightarrow> (errno + nat) \<times> 'd ptp_clock" where
  "ptp_open mem_queue mem_mask h ptp =
     (if \<not> mem_queue then (Inl EINVAL, ptp)
      else if \<not> mem_mask then (Inl EINVAL, ptp)
      else (Inr h, ptp\<lparr>tsevqs := tsevqs ptp @ [(h, new_queue)]\<rparr>))"

definition ptp_release :: "nat \<Rightarrow> 'd ptp_clock \<Rightarrow> 'd ptp_clock" where
  "ptp_release h ptp = ptp\<lparr>tsevqs := filter (\<lambda>p. fst p \<noteq> h) (tsevqs ptp)\<rparr>"

text \<open>A write through the pointer to a queue.\<close>

definition upd_queue :: "nat \<Rightarrow> (ts_queue \<Rightarrow> ts_queue) \<Rightarrow> 'd ptp_clock \<Rightarrow> 'd ptp_clock" where
  "upd_queue h f ptp = ptp\<lparr>tsevqs := map (\<lambda>(k, q). (k, if k = h then f q else q)) (tsevqs ptp)\<rparr>"

section \<open>The ioctls\<close>

definition PTP_ENABLE_FEATURE :: u32 where "PTP_ENABLE_FEATURE = 1"
definition PTP_RISING_EDGE :: u32 where "PTP_RISING_EDGE = 2"
definition PTP_FALLING_EDGE :: u32 where "PTP_FALLING_EDGE = 4"
definition PTP_STRICT_FLAGS :: u32 where "PTP_STRICT_FLAGS = 8"
definition PTP_EXTTS_EDGES :: u32 where "PTP_EXTTS_EDGES = 6"
definition PTP_EXTTS_VALID_FLAGS :: u32 where "PTP_EXTTS_VALID_FLAGS = 31"
definition PTP_EXTTS_V1_VALID_FLAGS :: u32 where "PTP_EXTTS_V1_VALID_FLAGS = 7"
definition PTP_PEROUT_DUTY_CYCLE :: u32 where "PTP_PEROUT_DUTY_CYCLE = 2"
definition PTP_PEROUT_PHASE :: u32 where "PTP_PEROUT_PHASE = 4"
definition PTP_PEROUT_VALID_FLAGS :: u32 where "PTP_PEROUT_VALID_FLAGS = 7"
definition PTP_PEROUT_V1_VALID_FLAGS :: u32 where "PTP_PEROUT_V1_VALID_FLAGS = 0"
definition PTP_MAX_SAMPLES :: nat where "PTP_MAX_SAMPLES = 25"

text \<open>\<open>struct ptp_pin_desc\<close> as an argument.\<close>

record pin_arg =
  pa_index :: nat
  pa_func :: ptp_pin_function
  pa_chan :: nat
  pa_rsv :: "u32 list"

text \<open>
  The commands with what is copied in; the Boolean says that it is the second version of
  the command. \<open>memdup_user\<close> can fail with its own error.
\<close>

datatype ptp_cmd =
    PTP_CLOCK_GETCAPS
  | PTP_EXTTS_REQUEST bool "ptp_extts_request option"
  | PTP_PEROUT_REQUEST bool "ptp_perout_request option"
  | PTP_ENABLE_PPS bool
  | PTP_SYS_OFFSET_PRECISE
  | PTP_SYS_OFFSET_EXTENDED "errno + nat \<times> u32 list"
  | PTP_SYS_OFFSET "errno + nat"
  | PTP_PIN_GETFUNC bool "pin_arg option"
  | PTP_PIN_SETFUNC bool "pin_arg option"
  | PTP_MASK_CLEAR_ALL
  | PTP_MASK_EN_SINGLE "nat option"
  | PTP_UNKNOWN_CMD

record ptp_caps =
  c_max_adj :: int
  c_n_alarm :: int
  c_n_ext_ts :: nat
  c_n_per_out :: nat
  c_pps :: bool
  c_n_pins :: nat
  c_cross_timestamping :: bool
  c_adjust_phase :: bool
  c_max_phase_adj :: int

text \<open>What is copied out: for the offsets, the timestamps in the order of the array.\<close>

datatype ptp_out =
    Out_nothing
  | Out_caps ptp_caps
  | Out_precise timespec64 timespec64 timespec64
  | Out_extended "(timespec64 \<times> timespec64 \<times> timespec64) list"
  | Out_offset "timespec64 list"
  | Out_pin ptp_pin_desc

text \<open>
  The circumstances of a call: a signal while waiting for the mutex, the capability
  \<open>CAP_SYS_TIME\<close>, whether \<open>copy_to_user\<close> succeeds, and the system clock readings: the real
  time before the \<open>i\<close>-th sample, the readings around it, and those of a cross timestamp.
\<close>

record ptp_env =
  e_intr :: bool
  e_capable :: bool
  e_copy_out :: bool
  e_real :: "nat \<Rightarrow> timespec64"
  e_around :: "nat \<Rightarrow> timespec64 \<times> timespec64"
  e_cross :: "timespec64 \<times> timespec64"

text \<open>The checks of a request, before the range check of its index.\<close>

definition extts_checked :: "bool \<Rightarrow> ptp_extts_request \<Rightarrow> errno + ptp_extts_request" where
  "extts_checked v2 rq =
     (if v2 then
        (let fl = or (xr_flags rq) PTP_STRICT_FLAGS
         in if and fl (not PTP_EXTTS_VALID_FLAGS) \<noteq> 0 \<or> xr_rsv rq ! 0 \<noteq> 0 \<or> xr_rsv rq ! 1 \<noteq> 0
            then Inl EINVAL
            else if and fl PTP_ENABLE_FEATURE \<noteq> 0 \<and> and fl PTP_EXTTS_EDGES = 0
            then Inl EINVAL
            else Inr (rq\<lparr>xr_flags := fl\<rparr>))
      else Inr (rq\<lparr>xr_flags := and (xr_flags rq) PTP_EXTTS_V1_VALID_FLAGS, xr_rsv := [0, 0]\<rparr>))"

definition perout_checked :: "bool \<Rightarrow> ptp_perout_request \<Rightarrow> errno + ptp_perout_request" where
  "perout_checked v2 rq =
     (if v2 then
        (if and (pr_flags rq) (not PTP_PEROUT_VALID_FLAGS) \<noteq> 0 then Inl EINVAL
         else if and (pr_flags rq) PTP_PEROUT_DUTY_CYCLE = 0
               \<and> (pr_on rq \<noteq> zero_time \<or> pr_on_rsv rq \<noteq> 0) then Inl EINVAL
         else if and (pr_flags rq) PTP_PEROUT_DUTY_CYCLE \<noteq> 0
               \<and> (pt_sec (pr_on rq) > pt_sec (pr_period rq)
                  \<or> pt_sec (pr_on rq) = pt_sec (pr_period rq)
                    \<and> pt_nsec (pr_on rq) > pt_nsec (pr_period rq)) then Inl ERANGE
         else if and (pr_flags rq) PTP_PEROUT_PHASE \<noteq> 0
               \<and> (pt_sec (pr_start rq) > pt_sec (pr_period rq)
                  \<or> pt_sec (pr_start rq) = pt_sec (pr_period rq)
                    \<and> pt_nsec (pr_start rq) \<ge> pt_nsec (pr_period rq)) then Inl ERANGE
         else Inr rq)
      else Inr (rq\<lparr>pr_flags := and (pr_flags rq) PTP_PEROUT_V1_VALID_FLAGS,
                   pr_on := zero_time, pr_on_rsv := 0\<rparr>))"

text \<open>Handing a request to the driver, under the pin mutex.\<close>

definition locked_enable ::
    "ptp_env \<Rightarrow> 'd ptp_clock_info \<Rightarrow> ptp_clock_request \<Rightarrow> bool \<Rightarrow> 'd ptp_clock
      \<Rightarrow> ret \<times> 'd ptp_clock" where
  "locked_enable env ops rq on ptp =
     (if e_intr env then (Some ERESTARTSYS, ptp) else call_drv (enable ops rq on) ptp)"

text \<open>The sampling loops, from sample \<open>i\<close> on; a driver error ends them.\<close>

fun sample_offset ::
    "ptp_env \<Rightarrow> 'd ptp_clock_info \<Rightarrow> nat \<Rightarrow> nat \<Rightarrow> 'd ptp_clock
      \<Rightarrow> (errno + timespec64 list) \<times> 'd ptp_clock" where
  "sample_offset env ops i 0 ptp = (Inr [e_real env i], ptp)"
| "sample_offset env ops i (Suc n) ptp =
     (case ptp_clock_gettime ops ptp of
        (Inl err, ptp1) \<Rightarrow> (Inl err, ptp1)
      | (Inr ts, ptp1) \<Rightarrow>
          (case sample_offset env ops (Suc i) n ptp1 of
             (Inl err, ptp2) \<Rightarrow> (Inl err, ptp2)
           | (Inr tss, ptp2) \<Rightarrow> (Inr (e_real env i # ts # tss), ptp2)))"

fun sample_extended ::
    "ptp_env \<Rightarrow> ('d \<Rightarrow> (errno + timespec64) \<times> 'd) \<Rightarrow> nat \<Rightarrow> nat \<Rightarrow> 'd ptp_clock
      \<Rightarrow> (errno + (timespec64 \<times> timespec64 \<times> timespec64) list) \<times> 'd ptp_clock" where
  "sample_extended env get i 0 ptp = (Inr [], ptp)"
| "sample_extended env get i (Suc n) ptp =
     (case call_drv get ptp of
        (Inl err, ptp1) \<Rightarrow> (Inl err, ptp1)
      | (Inr ts, ptp1) \<Rightarrow>
          (case sample_extended env get (Suc i) n ptp1 of
             (Inl err, ptp2) \<Rightarrow> (Inl err, ptp2)
           | (Inr tss, ptp2) \<Rightarrow>
               (Inr ((fst (e_around env i), ts, snd (e_around env i)) # tss), ptp2)))"

definition copy_out :: "ptp_env \<Rightarrow> ptp_out \<Rightarrow> 'd ptp_clock \<Rightarrow> ret \<times> ptp_out \<times> 'd ptp_clock" where
  "copy_out env out ptp =
     (if e_copy_out env then (None, out, ptp) else (Some EFAULT, Out_nothing, ptp))"

definition caps_of :: "'d ptp_clock_info \<Rightarrow> 'd ptp_clock \<Rightarrow> ptp_caps" where
  "caps_of info ptp =
     \<lparr>c_max_adj = max_adj info, c_n_alarm = n_alarm info, c_n_ext_ts = n_ext_ts info,
      c_n_per_out = n_per_out info, c_pps = has_pps info, c_n_pins = n_pins info,
      c_cross_timestamping = (getcrosststamp info \<noteq> None),
      c_adjust_phase = (adjphase info \<noteq> None \<and> getmaxphase info \<noteq> None),
      c_max_phase_adj = (case (adjphase info, getmaxphase info) of
                           (Some _, Some f) \<Rightarrow> f (drv ptp) | _ \<Rightarrow> 0)\<rparr>"

text \<open>The reserved words of a pin argument must be zero in the second version.\<close>

definition pin_arg_ok :: "'d ptp_clock_info \<Rightarrow> bool \<Rightarrow> pin_arg \<Rightarrow> bool" where
  "pin_arg_ok ops v2 pd \<longleftrightarrow> \<not> (v2 \<and> (\<exists>r\<in>set (pa_rsv pd). r \<noteq> 0)) \<and> pa_index pd < n_pins ops"

definition no_out :: "ret \<times> 'd ptp_clock \<Rightarrow> ret \<times> ptp_out \<times> 'd ptp_clock" where
  "no_out p = (fst p, Out_nothing, snd p)"

text \<open>The commands that take more than a line.\<close>

definition ioctl_extts_request ::
    "ptp_env \<Rightarrow> 'd ptp_clock_info \<Rightarrow> bool \<Rightarrow> ptp_extts_request option \<Rightarrow> 'd ptp_clock
      \<Rightarrow> ret \<times> ptp_out \<times> 'd ptp_clock" where
  "ioctl_extts_request env ops v2 arg ptp =
     (case arg of
        None \<Rightarrow> (Some EFAULT, Out_nothing, ptp)
      | Some rq \<Rightarrow>
          (case extts_checked v2 rq of
             Inl err \<Rightarrow> (Some err, Out_nothing, ptp)
           | Inr rq \<Rightarrow>
               if xr_index rq \<ge> n_ext_ts ops then (Some EINVAL, Out_nothing, ptp)
               else no_out (locked_enable env ops (PTP_CLK_REQ_EXTTS rq)
                              (and (xr_flags rq) PTP_ENABLE_FEATURE \<noteq> 0) ptp)))"

definition ioctl_perout_request ::
    "ptp_env \<Rightarrow> 'd ptp_clock_info \<Rightarrow> bool \<Rightarrow> ptp_perout_request option \<Rightarrow> 'd ptp_clock
      \<Rightarrow> ret \<times> ptp_out \<times> 'd ptp_clock" where
  "ioctl_perout_request env ops v2 arg ptp =
     (case arg of
        None \<Rightarrow> (Some EFAULT, Out_nothing, ptp)
      | Some rq \<Rightarrow>
          (case perout_checked v2 rq of
             Inl err \<Rightarrow> (Some err, Out_nothing, ptp)
           | Inr rq \<Rightarrow>
               if pr_index rq \<ge> n_per_out ops then (Some EINVAL, Out_nothing, ptp)
               else no_out (locked_enable env ops (PTP_CLK_REQ_PEROUT rq)
                              (pt_sec (pr_period rq) \<noteq> 0 \<or> pt_nsec (pr_period rq) \<noteq> 0) ptp)))"

definition ioctl_offset_precise ::
    "ptp_env \<Rightarrow> 'd ptp_clock_info \<Rightarrow> 'd ptp_clock
      \<Rightarrow> ret \<times> ptp_out \<times> 'd ptp_clock" where
  "ioctl_offset_precise env ops ptp =
     (case getcrosststamp ops of
        None \<Rightarrow> (Some EOPNOTSUPP, Out_nothing, ptp)
      | Some get \<Rightarrow>
          (case call_drv get ptp of
             (Inl err, ptp1) \<Rightarrow> (Some err, Out_nothing, ptp1)
           | (Inr device, ptp1) \<Rightarrow>
               copy_out env (Out_precise device (fst (e_cross env)) (snd (e_cross env))) ptp1))"

definition ioctl_offset_extended ::
    "ptp_env \<Rightarrow> 'd ptp_clock_info \<Rightarrow> errno + (nat \<times> u32 list) \<Rightarrow> 'd ptp_clock
      \<Rightarrow> ret \<times> ptp_out \<times> 'd ptp_clock" where
  "ioctl_offset_extended env ops arg ptp =
     (case gettimex64 ops of
        None \<Rightarrow> (Some EOPNOTSUPP, Out_nothing, ptp)
      | Some get \<Rightarrow>
          (case arg of
             Inl err \<Rightarrow> (Some err, Out_nothing, ptp)
           | Inr (n_samples, rsv) \<Rightarrow>
               if n_samples > PTP_MAX_SAMPLES \<or> (\<exists>r\<in>set rsv. r \<noteq> 0)
               then (Some EINVAL, Out_nothing, ptp)
               else (case sample_extended env get 0 n_samples ptp of
                       (Inl err, ptp1) \<Rightarrow> (Some err, Out_nothing, ptp1)
                     | (Inr tss, ptp1) \<Rightarrow> copy_out env (Out_extended tss) ptp1)))"

definition ioctl_offset ::
    "ptp_env \<Rightarrow> 'd ptp_clock_info \<Rightarrow> errno + nat \<Rightarrow> 'd ptp_clock
      \<Rightarrow> ret \<times> ptp_out \<times> 'd ptp_clock" where
  "ioctl_offset env ops arg ptp =
     (case arg of
        Inl err \<Rightarrow> (Some err, Out_nothing, ptp)
      | Inr n_samples \<Rightarrow>
          if n_samples > PTP_MAX_SAMPLES then (Some EINVAL, Out_nothing, ptp)
          else (case sample_offset env ops 0 n_samples ptp of
                  (Inl err, ptp1) \<Rightarrow> (Some err, Out_nothing, ptp1)
                | (Inr tss, ptp1) \<Rightarrow> copy_out env (Out_offset tss) ptp1))"

definition ioctl_pin_getfunc ::
    "ptp_env \<Rightarrow> 'd ptp_clock_info \<Rightarrow> bool \<Rightarrow> pin_arg option \<Rightarrow> 'd ptp_clock
      \<Rightarrow> ret \<times> ptp_out \<times> 'd ptp_clock" where
  "ioctl_pin_getfunc env ops v2 arg ptp =
     (case arg of
        None \<Rightarrow> (Some EFAULT, Out_nothing, ptp)
      | Some pd \<Rightarrow>
          if \<not> pin_arg_ok ops v2 pd then (Some EINVAL, Out_nothing, ptp)
          else if e_intr env then (Some ERESTARTSYS, Out_nothing, ptp)
          else copy_out env (Out_pin (pin_config ptp ! pa_index pd)) ptp)"

definition ioctl_pin_setfunc ::
    "ptp_env \<Rightarrow> 'd ptp_clock_info \<Rightarrow> bool \<Rightarrow> pin_arg option \<Rightarrow> 'd ptp_clock
      \<Rightarrow> ret \<times> ptp_out \<times> 'd ptp_clock" where
  "ioctl_pin_setfunc env ops v2 arg ptp =
     (case arg of
        None \<Rightarrow> (Some EFAULT, Out_nothing, ptp)
      | Some pd \<Rightarrow>
          if \<not> pin_arg_ok ops v2 pd then (Some EINVAL, Out_nothing, ptp)
          else if e_intr env then (Some ERESTARTSYS, Out_nothing, ptp)
          else no_out (ptp_set_pinfunc ops (pa_index pd) (pa_func pd) (pa_chan pd) ptp))"

definition ptp_ioctl ::
    "ptp_env \<Rightarrow> 'd ptp_clock_info \<Rightarrow> nat \<Rightarrow> ptp_cmd \<Rightarrow> 'd ptp_clock
      \<Rightarrow> ret \<times> ptp_out \<times> 'd ptp_clock" where
  "ptp_ioctl env ops tsevq cmd ptp =
     (case cmd of
        PTP_CLOCK_GETCAPS \<Rightarrow> copy_out env (Out_caps (caps_of ops ptp)) ptp
      | PTP_EXTTS_REQUEST v2 arg \<Rightarrow> ioctl_extts_request env ops v2 arg ptp
      | PTP_PEROUT_REQUEST v2 arg \<Rightarrow> ioctl_perout_request env ops v2 arg ptp
      | PTP_ENABLE_PPS on \<Rightarrow>
          if \<not> e_capable env then (Some EPERM, Out_nothing, ptp)
          else no_out (locked_enable env ops PTP_CLK_REQ_PPS on ptp)
      | PTP_SYS_OFFSET_PRECISE \<Rightarrow> ioctl_offset_precise env ops ptp
      | PTP_SYS_OFFSET_EXTENDED arg \<Rightarrow> ioctl_offset_extended env ops arg ptp
      | PTP_SYS_OFFSET arg \<Rightarrow> ioctl_offset env ops arg ptp
      | PTP_PIN_GETFUNC v2 arg \<Rightarrow> ioctl_pin_getfunc env ops v2 arg ptp
      | PTP_PIN_SETFUNC v2 arg \<Rightarrow> ioctl_pin_setfunc env ops v2 arg ptp
      | PTP_MASK_CLEAR_ALL \<Rightarrow>
          (None, Out_nothing, upd_queue tsevq (\<lambda>q. q\<lparr>q_mask := {}\<rparr>) ptp)
      | PTP_MASK_EN_SINGLE arg \<Rightarrow>
          (case arg of
             None \<Rightarrow> (Some EFAULT, Out_nothing, ptp)
           | Some i \<Rightarrow>
               if i \<ge> PTP_MAX_CHANNELS then (Some EFAULT, Out_nothing, ptp)
               else (None, Out_nothing, upd_queue tsevq (\<lambda>q. q\<lparr>q_mask := insert i (q_mask q)\<rparr>) ptp))
      | PTP_UNKNOWN_CMD \<Rightarrow> (Some ENOTTY, Out_nothing, ptp))"

lemmas ptp_ioctl_defs =
  ptp_ioctl_def ioctl_extts_request_def ioctl_perout_request_def ioctl_offset_precise_def
  ioctl_offset_extended_def ioctl_offset_def ioctl_pin_getfunc_def ioctl_pin_setfunc_def

section \<open>Poll and read\<close>

datatype poll_mask = EPOLLERR | EPOLLIN | EPOLL_none

definition ptp_poll :: "nat option \<Rightarrow> 'd ptp_clock \<Rightarrow> poll_mask" where
  "ptp_poll data ptp =
     (case data of
        None \<Rightarrow> EPOLLERR
      | Some h \<Rightarrow> (case map_of (tsevqs ptp) h of
                      None \<Rightarrow> EPOLLERR
                    | Some q \<Rightarrow> if queue_cnt q \<noteq> 0 then EPOLLIN else EPOLL_none))"

text \<open>
  A read with the allocation, the copy to user space and a pending signal. The result is
  \<open>None\<close> while the call sleeps; the events returned stand for 32 bytes each.
\<close>

definition EXTTS_EVENT_SIZE :: nat where "EXTTS_EVENT_SIZE = 32"
definition EXTTS_BUFSIZE :: nat where "EXTTS_BUFSIZE = PTP_BUF_TIMESTAMPS * EXTTS_EVENT_SIZE"

definition ptp_read ::
    "bool \<Rightarrow> bool \<Rightarrow> bool \<Rightarrow> nat option \<Rightarrow> nat \<Rightarrow> 'd ptp_clock
      \<Rightarrow> (errno + extts_event list) option \<times> 'd ptp_clock" where
  "ptp_read signal mem copied data cnt ptp =
     (case Option.bind data (map_of (tsevqs ptp)) of
        None \<Rightarrow> (Some (Inl EINVAL), ptp)
      | Some queue \<Rightarrow>
          if cnt mod EXTTS_EVENT_SIZE \<noteq> 0 then (Some (Inl EINVAL), ptp)
          else
            (let cnt = (if cnt > EXTTS_BUFSIZE then EXTTS_BUFSIZE else cnt);
                 cnt = cnt div EXTTS_EVENT_SIZE
             in if \<not> (defunct ptp \<or> queue_cnt queue \<noteq> 0)
                then (if signal then (Some (Inl ERESTARTSYS), ptp) else (None, ptp))
                else if defunct ptp then (Some (Inl ENODEV), ptp)
                else if \<not> mem then (Some (Inl ENOMEM), ptp)
                else
                  (let qcnt = nat (queue_cnt queue);
                       cnt = (if cnt > qcnt then qcnt else cnt);
                       (event, queue1) = ring_take cnt queue;
                       ptp1 = upd_queue (the data) (\<lambda>_. queue1) ptp
                   in if copied then (Some (Inr event), ptp1)
                      else (Some (Inl EFAULT), ptp1))))"

section \<open>Properties of the reader\<close>

lemma map_of_upd:
  "map_of (map (\<lambda>(k, q). (k, if k = h then f q else q)) xs) i
     = (if i = h then map_option f (map_of xs i) else map_of xs i)"
  by (induction xs) auto

lemma upd_queue_of:
  "map_of (tsevqs (upd_queue h f ptp)) i
     = (if i = h then map_option f (map_of (tsevqs ptp) i) else map_of (tsevqs ptp) i)"
  by (simp add: upd_queue_def map_of_upd)

lemma deliver_of:
  "map_of (tsevqs (deliver ev i ptp)) h
     = map_option (\<lambda>q. if unat i \<in> q_mask q then enqueue_external_timestamp q ev else q)
         (map_of (tsevqs ptp) h)"
  by (simp add: deliver_def map_of_map)

lemma if_min: "(if (n :: nat) < c then n else c) = min c n"
  by simp

lemma min_div: "min c EXTTS_BUFSIZE div EXTTS_EVENT_SIZE = min (c div 32) 30"
  by (auto simp: min_def EXTTS_BUFSIZE_def EXTTS_EVENT_SIZE_def PTP_BUF_TIMESTAMPS_def)

text \<open>A read either leaves the clock alone or takes the oldest events of its queue.\<close>

lemma ptp_read_cases:
  assumes "map_of (tsevqs ptp) h = Some q"
  obtains
    (none) "snd (ptp_read signal mem copied (Some h) cnt ptp) = ptp"
      "\<And>es. fst (ptp_read signal mem copied (Some h) cnt ptp) \<noteq> Some (Inr es)"
  | (took) es q1 where "ring_take (min (min (cnt div 32) 30) (nat (queue_cnt q))) q = (es, q1)"
      "ptp_read signal mem copied (Some h) cnt ptp
         = (Some (if copied then Inr es else Inl EFAULT), upd_queue h (\<lambda>_. q1) ptp)"
proof (cases "cnt mod EXTTS_EVENT_SIZE = 0 \<and> \<not> defunct ptp \<and> queue_cnt q \<noteq> 0 \<and> mem")
  case True
  obtain es q1 where "ring_take (min (min (cnt div 32) 30) (nat (queue_cnt q))) q = (es, q1)"
    by fastforce
  moreover from this True assms
  have "ptp_read signal mem copied (Some h) cnt ptp
         = (Some (if copied then Inr es else Inl EFAULT), upd_queue h (\<lambda>_. q1) ptp)"
    unfolding ptp_read_def Let_def if_min min_div by simp
  ultimately show ?thesis by (rule took)
next
  case False
  then show ?thesis
    using assms by (intro none) (auto simp: ptp_read_def Let_def)
qed

text \<open>
  What happens on a clock from the point of view of one reader: events, its own reads, and
  the reads, opens, closes and mask changes of the others.
\<close>

datatype clock_step =
    Event u32 u64
  | Read bool bool bool nat
  | Other_read bool bool bool nat nat
  | Other_open nat
  | Other_close nat
  | Other_clear nat

primrec clock_step_of :: "nat \<Rightarrow> clock_step \<Rightarrow> 'd ptp_clock \<Rightarrow> extts_event list \<times> 'd ptp_clock" where
  "clock_step_of h (Event i ts) ptp = ([], snd (ptp_clock_event (PTP_CLOCK_EXTTS i ts) ptp))"
| "clock_step_of h (Read s m c cnt) ptp =
     (let (r, ptp1) = ptp_read s m c (Some h) cnt ptp
      in (case r of Some (Inr es) \<Rightarrow> es | _ \<Rightarrow> [], ptp1))"
| "clock_step_of h (Other_read s m c k cnt) ptp =
     ([], if k = h then ptp else snd (ptp_read s m c (Some k) cnt ptp))"
| "clock_step_of h (Other_open k) ptp = ([], if k = h then ptp else snd (ptp_open True True k ptp))"
| "clock_step_of h (Other_close k) ptp = ([], if k = h then ptp else ptp_release k ptp)"
| "clock_step_of h (Other_clear k) ptp =
     ([], if k = h then ptp else upd_queue k (\<lambda>q. q\<lparr>q_mask := {}\<rparr>) ptp)"

primrec clock_run :: "nat \<Rightarrow> clock_step list \<Rightarrow> 'd ptp_clock \<Rightarrow> extts_event list \<times> 'd ptp_clock" where
  "clock_run h [] ptp = ([], ptp)"
| "clock_run h (s # ss) ptp =
     (let (es, ptp1) = clock_step_of h s ptp; (es', ptp2) = clock_run h ss ptp1
      in (es @ es', ptp2))"

text \<open>The steps of the run that the reader's queue sees, as steps of a bounded queue.\<close>

definition stamp :: "u32 \<Rightarrow> u64 \<Rightarrow> extts_event" where
  "stamp i ts = \<lparr>ev_sec = uint ts div 1000000000, ev_nsec = uint ts mod 1000000000,
                 ev_index = i, ev_flags = PTP_EXTTS_EVENT_VALID\<rparr>"

primrec heard :: "nat set \<Rightarrow> clock_step list \<Rightarrow> extts_event list" where
  "heard chans [] = []"
| "heard chans (s # ss) =
     (case s of Event i ts \<Rightarrow> if unat i \<in> chans then stamp i ts # heard chans ss else heard chans ss
      | _ \<Rightarrow> heard chans ss)"

definition copies :: "clock_step list \<Rightarrow> bool" where
  "copies ss \<longleftrightarrow> (\<forall>s\<in>set ss. case s of Read sg m c cnt \<Rightarrow> c | _ \<Rightarrow> True)"

lemma other_read_of:
  assumes "k \<noteq> h"
  shows "map_of (tsevqs (snd (ptp_read s m c (Some k) cnt ptp))) h = map_of (tsevqs ptp) h"
proof (cases "map_of (tsevqs ptp) k")
  case None
  then show ?thesis by (simp add: ptp_read_def)
next
  case (Some q)
  then show ?thesis
    by (rule ptp_read_cases [where signal = s and mem = m and copied = c and cnt = cnt])
      (use assms in \<open>auto simp: upd_queue_of\<close>)
qed

lemma map_of_filter_fst: "k \<noteq> h \<Longrightarrow> map_of (filter (\<lambda>p. fst p \<noteq> k) xs) h = map_of xs h"
  by (induction xs) auto

text \<open>Every step of the run acts on the reader's queue as a step of a bounded queue.\<close>

lemma step_refines:
  assumes "map_of (tsevqs ptp) h = Some q" and "queue_ok q"
  shows "\<exists>fs q1. map_of (tsevqs (snd (clock_step_of h s ptp))) h = Some q1 \<and> q_mask q1 = q_mask q
    \<and> (fst (clock_step_of h s ptp), q1)
        = fifo_run ring_put ring_take (\<lambda>q. nat (queue_cnt q)) fs q
    \<and> puts fs = heard (q_mask q) [s] \<and> (copies [s] \<longrightarrow> all_kept fs)"
proof (cases s)
  case (Event i ts)
  then show ?thesis
    using assms by (intro exI [where x = "if unat i \<in> q_mask q then [Put (stamp i ts)] else []"])
      (auto simp: ptp_clock_event_def deliver_of enqueue_external_timestamp_def extts_of_event_def
        stamp_def)
next
  case (Read sg m c cnt)
  from assms(1) show ?thesis
  proof (cases rule: ptp_read_cases [where signal = sg and mem = m and copied = c and cnt = cnt])
    case none
    then show ?thesis
      using assms Read by (intro exI [where x = "[]"])
        (auto simp: case_prod_beta split: option.splits sum.splits)
  next
    case (took es q1)
    then show ?thesis
      using assms Read ring_take_frame [of "min (min (cnt div 32) 30) (nat (queue_cnt q))" q]
      by (intro exI [where x = "[Take c (min (cnt div 32) 30)]"])
        (auto simp: upd_queue_of copies_def)
  qed
next
  case (Other_read sg m c k cnt)
  then show ?thesis
    using assms by (intro exI [where x = "[]"]) (auto simp: other_read_of)
next
  case (Other_open k)
  then show ?thesis
    using assms by (intro exI [where x = "[]"]) (auto simp: ptp_open_def)
next
  case (Other_close k)
  then show ?thesis
    using assms by (intro exI [where x = "[]"]) (auto simp: ptp_release_def map_of_filter_fst)
next
  case (Other_clear k)
  then show ?thesis
    using assms by (intro exI [where x = "[]"]) (auto simp: upd_queue_of)
qed

lemma run_refines:
  assumes "map_of (tsevqs ptp) h = Some q" and "queue_ok q"
  shows "\<exists>fs q1. map_of (tsevqs (snd (clock_run h ss ptp))) h = Some q1
    \<and> (fst (clock_run h ss ptp), q1) = fifo_run ring_put ring_take (\<lambda>q. nat (queue_cnt q)) fs q
    \<and> puts fs = heard (q_mask q) ss \<and> (copies ss \<longrightarrow> all_kept fs)"
  using assms
proof (induction ss arbitrary: ptp q)
  case Nil
  then show ?case by (intro exI [where x = "[]"]) simp
next
  case (Cons s ss)
  from step_refines [OF Cons.prems, of s] obtain fs q1 where
    s: "map_of (tsevqs (snd (clock_step_of h s ptp))) h = Some q1" "q_mask q1 = q_mask q"
      "(fst (clock_step_of h s ptp), q1) = fifo_run ring_put ring_take (\<lambda>q. nat (queue_cnt q)) fs q"
      "puts fs = heard (q_mask q) [s]" "copies [s] \<longrightarrow> all_kept fs" by blast
  have "queue_ok q1"
    using ring.run_ordered [OF Cons.prems(2), of fs] s(3) by (metis snd_conv)
  from Cons.IH [OF s(1) this] obtain gs q2 where
    ss: "map_of (tsevqs (snd (clock_run h ss (snd (clock_step_of h s ptp))))) h = Some q2"
      "(fst (clock_run h ss (snd (clock_step_of h s ptp))), q2)
         = fifo_run ring_put ring_take (\<lambda>q. nat (queue_cnt q)) gs q1"
      "puts gs = heard (q_mask q1) ss" "copies ss \<longrightarrow> all_kept gs" by blast
  have "puts (fs @ gs) = heard (q_mask q) (s # ss)"
    using s(2,4) ss(3) by (simp split: clock_step.splits)
  moreover have "copies (s # ss) \<longrightarrow> all_kept (fs @ gs)"
    using s(5) ss(4) by (simp add: copies_def)
  moreover have "(fst (clock_run h (s # ss) ptp), q2)
      = fifo_run ring_put ring_take (\<lambda>q. nat (queue_cnt q)) (fs @ gs) q"
    by (simp add: fifo_run_append case_prod_beta Let_def flip: s(3) ss(2))
  moreover have "map_of (tsevqs (snd (clock_run h (s # ss) ptp))) h = Some q2"
    using ss(1) by (simp add: case_prod_beta Let_def)
  ultimately show ?case by blast
qed

text \<open>
  C6: What a reader gets, followed by what is left in its queue, is a subsequence of the
  events its mask selects, in their order, whatever the other readers do; and it is all of
  them while at most 127 are outstanding in all and every read can copy its result out.
\<close>

theorem reader_ordered:
  assumes "map_of (tsevqs ptp) h = Some q" and "queue_ok q"
  shows "\<exists>q1. map_of (tsevqs (snd (clock_run h ss ptp))) h = Some q1 \<and> queue_ok q1
    \<and> subseq (fst (clock_run h ss ptp) @ queue_list q1) (queue_list q @ heard (q_mask q) ss)
    \<and> (copies ss \<and> length (queue_list q) + length (heard (q_mask q) ss) \<le> 127
        \<longrightarrow> fst (clock_run h ss ptp) @ queue_list q1 = queue_list q @ heard (q_mask q) ss)"
proof -
  from run_refines [OF assms, of ss] obtain fs q1 where
    r: "map_of (tsevqs (snd (clock_run h ss ptp))) h = Some q1"
      "(fst (clock_run h ss ptp), q1) = fifo_run ring_put ring_take (\<lambda>q. nat (queue_cnt q)) fs q"
      "puts fs = heard (q_mask q) ss" "copies ss \<longrightarrow> all_kept fs" by blast
  note run = arg_cong [OF r(2), of fst, symmetric] arg_cong [OF r(2), of snd, symmetric]
  show ?thesis
    using ring.run_ordered [OF assms(2), of fs] ring.run_complete [OF assms(2), of fs] r(1,3,4)
    by (auto simp: run)
qed

lemma reader_ordered_witness:
  "\<exists>q1. map_of (tsevqs (snd (clock_run 0 [Event 3 1500000000, Other_open 7, Event 4 2000000000,
      Read False True True 64] (mock_clock (mock_phc_initial 0 0))))) 0 = Some q1
    \<and> fst (clock_run 0 [Event 3 1500000000, Other_open 7, Event 4 2000000000,
      Read False True True 64] (mock_clock (mock_phc_initial 0 0))) @ queue_list q1
      = [stamp 3 1500000000, stamp 4 2000000000]"
  using reader_ordered [of "mock_clock (mock_phc_initial 0 0)" 0 new_queue
      "[Event 3 1500000000, Other_open 7, Event 4 2000000000, Read False True True 64]"]
  by (auto simp: queue_list_new mask_new copies_def)

text \<open>
  After a reader clears its mask and enables one channel, everything it reads was in its
  queue already or comes from that channel.
\<close>

theorem single_channel_reader:
  assumes "map_of (tsevqs ptp) h = Some q" and "queue_ok q"
    and "ptp_ioctl env info h PTP_MASK_CLEAR_ALL ptp = (r1, out1, ptp1)"
    and "ptp_ioctl env info h (PTP_MASK_EN_SINGLE (Some c)) ptp1 = (None, out2, ptp2)"
    and "e \<in> set (fst (clock_run h ss ptp2))"
  shows "e \<in> set (queue_list q) \<or> unat (ev_index e) = c"
proof -
  have heard: "e \<in> set (heard {c} ss) \<Longrightarrow> unat (ev_index e) = c" for e
    by (induction ss) (auto simp: stamp_def split: clock_step.splits if_splits)
  let ?q = "q\<lparr>q_mask := {c}\<rparr>"
  have q: "map_of (tsevqs ptp2) h = Some ?q" "queue_ok ?q" "queue_list ?q = queue_list q"
    using assms(1-4) by (auto simp: ptp_ioctl_defs upd_queue_of queue_ok_def queue_list_def
        queue_cnt_def split: if_splits)
  from run_refines [OF q(1,2), of ss] obtain fs q1 where
    r: "(fst (clock_run h ss ptp2), q1) = fifo_run ring_put ring_take (\<lambda>q. nat (queue_cnt q)) fs ?q"
      "puts fs = heard {c} ss" by auto
  have "subseq (fst (clock_run h ss ptp2) @ queue_list q1) (queue_list q @ heard {c} ss)"
    using ring.run_ordered [OF q(2), of fs] r q(3) by (metis fst_conv snd_conv)
  then have "set (fst (clock_run h ss ptp2)) \<subseteq> set (queue_list q @ heard {c} ss)"
    by (auto dest: list_emb_set)
  then show ?thesis using assms(5) heard by auto
qed

lemma single_channel_reader_witness:
  "set (fst (clock_run 0 [Event 3 1500000000, Event 4 2000000000, Read False True True 64]
      (upd_queue 0 (\<lambda>q. q\<lparr>q_mask := {4}\<rparr>) (mock_clock (mock_phc_initial 0 0)))))
    \<subseteq> {e. unat (ev_index e) = 4}"
proof
  let ?p = "mock_clock (mock_phc_initial 0 0)"
  let ?env = "\<lparr>e_intr = False, e_capable = True, e_copy_out = True, e_real = (\<lambda>_. ptp_clock_getres),
     e_around = (\<lambda>_. (ptp_clock_getres, ptp_clock_getres)), e_cross = (ptp_clock_getres, ptp_clock_getres)\<rparr>"
  fix e
  assume "e \<in> set (fst (clock_run 0 [Event 3 1500000000, Event 4 2000000000, Read False True True 64]
      (upd_queue 0 (\<lambda>q. q\<lparr>q_mask := {4}\<rparr>) ?p)))"
  then show "e \<in> {e. unat (ev_index e) = 4}"
    using single_channel_reader [of ?p 0 new_queue ?env "mock_phc_info 0 0" None Out_nothing
        "upd_queue 0 (\<lambda>q. q\<lparr>q_mask := {}\<rparr>) ?p" 4 Out_nothing
        "upd_queue 0 (\<lambda>q. q\<lparr>q_mask := {4}\<rparr>) ?p" e]
      queue_list_new
    by (auto simp: ptp_ioctl_defs PTP_MAX_CHANNELS_def upd_queue_def simp del: clock_run.simps)
qed

section \<open>Properties of the ioctls\<close>

text \<open>
  C7: A request for external timestamps that reaches the driver has been vetted: its channel
  exists, it has only known flags and no reserved word, and in the second version it asks
  for strict checking and names an edge if it enables. Every other request leaves the driver's state alone.
\<close>

theorem extts_request_vetted:
  assumes "ptp_ioctl env info h (PTP_EXTTS_REQUEST v2 arg) ptp = (r, out, ptp')"
  shows "(r \<noteq> None \<and> ptp' = ptp)
    \<or> (\<exists>rq on. (r, drv ptp') = enable info (PTP_CLK_REQ_EXTTS rq) on (drv ptp)
        \<and> on = (and (xr_flags rq) PTP_ENABLE_FEATURE \<noteq> 0) \<and> xr_index rq < n_ext_ts info
        \<and> and (xr_flags rq) (not PTP_EXTTS_VALID_FLAGS) = 0 \<and> xr_rsv rq ! 0 = 0 \<and> xr_rsv rq ! 1 = 0
        \<and> (v2 \<longrightarrow> and (xr_flags rq) PTP_STRICT_FLAGS \<noteq> 0
              \<and> (on \<longrightarrow> and (xr_flags rq) PTP_EXTTS_EDGES \<noteq> 0))
        \<and> (\<not> v2 \<longrightarrow> and (xr_flags rq) (not PTP_EXTTS_V1_VALID_FLAGS) = 0))"
proof (cases arg)
  case None
  then show ?thesis using assms by (auto simp: ptp_ioctl_defs)
next
  case (Some rq)
  have strict: "and (or fl PTP_STRICT_FLAGS) PTP_STRICT_FLAGS \<noteq> 0" for fl
    by (simp add: PTP_STRICT_FLAGS_def bit.conj_disj_distrib2)
  have nz: "PTP_STRICT_FLAGS \<noteq> 0"
    by (simp add: PTP_STRICT_FLAGS_def)
  have v1: "and (and fl PTP_EXTTS_V1_VALID_FLAGS) (not PTP_EXTTS_V1_VALID_FLAGS) = 0"
      "and (and fl PTP_EXTTS_V1_VALID_FLAGS) (not PTP_EXTTS_VALID_FLAGS) = 0" for fl
    by (simp_all add: and.assoc PTP_EXTTS_V1_VALID_FLAGS_def PTP_EXTTS_VALID_FLAGS_def)
  show ?thesis
  proof (cases "extts_checked v2 rq")
    case (Inl e)
    then show ?thesis using assms Some by (auto simp: ptp_ioctl_defs)
  next
    case (Inr rq')
    note checked = this
    show ?thesis
    proof (cases "xr_index rq' < n_ext_ts info \<and> \<not> e_intr env")
      case False
      then show ?thesis
        using assms Some checked by (auto simp: ptp_ioctl_defs locked_enable_def no_out_def split: if_splits)
    next
      case True
      then have "(r, drv ptp') = enable info (PTP_CLK_REQ_EXTTS rq')
          (and (xr_flags rq') PTP_ENABLE_FEATURE \<noteq> 0) (drv ptp)"
        using assms Some checked
        by (auto simp: ptp_ioctl_defs locked_enable_def no_out_def not_le)
      with True checked show ?thesis
        by (intro disjI2 exI [where x = rq'] exI conjI)
          (auto simp: extts_checked_def Let_def strict v1 nz split: if_splits)
    qed
  qed
qed

lemma extts_request_vetted_witness:
  "let (r, out, ptp') = ptp_ioctl
        \<lparr>e_intr = False, e_capable = True, e_copy_out = True, e_real = (\<lambda>_. ptp_clock_getres),
         e_around = (\<lambda>_. (ptp_clock_getres, ptp_clock_getres)),
         e_cross = (ptp_clock_getres, ptp_clock_getres)\<rparr>
        (mock_phc_info 5 7) 0
        (PTP_EXTTS_REQUEST True (Some \<lparr>xr_index = 0, xr_flags = 3, xr_rsv = [0, 0]\<rparr>))
        (mock_clock (mock_phc_initial 0 0))
   in (r \<noteq> None \<and> ptp' = mock_clock (mock_phc_initial 0 0))
      \<or> (\<exists>rq on. (r, drv ptp') = mock_phc_enable 5 7 (PTP_CLK_REQ_EXTTS rq) on (mock_phc_initial 0 0)
          \<and> and (xr_flags rq) PTP_STRICT_FLAGS \<noteq> 0)"
  using extts_request_vetted [of
        "\<lparr>e_intr = False, e_capable = True, e_copy_out = True, e_real = (\<lambda>_. ptp_clock_getres),
         e_around = (\<lambda>_. (ptp_clock_getres, ptp_clock_getres)),
         e_cross = (ptp_clock_getres, ptp_clock_getres)\<rparr>" "mock_phc_info 5 7" 0 True
        "Some \<lparr>xr_index = 0, xr_flags = 3, xr_rsv = [0, 0]\<rparr>" "mock_clock (mock_phc_initial 0 0)"]
  by (fastforce simp: mock_phc_info_def split: prod.split)

definition time_ns :: "ptp_clock_time \<Rightarrow> int" where
  "time_ns t = pt_sec t * 1000000000 + int (pt_nsec t)"

lemma time_ns_less:
  "pt_nsec a < 1000000000 \<Longrightarrow> pt_nsec b < 1000000000 \<Longrightarrow>
     time_ns a < time_ns b \<longleftrightarrow> pt_sec a < pt_sec b \<or> pt_sec a = pt_sec b \<and> pt_nsec a < pt_nsec b"
  unfolding time_ns_def by linarith

text \<open>
  A periodic output that the second version of its request gets to the driver is
  meaningful: its duty cycle does not exceed its period and its phase is below it. A request that
  asks for no duty cycle has the field zero.
\<close>

theorem perout_request_vetted:
  assumes "ptp_ioctl env info h (PTP_PEROUT_REQUEST True arg) ptp = (r, out, ptp')"
    and "r = None \<or> drv ptp' \<noteq> drv ptp"
  shows "\<exists>rq. arg = Some rq
    \<and> (r, drv ptp') = enable info (PTP_CLK_REQ_PEROUT rq)
         (pt_sec (pr_period rq) \<noteq> 0 \<or> pt_nsec (pr_period rq) \<noteq> 0) (drv ptp)
    \<and> pr_index rq < n_per_out info
    \<and> (and (pr_flags rq) PTP_PEROUT_DUTY_CYCLE = 0 \<longrightarrow> pr_on rq = zero_time)
    \<and> (pt_nsec (pr_period rq) < 1000000000 \<longrightarrow>
        (and (pr_flags rq) PTP_PEROUT_DUTY_CYCLE \<noteq> 0 \<longrightarrow> pt_nsec (pr_on rq) < 1000000000 \<longrightarrow>
           time_ns (pr_on rq) \<le> time_ns (pr_period rq))
        \<and> (and (pr_flags rq) PTP_PEROUT_PHASE \<noteq> 0 \<longrightarrow> pt_nsec (pr_start rq) < 1000000000 \<longrightarrow>
           time_ns (pr_start rq) < time_ns (pr_period rq)))"
proof -
  from assms obtain rq where rq: "arg = Some rq"
    by (cases arg) (auto simp: ptp_ioctl_defs)
  with assms have ok: "perout_checked True rq = Inr rq"
    by (auto simp: ptp_ioctl_defs perout_checked_def split: if_splits)
  with assms rq have go: "pr_index rq < n_per_out info \<and> \<not> e_intr env"
    by (auto simp: ptp_ioctl_defs locked_enable_def no_out_def split: if_splits)
  with ok rq assms(1) have "(r, drv ptp') = enable info (PTP_CLK_REQ_PEROUT rq)
         (pt_sec (pr_period rq) \<noteq> 0 \<or> pt_nsec (pr_period rq) \<noteq> 0) (drv ptp)"
    by (auto simp: ptp_ioctl_defs locked_enable_def no_out_def not_le)
  moreover have "and (pr_flags rq) PTP_PEROUT_DUTY_CYCLE = 0 \<longrightarrow> pr_on rq = zero_time"
    using ok by (auto simp: perout_checked_def split: if_splits)
  moreover have "and (pr_flags rq) PTP_PEROUT_DUTY_CYCLE \<noteq> 0
      \<longrightarrow> \<not> (pt_sec (pr_period rq) < pt_sec (pr_on rq) \<or> pt_sec (pr_period rq) = pt_sec (pr_on rq)
            \<and> pt_nsec (pr_period rq) < pt_nsec (pr_on rq))"
    using ok by (auto simp: perout_checked_def split: if_splits)
  moreover have "and (pr_flags rq) PTP_PEROUT_PHASE \<noteq> 0
      \<longrightarrow> pt_sec (pr_start rq) < pt_sec (pr_period rq) \<or> pt_sec (pr_start rq) = pt_sec (pr_period rq)
            \<and> pt_nsec (pr_start rq) < pt_nsec (pr_period rq)"
    using ok by (auto simp: perout_checked_def split: if_splits)
  ultimately show ?thesis
    using rq go by (auto simp: time_ns_less simp flip: not_less)
qed

lemma perout_request_vetted_witness:
  "let rq = \<lparr>pr_start = \<lparr>pt_sec = 0, pt_nsec = 5\<rparr>, pr_period = \<lparr>pt_sec = 1, pt_nsec = 0\<rparr>, pr_index = 0,
             pr_flags = 6, pr_on = \<lparr>pt_sec = 0, pt_nsec = 9\<rparr>, pr_on_rsv = 0\<rparr>
   in time_ns (pr_on rq) \<le> time_ns (pr_period rq) \<and> time_ns (pr_start rq) < time_ns (pr_period rq)"
  using perout_request_vetted [of
        "\<lparr>e_intr = False, e_capable = True, e_copy_out = True, e_real = (\<lambda>_. ptp_clock_getres),
         e_around = (\<lambda>_. (ptp_clock_getres, ptp_clock_getres)),
         e_cross = (ptp_clock_getres, ptp_clock_getres)\<rparr>"
        "(mock_phc_info 5 7)\<lparr>n_per_out := 1, enable := \<lambda>rq on d. (None, d)\<rparr>" 0
        "Some \<lparr>pr_start = \<lparr>pt_sec = 0, pt_nsec = 5\<rparr>, pr_period = \<lparr>pt_sec = 1, pt_nsec = 0\<rparr>,
               pr_index = 0, pr_flags = 6, pr_on = \<lparr>pt_sec = 0, pt_nsec = 9\<rparr>, pr_on_rsv = 0\<rparr>"
        "mock_clock (mock_phc_initial 0 0)" None Out_nothing "mock_clock (mock_phc_initial 0 0)"]
  by (simp add: ptp_ioctl_defs perout_checked_def locked_enable_def no_out_def call_drv_pair
      PTP_PEROUT_VALID_FLAGS_def PTP_PEROUT_DUTY_CYCLE_def PTP_PEROUT_PHASE_def Let_def)

text \<open>What holds of a clock throughout: its queues are well formed, its pins unique.\<close>

definition clock_ok :: "'d ptp_clock_info \<Rightarrow> 'd ptp_clock \<Rightarrow> bool" where
  "clock_ok info ptp \<longleftrightarrow>
     clock_queues_ok ptp \<and> pins_unique (pin_config ptp) \<and> n_pins info = length (pin_config ptp)"

text \<open>Running driver callbacks changes the driver's state and nothing else of the clock.\<close>

definition only_drv :: "'d ptp_clock \<Rightarrow> 'd ptp_clock \<Rightarrow> bool" where
  "only_drv ptp p \<longleftrightarrow> p = ptp\<lparr>drv := drv p\<rparr>"

lemma only_drv_refl [simp]: "only_drv ptp ptp" "only_drv ptp (ptp\<lparr>drv := d\<rparr>)"
  by (simp_all add: only_drv_def)

lemma only_drv_trans: "only_drv ptp p \<Longrightarrow> only_drv p p' \<Longrightarrow> only_drv ptp p'"
  unfolding only_drv_def by (metis ptp_clock.update_convs(2) ptp_clock.surjective)

lemma sample_offset_frame: "only_drv ptp (snd (sample_offset env ops i n ptp))"
proof (induction env ops i n ptp rule: sample_offset.induct)
  case (2 env ops i n ptp)
  have get: "only_drv ptp (snd (ptp_clock_gettime ops ptp))"
    by (simp add: ptp_clock_gettime_def split: option.split)
  from 2 show ?case
    using get by (cases "ptp_clock_gettime ops ptp")
      (auto intro: only_drv_trans split: sum.split prod.split)
qed simp

lemma sample_extended_frame: "only_drv ptp (snd (sample_extended env get i n ptp))"
proof (induction env get i n ptp rule: sample_extended.induct)
  case (2 env get i n ptp)
  have "only_drv ptp (snd (call_drv get ptp))" by simp
  with 2 show ?case
    by (cases "call_drv get ptp") (auto intro: only_drv_trans split: sum.split prod.split)
qed simp

lemma locked_enable_frame: "only_drv ptp (snd (locked_enable env ops rq on ptp))"
  by (simp add: locked_enable_def)

lemma copy_out_state [simp]: "snd (snd (copy_out env out ptp)) = ptp"
  by (simp add: copy_out_def)

lemma no_out_simps [simp]: "snd (snd (no_out p)) = snd p" "fst (no_out p) = fst p"
  by (simp_all add: no_out_def)

lemma disable_pinfunc_frame: "only_drv ptp (snd (ptp_disable_pinfunc info func chan ptp))"
  by (simp add: ptp_disable_pinfunc_def split: ptp_pin_function.split)

lemma set_pinfunc_frame:
  "\<exists>d ps. snd (ptp_set_pinfunc info pin func chan ptp) = ptp\<lparr>drv := d, pin_config := ps\<rparr>"
proof -
  define F where "F f c p = snd (ptp_disable_pinfunc info f c p)" for f c and p :: "'a ptp_clock"
  have F: "\<exists>d. F f c p = p\<lparr>drv := d\<rparr>" for f c and p :: "'a ptp_clock"
    using disable_pinfunc_frame [of p info f c] unfolding F_def only_drv_def by blast
  have set: "\<exists>d ps. set_pin i f c p = ptp\<lparr>drv := d, pin_config := ps\<rparr>"
    if "\<exists>d ps. p = ptp\<lparr>drv := d, pin_config := ps\<rparr>" for i f c p
    using that unfolding set_pin_def by clarsimp blast
  have F': "\<exists>d ps. F f c p = ptp\<lparr>drv := d, pin_config := ps\<rparr>"
    if "\<exists>d ps. p = ptp\<lparr>drv := d, pin_config := ps\<rparr>" for f c p
  proof -
    from that F [of f c p] obtain d ps d' where
      "F f c p = ptp\<lparr>drv := d, pin_config := ps, drv := d'\<rparr>" by blast
    then have "F f c p = ptp\<lparr>drv := d', pin_config := ps\<rparr>" by simp
    then show ?thesis by blast
  qed
  have start: "\<exists>d ps. ptp = ptp\<lparr>drv := d, pin_config := ps\<rparr>"
    by (intro exI [where x = "drv ptp"] exI [where x = "pin_config ptp"]) simp
  show ?thesis
    unfolding ptp_set_pinfunc_def Let_def F_def [symmetric]
    by (simp add: start set F' split: option.split)
qed

text \<open>
  The pin table after a pin got a function and a channel: the pin that held them, if they are
  not the null function, is free, and no other pin's function has changed.
\<close>

definition pin_reassigned ::
    "nat \<Rightarrow> ptp_pin_function \<Rightarrow> nat \<Rightarrow> ptp_pin_desc list \<Rightarrow> ptp_pin_desc list \<Rightarrow> bool" where
  "pin_reassigned pin func chan ps ps' \<longleftrightarrow>
     length ps' = length ps \<and> pin < length ps
     \<and> ps' ! pin = (ps ! pin)\<lparr>pin_func := func, pin_chan := chan\<rparr>
     \<and> (\<forall>j < length ps. j \<noteq> pin \<longrightarrow>
          (if func = PTP_PF_NONE then ps' ! j \<in> {ps ! j, (ps ! j)\<lparr>pin_chan := 0\<rparr>}
           else if pin_func (ps ! j) = func \<and> pin_chan (ps ! j) = chan
           then ps' ! j = (ps ! j)\<lparr>pin_func := PTP_PF_NONE, pin_chan := 0\<rparr>
           else ps' ! j = ps ! j))"

lemma set_pinfunc_reassigns:
  assumes "pins_unique (pin_config ptp)" and n: "n_pins info = length (pin_config ptp)"
    and pin: "pin < length (pin_config ptp)"
    and set: "ptp_set_pinfunc info pin func chan ptp = (None, ptp')"
  shows "pin_reassigned pin func chan (pin_config ptp) (pin_config ptp')"
proof -
  let ?ps = "pin_config ptp"
  have only: "j = k" if "j < length ?ps" "k < length ?ps" "func \<noteq> PTP_PF_NONE"
      "pin_func (?ps ! j) = func" "pin_chan (?ps ! j) = chan"
      "pin_func (?ps ! k) = func" "pin_chan (?ps ! k) = chan" for j k
    using that assms(1) unfolding pins_unique_def by metis
  from n set show ?thesis
  proof (cases rule: set_pinfunc_cases)
    case same
    then have "pin_func (?ps ! pin) = func" "pin_chan (?ps ! pin) = chan"
      using find_pin_from_Some [OF same(1)] by auto
    then show ?thesis using same(3) pin only by (auto simp: pin_reassigned_def)
  next
    case (moved i)
    have i: "i < length ?ps" "pin_func (?ps ! i) = func" "pin_chan (?ps ! i) = chan"
      using find_pin_from_Some [OF moved(1)] by auto
    show ?thesis
      unfolding pin_reassigned_def moved(4)
      using moved(2) pin i only by (auto simp: nth_list_update)
  next
    case fresh
    then show ?thesis
      using pin by (auto simp: pin_reassigned_def find_pin_from_None nth_list_update)
  qed simp
qed

text \<open>The commands that can reach the driver, and the mask a reader has after a command.\<close>

definition driver_cmd :: "ptp_env \<Rightarrow> ptp_cmd \<Rightarrow> bool" where
  "driver_cmd env cmd \<longleftrightarrow>
     (case cmd of
        PTP_EXTTS_REQUEST v2 arg \<Rightarrow> \<not> e_intr env
      | PTP_PEROUT_REQUEST v2 arg \<Rightarrow> \<not> e_intr env
      | PTP_ENABLE_PPS on \<Rightarrow> \<not> e_intr env \<and> e_capable env
      | PTP_PIN_SETFUNC v2 arg \<Rightarrow> \<not> e_intr env
      | PTP_SYS_OFFSET_PRECISE \<Rightarrow> True
      | PTP_SYS_OFFSET_EXTENDED arg \<Rightarrow> True
      | PTP_SYS_OFFSET arg \<Rightarrow> True
      | _ \<Rightarrow> False)"

primrec mask_after :: "ptp_cmd \<Rightarrow> nat set \<Rightarrow> nat set" where
  "mask_after PTP_CLOCK_GETCAPS m = m"
| "mask_after (PTP_EXTTS_REQUEST v2 a) m = m"
| "mask_after (PTP_PEROUT_REQUEST v2 b) m = m"
| "mask_after (PTP_ENABLE_PPS on) m = m"
| "mask_after PTP_SYS_OFFSET_PRECISE m = m"
| "mask_after (PTP_SYS_OFFSET_EXTENDED c) m = m"
| "mask_after (PTP_SYS_OFFSET e) m = m"
| "mask_after (PTP_PIN_GETFUNC v2 p) m = m"
| "mask_after (PTP_PIN_SETFUNC v2 p) m = m"
| "mask_after PTP_MASK_CLEAR_ALL m = {}"
| "mask_after (PTP_MASK_EN_SINGLE i) m = m \<union> set_option i"
| "mask_after PTP_UNKNOWN_CMD m = m"

definition masked :: "nat \<Rightarrow> ret \<Rightarrow> ptp_cmd \<Rightarrow> (nat \<times> ts_queue) list \<Rightarrow> (nat \<times> ts_queue) list" where
  "masked h r cmd qs = map (\<lambda>(k, q). (k, if k = h \<and> r = None
      then q\<lparr>q_mask := mask_after cmd (q_mask q)\<rparr> else q)) qs"

lemma masked_same:
  "(\<And>m. mask_after cmd m = m) \<Longrightarrow> masked h r cmd qs = qs"
  unfolding masked_def by (induction qs) auto

lemma masked_failed: "masked h (Some e) cmd qs = qs"
  unfolding masked_def by (induction qs) auto

text \<open>Most commands at once: those that leave the pins and the masks alone.\<close>

lemma ioctl_plain:
  assumes "\<And>m. mask_after cmd m = m" and "\<And>v2 arg. cmd \<noteq> PTP_PIN_SETFUNC v2 arg"
  shows "only_drv ptp (snd (snd (ptp_ioctl env info h cmd ptp)))"
proof (cases cmd)
  case (PTP_EXTTS_REQUEST v2 arg)
  then show ?thesis
    by (auto simp: ptp_ioctl_defs locked_enable_frame split: option.split sum.split)
next
  case (PTP_PEROUT_REQUEST v2 arg)
  then show ?thesis
    by (auto simp: ptp_ioctl_defs locked_enable_frame split: option.split sum.split)
next
  case PTP_SYS_OFFSET_PRECISE
  then show ?thesis
    by (auto simp: ptp_ioctl_defs call_drv_pair split: option.split sum.split prod.split)
next
  case (PTP_SYS_OFFSET_EXTENDED arg)
  then show ?thesis
    using sample_extended_frame [of ptp env]
    by (auto simp: ptp_ioctl_defs split: option.split sum.split prod.split) (metis snd_conv)+
next
  case (PTP_SYS_OFFSET arg)
  then show ?thesis
    using sample_offset_frame [of ptp env info]
    by (auto simp: ptp_ioctl_defs split: option.split sum.split prod.split) (metis snd_conv)+
next
  case PTP_MASK_CLEAR_ALL
  then show ?thesis using assms(1) [of "{0}"] by simp
next
  case (PTP_MASK_EN_SINGLE arg)
  then show ?thesis
    using assms(1) [of "{}"] by (cases arg) (simp_all add: ptp_ioctl_defs)
qed (use assms(2) in \<open>auto simp: ptp_ioctl_defs locked_enable_frame split: option.split\<close>)

lemma upd_queue_masked:
  "upd_queue h (\<lambda>q. q\<lparr>q_mask := mask_after cmd (q_mask q)\<rparr>) ptp
     = ptp\<lparr>tsevqs := masked h None cmd (tsevqs ptp)\<rparr>"
  by (simp add: upd_queue_def masked_def)

lemma driver_untouched:
  assumes "\<not> driver_cmd env cmd"
  shows "drv (snd (snd (ptp_ioctl env info h cmd ptp))) = drv ptp"
  using assms
  by (cases cmd) (auto simp: driver_cmd_def ptp_ioctl_defs locked_enable_def upd_queue_def
      split: option.split sum.split)

lemma masked_queues_ok:
  "clock_queues_ok ptp \<Longrightarrow> tsevqs p = masked h r cmd (tsevqs ptp) \<Longrightarrow> clock_queues_ok p"
  by (auto simp: clock_queues_ok_def masked_def queue_ok_def)

text \<open>
  C8: What an ioctl changes of a clock, exactly, whatever the command, its arguments and the
  circumstances. The events in the queues stay; a queue's channel mask changes only through
  a successful mask command of its own reader, to the empty set or by the channel named, which
  exists. The pin table changes only through a successful assignment, whose pin exists and
  whose reserved words are zero in the second version of the command: that pin gets the
  function and the channel, the pin that held them before is freed, and no other pin changes.
  The driver's state is untouched unless the command is one that asks the driver, and then
  only if no signal interrupts the wait and the capability is there. Nothing else of the clock
  changes; its queues stay well formed and its pins unique.
\<close>

theorem ioctl_effects:
  assumes "clock_ok info ptp" and "ptp_ioctl env info h cmd ptp = (r, out, ptp')"
  shows "ptp' = ptp\<lparr>drv := drv ptp', tsevqs := masked h r cmd (tsevqs ptp),
               pin_config := pin_config ptp'\<rparr>
    \<and> (\<forall>i. cmd = PTP_MASK_EN_SINGLE i \<and> r = None \<longrightarrow> (\<exists>c < PTP_MAX_CHANNELS. i = Some c))
    \<and> (pin_config ptp' = pin_config ptp
        \<or> (\<exists>v2 pd. cmd = PTP_PIN_SETFUNC v2 (Some pd)
            \<and> pa_index pd < n_pins info \<and> (v2 \<longrightarrow> set (pa_rsv pd) \<subseteq> {0})
            \<and> pin_reassigned (pa_index pd) (pa_func pd) (pa_chan pd) (pin_config ptp) (pin_config ptp')))
    \<and> (\<forall>v2 i. cmd = PTP_PIN_SETFUNC v2 i \<and> r = None \<longrightarrow>
        (\<exists>pd. i = Some pd
          \<and> pin_reassigned (pa_index pd) (pa_func pd) (pa_chan pd) (pin_config ptp) (pin_config ptp')))
    \<and> (drv ptp' = drv ptp \<or> driver_cmd env cmd)
    \<and> clock_ok info ptp'"
proof -
  have p: "ptp' = snd (snd (ptp_ioctl env info h cmd ptp))"
    and r: "r = fst (ptp_ioctl env info h cmd ptp)" using assms(2) by simp_all
  note n = assms(1) [unfolded clock_ok_def]
  have drv: "drv ptp' = drv ptp \<or> driver_cmd env cmd" unfolding p using driver_untouched by blast
  have queues: "clock_ok info p" if "pin_config p = pin_config ptp"
      "tsevqs p = masked h r cmd (tsevqs ptp)" for p :: "'a ptp_clock"
    using n that masked_queues_ok unfolding clock_ok_def by metis
  show ?thesis
  proof (cases "(\<exists>v2 arg. cmd = PTP_PIN_SETFUNC v2 arg)")
    case True
    then obtain v2 arg where cmd: "cmd = PTP_PIN_SETFUNC v2 arg" by blast
    have same: "masked h r cmd qs = qs" for qs by (rule masked_same) (simp add: cmd)
    show ?thesis
    proof (cases "\<exists>pd. arg = Some pd \<and> pin_arg_ok info v2 pd \<and> \<not> e_intr env")
      case False
      then have "r \<noteq> None \<and> ptp' = ptp"
        unfolding p r by (auto simp: cmd ptp_ioctl_defs split: option.split)
      then show ?thesis using same cmd assms(1) by auto
    next
      case set: True
      then obtain pd where arg: "arg = Some pd" and ok: "pin_arg_ok info v2 pd" and "\<not> e_intr env"
        by blast
      then have call: "ptp_set_pinfunc info (pa_index pd) (pa_func pd) (pa_chan pd) ptp = (r, ptp')"
        using assms(2) by (auto simp: cmd ptp_ioctl_defs no_out_def)
      have idx: "pa_index pd < length (pin_config ptp)" "pa_index pd < n_pins info"
          "v2 \<longrightarrow> set (pa_rsv pd) \<subseteq> {0}"
        using ok n by (auto simp: pin_arg_ok_def)
      have pins: "r = None \<longrightarrow> pin_reassigned (pa_index pd) (pa_func pd) (pa_chan pd)
          (pin_config ptp) (pin_config ptp')"
        using set_pinfunc_reassigns [of ptp info "pa_index pd"] n idx(1) call by blast
      have kept: "r \<noteq> None \<longrightarrow> ptp' = ptp" "pins_unique (pin_config ptp')"
          "length (pin_config ptp') = length (pin_config ptp)"
        using set_pinfunc_pins [OF _ _ idx(1) call] n by blast+
      obtain d ps where "ptp' = ptp\<lparr>drv := d, pin_config := ps\<rparr>"
        using set_pinfunc_frame [of info "pa_index pd" "pa_func pd" "pa_chan pd" ptp] call by auto
      then have frame: "ptp' = ptp\<lparr>drv := drv ptp', tsevqs := tsevqs ptp, pin_config := pin_config ptp'\<rparr>"
        and "tsevqs ptp' = tsevqs ptp" by simp_all
      then have "clock_ok info ptp'" using n kept(2,3) by (simp add: clock_ok_def clock_queues_ok_def)
      moreover have "pin_config ptp' = pin_config ptp \<or> r = None" using kept(1) by auto
      ultimately show ?thesis
        using frame pins idx(2,3) drv cmd arg unfolding same by (intro conjI) blast+
    qed
  next
    case False
    note other = this
    show ?thesis
    proof (cases "\<forall>m. mask_after cmd m = m")
      case True
      then have "only_drv ptp ptp'" unfolding p using False by (intro ioctl_plain) auto
      then obtain d where "ptp' = ptp\<lparr>drv := d\<rparr>" unfolding only_drv_def by blast
      then have "ptp' = ptp\<lparr>drv := drv ptp', tsevqs := tsevqs ptp, pin_config := pin_config ptp'\<rparr>"
        and "pin_config ptp' = pin_config ptp" "tsevqs ptp' = tsevqs ptp"
        by simp_all
      moreover have "masked h r cmd (tsevqs ptp) = tsevqs ptp"
        by (rule masked_same) (use True in simp)
      moreover have "\<not> (cmd = PTP_MASK_EN_SINGLE i \<and> r = None) \<or> (\<exists>c < PTP_MAX_CHANNELS. i = Some c)" for i
        using True [rule_format, of "{}"] r by (cases i) (auto simp: ptp_ioctl_defs)
      ultimately show ?thesis using queues [of ptp'] drv other by (intro conjI) (simp_all, blast)
    next
      case False
      then have cmd: "cmd = PTP_MASK_CLEAR_ALL \<or> (\<exists>i. cmd = PTP_MASK_EN_SINGLE (Some i))"
        by (cases cmd) (auto split: option.splits)
      then have "ptp' = ptp\<lparr>tsevqs := masked h r cmd (tsevqs ptp)\<rparr>
          \<and> (\<forall>i. cmd = PTP_MASK_EN_SINGLE i \<and> r = None \<longrightarrow> (\<exists>c < PTP_MAX_CHANNELS. i = Some c))"
      proof (elim disjE exE)
        assume "cmd = PTP_MASK_CLEAR_ALL"
        then show ?thesis
          unfolding p r using upd_queue_masked [of h cmd ptp] by (simp add: ptp_ioctl_defs)
      next
        fix i
        assume "cmd = PTP_MASK_EN_SINGLE (Some i)"
        then show ?thesis
          unfolding p r using upd_queue_masked [of h cmd ptp]
          by (auto simp: ptp_ioctl_defs masked_failed)
      qed
      then show ?thesis using queues [of ptp'] drv other by auto
    qed
  qed
qed

lemma ioctl_effects_witness:
  "let ptp = mock_clock (mock_phc_initial 0 0);
       ptp' = snd (snd (ptp_ioctl
         \<lparr>e_intr = False, e_capable = True, e_copy_out = True, e_real = (\<lambda>_. ptp_clock_getres),
          e_around = (\<lambda>_. (ptp_clock_getres, ptp_clock_getres)),
          e_cross = (ptp_clock_getres, ptp_clock_getres)\<rparr>
         (mock_phc_info 0 0) 0
         (PTP_PIN_SETFUNC True (Some \<lparr>pa_index = 1, pa_func = PTP_PF_EXTTS, pa_chan = 0, pa_rsv = [0, 0]\<rparr>))
         ptp))
   in pin_reassigned 1 PTP_PF_EXTTS 0 (pin_config ptp) (pin_config ptp') \<and> tsevqs ptp' = tsevqs ptp"
proof -
  let ?env = "\<lparr>e_intr = False, e_capable = True, e_copy_out = True, e_real = (\<lambda>_. ptp_clock_getres),
      e_around = (\<lambda>_. (ptp_clock_getres, ptp_clock_getres)),
      e_cross = (ptp_clock_getres, ptp_clock_getres)\<rparr>"
  let ?cmd = "PTP_PIN_SETFUNC True (Some \<lparr>pa_index = 1, pa_func = PTP_PF_EXTTS, pa_chan = 0, pa_rsv = [0, 0]\<rparr>)"
  let ?ptp = "mock_clock (mock_phc_initial 0 0)"
  have ok: "clock_ok (mock_phc_info 0 0) ?ptp"
    using queue_list_new
    by (auto simp: clock_ok_def clock_queues_ok_def pins_unique_def mock_clock_def mock_phc_info_def
        mock_pins_def less_Suc_eq nth_Cons' split: if_splits)
  obtain r out ptp' where call: "ptp_ioctl ?env (mock_phc_info 0 0) 0 ?cmd ?ptp = (r, out, ptp')"
    by (metis prod_cases3)
  have r: "r = None"
    using arg_cong [OF call, of fst]
    by (simp add: ptp_ioctl_defs pin_arg_ok_def mock_phc_info_def mock_pins_def
        ptp_set_pinfunc_def Let_def pinfunc_ok_def mock_phc_verify_def mock_clock_def)
  have same: "masked 0 None ?cmd qs = qs" for qs by (rule masked_same) simp
  note all = ioctl_effects [OF ok call, unfolded r same]
  have "pin_reassigned 1 PTP_PF_EXTTS 0 (pin_config ?ptp) (pin_config ptp')" using all by auto
  moreover have "tsevqs ptp' = tsevqs ?ptp"
    by (rule trans [OF arg_cong [OF conjunct1 [OF all], of tsevqs]]) simp
  ultimately show ?thesis unfolding Let_def call by simp
qed

end
