(* ===== verification/Ptp_Register.thy ===== *)
theory Ptp_Register
  imports Ptp_Chardev
begin

text \<open>
  Registration of clocks, \<open>ptp_clock_register\<close> and \<open>ptp_clock_release\<close> in \<open>ptp/ptp_clock.c\<close>, with the
  pin groups of \<open>ptp/ptp_sysfs.c\<close>: the table of the clock indices, the clocks as
  objects in memory, and everything a clock owns. What the rest of the kernel decides about a
  registration (addresses of new objects, failures) is an argument.
\<close>

section \<open>Data\<close>

text \<open>What a clock owns beside its own memory.\<close>

datatype ptp_res =
    R_queue | R_mask | R_kworker | R_vclock_index | R_pin_dev_attr | R_pin_attr | R_pps | R_chardev | R_debugfs

text \<open>
  A clock in memory. Beside \<open>struct ptp_clock\<close> it has the reference count of its device, the physical
  clock it hangs under, its virtual clocks in the order of their registration, whether the pointers
  to its optional parts are set, and whether its callback table has the getters that a virtual clock
  under it looks for.
\<close>

record 'd ptp_node =
  clk :: "'d ptp_clock"
  refs :: nat
  parent :: "nat option"
  kids :: "nat list"
  p_pins :: bool
  p_pps :: bool
  p_kworker :: bool
  p_debugfs :: bool
  has_cyclesx :: bool
  has_crosscycles :: bool

text \<open>
  A virtual clock, \<open>struct ptp_vclock\<close>: the physical clock, its own clock, and its timekeeping
  (theory \<open>Ptp_Vclock\<close>).
\<close>

record 'v ptp_vclock =
  vc_pclock :: nat
  vc_clock :: nat
  vc_time :: 'v

record ('d, 'v) ptp_core =
  clocks_map :: "nat xarray"
  nodes :: "nat \<rightharpoonup> 'd ptp_node"
  objs :: "(nat \<times> ptp_res) set"
  vclocks :: "nat \<rightharpoonup> 'v ptp_vclock"
  vclock_hash :: "nat \<Rightarrow> nat list"

definition node :: "nat \<Rightarrow> ('d, 'v) ptp_core \<Rightarrow> 'd ptp_node res" where
  "node a w = deref (nodes w a)"

definition set_node :: "nat \<Rightarrow> 'd ptp_node \<Rightarrow> ('d, 'v) ptp_core \<Rightarrow> ('d, 'v) ptp_core" where
  "set_node a n w = w\<lparr>nodes := (nodes w)(a \<mapsto> n)\<rparr>"

definition take_obj :: "nat \<Rightarrow> ptp_res \<Rightarrow> ('d, 'v) ptp_core \<Rightarrow> ('d, 'v) ptp_core" where
  "take_obj a r w = w\<lparr>objs := insert (a, r) (objs w)\<rparr>"

text \<open>Freeing what is not there is a fault; \<open>free_if\<close> is \<open>kfree\<close> of a pointer that may be NULL.\<close>

definition free_obj :: "nat \<Rightarrow> ptp_res \<Rightarrow> ('d, 'v) ptp_core \<Rightarrow> ('d, 'v) ptp_core res" where
  "free_obj a r w = (if (a, r) \<in> objs w then Ok (w\<lparr>objs := objs w - {(a, r)}\<rparr>) else Fault)"

definition free_if :: "bool \<Rightarrow> nat \<Rightarrow> ptp_res \<Rightarrow> ('d, 'v) ptp_core \<Rightarrow> ('d, 'v) ptp_core res" where
  "free_if b a r w = (if b then free_obj a r w else Ok w)"

definition kfree_clock :: "nat \<Rightarrow> ('d, 'v) ptp_core \<Rightarrow> ('d, 'v) ptp_core res" where
  "kfree_clock a w = (if nodes w a = None then Fault else Ok (w\<lparr>nodes := (nodes w)(a := None)\<rparr>))"

text \<open>\<open>xa_alloc\<close>: the first free index up to the limit, or \<open>-EBUSY\<close>; \<open>-ENOMEM\<close> without memory.\<close>

fun first_gap :: "nat \<Rightarrow> 'a xarray \<Rightarrow> nat" where
  "first_gap n [] = n"
| "first_gap n ((j, v) # xa) = (if j = n then first_gap (Suc n) xa else n)"

definition xa_alloc :: "bool \<Rightarrow> nat \<Rightarrow> 'a \<Rightarrow> 'a xarray \<Rightarrow> errno + nat \<times> 'a xarray" where
  "xa_alloc mem limit v xa =
     (let i = first_gap 0 xa
      in if i > limit then Inl EBUSY
         else if \<not> mem then Inl ENOMEM
         else Inr (i, xa_store i v xa))"

definition xa_limit_31b :: nat where "xa_limit_31b = 2147483647"

section \<open>The callback table\<close>

definition ptp_getcycles64 :: "'i ptp_clock_info \<Rightarrow> 'i \<Rightarrow> (errno + timespec64) \<times> 'i" where
  "ptp_getcycles64 info =
     (case getcyclesx64 info of Some f \<Rightarrow> f | None \<Rightarrow> gettime64 info)"

text \<open>
  The registration completes the getters of the cycle counter; a clock without one uses its time.
  The callback that it installs looks the table up when it is called, after the table was completed.
\<close>

definition complete_cycles :: "'i ptp_clock_info \<Rightarrow> bool \<times> 'i ptp_clock_info" where
  "complete_cycles info =
     (if getcycles64 info \<noteq> None \<or> getcyclesx64 info \<noteq> None
      then (True,
            if getcycles64 info = None \<and> getcyclesx64 info \<noteq> None
            then info\<lparr>getcycles64 := Some (ptp_getcycles64 info)\<rparr> else info)
      else
        (let info = (if gettimex64 info \<noteq> None then info\<lparr>getcyclesx64 := gettimex64 info\<rparr> else info);
             info = (if getcrosststamp info \<noteq> None then info\<lparr>getcrosscycles := getcrosststamp info\<rparr> else info)
         in (False, info\<lparr>getcycles64 := Some (ptp_getcycles64 info)\<rparr>)))"

section \<open>Release\<close>

definition ptp_cleanup_pin_groups :: "bool \<Rightarrow> nat \<Rightarrow> ('d, 'v) ptp_core \<Rightarrow> ('d, 'v) ptp_core res" where
  "ptp_cleanup_pin_groups pins a w = andthen (free_if pins a R_pin_attr w) (free_if pins a R_pin_dev_attr)"

text \<open>
  The first queue of the list is the one of the registration: it is there, or the code frees
  something that is not its own.
\<close>

definition ptp_clock_release :: "nat \<Rightarrow> ('d, 'v) ptp_core \<Rightarrow> ('d, 'v) ptp_core res" where
  "ptp_clock_release a w =
     andthen (node a w) (\<lambda>n.
     andthen (ptp_cleanup_pin_groups (p_pins n) a w) (\<lambda>w.
     andthen (free_if (\<not> is_virtual_clock (clk n)) a R_vclock_index w) (\<lambda>w.
     case tsevqs (clk n) of
       [] \<Rightarrow> Fault
     | (h, q) # qs \<Rightarrow>
         if h \<noteq> 0 then Fault
         else
           andthen (free_obj a R_mask w) (\<lambda>w.
           andthen (free_obj a R_queue w) (\<lambda>w.
           andthen (free_if (p_debugfs n) a R_debugfs w) (\<lambda>w.
           kfree_clock a (w\<lparr>clocks_map := xa_erase (ptp_index (clk n)) (clocks_map w)\<rparr>)))))))"

text \<open>\<open>put_device\<close> on the device of a clock: the last reference releases it.\<close>

definition put_clock :: "nat \<Rightarrow> ('d, 'v) ptp_core \<Rightarrow> ('d, 'v) ptp_core res" where
  "put_clock a w =
     andthen (node a w) (\<lambda>n.
       if refs n = 0 then Fault
       else if refs n = 1 then ptp_clock_release a w
       else Ok (set_node a (n\<lparr>refs := refs n - 1\<rparr>) w))"

section \<open>Registration\<close>

text \<open>What the rest of the kernel decides.\<close>

record reg_env =
  e_clock :: "nat option"  \<comment> \<open>address of the new clock\<close>
  e_xa :: bool
  e_queue :: bool
  e_mask :: bool
  e_kworker :: ret
  e_vindex :: bool
  e_pin_dev :: bool
  e_pin :: bool
  e_pps :: ret
  e_posix :: ret

type_synonym ('d, 'v) reg_result = "(errno + nat) \<times> ('d, 'v) ptp_core"

text \<open>The labels of the error path, each falling through to the ones before it.\<close>

definition no_memory :: "errno \<Rightarrow> ('d, 'v) ptp_core \<Rightarrow> ('d, 'v) reg_result res" where
  "no_memory err w = Ok (Inl err, w)"

definition no_slot :: "nat \<Rightarrow> errno \<Rightarrow> ('d, 'v) ptp_core \<Rightarrow> ('d, 'v) reg_result res" where
  "no_slot a err w = andthen (kfree_clock a w) (no_memory err)"

definition no_memory_queue :: "nat \<Rightarrow> nat \<Rightarrow> errno \<Rightarrow> ('d, 'v) ptp_core \<Rightarrow> ('d, 'v) reg_result res" where
  "no_memory_queue a index err w = no_slot a err (w\<lparr>clocks_map := xa_erase index (clocks_map w)\<rparr>)"

definition no_memory_bitmap :: "nat \<Rightarrow> nat \<Rightarrow> errno \<Rightarrow> ('d, 'v) ptp_core \<Rightarrow> ('d, 'v) reg_result res" where
  "no_memory_bitmap a index err w = andthen (free_obj a R_queue w) (no_memory_queue a index err)"

definition kworker_err :: "nat \<Rightarrow> nat \<Rightarrow> errno \<Rightarrow> ('d, 'v) ptp_core \<Rightarrow> ('d, 'v) reg_result res" where
  "kworker_err a index err w = andthen (free_obj a R_mask w) (no_memory_bitmap a index err)"

definition no_mem_for_vclocks :: "'i ptp_clock_info \<Rightarrow> nat \<Rightarrow> nat \<Rightarrow> errno \<Rightarrow> ('d, 'v) ptp_core \<Rightarrow> ('d, 'v) reg_result res" where
  "no_mem_for_vclocks info a index err w =
     andthen (free_if (do_aux_work info \<noteq> None) a R_kworker w) (kworker_err a index err)"

definition no_pin_groups :: "bool \<Rightarrow> 'i ptp_clock_info \<Rightarrow> nat \<Rightarrow> nat \<Rightarrow> errno \<Rightarrow> ('d, 'v) ptp_core \<Rightarrow> ('d, 'v) reg_result res" where
  "no_pin_groups virt info a index err w =
     andthen (free_if (\<not> virt) a R_vclock_index w) (no_mem_for_vclocks info a index err)"

definition no_pps :: "bool \<Rightarrow> 'i ptp_clock_info \<Rightarrow> nat \<Rightarrow> nat \<Rightarrow> errno \<Rightarrow> ('d, 'v) ptp_core \<Rightarrow> ('d, 'v) reg_result res" where
  "no_pps virt info a index err w =
     andthen (ptp_cleanup_pin_groups (n_pins info \<noteq> 0) a w) (no_pin_groups virt info a index err)"

definition ptp_populate_pin_groups :: "reg_env \<Rightarrow> 'i ptp_clock_info \<Rightarrow> nat \<Rightarrow> ('d, 'v) ptp_core \<Rightarrow> (ret \<times> ('d, 'v) ptp_core) res" where
  "ptp_populate_pin_groups e info a w =
     (if n_pins info = 0 then Ok (None, w)
      else if \<not> e_pin_dev e then Ok (Some ENOMEM, w)
      else
        (let w = take_obj a R_pin_dev_attr w
         in if \<not> e_pin e then andthen (free_obj a R_pin_dev_attr w) (\<lambda>w. Ok (Some ENOMEM, w))
            else
              (let w = take_obj a R_pin_attr w
               in andthen (node a w) (\<lambda>n. Ok (None, set_node a (n\<lparr>p_pins := True\<rparr>) w)))))"

text \<open>\<open>posix_clock_register\<close> adds the character device, under its parent.\<close>

definition posix_clock_register :: "nat option \<Rightarrow> nat \<Rightarrow> ('d, 'v) ptp_core \<Rightarrow> ('d, 'v) ptp_core res" where
  "posix_clock_register pdev a w =
     andthen (node a (take_obj a R_chardev w)) (\<lambda>n.
       let w = set_node a (n\<lparr>parent := pdev\<rparr>) (take_obj a R_chardev w)
       in case pdev of
            None \<Rightarrow> Ok w
          | Some p \<Rightarrow> andthen (node p w) (\<lambda>m. Ok (set_node p (m\<lparr>refs := refs m + 1, kids := kids m @ [a]\<rparr>) w)))"

definition register_posix :: "reg_env \<Rightarrow> nat option \<Rightarrow> 'i ptp_clock_info \<Rightarrow> nat \<Rightarrow> ('d, 'v) ptp_core \<Rightarrow> ('d, 'v) reg_result res" where
  "register_posix e pdev info a w =
     andthen (node a w) (\<lambda>n.
       let w = set_node a (n\<lparr>refs := 1\<rparr>) w
       in case e_posix e of
            Some err \<Rightarrow>
              andthen (free_if (p_pps n) a R_pps w) (\<lambda>w.
              andthen (free_if (p_kworker n) a R_kworker w) (\<lambda>w.
              andthen (put_clock a w) (\<lambda>w. Ok (Inl err, w))))
          | None \<Rightarrow>
              andthen (posix_clock_register pdev a w) (\<lambda>w.
              andthen (node a w) (\<lambda>n.
                Ok (Inr a, set_node a (n\<lparr>p_debugfs := True\<rparr>) (take_obj a R_debugfs w)))))"

definition register_pps :: "reg_env \<Rightarrow> nat option \<Rightarrow> 'i ptp_clock_info \<Rightarrow> nat \<Rightarrow> nat \<Rightarrow> ('d, 'v) ptp_core \<Rightarrow> ('d, 'v) reg_result res" where
  "register_pps e pdev info a index w =
     (if \<not> has_pps info then register_posix e pdev info a w
      else case e_pps e of
             Some err \<Rightarrow> no_pps (pdev \<noteq> None) info a index err w
           | None \<Rightarrow>
               andthen (node a w) (\<lambda>n.
                 register_posix e pdev info a (set_node a (n\<lparr>p_pps := True\<rparr>) (take_obj a R_pps w))))"

definition register_pins :: "reg_env \<Rightarrow> nat option \<Rightarrow> 'i ptp_clock_info \<Rightarrow> nat \<Rightarrow> nat \<Rightarrow> ('d, 'v) ptp_core \<Rightarrow> ('d, 'v) reg_result res" where
  "register_pins e pdev info a index w =
     andthen (ptp_populate_pin_groups e info a w) (\<lambda>(err, w).
       case err of
         Some err \<Rightarrow> no_pin_groups (pdev \<noteq> None) info a index err w
       | None \<Rightarrow> register_pps e pdev info a index w)"

text \<open>A clock whose parent is a clock itself is a virtual clock.\<close>

definition register_vclocks :: "reg_env \<Rightarrow> nat option \<Rightarrow> 'i ptp_clock_info \<Rightarrow> nat \<Rightarrow> nat \<Rightarrow> ('d, 'v) ptp_core \<Rightarrow> ('d, 'v) reg_result res" where
  "register_vclocks e pdev info a index w =
     andthen (node a w) (\<lambda>n.
       if pdev \<noteq> None
       then register_pins e pdev info a index (set_node a (n\<lparr>clk := (clk n)\<lparr>is_virtual_clock := True\<rparr>\<rparr>) w)
       else if \<not> e_vindex e then no_mem_for_vclocks info a index ENOMEM w
       else register_pins e pdev info a index
              (set_node a (n\<lparr>clk := (clk n)\<lparr>max_vclocks := PTP_DEFAULT_MAX_VCLOCKS,
                                           vclock_index := replicate PTP_DEFAULT_MAX_VCLOCKS 0\<rparr>\<rparr>)
                 (take_obj a R_vclock_index w)))"

definition register_worker :: "reg_env \<Rightarrow> nat option \<Rightarrow> 'i ptp_clock_info \<Rightarrow> nat \<Rightarrow> nat \<Rightarrow> ('d, 'v) ptp_core \<Rightarrow> ('d, 'v) reg_result res" where
  "register_worker e pdev info a index w =
     (if do_aux_work info = None then register_vclocks e pdev info a index w
      else case e_kworker e of
             Some err \<Rightarrow> kworker_err a index err w
           | None \<Rightarrow>
               andthen (node a w) (\<lambda>n.
                 register_vclocks e pdev info a index
                   (set_node a (n\<lparr>p_kworker := True\<rparr>) (take_obj a R_kworker w))))"

text \<open>The clock as \<open>kzalloc\<close> and the first assignments leave it; \<open>d\<close> is the driver state and \<open>pins\<close> its pin table.\<close>

definition zeroed_node :: "nat \<Rightarrow> 'd \<Rightarrow> ptp_pin_desc list \<Rightarrow> 'd ptp_node" where
  "zeroed_node index d pins =
     \<lparr>clk = \<lparr>ptp_index = index, drv = d, pin_config = pins, dialed_frequency = 0, tsevqs = [], defunct = False,
             max_vclocks = 0, n_vclocks = 0, vclock_index = [], is_virtual_clock = False, has_cycles = False\<rparr>,
      refs = 0, parent = None, kids = [], p_pins = False, p_pps = False, p_kworker = False, p_debugfs = False,
      has_cyclesx = False, has_crosscycles = False\<rparr>"

definition register_queue ::
    "reg_env \<Rightarrow> nat option \<Rightarrow> 'i ptp_clock_info \<Rightarrow> 'd \<Rightarrow> ptp_pin_desc list \<Rightarrow> nat \<Rightarrow> nat \<Rightarrow> ('d, 'v) ptp_core
       \<Rightarrow> 'i ptp_clock_info \<times> ('d, 'v) reg_result res" where
  "register_queue e pdev info d pins a index w =
     (if \<not> e_queue e then (info, no_memory_queue a index ENOMEM w)
      else
        (let w = take_obj a R_queue w
         in if \<not> e_mask e then (info, no_memory_bitmap a index ENOMEM w)
            else
              (let w = take_obj a R_mask w;
                   (hc, info) = complete_cycles info;
                   n = zeroed_node index d pins;
                   n = n\<lparr>clk := (clk n)\<lparr>tsevqs := [(0, new_queue)], has_cycles := hc\<rparr>,
                         has_cyclesx := (getcyclesx64 info \<noteq> None),
                         has_crosscycles := (getcrosscycles info \<noteq> None)\<rparr>
               in (info, register_worker e pdev info a index (set_node a n w)))))"

text \<open>The result is the callback table as it is left, and the clock or an error.\<close>

definition ptp_clock_register ::
    "reg_env \<Rightarrow> nat option \<Rightarrow> 'i ptp_clock_info \<Rightarrow> 'd \<Rightarrow> ptp_pin_desc list \<Rightarrow> ('d, 'v) ptp_core
       \<Rightarrow> 'i ptp_clock_info \<times> ('d, 'v) reg_result res" where
  "ptp_clock_register e pdev info d pins w =
     (if n_alarm info > PTP_MAX_ALARMS then (info, Ok (Inl EINVAL, w))
      else case e_clock e of
             None \<Rightarrow> (info, no_memory ENOMEM w)
           | Some a \<Rightarrow>
               (let w = set_node a (zeroed_node 0 d []) w
                in case xa_alloc (e_xa e) xa_limit_31b a (clocks_map w) of
                     Inl err \<Rightarrow> (info, no_slot a err w)
                   | Inr (index, xa) \<Rightarrow>
                       register_queue e pdev info d pins a index
                         (set_node a (zeroed_node index d pins) (w\<lparr>clocks_map := xa\<rparr>))))"

end
