(* ===== verification/Ptp_Vclock.thy ===== *)
theory Ptp_Vclock
  imports Ptp_Register
begin

text \<open>
  Virtual clocks, \<open>ptp/ptp_vclock.c\<close>, and \<open>ptp_clock_unregister\<close> in \<open>ptp/ptp_clock.c\<close>, which removes
  those of a physical clock. A virtual clock keeps its time with the kernel's \<open>timecounter\<close> over the cycle
  counter of the physical clock; the timecounter (\<open>linux/timecounter.h\<close>) is an argument.
\<close>

section \<open>Timekeeping\<close>

definition PTP_VCLOCK_CC_SHIFT :: nat where "PTP_VCLOCK_CC_SHIFT = 31"
definition PTP_VCLOCK_CC_MULT :: u32 where "PTP_VCLOCK_CC_MULT = push_bit PTP_VCLOCK_CC_SHIFT 1"
definition PTP_VCLOCK_FADJ_SHIFT :: nat where "PTP_VCLOCK_FADJ_SHIFT = 9"
definition PTP_VCLOCK_FADJ_DENOMINATOR :: s64 where "PTP_VCLOCK_FADJ_DENOMINATOR = 15625"
definition PTP_VCLOCK_REFRESH_INTERVAL :: "int \<Rightarrow> int" where "PTP_VCLOCK_REFRESH_INTERVAL hz = hz * 2"

text \<open>
  The operations of the timecounter: it is started at a cycle count and a time; reading it at a cycle
  count brings it up to date; a cycle count is converted with the multiplier of the cycle counter.
\<close>

record 'tc timecounter_ops =
  tc_init :: "u64 \<Rightarrow> u64 \<Rightarrow> 'tc"
  tc_read :: "u32 \<Rightarrow> u64 \<Rightarrow> 'tc \<Rightarrow> u64 \<times> 'tc"
  tc_adjtime :: "s64 \<Rightarrow> 'tc \<Rightarrow> 'tc"
  tc_cyc2time :: "u32 \<Rightarrow> u64 \<Rightarrow> 'tc \<Rightarrow> u64"

record 'tc vclock_time =
  cc_mult :: u32
  vc_tc :: 'tc

text \<open>
  \<open>ptp_vclock_read\<close>: the cycle counter of the physical clock; a reading that fails leaves the time at 0,
  as the variable was initialised.
\<close>

definition ptp_vclock_read :: "errno + timespec64 \<Rightarrow> u64" where
  "ptp_vclock_read cycles =
     timespec64_to_ns (case cycles of Inl e \<Rightarrow> \<lparr>tv_sec = 0, tv_nsec = 0\<rparr> | Inr ts \<Rightarrow> ts)"

text \<open>\<open>intr\<close>: a signal interrupts the wait for the mutex; \<open>cyc\<close>: what \<open>ptp_vclock_read\<close> gives at the call.\<close>

definition ptp_vclock_adjfine ::
    "'tc timecounter_ops \<Rightarrow> bool \<Rightarrow> u64 \<Rightarrow> s64 \<Rightarrow> 'tc vclock_time \<Rightarrow> ret \<times> 'tc vclock_time" where
  "ptp_vclock_adjfine ops intr cyc scaled_ppm vt =
     (let adj = push_bit PTP_VCLOCK_FADJ_SHIFT scaled_ppm;
          adj = div_s64 adj PTP_VCLOCK_FADJ_DENOMINATOR
      in if intr then (Some EINTR, vt)
         else (None, vt\<lparr>vc_tc := snd (tc_read ops (cc_mult vt) cyc (vc_tc vt)),
                        cc_mult := PTP_VCLOCK_CC_MULT + ucast adj\<rparr>))"

definition ptp_vclock_adjtime ::
    "'tc timecounter_ops \<Rightarrow> bool \<Rightarrow> s64 \<Rightarrow> 'tc vclock_time \<Rightarrow> ret \<times> 'tc vclock_time" where
  "ptp_vclock_adjtime ops intr delta vt =
     (if intr then (Some EINTR, vt) else (None, vt\<lparr>vc_tc := tc_adjtime ops delta (vc_tc vt)\<rparr>))"

definition ptp_vclock_gettime ::
    "'tc timecounter_ops \<Rightarrow> bool \<Rightarrow> u64 \<Rightarrow> 'tc vclock_time \<Rightarrow> (errno + timespec64) \<times> 'tc vclock_time" where
  "ptp_vclock_gettime ops intr cyc vt =
     (if intr then (Inl EINTR, vt)
      else (let (ns, tc) = tc_read ops (cc_mult vt) cyc (vc_tc vt)
            in (Inr (ns_to_timespec64 ns), vt\<lparr>vc_tc := tc\<rparr>)))"

text \<open>The reading of the physical clock with system timestamps is passed on when it fails.\<close>

definition ptp_vclock_gettimex ::
    "'tc timecounter_ops \<Rightarrow> bool \<Rightarrow> errno + timespec64 \<Rightarrow> 'tc vclock_time \<Rightarrow> (errno + timespec64) \<times> 'tc vclock_time" where
  "ptp_vclock_gettimex ops intr cycles vt =
     (case cycles of
        Inl err \<Rightarrow> (Inl err, vt)
      | Inr pts \<Rightarrow>
          if intr then (Inl EINTR, vt)
          else (Inr (ns_to_timespec64 (tc_cyc2time ops (cc_mult vt) (timespec64_to_ns pts) (vc_tc vt))), vt))"

definition ptp_vclock_settime ::
    "'tc timecounter_ops \<Rightarrow> bool \<Rightarrow> u64 \<Rightarrow> timespec64 \<Rightarrow> 'tc vclock_time \<Rightarrow> ret \<times> 'tc vclock_time" where
  "ptp_vclock_settime ops intr cyc ts vt =
     (let ns = timespec64_to_ns ts
      in if intr then (Some EINTR, vt) else (None, vt\<lparr>vc_tc := tc_init ops cyc ns\<rparr>))"

definition ptp_vclock_getcrosststamp ::
    "'tc timecounter_ops \<Rightarrow> bool \<Rightarrow> errno + timespec64 \<Rightarrow> 'tc vclock_time \<Rightarrow> (errno + timespec64) \<times> 'tc vclock_time" where
  "ptp_vclock_getcrosststamp ops intr xtstamp vt =
     (case xtstamp of
        Inl err \<Rightarrow> (Inl err, vt)
      | Inr dev \<Rightarrow>
          if intr then (Inl EINTR, vt)
          else (Inr (ns_to_timespec64 (tc_cyc2time ops (cc_mult vt) (timespec64_to_ns dev) (vc_tc vt))), vt))"

definition ptp_vclock_refresh ::
    "'tc timecounter_ops \<Rightarrow> int \<Rightarrow> bool \<Rightarrow> u64 \<Rightarrow> 'tc vclock_time \<Rightarrow> int \<times> 'tc vclock_time" where
  "ptp_vclock_refresh ops hz intr cyc vt =
     (PTP_VCLOCK_REFRESH_INTERVAL hz, snd (ptp_vclock_gettime ops intr cyc vt))"

text \<open>
  The callback table at the readings the callbacks will make: \<open>cyc\<close> of the cycle counter, \<open>px\<close> and
  \<open>cross\<close> of the getters of the physical clock, if it has them. The code leaves \<open>enable\<close> and \<open>verify\<close>
  NULL; the entries of this table stand for these pointers. A clock without channels and pins is never
  asked to verify, but the PPS request of the character device calls \<open>enable\<close> on every clock.
\<close>

definition ptp_vclock_info ::
    "'tc timecounter_ops \<Rightarrow> int \<Rightarrow> bool \<Rightarrow> errno + timespec64 \<Rightarrow> (errno + timespec64) option \<Rightarrow> (errno + timespec64) option
       \<Rightarrow> 'tc vclock_time ptp_clock_info" where
  "ptp_vclock_info ops hz intr cycles px cross =
     (let cyc = ptp_vclock_read cycles
      in \<lparr>max_adj = 500000000, n_alarm = 0, n_ext_ts = 0, n_per_out = 0, n_pins = 0, has_pps = False,
          adjfine = ptp_vclock_adjfine ops intr cyc, adjphase = None, getmaxphase = None,
          adjtime = ptp_vclock_adjtime ops intr, gettime64 = ptp_vclock_gettime ops intr cyc,
          gettimex64 = map_option (ptp_vclock_gettimex ops intr) px,
          getcrosststamp = map_option (ptp_vclock_getcrosststamp ops intr) cross,
          settime64 = ptp_vclock_settime ops intr cyc,
          getcycles64 = None, getcyclesx64 = None, getcrosscycles = None,
          enable = \<lambda>rq on vt. (Some EOPNOTSUPP, vt), verify = \<lambda>pin func chan vt. True,
          do_aux_work = Some (ptp_vclock_refresh ops hz intr cyc)\<rparr>)"

section \<open>Registration\<close>

text \<open>The driver behind a clock: one of the system, or a virtual clock.\<close>

datatype 'd ptp_owner = Hw 'd | Vclk nat

type_synonym ('d, 'tc) ptp_system = "('d ptp_owner, 'tc vclock_time) ptp_core"

definition HASH_SIZE :: nat where "HASH_SIZE = 256"

definition ptp_vclock_hash_add :: "nat \<Rightarrow> nat \<Rightarrow> ('d, 'v) ptp_core \<Rightarrow> ('d, 'v) ptp_core" where
  "ptp_vclock_hash_add v index w =
     w\<lparr>vclock_hash := (vclock_hash w)(index mod HASH_SIZE := v # vclock_hash w (index mod HASH_SIZE))\<rparr>"

definition ptp_vclock_hash_del :: "nat \<Rightarrow> ('d, 'v) ptp_core \<Rightarrow> ('d, 'v) ptp_core" where
  "ptp_vclock_hash_del v w = w\<lparr>vclock_hash := \<lambda>h. filter (\<lambda>u. u \<noteq> v) (vclock_hash w h)\<rparr>"

text \<open>
  \<open>mem\<close> is the address of the virtual clock, if there is memory; \<open>c0\<close> what its cycle counter shows when
  the timecounter is started. The callbacks do not matter to the registration; they are taken at
  arbitrary readings.
\<close>

definition ptp_vclock_register ::
    "'tc timecounter_ops \<Rightarrow> int \<Rightarrow> reg_env \<Rightarrow> nat option \<Rightarrow> u64 \<Rightarrow> nat \<Rightarrow> ('d, 'tc) ptp_system
       \<Rightarrow> (nat option \<times> ('d, 'tc) ptp_system) res" where
  "ptp_vclock_register ops hz e mem c0 p w =
     (case mem of
        None \<Rightarrow> Ok (None, w)
      | Some v \<Rightarrow>
          andthen (node p w) (\<lambda>pn.
            let ts = \<lparr>tv_sec = 0, tv_nsec = 0\<rparr>;
                info = ptp_vclock_info ops hz False (Inr ts) (if has_cyclesx pn then Some (Inr ts) else None)
                         (if has_crosscycles pn then Some (Inr ts) else None);
                vt = \<lparr>cc_mult = PTP_VCLOCK_CC_MULT, vc_tc = tc_init ops c0 0\<rparr>
            in andthen (snd (ptp_clock_register e (Some p) info (Vclk v) [] w)) (\<lambda>(r, w).
                 case r of
                   Inl err \<Rightarrow> Ok (None, w)
                 | Inr a \<Rightarrow>
                     andthen (node a w) (\<lambda>n.
                       let w = w\<lparr>vclocks := (vclocks w)(v \<mapsto> \<lparr>vc_pclock = p, vc_clock = a, vc_time = vt\<rparr>)\<rparr>
                       in Ok (Some v, ptp_vclock_hash_add v (ptp_index (clk n)) w)))))"

section \<open>Removal\<close>

text \<open>
  \<open>posix_clock_unregister\<close>: the character device leaves its parent, which loses a reference, and the
  device loses the one of its registration.
\<close>

definition posix_clock_unregister :: "nat \<Rightarrow> ('d, 'v) ptp_core \<Rightarrow> ('d, 'v) ptp_core res" where
  "posix_clock_unregister a w =
     andthen (node a w) (\<lambda>n.
     andthen (free_obj a R_chardev w) (\<lambda>w.
     andthen (case parent n of
                None \<Rightarrow> Ok w
              | Some p \<Rightarrow> andthen (node p w) (\<lambda>m. put_clock p (set_node p (m\<lparr>kids := remove1 a (kids m)\<rparr>) w)))
       (put_clock a)))"

primrec each :: "(nat \<Rightarrow> 's \<Rightarrow> 's res) \<Rightarrow> nat list \<Rightarrow> 's \<Rightarrow> 's res" where
  "each f [] w = Ok w"
| "each f (k # ks) w = andthen (f k w) (each f ks)"

definition unregister_rest :: "nat \<Rightarrow> ('d, 'v) ptp_core \<Rightarrow> ('d, 'v) ptp_core res" where
  "unregister_rest a w =
     andthen (node a w) (\<lambda>n.
     let w = set_node a (n\<lparr>clk := (clk n)\<lparr>defunct := True\<rparr>\<rparr>) w in
     andthen (free_if (p_kworker n) a R_kworker w) (\<lambda>w.
     andthen (free_if (p_pps n) a R_pps w) (posix_clock_unregister a)))"

text \<open>
  \<open>ptp_clock_unregister\<close>, where \<open>child\<close> is what is done with a clock under it. The clock of a virtual
  clock has no clocks under it; its removal is the same function.
\<close>

definition clock_unregister ::
    "(nat \<Rightarrow> ('d, 'v) ptp_core \<Rightarrow> ('d, 'v) ptp_core res) \<Rightarrow> (nat \<Rightarrow> bool) \<Rightarrow> nat \<Rightarrow> ('d, 'v) ptp_core \<Rightarrow> ('d, 'v) ptp_core res" where
  "clock_unregister child intr a w =
     andthen (node a w) (\<lambda>n.
     andthen (if ptp_vclock_in_use (intr a) (clk n) then each child (kids n) w else Ok w)
       (unregister_rest a))"

definition info_to_vclock :: "nat \<Rightarrow> ('d, 'tc) ptp_system \<Rightarrow> nat res" where
  "info_to_vclock a w = andthen (node a w) (\<lambda>n. case drv (clk n) of Vclk v \<Rightarrow> Ok v | Hw d \<Rightarrow> Fault)"

definition ptp_vclock_unregister :: "(nat \<Rightarrow> bool) \<Rightarrow> nat \<Rightarrow> ('d, 'tc) ptp_system \<Rightarrow> ('d, 'tc) ptp_system res" where
  "ptp_vclock_unregister intr v w =
     andthen (deref (vclocks w v)) (\<lambda>vc.
     andthen (clock_unregister (\<lambda>k w. Fault) intr (vc_clock vc) (ptp_vclock_hash_del v w)) (\<lambda>w.
     Ok (w\<lparr>vclocks := (vclocks w)(v := None)\<rparr>)))"

definition unregister_vclock :: "(nat \<Rightarrow> bool) \<Rightarrow> nat \<Rightarrow> ('d, 'tc) ptp_system \<Rightarrow> ('d, 'tc) ptp_system res" where
  "unregister_vclock intr a w = andthen (info_to_vclock a w) (\<lambda>v. ptp_vclock_unregister intr v w)"

definition ptp_clock_unregister :: "(nat \<Rightarrow> bool) \<Rightarrow> nat \<Rightarrow> ('d, 'tc) ptp_system \<Rightarrow> ('d, 'tc) ptp_system res" where
  "ptp_clock_unregister intr = clock_unregister (unregister_vclock intr) intr"

section \<open>Timestamps of the network stack\<close>

text \<open>
  \<open>ptp_get_vclocks_index\<close>: \<open>found\<close> is the clock of that name in the device class. A \<open>None\<close> of the second
  result leaves the pointer of the caller as it was.
\<close>

definition ptp_get_vclocks_index ::
    "bool \<Rightarrow> bool \<Rightarrow> int \<Rightarrow> 'd ptp_clock option \<Rightarrow> nat \<times> int list option" where
  "ptp_get_vclocks_index intr mem pclock_index found =
     (if pclock_index < 0 then (0, None)
      else case found of
             None \<Rightarrow> (0, None)
           | Some ptp \<Rightarrow>
               if intr then (0, None)
               else if \<not> mem then (0, None)
               else (n_vclocks ptp, Some (take (n_vclocks ptp) (vclock_index ptp))))"

text \<open>
  The search in the bucket; every entry of it is read through its pointers. The index is one of the
  registered clocks or any other number of a user.
\<close>

fun find_vclock :: "nat \<Rightarrow> nat list \<Rightarrow> ('d, 'v) ptp_core \<Rightarrow> 'v ptp_vclock option res" where
  "find_vclock i [] w = Ok None"
| "find_vclock i (v # vs) w =
     andthen (deref (vclocks w v)) (\<lambda>vc.
     andthen (node (vc_clock vc) w) (\<lambda>n.
       if ptp_index (clk n) \<noteq> i then find_vclock i vs w else Ok (Some vc)))"

definition ptp_convert_timestamp ::
    "'tc timecounter_ops \<Rightarrow> bool \<Rightarrow> s64 \<Rightarrow> nat \<Rightarrow> ('d, 'tc) ptp_system \<Rightarrow> s64 res" where
  "ptp_convert_timestamp ops intr hwtstamp i w =
     andthen (find_vclock i (vclock_hash w (i mod HASH_SIZE)) w) (\<lambda>found.
       Ok (case found of
             None \<Rightarrow> 0
           | Some vc \<Rightarrow> if intr then 0 else tc_cyc2time ops (cc_mult (vc_time vc)) hwtstamp (vc_tc (vc_time vc))))"

end
