(* ===== verification/Ptp_Register_Props.thy ===== *)
theory Ptp_Register_Props
  imports Ptp_Vclock
begin

text \<open>
  What the registration of a clock does: it fails without a trace, or leaves a clock that owns what its
  callback table asks for. The code is run symbolically on the states it passes through, all of the form
  \<open>stage\<close>: the old state with one more clock.
\<close>

section \<open>The table of indices\<close>

lemma first_gap_le: "n \<le> first_gap n xa"
  by (induction n xa rule: first_gap.induct) (auto intro: Suc_leD)

lemma first_gap_free: "xa_ok xa \<Longrightarrow> \<forall>p\<in>set xa. n \<le> fst p \<Longrightarrow> xa_load xa (first_gap n xa) = None"
proof (induction n xa rule: first_gap.induct)
  case (2 n j v xa)
  show ?case
  proof (cases "j = n")
    case True
    then have "\<forall>p\<in>set xa. Suc n \<le> fst p" using 2(2) by (auto simp: xa_ok_Cons)
    then show ?thesis using 2 True first_gap_le [of "Suc n" xa] by (auto simp: xa_ok_Cons)
  next
    case False
    then have "\<forall>p\<in>set ((j, v) # xa). n < fst p" using 2(2,3) by (auto simp: xa_ok_Cons dest: le_neq_implies_less)
    then show ?thesis using False xa_load_above [of "(j, v) # xa" n] by simp
  qed
qed simp

lemma xa_alloc_Inr:
  assumes "xa_alloc mem limit v xa = Inr (i, xa')" and "xa_ok xa"
  shows "xa_load xa i = None" and "xa' = xa_store i v xa" and "i \<le> limit"
  using assms first_gap_free [of xa 0] by (auto simp: xa_alloc_def Let_def split: if_splits)

section \<open>States on the way\<close>

definition stage :: "nat \<Rightarrow> nat \<Rightarrow> 'd ptp_node \<Rightarrow> ptp_res set \<Rightarrow> ('d, 'v) ptp_core \<Rightarrow> ('d, 'v) ptp_core" where
  "stage a i n R w = w\<lparr>clocks_map := xa_store i a (clocks_map w), nodes := (nodes w)(a \<mapsto> n), objs := Pair a ` R \<union> objs w\<rparr>"

definition fresh :: "nat \<Rightarrow> ('d, 'v) ptp_core \<Rightarrow> bool" where
  "fresh a w \<longleftrightarrow> nodes w a = None \<and> (\<forall>r. (a, r) \<notin> objs w) \<and> xa_ok (clocks_map w)"

lemma stage_node [simp]: "node a (stage a i n R w) = Ok n"
  by (simp add: stage_def node_def)

lemma stage_set [simp]: "set_node a m (stage a i n R w) = stage a i m R w"
  by (simp add: stage_def set_node_def)

lemma stage_take [simp]: "take_obj a r (stage a i n R w) = stage a i n (insert r R) w"
  by (simp add: stage_def take_obj_def)

lemma stage_free: "fresh a w \<Longrightarrow> r \<notin> R \<Longrightarrow> free_obj a r (stage a i n (insert r R) w) = Ok (stage a i n R w)"
  by (auto simp: stage_def free_obj_def fresh_def intro!: arg_cong [where f = "\<lambda>S. objs_update (\<lambda>_. S) _"])

definition opt :: "bool \<Rightarrow> 'r \<Rightarrow> 'r set" where
  "opt b r = (if b then {r} else {})"

lemma stage_free_if:
  "fresh a w \<Longrightarrow> r \<notin> R \<Longrightarrow> free_if b a r (stage a i n (opt b r \<union> R) w) = Ok (stage a i n R w)"
  by (cases b) (simp_all add: free_if_def opt_def stage_free)

lemma stage_end:
  assumes "fresh a w" and "xa_load (clocks_map w) i = None"
  shows "kfree_clock a ((stage a i n {} w)\<lparr>clocks_map := xa_erase i (clocks_map (stage a i n {} w))\<rparr>) = Ok w"
  using assms xa.erase_store [of "clocks_map w" i a] by (auto simp: stage_def kfree_clock_def fresh_def fun_upd_idem)

section \<open>The error path\<close>

definition own1 :: "ptp_res set" where "own1 = {R_mask, R_queue}"
definition own2 :: "'i ptp_clock_info \<Rightarrow> ptp_res set" where "own2 info = opt (do_aux_work info \<noteq> None) R_kworker \<union> own1"
definition own3 :: "bool \<Rightarrow> 'i ptp_clock_info \<Rightarrow> ptp_res set" where "own3 virt info = opt (\<not> virt) R_vclock_index \<union> own2 info"
definition own4 :: "bool \<Rightarrow> 'i ptp_clock_info \<Rightarrow> ptp_res set" where
  "own4 virt info = opt (n_pins info \<noteq> 0) R_pin_attr \<union> (opt (n_pins info \<noteq> 0) R_pin_dev_attr \<union> own3 virt info)"
definition own5 :: "bool \<Rightarrow> 'i ptp_clock_info \<Rightarrow> ptp_res set" where
  "own5 virt info = opt (has_pps info) R_pps \<union> own4 virt info"

lemmas owns = own1_def own2_def own3_def own4_def own5_def

text \<open>The place of the new clock: an address that is not in use, and an index that is not.\<close>

definition place :: "nat \<Rightarrow> nat \<Rightarrow> ('d, 'v) ptp_core \<Rightarrow> bool" where
  "place a i w \<longleftrightarrow> fresh a w \<and> xa_load (clocks_map w) i = None"

lemma place_fresh: "place a i w \<Longrightarrow> fresh a w"
  by (simp add: place_def)

lemma no_memory_queue_ok: "place a i w \<Longrightarrow> no_memory_queue a i err (stage a i n {} w) = Ok (Inl err, w)"
  by (simp add: no_memory_queue_def no_slot_def no_memory_def place_def stage_end)

lemma no_memory_bitmap_ok: "place a i w \<Longrightarrow> no_memory_bitmap a i err (stage a i n {R_queue} w) = Ok (Inl err, w)"
  by (simp add: no_memory_bitmap_def stage_free [OF place_fresh] no_memory_queue_ok)

lemma kworker_err_ok: "place a i w \<Longrightarrow> kworker_err a i err (stage a i n own1 w) = Ok (Inl err, w)"
  by (simp add: kworker_err_def own1_def stage_free [OF place_fresh] no_memory_bitmap_ok)

lemma no_mem_for_vclocks_ok:
  "place a i w \<Longrightarrow> no_mem_for_vclocks info a i err (stage a i n (own2 info) w) = Ok (Inl err, w)"
  unfolding no_mem_for_vclocks_def own2_def
  by (subst stage_free_if [OF place_fresh]) (simp_all add: kworker_err_ok, simp add: own1_def)

lemma no_pin_groups_ok:
  "place a i w \<Longrightarrow> no_pin_groups virt info a i err (stage a i n (own3 virt info) w) = Ok (Inl err, w)"
  unfolding no_pin_groups_def own3_def
  by (subst stage_free_if [OF place_fresh]) (simp_all add: no_mem_for_vclocks_ok, simp add: owns opt_def)

lemma cleanup_pins_ok:
  assumes "place a i w"
  shows "ptp_cleanup_pin_groups (n_pins info \<noteq> 0) a (stage a i n (own4 virt info) w) = Ok (stage a i n (own3 virt info) w)"
proof -
  have "R_pin_dev_attr \<notin> own3 virt info" "R_pin_attr \<notin> opt (n_pins info \<noteq> 0) R_pin_dev_attr \<union> own3 virt info"
    by (simp_all add: owns opt_def)
  then show ?thesis
    unfolding ptp_cleanup_pin_groups_def own4_def using stage_free_if [OF place_fresh [OF assms]] by simp
qed

lemma no_pps_ok: "place a i w \<Longrightarrow> no_pps virt info a i err (stage a i n (own4 virt info) w) = Ok (Inl err, w)"
  using no_pin_groups_ok cleanup_pins_ok [of a i w info n virt] by (simp add: no_pps_def)

section \<open>Release\<close>

text \<open>What a clock still owns when its device is released.\<close>

definition idle_own :: "'d ptp_node \<Rightarrow> ptp_res set" where
  "idle_own n = opt (p_pins n) R_pin_attr \<union> (opt (p_pins n) R_pin_dev_attr
     \<union> (opt (\<not> is_virtual_clock (clk n)) R_vclock_index \<union> (insert R_mask (insert R_queue (opt (p_debugfs n) R_debugfs)))))"

lemma release_stage:
  assumes "place a i w" and "ptp_index (clk n) = i" and "tsevqs (clk n) = (0, q) # qs"
  shows "ptp_clock_release a (stage a i n (idle_own n) w) = Ok w"
proof -
  note free = stage_free [OF place_fresh [OF assms(1)]] and free_if = stage_free_if [OF place_fresh [OF assms(1)]]
  let ?R = "insert R_mask (insert R_queue (opt (p_debugfs n) R_debugfs))"
  let ?V = "opt (\<not> is_virtual_clock (clk n)) R_vclock_index \<union> ?R"
  have notin: "R_pin_dev_attr \<notin> ?V" "R_pin_attr \<notin> opt (p_pins n) R_pin_dev_attr \<union> ?V" by (simp_all add: opt_def)
  have pins: "ptp_cleanup_pin_groups (p_pins n) a (stage a i n (idle_own n) w) = Ok (stage a i n ?V w)"
    by (simp only: ptp_cleanup_pin_groups_def idle_own_def free_if [OF notin(1)] free_if [OF notin(2)] andthen.simps)
  have vidx: "free_if (\<not> is_virtual_clock (clk n)) a R_vclock_index (stage a i n ?V w) = Ok (stage a i n ?R w)"
    by (rule free_if) (simp add: opt_def)
  have debugfs: "free_if (p_debugfs n) a R_debugfs (stage a i n (opt (p_debugfs n) R_debugfs) w) = Ok (stage a i n {} w)"
    using free_if [of R_debugfs "{}"] by simp
  have mask: "free_obj a R_mask (stage a i n ?R w) = Ok (stage a i n (insert R_queue (opt (p_debugfs n) R_debugfs)) w)"
    by (rule free) (simp add: opt_def)
  have queue: "free_obj a R_queue (stage a i n (insert R_queue (opt (p_debugfs n) R_debugfs)) w)
      = Ok (stage a i n (opt (p_debugfs n) R_debugfs) w)"
    by (rule free) (simp add: opt_def)
  have last: "kfree_clock a ((stage a i n {} w)\<lparr>clocks_map := xa_erase i (clocks_map (stage a i n {} w))\<rparr>) = Ok w"
    using assms(1) by (simp add: place_def stage_end)
  show ?thesis by (simp del: Un_insert_right add: ptp_clock_release_def pins vidx mask queue debugfs assms(2,3) last)
qed

section \<open>Registration\<close>

text \<open>The clock as it is handed to the last steps.\<close>

definition built :: "nat option \<Rightarrow> 'i ptp_clock_info \<Rightarrow> nat \<Rightarrow> 'd ptp_node \<Rightarrow> bool" where
  "built pdev info i n \<longleftrightarrow> ptp_index (clk n) = i \<and> tsevqs (clk n) = [(0, new_queue)] \<and> is_virtual_clock (clk n) = (pdev \<noteq> None)
     \<and> p_pins n = (n_pins info \<noteq> 0) \<and> p_pps n = has_pps info \<and> p_kworker n = (do_aux_work info \<noteq> None) \<and> \<not> p_debugfs n"

text \<open>The parent, when the clock is under one.\<close>

definition hang :: "nat option \<Rightarrow> nat \<Rightarrow> ('d, 'v) ptp_core \<Rightarrow> ('d, 'v) ptp_core" where
  "hang pdev a w =
     (case pdev of
        None \<Rightarrow> w
      | Some p \<Rightarrow> (case nodes w p of
                     None \<Rightarrow> w
                   | Some m \<Rightarrow> set_node p (m\<lparr>refs := refs m + 1, kids := kids m @ [a]\<rparr>) w))"

definition parent_there :: "nat option \<Rightarrow> ('d, 'v) ptp_core \<Rightarrow> bool" where
  "parent_there pdev w \<longleftrightarrow> (\<forall>p. pdev = Some p \<longrightarrow> nodes w p \<noteq> None)"

lemma register_posix_fails:
  assumes "place a i w" and "built pdev info i n" and "e_posix e = Some err"
  shows "register_posix e pdev info a (stage a i n (own5 (pdev \<noteq> None) info) w) = Ok (Inl err, w)"
proof -
  define n' where "n' = n\<lparr>refs := 1\<rparr>"
  note free_if = stage_free_if [OF place_fresh [OF assms(1)]]
  have pps: "free_if (p_pps n) a R_pps (stage a i n' (own5 (pdev \<noteq> None) info) w) = Ok (stage a i n' (own4 (pdev \<noteq> None) info) w)"
    using assms(2) free_if [of R_pps "own4 (pdev \<noteq> None) info" "has_pps info"] by (simp add: own5_def built_def owns opt_def)
  have "own4 (pdev \<noteq> None) info = opt (p_kworker n) R_kworker \<union> idle_own n'"
    using assms(2) by (auto simp: owns idle_own_def opt_def built_def n'_def)
  then have kw: "free_if (p_kworker n) a R_kworker (stage a i n' (own4 (pdev \<noteq> None) info) w) = Ok (stage a i n' (idle_own n') w)"
    using free_if [of R_kworker "idle_own n'"] by (simp add: idle_own_def opt_def)
  have "ptp_clock_release a (stage a i n' (idle_own n') w) = Ok w"
    by (rule release_stage [OF assms(1)]) (use assms(2) in \<open>simp_all add: built_def n'_def\<close>)
  then have put: "put_clock a (stage a i n' (idle_own n') w) = Ok w" by (simp add: put_clock_def n'_def)
  show ?thesis
    using assms(3) pps kw put by (simp add: register_posix_def Let_def n'_def)
qed

lemma register_posix_ok:
  assumes "place a i w" and "parent_there pdev w" and "e_posix e = None"
  shows "register_posix e pdev info a (stage a i n R w)
    = Ok (Inr a, stage a i (n\<lparr>refs := 1, parent := pdev, p_debugfs := True\<rparr>) (insert R_debugfs (insert R_chardev R)) (hang pdev a w))"
proof (cases pdev)
  case None
  then show ?thesis
    using assms(3) by (simp add: register_posix_def posix_clock_register_def hang_def Let_def)
next
  case (Some p)
  then obtain m where m: "nodes w p = Some m" using assms(2) by (auto simp: parent_there_def)
  then have pa: "p \<noteq> a" using assms(1) by (auto simp: place_def fresh_def)
  have p: "node p (stage a i n R w) = Ok m" for n R using m pa by (simp add: node_def stage_def)
  have set: "set_node p m' (stage a i n R w) = stage a i n R (set_node p m' w)" for m' n R
    using pa by (simp add: stage_def set_node_def fun_upd_twist)
  show ?thesis
    using assms(3) by (simp add: register_posix_def posix_clock_register_def hang_def Let_def Some p set m)
qed

text \<open>
  The outcome: an error that leaves the state as it was, or the clock. The clock is described by
  \<open>made\<close>.
\<close>

definition made :: "nat option \<Rightarrow> 'i ptp_clock_info \<Rightarrow> nat \<Rightarrow> 'd \<Rightarrow> ptp_pin_desc list \<Rightarrow> 'd ptp_node" where
  "made pdev info i d pins =
     (let (hc, info') = complete_cycles info; virt = (pdev \<noteq> None)
      in \<lparr>clk = \<lparr>ptp_index = i, drv = d, pin_config = pins, dialed_frequency = 0, tsevqs = [(0, new_queue)], defunct = False,
             max_vclocks = (if virt then 0 else PTP_DEFAULT_MAX_VCLOCKS), n_vclocks = 0,
             vclock_index = (if virt then [] else replicate PTP_DEFAULT_MAX_VCLOCKS 0),
             is_virtual_clock = virt, has_cycles = hc\<rparr>,
          refs = 1, parent = pdev, kids = [], p_pins = (n_pins info \<noteq> 0), p_pps = has_pps info,
          p_kworker = (do_aux_work info \<noteq> None), p_debugfs = True,
          has_cyclesx = (getcyclesx64 info' \<noteq> None), has_crosscycles = (getcrosscycles info' \<noteq> None)\<rparr>)"

definition outcome ::
    "nat \<Rightarrow> nat \<Rightarrow> nat option \<Rightarrow> 'i ptp_clock_info \<Rightarrow> 'd ptp_node \<Rightarrow> ('d, 'v) ptp_core \<Rightarrow> ('d, 'v) reg_result res \<Rightarrow> bool" where
  "outcome a i pdev info n w r \<longleftrightarrow> (\<exists>err. r = Ok (Inl err, w))
     \<or> r = Ok (Inr a, stage a i n (insert R_debugfs (insert R_chardev (own5 (pdev \<noteq> None) info))) (hang pdev a w))"

lemma register_pps_outcome:
  assumes "place a i w" and "parent_there pdev w" and "built pdev info i (n\<lparr>p_pps := has_pps info\<rparr>)" and "\<not> p_pps n"
  shows "outcome a i pdev info (n\<lparr>p_pps := has_pps info, refs := 1, parent := pdev, p_debugfs := True\<rparr>) w
    (register_pps e pdev info a i (stage a i n (own4 (pdev \<noteq> None) info) w))"
proof -
  have posix: "outcome a i pdev info (n\<lparr>p_pps := has_pps info, refs := 1, parent := pdev, p_debugfs := True\<rparr>) w
      (register_posix e pdev info a (stage a i (n\<lparr>p_pps := has_pps info\<rparr>) (own5 (pdev \<noteq> None) info) w))"
    by (cases "e_posix e") (simp_all add: outcome_def register_posix_fails [OF assms(1,3), simplified] register_posix_ok [OF assms(1,2)])
  show ?thesis
  proof (cases "has_pps info")
    case False
    then have "n\<lparr>p_pps := has_pps info\<rparr> = n" "own5 (pdev \<noteq> None) info = own4 (pdev \<noteq> None) info"
      using assms(4) by (simp_all add: own5_def opt_def)
    with posix False show ?thesis by (simp add: register_pps_def)
  next
    case True
    then have "own5 (pdev \<noteq> None) info = insert R_pps (own4 (pdev \<noteq> None) info)" by (simp add: own5_def opt_def)
    with posix True show ?thesis
      by (cases "e_pps e") (simp_all add: register_pps_def outcome_def no_pps_ok [OF assms(1)])
  qed
qed

lemma register_pins_outcome:
  assumes "place a i w" and "parent_there pdev w"
    and "built pdev info i (n\<lparr>p_pins := (n_pins info \<noteq> 0), p_pps := has_pps info\<rparr>)" and "\<not> p_pps n" "\<not> p_pins n"
  shows "outcome a i pdev info (n\<lparr>p_pins := (n_pins info \<noteq> 0), p_pps := has_pps info, refs := 1, parent := pdev, p_debugfs := True\<rparr>) w
    (register_pins e pdev info a i (stage a i n (own3 (pdev \<noteq> None) info) w))"
proof (cases "n_pins info = 0")
  case True
  then have "n\<lparr>p_pins := (n_pins info \<noteq> 0)\<rparr> = n" "own4 (pdev \<noteq> None) info = own3 (pdev \<noteq> None) info"
    using assms(5) by (simp_all add: own4_def opt_def)
  with register_pps_outcome [OF assms(1,2), of info "n\<lparr>p_pins := (n_pins info \<noteq> 0)\<rparr>" e] assms(3,4) True show ?thesis
    by (simp add: register_pins_def ptp_populate_pin_groups_def)
next
  case False
  have free: "free_obj a R_pin_dev_attr (stage a i n (insert R_pin_dev_attr (own3 (pdev \<noteq> None) info)) w)
      = Ok (stage a i n (own3 (pdev \<noteq> None) info) w)"
    by (rule stage_free [OF place_fresh [OF assms(1)]]) (simp add: owns opt_def)
  have "own4 (pdev \<noteq> None) info = insert R_pin_attr (insert R_pin_dev_attr (own3 (pdev \<noteq> None) info))"
    using False by (auto simp: own4_def opt_def)
  with register_pps_outcome [OF assms(1,2), of info "n\<lparr>p_pins := (n_pins info \<noteq> 0)\<rparr>" e] assms(3,4) False free
    no_pin_groups_ok [OF assms(1), of "pdev \<noteq> None" info]
  show ?thesis
    by (cases "e_pin_dev e"; cases "e_pin e") (simp_all add: register_pins_def ptp_populate_pin_groups_def outcome_def Let_def)
qed

lemma own3_virt: "own3 True info = own2 info" "own3 False info = insert R_vclock_index (own2 info)"
  by (simp_all add: own3_def opt_def)

text \<open>The node that the next steps make of \<open>n\<close>.\<close>

definition finish :: "nat option \<Rightarrow> 'i ptp_clock_info \<Rightarrow> 'd ptp_node \<Rightarrow> 'd ptp_node" where
  "finish pdev info n = n\<lparr>p_pins := (n_pins info \<noteq> 0), p_pps := has_pps info, refs := 1, parent := pdev, p_debugfs := True\<rparr>"

definition with_vindex :: "nat option \<Rightarrow> 'd ptp_node \<Rightarrow> 'd ptp_node" where
  "with_vindex pdev n = n\<lparr>clk := (if pdev \<noteq> None then (clk n)\<lparr>is_virtual_clock := True\<rparr>
     else (clk n)\<lparr>max_vclocks := PTP_DEFAULT_MAX_VCLOCKS, vclock_index := replicate PTP_DEFAULT_MAX_VCLOCKS 0\<rparr>)\<rparr>"

definition raw :: "'i ptp_clock_info \<Rightarrow> nat \<Rightarrow> 'd ptp_node \<Rightarrow> bool" where
  "raw info i n \<longleftrightarrow> ptp_index (clk n) = i \<and> tsevqs (clk n) = [(0, new_queue)] \<and> \<not> is_virtual_clock (clk n)
     \<and> \<not> p_pins n \<and> \<not> p_pps n \<and> p_kworker n = (do_aux_work info \<noteq> None) \<and> \<not> p_debugfs n"

lemma register_vclocks_outcome:
  assumes "place a i w" and "parent_there pdev w" and "raw info i n"
  shows "outcome a i pdev info (finish pdev info (with_vindex pdev n)) w
    (register_vclocks e pdev info a i (stage a i n (own2 info) w))"
proof -
  have "built pdev info i ((with_vindex pdev n)\<lparr>p_pins := (n_pins info \<noteq> 0), p_pps := has_pps info\<rparr>)"
    and "\<not> p_pps (with_vindex pdev n)" "\<not> p_pins (with_vindex pdev n)"
    using assms(3) by (auto simp: built_def raw_def with_vindex_def)
  from register_pins_outcome [OF assms(1,2) this, of e]
  have pins: "outcome a i pdev info (finish pdev info (with_vindex pdev n)) w
      (register_pins e pdev info a i (stage a i (with_vindex pdev n) (own3 (pdev \<noteq> None) info) w))"
    by (simp only: finish_def)
  show ?thesis
  proof (cases "pdev = None")
    case False
    then show ?thesis using pins by (simp add: register_vclocks_def with_vindex_def own3_virt)
  next
    case True
    show ?thesis
    proof (cases "e_vindex e")
      case False
      then show ?thesis using True by (simp add: register_vclocks_def no_mem_for_vclocks_ok [OF assms(1)] outcome_def)
    next
      case e: True
      then show ?thesis using pins True by (simp add: register_vclocks_def with_vindex_def own3_virt)
    qed
  qed
qed

lemma register_worker_outcome:
  assumes "place a i w" and "parent_there pdev w" and "raw info i (n\<lparr>p_kworker := (do_aux_work info \<noteq> None)\<rparr>)" and "\<not> p_kworker n"
  shows "outcome a i pdev info (finish pdev info (with_vindex pdev (n\<lparr>p_kworker := (do_aux_work info \<noteq> None)\<rparr>))) w
    (register_worker e pdev info a i (stage a i n own1 w))"
proof (cases "do_aux_work info = None")
  case True
  then have "own2 info = own1" "n\<lparr>p_kworker := (do_aux_work info \<noteq> None)\<rparr> = n"
    using assms(4) by (simp_all add: own2_def opt_def)
  then show ?thesis using register_vclocks_outcome [OF assms(1-3), of e] True by (simp add: register_worker_def)
next
  case False
  then have "own2 info = insert R_kworker own1" by (simp add: own2_def opt_def)
  then show ?thesis
    using register_vclocks_outcome [OF assms(1-3), of e] False
    by (cases "e_kworker e"; cases "do_aux_work info") (simp_all add: register_worker_def outcome_def kworker_err_ok [OF assms(1)])
qed

text \<open>The completion of the table changes the getters of the cycle counter only.\<close>

lemma complete_cycles_keeps:
  "n_pins (snd (complete_cycles info)) = n_pins info" "has_pps (snd (complete_cycles info)) = has_pps info"
  "do_aux_work (snd (complete_cycles info)) = do_aux_work info"
  by (auto simp: complete_cycles_def Let_def)

lemma own5_complete: "own5 virt (snd (complete_cycles info)) = own5 virt info"
  by (simp add: owns complete_cycles_keeps)

lemma register_queue_outcome:
  assumes "place a i w" and "parent_there pdev w"
  shows "outcome a i pdev info (made pdev info i d pins) w
    (snd (register_queue e pdev info d pins a i (stage a i n {} w)))"
proof -
  define info' where "info' = snd (complete_cycles info)"
  define n0 where "n0 = (zeroed_node i d pins)\<lparr>clk := (clk (zeroed_node i d pins))\<lparr>tsevqs := [(0, new_queue)],
      has_cycles := fst (complete_cycles info)\<rparr>,
    has_cyclesx := (getcyclesx64 info' \<noteq> None), has_crosscycles := (getcrosscycles info' \<noteq> None)\<rparr>"
  have "raw info' i (n0\<lparr>p_kworker := (do_aux_work info' \<noteq> None)\<rparr>)" "\<not> p_kworker n0"
    by (simp_all add: raw_def n0_def zeroed_node_def)
  note out = register_worker_outcome [OF assms this, of e]
  have "finish pdev info' (with_vindex pdev (n0\<lparr>p_kworker := (do_aux_work info' \<noteq> None)\<rparr>)) = made pdev info i d pins"
    using complete_cycles_keeps [of info]
    by (auto simp: finish_def with_vindex_def n0_def zeroed_node_def made_def info'_def Let_def split: prod.split)
  with out have out: "outcome a i pdev info (made pdev info i d pins) w
      (register_worker e pdev info' a i (stage a i n0 own1 w))"
    by (simp add: outcome_def info'_def own5_complete)
  show ?thesis
    using out no_memory_queue_ok [OF assms(1), of ENOMEM n] no_memory_bitmap_ok [OF assms(1), of ENOMEM n]
    by (cases "complete_cycles info") (simp add: register_queue_def Let_def outcome_def n0_def info'_def own1_def)
qed

lemma kfree_clock_new: "nodes w a = None \<Longrightarrow> kfree_clock a (set_node a n w) = Ok w"
  by (simp add: kfree_clock_def set_node_def fun_upd_idem)

definition new_index :: "('d, 'v) ptp_core \<Rightarrow> nat" where
  "new_index w = first_gap 0 (clocks_map w)"

text \<open>
  Every registration, whatever fails: it returns, and an error leaves the clocks, the table and
  everything they own as they were.
\<close>

lemma register_outcome:
  assumes "\<And>a. e_clock e = Some a \<Longrightarrow> fresh a w" and "parent_there pdev w"
  shows "(\<exists>err. snd (ptp_clock_register e pdev info d pins w) = Ok (Inl err, w))
    \<or> (\<exists>a. e_clock e = Some a \<and> place a (new_index w) w \<and> n_alarm info \<le> PTP_MAX_ALARMS
         \<and> snd (ptp_clock_register e pdev info d pins w)
             = Ok (Inr a, stage a (new_index w) (made pdev info (new_index w) d pins)
                            (insert R_debugfs (insert R_chardev (own5 (pdev \<noteq> None) info))) (hang pdev a w)))"
proof (cases "n_alarm info > PTP_MAX_ALARMS \<or> e_clock e = None")
  case True
  then show ?thesis by (auto simp: ptp_clock_register_def no_memory_def)
next
  case False
  then obtain a where a: "e_clock e = Some a" and alarms: "n_alarm info \<le> PTP_MAX_ALARMS" by auto
  then have fresh: "fresh a w" using assms(1) by simp
  show ?thesis
  proof (cases "xa_alloc (e_xa e) xa_limit_31b a (clocks_map w)")
    case (Inl err)
    then show ?thesis
      using a alarms fresh
      by (simp add: ptp_clock_register_def no_slot_def no_memory_def kfree_clock_new fresh_def set_node_def [of a _ w]
          kfree_clock_new [unfolded set_node_def])
  next
    case (Inr r)
    obtain i xa where r: "r = (i, xa)" by (cases r)
    from xa_alloc_Inr [OF Inr [unfolded r]] fresh
    have i: "xa_load (clocks_map w) i = None" "xa = xa_store i a (clocks_map w)" "i = new_index w"
      using Inr by (auto simp: fresh_def xa_alloc_def Let_def r new_index_def split: if_splits)
    have place: "place a i w" using fresh i by (simp add: place_def)
    have st: "(set_node a (zeroed_node 0 d []) w)\<lparr>clocks_map := xa\<rparr> = stage a i (zeroed_node 0 d []) {} w"
      by (simp add: set_node_def stage_def i(2))
    have "snd (ptp_clock_register e pdev info d pins w)
        = snd (register_queue e pdev info d pins a i (stage a i (zeroed_node i d pins) {} w))"
      using a alarms Inr r st by (simp add: ptp_clock_register_def Let_def set_node_def [of _ _ w])
    with register_queue_outcome [OF place assms(2), of info d pins e] place a alarms show ?thesis
      by (auto simp: outcome_def i(3))
  qed
qed

end
