(* ===== verification/Ptp_System.thy ===== *)
theory Ptp_System
  imports Ptp_Register_Props
begin

text \<open>
  The clocks of the system together: the invariant that relates the table of indices, the clocks,
  what they own, their references, the virtual clocks and the hash table of those, and that every
  operation keeps it.
\<close>

section \<open>Files\<close>

text \<open>
  Opening and closing a character device: the posix clock layer refuses a clock that was
  unregistered, and holds a reference of the device for each open file.
\<close>

definition posix_clock_open :: "bool \<Rightarrow> bool \<Rightarrow> nat \<Rightarrow> nat \<Rightarrow> ('d, 'v) ptp_core \<Rightarrow> ('d, 'v) ptp_core res" where
  "posix_clock_open mem_queue mem_mask h a w =
     andthen (node a w) (\<lambda>n.
       if (a, R_chardev) \<notin> objs w then Err ENODEV
       else case ptp_open mem_queue mem_mask h (clk n) of
              (Inl err, c) \<Rightarrow> Err err
            | (Inr h, c) \<Rightarrow> Ok (set_node a (n\<lparr>clk := c, refs := refs n + 1\<rparr>) w))"

definition posix_clock_release :: "nat \<Rightarrow> nat \<Rightarrow> ('d, 'v) ptp_core \<Rightarrow> ('d, 'v) ptp_core res" where
  "posix_clock_release h a w =
     andthen (node a w) (\<lambda>n. put_clock a (set_node a (n\<lparr>clk := ptp_release h (clk n)\<rparr>) w))"

section \<open>The invariant\<close>

definition plugged :: "nat \<Rightarrow> ('d, 'v) ptp_core \<Rightarrow> bool" where
  "plugged a w \<longleftrightarrow> (a, R_chardev) \<in> objs w"

definition busy_own :: "'d ptp_node \<Rightarrow> ptp_res set" where
  "busy_own n = insert R_chardev (opt (p_kworker n) R_kworker \<union> opt (p_pps n) R_pps)"

definition idx_ok :: "('d, 'v) ptp_core \<Rightarrow> bool" where
  "idx_ok w \<longleftrightarrow> xa_ok (clocks_map w)
     \<and> (\<forall>i a. xa_load (clocks_map w) i = Some a \<longleftrightarrow> (\<exists>n. nodes w a = Some n \<and> ptp_index (clk n) = i))"

definition own_ok :: "('d, 'v) ptp_core \<Rightarrow> bool" where
  "own_ok w \<longleftrightarrow> (\<forall>a r. (a, r) \<in> objs w \<longleftrightarrow>
     (\<exists>n. nodes w a = Some n \<and> (r \<in> idle_own n \<or> plugged a w \<and> r \<in> busy_own n)))"

definition queues_ok :: "'d ptp_clock \<Rightarrow> bool" where
  "queues_ok c \<longleftrightarrow> (\<exists>q qs. tsevqs c = (0, q) # qs \<and> 0 \<notin> fst ` set qs \<and> distinct (map fst qs))"

definition refs_ok :: "('d, 'v) ptp_core \<Rightarrow> bool" where
  "refs_ok w \<longleftrightarrow> (\<forall>a n. nodes w a = Some n \<longrightarrow>
     queues_ok (clk n) \<and> refs n = of_bool (plugged a w) + length (kids n) + length (tl (tsevqs (clk n))))"

definition live_ok :: "('d, 'v) ptp_core \<Rightarrow> bool" where
  "live_ok w \<longleftrightarrow> (\<forall>a n. nodes w a = Some n \<longrightarrow> refs n \<noteq> 0)"

definition tree_ok :: "('d, 'v) ptp_core \<Rightarrow> bool" where
  "tree_ok w \<longleftrightarrow> (\<forall>a n. nodes w a = Some n \<longrightarrow>
     distinct (kids n) \<and> (kids n \<noteq> [] \<longrightarrow> parent n = None)
     \<and> is_virtual_clock (clk n) = (parent n \<noteq> None)
     \<and> (\<forall>k. k \<in> set (kids n) \<longleftrightarrow> (\<exists>m. nodes w k = Some m \<and> plugged k w \<and> parent m = Some a))
     \<and> (\<forall>p. plugged a w \<longrightarrow> parent n = Some p \<longrightarrow> nodes w p \<noteq> None))"

definition vclocks_ok :: "('d, 'tc) ptp_system \<Rightarrow> bool" where
  "vclocks_ok w \<longleftrightarrow> (\<forall>a n p. nodes w a = Some n \<longrightarrow> plugged a w \<longrightarrow> parent n = Some p \<longrightarrow>
       (\<exists>v vc. drv (clk n) = Vclk v \<and> vclocks w v = Some vc \<and> vc_clock vc = a))
     \<and> (\<forall>v vc. vclocks w v = Some vc \<longrightarrow>
       (\<exists>n. nodes w (vc_clock vc) = Some n \<and> drv (clk n) = Vclk v \<and> plugged (vc_clock vc) w \<and> parent n = Some (vc_pclock vc)))"

definition hash_ok :: "('d, 'tc) ptp_system \<Rightarrow> bool" where
  "hash_ok w \<longleftrightarrow> (\<forall>h v. v \<in> set (vclock_hash w h) \<longleftrightarrow>
     (\<exists>vc n. vclocks w v = Some vc \<and> nodes w (vc_clock vc) = Some n \<and> ptp_index (clk n) mod HASH_SIZE = h))"

lemma vclocks_okI:
  assumes "\<And>a n p. nodes w a = Some n \<Longrightarrow> plugged a w \<Longrightarrow> parent n = Some p \<Longrightarrow>
      \<exists>v vc. drv (clk n) = Vclk v \<and> vclocks w v = Some vc \<and> vc_clock vc = a"
    and "\<And>v vc. vclocks w v = Some vc \<Longrightarrow>
      \<exists>n. nodes w (vc_clock vc) = Some n \<and> drv (clk n) = Vclk v \<and> plugged (vc_clock vc) w \<and> parent n = Some (vc_pclock vc)"
  shows "vclocks_ok w"
  using assms by (simp add: vclocks_ok_def)

lemma vclocks_okD1:
  "vclocks_ok w \<Longrightarrow> nodes w a = Some n \<Longrightarrow> plugged a w \<Longrightarrow> parent n = Some p \<Longrightarrow>
     \<exists>v vc. drv (clk n) = Vclk v \<and> vclocks w v = Some vc \<and> vc_clock vc = a"
  by (simp add: vclocks_ok_def)

lemma vclocks_okD2:
  "vclocks_ok w \<Longrightarrow> vclocks w v = Some vc \<Longrightarrow>
     \<exists>n. nodes w (vc_clock vc) = Some n \<and> drv (clk n) = Vclk v \<and> plugged (vc_clock vc) w \<and> parent n = Some (vc_pclock vc)"
  by (simp add: vclocks_ok_def)

text \<open>\<open>sys_pre\<close> allows a clock whose last reference is gone and that is about to be released.\<close>

definition sys_pre :: "('d, 'tc) ptp_system \<Rightarrow> bool" where
  "sys_pre w \<longleftrightarrow> idx_ok w \<and> own_ok w \<and> refs_ok w \<and> tree_ok w \<and> vclocks_ok w \<and> hash_ok w"

definition sys_ok :: "('d, 'tc) ptp_system \<Rightarrow> bool" where
  "sys_ok w \<longleftrightarrow> sys_pre w \<and> live_ok w"

section \<open>The last reference\<close>

definition without :: "nat \<Rightarrow> 'd ptp_node \<Rightarrow> ('d, 'v) ptp_core \<Rightarrow> ('d, 'v) ptp_core" where
  "without a n w = w\<lparr>clocks_map := xa_erase (ptp_index (clk n)) (clocks_map w), nodes := (nodes w)(a := None),
     objs := objs w - Pair a ` idle_own n\<rparr>"

lemma own_idle:
  assumes "own_ok w" and "nodes w a = Some n" and "\<not> plugged a w"
  shows "(a, r) \<in> objs w \<longleftrightarrow> r \<in> idle_own n"
proof -
  have "(a, r) \<in> objs w \<longleftrightarrow> (\<exists>n. nodes w a = Some n \<and> (r \<in> idle_own n \<or> plugged a w \<and> r \<in> busy_own n))"
    using assms(1) by (simp only: own_ok_def)
  then show ?thesis using assms(2,3) by simp
qed

lemma own_plugged:
  assumes "own_ok w" and "nodes w a = Some n" and "plugged a w"
  shows "(a, r) \<in> objs w \<longleftrightarrow> r \<in> idle_own n \<or> r \<in> busy_own n"
proof -
  have "(a, r) \<in> objs w \<longleftrightarrow> (\<exists>n. nodes w a = Some n \<and> (r \<in> idle_own n \<or> plugged a w \<and> r \<in> busy_own n))"
    using assms(1) by (simp only: own_ok_def)
  then show ?thesis using assms(2,3) by simp
qed

lemma idx_Some: "idx_ok w \<Longrightarrow> nodes w a = Some n \<Longrightarrow> xa_load (clocks_map w) (ptp_index (clk n)) = Some a"
  by (auto simp: idx_ok_def)

lemma idx_inj: "idx_ok w \<Longrightarrow> nodes w a = Some n \<Longrightarrow> nodes w b = Some m \<Longrightarrow> ptp_index (clk n) = ptp_index (clk m) \<Longrightarrow> a = b"
  by (metis idx_Some option.inject)

text \<open>A clock in the table is a stage over the state without it, so that its release runs through.\<close>

lemma release_clock:
  assumes idx: "idx_ok w" and n: "nodes w a = Some n" and own: "\<And>r. (a, r) \<in> objs w \<longleftrightarrow> r \<in> idle_own n"
    and q: "queues_ok (clk n')" and n': "idle_own n' = idle_own n" "ptp_index (clk n') = ptp_index (clk n)"
  shows "ptp_clock_release a (set_node a n' w) = Ok (without a n w)"
proof -
  let ?i = "ptp_index (clk n)" and ?w = "without a n w"
  have ok: "xa_ok (clocks_map w)" using idx by (simp add: idx_ok_def)
  have place: "place a ?i ?w"
    using own xa.invar_erase [OF ok] by (auto simp: place_def fresh_def without_def xa_load_erase)
  have "xa_store ?i a (clocks_map ?w) = clocks_map w"
    using idx_Some [OF idx n] ok
    by (intro xa_ext) (auto simp: without_def xa_load_store xa_load_erase xa_ok_erase xa_ok_store fun_upd_idem)
  moreover have "Pair a ` idle_own n \<union> objs ?w = objs w" using own by (auto simp: without_def)
  ultimately have "stage a ?i n' (idle_own n) ?w = set_node a n' w"
    by (simp add: stage_def set_node_def without_def)
  moreover obtain q qs where "tsevqs (clk n') = (0, q) # qs" using q by (auto simp: queues_ok_def)
  ultimately show ?thesis using release_stage [OF place, of n'] n' by simp
qed

text \<open>Taking out a clock without references keeps the invariant.\<close>

lemma reap:
  assumes pre: "sys_pre w" and n: "nodes w a = Some n" "refs n = 0"
  shows "sys_pre (without a n w)"
proof -
  have parts: "idx_ok w" "own_ok w" "refs_ok w" "tree_ok w" "vclocks_ok w" "hash_ok w" using pre by (simp_all add: sys_pre_def)
  have un: "\<not> plugged a w" "kids n = []" using parts(3) n by (auto simp: refs_ok_def)
  have no_kid: "parent m \<noteq> Some a \<or> \<not> plugged k w" if "nodes w k = Some m" for k m
    using parts(4) n(1) un(2) that unfolding tree_ok_def by fastforce
  have plug: "plugged b (without a n w) = plugged b w" for b
    using un(1) by (auto simp: plugged_def without_def idle_own_def opt_def)
  have nds: "nodes (without a n w) = (nodes w)(a := None)" by (simp add: without_def)
  have same: "vclocks (without a n w) = vclocks w" "vclock_hash (without a n w) = vclock_hash w" by (simp_all add: without_def)
  have "xa_load (clocks_map (without a n w)) i = Some b \<longleftrightarrow> (\<exists>m. nodes (without a n w) b = Some m \<and> ptp_index (clk m) = i)" for i b
  proof (cases "b = a")
    case True
    have "xa_load (clocks_map w) i = Some a \<longleftrightarrow> (\<exists>m. nodes w a = Some m \<and> ptp_index (clk m) = i)"
      using parts(1) by (simp only: idx_ok_def)
    then show ?thesis using True n(1) by (auto simp: without_def xa_load_erase)
  next
    case False
    have "xa_load (clocks_map w) i = Some b \<longleftrightarrow> (\<exists>m. nodes w b = Some m \<and> ptp_index (clk m) = i)"
      using parts(1) by (simp only: idx_ok_def)
    moreover have "ptp_index (clk m) \<noteq> ptp_index (clk n)" if "nodes w b = Some m" for m
      using idx_inj [OF parts(1) n(1) that] False by auto
    ultimately show ?thesis using False by (auto simp: without_def xa_load_erase)
  qed
  moreover have "xa_ok (clocks_map (without a n w))" using parts(1) by (simp add: idx_ok_def without_def xa_ok_erase)
  ultimately have "idx_ok (without a n w)" by (simp add: idx_ok_def)
  moreover have "own_ok (without a n w)"
    unfolding own_ok_def plug
  proof (intro allI)
    fix b r
    show "(b, r) \<in> objs (without a n w) \<longleftrightarrow>
        (\<exists>m. nodes (without a n w) b = Some m \<and> (r \<in> idle_own m \<or> plugged b w \<and> r \<in> busy_own m))"
    proof (cases "b = a")
      case True
      then show ?thesis using own_idle [OF parts(2) n(1) un(1)] by (auto simp: without_def)
    next
      case False
      then show ?thesis using parts(2) by (auto simp: own_ok_def without_def)
    qed
  qed
  moreover have "refs_ok (without a n w)" using parts(3) by (simp add: refs_ok_def plug nds)
  moreover have "tree_ok (without a n w)"
    unfolding tree_ok_def plug nds
  proof (intro allI impI)
    fix b m
    assume "((nodes w)(a := None)) b = Some m"
    then have b: "b \<noteq> a" "nodes w b = Some m" by (auto split: if_splits)
    have "k \<noteq> a" if "k \<in> set (kids m)" for k
      using parts(4) b(2) that un(1) unfolding tree_ok_def by blast
    with parts(4) b no_kid [OF b(2)] un(1) show "distinct (kids m) \<and> (kids m \<noteq> [] \<longrightarrow> parent m = None)
      \<and> is_virtual_clock (clk m) = (parent m \<noteq> None)
      \<and> (\<forall>k. k \<in> set (kids m) \<longleftrightarrow> (\<exists>m. ((nodes w)(a := None)) k = Some m \<and> plugged k w \<and> parent m = Some b))
      \<and> (\<forall>p. plugged b w \<longrightarrow> parent m = Some p \<longrightarrow> ((nodes w)(a := None)) p \<noteq> None)"
      unfolding tree_ok_def by (auto 0 3)
  qed
  moreover have "vclocks_ok (without a n w)"
  proof (rule vclocks_okI)
    show "\<exists>v vc. drv (clk m) = Vclk v \<and> vclocks (without a n w) v = Some vc \<and> vc_clock vc = b"
      if "nodes (without a n w) b = Some m" "plugged b (without a n w)" "parent m = Some p" for b m p
      using vclocks_okD1 [OF parts(5), of b m p] that by (auto simp: nds plug same split: if_splits)
    show "\<exists>m. nodes (without a n w) (vc_clock vc) = Some m \<and> drv (clk m) = Vclk v \<and> plugged (vc_clock vc) (without a n w)
        \<and> parent m = Some (vc_pclock vc)" if "vclocks (without a n w) v = Some vc" for v vc
      using vclocks_okD2 [OF parts(5), of v vc] that un(1) by (auto simp: nds plug same)
  qed
  moreover have "hash_ok (without a n w)"
  proof -
    have "vc_clock vc \<noteq> a" if "vclocks w v = Some vc" for v vc
      using parts(5) un(1) that by (auto simp: vclocks_ok_def)
    then show ?thesis using parts(6) by (auto simp: hash_ok_def nds same)
  qed
  ultimately show ?thesis by (simp add: sys_pre_def)
qed

lemma tree_okI:
  assumes "\<And>a n. nodes w a = Some n \<Longrightarrow> distinct (kids n)"
    and "\<And>a n. nodes w a = Some n \<Longrightarrow> kids n \<noteq> [] \<Longrightarrow> parent n = None"
    and "\<And>a n. nodes w a = Some n \<Longrightarrow> is_virtual_clock (clk n) = (parent n \<noteq> None)"
    and "\<And>a n k. nodes w a = Some n \<Longrightarrow> k \<in> set (kids n) \<longleftrightarrow> (\<exists>m. nodes w k = Some m \<and> plugged k w \<and> parent m = Some a)"
    and "\<And>a n p. nodes w a = Some n \<Longrightarrow> plugged a w \<Longrightarrow> parent n = Some p \<Longrightarrow> nodes w p \<noteq> None"
  shows "tree_ok w"
  using assms unfolding tree_ok_def by blast

lemma tree_okD:
  assumes "tree_ok w" and "nodes w a = Some n"
  shows "distinct (kids n)" and "kids n \<noteq> [] \<Longrightarrow> parent n = None"
    and "is_virtual_clock (clk n) = (parent n \<noteq> None)"
    and "k \<in> set (kids n) \<longleftrightarrow> (\<exists>m. nodes w k = Some m \<and> plugged k w \<and> parent m = Some a)"
    and "plugged a w \<Longrightarrow> parent n = Some p \<Longrightarrow> nodes w p \<noteq> None"
  using assms unfolding tree_ok_def by blast+

lemma refs_okD:
  "refs_ok w \<Longrightarrow> nodes w a = Some n \<Longrightarrow>
     queues_ok (clk n) \<and> refs n = of_bool (plugged a w) + length (kids n) + length (tl (tsevqs (clk n)))"
  by (simp add: refs_ok_def)

text \<open>A reference is given back.\<close>

definition settle :: "nat \<Rightarrow> ('d, 'v) ptp_core \<Rightarrow> ('d, 'v) ptp_core" where
  "settle a w = (case nodes w a of Some n \<Rightarrow> if refs n = 0 then without a n w else w | None \<Rightarrow> w)"

lemma put_clock_settles:
  assumes n: "nodes w a = Some n" "refs n \<noteq> 0" and pre: "idx_ok (set_node a (n\<lparr>refs := refs n - 1\<rparr>) w)"
    "own_ok (set_node a (n\<lparr>refs := refs n - 1\<rparr>) w)" "refs_ok (set_node a (n\<lparr>refs := refs n - 1\<rparr>) w)"
  shows "put_clock a w = Ok (settle a (set_node a (n\<lparr>refs := refs n - 1\<rparr>) w))"
proof (cases "refs n = 1")
  case False
  then show ?thesis using n by (auto simp: put_clock_def node_def settle_def set_node_def)
next
  case True
  let ?n0 = "n\<lparr>refs := refs n - 1\<rparr>" and ?w0 = "set_node a (n\<lparr>refs := refs n - 1\<rparr>) w"
  have n0: "nodes ?w0 a = Some ?n0" by (simp add: set_node_def)
  have un: "\<not> plugged a ?w0" and q: "queues_ok (clk n)"
    using pre refs_okD [OF _ n0] True by (auto simp: sys_pre_def split: if_splits)
  have "ptp_clock_release a (set_node a n ?w0) = Ok (without a ?n0 ?w0)"
    by (rule release_clock [OF _ n0]) (use pre q own_idle [OF _ n0 un] in \<open>simp_all add: sys_pre_def idle_own_def\<close>)
  moreover have "set_node a n ?w0 = w" using n(1) by (simp add: set_node_def fun_upd_idem)
  moreover have "settle a ?w0 = without a ?n0 ?w0" using n0 True by (simp add: settle_def)
  ultimately show ?thesis using n True by (simp add: put_clock_def node_def)
qed

lemma settle_pre: "sys_pre w \<Longrightarrow> sys_pre (settle a w)"
  by (auto simp: settle_def reap split: option.split)

lemma settle_ok:
  assumes "sys_pre w" and "\<And>b n. nodes w b = Some n \<Longrightarrow> b \<noteq> a \<Longrightarrow> refs n \<noteq> 0"
  shows "sys_ok (settle a w)"
  using settle_pre [OF assms(1)] assms(2)
  by (fastforce simp: sys_ok_def live_ok_def settle_def without_def split: option.splits if_splits)

lemma settle_nodes:
  "nodes (settle a w) = (nodes w)(a := (case nodes w a of Some n \<Rightarrow> if refs n = 0 then None else Some n | None \<Rightarrow> None))"
  by (auto simp: settle_def without_def fun_eq_iff split: option.split)

section \<open>Unregistering\<close>

definition unplug :: "nat \<Rightarrow> 'd ptp_node \<Rightarrow> ('d, 'v) ptp_core \<Rightarrow> ('d, 'v) ptp_core" where
  "unplug a n w = w\<lparr>nodes := (nodes w)(a \<mapsto> n\<lparr>clk := (clk n)\<lparr>defunct := True\<rparr>, refs := refs n - 1\<rparr>),
     objs := objs w - Pair a ` busy_own n\<rparr>"

definition leave :: "nat \<Rightarrow> nat \<Rightarrow> 'd ptp_node \<Rightarrow> ('d, 'v) ptp_core \<Rightarrow> ('d, 'v) ptp_core" where
  "leave k p pn w = set_node p (pn\<lparr>kids := remove1 k (kids pn), refs := refs pn - 1\<rparr>) w"

definition forget :: "nat \<Rightarrow> ('d, 'v) ptp_core \<Rightarrow> ('d, 'v) ptp_core" where
  "forget v w = w\<lparr>vclocks := (vclocks w)(v := None), vclock_hash := \<lambda>h. filter (\<lambda>u. u \<noteq> v) (vclock_hash w h)\<rparr>"

lemma busy_not_idle: "r \<in> busy_own n \<Longrightarrow> r \<notin> idle_own m"
  by (auto simp: busy_own_def idle_own_def opt_def split: if_splits)

text \<open>
  Removing a clock from the device model changes some of its fields and the ones of its parent, and gives
  back what the clock owns while it is registered; nothing else.
\<close>

definition same_ids :: "'d ptp_node \<Rightarrow> 'd ptp_node \<Rightarrow> bool" where
  "same_ids n' n \<longleftrightarrow> parent n' = parent n \<and> ptp_index (clk n') = ptp_index (clk n) \<and> drv (clk n') = drv (clk n)
     \<and> tsevqs (clk n') = tsevqs (clk n) \<and> is_virtual_clock (clk n') = is_virtual_clock (clk n)
     \<and> idle_own n' = idle_own n \<and> busy_own n' = busy_own n"

definition removes :: "nat \<Rightarrow> (nat \<Rightarrow> 'd ptp_node \<Rightarrow> 'd ptp_node) \<Rightarrow> ('d, 'v) ptp_core \<Rightarrow> ('d, 'v) ptp_core \<Rightarrow> bool" where
  "removes k g w u \<longleftrightarrow> (\<forall>b. nodes u b = map_option (g b) (nodes w b)) \<and> (\<forall>b n. same_ids (g b n) n)
     \<and> clocks_map u = clocks_map w \<and> (\<exists>m. nodes w k = Some m \<and> objs u = objs w - Pair k ` busy_own m)"

lemma removes_Some:
  "removes k g w u \<Longrightarrow> nodes u b = Some n' \<Longrightarrow> \<exists>n. nodes w b = Some n \<and> n' = g b n \<and> same_ids n' n"
  by (auto simp: removes_def)

lemma removes_there: "removes k g w u \<Longrightarrow> nodes w b = Some n \<Longrightarrow> nodes u b = Some (g b n) \<and> same_ids (g b n) n"
  by (auto simp: removes_def)

lemma removes_plugged: "removes k g w u \<Longrightarrow> plugged b u \<longleftrightarrow> plugged b w \<and> b \<noteq> k"
  by (auto simp: removes_def plugged_def busy_own_def)

lemma removes_ex:
  assumes "removes k g w u"
  shows "(\<exists>n. nodes u b = Some n \<and> P (parent n) (ptp_index (clk n))) \<longleftrightarrow> (\<exists>n. nodes w b = Some n \<and> P (parent n) (ptp_index (clk n)))"
  using assms by (auto simp: removes_def same_ids_def)

lemma removes_idx: "removes k g w u \<Longrightarrow> idx_ok w \<Longrightarrow> idx_ok u"
  using removes_ex [of k g w u _ "\<lambda>q j. j = _"] by (simp add: idx_ok_def removes_def)

lemma removes_own:
  assumes rm: "removes k g w u" and own: "own_ok w" and plug: "plugged k w"
  shows "own_ok u"
  unfolding own_ok_def
proof (intro allI)
  fix b r
  obtain m where m: "nodes w k = Some m" "objs u = objs w - Pair k ` busy_own m" using rm by (auto simp: removes_def)
  have old: "(b, r) \<in> objs w \<longleftrightarrow> (\<exists>n. nodes w b = Some n \<and> (r \<in> idle_own n \<or> plugged b w \<and> r \<in> busy_own n))"
    using own by (simp only: own_ok_def)
  have "(b, r) \<in> objs u \<longleftrightarrow> (b, r) \<in> objs w \<and> \<not> (b = k \<and> r \<in> busy_own m)" using m(2) by auto
  also have "\<dots> \<longleftrightarrow> (\<exists>n. nodes w b = Some n \<and> (r \<in> idle_own n \<or> (plugged b w \<and> b \<noteq> k) \<and> r \<in> busy_own n))"
    unfolding old using m(1) busy_not_idle [of r m m] by auto
  also have "\<dots> \<longleftrightarrow> (\<exists>n. nodes u b = Some n \<and> (r \<in> idle_own n \<or> plugged b u \<and> r \<in> busy_own n))"
    using rm by (auto simp: removes_plugged [OF rm] removes_def same_ids_def)
  finally show "(b, r) \<in> objs u \<longleftrightarrow> (\<exists>n. nodes u b = Some n \<and> (r \<in> idle_own n \<or> plugged b u \<and> r \<in> busy_own n))" .
qed

text \<open>Unregistering the clock of a virtual clock: the invariant before its last reference is given back.\<close>

definition shrink :: "nat \<Rightarrow> nat \<Rightarrow> nat \<Rightarrow> 'd ptp_node \<Rightarrow> 'd ptp_node" where
  "shrink k p b n = (if b = k then n\<lparr>clk := (clk n)\<lparr>defunct := True\<rparr>, refs := refs n - 1\<rparr>
     else if b = p then n\<lparr>kids := remove1 k (kids n), refs := refs n - 1\<rparr> else n)"

lemma shrink_ids: "same_ids (shrink k p b n) n"
  by (simp add: same_ids_def shrink_def idle_own_def busy_own_def)

lemma virtual_removes:
  assumes "nodes w p = Some pn" and "nodes w k = Some m" and "k \<noteq> p"
  shows "removes k (shrink k p) w (forget v (unplug k m (leave k p pn w)))"
proof -
  let ?u = "forget v (unplug k m (leave k p pn w))"
  have "nodes ?u b = map_option (shrink k p b) (nodes w b)" for b
  proof -
    consider "b = k" | "b = p" | "b \<noteq> k" "b \<noteq> p" by blast
    then show ?thesis
    proof cases
      case 3
      then show ?thesis
        by (cases "nodes w b") (simp_all add: shrink_def forget_def unplug_def leave_def set_node_def)
    qed (use assms in \<open>simp_all add: shrink_def forget_def unplug_def leave_def set_node_def\<close>)
  qed
  then show ?thesis
    using assms(2) by (simp add: removes_def shrink_ids) (simp add: forget_def unplug_def leave_def set_node_def)
qed

lemma child:
  assumes "tree_ok w" and "nodes w p = Some pn" and "nodes w k = Some m" and "k \<in> set (kids pn)"
  shows "plugged k w" and "parent m = Some p" and "kids m = []" and "k \<noteq> p"
proof -
  show "plugged k w" and pm: "parent m = Some p" using tree_okD(4) [OF assms(1,2), of k] assms(3,4) by auto
  show km: "kids m = []" using tree_okD(2) [OF assms(1,3)] pm by auto
  show "k \<noteq> p" using km assms(2-4) by auto
qed

lemma virtual_refs:
  assumes rm: "removes k (shrink k p) w u" and refs: "refs_ok w" and tree: "tree_ok w"
    and p: "nodes w p = Some pn" and k: "nodes w k = Some m" "k \<in> set (kids pn)"
  shows "refs_ok u"
  unfolding refs_ok_def removes_plugged [OF rm]
proof (intro allI impI)
  fix b n'
  assume "nodes u b = Some n'"
  then obtain n where n: "nodes w b = Some n" "n' = shrink k p b n" "same_ids n' n" using removes_Some [OF rm] by auto
  note child = child [OF tree p k]
  have "length (kids n) = Suc (length (remove1 k (kids n)))" if "b = p"
    using that n(1) p k(2) length_pos_if_in_set [of k "kids n"] by (simp add: length_remove1)
  then show "queues_ok (clk n') \<and> refs n' = of_bool (plugged b w \<and> b \<noteq> k) + length (kids n') + length (tl (tsevqs (clk n')))"
    using refs_okD [OF refs n(1)] n(2,3) child by (auto simp: queues_ok_def same_ids_def shrink_def)
qed

lemma virtual_tree:
  assumes rm: "removes k (shrink k p) w u" and tree: "tree_ok w"
    and p: "nodes w p = Some pn" and k: "nodes w k = Some m" "k \<in> set (kids pn)"
  shows "tree_ok u"
proof (rule tree_okI)
  fix b n'
  assume b: "nodes u b = Some n'"
  note child = child [OF tree p k]
  from removes_Some [OF rm b] obtain n where n: "nodes w b = Some n" "n' = shrink k p b n" "same_ids n' n" by auto
  have kn: "kids n' = (if b = p then remove1 k (kids n) else kids n)" using n(2) child(4) by (simp add: shrink_def)
  note tr = tree_okD [OF tree n(1)]
  show "distinct (kids n')" using tr(1) kn by simp
  show "is_virtual_clock (clk n') = (parent n' \<noteq> None)" using tr(3) n(3) by (simp add: same_ids_def)
  show "parent n' = None" if "kids n' \<noteq> []"
  proof -
    have "kids n \<noteq> []" using that kn by (auto split: if_splits)
    then show ?thesis using tr(2) n(3) by (simp add: same_ids_def)
  qed
  show "nodes u q \<noteq> None" if "plugged b u" "parent n' = Some q" for q
    using that tr(5) [of q] n(3) removes_there [OF rm, of q] by (auto simp: removes_plugged [OF rm] same_ids_def)
  show "j \<in> set (kids n') \<longleftrightarrow> (\<exists>m. nodes u j = Some m \<and> plugged j u \<and> parent m = Some b)" for j
  proof -
    have "j \<in> set (kids n') \<longleftrightarrow> j \<in> set (kids n) \<and> \<not> (b = p \<and> j = k)" using tr(1) kn by auto
    moreover have "\<not> (j = k \<and> b \<noteq> p \<and> j \<in> set (kids n))" using tr(4) [of k] k(1) child(2) by auto
    moreover have "(\<exists>m. nodes u j = Some m \<and> parent m = Some b) \<longleftrightarrow> (\<exists>m. nodes w j = Some m \<and> parent m = Some b)"
      by (rule removes_ex [OF rm])
    ultimately show ?thesis using tr(4) [of j] removes_plugged [OF rm, of j] by auto
  qed
qed

lemma virtual_vclocks:
  assumes rm: "removes k (shrink k p) w u" and vs: "vclocks_ok w" and u: "vclocks u = (vclocks w)(v := None)"
    and k: "nodes w k = Some m" "drv (clk m) = Vclk v" "plugged k w" "parent m = Some p"
  shows "vclocks_ok u"
proof (rule vclocks_okI)
  fix b n' q
  assume b: "nodes u b = Some n'" "plugged b u" "parent n' = Some q"
  from removes_Some [OF rm b(1)] obtain n where n: "nodes w b = Some n" "same_ids n' n" by auto
  have bk: "b \<noteq> k" "plugged b w" using b(2) by (simp_all add: removes_plugged [OF rm])
  from vclocks_okD1 [OF vs n(1) bk(2), of q] b(3) n(2)
  obtain x vc where x: "drv (clk n) = Vclk x" "vclocks w x = Some vc" "vc_clock vc = b" by (auto simp: same_ids_def)
  have "x \<noteq> v" using vclocks_okD1 [OF vs k(1,3,4)] x k(2) bk(1) by auto
  then show "\<exists>x vc. drv (clk n') = Vclk x \<and> vclocks u x = Some vc \<and> vc_clock vc = b"
    using x n(2) by (simp add: u same_ids_def)
next
  fix x vc
  assume "vclocks u x = Some vc"
  then have x: "x \<noteq> v" "vclocks w x = Some vc" by (auto simp: u split: if_splits)
  from vclocks_okD2 [OF vs x(2)] obtain n where n: "nodes w (vc_clock vc) = Some n" "drv (clk n) = Vclk x"
    "plugged (vc_clock vc) w" "parent n = Some (vc_pclock vc)" by auto
  then have "vc_clock vc \<noteq> k" using x(1) k(1,2) by auto
  then show "\<exists>n. nodes u (vc_clock vc) = Some n \<and> drv (clk n) = Vclk x \<and> plugged (vc_clock vc) u \<and> parent n = Some (vc_pclock vc)"
    using removes_there [OF rm n(1)] n by (simp add: removes_plugged [OF rm] same_ids_def)
qed

lemma removes_hash:
  assumes rm: "removes k g w u" and hash: "hash_ok w" and u: "vclocks u = (vclocks w)(v := None)"
    and h: "\<And>h x. x \<in> set (vclock_hash u h) \<longleftrightarrow> x \<in> set (vclock_hash w h) \<and> x \<noteq> v"
  shows "hash_ok u"
  unfolding hash_ok_def
proof (intro allI)
  fix i x
  have old: "x \<in> set (vclock_hash w i) \<longleftrightarrow>
      (\<exists>vc n. vclocks w x = Some vc \<and> nodes w (vc_clock vc) = Some n \<and> ptp_index (clk n) mod HASH_SIZE = i)"
    using hash by (simp only: hash_ok_def)
  have "(\<exists>n. nodes u a = Some n \<and> ptp_index (clk n) mod HASH_SIZE = i) \<longleftrightarrow> (\<exists>n. nodes w a = Some n \<and> ptp_index (clk n) mod HASH_SIZE = i)" for a
    by (rule removes_ex [OF rm])
  then show "x \<in> set (vclock_hash u i) \<longleftrightarrow>
      (\<exists>vc n. vclocks u x = Some vc \<and> nodes u (vc_clock vc) = Some n \<and> ptp_index (clk n) mod HASH_SIZE = i)"
    unfolding h old u by auto
qed

lemma unplug_virtual_pre:
  assumes pre: "sys_pre w" and p: "nodes w p = Some pn" and k: "nodes w k = Some m" "k \<in> set (kids pn)"
    and v: "drv (clk m) = Vclk v"
  shows "sys_pre (forget v (unplug k m (leave k p pn w)))"
proof -
  let ?u = "forget v (unplug k m (leave k p pn w))"
  have parts: "idx_ok w" "own_ok w" "refs_ok w" "tree_ok w" "vclocks_ok w" "hash_ok w" using pre by (simp_all add: sys_pre_def)
  note child = child [OF parts(4) p k]
  note rm = virtual_removes [OF p k(1) child(4), of v]
  have vcs: "vclocks ?u = (vclocks w)(v := None)" by (simp add: forget_def unplug_def leave_def set_node_def)
  have hash: "x \<in> set (vclock_hash ?u h) \<longleftrightarrow> x \<in> set (vclock_hash w h) \<and> x \<noteq> v" for x h
    by (auto simp: forget_def unplug_def leave_def set_node_def)
  show ?thesis
    unfolding sys_pre_def
    using removes_idx [OF rm parts(1)] removes_own [OF rm parts(2) child(1)] virtual_refs [OF rm parts(3,4) p k]
      virtual_tree [OF rm parts(4) p k] virtual_vclocks [OF rm parts(5) vcs k(1) v child(1,2)]
      removes_hash [OF rm parts(6) vcs hash] by blast
qed

text \<open>The same for a clock that is not virtual, whether it has virtual clocks left or not.\<close>

lemma unplug_physical_pre:
  assumes pre: "sys_pre w" and n: "nodes w a = Some n" "plugged a w" "parent n = None"
  shows "sys_pre (unplug a n w)"
proof -
  let ?u = "unplug a n w"
  have parts: "idx_ok w" "own_ok w" "refs_ok w" "tree_ok w" "vclocks_ok w" "hash_ok w" using pre by (simp_all add: sys_pre_def)
  define g where "g b x = (if b = a then x\<lparr>clk := (clk x)\<lparr>defunct := True\<rparr>, refs := refs x - 1\<rparr> else x)" for b and x :: "'a ptp_owner ptp_node"
  have nd: "nodes ?u b = map_option (g b) (nodes w b)" for b
    by (cases "nodes w b") (use n(1) in \<open>auto simp: unplug_def g_def\<close>)
  have ids: "same_ids (g b x) x" and gk: "kids (g b x) = kids x" for b x
    by (simp_all add: g_def same_ids_def idle_own_def busy_own_def)
  have rm: "removes a g w ?u" unfolding removes_def using nd ids n(1) by (simp add: unplug_def)
  have vcs: "vclocks ?u = vclocks w" by (simp add: unplug_def)
  have not_kid: "\<not> (plugged k w \<and> k = a \<and> nodes w k = Some m \<and> parent m = Some b)" for k m b
    using n by auto
  have "refs_ok ?u"
    unfolding refs_ok_def removes_plugged [OF rm]
  proof (intro allI impI)
    fix b n'
    assume "nodes ?u b = Some n'"
    then obtain x where x: "nodes w b = Some x" "n' = g b x" using removes_Some [OF rm] by auto
    then show "queues_ok (clk n') \<and> refs n' = of_bool (plugged b w \<and> b \<noteq> a) + length (kids n') + length (tl (tsevqs (clk n')))"
      using refs_okD [OF parts(3) x(1)] n by (auto simp: queues_ok_def g_def)
  qed
  moreover have "tree_ok ?u"
  proof (rule tree_okI)
    fix b n'
    assume b: "nodes ?u b = Some n'"
    from removes_Some [OF rm b] obtain x where x: "nodes w b = Some x" "n' = g b x" "same_ids n' x" by auto
    note tr = tree_okD [OF parts(4) x(1)]
    show "distinct (kids n')" using tr(1) x(2) gk by simp
    show "is_virtual_clock (clk n') = (parent n' \<noteq> None)" using tr(3) x(3) by (simp add: same_ids_def)
    show "parent n' = None" if "kids n' \<noteq> []"
      using that tr(2) x gk by (auto simp: same_ids_def)
    show "nodes ?u q \<noteq> None" if "plugged b ?u" "parent n' = Some q" for q
      using that tr(5) [of q] x(3) removes_there [OF rm, of q] by (auto simp: removes_plugged [OF rm] same_ids_def)
    show "j \<in> set (kids n') \<longleftrightarrow> (\<exists>m. nodes ?u j = Some m \<and> plugged j ?u \<and> parent m = Some b)" for j
    proof -
      have "(\<exists>m. nodes ?u j = Some m \<and> parent m = Some b) \<longleftrightarrow> (\<exists>m. nodes w j = Some m \<and> parent m = Some b)"
        by (rule removes_ex [OF rm])
      then show ?thesis using tr(4) [of j] removes_plugged [OF rm, of j] x(2) gk n by auto
    qed
  qed
  moreover have "vclocks_ok ?u"
  proof (rule vclocks_okI)
    fix b n' q
    assume b: "nodes ?u b = Some n'" "plugged b ?u" "parent n' = Some q"
    from removes_Some [OF rm b(1)] obtain x where x: "nodes w b = Some x" "same_ids n' x" by auto
    then show "\<exists>v vc. drv (clk n') = Vclk v \<and> vclocks ?u v = Some vc \<and> vc_clock vc = b"
      using vclocks_okD1 [OF parts(5) x(1), of q] b(2,3) by (simp add: removes_plugged [OF rm] vcs same_ids_def)
  next
    fix v vc
    assume "vclocks ?u v = Some vc"
    from vclocks_okD2 [OF parts(5) this [unfolded vcs]] obtain x where x: "nodes w (vc_clock vc) = Some x" "drv (clk x) = Vclk v"
      "plugged (vc_clock vc) w" "parent x = Some (vc_pclock vc)" by auto
    then have "vc_clock vc \<noteq> a" using n(1,3) by auto
    then show "\<exists>n. nodes ?u (vc_clock vc) = Some n \<and> drv (clk n) = Vclk v \<and> plugged (vc_clock vc) ?u \<and> parent n = Some (vc_pclock vc)"
      using removes_there [OF rm x(1)] x by (simp add: removes_plugged [OF rm] same_ids_def)
  qed
  moreover have "hash_ok ?u"
  proof -
    have "(\<exists>m. nodes ?u b = Some m \<and> ptp_index (clk m) mod HASH_SIZE = i) \<longleftrightarrow> (\<exists>m. nodes w b = Some m \<and> ptp_index (clk m) mod HASH_SIZE = i)" for b i
      by (rule removes_ex [OF rm])
    then show ?thesis using parts(6) by (simp add: hash_ok_def vcs) (simp add: unplug_def)
  qed
  ultimately show ?thesis
    unfolding sys_pre_def using removes_idx [OF rm parts(1)] removes_own [OF rm parts(2) n(2)] by blast
qed

end
