(* ===== verification/Ptp_Life.thy ===== *)
theory Ptp_Life
  imports Ptp_System
begin

text \<open>
  The life of clocks: what unregistering a clock does to the system, and that registration, opening and
  closing keep the invariant of \<open>Ptp_System\<close>.
\<close>

section \<open>A virtual clock is unregistered\<close>

lemma settle_vclocks: "(settle a w)\<lparr>vclocks := f\<rparr> = settle a (w\<lparr>vclocks := f\<rparr>)"
  by (simp add: settle_def without_def split: option.split)

lemma forget_parts [simp]:
  "idx_ok (forget v w) = idx_ok w" "own_ok (forget v w) = own_ok w" "refs_ok (forget v w) = refs_ok w"
  by (simp_all add: forget_def idx_ok_def own_ok_def refs_ok_def plugged_def)

lemma vclocks_parts:
  "idx_ok (w\<lparr>vclocks := f\<rparr>) = idx_ok w" "own_ok (w\<lparr>vclocks := f\<rparr>) = own_ok w" "refs_ok (w\<lparr>vclocks := f\<rparr>) = refs_ok w"
  by (simp_all add: idx_ok_def own_ok_def refs_ok_def plugged_def)

lemma set_node_vclocks: "set_node a n (w\<lparr>vclocks := f\<rparr>) = (set_node a n w)\<lparr>vclocks := f\<rparr>"
  by (simp add: set_node_def)

text \<open>A clock that is in the device model owns its character device, and its worker and PPS source if it has them.\<close>

lemma plugged_owns:
  assumes "own_ok w" and "nodes w a = Some n" and "plugged a w"
  shows "p_kworker n \<Longrightarrow> (a, R_kworker) \<in> objs w" and "p_pps n \<Longrightarrow> (a, R_pps) \<in> objs w" and "(a, R_chardev) \<in> objs w"
  using own_plugged [OF assms] by (auto simp: busy_own_def opt_def)

lemma free_busy:
  assumes "own_ok w" and "nodes w a = Some n" and "plugged a w" and "objs w' = objs w"
  shows "andthen (free_if (p_kworker n) a R_kworker w') (\<lambda>w. andthen (free_if (p_pps n) a R_pps w) (free_obj a R_chardev))
    = Ok (w'\<lparr>objs := objs w - Pair a ` busy_own n\<rparr>)"
proof -
  note owns = plugged_owns [OF assms(1-3)]
  have "objs w - Pair a ` busy_own n
      = objs w - (if p_kworker n then {(a, R_kworker)} else {}) - (if p_pps n then {(a, R_pps)} else {}) - {(a, R_chardev)}"
    by (auto simp: busy_own_def opt_def)
  then show ?thesis
    using owns assms(4) by (simp add: free_if_def free_obj_def)
qed

text \<open>The part of \<open>ptp_clock_unregister\<close> after the virtual clocks, up to the last reference.\<close>

lemma unregister_rest_eq:
  assumes "own_ok w" and "nodes w a = Some n" and "plugged a w"
  shows "unregister_rest a w =
    andthen (case parent n of
               None \<Rightarrow> Ok (w\<lparr>nodes := (nodes w)(a \<mapsto> n\<lparr>clk := (clk n)\<lparr>defunct := True\<rparr>\<rparr>), objs := objs w - Pair a ` busy_own n\<rparr>)
             | Some p \<Rightarrow>
                 let w = w\<lparr>nodes := (nodes w)(a \<mapsto> n\<lparr>clk := (clk n)\<lparr>defunct := True\<rparr>\<rparr>), objs := objs w - Pair a ` busy_own n\<rparr>
                 in andthen (node p w) (\<lambda>m. put_clock p (set_node p (m\<lparr>kids := remove1 a (kids m)\<rparr>) w)))
      (put_clock a)"
proof -
  define w' where "w' = set_node a (n\<lparr>clk := (clk n)\<lparr>defunct := True\<rparr>\<rparr>) w"
  have objs: "objs w' = objs w" by (simp add: w'_def set_node_def)
  have node: "node a x = Ok (n\<lparr>clk := (clk n)\<lparr>defunct := True\<rparr>\<rparr>)" if "nodes x = nodes w'" for x :: "('a, 'b) ptp_core"
    using that by (simp add: w'_def set_node_def node_def)
  have keep: "nodes y = nodes x" if "free_if b a r x = Ok y" for b r and x y :: "('a, 'b) ptp_core"
    using that by (auto simp: free_if_def free_obj_def split: if_splits)
  define last where "last = (\<lambda>w. andthen (case parent n of
                None \<Rightarrow> Ok w
              | Some p \<Rightarrow> andthen (node p w) (\<lambda>m. put_clock p (set_node p (m\<lparr>kids := remove1 a (kids m)\<rparr>) w)))
      (put_clock a :: ('a, 'b) ptp_core \<Rightarrow> ('a, 'b) ptp_core res))"
  have posix: "posix_clock_unregister a x = andthen (free_obj a R_chardev x) last" if "nodes x = nodes w'" for x
    by (simp add: posix_clock_unregister_def node [OF that] last_def)
  have "andthen (free_if (p_kworker n) a R_kworker w') (\<lambda>w. andthen (free_if (p_pps n) a R_pps w) (posix_clock_unregister a))
    = andthen (andthen (free_if (p_kworker n) a R_kworker w')
        (\<lambda>w. andthen (free_if (p_pps n) a R_pps w) (free_obj a R_chardev))) last"
  proof (cases "free_if (p_kworker n) a R_kworker w'")
    case (Ok x)
    show ?thesis
    proof (cases "free_if (p_pps n) a R_pps x")
      case Ok': (Ok y)
      then have "nodes y = nodes w'" using keep [OF Ok] keep [OF Ok'] by simp
      then show ?thesis using Ok Ok' posix by simp
    qed (use Ok in simp_all)
  qed simp_all
  then have "unregister_rest a w = andthen (andthen (free_if (p_kworker n) a R_kworker w')
      (\<lambda>w. andthen (free_if (p_pps n) a R_pps w) (free_obj a R_chardev))) last"
    using assms(2) by (simp add: unregister_rest_def node_def [of a w] Let_def w'_def)
  then show ?thesis
    unfolding free_busy [OF assms objs] by (simp add: w'_def set_node_def last_def Let_def split: option.split)
qed

lemma ids_parts:
  assumes "sys_ok w"
  shows "idx_ok w" "own_ok w" "refs_ok w" "tree_ok w" "vclocks_ok w" "hash_ok w" "live_ok w" "sys_pre w"
  using assms by (simp_all add: sys_ok_def sys_pre_def)

lemma virtual_clock_leaf:
  assumes "kids m = []" and "nodes w k = Some m"
  shows "clock_unregister (\<lambda>k w. Fault) intr k w = unregister_rest k w"
  using assms by (simp add: clock_unregister_def node_def)

lemma hash_del_parts [simp]:
  "own_ok (ptp_vclock_hash_del v w) = own_ok w" "nodes (ptp_vclock_hash_del v w) = nodes w" "objs (ptp_vclock_hash_del v w) = objs w"
  "plugged a (ptp_vclock_hash_del v w) = plugged a w" "vclocks (ptp_vclock_hash_del v w) = vclocks w"
  by (simp_all add: ptp_vclock_hash_del_def own_ok_def plugged_def)

lemma unregister_vclock_run:
  assumes ok: "sys_ok w" and p: "nodes w p = Some pn" and pp: "plugged p w" and k: "k \<in> set (kids pn)"
  shows "\<exists>m v. nodes w k = Some m \<and> drv (clk m) = Vclk v
    \<and> unregister_vclock intr k w = Ok (settle k (forget v (unplug k m (leave k p pn w))))"
proof -
  note parts = ids_parts [OF ok]
  obtain m where m: "nodes w k = Some m" using tree_okD(4) [OF parts(4) p, of k] k by auto
  note child = child [OF parts(4) p m k]
  obtain v vc where v: "drv (clk m) = Vclk v" "vclocks w v = Some vc" "vc_clock vc = k"
    using vclocks_okD1 [OF parts(5) m child(1,2)] by auto
  have rp: "refs pn = Suc (length (kids pn) + length (tl (tsevqs (clk pn))))"
    using refs_okD [OF parts(3) p] pp by simp
  have rm: "refs m \<noteq> 0" using parts(7) m by (simp add: live_ok_def)
  let ?d = "ptp_vclock_hash_del v w"
  let ?m' = "m\<lparr>clk := (clk m)\<lparr>defunct := True\<rparr>\<rparr>" and ?pn' = "pn\<lparr>kids := remove1 k (kids pn), refs := refs pn - 1\<rparr>"
  define x where "x = ?d\<lparr>objs := objs w - Pair k ` busy_own m, nodes := (nodes w)(k \<mapsto> ?m', p \<mapsto> ?pn')\<rparr>"
  have put_p: "put_clock p (set_node p (pn\<lparr>kids := remove1 k (kids pn)\<rparr>)
      (?d\<lparr>nodes := (nodes w)(k \<mapsto> ?m'), objs := objs w - Pair k ` busy_own m\<rparr>)) = Ok x"
    using rp k child(4) by (cases "kids pn") (auto simp: put_clock_def node_def set_node_def x_def)
  define u where "u = forget v (unplug k m (leave k p pn w))"
  have pre: "sys_pre u" unfolding u_def by (rule unplug_virtual_pre [OF parts(8) p m k v(1)])
  have forgot: "u = set_node k (?m'\<lparr>refs := refs ?m' - 1\<rparr>) (x\<lparr>vclocks := (vclocks w)(v := None)\<rparr>)"
    using child(4) by (simp add: u_def forget_def unplug_def leave_def set_node_def x_def ptp_vclock_hash_del_def fun_upd_twist)
  have xk: "nodes x k = Some ?m'" using child(4) by (simp add: x_def)
  have put_k: "put_clock k x = Ok (settle k (set_node k (?m'\<lparr>refs := refs ?m' - 1\<rparr>) x))"
  proof (rule put_clock_settles [OF xk])
    have "idx_ok u" "own_ok u" "refs_ok u" using pre by (simp_all add: sys_pre_def)
    then show "idx_ok (set_node k (?m'\<lparr>refs := refs ?m' - 1\<rparr>) x)" "own_ok (set_node k (?m'\<lparr>refs := refs ?m' - 1\<rparr>) x)"
      "refs_ok (set_node k (?m'\<lparr>refs := refs ?m' - 1\<rparr>) x)"
      by (simp_all only: forgot set_node_vclocks vclocks_parts)
  qed (use rm in simp)
  have rest: "unregister_rest k ?d = Ok (settle k (set_node k (?m'\<lparr>refs := refs ?m' - 1\<rparr>) x))"
    using parts(2) m child(1,2,4) p put_p put_k
    by (simp add: unregister_rest_eq [of ?d k m] Let_def node_def)
  have "unregister_vclock intr k w = Ok ((settle k (set_node k (?m'\<lparr>refs := refs ?m' - 1\<rparr>) x))\<lparr>vclocks := (vclocks w)(v := None)\<rparr>)"
  proof -
    have "vclocks (settle k (set_node k (?m'\<lparr>refs := refs ?m' - 1\<rparr>) x)) = vclocks w"
      by (simp add: settle_def without_def set_node_def x_def split: option.split)
    then show ?thesis
      using v m child(3) rest
      by (simp add: unregister_vclock_def info_to_vclock_def node_def ptp_vclock_unregister_def virtual_clock_leaf)
  qed
  also have "(settle k (set_node k (?m'\<lparr>refs := refs ?m' - 1\<rparr>) x))\<lparr>vclocks := (vclocks w)(v := None)\<rparr> = settle k u"
    unfolding settle_vclocks forgot set_node_vclocks ..
  finally show ?thesis using m v(1) by (auto simp: u_def)
qed

section \<open>A clock is unregistered\<close>

text \<open>The clock has no open files.\<close>

definition no_files :: "nat \<Rightarrow> ('d, 'v) ptp_core \<Rightarrow> bool" where
  "no_files a w \<longleftrightarrow> (\<forall>n. nodes w a = Some n \<longrightarrow> length (tsevqs (clk n)) \<le> 1)"

text \<open>
  What becomes of a set of clocks that are taken out: none is in the device model, those without open
  files are gone, and the others stay for their files.
\<close>

definition taken_out :: "nat set \<Rightarrow> ('d, 'v) ptp_core \<Rightarrow> ('d, 'v) ptp_core \<Rightarrow> bool" where
  "taken_out A w w' \<longleftrightarrow> (\<forall>b \<in> A. \<not> plugged b w' \<and> (nodes w' b = None \<longleftrightarrow> no_files b w))
     \<and> (\<forall>b. b \<notin> A \<longrightarrow> plugged b w' = plugged b w)"

lemma settle_plugged: "plugged b (settle a w) = plugged b w"
  by (auto simp: settle_def plugged_def without_def idle_own_def opt_def split: option.split)

lemma unregister_vclock_step:
  assumes ok: "sys_ok w" and p: "nodes w p = Some pn" and pp: "plugged p w" and k: "k \<in> set (kids pn)"
  shows "\<exists>w'. unregister_vclock intr k w = Ok w' \<and> sys_ok w' \<and> taken_out {k} w w'
    \<and> nodes w' p = Some (pn\<lparr>kids := remove1 k (kids pn), refs := refs pn - 1\<rparr>)
    \<and> (\<forall>b. b \<noteq> p \<longrightarrow> b \<noteq> k \<longrightarrow> nodes w' b = nodes w b)"
proof -
  note parts = ids_parts [OF ok]
  obtain m v where m: "nodes w k = Some m" "drv (clk m) = Vclk v"
    and run: "unregister_vclock intr k w = Ok (settle k (forget v (unplug k m (leave k p pn w))))"
    using unregister_vclock_run [OF assms] by blast
  let ?u = "forget v (unplug k m (leave k p pn w))"
  note child = child [OF parts(4) p m(1) k]
  have pre: "sys_pre ?u" by (rule unplug_virtual_pre [OF parts(8) p m(1) k m(2)])
  have uk: "nodes ?u k = Some (m\<lparr>clk := (clk m)\<lparr>defunct := True\<rparr>, refs := refs m - 1\<rparr>)"
    and up: "nodes ?u p = Some (pn\<lparr>kids := remove1 k (kids pn), refs := refs pn - 1\<rparr>)"
    and uo: "\<And>b. b \<noteq> k \<Longrightarrow> b \<noteq> p \<Longrightarrow> nodes ?u b = nodes w b"
    using child(4) by (auto simp: forget_def unplug_def leave_def set_node_def)
  have plug: "plugged b ?u \<longleftrightarrow> plugged b w \<and> b \<noteq> k" for b
    by (rule removes_plugged [OF virtual_removes [OF p m(1) child(4)]])
  have ne: "kids pn \<noteq> []" using k by auto
  have rp: "refs pn - 1 \<noteq> 0" using refs_okD [OF parts(3) p] pp ne by simp
  have rm: "refs m = 1 + length (tl (tsevqs (clk m)))" using refs_okD [OF parts(3) m(1)] child by simp
  have live: "refs n \<noteq> 0" if "nodes ?u b = Some n" "b \<noteq> k" for b n
    using that up uo [of b] rp parts(7) by (cases "b = p") (auto simp: live_ok_def)
  have "sys_ok (settle k ?u)" by (rule settle_ok [OF pre]) (rule live)
  moreover have "taken_out {k} w (settle k ?u)"
    using uk rm m(1) by (simp add: taken_out_def settle_plugged plug settle_nodes no_files_def)
  moreover have "nodes (settle k ?u) p = Some (pn\<lparr>kids := remove1 k (kids pn), refs := refs pn - 1\<rparr>)"
    using up child(4) by (simp add: settle_nodes)
  moreover have "nodes (settle k ?u) b = nodes w b" if "b \<noteq> p" "b \<noteq> k" for b
    using that uo by (simp add: settle_nodes)
  ultimately show ?thesis using run by blast
qed

lemma unregister_some:
  assumes "sys_ok w" and "nodes w p = Some pn" and "plugged p w" and "distinct ks" and "set ks \<subseteq> set (kids pn)"
  shows "\<exists>w'. each (unregister_vclock intr) ks w = Ok w' \<and> sys_ok w' \<and> taken_out (set ks) w w'
    \<and> (\<exists>n. nodes w' p = Some n \<and> kids n = filter (\<lambda>k. k \<notin> set ks) (kids pn) \<and> clk n = clk pn \<and> parent n = parent pn)
    \<and> (\<forall>b. b \<noteq> p \<longrightarrow> b \<notin> set ks \<longrightarrow> nodes w' b = nodes w b)"
  using assms
proof (induction ks arbitrary: w pn)
  case Nil
  then show ?case by (auto simp: taken_out_def)
next
  case (Cons k ks)
  note tree = ids_parts(4) [OF Cons.prems(1)]
  have k: "k \<in> set (kids pn)" and d: "k \<notin> set ks" using Cons.prems(4,5) by simp_all
  have dk: "distinct (kids pn)" by (rule tree_okD(1) [OF tree Cons.prems(2)])
  have p: "p \<notin> set (kids pn)" using child(4) [OF tree Cons.prems(2) Cons.prems(2)] by blast
  from unregister_vclock_step [OF Cons.prems(1-3) k] obtain w1 where w1: "unregister_vclock intr k w = Ok w1" "sys_ok w1"
    "taken_out {k} w w1" "nodes w1 p = Some (pn\<lparr>kids := remove1 k (kids pn), refs := refs pn - 1\<rparr>)"
    "\<And>b. b \<noteq> p \<Longrightarrow> b \<noteq> k \<Longrightarrow> nodes w1 b = nodes w b" by blast
  have rm: "remove1 k (kids pn) = filter (\<lambda>x. x \<noteq> k) (kids pn)" using dk by (auto simp: distinct_remove1_removeAll removeAll_filter_not_eq intro: filter_cong)
  have "distinct ks" "set ks \<subseteq> set (kids (pn\<lparr>kids := remove1 k (kids pn), refs := refs pn - 1\<rparr>))"
    using Cons.prems(4,5) d by (auto simp: rm)
  moreover have "plugged p w1" using w1(3) Cons.prems(3) p k by (auto simp: taken_out_def)
  ultimately obtain w' n where w': "each (unregister_vclock intr) ks w1 = Ok w'" "sys_ok w'" "taken_out (set ks) w1 w'"
    "nodes w' p = Some n" "kids n = filter (\<lambda>k. k \<notin> set ks) (remove1 k (kids pn))" "clk n = clk pn" "parent n = parent pn"
    "\<And>b. b \<noteq> p \<Longrightarrow> b \<notin> set ks \<Longrightarrow> nodes w' b = nodes w1 b"
    using Cons.IH [OF w1(2,4)] by auto
  have "kids n = filter (\<lambda>x. x \<notin> set (k # ks)) (kids pn)"
    unfolding w'(5) rm filter_filter by (rule filter_cong) auto
  moreover have "nodes w' k = nodes w1 k" using w'(8) [of k] d p k by auto
  moreover have "no_files b w1 = no_files b w" if "b \<in> set ks" for b
  proof -
    have "b \<noteq> p" "b \<noteq> k" using that d p Cons.prems(5) by auto
    then show ?thesis using w1(5) by (simp add: no_files_def)
  qed
  ultimately have "taken_out (set (k # ks)) w w' \<and> kids n = filter (\<lambda>x. x \<notin> set (k # ks)) (kids pn)"
    using w1(3) w'(3) d by (auto simp: taken_out_def)
  then show ?case using w1 w' by auto
qed

lemma unregister_vclocks:
  assumes "sys_ok w" and "nodes w p = Some pn" and "plugged p w" and "kids pn = ks"
  shows "\<exists>w'. each (unregister_vclock intr) ks w = Ok w' \<and> sys_ok w' \<and> taken_out (set ks) w w'
    \<and> (\<exists>n. nodes w' p = Some n \<and> kids n = [] \<and> clk n = clk pn \<and> parent n = parent pn)
    \<and> (\<forall>b. b \<noteq> p \<longrightarrow> b \<notin> set ks \<longrightarrow> nodes w' b = nodes w b)"
proof -
  have "distinct ks" using tree_okD(1) [OF ids_parts(4) [OF assms(1)] assms(2)] assms(4) by simp
  from unregister_some [OF assms(1-3) this, of intr] assms(4) show ?thesis by simp
qed

text \<open>A physical clock itself: virtual clocks that it still has keep it in memory.\<close>

lemma unregister_physical:
  assumes ok: "sys_ok w" and n: "nodes w a = Some n" "plugged a w" "parent n = None"
  shows "\<exists>w'. unregister_rest a w = Ok w' \<and> sys_ok w' \<and> (\<forall>b. plugged b w' \<longleftrightarrow> plugged b w \<and> b \<noteq> a)
    \<and> (nodes w' a = None \<longleftrightarrow> kids n = [] \<and> no_files a w) \<and> (\<forall>b. b \<noteq> a \<longrightarrow> nodes w' b = nodes w b)"
proof -
  note parts = ids_parts [OF ok]
  let ?m = "n\<lparr>clk := (clk n)\<lparr>defunct := True\<rparr>\<rparr>"
  define x where "x = w\<lparr>nodes := (nodes w)(a \<mapsto> ?m), objs := objs w - Pair a ` busy_own n\<rparr>"
  have r: "refs n = 1 + length (kids n) + length (tl (tsevqs (clk n)))" using refs_okD [OF parts(3) n(1)] n by simp
  have u: "set_node a (?m\<lparr>refs := refs ?m - 1\<rparr>) x = unplug a n w"
    by (simp add: x_def set_node_def unplug_def)
  have pre: "sys_pre (unplug a n w)" by (rule unplug_physical_pre [OF parts(8) n])
  have "put_clock a x = Ok (settle a (set_node a (?m\<lparr>refs := refs ?m - 1\<rparr>) x))"
  proof (rule put_clock_settles)
    show "nodes x a = Some ?m" by (simp add: x_def)
    show "refs ?m \<noteq> 0" using r by simp
  qed (use pre u in \<open>simp_all add: sys_pre_def\<close>)
  then have put: "put_clock a x = Ok (settle a (unplug a n w))" by (simp only: u)
  have "unregister_rest a w = Ok (settle a (unplug a n w))"
    using n(3) put by (simp add: unregister_rest_eq [OF parts(2) n(1,2)] x_def)
  moreover have "sys_ok (settle a (unplug a n w))"
    by (rule settle_ok [OF pre]) (use parts(7) in \<open>auto simp: live_ok_def unplug_def\<close>)
  moreover have "plugged b (settle a (unplug a n w)) \<longleftrightarrow> plugged b w \<and> b \<noteq> a" for b
    unfolding settle_plugged by (auto simp: plugged_def unplug_def busy_own_def)
  moreover have "nodes (settle a (unplug a n w)) a = None \<longleftrightarrow> kids n = [] \<and> no_files a w"
    using r n(1) by (simp add: settle_nodes no_files_def) (simp add: unplug_def)
  moreover have "nodes (settle a (unplug a n w)) b = nodes w b" if "b \<noteq> a" for b
    using that by (simp add: settle_nodes) (simp add: unplug_def)
  ultimately show ?thesis by (intro exI [of _ "settle a (unplug a n w)"]) simp
qed

text \<open>
  Unregistering a physical clock removes its virtual clocks first if its counter is not zero, or if a signal
  interrupts the question; otherwise they stay.
\<close>

definition removed_kids :: "(nat \<Rightarrow> bool) \<Rightarrow> nat \<Rightarrow> 'd ptp_node \<Rightarrow> nat list" where
  "removed_kids intr a n = (if n_vclocks (clk n) \<noteq> 0 \<or> intr a then kids n else [])"

lemma clock_unregister_result:
  assumes ok: "sys_ok w" and n: "nodes w a = Some n" "plugged a w" "parent n = None"
  shows "\<exists>w'. ptp_clock_unregister intr a w = Ok w' \<and> sys_ok w'
    \<and> (\<forall>b \<in> set (removed_kids intr a n). nodes w' b = None \<longleftrightarrow> no_files b w)
    \<and> (\<forall>b. plugged b w' \<longleftrightarrow> plugged b w \<and> b \<notin> insert a (set (removed_kids intr a n)))
    \<and> (nodes w' a = None \<longleftrightarrow> removed_kids intr a n = kids n \<and> no_files a w)
    \<and> (\<forall>b. b \<notin> insert a (set (removed_kids intr a n)) \<longrightarrow> nodes w' b = nodes w b)"
proof -
  note parts = ids_parts [OF ok]
  let ?ks = "removed_kids intr a n"
  have virt: "\<not> is_virtual_clock (clk n)" using tree_okD(3) [OF parts(4) n(1)] n(3) by simp
  have "(if ptp_vclock_in_use (intr a) (clk n) then each (unregister_vclock intr) (kids n) w else Ok w) = each (unregister_vclock intr) ?ks w"
    using virt by (auto simp: ptp_vclock_in_use_def removed_kids_def)
  then have run: "ptp_clock_unregister intr a w = andthen (each (unregister_vclock intr) ?ks w) (unregister_rest a)"
    using n(1) by (simp add: ptp_clock_unregister_def clock_unregister_def node_def)
  have ks: "distinct ?ks" "set ?ks \<subseteq> set (kids n)"
    using tree_okD(1) [OF parts(4) n(1)] by (auto simp: removed_kids_def)
  from unregister_some [OF ok n(1,2) ks, of intr] obtain w1 m where w1: "each (unregister_vclock intr) ?ks w = Ok w1" "sys_ok w1"
    "taken_out (set ?ks) w w1" "nodes w1 a = Some m" "kids m = filter (\<lambda>k. k \<notin> set ?ks) (kids n)" "clk m = clk n" "parent m = parent n"
    "\<And>b. b \<noteq> a \<Longrightarrow> b \<notin> set ?ks \<Longrightarrow> nodes w1 b = nodes w b" by blast
  have "a \<notin> set (kids n)" using child(4) [OF parts(4) n(1) n(1)] by blast
  then have a: "a \<notin> set ?ks" using ks(2) by blast
  have "plugged a w1" using w1(3) a n(2) by (simp add: taken_out_def)
  have "parent m = None" using w1(7) n(3) by simp
  from unregister_physical [OF w1(2,4) \<open>plugged a w1\<close> this] obtain w' where w': "unregister_rest a w1 = Ok w'" "sys_ok w'"
    "\<And>b. plugged b w' \<longleftrightarrow> plugged b w1 \<and> b \<noteq> a" "nodes w' a = None \<longleftrightarrow> kids m = [] \<and> no_files a w1"
    "\<And>b. b \<noteq> a \<Longrightarrow> nodes w' b = nodes w1 b" by metis
  have kept: "kids m = [] \<longleftrightarrow> ?ks = kids n"
    unfolding w1(5) by (cases "n_vclocks (clk n) \<noteq> 0 \<or> intr a") (auto simp: removed_kids_def)
  have "no_files a w1 = no_files a w" using w1(4,6) n(1) by (simp add: no_files_def)
  then have gone: "nodes w' a = None \<longleftrightarrow> ?ks = kids n \<and> no_files a w" using w'(4) kept by simp
  have "plugged b w' \<longleftrightarrow> plugged b w \<and> b \<notin> insert a (set ?ks)" for b
    using w1(3) w'(3) by (auto simp: taken_out_def)
  moreover have "nodes w' b = None \<longleftrightarrow> no_files b w" if "b \<in> set ?ks" for b
  proof -
    have "b \<noteq> a" using that a by blast
    then show ?thesis using that w1(3) w'(5) by (simp add: taken_out_def)
  qed
  ultimately show ?thesis using run w1 w' gone by auto
qed

lemma clock_unregister_run:
  assumes ok: "sys_ok w" and n: "nodes w a = Some n" "plugged a w" "parent n = None"
    and counted: "kids n \<noteq> [] \<Longrightarrow> n_vclocks (clk n) \<noteq> 0 \<or> intr a"
  shows "\<exists>w'. ptp_clock_unregister intr a w = Ok w' \<and> sys_ok w' \<and> taken_out (insert a (set (kids n))) w w'
    \<and> (\<forall>b. b \<notin> insert a (set (kids n)) \<longrightarrow> nodes w' b = nodes w b)"
proof -
  have "removed_kids intr a n = kids n" using counted by (cases "kids n = []") (auto simp: removed_kids_def)
  with clock_unregister_result [OF assms(1-4), of intr] obtain w' where w': "ptp_clock_unregister intr a w = Ok w'" "sys_ok w'"
    "\<And>b. b \<in> set (kids n) \<Longrightarrow> nodes w' b = None \<longleftrightarrow> no_files b w" "\<And>b. plugged b w' \<longleftrightarrow> plugged b w \<and> b \<notin> insert a (set (kids n))" "nodes w' a = None \<longleftrightarrow> no_files a w"
    "\<And>b. b \<notin> insert a (set (kids n)) \<Longrightarrow> nodes w' b = nodes w b" by auto
  moreover have "taken_out (insert a (set (kids n))) w w'"
    using w'(3-5) by (auto simp: taken_out_def)
  ultimately show ?thesis by blast
qed

section \<open>A clock is registered\<close>

definition grow :: "nat option \<Rightarrow> nat \<Rightarrow> nat \<Rightarrow> 'd ptp_node \<Rightarrow> 'd ptp_node" where
  "grow pdev a b n = (if pdev = Some b then n\<lparr>refs := refs n + 1, kids := kids n @ [a]\<rparr> else n)"

lemma grow_ids: "same_ids (grow pdev a b n) n"
  by (simp add: same_ids_def grow_def idle_own_def busy_own_def)

definition adds :: "nat option \<Rightarrow> nat \<Rightarrow> 'd ptp_node \<Rightarrow> ('d, 'v) ptp_core \<Rightarrow> ('d, 'v) ptp_core \<Rightarrow> bool" where
  "adds pdev a n w u \<longleftrightarrow> nodes w a = None \<and> (\<forall>b. nodes u b = (if b = a then Some n else map_option (grow pdev a b) (nodes w b)))
     \<and> xa_load (clocks_map w) (ptp_index (clk n)) = None
     \<and> clocks_map u = xa_store (ptp_index (clk n)) a (clocks_map w)
     \<and> objs u = Pair a ` (idle_own n \<union> busy_own n) \<union> objs w
     \<and> tsevqs (clk n) = [(0, new_queue)] \<and> refs n = 1 \<and> kids n = [] \<and> parent n = pdev \<and> is_virtual_clock (clk n) = (pdev \<noteq> None)
     \<and> (\<forall>p. pdev = Some p \<longrightarrow> (\<exists>pn. nodes w p = Some pn \<and> plugged p w \<and> parent pn = None))"

lemma adds_plugged: "adds pdev a n w u \<Longrightarrow> plugged b u \<longleftrightarrow> b = a \<or> plugged b w"
  by (auto simp: adds_def plugged_def busy_own_def)

lemma adds_Some:
  "adds pdev a n w u \<Longrightarrow> nodes u b = Some n' \<Longrightarrow> b \<noteq> a \<Longrightarrow> \<exists>x. nodes w b = Some x \<and> n' = grow pdev a b x \<and> same_ids n' x"
  using grow_ids by (auto simp: adds_def)

lemma adds_there:
  "adds pdev a n w u \<Longrightarrow> nodes w b = Some x \<Longrightarrow> b \<noteq> a \<and> nodes u b = Some (grow pdev a b x) \<and> same_ids (grow pdev a b x) x"
  using grow_ids by (auto simp: adds_def)

lemma adds_ex:
  assumes "adds pdev a n w u" and "b \<noteq> a"
  shows "(\<exists>n. nodes u b = Some n \<and> P (parent n) (ptp_index (clk n))) \<longleftrightarrow> (\<exists>n. nodes w b = Some n \<and> P (parent n) (ptp_index (clk n)))"
proof -
  have "nodes u b = map_option (grow pdev a b) (nodes w b)" using assms by (simp add: adds_def)
  then show ?thesis by (cases "nodes w b") (simp_all add: grow_ids [unfolded same_ids_def])
qed

lemma adds_new: "adds pdev a n w u \<Longrightarrow> nodes u a = Some n"
  by (simp add: adds_def)

lemma adds_idx:
  assumes ad: "adds pdev a n w u" and idx: "idx_ok w"
  shows "idx_ok u"
proof -
  let ?i = "ptp_index (clk n)"
  have ok: "xa_ok (clocks_map w)" using idx by (simp add: idx_ok_def)
  have u: "clocks_map u = xa_store ?i a (clocks_map w)" "xa_load (clocks_map w) ?i = None" using ad by (simp_all add: adds_def)
  have "xa_load (clocks_map u) j = Some b \<longleftrightarrow> (\<exists>m. nodes u b = Some m \<and> ptp_index (clk m) = j)" for j b
  proof (cases "b = a")
    case True
    have "xa_load (clocks_map w) j \<noteq> Some a"
      using idx ad by (auto simp: idx_ok_def adds_def)
    then show ?thesis using True adds_new [OF ad] u by (auto simp: xa_load_store [OF ok])
  next
    case False
    have old: "xa_load (clocks_map w) j = Some b \<longleftrightarrow> (\<exists>m. nodes w b = Some m \<and> ptp_index (clk m) = j)"
      using idx by (simp only: idx_ok_def)
    have "(\<exists>m. nodes u b = Some m \<and> ptp_index (clk m) = j) \<longleftrightarrow> (\<exists>m. nodes w b = Some m \<and> ptp_index (clk m) = j)"
      by (rule adds_ex [OF ad False])
    moreover have "xa_load (clocks_map u) j = Some b \<longleftrightarrow> xa_load (clocks_map w) j = Some b"
      using u False by (auto simp: xa_load_store [OF ok])
    ultimately show ?thesis using old by simp
  qed
  then show ?thesis using u(1) ok by (simp add: idx_ok_def xa_ok_store)
qed

lemma own_none: "own_ok w \<Longrightarrow> nodes w a = None \<Longrightarrow> (a, r) \<notin> objs w"
  by (simp add: own_ok_def)

lemma adds_own:
  assumes ad: "adds pdev a n w u" and own: "own_ok w"
  shows "own_ok u"
  unfolding own_ok_def adds_plugged [OF ad]
proof (intro allI)
  fix b r
  have none: "(a, r) \<notin> objs w" by (rule own_none [OF own]) (use ad in \<open>simp add: adds_def\<close>)
  have objs: "(b, r) \<in> objs u \<longleftrightarrow> b = a \<and> (r \<in> idle_own n \<or> r \<in> busy_own n) \<or> (b, r) \<in> objs w"
    using ad by (auto simp: adds_def)
  show "(b, r) \<in> objs u \<longleftrightarrow> (\<exists>n. nodes u b = Some n \<and> (r \<in> idle_own n \<or> (b = a \<or> plugged b w) \<and> r \<in> busy_own n))"
  proof (cases "b = a")
    case True
    then show ?thesis using objs none adds_new [OF ad] by simp
  next
    case False
    have old: "(b, r) \<in> objs w \<longleftrightarrow> (\<exists>n. nodes w b = Some n \<and> (r \<in> idle_own n \<or> plugged b w \<and> r \<in> busy_own n))"
      using own by (simp only: own_ok_def)
    have "nodes u b = map_option (grow pdev a b) (nodes w b)" using ad False by (simp add: adds_def)
    then show ?thesis
      using objs False old grow_ids [of pdev a b] by (auto simp: same_ids_def)
  qed
qed

lemma adds_refs:
  assumes ad: "adds pdev a n w u" and ok: "refs_ok w" "live_ok w"
  shows "refs_ok u" and "live_ok u"
proof -
  have new: "queues_ok (clk n) \<and> refs n = 1 \<and> kids n = [] \<and> tl (tsevqs (clk n)) = []"
    using ad by (simp add: adds_def queues_ok_def)
  have old: "queues_ok (clk n') \<and> refs n' = of_bool (plugged b w) + length (kids n') + length (tl (tsevqs (clk n'))) \<and> refs n' \<noteq> 0"
    if b: "nodes u b = Some n'" "b \<noteq> a" for b n'
  proof -
    obtain x where x: "nodes w b = Some x" "n' = grow pdev a b x" "same_ids n' x" using adds_Some [OF ad b] by auto
    have "refs x \<noteq> 0" using ok(2) x(1) by (simp add: live_ok_def)
    then show ?thesis
      using refs_okD [OF ok(1) x(1)] x(2) by (auto simp: grow_def)
  qed
  show "refs_ok u"
    unfolding refs_ok_def adds_plugged [OF ad]
  proof (intro allI impI)
    fix b n'
    assume "nodes u b = Some n'"
    then show "queues_ok (clk n') \<and> refs n' = of_bool (b = a \<or> plugged b w) + length (kids n') + length (tl (tsevqs (clk n')))"
      using new old [of b n'] adds_new [OF ad] by (cases "b = a") auto
  qed
  show "live_ok u"
    unfolding live_ok_def
  proof (intro allI impI)
    fix b n'
    assume "nodes u b = Some n'"
    then show "refs n' \<noteq> 0" using new old [of b n'] adds_new [OF ad] by (cases "b = a") auto
  qed
qed

lemma adds_tree:
  assumes ad: "adds pdev a n w u" and tree: "tree_ok w" and own: "own_ok w"
  shows "tree_ok u"
proof -
  have wa: "nodes w a = None" "\<not> plugged a w"
    using ad own_none [OF own] by (auto simp: adds_def plugged_def)
  have new: "kids n = []" "parent n = pdev" "is_virtual_clock (clk n) = (pdev \<noteq> None)" using ad by (simp_all add: adds_def)
  have pd: "\<exists>pn. nodes w p = Some pn \<and> plugged p w \<and> parent pn = None" if "pdev = Some p" for p
    using ad that by (simp add: adds_def)
  have not_a: "a \<notin> set (kids x)" if "nodes w b = Some x" for b x
    using tree_okD(4) [OF tree that, of a] wa by simp
  have not_par: "parent x \<noteq> Some a" if "nodes w b = Some x" "plugged b w" for b x
    using tree_okD(5) [OF tree that, of a] wa by auto
  show ?thesis
  proof (rule tree_okI)
    fix b n'
    assume b: "nodes u b = Some n'"
    show "distinct (kids n')"
      using adds_Some [OF ad b] b adds_new [OF ad] new(1) tree_okD(1) [OF tree] not_a by (cases "b = a") (auto simp: grow_def)
    show "parent n' = None" if "kids n' \<noteq> []"
    proof (cases "b = a")
      case True
      then show ?thesis using that b adds_new [OF ad] new by simp
    next
      case False
      obtain x where x: "nodes w b = Some x" "n' = grow pdev a b x" "same_ids n' x" using adds_Some [OF ad b False] by auto
      show ?thesis
      proof (cases "pdev = Some b")
        case True
        then show ?thesis using pd x by (auto simp: adds_plugged [OF ad] same_ids_def)
      next
        case False
        then show ?thesis using that x tree_okD(2) [OF tree x(1)] by (simp add: grow_def adds_plugged [OF ad])
      qed
    qed
    show "is_virtual_clock (clk n') = (parent n' \<noteq> None)"
      using adds_Some [OF ad b] b adds_new [OF ad] new tree_okD(3) [OF tree] by (cases "b = a") (auto simp: same_ids_def)
    show "nodes u q \<noteq> None" if q: "plugged b u" "parent n' = Some q" for q
    proof (cases "b = a")
      case True
      then have "pdev = Some q" using q(2) b adds_new [OF ad] new by simp
      then show ?thesis using pd adds_there [OF ad, of q] by auto
    next
      case False
      obtain x where x: "nodes w b = Some x" "same_ids n' x" using adds_Some [OF ad b False] by auto
      then have "nodes w q \<noteq> None" using tree_okD(5) [OF tree x(1), of q] q False by (simp add: adds_plugged [OF ad] same_ids_def)
      then show ?thesis using adds_there [OF ad, of q] by auto
    qed
    show "j \<in> set (kids n') \<longleftrightarrow> (\<exists>m. nodes u j = Some m \<and> plugged j u \<and> parent m = Some b)" for j
    proof (cases "j = a")
      case True
      have "a \<in> set (kids n') \<longleftrightarrow> pdev = Some b"
      proof (cases "b = a")
        case True
        then show ?thesis using b adds_new [OF ad] new pd wa by auto
      next
        case False
        obtain x where x: "nodes w b = Some x" "n' = grow pdev a b x" using adds_Some [OF ad b False] by auto
        then show ?thesis using not_a by (auto simp: grow_def)
      qed
      then show ?thesis using True adds_new [OF ad] new by (simp add: adds_plugged [OF ad])
    next
      case False
      have ex: "(\<exists>m. nodes u j = Some m \<and> parent m = Some b) \<longleftrightarrow> (\<exists>m. nodes w j = Some m \<and> parent m = Some b)"
        by (rule adds_ex [OF ad False])
      show ?thesis
      proof (cases "b = a")
        case True
        have "\<not> (\<exists>m. nodes w j = Some m \<and> plugged j w \<and> parent m = Some a)" using not_par by blast
        then show ?thesis using True b adds_new [OF ad] new ex False by (auto simp: adds_plugged [OF ad])
      next
        case ba: False
        obtain x where x: "nodes w b = Some x" "n' = grow pdev a b x" using adds_Some [OF ad b ba] by auto
        have "j \<in> set (kids n') \<longleftrightarrow> j \<in> set (kids x)" using x(2) False by (simp add: grow_def)
        then show ?thesis using tree_okD(4) [OF tree x(1), of j] ex False by (auto simp: adds_plugged [OF ad])
      qed
    qed
  qed
qed

lemma stage_adds:
  assumes "place a i w" and "own_ok w"
    and "\<And>p. pdev = Some p \<Longrightarrow> \<exists>pn. nodes w p = Some pn \<and> plugged p w \<and> parent pn = None"
  shows "adds pdev a (made pdev info i d pins) w
    (stage a i (made pdev info i d pins) (insert R_debugfs (insert R_chardev (own5 (pdev \<noteq> None) info))) (hang pdev a w))"
proof -
  let ?n = "made pdev info i d pins"
  have wa: "nodes w a = None" "xa_load (clocks_map w) i = None" using assms(1) by (simp_all add: place_def fresh_def)
  have made: "ptp_index (clk ?n) = i" "tsevqs (clk ?n) = [(0, new_queue)]" "refs ?n = 1" "kids ?n = []" "parent ?n = pdev"
    "is_virtual_clock (clk ?n) = (pdev \<noteq> None)" "p_pins ?n = (n_pins info \<noteq> 0)" "p_pps ?n = has_pps info"
    "p_kworker ?n = (do_aux_work info \<noteq> None)" "p_debugfs ?n"
    by (simp_all add: made_def Let_def split: prod.split)
  have own: "idle_own ?n \<union> busy_own ?n = insert R_debugfs (insert R_chardev (own5 (pdev \<noteq> None) info))"
    using made by (auto simp: idle_own_def busy_own_def owns opt_def)
  have hang: "nodes (hang pdev a w) b = map_option (grow pdev a b) (nodes w b)" for b
    by (cases "nodes w b") (auto simp: hang_def grow_def set_node_def split: option.split)
  have rest: "clocks_map (hang pdev a w) = clocks_map w" "objs (hang pdev a w) = objs w"
    by (simp_all add: hang_def set_node_def split: option.split)
  show ?thesis
    using assms(3) made wa own unfolding adds_def by (simp add: stage_def hang rest)
qed

lemma made_ids [simp]: "ptp_index (clk (made pdev info i d pins)) = i" "drv (clk (made pdev info i d pins)) = d"
  by (simp_all add: made_def Let_def split: prod.split)

lemma stage_vclocks [simp]:
  "vclocks (stage a i n R (hang pdev a w)) = vclocks w" "vclock_hash (stage a i n R (hang pdev a w)) = vclock_hash w"
  by (simp_all add: stage_def hang_def set_node_def split: option.split)

text \<open>A clock of the system.\<close>

lemma register_clock:
  assumes ok: "sys_ok w" and e: "\<And>a. e_clock e = Some a \<Longrightarrow> nodes w a = None"
  shows "(\<exists>err. snd (ptp_clock_register e None info d pins w) = Ok (Inl err, w))
    \<or> (\<exists>a w'. e_clock e = Some a \<and> snd (ptp_clock_register e None info d pins w) = Ok (Inr a, w') \<and> sys_ok w'
         \<and> (\<forall>b. plugged b w' \<longleftrightarrow> b = a \<or> plugged b w) \<and> nodes w' = (nodes w)(a \<mapsto> made None info (new_index w) d pins))"
proof -
  note parts = ids_parts [OF ok]
  have fresh: "fresh a w" if "e_clock e = Some a" for a
    using own_none [OF parts(2) e [OF that]] e [OF that] parts(1) by (simp add: fresh_def idx_ok_def)
  have par: "parent_there None w" by (simp add: parent_there_def)
  consider (err) err where "snd (ptp_clock_register e None info d pins w) = Ok (Inl err, w)"
    | (made) a where "e_clock e = Some a" "place a (new_index w) w"
      "snd (ptp_clock_register e None info d pins w) = Ok (Inr a, stage a (new_index w) (made None info (new_index w) d pins)
         (insert R_debugfs (insert R_chardev (own5 False info))) (hang None a w))"
    using register_outcome [where e = e, OF fresh par, where info = info and d = d and pins = pins] by auto
  then show ?thesis
  proof cases
    case made
    let ?n = "made None info (new_index w) d pins"
    let ?u = "stage a (new_index w) ?n (insert R_debugfs (insert R_chardev (own5 False info))) (hang None a w)"
    have ad: "adds None a ?n w ?u" using stage_adds [OF made(2) parts(2), of None] by simp
    have nd: "nodes ?u = (nodes w)(a \<mapsto> ?n)" by (simp add: stage_def hang_def)
    have vs: "vclocks ?u = vclocks w" "vclock_hash ?u = vclock_hash w" by simp_all
    have a: "nodes w a = None" "parent ?n = None" using ad by (simp_all add: adds_def)
    have "vclocks_ok ?u"
    proof (rule vclocks_okI)
      show "\<exists>v vc. drv (clk x) = Vclk v \<and> vclocks ?u v = Some vc \<and> vc_clock vc = b"
        if "nodes ?u b = Some x" "plugged b ?u" "parent x = Some p" for b x p
        using that a vclocks_okD1 [OF parts(5), of b x p] by (simp add: nd vs adds_plugged [OF ad] split: if_splits)
      show "\<exists>x. nodes ?u (vc_clock vc) = Some x \<and> drv (clk x) = Vclk v \<and> plugged (vc_clock vc) ?u \<and> parent x = Some (vc_pclock vc)"
        if "vclocks ?u v = Some vc" for v vc
        using that a vclocks_okD2 [OF parts(5), of v vc] by (auto simp: nd vs adds_plugged [OF ad])
    qed
    moreover have "hash_ok ?u"
    proof -
      have "vc_clock vc \<noteq> a" if "vclocks w v = Some vc" for v vc
        using vclocks_okD2 [OF parts(5) that] a(1) by auto
      then show ?thesis using parts(6) unfolding hash_ok_def vs nd by auto
    qed
    ultimately have "sys_ok ?u"
      using adds_idx [OF ad parts(1)] adds_own [OF ad parts(2)] adds_refs [OF ad parts(3,7)] adds_tree [OF ad parts(4,2)]
      by (simp add: sys_ok_def sys_pre_def)
    then show ?thesis using made nd adds_plugged [OF ad] by blast
  qed auto
qed

lemma register_physical:
  assumes "sys_ok w" and "\<And>a. e_clock e = Some a \<Longrightarrow> nodes w a = None"
  shows "(\<exists>err. snd (ptp_clock_register e None info d pins w) = Ok (Inl err, w))
    \<or> (\<exists>a w'. e_clock e = Some a \<and> snd (ptp_clock_register e None info d pins w) = Ok (Inr a, w') \<and> sys_ok w'
         \<and> plugged a w' \<and> nodes w' = (nodes w)(a \<mapsto> made None info (new_index w) d pins))"
  using register_clock [OF assms, where info = info and d = d and pins = pins] by blast

text \<open>A virtual clock: the clock, then the virtual clock's own record and its place in the hash table.\<close>

definition enter_vclock :: "nat \<Rightarrow> 'v ptp_vclock \<Rightarrow> nat \<Rightarrow> ('d, 'v) ptp_core \<Rightarrow> ('d, 'v) ptp_core" where
  "enter_vclock v vc i w = ptp_vclock_hash_add v i (w\<lparr>vclocks := (vclocks w)(v \<mapsto> vc)\<rparr>)"

lemma enter_parts [simp]:
  "nodes (enter_vclock v vc i w) = nodes w" "plugged b (enter_vclock v vc i w) = plugged b w"
  "vclocks (enter_vclock v vc i w) = (vclocks w)(v \<mapsto> vc)"
  "idx_ok (enter_vclock v vc i w) = idx_ok w" "own_ok (enter_vclock v vc i w) = own_ok w" "refs_ok (enter_vclock v vc i w) = refs_ok w"
  "tree_ok (enter_vclock v vc i w) = tree_ok w" "live_ok (enter_vclock v vc i w) = live_ok w"
  by (simp_all add: enter_vclock_def ptp_vclock_hash_add_def plugged_def idx_ok_def own_ok_def refs_ok_def tree_ok_def live_ok_def)

lemma enter_hash: "x \<in> set (vclock_hash (enter_vclock v vc i w) h) \<longleftrightarrow> x \<in> set (vclock_hash w h) \<or> x = v \<and> h = i mod HASH_SIZE"
  by (auto simp: enter_vclock_def ptp_vclock_hash_add_def)

lemma adds_vclocks:
  assumes ad: "adds (Some p) a n w u" and ok: "vclocks_ok w" "hash_ok w" and v: "vclocks w v = None" "drv (clk n) = Vclk v"
    and u: "vclocks u = vclocks w" "vclock_hash u = vclock_hash w" and vc: "vc_clock vc = a" "vc_pclock vc = p"
  shows "vclocks_ok (enter_vclock v vc (ptp_index (clk n)) u)" and "hash_ok (enter_vclock v vc (ptp_index (clk n)) u)"
proof -
  let ?u = "enter_vclock v vc (ptp_index (clk n)) u"
  have a: "nodes w a = None" "parent n = Some p" "nodes u a = Some n" "plugged a u"
    using ad adds_plugged [OF ad] by (simp_all add: adds_def)
  have other: "vc_clock y \<noteq> a" if "vclocks w x = Some y" for x y
    using vclocks_okD2 [OF ok(1) that] a(1) by auto
  show "vclocks_ok ?u"
  proof (rule vclocks_okI)
    fix b x q
    assume b: "nodes ?u b = Some x" "plugged b ?u" "parent x = Some q"
    show "\<exists>v vc. drv (clk x) = Vclk v \<and> vclocks ?u v = Some vc \<and> vc_clock vc = b"
    proof (cases "b = a")
      case True
      then show ?thesis using b a v vc by simp
    next
      case False
      then have b': "nodes u b = Some x" "plugged b w" using b by (simp_all add: adds_plugged [OF ad])
      from adds_Some [OF ad b'(1) False] obtain y where y: "nodes w b = Some y" "same_ids x y" by auto
      from vclocks_okD1 [OF ok(1) y(1) b'(2), of q] b(3) y(2)
      obtain z zc where z: "drv (clk y) = Vclk z" "vclocks w z = Some zc" "vc_clock zc = b" by (auto simp: same_ids_def)
      then have "z \<noteq> v" using v(1) by auto
      then show ?thesis using z y(2) by (simp add: u same_ids_def)
    qed
  next
    fix x y
    assume x: "vclocks ?u x = Some y"
    show "\<exists>z. nodes ?u (vc_clock y) = Some z \<and> drv (clk z) = Vclk x \<and> plugged (vc_clock y) ?u \<and> parent z = Some (vc_pclock y)"
    proof (cases "x = v")
      case True
      then show ?thesis using x a v vc by simp
    next
      case False
      then have "vclocks w x = Some y" using x by (simp add: u)
      from vclocks_okD2 [OF ok(1) this] obtain z where z: "nodes w (vc_clock y) = Some z" "drv (clk z) = Vclk x"
        "plugged (vc_clock y) w" "parent z = Some (vc_pclock y)" by auto
      then show ?thesis using adds_there [OF ad z(1)] by (simp add: adds_plugged [OF ad] same_ids_def)
    qed
  qed
  show "hash_ok ?u"
    unfolding hash_ok_def
  proof (intro allI)
    fix h x
    have old: "x \<in> set (vclock_hash w h) \<longleftrightarrow>
        (\<exists>vc n. vclocks w x = Some vc \<and> nodes w (vc_clock vc) = Some n \<and> ptp_index (clk n) mod HASH_SIZE = h)"
      using ok(2) by (simp only: hash_ok_def)
    have ex: "(\<exists>n. nodes u b = Some n \<and> ptp_index (clk n) mod HASH_SIZE = h) \<longleftrightarrow> (\<exists>n. nodes w b = Some n \<and> ptp_index (clk n) mod HASH_SIZE = h)"
      if "b \<noteq> a" for b using adds_ex [OF ad that, of "\<lambda>q i. i mod HASH_SIZE = h"] .
    show "x \<in> set (vclock_hash ?u h) \<longleftrightarrow>
        (\<exists>vc n. vclocks ?u x = Some vc \<and> nodes ?u (vc_clock vc) = Some n \<and> ptp_index (clk n) mod HASH_SIZE = h)"
    proof (cases "x = v")
      case True
      then show ?thesis using old v(1) vc(1) a(3) by (auto simp: enter_hash u)
    next
      case False
      have "(\<exists>vc n. vclocks w x = Some vc \<and> nodes u (vc_clock vc) = Some n \<and> ptp_index (clk n) mod HASH_SIZE = h)
          \<longleftrightarrow> (\<exists>vc n. vclocks w x = Some vc \<and> nodes w (vc_clock vc) = Some n \<and> ptp_index (clk n) mod HASH_SIZE = h)"
      proof (cases "vclocks w x")
        case (Some y)
        then show ?thesis using ex [OF other [OF Some]] by simp
      qed simp
      then show ?thesis using False old by (simp add: enter_hash u)
    qed
  qed
qed

lemma register_virtual:
  assumes ok: "sys_ok w" and e: "\<And>a. e_clock e = Some a \<Longrightarrow> nodes w a = None" and v: "\<And>v. mem = Some v \<Longrightarrow> vclocks w v = None"
    and p: "nodes w p = Some pn" "plugged p w" "parent pn = None"
  shows "ptp_vclock_register ops hz e mem c0 p w = Ok (None, w)
    \<or> (\<exists>v a n w'. mem = Some v \<and> e_clock e = Some a \<and> ptp_vclock_register ops hz e mem c0 p w = Ok (Some v, w') \<and> sys_ok w'
         \<and> nodes w' = (nodes w)(p \<mapsto> pn\<lparr>refs := refs pn + 1, kids := kids pn @ [a]\<rparr>, a \<mapsto> n)
         \<and> ptp_index (clk n) = new_index w \<and> drv (clk n) = Vclk v
         \<and> vclocks w' = (vclocks w)(v \<mapsto> \<lparr>vc_pclock = p, vc_clock = a,
                             vc_time = \<lparr>cc_mult = PTP_VCLOCK_CC_MULT, vc_tc = tc_init ops c0 0\<rparr>\<rparr>)
         \<and> (\<forall>b. plugged b w' = (b = a \<or> plugged b w)))"
proof (cases mem)
  case None
  then show ?thesis by (simp add: ptp_vclock_register_def)
next
  case (Some v)
  note parts = ids_parts [OF ok]
  have fresh: "fresh a w" if "e_clock e = Some a" for a
    using own_none [OF parts(2) e [OF that]] e [OF that] parts(1) by (simp add: fresh_def idx_ok_def)
  have par: "parent_there (Some p) w" using p(1) by (simp add: parent_there_def)
  let ?ts = "\<lparr>tv_sec = 0, tv_nsec = 0\<rparr>"
  define info where "info = ptp_vclock_info ops hz False (Inr ?ts) (if has_cyclesx pn then Some (Inr ?ts) else None)
      (if has_crosscycles pn then Some (Inr ?ts) else None)"
  define vt where "vt = \<lparr>cc_mult = PTP_VCLOCK_CC_MULT, vc_tc = tc_init ops c0 0\<rparr>"
  have reg: "ptp_vclock_register ops hz e mem c0 p w = andthen (snd (ptp_clock_register e (Some p) info (Vclk v) [] w)) (\<lambda>(r, w).
      case r of Inl err \<Rightarrow> Ok (None, w)
      | Inr a \<Rightarrow> andthen (node a w) (\<lambda>n. Ok (Some v, enter_vclock v \<lparr>vc_pclock = p, vc_clock = a, vc_time = vt\<rparr> (ptp_index (clk n)) w)))"
    using Some p(1) by (simp add: ptp_vclock_register_def node_def [of p] info_def vt_def Let_def enter_vclock_def cong: sum.case_cong)
  consider (err) err where "snd (ptp_clock_register e (Some p) info (Vclk v) [] w) = Ok (Inl err, w)"
    | (made) a where "e_clock e = Some a" "place a (new_index w) w"
      "snd (ptp_clock_register e (Some p) info (Vclk v) [] w) = Ok (Inr a, stage a (new_index w) (made (Some p) info (new_index w) (Vclk v) [])
         (insert R_debugfs (insert R_chardev (own5 True info))) (hang (Some p) a w))"
    using register_outcome [where e = e, OF fresh par, where info = info and d = "Vclk v" and pins = "[]"] by auto
  then show ?thesis
  proof cases
    case err
    then show ?thesis by (simp add: reg)
  next
    case made
    let ?n = "made (Some p) info (new_index w) (Vclk v) []" and ?vc = "\<lparr>vc_pclock = p, vc_clock = a, vc_time = vt\<rparr>"
    let ?u = "stage a (new_index w) ?n (insert R_debugfs (insert R_chardev (own5 True info))) (hang (Some p) a w)"
    have ad: "adds (Some p) a ?n w ?u" using stage_adds [OF made(2) parts(2), of "Some p"] p by simp
    have pa: "p \<noteq> a" using made(2) p(1) by (auto simp: place_def fresh_def)
    have ua: "nodes ?u a = Some ?n" by (rule adds_new [OF ad])
    have run: "ptp_vclock_register ops hz e mem c0 p w = Ok (Some v, enter_vclock v ?vc (new_index w) ?u)"
      using made(3) ua by (simp add: reg node_def)
    have nd: "nodes ?u = (nodes w)(p \<mapsto> pn\<lparr>refs := refs pn + 1, kids := kids pn @ [a]\<rparr>, a \<mapsto> ?n)"
      using p(1) by (simp add: stage_def hang_def set_node_def)
    have "vclocks_ok (enter_vclock v ?vc (new_index w) ?u) \<and> hash_ok (enter_vclock v ?vc (new_index w) ?u)"
      using adds_vclocks [OF ad parts(5,6) v [OF Some] made_ids(2), of ?vc] by simp
    then have "sys_ok (enter_vclock v ?vc (new_index w) ?u)"
      using adds_idx [OF ad parts(1)] adds_own [OF ad parts(2)] adds_refs [OF ad parts(3,7)] adds_tree [OF ad parts(4,2)]
      by (simp add: sys_ok_def sys_pre_def)
    then show ?thesis
      using run nd Some made(1) adds_plugged [OF ad] by (intro disjI2) (auto simp: vt_def)
  qed
qed

section \<open>Files are opened and closed\<close>

text \<open>A change of a clock that leaves its place and what it owns as they are.\<close>

lemma touch_pre:
  assumes pre: "sys_pre w" and n: "nodes w a = Some n"
    and keep: "parent n' = parent n" "ptp_index (clk n') = ptp_index (clk n)" "drv (clk n') = drv (clk n)"
      "is_virtual_clock (clk n') = is_virtual_clock (clk n)" "idle_own n' = idle_own n" "busy_own n' = busy_own n" "kids n' = kids n"
    and files: "queues_ok (clk n')" "refs n' = of_bool (plugged a w) + length (kids n) + length (tl (tsevqs (clk n')))"
  shows "sys_pre (set_node a n' w)"
proof -
  let ?u = "set_node a n' w"
  have parts: "idx_ok w" "own_ok w" "refs_ok w" "tree_ok w" "vclocks_ok w" "hash_ok w" using pre by (simp_all add: sys_pre_def)
  have nd: "nodes ?u b = (if b = a then Some n' else nodes w b)" for b by (simp add: set_node_def)
  have same: "clocks_map ?u = clocks_map w" "objs ?u = objs w" "vclocks ?u = vclocks w" "vclock_hash ?u = vclock_hash w"
    "\<And>b. plugged b ?u = plugged b w" by (simp_all add: set_node_def plugged_def)
  have ex: "(\<exists>x. nodes ?u b = Some x \<and> P (parent x) (ptp_index (clk x)) (idle_own x) (busy_own x) (drv (clk x)))
      \<longleftrightarrow> (\<exists>x. nodes w b = Some x \<and> P (parent x) (ptp_index (clk x)) (idle_own x) (busy_own x) (drv (clk x)))" for b P
    using n keep by (simp add: nd)
  have "idx_ok ?u" using parts(1) ex [of _ "\<lambda>q j s t d. j = _"] by (simp add: idx_ok_def same)
  moreover have "own_ok ?u"
    using parts(2) unfolding own_ok_def same
    using ex [of _ "\<lambda>q j s t d. _ \<in> s \<or> plugged _ w \<and> _ \<in> t"] by simp
  moreover have "refs_ok ?u"
    unfolding refs_ok_def same
  proof (intro allI impI)
    fix b x
    assume "nodes ?u b = Some x"
    then show "queues_ok (clk x) \<and> refs x = of_bool (plugged b w) + length (kids x) + length (tl (tsevqs (clk x)))"
      using refs_okD [OF parts(3), of b x] files keep(7) by (simp add: nd split: if_splits)
  qed
  moreover have "tree_ok ?u"
  proof (rule tree_okI)
    fix b x
    assume "nodes ?u b = Some x"
    then obtain y where y: "nodes w b = Some y" "parent x = parent y" "is_virtual_clock (clk x) = is_virtual_clock (clk y)" "kids x = kids y"
      using n keep by (cases "b = a") (auto simp: nd)
    note tr = tree_okD [OF parts(4) y(1)]
    show "distinct (kids x)" "is_virtual_clock (clk x) = (parent x \<noteq> None)" using tr(1,3) y by simp_all
    show "parent x = None" if "kids x \<noteq> []" using that tr(2) y by simp
    show "nodes ?u q \<noteq> None" if "plugged b ?u" "parent x = Some q" for q
      using that tr(5) [of q] y n by (auto simp: same nd)
    show "j \<in> set (kids x) \<longleftrightarrow> (\<exists>m. nodes ?u j = Some m \<and> plugged j ?u \<and> parent m = Some b)" for j
      using tr(4) [of j] y(4) ex [of j "\<lambda>q i s t d. plugged j w \<and> q = Some b"] by (auto simp: same)
  qed
  moreover have "vclocks_ok ?u"
  proof (rule vclocks_okI)
    show "\<exists>v vc. drv (clk x) = Vclk v \<and> vclocks ?u v = Some vc \<and> vc_clock vc = b"
      if "nodes ?u b = Some x" "plugged b ?u" "parent x = Some q" for b x q
      using that vclocks_okD1 [OF parts(5), of b "if b = a then n else x" q] n keep by (simp add: nd same split: if_splits)
    show "\<exists>x. nodes ?u (vc_clock vc) = Some x \<and> drv (clk x) = Vclk v \<and> plugged (vc_clock vc) ?u \<and> parent x = Some (vc_pclock vc)"
      if "vclocks ?u v = Some vc" for v vc
      using vclocks_okD2 [OF parts(5) that [unfolded same]] ex [of "vc_clock vc" "\<lambda>q i s t d. d = Vclk v \<and> q = Some (vc_pclock vc)"]
      by (auto simp: same)
  qed
  moreover have "hash_ok ?u"
    using parts(6) unfolding hash_ok_def same using ex [of _ "\<lambda>q j s t d. j mod HASH_SIZE = _"] by simp
  ultimately show ?thesis by (simp add: sys_pre_def)
qed

lemma same_clk_own:
  "is_virtual_clock c = is_virtual_clock (clk n) \<Longrightarrow> idle_own (n\<lparr>clk := c, refs := r\<rparr>) = idle_own n"
  "busy_own (n\<lparr>clk := c, refs := r\<rparr>) = busy_own n"
  by (simp_all add: idle_own_def busy_own_def)

text \<open>What opening and closing leave of a clock in the system.\<close>

definition same_place :: "('d, 'v) ptp_core \<Rightarrow> ('d, 'v) ptp_core \<Rightarrow> bool" where
  "same_place w w' \<longleftrightarrow> (\<forall>b m. plugged b w \<longrightarrow> nodes w b = Some m \<longrightarrow>
     (\<exists>m'. nodes w' b = Some m' \<and> drv (clk m') = drv (clk m) \<and> parent m' = parent m \<and> kids m' = kids m
        \<and> (\<exists>qs. clk m' = (clk m)\<lparr>tsevqs := qs\<rparr>)))"

lemma open_ok:
  assumes ok: "sys_ok w" and n: "nodes w a = Some n" and h: "h \<notin> fst ` set (tsevqs (clk n))"
  shows "(\<exists>err. posix_clock_open mq mm h a w = Err err)
    \<or> (\<exists>w'. posix_clock_open mq mm h a w = Ok w' \<and> sys_ok w' \<and> (\<forall>b. plugged b w' = plugged b w) \<and> same_place w w')"
proof (cases "plugged a w \<and> mq \<and> mm")
  case False
  then show ?thesis using n by (auto simp: posix_clock_open_def node_def ptp_open_def plugged_def)
next
  case True
  note parts = ids_parts [OF ok]
  define c where "c = (clk n)\<lparr>tsevqs := tsevqs (clk n) @ [(h, new_queue)]\<rparr>"
  let ?n = "n\<lparr>clk := c, refs := refs n + 1\<rparr>"
  have q: "queues_ok (clk n)" "refs n = of_bool (plugged a w) + length (kids n) + length (tl (tsevqs (clk n)))"
    using refs_okD [OF parts(3) n] by auto
  have "queues_ok c" "length (tl (tsevqs c)) = Suc (length (tl (tsevqs (clk n))))"
    using q(1) h by (auto simp: queues_ok_def c_def)
  then have "sys_pre (set_node a ?n w)"
    by (intro touch_pre [OF parts(8) n]) (simp_all add: c_def q(2) same_clk_own)
  moreover have "live_ok (set_node a ?n w)" using parts(7) by (simp add: live_ok_def set_node_def)
  moreover have "posix_clock_open mq mm h a w = Ok (set_node a ?n w)"
    using True n by (simp add: posix_clock_open_def node_def ptp_open_def plugged_def c_def)
  moreover have "\<exists>qs. clk m = (clk m)\<lparr>tsevqs := qs\<rparr>" for m :: "'a ptp_owner ptp_node"
    by (rule exI [of _ "tsevqs (clk m)"]) simp
  then have "same_place w (set_node a ?n w)" using n by (auto simp: same_place_def set_node_def c_def)
  ultimately show ?thesis by (simp add: sys_ok_def) (simp add: plugged_def set_node_def)
qed

lemma filter_handle:
  "distinct (map fst qs) \<Longrightarrow> (h, q) \<in> set qs \<Longrightarrow> Suc (length (filter (\<lambda>p. fst p \<noteq> h) qs)) = length qs"
proof (induction qs)
  case (Cons p qs)
  show ?case
  proof (cases "fst p = h")
    case True
    then have "filter (\<lambda>p. fst p \<noteq> h) qs = qs" using Cons.prems by (auto simp: filter_id_conv image_iff)
    then show ?thesis using True by simp
  next
    case False
    then show ?thesis using Cons by auto
  qed
qed simp

lemma close_ok:
  assumes ok: "sys_ok w" and n: "nodes w a = Some n" and h: "(h, q) \<in> set (tl (tsevqs (clk n)))"
  shows "\<exists>w'. posix_clock_release h a w = Ok w' \<and> sys_ok w' \<and> (\<forall>b. plugged b w' = plugged b w)
    \<and> (nodes w' a = None \<longleftrightarrow> \<not> plugged a w \<and> kids n = [] \<and> length (tsevqs (clk n)) = 2) \<and> same_place w w'"
proof -
  note parts = ids_parts [OF ok]
  obtain q0 qs where qs: "tsevqs (clk n) = (0, q0) # qs" "0 \<notin> fst ` set qs" "distinct (map fst qs)"
    using refs_okD [OF parts(3) n] by (auto simp: queues_ok_def)
  have h': "(h, q) \<in> set qs" "h \<noteq> 0" using h qs by force+
  have refs: "refs n = of_bool (plugged a w) + length (kids n) + length qs" using refs_okD [OF parts(3) n] qs(1) by simp
  have len: "Suc (length (filter (\<lambda>p. fst p \<noteq> h) qs)) = length qs" by (rule filter_handle [OF qs(3) h'(1)])
  have "refs n \<noteq> 0" using refs len by linarith
  define c where "c = ptp_release h (clk n)"
  have c: "tsevqs c = (0, q0) # filter (\<lambda>p. fst p \<noteq> h) qs" using qs(1) h'(2) by (simp add: c_def ptp_release_def)
  have keep: "ptp_index c = ptp_index (clk n)" "drv c = drv (clk n)" "is_virtual_clock c = is_virtual_clock (clk n)"
    by (simp_all add: c_def ptp_release_def)
  let ?m = "n\<lparr>clk := c\<rparr>" and ?n = "n\<lparr>clk := c, refs := refs n - 1\<rparr>"
  have "queues_ok c" using c qs by (auto simp: queues_ok_def intro: distinct_map_filter)
  moreover have r: "refs n - 1 = of_bool (plugged a w) + length (kids n) + length (tl (tsevqs c))"
    using refs len c by simp
  ultimately have pre: "sys_pre (set_node a ?n w)"
    by (intro touch_pre [OF parts(8) n]) (simp_all add: keep same_clk_own)
  have mm: "set_node a (?m\<lparr>refs := refs ?m - 1\<rparr>) (set_node a ?m w) = set_node a ?n w" by (simp add: set_node_def)
  have "put_clock a (set_node a ?m w) = Ok (settle a (set_node a (?m\<lparr>refs := refs ?m - 1\<rparr>) (set_node a ?m w)))"
  proof (rule put_clock_settles)
    show "nodes (set_node a ?m w) a = Some ?m" by (simp add: set_node_def)
    show "refs ?m \<noteq> 0" using \<open>refs n \<noteq> 0\<close> by simp
  qed (use pre mm in \<open>simp_all add: sys_pre_def\<close>)
  then have run: "posix_clock_release h a w = Ok (settle a (set_node a ?n w))"
    using n by (simp only: mm) (simp add: posix_clock_release_def node_def c_def)
  have "sys_ok (settle a (set_node a ?n w))"
    by (rule settle_ok [OF pre]) (use parts(7) in \<open>auto simp: set_node_def live_ok_def\<close>)
  moreover have "plugged b (settle a (set_node a ?n w)) = plugged b w" for b
    by (simp add: settle_plugged) (simp add: plugged_def set_node_def)
  moreover have "nodes (settle a (set_node a ?n w)) a = None \<longleftrightarrow> \<not> plugged a w \<and> kids n = [] \<and> length (tsevqs (clk n)) = 2"
  proof -
    have "refs n - 1 = 0 \<longleftrightarrow> \<not> plugged a w \<and> kids n = [] \<and> length qs = 1" using r refs len by auto
    then show ?thesis using qs(1) by (simp add: settle_nodes) (simp add: set_node_def)
  qed
  moreover have "same_place w (settle a (set_node a ?n w))"
    unfolding same_place_def
  proof (intro allI impI)
    fix b m assume b: "plugged b w" "nodes w b = Some m"
    have "refs n - 1 \<noteq> 0" if "b = a" using r b that by simp
    moreover have "\<exists>qs. clk m = (clk m)\<lparr>tsevqs := qs\<rparr>" by (rule exI [of _ "tsevqs (clk m)"]) simp
    ultimately show "\<exists>m'. nodes (settle a (set_node a ?n w)) b = Some m' \<and> drv (clk m') = drv (clk m) \<and> parent m' = parent m
        \<and> kids m' = kids m \<and> (\<exists>qs. clk m' = (clk m)\<lparr>tsevqs := qs\<rparr>)"
      using b n keep by (cases "b = a") (auto simp: settle_nodes set_node_def c_def ptp_release_def)
  qed
  ultimately show ?thesis using run by (intro exI [of _ "settle a (set_node a ?n w)"]) simp
qed

end
