(* ===== verification/Printing.thy ===== *)
theory Printing
  imports Prelude
begin

text \<open>
  The conversions of the kernel's \<open>printf\<close> that the program uses, and its \<open>scnprintf\<close> into a
  buffer of a given size.
\<close>

section \<open>Numbers\<close>

definition digit_char :: "nat \<Rightarrow> char" where
  "digit_char d = ''0123456789abcdef'' ! d"

fun digits :: "nat \<Rightarrow> nat \<Rightarrow> string" where
  "digits base n = (if base < 2 \<or> n < base then [digit_char n] else digits base (n div base) @ [digit_char (n mod base)])"

declare digits.simps [simp del]

abbreviation dec :: "nat \<Rightarrow> string" where
  "dec \<equiv> digits 10"

abbreviation hex :: "nat \<Rightarrow> string" where
  "hex \<equiv> digits 16"

text \<open>\<open>%08x\<close>\<close>

definition hex08 :: "nat \<Rightarrow> string" where
  "hex08 n = replicate (8 - length (hex n)) CHR ''0'' @ hex n"

text \<open>A number below \<open>base ^ k\<close> has at most \<open>k\<close> digits.\<close>

lemma digits_le: "2 \<le> base \<Longrightarrow> 0 < k \<Longrightarrow> n < base ^ k \<Longrightarrow> length (digits base n) \<le> k"
proof (induction k arbitrary: n)
  case (Suc k)
  show ?case
  proof (cases "n < base")
    case False
    then have "k \<noteq> 0" using Suc.prems by (cases k) auto
    moreover have "n div base < base ^ k"
      using Suc.prems by (simp add: less_mult_imp_div_less mult.commute)
    ultimately have "length (digits base (n div base)) \<le> k" using Suc.IH Suc.prems(1) by simp
    then show ?thesis using False by (simp add: digits.simps [of base n])
  qed (simp add: digits.simps [of base n])
qed simp

lemma dec_u32: "length (dec (unat (n :: u32))) \<le> 10"
proof -
  have "unat n < 2 ^ 32" by (rule order_less_le_trans [OF unsigned_less]) simp
  then show ?thesis by (intro digits_le) simp_all
qed

lemma hex08_u32: "length (hex08 (unat (n :: u32))) = 8"
proof -
  have "unat n < 2 ^ 32" by (rule order_less_le_trans [OF unsigned_less]) simp
  then have "length (hex (unat n)) \<le> 8" by (intro digits_le) simp_all
  then show ?thesis by (simp add: hex08_def)
qed

section \<open>Buffers\<close>

text \<open>
  \<open>p += scnprintf(p, bufsize - (p - buf), ...)\<close>: the buffer holds what was written before, and one byte is kept for
  the terminator.
\<close>

definition scnprintf :: "nat \<Rightarrow> string \<Rightarrow> string \<Rightarrow> string" where
  "scnprintf bufsize buf s = buf @ take (bufsize - length buf - 1) s"

definition scnprintf_all :: "nat \<Rightarrow> string list \<Rightarrow> string \<Rightarrow> string" where
  "scnprintf_all bufsize ss buf = fold (\<lambda>s buf. scnprintf bufsize buf s) ss buf"

lemma scnprintf_fits: "length buf + length s < bufsize \<Longrightarrow> scnprintf bufsize buf s = buf @ s"
  by (simp add: scnprintf_def)

lemma scnprintf_all_fits:
  "length buf + length (concat ss) < bufsize \<Longrightarrow> scnprintf_all bufsize ss buf = buf @ concat ss"
proof (induction ss arbitrary: buf)
  case (Cons s ss)
  then show ?case using Cons.IH [of "buf @ s"] by (simp add: scnprintf_all_def scnprintf_fits)
qed (simp add: scnprintf_all_def)

text \<open>Reading from such a buffer, from an offset on.\<close>

definition simple_read_from_buffer :: "nat \<Rightarrow> int \<Rightarrow> string \<Rightarrow> errno + string \<times> int" where
  "simple_read_from_buffer count ppos buf =
     (if ppos < 0 then Inl EINVAL
      else let s = take count (drop (nat ppos) buf) in Inr (s, ppos + int (length s)))"

end
