(* ===== verification/Ptp_Sysfs.thy ===== *)
theory Ptp_Sysfs
  imports Ptp_Life "HOL-Library.Sublist" Printing
begin

text \<open>
  The attributes of a clock, \<open>ptp/ptp_sysfs.c\<close>: what they show, the requests that are made by writing to
  them, and the creation and deletion of virtual clocks. What \<open>sscanf\<close> and \<open>kstrtou32\<close> make of a
  written text is an argument, \<open>None\<close> when it is not accepted; \<open>count\<close> is the length of the text.
\<close>

section \<open>Attributes that are shown\<close>

definition sdec :: "int \<Rightarrow> string" where
  "sdec i = (if i < 0 then CHR ''-'' # dec (nat (- i)) else dec (nat i))"

definition show_int :: "int \<Rightarrow> string" where
  "show_int i = sdec i @ [newline]"

definition clock_name_show :: "string \<Rightarrow> string" where
  "clock_name_show name = name @ [newline]"

text \<open>Without the callback the code calls through NULL; the attribute is hidden then.\<close>

definition max_phase_adjustment_show :: "'d ptp_clock_info \<Rightarrow> 'd ptp_clock \<Rightarrow> string res" where
  "max_phase_adjustment_show info ptp =
     (case getmaxphase info of None \<Rightarrow> Fault | Some f \<Rightarrow> Ok (show_int (f (drv ptp))))"

datatype ptp_attr =
    A_clock_name | A_max_adjustment | A_max_phase_adjustment | A_n_alarms | A_n_external_timestamps
  | A_n_periodic_outputs | A_n_programmable_pins | A_pps_available
  | A_extts_enable | A_fifo | A_period | A_pps_enable | A_n_vclocks | A_max_vclocks

text \<open>The six attributes that \<open>PTP_SHOW_INT\<close> defines.\<close>

fun show_field :: "'d ptp_clock_info \<Rightarrow> ptp_attr \<Rightarrow> string option" where
  "show_field info A_max_adjustment = Some (show_int (max_adj info))"
| "show_field info A_n_alarms = Some (show_int (n_alarm info))"
| "show_field info A_n_external_timestamps = Some (show_int (int (n_ext_ts info)))"
| "show_field info A_n_periodic_outputs = Some (show_int (int (n_per_out info)))"
| "show_field info A_n_programmable_pins = Some (show_int (int (n_pins info)))"
| "show_field info A_pps_available = Some (show_int (if has_pps info then 1 else 0))"
| "show_field info _ = None"

definition attr_mode :: "ptp_attr \<Rightarrow> nat" where
  "attr_mode attr =
     (if attr \<in> {A_extts_enable, A_period, A_pps_enable} then 0x90
      else if attr \<in> {A_n_vclocks, A_max_vclocks} then 0x1A4 else 0x124)"

definition ptp_is_attribute_visible :: "'d ptp_clock_info \<Rightarrow> 'd ptp_clock \<Rightarrow> ptp_attr \<Rightarrow> nat" where
  "ptp_is_attribute_visible info ptp attr =
     (let mode = attr_mode attr
      in if attr = A_extts_enable \<or> attr = A_fifo then (if n_ext_ts info = 0 then 0 else mode)
         else if attr = A_period then (if n_per_out info = 0 then 0 else mode)
         else if attr = A_pps_enable then (if \<not> has_pps info then 0 else mode)
         else if attr = A_n_vclocks \<or> attr = A_max_vclocks then (if is_virtual_clock ptp then 0 else mode)
         else if attr = A_max_phase_adjustment then (if adjphase info = None \<or> getmaxphase info = None then 0 else mode)
         else mode)"

section \<open>Requests\<close>

definition extts_enable_store ::
    "'d ptp_clock_info \<Rightarrow> (nat \<times> int) option \<Rightarrow> nat \<Rightarrow> 'd ptp_clock \<Rightarrow> (errno + nat) \<times> 'd ptp_clock" where
  "extts_enable_store ops scanned count ptp =
     (case scanned of
        None \<Rightarrow> (Inl EINVAL, ptp)
      | Some (index, on) \<Rightarrow>
          if index \<ge> n_ext_ts ops then (Inl EINVAL, ptp)
          else (let (err, ptp) = call_drv (enable ops (PTP_CLK_REQ_EXTTS \<lparr>xr_index = index, xr_flags = 0, xr_rsv = [0, 0]\<rparr>) (on \<noteq> 0)) ptp
                in case err of Some e \<Rightarrow> (Inl e, ptp) | None \<Rightarrow> (Inr count, ptp)))"

text \<open>
  The first queue of the clock gives its oldest event. The result is the returned length and the text:
  when the queue is empty, the length is the number of queues and there is no text.
\<close>

definition extts_fifo_show :: "'d ptp_clock \<Rightarrow> (nat \<times> string) \<times> 'd ptp_clock" where
  "extts_fifo_show ptp =
     (case tsevqs ptp of
        [] \<Rightarrow> ((0, []), ptp)
      | (h, queue) # qs \<Rightarrow>
          if queue_cnt queue = 0 then ((length (tsevqs ptp), []), ptp)
          else
            (let event = q_buf queue ! nat (q_head queue);
                 queue = queue\<lparr>q_head := (q_head queue + 1) mod PTP_MAX_TIMESTAMPS\<rparr>;
                 text = dec (unat (ev_index event)) @ '' '' @ sdec (ev_sec event) @ '' '' @ sdec (ev_nsec event) @ [newline]
             in ((length text, text), ptp\<lparr>tsevqs := (h, queue) # qs\<rparr>)))"

definition period_store ::
    "'d ptp_clock_info \<Rightarrow> (nat \<times> ptp_clock_time \<times> ptp_clock_time) option \<Rightarrow> nat \<Rightarrow> 'd ptp_clock \<Rightarrow> (errno + nat) \<times> 'd ptp_clock" where
  "period_store ops scanned count ptp =
     (case scanned of
        None \<Rightarrow> (Inl EINVAL, ptp)
      | Some (index, start, period) \<Rightarrow>
          if index \<ge> n_per_out ops then (Inl EINVAL, ptp)
          else (let on = (pt_sec period \<noteq> 0 \<or> pt_nsec period \<noteq> 0);
                    rq = \<lparr>pr_start = start, pr_period = period, pr_index = index, pr_flags = 0, pr_on = zero_time, pr_on_rsv = 0\<rparr>;
                    (err, ptp) = call_drv (enable ops (PTP_CLK_REQ_PEROUT rq) on) ptp
                in case err of Some e \<Rightarrow> (Inl e, ptp) | None \<Rightarrow> (Inr count, ptp)))"

definition pps_enable_store ::
    "'d ptp_clock_info \<Rightarrow> bool \<Rightarrow> int option \<Rightarrow> nat \<Rightarrow> 'd ptp_clock \<Rightarrow> (errno + nat) \<times> 'd ptp_clock" where
  "pps_enable_store ops capable scanned count ptp =
     (if \<not> capable then (Inl EPERM, ptp)
      else case scanned of
             None \<Rightarrow> (Inl EINVAL, ptp)
           | Some on \<Rightarrow>
               (let (err, ptp) = call_drv (enable ops PTP_CLK_REQ_PPS (on \<noteq> 0)) ptp
                in case err of Some e \<Rightarrow> (Inl e, ptp) | None \<Rightarrow> (Inr count, ptp)))"

section \<open>Pins\<close>

fun name2index :: "nat \<Rightarrow> string \<Rightarrow> ptp_pin_desc list \<Rightarrow> nat option" where
  "name2index i name [] = None"
| "name2index i name (pin # pins) = (if pin_name pin = name then Some i else name2index (Suc i) name pins)"

definition ptp_pin_name2index :: "'d ptp_clock_info \<Rightarrow> string \<Rightarrow> 'd ptp_clock \<Rightarrow> nat option" where
  "ptp_pin_name2index info name ptp = name2index 0 name (take (n_pins info) (pin_config ptp))"

fun pin_function_number :: "ptp_pin_function \<Rightarrow> nat" where
  "pin_function_number PTP_PF_NONE = 0"
| "pin_function_number PTP_PF_EXTTS = 1"
| "pin_function_number PTP_PF_PEROUT = 2"
| "pin_function_number PTP_PF_PHYSYNC = 3"
| "pin_function_number (PTP_PF_OTHER n) = n"

definition ptp_pin_show :: "'d ptp_clock_info \<Rightarrow> bool \<Rightarrow> string \<Rightarrow> 'd ptp_clock \<Rightarrow> errno + string" where
  "ptp_pin_show info intr name ptp =
     (case ptp_pin_name2index info name ptp of
        None \<Rightarrow> Inl EINVAL
      | Some index \<Rightarrow>
          if intr then Inl ERESTARTSYS
          else Inr (dec (pin_function_number (pin_func (pin_config ptp ! index))) @ '' ''
                      @ dec (pin_chan (pin_config ptp ! index)) @ [newline]))"

definition ptp_pin_store ::
    "'d ptp_clock_info \<Rightarrow> bool \<Rightarrow> (ptp_pin_function \<times> nat) option \<Rightarrow> string \<Rightarrow> nat \<Rightarrow> 'd ptp_clock \<Rightarrow> (errno + nat) \<times> 'd ptp_clock" where
  "ptp_pin_store info intr scanned name count ptp =
     (case scanned of
        None \<Rightarrow> (Inl EINVAL, ptp)
      | Some (func, chan) \<Rightarrow>
          (case ptp_pin_name2index info name ptp of
             None \<Rightarrow> (Inl EINVAL, ptp)
           | Some index \<Rightarrow>
               if intr then (Inl ERESTARTSYS, ptp)
               else (let (err, ptp) = ptp_set_pinfunc info index func chan ptp
                     in case err of Some e \<Rightarrow> (Inl e, ptp) | None \<Rightarrow> (Inr count, ptp))))"

section \<open>Virtual clocks\<close>

definition n_vclocks_show :: "bool \<Rightarrow> 'd ptp_clock \<Rightarrow> errno + string" where
  "n_vclocks_show intr ptp = (if intr then Inl ERESTARTSYS else Inr (dec (n_vclocks ptp) @ [newline]))"

definition max_vclocks_show :: "'d ptp_clock \<Rightarrow> string" where
  "max_vclocks_show ptp = dec (max_vclocks ptp) @ [newline]"

text \<open>A write to the array \<open>vclock_index\<close> of a clock; beyond the array it is a fault.\<close>

definition set_vclock_index :: "nat \<Rightarrow> int \<Rightarrow> nat \<Rightarrow> ('d, 'v) ptp_core \<Rightarrow> ('d, 'v) ptp_core res" where
  "set_vclock_index j x p w =
     andthen (node p w) (\<lambda>n.
       if j \<ge> length (vclock_index (clk n)) then Fault
       else Ok (set_node p (n\<lparr>clk := (clk n)\<lparr>vclock_index := (vclock_index (clk n))[j := x]\<rparr>\<rparr>) w))"

text \<open>What one creation meets: the decisions of the kernel, the memory, and the first reading of the cycle counter.\<close>

type_synonym vclock_env = "reg_env \<times> nat option \<times> u64"

text \<open>The loop that creates: from number \<open>i\<close> on, \<open>r\<close> are left. It ends early when one cannot be created.\<close>

primrec create_vclocks ::
    "'tc timecounter_ops \<Rightarrow> int \<Rightarrow> (nat \<Rightarrow> vclock_env) \<Rightarrow> nat \<Rightarrow> nat \<Rightarrow> nat \<Rightarrow> ('d, 'tc) ptp_system
       \<Rightarrow> (bool \<times> ('d, 'tc) ptp_system) res" where
  "create_vclocks ops hz env p i 0 w = Ok (True, w)"
| "create_vclocks ops hz env p i (Suc r) w =
     (let (e, mem, c0) = env i
      in andthen (ptp_vclock_register ops hz e mem c0 p w) (\<lambda>(vclock, w).
           case vclock of
             None \<Rightarrow> Ok (False, w)
           | Some v \<Rightarrow>
               andthen (deref (vclocks w v)) (\<lambda>vc.
               andthen (node (vc_clock vc) w) (\<lambda>k.
               andthen (node p w) (\<lambda>n.
               andthen (set_vclock_index (n_vclocks (clk n) + i) (int (ptp_index (clk k))) p w)
                 (create_vclocks ops hz env p (Suc i) r))))))"

text \<open>\<open>device_for_each_child_reverse\<close> with the sysfs callback, which stops when \<open>num\<close> clocks are deleted.\<close>

fun delete_vclocks :: "(nat \<Rightarrow> bool) \<Rightarrow> nat \<Rightarrow> nat list \<Rightarrow> ('d, 'tc) ptp_system \<Rightarrow> ('d, 'tc) ptp_system res" where
  "delete_vclocks intr num [] w = Ok w"
| "delete_vclocks intr num (k # ks) w =
     andthen (unregister_vclock intr k w) (\<lambda>w.
       if num - 1 = 0 then Ok w else delete_vclocks intr (num - 1) ks w)"

primrec clear_indices :: "nat \<Rightarrow> nat \<Rightarrow> nat \<Rightarrow> ('d, 'v) ptp_core \<Rightarrow> ('d, 'v) ptp_core res" where
  "clear_indices n p 0 w = Ok w"
| "clear_indices n p (Suc r) w = andthen (clear_indices n p r w) (set_vclock_index (n - Suc r) (- 1) p)"

text \<open>The last step of the store; a failure before it leaves \<open>n_vclocks\<close> as it was.\<close>

definition set_n_vclocks :: "nat \<Rightarrow> nat \<Rightarrow> nat \<Rightarrow> ('d, 'v) ptp_core \<Rightarrow> ((errno + nat) \<times> ('d, 'v) ptp_core) res" where
  "set_n_vclocks num count p w =
     andthen (node p w) (\<lambda>n. Ok (Inr count, set_node p (n\<lparr>clk := (clk n)\<lparr>n_vclocks := num\<rparr>\<rparr>) w))"

text \<open>\<open>sig\<close>: a signal interrupts the wait for the mutex of this clock; \<open>intr\<close> the ones of removed clocks.\<close>

definition n_vclocks_store ::
    "'tc timecounter_ops \<Rightarrow> int \<Rightarrow> (nat \<Rightarrow> vclock_env) \<Rightarrow> (nat \<Rightarrow> bool) \<Rightarrow> bool \<Rightarrow> u32 option \<Rightarrow> nat \<Rightarrow> nat
       \<Rightarrow> ('d, 'tc) ptp_system \<Rightarrow> ((errno + nat) \<times> ('d, 'tc) ptp_system) res" where
  "n_vclocks_store ops hz env intr sig parsed count p w =
     (case parsed of
        None \<Rightarrow> Ok (Inl EINVAL, w)
      | Some num \<Rightarrow>
          if sig then Ok (Inl ERESTARTSYS, w)
          else andthen (node p w) (\<lambda>n.
            let num = unat num
            in if num > max_vclocks (clk n) then Ok (Inl EINVAL, w)
               else if num > n_vclocks (clk n) then
                 andthen (create_vclocks ops hz env p 0 (num - n_vclocks (clk n)) w) (\<lambda>(all, w).
                   if all then set_n_vclocks num count p w else Ok (Inl EINVAL, w))
               else if num < n_vclocks (clk n) then
                 andthen (delete_vclocks intr (n_vclocks (clk n) - num) (rev (kids n)) w) (\<lambda>w.
                 andthen (clear_indices (n_vclocks (clk n)) p (n_vclocks (clk n) - num) w) (set_n_vclocks num count p))
               else set_n_vclocks num count p w))"

text \<open>The new array takes over the indices in use; \<open>mem\<close>: there is memory for it.\<close>

definition max_vclocks_store ::
    "bool \<Rightarrow> bool \<Rightarrow> u32 option \<Rightarrow> nat \<Rightarrow> 'd ptp_clock \<Rightarrow> (errno + nat) \<times> 'd ptp_clock" where
  "max_vclocks_store mem sig parsed count ptp =
     (case parsed of
        None \<Rightarrow> (Inl EINVAL, ptp)
      | Some limit \<Rightarrow>
          if limit = 0 then (Inl EINVAL, ptp)
          else if unat limit = max_vclocks ptp then (Inr count, ptp)
          else if sig then (Inl ERESTARTSYS, ptp)
          else if unat limit < n_vclocks ptp then (Inl EINVAL, ptp)
          else if \<not> mem then (Inl ENOMEM, ptp)
          else (Inr count, ptp\<lparr>vclock_index := take (n_vclocks ptp) (vclock_index ptp) @ replicate (unat limit - n_vclocks ptp) 0,
                               max_vclocks := unat limit\<rparr>))"

section \<open>The number of virtual clocks\<close>

text \<open>
  A physical clock counts its virtual clocks right: their number, and their indices in the order of
  their creation.
\<close>

definition counted :: "nat \<Rightarrow> ('d, 'v) ptp_core \<Rightarrow> bool" where
  "counted p w \<longleftrightarrow> (\<exists>n. nodes w p = Some n \<and> plugged p w \<and> parent n = None
     \<and> length (vclock_index (clk n)) = max_vclocks (clk n) \<and> n_vclocks (clk n) \<le> max_vclocks (clk n)
     \<and> n_vclocks (clk n) = length (kids n)
     \<and> (\<forall>j < length (kids n). \<exists>m. nodes w (kids n ! j) = Some m \<and> vclock_index (clk n) ! j = int (ptp_index (clk m))))"

lemma made_counted:
  assumes "nodes w p = Some (made None info i d pins)" and "plugged p w"
  shows "counted p w"
  using assms by (simp add: counted_def made_def Let_def split: prod.split)

text \<open>Writing an index leaves the system as it is otherwise.\<close>

lemma set_index:
  fixes x :: int
  assumes ok: "sys_ok w" and n: "nodes w p = Some n" and j: "j < length (vclock_index (clk n))"
  defines "w' \<equiv> set_node p (n\<lparr>clk := (clk n)\<lparr>vclock_index := (vclock_index (clk n))[j := x]\<rparr>\<rparr>) w"
  shows "set_vclock_index j x p w = Ok w'" and "sys_ok w'" and "\<And>b. plugged b w' = plugged b w"
proof -
  note parts = ids_parts [OF ok]
  show "set_vclock_index j x p w = Ok w'" using n j by (simp add: set_vclock_index_def node_def w'_def)
  show "\<And>b. plugged b w' = plugged b w" by (simp add: plugged_def w'_def set_node_def)
  have q: "queues_ok (clk n)" "refs n = of_bool (plugged p w) + length (kids n) + length (tl (tsevqs (clk n)))"
    using refs_okD [OF parts(3) n] by auto
  have "sys_pre w'"
    unfolding w'_def by (rule touch_pre [OF parts(8) n]) (use q in \<open>simp_all add: idle_own_def busy_own_def queues_ok_def\<close>)
  moreover have "live_ok w'" using parts(7) n by (simp add: live_ok_def w'_def set_node_def)
  ultimately show "sys_ok w'" by (simp add: sys_ok_def)
qed

text \<open>The index of a clock, as \<open>vclock_index\<close> records it.\<close>

definition idx_of :: "('d, 'v) ptp_core \<Rightarrow> nat \<Rightarrow> int" where
  "idx_of w k = (case nodes w k of Some m \<Rightarrow> int (ptp_index (clk m)) | None \<Rightarrow> - 1)"

text \<open>
  What is true of every physical clock in the system, also when a creation failed and left virtual clocks
  that the counter does not count: the array has its full length, and its entries up to the counter are
  indices of virtual clocks of this clock, in the order of their creation.
\<close>

definition tracked :: "nat \<Rightarrow> ('d, 'v) ptp_core \<Rightarrow> bool" where
  "tracked p w \<longleftrightarrow> (\<exists>n. nodes w p = Some n \<and> plugged p w \<and> parent n = None
     \<and> length (vclock_index (clk n)) = max_vclocks (clk n) \<and> n_vclocks (clk n) \<le> max_vclocks (clk n)
     \<and> subseq (take (n_vclocks (clk n)) (vclock_index (clk n))) (map (idx_of w) (kids n)))"

lemma trackedD:
  assumes "tracked p w" and "nodes w p = Some n"
  shows "plugged p w" "parent n = None" "length (vclock_index (clk n)) = max_vclocks (clk n)" "n_vclocks (clk n) \<le> max_vclocks (clk n)"
    "subseq (take (n_vclocks (clk n)) (vclock_index (clk n))) (map (idx_of w) (kids n))" "n_vclocks (clk n) \<le> length (kids n)"
proof -
  show a: "plugged p w" "parent n = None" "length (vclock_index (clk n)) = max_vclocks (clk n)" "n_vclocks (clk n) \<le> max_vclocks (clk n)"
    and s: "subseq (take (n_vclocks (clk n)) (vclock_index (clk n))) (map (idx_of w) (kids n))"
    using assms by (auto simp: tracked_def)
  show "n_vclocks (clk n) \<le> length (kids n)"
    using list_emb_length [OF s] a by simp
qed

lemma counted_tracked:
  assumes "nodes w p = Some n" and "\<And>k. k \<in> set (kids n) \<Longrightarrow> nodes w k \<noteq> None"
  shows "counted p w \<longleftrightarrow> tracked p w \<and> n_vclocks (clk n) = length (kids n)"
proof -
  have same: "take (length (kids n)) is = map (idx_of w) (kids n)
      \<longleftrightarrow> (\<forall>j < length (kids n). \<exists>m. nodes w (kids n ! j) = Some m \<and> is ! j = int (ptp_index (clk m)))"
    if "length (kids n) \<le> length is" for "is"
    using that assms(2) by (auto simp: list_eq_iff_nth_eq idx_of_def split: option.splits) (metis nth_mem)
  show ?thesis
  proof
    assume c: "counted p w"
    then show "tracked p w \<and> n_vclocks (clk n) = length (kids n)"
      using same [of "vclock_index (clk n)"] assms(1) by (auto simp: counted_def tracked_def)
  next
    assume c: "tracked p w \<and> n_vclocks (clk n) = length (kids n)"
    note d = trackedD [OF conjunct1 [OF c] assms(1)]
    have "take (length (kids n)) (vclock_index (clk n)) = map (idx_of w) (kids n)"
      using d c by (intro subseq_same_length) auto
    then show "counted p w"
      using same [of "vclock_index (clk n)"] assms(1) d c by (auto simp: counted_def)
  qed
qed

text \<open>Another clock's change leaves a clock tracked.\<close>

lemma tracked_frame:
  assumes "tracked q w" and "nodes w q = Some n" and "nodes w' q = Some n'" and "plugged q w'"
    and "parent n' = parent n" "kids n' = kids n" "n_vclocks (clk n') = n_vclocks (clk n)"
      "max_vclocks (clk n') = max_vclocks (clk n)" "vclock_index (clk n') = vclock_index (clk n)"
    and "\<And>k. k \<in> set (kids n) \<Longrightarrow> idx_of w' k = idx_of w k"
  shows "tracked q w'"
proof -
  note d = trackedD [OF assms(1,2)]
  have "map (idx_of w') (kids n) = map (idx_of w) (kids n)" using assms(10) by simp
  with d(5) have "subseq (take (n_vclocks (clk n)) (vclock_index (clk n))) (map (idx_of w') (kids n))" by (simp only:)
  then show ?thesis using assms(3-9) d(2-4) by (simp add: tracked_def)
qed

lemma made_tracked:
  assumes "nodes w p = Some (made None info i d pins)" and "plugged p w"
  shows "tracked p w"
  using assms by (simp add: tracked_def made_def Let_def split: prod.split)

text \<open>
  A clock on the way: its virtual clocks are \<open>ks\<close>, and the array starts with \<open>is\<close>, while the counter still
  has the value from before the request.
\<close>

definition growing :: "nat \<Rightarrow> nat \<Rightarrow> int list \<Rightarrow> nat list \<Rightarrow> ('d, 'v) ptp_core \<Rightarrow> bool" where
  "growing p n0 is ks w \<longleftrightarrow> (\<exists>n. nodes w p = Some n \<and> plugged p w \<and> parent n = None
     \<and> length (vclock_index (clk n)) = max_vclocks (clk n) \<and> n_vclocks (clk n) = n0 \<and> kids n = ks
     \<and> take (length is) (vclock_index (clk n)) = is)"

definition capacity :: "nat \<Rightarrow> ('d, 'v) ptp_core \<Rightarrow> nat" where
  "capacity p w = (case nodes w p of Some n \<Rightarrow> max_vclocks (clk n) | None \<Rightarrow> 0)"

definition counter :: "nat \<Rightarrow> ('d, 'v) ptp_core \<Rightarrow> nat" where
  "counter p w = (case nodes w p of Some n \<Rightarrow> n_vclocks (clk n) | None \<Rightarrow> 0)"

definition indices :: "nat \<Rightarrow> ('d, 'v) ptp_core \<Rightarrow> int list" where
  "indices p w = (case nodes w p of Some n \<Rightarrow> vclock_index (clk n) | None \<Rightarrow> [])"

definition children :: "nat \<Rightarrow> ('d, 'v) ptp_core \<Rightarrow> nat list" where
  "children p w = (case nodes w p of Some n \<Rightarrow> kids n | None \<Rightarrow> [])"

text \<open>The addresses of what is created are new ones.\<close>

definition new_addresses :: "(nat \<Rightarrow> vclock_env) \<Rightarrow> nat \<Rightarrow> ('d, 'v) ptp_core \<Rightarrow> bool" where
  "new_addresses env i w \<longleftrightarrow>
     (\<forall>j \<ge> i. \<forall>a v. (e_clock (fst (env j)) = Some a \<longrightarrow> nodes w a = None) \<and> (fst (snd (env j)) = Some v \<longrightarrow> vclocks w v = None))
     \<and> (\<forall>j k. j \<noteq> k \<longrightarrow> (\<forall>a. e_clock (fst (env j)) = Some a \<longrightarrow> e_clock (fst (env k)) \<noteq> Some a)
           \<and> (\<forall>v. fst (snd (env j)) = Some v \<longrightarrow> fst (snd (env k)) \<noteq> Some v))"

lemma new_addressesD:
  assumes "new_addresses env i w"
  shows "i \<le> j \<Longrightarrow> e_clock (fst (env j)) = Some a \<Longrightarrow> nodes w a = None"
    and "i \<le> j \<Longrightarrow> fst (snd (env j)) = Some v \<Longrightarrow> vclocks w v = None"
    and "j \<noteq> k \<Longrightarrow> e_clock (fst (env j)) = Some a \<Longrightarrow> e_clock (fst (env k)) = Some b \<Longrightarrow> a \<noteq> b"
    and "j \<noteq> k \<Longrightarrow> fst (snd (env j)) = Some v \<Longrightarrow> fst (snd (env k)) = Some u \<Longrightarrow> v \<noteq> u"
  using assms unfolding new_addresses_def by blast+

lemma create_one:
  assumes ok: "sys_ok w" and gr: "growing p n0 is ks w" and i: "length is = n0 + i" and room: "n0 + i < capacity p w"
    and new: "new_addresses env i w" and env: "env i = (e, mem, c0)"
  shows "ptp_vclock_register ops hz e mem c0 p w = Ok (None, w)
    \<or> (\<exists>v w1 vc k n w2 a. ptp_vclock_register ops hz e mem c0 p w = Ok (Some v, w1) \<and> vclocks w1 v = Some vc \<and> node (vc_clock vc) w1 = Ok k
         \<and> node p w1 = Ok n \<and> set_vclock_index (n_vclocks (clk n) + i) (int (ptp_index (clk k))) p w1 = Ok w2
         \<and> sys_ok w2 \<and> growing p n0 (is @ [idx_of w2 a]) (ks @ [a]) w2 \<and> capacity p w2 = capacity p w \<and> new_addresses env (Suc i) w2
         \<and> nodes w a = None \<and> a \<noteq> p \<and> nodes w2 a \<noteq> None \<and> (\<forall>b. b \<noteq> p \<longrightarrow> nodes w b \<noteq> None \<longrightarrow> nodes w2 b = nodes w b)
         \<and> (\<forall>b. plugged b w2 = (b = a \<or> plugged b w)))"
proof -
  from gr obtain pn where pn: "nodes w p = Some pn" "plugged p w" "parent pn = None"
    "length (vclock_index (clk pn)) = max_vclocks (clk pn)" "n_vclocks (clk pn) = n0" "kids pn = ks"
    "take (length is) (vclock_index (clk pn)) = is"
    by (auto simp: growing_def)
  have cap: "capacity p w = max_vclocks (clk pn)" using pn(1) by (simp add: capacity_def)
  have e: "nodes w a = None" if "e_clock e = Some a" for a using new_addressesD(1) [OF new, of i a] that env by simp
  have v: "vclocks w v = None" if "mem = Some v" for v using new_addressesD(2) [OF new, of i v] that env by simp
  consider "ptp_vclock_register ops hz e mem c0 p w = Ok (None, w)"
    | (made) v a n w1 vt where "mem = Some v" "e_clock e = Some a" "ptp_vclock_register ops hz e mem c0 p w = Ok (Some v, w1)" "sys_ok w1"
        "nodes w1 = (nodes w)(p \<mapsto> pn\<lparr>refs := refs pn + 1, kids := kids pn @ [a]\<rparr>, a \<mapsto> n)"
        "vclocks w1 = (vclocks w)(v \<mapsto> \<lparr>vc_pclock = p, vc_clock = a, vc_time = vt\<rparr>)" "\<And>b. plugged b w1 = (b = a \<or> plugged b w)"
    using register_virtual [where e = e and mem = mem, OF ok e v pn(1-3), where ops = ops and hz = hz and ?c0.0 = c0] by blast
  then show ?thesis
  proof cases
    case made
    have pa: "p \<noteq> a" using e [OF made(2)] pn(1) by auto
    let ?pn = "pn\<lparr>refs := refs pn + 1, kids := kids pn @ [a]\<rparr>"
    have p1: "nodes w1 p = Some ?pn" using made(5) pa by simp
    have j: "n0 + i < length (vclock_index (clk ?pn))" using room cap pn(4) by simp
    define x where "x = int (ptp_index (clk n))"
    define w2 where "w2 = set_node p (?pn\<lparr>clk := (clk ?pn)\<lparr>vclock_index := (vclock_index (clk ?pn))[n0 + i := x]\<rparr>\<rparr>) w1"
    note idx = set_index [OF made(4) p1 j, where x = x, folded w2_def]
    define pn2 where "pn2 = ?pn\<lparr>clk := (clk pn)\<lparr>vclock_index := (vclock_index (clk pn))[n0 + i := x]\<rparr>\<rparr>"
    have n2: "nodes w2 = (nodes w1)(p \<mapsto> pn2)" by (simp add: w2_def set_node_def pn2_def)
    have xa: "idx_of w2 a = x" using pa made(5) by (simp add: idx_of_def n2 x_def)
    have "take (Suc (n0 + i)) ((vclock_index (clk pn))[n0 + i := x]) = is @ [x]"
      using pn(7) i j by (simp add: take_Suc_conv_app_nth)
    then have "growing p n0 (is @ [idx_of w2 a]) (ks @ [a]) w2"
      unfolding growing_def using pn i by (intro exI [of _ pn2]) (simp add: idx(3) made(7) n2 pn2_def xa)
    moreover have "new_addresses env (Suc i) w2"
    proof -
      have vs: "vclocks w2 = vclocks w1" by (simp add: w2_def set_node_def)
      have "nodes w2 a' = None" if "Suc i \<le> j" "e_clock (fst (env j)) = Some a'" for j a'
      proof -
        have "nodes w a' = None" "a' \<noteq> a"
          using new_addressesD(1) [OF new, of j a'] new_addressesD(3) [OF new, of j i a' a] that made(2) env by simp_all
        then show ?thesis using pn(1) by (auto simp: n2 made(5))
      qed
      moreover have "vclocks w2 v' = None" if "Suc i \<le> j" "fst (snd (env j)) = Some v'" for j v'
      proof -
        have "vclocks w v' = None" "v' \<noteq> v"
          using new_addressesD(2) [OF new, of j v'] new_addressesD(4) [OF new, of j i v' v] that made(1) env by simp_all
        then show ?thesis by (simp add: vs made(6))
      qed
      ultimately show ?thesis using new by (simp add: new_addresses_def)
    qed
    moreover have "capacity p w2 = capacity p w" using pn(1) by (simp add: capacity_def n2 pn2_def)
    moreover have "nodes w2 b = nodes w b" if "b \<noteq> p" "nodes w b \<noteq> None" for b
      using that e [OF made(2)] by (auto simp: n2 made(5))
    moreover have "nodes w2 a \<noteq> None" using pa made(5) by (simp add: n2)
    ultimately show ?thesis
      using made idx(1-3) pa pn(5) p1 e [OF made(2)]
      by (intro disjI2 exI [of _ v] exI [of _ w1] exI [of _ "\<lparr>vc_pclock = p, vc_clock = a, vc_time = vt\<rparr>"]
          exI [of _ n] exI [of _ ?pn] exI [of _ w2] exI [of _ a]) (simp add: node_def x_def)
  qed blast
qed

lemma create_run:
  assumes "sys_ok w" and "growing p n0 is ks w" and "length is = n0 + i" and "n0 + i + r \<le> capacity p w" and "new_addresses env i w"
  shows "\<exists>all w' new. create_vclocks ops hz env p i r w = Ok (all, w') \<and> sys_ok w' \<and> capacity p w' = capacity p w
    \<and> growing p n0 (is @ map (idx_of w') new) (ks @ new) w' \<and> length new \<le> r \<and> (all \<longleftrightarrow> length new = r)
    \<and> (\<forall>k \<in> set new. nodes w k = None)
    \<and> (\<forall>b. b \<noteq> p \<longrightarrow> nodes w b \<noteq> None \<longrightarrow> nodes w' b = nodes w b) \<and> (\<forall>b. plugged b w' \<longleftrightarrow> plugged b w \<or> b \<in> set new)"
  using assms
proof (induction r arbitrary: i "is" ks w)
  case 0
  then show ?case by (intro exI [of _ True] exI [of _ w] exI [of _ "[]"]) simp
next
  case (Suc r)
  obtain e mem c0 where env: "env i = (e, mem, c0)" by (cases "env i")
  have room: "n0 + i < capacity p w" using Suc.prems(4) by simp
  consider (none) "ptp_vclock_register ops hz e mem c0 p w = Ok (None, w)"
    | (one) v w1 vc k n w2 a where "ptp_vclock_register ops hz e mem c0 p w = Ok (Some v, w1)" "vclocks w1 v = Some vc"
        "node (vc_clock vc) w1 = Ok k" "node p w1 = Ok n" "set_vclock_index (n_vclocks (clk n) + i) (int (ptp_index (clk k))) p w1 = Ok w2"
        "sys_ok w2" "growing p n0 (is @ [idx_of w2 a]) (ks @ [a]) w2" "capacity p w2 = capacity p w" "new_addresses env (Suc i) w2"
        "nodes w a = None" "a \<noteq> p" "nodes w2 a \<noteq> None" "\<And>b. b \<noteq> p \<Longrightarrow> nodes w b \<noteq> None \<Longrightarrow> nodes w2 b = nodes w b"
        "\<And>b. plugged b w2 = (b = a \<or> plugged b w)"
    using create_one [OF Suc.prems(1-3) room Suc.prems(5) env, of ops hz] by blast
  then show ?case
  proof cases
    case none
    then have "create_vclocks ops hz env p i (Suc r) w = Ok (False, w)" by (simp add: env)
    then show ?thesis using Suc.prems(1,2)
      by (intro exI [of _ False] exI [of _ w] exI [of _ "[]"]) simp
  next
    case one
    then have run: "create_vclocks ops hz env p i (Suc r) w = create_vclocks ops hz env p (Suc i) r w2" by (simp add: env)
    have len: "length (is @ [idx_of w2 a]) = n0 + Suc i" "n0 + Suc i + r \<le> capacity p w2" using Suc.prems(3,4) one(8) by simp_all
    from Suc.IH [OF one(6,7) len one(9)] obtain all w' new where w':
      "create_vclocks ops hz env p (Suc i) r w2 = Ok (all, w')" "sys_ok w'" "capacity p w' = capacity p w2"
      "growing p n0 ((is @ [idx_of w2 a]) @ map (idx_of w') new) ((ks @ [a]) @ new) w'" "length new \<le> r" "all \<longleftrightarrow> length new = r"
      "\<And>k. k \<in> set new \<Longrightarrow> nodes w2 k = None"
      "\<And>b. b \<noteq> p \<Longrightarrow> nodes w2 b \<noteq> None \<Longrightarrow> nodes w' b = nodes w2 b" "\<And>b. plugged b w' \<longleftrightarrow> plugged b w2 \<or> b \<in> set new" by blast
    have "idx_of w' a = idx_of w2 a" using w'(8) [OF one(11,12)] by (simp add: idx_of_def)
    then have "growing p n0 (is @ map (idx_of w') (a # new)) (ks @ (a # new)) w'" using w'(4) by simp
    moreover have "nodes w' b = nodes w b" if "b \<noteq> p" "nodes w b \<noteq> None" for b
      using one(13) [OF that] w'(8) [of b] that by simp
    moreover have "nodes w k = None" if "k \<in> set (a # new)" for k
    proof (cases "k = a")
      case True
      then show ?thesis using one(10) by simp
    next
      case False
      then have k: "nodes w2 k = None" using w'(7) that by auto
      moreover have "k \<noteq> p" using k(1) w'(4) one(7) by (auto simp: growing_def)
      ultimately show ?thesis using one(13) [of k] by metis
    qed
    ultimately show ?thesis
      using run w'(1-3,5,6,9) one(8,14) by (intro exI [of _ all] exI [of _ w'] exI [of _ "a # new"]) auto
  qed
qed

section \<open>Deleting\<close>

lemma delete_each: "0 < r \<Longrightarrow> delete_vclocks intr r ks w = each (unregister_vclock intr) (take r ks) w"
proof (induction ks arbitrary: r w)
  case (Cons k ks)
  show ?case
  proof (cases "r = 1")
    case False
    then have "0 < r - 1" "take r (k # ks) = k # take (r - 1) ks" using Cons.prems by (auto simp: take_Cons' )
    then show ?thesis using Cons.IH by (simp cong: if_cong)
  next
    case True
    then show ?thesis by (cases "unregister_vclock intr k w") simp_all
  qed
qed simp

lemma clear_run:
  assumes "sys_ok w" and "nodes w p = Some n" and "r \<le> n0" and "n0 \<le> length (vclock_index (clk n))"
  shows "\<exists>w' c. clear_indices n0 p r w = Ok w' \<and> sys_ok w' \<and> nodes w' = (nodes w)(p \<mapsto> n\<lparr>clk := (clk n)\<lparr>vclock_index := c\<rparr>\<rparr>)
    \<and> length c = length (vclock_index (clk n)) \<and> (\<forall>j < n0 - r. c ! j = vclock_index (clk n) ! j) \<and> (\<forall>b. plugged b w' = plugged b w)"
  using assms
proof (induction r)
  case 0
  then show ?case by (intro exI [of _ w] exI [of _ "vclock_index (clk n)"]) (simp add: fun_upd_idem)
next
  case (Suc r)
  have "r \<le> n0" using Suc.prems(3) by simp
  from Suc.IH [OF Suc.prems(1,2) this Suc.prems(4)] obtain w1 c where w1: "clear_indices n0 p r w = Ok w1" "sys_ok w1"
    "nodes w1 = (nodes w)(p \<mapsto> n\<lparr>clk := (clk n)\<lparr>vclock_index := c\<rparr>\<rparr>)" "length c = length (vclock_index (clk n))"
    "\<And>j. j < n0 - r \<Longrightarrow> c ! j = vclock_index (clk n) ! j" "\<And>b. plugged b w1 = plugged b w" by blast
  have p1: "nodes w1 p = Some (n\<lparr>clk := (clk n)\<lparr>vclock_index := c\<rparr>\<rparr>)" by (simp add: w1(3))
  have j: "n0 - Suc r < length (vclock_index (clk (n\<lparr>clk := (clk n)\<lparr>vclock_index := c\<rparr>\<rparr>)))" using Suc.prems(3,4) w1(4) by simp
  note idx = set_index [OF w1(2) p1 j, where x = "- 1"]
  define w2 where "w2 = set_node p (n\<lparr>clk := (clk n)\<lparr>vclock_index := c[n0 - Suc r := - 1]\<rparr>\<rparr>) w1"
  have "set_vclock_index (n0 - Suc r) (- 1) p w1 = Ok w2" "sys_ok w2" "\<And>b. plugged b w2 = plugged b w1"
    using idx by (simp_all add: w2_def)
  moreover have "nodes w2 = (nodes w)(p \<mapsto> n\<lparr>clk := (clk n)\<lparr>vclock_index := c[n0 - Suc r := - 1]\<rparr>\<rparr>)"
    by (simp add: w2_def set_node_def w1(3))
  ultimately show ?case
    using w1 by (intro exI [of _ w2] exI [of _ "c[n0 - Suc r := - 1]"]) auto
qed

lemma set_n_run:
  fixes num :: nat
  assumes "sys_ok w" and "nodes w p = Some n"
  defines "w' \<equiv> set_node p (n\<lparr>clk := (clk n)\<lparr>n_vclocks := num\<rparr>\<rparr>) w"
  shows "set_n_vclocks num count p w = Ok (Inr count, w')" and "sys_ok w'" and "\<And>b. plugged b w' = plugged b w"
proof -
  note parts = ids_parts [OF assms(1)]
  show "set_n_vclocks num count p w = Ok (Inr count, w')" using assms(2) by (simp add: set_n_vclocks_def node_def w'_def)
  show "\<And>b. plugged b w' = plugged b w" by (simp add: plugged_def w'_def set_node_def)
  have q: "queues_ok (clk n)" "refs n = of_bool (plugged p w) + length (kids n) + length (tl (tsevqs (clk n)))"
    using refs_okD [OF parts(3) assms(2)] by auto
  have "sys_pre w'"
    unfolding w'_def by (rule touch_pre [OF parts(8) assms(2)]) (use q in \<open>simp_all add: idle_own_def busy_own_def queues_ok_def\<close>)
  moreover have "live_ok w'" using parts(7) assms(2) by (simp add: live_ok_def w'_def set_node_def)
  ultimately show "sys_ok w'" by (simp add: sys_ok_def)
qed

section \<open>The store does what it says\<close>

lemma finish_count:
  assumes ok: "sys_ok w" and gr: "growing p n0 is ks w" and room: "length is \<le> capacity p w"
    and sub: "subseq is (map (idx_of w) ks)" and kids: "\<And>k. k \<in> set ks \<Longrightarrow> k \<noteq> p"
  shows "\<exists>w'. set_n_vclocks (length is) count p w = Ok (Inr count, w') \<and> sys_ok w' \<and> tracked p w' \<and> children p w' = ks
    \<and> counter p w' = length is \<and> indices p w' = indices p w \<and> (\<forall>b. b \<noteq> p \<longrightarrow> nodes w' b = nodes w b) \<and> (\<forall>b. plugged b w' = plugged b w)"
proof -
  from gr obtain n where n: "nodes w p = Some n" "plugged p w" "parent n = None" "length (vclock_index (clk n)) = max_vclocks (clk n)"
    "kids n = ks" "take (length is) (vclock_index (clk n)) = is" by (auto simp: growing_def)
  define n' where "n' = n\<lparr>clk := (clk n)\<lparr>n_vclocks := length is\<rparr>\<rparr>"
  define w' where "w' = set_node p n' w"
  note run = set_n_run [OF ok n(1), where num = "length is", folded n'_def, folded w'_def]
  have nd: "nodes w' = (nodes w)(p \<mapsto> n')" by (simp add: w'_def set_node_def)
  have "map (idx_of w') ks = map (idx_of w) ks" using kids by (simp add: idx_of_def nd)
  with sub have s: "subseq is (map (idx_of w') ks)" by (simp only:)
  have "tracked p w'"
    unfolding tracked_def using n room run(3) s by (intro exI [of _ n']) (simp add: nd n'_def capacity_def)
  moreover have "children p w' = ks" "counter p w' = length is" "indices p w' = indices p w"
    using n by (simp_all add: children_def counter_def indices_def nd n'_def)
  ultimately show ?thesis using run nd by auto
qed

lemma filter_take_rev:
  assumes "distinct xs" and "r \<le> length xs"
  shows "filter (\<lambda>x. x \<notin> set (take r (rev xs))) xs = take (length xs - r) xs"
proof -
  have "set (take r (rev xs)) = set (drop (length xs - r) xs)" by (simp add: take_rev)
  moreover have "filter (\<lambda>x. x \<notin> set (drop n xs)) xs = take n xs" for n
  proof -
    have "set (take n xs) \<inter> set (drop n xs) = {}" using assms(1) by (rule set_take_disj_set_drop_if_distinct) simp
    then have "filter (\<lambda>x. x \<notin> set (drop n xs)) (take n xs) = take n xs" "filter (\<lambda>x. x \<notin> set (drop n xs)) (drop n xs) = []"
      by (auto simp: filter_id_conv filter_empty_conv)
    then show ?thesis by (metis append_Nil2 append_take_drop_id filter_append)
  qed
  ultimately show ?thesis by simp
qed

text \<open>Taking the last entries off both sides of a subsequence.\<close>

lemma subseq_take_front:
  assumes "subseq xs ys" and "d \<le> length xs"
  shows "subseq (take (length xs - d) xs) (take (length ys - d) ys)"
proof -
  let ?m = "length xs - d"
  have "subseq (take ?m xs @ drop ?m xs) ys" using assms(1) by simp
  then obtain us vs where uv: "ys = us @ vs" "subseq (take ?m xs) us" "subseq (drop ?m xs) vs"
    using list_emb_appendD by blast
  have "d \<le> length vs" using list_emb_length [OF uv(3)] assms(2) by simp
  then have "take (length ys - d) ys = us @ take (length vs - d) vs" using uv(1) by simp
  then show ?thesis using list_emb_prefix [OF uv(2)] by simp
qed

lemma shrink_run:
  assumes ok: "sys_ok w" and tr: "tracked p w" and num: "num < n_vclocks (clk n)" and n: "nodes w p = Some n"
  defines "d \<equiv> n_vclocks (clk n) - num" and "is \<equiv> take num (vclock_index (clk n))"
  defines "ks \<equiv> take (length (kids n) - d) (kids n)"
  shows "\<exists>w1 w2. delete_vclocks intr d (rev (kids n)) w = Ok w1 \<and> clear_indices (n_vclocks (clk n)) p d w1 = Ok w2 \<and> sys_ok w2
    \<and> growing p (n_vclocks (clk n)) is ks w2 \<and> capacity p w2 = capacity p w \<and> subseq is (map (idx_of w2) ks)
    \<and> (\<forall>k \<in> set (drop (length ks) (kids n)). \<not> plugged k w2)
    \<and> (\<forall>b. b \<noteq> p \<longrightarrow> b \<notin> set (drop (length ks) (kids n)) \<longrightarrow> nodes w2 b = nodes w b)
    \<and> (\<forall>b. b \<notin> set (drop (length ks) (kids n)) \<longrightarrow> plugged b w2 = plugged b w)"
proof -
  note tn = trackedD [OF tr n]
  note parts = ids_parts [OF ok]
  let ?l = "length (kids n) - d"
  let ?ks = "take d (rev (kids n))"
  have d: "0 < d" "d \<le> length (kids n)" "d \<le> n_vclocks (clk n)" using num tn(6) by (simp_all add: d_def)
  have l: "length ks = ?l" by (simp add: ks_def)
  have dk: "distinct (kids n)" by (rule tree_okD(1) [OF parts(4) n])
  have rest: "filter (\<lambda>k. k \<notin> set ?ks) (kids n) = ks" using filter_take_rev [OF dk d(2)] by (simp add: ks_def)
  have gone: "set ?ks = set (drop (length ks) (kids n))" unfolding l by (simp add: take_rev)
  have sub: "distinct ?ks" "set ?ks \<subseteq> set (kids n)" using dk set_take_subset [of d "rev (kids n)"] by simp_all
  from unregister_some [OF ok n tn(1) sub, of intr, unfolded rest] obtain w1 n1 where w1: "each (unregister_vclock intr) ?ks w = Ok w1" "sys_ok w1"
    "taken_out (set ?ks) w w1" "nodes w1 p = Some n1" "kids n1 = ks" "clk n1 = clk n" "parent n1 = parent n"
    "\<And>b. b \<noteq> p \<Longrightarrow> b \<notin> set ?ks \<Longrightarrow> nodes w1 b = nodes w b"
    by blast
  have del: "delete_vclocks intr d (rev (kids n)) w = Ok w1" using w1(1) d(1) by (simp add: delete_each)
  have r: "n_vclocks (clk n) \<le> length (vclock_index (clk n1))" using tn(3,4) w1(6) by simp
  from clear_run [OF w1(2,4) d(3) r] obtain w2 vi where w2: "clear_indices (n_vclocks (clk n)) p d w1 = Ok w2" "sys_ok w2"
    "nodes w2 = (nodes w1)(p \<mapsto> n1\<lparr>clk := (clk n1)\<lparr>vclock_index := vi\<rparr>\<rparr>)" "length vi = length (vclock_index (clk n1))"
    "\<And>j. j < n_vclocks (clk n) - d \<Longrightarrow> vi ! j = vclock_index (clk n1) ! j" "\<And>b. plugged b w2 = plugged b w1" by auto
  have p: "p \<notin> set (kids n)" using child(4) [OF parts(4) n n] by blast
  have pk: "p \<notin> set ?ks" using sub(2) p by blast
  then have "plugged p w2" using w1(3) w2(6) tn(1) by (simp add: taken_out_def)
  moreover have numd: "n_vclocks (clk n) - d = num" using num by (simp add: d_def)
  have "take num vi = is"
    unfolding is_def using w2(4,5) w1(6) num tn(3,4) by (intro nth_equalityI) (simp_all add: numd)
  ultimately have "growing p (n_vclocks (clk n)) is ks w2"
    unfolding growing_def using w1(5-7) w2(3,4) tn num
    by (intro exI [of _ "n1\<lparr>clk := (clk n1)\<lparr>vclock_index := vi\<rparr>\<rparr>"]) (simp add: is_def)
  moreover have "capacity p w2 = capacity p w" using w2(3) w1(6) n by (simp add: capacity_def)
  moreover have "subseq is (map (idx_of w2) ks)"
  proof -
    have "take (length (take (n_vclocks (clk n)) (vclock_index (clk n))) - d) (take (n_vclocks (clk n)) (vclock_index (clk n))) = is"
      using tn(3,4) num by (simp add: is_def numd min_def)
    moreover have "take (length (map (idx_of w) (kids n)) - d) (map (idx_of w) (kids n)) = map (idx_of w) ks"
      by (simp add: ks_def take_map)
    ultimately have s: "subseq is (map (idx_of w) ks)"
      using subseq_take_front [OF tn(5), of d] d(3) tn(3,4) by simp
    have "k \<noteq> p \<and> k \<notin> set ?ks" if "k \<in> set ks" for k
    proof -
      have "set (take ?l (kids n)) \<inter> set (drop ?l (kids n)) = {}" using dk by (rule set_take_disj_set_drop_if_distinct) simp
      then show ?thesis using that p gone l set_take_subset [of ?l "kids n"] unfolding ks_def by auto
    qed
    then have "map (idx_of w2) ks = map (idx_of w) ks" using w1(8) w2(3) by (simp add: idx_of_def)
    with s show ?thesis by (simp only:)
  qed
  moreover have "\<not> plugged k w2" if "k \<in> set (drop (length ks) (kids n))" for k
    using that w1(3) w2(6) gone by (simp add: taken_out_def)
  moreover have "nodes w2 b = nodes w b" if "b \<noteq> p" "b \<notin> set (drop (length ks) (kids n))" for b
    using that w1(8) w2(3) gone by simp
  moreover have "plugged b w2 = plugged b w" if "b \<notin> set (drop (length ks) (kids n))" for b
    using that w1(3) w2(6) gone by (simp add: taken_out_def)
  ultimately show ?thesis using del w2(1,2) by blast
qed

text \<open>The effect of a store on the virtual clocks, when it creates some and when it deletes some.\<close>

definition vclocks_added :: "nat \<Rightarrow> nat list \<Rightarrow> ('d, 'v) ptp_core \<Rightarrow> ('d, 'v) ptp_core \<Rightarrow> bool" where
  "vclocks_added p new w w' \<longleftrightarrow> children p w' = children p w @ new \<and> (\<forall>k \<in> set new. nodes w k = None)
     \<and> take (counter p w + length new) (indices p w') = take (counter p w) (indices p w) @ map (idx_of w') new
     \<and> (\<forall>b. b \<noteq> p \<longrightarrow> nodes w b \<noteq> None \<longrightarrow> nodes w' b = nodes w b) \<and> (\<forall>b. plugged b w' \<longleftrightarrow> plugged b w \<or> b \<in> set new)"

definition vclocks_deleted :: "nat \<Rightarrow> nat \<Rightarrow> ('d, 'v) ptp_core \<Rightarrow> ('d, 'v) ptp_core \<Rightarrow> bool" where
  "vclocks_deleted p c w w' \<longleftrightarrow>
     (let left = length (children p w) - c; gone = set (drop left (children p w))
      in children p w' = take left (children p w) \<and> (\<forall>k \<in> gone. \<not> plugged k w')
         \<and> take (counter p w - c) (indices p w') = take (counter p w - c) (indices p w)
         \<and> (\<forall>b. b \<noteq> p \<longrightarrow> b \<notin> gone \<longrightarrow> nodes w' b = nodes w b \<and> plugged b w' = plugged b w) \<and> plugged p w')"

lemma n_vclocks_store_result:
  assumes ok: "sys_ok w" and tr: "tracked p w" and new: "new_addresses env 0 w"
  shows "\<exists>r w'. n_vclocks_store ops hz env intr sig parsed count p w = Ok (r, w') \<and> sys_ok w' \<and> tracked p w'
    \<and> (case r of
         Inl e \<Rightarrow> w' = w \<or> e = EINVAL \<and> counter p w' = counter p w \<and> (\<exists>new num. parsed = Some num
           \<and> length new < unat num - counter p w \<and> vclocks_added p new w w')
       | Inr c \<Rightarrow> \<exists>num. parsed = Some num \<and> c = count \<and> counter p w' = unat num
           \<and> (if counter p w \<le> unat num then \<exists>new. length new = unat num - counter p w \<and> vclocks_added p new w w'
              else vclocks_deleted p (counter p w - unat num) w w'))"
proof -
  from tr obtain n where n: "nodes w p = Some n" by (auto simp: tracked_def)
  note tn = trackedD [OF tr n]
  note parts = ids_parts [OF ok]
  define n0 where "n0 = n_vclocks (clk n)"
  define arr where "arr = take n0 (vclock_index (clk n))"
  have here: "children p w = kids n" "counter p w = n0" "indices p w = vclock_index (clk n)" "capacity p w = max_vclocks (clk n)"
    using n by (simp_all add: children_def counter_def indices_def capacity_def n0_def)
  have len: "length arr = n0" using tn(3,4) by (simp add: arr_def n0_def)
  have gr: "growing p n0 arr (kids n) w" using n tn len by (auto simp: growing_def arr_def n0_def)
  have kp: "k \<noteq> p" if "k \<in> set (kids n)" for k using that child(4) [OF parts(4) n n] by blast
  show ?thesis
  proof (cases "parsed = None \<or> sig")
    case True
    then show ?thesis using ok tr by (cases parsed) (auto simp: n_vclocks_store_def)
  next
    case False
    then obtain num where num: "parsed = Some num" "\<not> sig" by auto
    have refuse: ?thesis if "unat num > capacity p w"
      using that num n here(4) ok tr by (simp add: n_vclocks_store_def node_def Let_def)
    have grow: ?thesis if room: "unat num \<le> capacity p w" and more: "n0 \<le> unat num"
    proof -
      let ?r = "unat num - n0"
      have "n0 + 0 + ?r \<le> capacity p w" using room more by simp
      from create_run [OF ok gr _ this new, of ops hz] len obtain all w1 new where w1:
        "create_vclocks ops hz env p 0 ?r w = Ok (all, w1)" "sys_ok w1" "capacity p w1 = capacity p w"
        "growing p n0 (arr @ map (idx_of w1) new) (kids n @ new) w1" "length new \<le> ?r" "all \<longleftrightarrow> length new = ?r"
        "\<And>k. k \<in> set new \<Longrightarrow> nodes w k = None"
        "\<And>b. b \<noteq> p \<Longrightarrow> nodes w b \<noteq> None \<Longrightarrow> nodes w1 b = nodes w b" "\<And>b. plugged b w1 \<longleftrightarrow> plugged b w \<or> b \<in> set new" by auto
      have known: "nodes w k \<noteq> None" if "k \<in> set (kids n)" for k
        using that tree_okD(4) [OF parts(4) n, of k] by auto
      have "map (idx_of w1) (kids n) = map (idx_of w) (kids n)" using kp w1(8) known by (simp add: idx_of_def)
      with tn(5) have sub0: "subseq arr (map (idx_of w1) (kids n))" by (simp only: arr_def n0_def)
      then have sub: "subseq (arr @ map (idx_of w1) new) (map (idx_of w1) (kids n @ new))" by simp
      have np: "k \<noteq> p" if "k \<in> set (kids n @ new)" for k using that kp w1(7) n by auto
      from w1(4) obtain n1 where n1: "nodes w1 p = Some n1" "plugged p w1" "parent n1 = None" "n_vclocks (clk n1) = n0"
        "kids n1 = kids n @ new" "length (vclock_index (clk n1)) = max_vclocks (clk n1)"
        "take (length (arr @ map (idx_of w1) new)) (vclock_index (clk n1)) = arr @ map (idx_of w1) new" by (auto simp: growing_def)
      have cap1: "max_vclocks (clk n1) = capacity p w" using w1(3) n1(1) by (simp add: capacity_def)
      have added1: "vclocks_added p new w w1"
        unfolding vclocks_added_def here using n1 w1(7-9) len by (simp add: children_def indices_def arr_def)
      show ?thesis
      proof (cases all)
        case True
        then have full: "length (arr @ map (idx_of w1) new) = unat num" using w1(6) len more by simp
        have "length (arr @ map (idx_of w1) new) \<le> capacity p w1" using room w1(3) full by simp
        from finish_count [OF w1(2,4) this sub np, unfolded full] obtain w2 where w2:
          "set_n_vclocks (unat num) count p w1 = Ok (Inr count, w2)" "sys_ok w2" "tracked p w2" "children p w2 = kids n @ new"
          "counter p w2 = unat num" "indices p w2 = indices p w1" "\<And>b. b \<noteq> p \<Longrightarrow> nodes w2 b = nodes w1 b" "\<And>b. plugged b w2 = plugged b w1"
          by blast
        have "n_vclocks_store ops hz env intr sig parsed count p w = Ok (Inr count, w2)"
        proof (cases "n0 = unat num")
          case same: True
          then have "w1 = w" using w1(1) by simp
          then show ?thesis using w2(1) same num n here(4) room by (simp add: n_vclocks_store_def node_def Let_def n0_def)
        next
          case False
          then show ?thesis using w1(1) w2(1) True num n here(4) room more
            by (simp add: n_vclocks_store_def node_def Let_def n0_def)
        qed
        moreover have "vclocks_added p new w w2"
        proof -
          have "map (idx_of w2) new = map (idx_of w1) new" using np w2(7) by (simp add: idx_of_def)
          then show ?thesis using added1 w2(4,6-8) unfolding vclocks_added_def here by simp
        qed
        ultimately show ?thesis using w2(2,3,5) num(1) more w1(6) True here(2) by auto
      next
        case all: False
        then have less: "length new < ?r" using w1(5,6) by simp
        then have "n0 < unat num" by simp
        then have "n_vclocks_store ops hz env intr sig parsed count p w = Ok (Inl EINVAL, w1)"
          using w1(1) all num n here(4) room by (simp add: n_vclocks_store_def node_def Let_def n0_def)
        moreover have "tracked p w1"
        proof -
          have "take n0 (vclock_index (clk n1)) = arr"
            using arg_cong [OF n1(7), of "take n0"] len by (simp add: min_def)
          moreover have "subseq arr (map (idx_of w1) (kids n @ new))" using list_emb_prefix [OF sub0] by simp
          ultimately show ?thesis
            unfolding tracked_def using n1 cap1 room more by (intro exI [of _ n1]) simp
        qed
        moreover have "counter p w1 = n0" using n1 by (simp add: counter_def)
        ultimately show ?thesis using w1(2) added1 less num(1) here(2) by auto
      qed
    qed
    have shrink: ?thesis if less: "unat num < n0" and room: "unat num \<le> capacity p w"
    proof -
      let ?d = "n0 - unat num"
      let ?ks = "take (length (kids n) - ?d) (kids n)" and ?is = "take (unat num) (vclock_index (clk n))"
      from shrink_run [OF ok tr less [unfolded n0_def] n, folded n0_def, of intr] obtain w1 w2 where w2:
        "delete_vclocks intr ?d (rev (kids n)) w = Ok w1" "clear_indices n0 p ?d w1 = Ok w2" "sys_ok w2"
        "growing p n0 ?is ?ks w2" "capacity p w2 = capacity p w" "subseq ?is (map (idx_of w2) ?ks)"
        "\<forall>k \<in> set (drop (length ?ks) (kids n)). \<not> plugged k w2"
        "\<And>b. b \<noteq> p \<Longrightarrow> b \<notin> set (drop (length ?ks) (kids n)) \<Longrightarrow> nodes w2 b = nodes w b"
        "\<And>b. b \<notin> set (drop (length ?ks) (kids n)) \<Longrightarrow> plugged b w2 = plugged b w" by blast
      have lis: "length ?is = unat num" using room here(4) tn(3) by simp
      have "length ?is \<le> capacity p w2" using room w2(5) lis by simp
      moreover have np: "k \<noteq> p" if "k \<in> set ?ks" for k using that kp set_take_subset [of "length (kids n) - ?d" "kids n"] by auto
      ultimately obtain w3 where w3:
        "set_n_vclocks (unat num) count p w2 = Ok (Inr count, w3)" "sys_ok w3" "tracked p w3" "children p w3 = ?ks"
        "counter p w3 = unat num" "indices p w3 = indices p w2" "\<And>b. b \<noteq> p \<Longrightarrow> nodes w3 b = nodes w2 b" "\<And>b. plugged b w3 = plugged b w2"
        using finish_count [OF w2(3,4) _ w2(6), of count] unfolding lis by blast
      have "n_vclocks_store ops hz env intr sig parsed count p w = Ok (Inr count, w3)"
        using w2(1,2) w3(1) less here(4) room num n by (simp add: n_vclocks_store_def node_def Let_def n0_def)
      moreover have "vclocks_deleted p ?d w w3"
      proof -
        have "take (unat num) (indices p w2) = ?is" using w2(4) lis by (auto simp: growing_def indices_def)
        moreover have "n0 - ?d = unat num" using less by simp
        moreover have "plugged p w3" using w3(3) by (auto simp: tracked_def)
        ultimately show ?thesis
          unfolding vclocks_deleted_def here Let_def using w3(4,6-8) w2(7-9) by simp
      qed
      ultimately show ?thesis using w3(2,3,5) num(1) less here(2) by auto
    qed
    show ?thesis using refuse grow shrink by (meson not_less)
  qed
qed

end
