(* ===== verification/Ptp_Props.thy ===== *)
theory Ptp_Props
  imports Ptp_Sysfs
begin

text \<open>
  The properties of the clocks of the system: registration, unregistration, the invariant of every use, virtual
  clocks and the conversion of timestamps.
\<close>

section \<open>Before the first clock\<close>

definition empty_core :: "('d, 'v) ptp_core" where
  "empty_core = \<lparr>clocks_map = [], nodes = Map.empty, objs = {}, vclocks = Map.empty, vclock_hash = \<lambda>h. []\<rparr>"

lemma empty_ok: "sys_ok empty_core"
  by (simp add: sys_ok_def sys_pre_def live_ok_def idx_ok_def own_ok_def refs_ok_def tree_ok_def vclocks_ok_def hash_ok_def empty_core_def)

text \<open>Everything succeeds; the clock is at the given address.\<close>

definition all_well :: "nat \<Rightarrow> reg_env" where
  "all_well a = \<lparr>e_clock = Some a, e_xa = True, e_queue = True, e_mask = True, e_kworker = None, e_vindex = True,
     e_pin_dev = True, e_pin = True, e_pps = None, e_posix = None\<rparr>"

text \<open>A timecounter that shows the cycles since it was started, at the nominal rate.\<close>

definition plain_tc :: "(u64 \<times> u64) timecounter_ops" where
  "plain_tc = \<lparr>tc_init = \<lambda>c t. (c, t), tc_read = \<lambda>m c (c0, t). (t + (c - c0), (c, t + (c - c0))),
     tc_adjtime = \<lambda>d (c0, t). (c0, t + d), tc_cyc2time = \<lambda>m c (c0, t). t + (c - c0)\<rparr>"

abbreviation mock_info :: "mock_phc ptp_clock_info" where
  "mock_info \<equiv> mock_phc_info 0 0"

abbreviation the_mock :: "mock_phc ptp_owner" where
  "the_mock \<equiv> Hw (mock_phc_initial 0 0)"

lemma register_mock:
  "\<exists>w. snd (ptp_clock_register (all_well 1) None mock_info the_mock mock_pins (empty_core :: (mock_phc, 'tc) ptp_system)) = Ok (Inr 1, w)
     \<and> sys_ok w \<and> tracked 1 w \<and> no_files 1 w \<and> children 1 w = [] \<and> vclocks w = Map.empty \<and> (\<forall>a. a \<noteq> 1 \<longrightarrow> nodes w a = None)"
proof -
  let ?r = "snd (ptp_clock_register (all_well 1) None mock_info the_mock mock_pins (empty_core :: (mock_phc, 'tc) ptp_system))"
  have place: "parent_there None (empty_core :: (mock_phc, 'tc) ptp_system)" "fresh 1 (empty_core :: (mock_phc, 'tc) ptp_system)"
    by (simp_all add: parent_there_def fresh_def empty_core_def)
  have ok: "\<not> (\<exists>err. ?r = Ok (Inl err, empty_core))"
    by (simp add: ptp_clock_register_def all_well_def mock_phc_info_def PTP_MAX_ALARMS_def xa_alloc_def empty_core_def xa_limit_31b_def
        register_queue_def Let_def complete_cycles_def register_worker_def register_vclocks_def node_def set_node_def take_obj_def
        zeroed_node_def register_pins_def ptp_populate_pin_groups_def mock_pins_def register_pps_def register_posix_def posix_clock_register_def)
  then obtain w where w: "?r = Ok (Inr 1, w)" "sys_ok w" "plugged 1 w"
    "nodes w = [1 \<mapsto> made None mock_info (new_index (empty_core :: (mock_phc, 'tc) ptp_system)) the_mock mock_pins]"
    using register_physical [OF empty_ok, of "all_well 1" mock_info the_mock mock_pins, where 'b = 'tc]
    by (auto simp: all_well_def empty_core_def)
  have "tracked 1 w" by (rule made_tracked [OF _ w(3)]) (simp add: w(4))
  moreover have "no_files 1 w" by (simp add: no_files_def w(4) made_def Let_def split: prod.split)
  moreover have "children 1 w = []" by (simp add: children_def w(4) made_def Let_def split: prod.split)
  moreover have "vclocks w v = None" for v
  proof (cases "vclocks w v")
    case (Some vc)
    have "parent (made None mock_info i the_mock mock_pins) = None" for i by (simp add: made_def Let_def split: prod.split)
    then show ?thesis using vclocks_okD2 [OF ids_parts(5) [OF w(2)] Some] by (auto simp: w(4) split: if_splits)
  qed
  ultimately show ?thesis using w by (intro exI [of _ w]) auto
qed

section \<open>Registration and unregistration\<close>

text \<open>
  C33: The registration of a clock always returns. Whatever fails in it, memory for one of its parts, the index, the
  worker, the PPS source or the character device, nothing of the clock is left: the table of indices, the clocks, and everything
  that is owned are as before. If it succeeds the clock is in the table and the invariant of the system holds.
\<close>

theorem ptp_clock_register_all_or_nothing:
  assumes "sys_ok w" and "\<And>a. e_clock e = Some a \<Longrightarrow> nodes w a = None"
  shows "(\<exists>err. snd (ptp_clock_register e None info d pins w) = Ok (Inl err, w))
    \<or> (\<exists>a w'. e_clock e = Some a \<and> snd (ptp_clock_register e None info d pins w) = Ok (Inr a, w') \<and> sys_ok w'
         \<and> plugged a w' \<and> nodes w' = (nodes w)(a \<mapsto> made None info (new_index w) d pins))"
  by (rule register_physical [OF assms])

lemma ptp_clock_register_all_or_nothing_witness:
  "(\<exists>err. snd (ptp_clock_register (all_well 3) None mock_info the_mock mock_pins (empty_core :: (mock_phc, unit) ptp_system))
      = Ok (Inl err, empty_core))
    \<or> (\<exists>a w'. e_clock (all_well 3) = Some a
         \<and> snd (ptp_clock_register (all_well 3) None mock_info the_mock mock_pins (empty_core :: (mock_phc, unit) ptp_system)) = Ok (Inr a, w')
         \<and> sys_ok w' \<and> plugged a w'
         \<and> nodes w' = (nodes empty_core)(a \<mapsto> made None mock_info (new_index (empty_core :: (mock_phc, unit) ptp_system)) the_mock mock_pins))"
  using ptp_clock_register_all_or_nothing [OF empty_ok, of "all_well 3" mock_info the_mock mock_pins] by (simp add: empty_core_def)

text \<open>
  C34: Unregistering a physical clock that is in the system always returns, and takes the clock out of the system. Its
  virtual clocks are taken out with it, all of them, if its counter \<open>n_vclocks\<close> is not zero, or if a signal interrupts the question;
  if the counter is zero, which it can be while virtual clocks remain of a request that failed halfway, none is: they stay
  in the system as they were. A clock that is taken out is released if and only if no file of it is open and no virtual clock of it is
  left; what is released leaves nothing that it owned and no entry in the table of indices. All other clocks stay as they were.
\<close>

theorem ptp_clock_unregister_complete:
  assumes "sys_ok w" and "nodes w a = Some n" and "plugged a w" and "parent n = None"
    and taken: "taken = (if n_vclocks (clk n) \<noteq> 0 \<or> intr a then insert a (set (kids n)) else {a})"
  shows "\<exists>w'. ptp_clock_unregister intr a w = Ok w' \<and> sys_ok w'
    \<and> (\<forall>b \<in> taken. \<not> plugged b w'
         \<and> (if no_files b w \<and> (b = a \<longrightarrow> set (kids n) \<subseteq> taken)
            then nodes w' b = None \<and> (\<forall>r. (b, r) \<notin> objs w') \<and> (\<forall>i. xa_load (clocks_map w') i \<noteq> Some b)
            else nodes w' b \<noteq> None))
    \<and> (\<forall>b. b \<notin> taken \<longrightarrow> nodes w' b = nodes w b \<and> plugged b w' = plugged b w)"
proof -
  from clock_unregister_result [where intr = intr, OF assms(1-4)] obtain w' where w': "ptp_clock_unregister intr a w = Ok w'" "sys_ok w'"
    "\<forall>b \<in> set (removed_kids intr a n). nodes w' b = None \<longleftrightarrow> no_files b w"
    "\<forall>b. plugged b w' \<longleftrightarrow> plugged b w \<and> b \<notin> insert a (set (removed_kids intr a n))"
    "nodes w' a = None \<longleftrightarrow> removed_kids intr a n = kids n \<and> no_files a w"
    "\<forall>b. b \<notin> insert a (set (removed_kids intr a n)) \<longrightarrow> nodes w' b = nodes w b"
    by (elim exE conjE) (rule that; assumption)
  have a: "a \<notin> set (kids n)" using child(4) [OF ids_parts(4) [OF assms(1)] assms(2,2)] by blast
  have t: "taken = insert a (set (removed_kids intr a n))" by (simp add: taken removed_kids_def)
  have all: "removed_kids intr a n = kids n \<longleftrightarrow> set (kids n) \<subseteq> taken"
    using a unfolding t by (cases "kids n") (auto simp: removed_kids_def)
  have gone: "nodes w' b = None \<longleftrightarrow> no_files b w \<and> (b = a \<longrightarrow> set (kids n) \<subseteq> taken)" if "b \<in> taken" for b
  proof (cases "b = a")
    case True
    then show ?thesis using w'(5) all by auto
  next
    case False
    then have "b \<in> set (removed_kids intr a n)" using that a unfolding t by simp
    then show ?thesis using False w'(3) by simp
  qed
  have none: "(b, r) \<notin> objs w'" "xa_load (clocks_map w') i \<noteq> Some b" if "nodes w' b = None" for b r i
    using own_none [OF ids_parts(2) [OF w'(2)] that] ids_parts(1) [OF w'(2)] that by (simp_all add: idx_ok_def)
  show ?thesis
    using w'(1,2,4,6) gone none by (intro exI [of _ w']) (simp add: t [symmetric])
qed

lemma ptp_clock_unregister_complete_witness:
  "\<exists>w w'. snd (ptp_clock_register (all_well 1) None mock_info the_mock mock_pins (empty_core :: (mock_phc, unit) ptp_system)) = Ok (Inr 1, w)
     \<and> ptp_clock_unregister (\<lambda>k. False) 1 w = Ok w' \<and> nodes w' 1 = None"
proof -
  obtain w where w: "snd (ptp_clock_register (all_well 1) None mock_info the_mock mock_pins (empty_core :: (mock_phc, unit) ptp_system)) = Ok (Inr 1, w)"
    "sys_ok w" "tracked 1 w" "no_files 1 w" "children 1 w = []"
    using register_mock by blast
  then obtain n where n: "nodes w 1 = Some n" "plugged 1 w" "parent n = None" "kids n = []"
    by (auto simp: tracked_def children_def)
  from ptp_clock_unregister_complete [OF w(2) n(1-3) refl, of "\<lambda>k. False"] n(4) w(4)
  obtain w' where "ptp_clock_unregister (\<lambda>k. False) 1 w = Ok w'" "nodes w' 1 = None" by auto
  with w(1) show ?thesis by blast
qed

text \<open>
  C35: Writing to \<open>n_vclocks\<close> of a physical clock always returns, without touching dead memory or
  writing beyond the array of indices. An accepted number becomes the counter. If it is not less than the counter was, exactly
  the difference of virtual clocks is created, after the ones that were there, and their indices follow the old ones in
  \<open>vclock_index\<close>; if it is less, exactly the difference of the youngest virtual clocks is taken out of the system. So
  the number of virtual clocks changes by exactly as much as the counter, and is the number written whenever the counter was right. A
  refused request changes nothing, unless a creation failed: then fewer than asked for are created and stay, while the counter
  keeps its old value. That the array has its full length and lists, up to the counter, virtual clocks of this clock in the order of
  their creation, is all that is assumed of the clock, besides the invariant of the system, and it holds again afterwards.
\<close>

theorem n_vclocks_store_exact:
  assumes "sys_ok w" and "tracked p w" and "new_addresses env 0 w"
  shows "\<exists>r w'. n_vclocks_store ops hz env intr sig parsed count p w = Ok (r, w') \<and> sys_ok w' \<and> tracked p w'
    \<and> (case r of
         Inl e \<Rightarrow> w' = w \<or> e = EINVAL \<and> counter p w' = counter p w \<and> (\<exists>new num. parsed = Some num
           \<and> length new < unat num - counter p w \<and> vclocks_added p new w w')
       | Inr c \<Rightarrow> \<exists>num. parsed = Some num \<and> c = count \<and> counter p w' = unat num
           \<and> length (children p w') + counter p w = length (children p w) + unat num
           \<and> (if counter p w \<le> unat num then \<exists>new. length new = unat num - counter p w \<and> vclocks_added p new w w'
              else vclocks_deleted p (counter p w - unat num) w w'))"
proof -
  have le: "counter p w \<le> length (children p w)"
    using assms(2) trackedD(6) [OF assms(2)] by (auto simp: tracked_def counter_def children_def)
  have len: "length (children p w') + counter p w = length (children p w) + num"
    if "if counter p w \<le> num then \<exists>new. length new = num - counter p w \<and> vclocks_added p new w w'
        else vclocks_deleted p (counter p w - num) w w'" for num w'
    using that le by (auto simp: vclocks_added_def vclocks_deleted_def Let_def split: if_splits)
  from n_vclocks_store_result [OF assms, of ops hz intr sig parsed count] obtain r w' where w':
    "n_vclocks_store ops hz env intr sig parsed count p w = Ok (r, w')" "sys_ok w'" "tracked p w'"
    "case r of
         Inl e \<Rightarrow> w' = w \<or> e = EINVAL \<and> counter p w' = counter p w \<and> (\<exists>new num. parsed = Some num
           \<and> length new < unat num - counter p w \<and> vclocks_added p new w w')
       | Inr c \<Rightarrow> \<exists>num. parsed = Some num \<and> c = count \<and> counter p w' = unat num
           \<and> (if counter p w \<le> unat num then \<exists>new. length new = unat num - counter p w \<and> vclocks_added p new w w'
              else vclocks_deleted p (counter p w - unat num) w w')" by blast
  show ?thesis
  proof (cases r)
    case (Inl e)
    then show ?thesis using w' by (intro exI [of _ r] exI [of _ w']) simp
  next
    case (Inr c)
    with w'(4) obtain num where num: "parsed = Some num" "c = count" "counter p w' = unat num"
      "if counter p w \<le> unat num then \<exists>new. length new = unat num - counter p w \<and> vclocks_added p new w w'
              else vclocks_deleted p (counter p w - unat num) w w'" by auto
    then show ?thesis using Inr w'(1-3) len [OF num(4)] by (intro exI [of _ r] exI [of _ w']) simp
  qed
qed

text \<open>Virtual clocks that are not counted survive their physical clock.\<close>

lemma uncounted_survive:
  assumes ok: "sys_ok w" and n: "nodes w a = Some n" "plugged a w" "parent n = None" and k: "k \<in> set (kids n)" and zero: "n_vclocks (clk n) = 0"
  shows "\<exists>w'. ptp_clock_unregister (\<lambda>k. False) a w = Ok w' \<and> \<not> plugged a w' \<and> plugged k w' \<and> nodes w' a \<noteq> None"
proof -
  note parts = ids_parts [OF ok]
  have "k \<noteq> a" "plugged k w" using child(4) [OF parts(4) n(1) n(1)] tree_okD(4) [OF parts(4) n(1), of k] k by auto
  moreover have "removed_kids (\<lambda>k. False) a n = []" "kids n \<noteq> []" using zero k by (auto simp: removed_kids_def)
  ultimately show ?thesis using clock_unregister_result [OF ok n, of "\<lambda>k. False"] by auto
qed

section \<open>Every use\<close>

text \<open>
  The calls that can be made on the clocks of the system, with their outcome: registrations, writes to the
  attributes \<open>n_vclocks\<close> and \<open>max_vclocks\<close>, which only a physical clock that is in the system has, opening and closing of
  files, unregistrations of physical clocks by their drivers. The addresses of new objects are new.
\<close>

inductive ptp_call :: "('d, 'tc) ptp_system \<Rightarrow> ('d, 'tc) ptp_system res \<Rightarrow> bool" where
  register: "(\<And>a. e_clock e = Some a \<Longrightarrow> nodes w a = None) \<Longrightarrow>
    ptp_call w (andthen (snd (ptp_clock_register e None (info :: 'd ptp_clock_info) (Hw d) pins w)) (\<lambda>(r, w'). Ok w'))"
| vclocks: "nodes w p = Some n \<Longrightarrow> plugged p w \<Longrightarrow> parent n = None \<Longrightarrow> new_addresses env 0 w \<Longrightarrow>
    ptp_call w (andthen (n_vclocks_store ops hz env intr sig parsed count p w) (\<lambda>(r, w'). Ok w'))"
| limit: "nodes w p = Some n \<Longrightarrow> plugged p w \<Longrightarrow> parent n = None \<Longrightarrow>
    ptp_call w (Ok (set_node p (n\<lparr>clk := snd (max_vclocks_store mem sig parsed count (clk n))\<rparr>) w))"
| opened: "nodes w a = Some n \<Longrightarrow> h \<notin> fst ` set (tsevqs (clk n)) \<Longrightarrow> ptp_call w (posix_clock_open mq mm h a w)"
| closed: "nodes w a = Some n \<Longrightarrow> (h, q) \<in> set (tl (tsevqs (clk n))) \<Longrightarrow> ptp_call w (posix_clock_release h a w)"
| unregister: "nodes w a = Some n \<Longrightarrow> plugged a w \<Longrightarrow> parent n = None \<Longrightarrow> ptp_call w (ptp_clock_unregister intr a w)"

definition ptp_step :: "('d, 'tc) ptp_system \<Rightarrow> ('d, 'tc) ptp_system \<Rightarrow> bool" where
  "ptp_step w w' \<longleftrightarrow> ptp_call w (Ok w')"

text \<open>The invariant of the system, with the counters and index arrays of its physical clocks.\<close>

definition all_tracked :: "('d, 'tc) ptp_system \<Rightarrow> bool" where
  "all_tracked w \<longleftrightarrow> (\<forall>a n. nodes w a = Some n \<longrightarrow> plugged a w \<longrightarrow> parent n = None \<longrightarrow> tracked a w)"

definition sys_inv :: "('d, 'tc) ptp_system \<Rightarrow> bool" where
  "sys_inv w \<longleftrightarrow> sys_ok w \<and> all_tracked w"

lemma kids_known: "sys_ok w \<Longrightarrow> nodes w a = Some n \<Longrightarrow> k \<in> set (kids n) \<Longrightarrow> \<exists>m. nodes w k = Some m \<and> plugged k w \<and> parent m = Some a"
  using tree_okD(4) [OF ids_parts(4)] by blast

text \<open>A physical clock that a call does not concern stays tracked, as its virtual clocks keep their indices.\<close>

lemma all_trackedI:
  assumes ok: "sys_ok w" and tr: "all_tracked w"
    and here: "\<And>a. a \<in> A \<Longrightarrow> plugged a w' \<Longrightarrow> tracked a w'"
    and there: "\<And>a n'. a \<notin> A \<Longrightarrow> nodes w' a = Some n' \<Longrightarrow> plugged a w' \<Longrightarrow> parent n' = None \<Longrightarrow>
      \<exists>n qs. nodes w a = Some n \<and> plugged a w \<and> parent n = None \<and> kids n' = kids n \<and> clk n' = (clk n)\<lparr>tsevqs := qs\<rparr>
        \<and> (\<forall>k \<in> set (kids n). idx_of w' k = idx_of w k)"
  shows "all_tracked w'"
  unfolding all_tracked_def
proof (intro allI impI)
  fix a n'
  assume a: "nodes w' a = Some n'" "plugged a w'" "parent n' = None"
  show "tracked a w'"
  proof (cases "a \<in> A")
    case False
    from there [OF this a] obtain n qs where n: "nodes w a = Some n" "plugged a w" "parent n = None" "kids n' = kids n"
      "clk n' = (clk n)\<lparr>tsevqs := qs\<rparr>" "\<forall>k \<in> set (kids n). idx_of w' k = idx_of w k" by blast
    have "tracked a w" using tr n by (simp add: all_tracked_def)
    then show ?thesis by (rule tracked_frame [OF _ n(1) a(1,2)]) (use n a(3) in simp_all)
  qed (rule here [OF _ a(2)])
qed

lemma idx_same: "nodes w' k = nodes w k \<Longrightarrow> idx_of w' k = idx_of w k"
  by (simp add: idx_of_def)

lemma same_queues: "\<exists>qs. c = c\<lparr>tsevqs := qs\<rparr>"
  by (rule exI [of _ "tsevqs c"]) simp

text \<open>A call that leaves the fields of all other clocks alone, at most their queues, and takes no clock's children away.\<close>

lemma tracked_elsewhere:
  assumes inv: "sys_inv w" and here: "\<And>a. a \<in> A \<Longrightarrow> plugged a w' \<Longrightarrow> tracked a w'"
    and same: "\<And>a. a \<notin> A \<Longrightarrow> plugged a w' \<Longrightarrow> plugged a w \<and> nodes w' a = nodes w a"
    and kids: "\<And>a n k. a \<notin> A \<Longrightarrow> nodes w a = Some n \<Longrightarrow> plugged a w \<Longrightarrow> k \<in> set (kids n) \<Longrightarrow> idx_of w' k = idx_of w k"
  shows "all_tracked w'"
proof (rule all_trackedI [where A = A])
  fix a n'
  assume a: "a \<notin> A" "nodes w' a = Some n'" "plugged a w'" "parent n' = None"
  then have w: "plugged a w" "nodes w a = Some n'" using same by simp_all
  obtain qs where "clk n' = (clk n')\<lparr>tsevqs := qs\<rparr>" using same_queues by blast
  then show "\<exists>n qs. nodes w a = Some n \<and> plugged a w \<and> parent n = None \<and> kids n' = kids n \<and> clk n' = (clk n)\<lparr>tsevqs := qs\<rparr>
      \<and> (\<forall>k \<in> set (kids n). idx_of w' k = idx_of w k)"
    using a(4) w kids [OF a(1) w(2,1)] by blast
qed (use inv here in \<open>simp_all add: sys_inv_def\<close>)

lemma register_call:
  assumes inv: "sys_inv w" and e: "\<And>a. e_clock e = Some a \<Longrightarrow> nodes w a = None"
  shows "\<exists>w'. andthen (snd (ptp_clock_register e None info d pins w)) (\<lambda>(r, w'). Ok w') = Ok w' \<and> sys_inv w'"
proof -
  have ok: "sys_ok w" using inv by (simp add: sys_inv_def)
  consider err where "snd (ptp_clock_register e None info d pins w) = Ok (Inl err, w)"
    | (made) a w' where "e_clock e = Some a" "snd (ptp_clock_register e None info d pins w) = Ok (Inr a, w')" "sys_ok w'"
      "\<forall>b. plugged b w' \<longleftrightarrow> b = a \<or> plugged b w" "nodes w' = (nodes w)(a \<mapsto> made None info (new_index w) d pins)"
    using register_clock [OF ok e, where info = info and d = d and pins = pins] by blast
  then show ?thesis
  proof cases
    case made
    note wa = e [OF made(1)]
    have "all_tracked w'"
    proof (rule tracked_elsewhere [OF inv, where A = "{a}"])
      show "tracked b w'" if "b \<in> {a}" "plugged b w'" for b
        using that made(4,5) by (auto intro: made_tracked)
      show "plugged b w \<and> nodes w' b = nodes w b" if "b \<notin> {a}" "plugged b w'" for b
        using that made(4,5) by simp
      show "idx_of w' k = idx_of w k" if "b \<notin> {a}" "nodes w b = Some n" "plugged b w" "k \<in> set (kids n)" for b n k
        by (rule idx_same) (use kids_known [OF ok that(2,4)] wa made(5) in auto)
    qed
    then show ?thesis using made(2,3) by (simp add: sys_inv_def)
  qed (use inv in simp)
qed

lemma vclocks_call:
  assumes inv: "sys_inv w" and n: "nodes w p = Some n" "plugged p w" "parent n = None" and new: "new_addresses env 0 w"
  shows "\<exists>w'. andthen (n_vclocks_store ops hz env intr sig parsed count p w) (\<lambda>(r, w'). Ok w') = Ok w' \<and> sys_inv w'"
proof -
  have ok: "sys_ok w" and tr: "tracked p w" using inv n by (simp_all add: sys_inv_def all_tracked_def)
  note par = ids_parts [OF ok]
  have ch: "children p w = kids n" using n(1) by (simp add: children_def)
  from n_vclocks_store_result [OF ok tr new, of ops hz intr sig parsed count] obtain r w' where w':
    "n_vclocks_store ops hz env intr sig parsed count p w = Ok (r, w')" "sys_ok w'" "tracked p w'"
    "w' = w \<or> (\<exists>new. vclocks_added p new w w') \<or> (\<exists>c. vclocks_deleted p c w w')"
    by (fastforce split: sum.splits if_splits)
  from w'(4) have "all_tracked w'"
  proof (elim disjE exE)
    fix new
    assume ad: "vclocks_added p new w w'"
    have there: "nodes w' b = nodes w b" if "b \<noteq> p" "nodes w b \<noteq> None" for b
      using ad that unfolding vclocks_added_def by blast
    have plug: "plugged b w' \<longleftrightarrow> plugged b w \<or> b \<in> set new" for b
      using ad unfolding vclocks_added_def by blast
    obtain n' where n': "nodes w' p = Some n'" using w'(3) by (auto simp: tracked_def)
    have kids': "kids n' = kids n @ new" using ad n(1) n' by (simp add: vclocks_added_def children_def)
    show ?thesis
    proof (rule all_trackedI [where A = "{p}", OF ok])
      fix b m'
      assume b: "b \<notin> {p}" "nodes w' b = Some m'" "plugged b w'" "parent m' = None"
      have "b \<notin> set new" using kids_known [OF w'(2) n', of b] kids' b(2,4) by auto
      then have pb: "plugged b w" using plug b(3) by simp
      then obtain m where m: "nodes w b = Some m" using par(2) own_none [OF par(2), of b] by (cases "nodes w b") (auto simp: plugged_def)
      then have "m' = m" using there [of b] b(1,2) by simp
      moreover have "idx_of w' k = idx_of w k" if k: "k \<in> set (kids m)" for k
      proof -
        obtain x where "nodes w k = Some x" "parent x = Some b" using kids_known [OF ok m k] by auto
        then have "k \<noteq> p" using n(1,3) by auto
        then show ?thesis using there [of k] \<open>nodes w k = Some x\<close> by (simp add: idx_of_def)
      qed
      ultimately show "\<exists>n qs. nodes w b = Some n \<and> plugged b w \<and> parent n = None \<and> kids m' = kids n \<and> clk m' = (clk n)\<lparr>tsevqs := qs\<rparr>
          \<and> (\<forall>k \<in> set (kids n). idx_of w' k = idx_of w k)"
        using m pb b(4) same_queues [of "clk m"] by auto
    qed (use inv w'(3) in \<open>auto simp: sys_inv_def\<close>)
  next
    fix c
    assume de: "vclocks_deleted p c w w'"
    define gone where "gone = set (drop (length (kids n) - c) (kids n))"
    have de: "\<And>b. b \<in> gone \<Longrightarrow> \<not> plugged b w'" "\<And>b. b \<noteq> p \<Longrightarrow> b \<notin> gone \<Longrightarrow> nodes w' b = nodes w b \<and> plugged b w' = plugged b w"
      using de unfolding vclocks_deleted_def ch Let_def gone_def by blast+
    have sub: "gone \<subseteq> set (kids n)" using set_drop_subset by (auto simp: gone_def dest: in_set_dropD)
    show ?thesis
    proof (rule tracked_elsewhere [OF inv, where A = "{p}"])
      show "plugged b w \<and> nodes w' b = nodes w b" if "b \<notin> {p}" "plugged b w'" for b
        using that de by auto
      show "idx_of w' k = idx_of w k" if b: "b \<notin> {p}" "nodes w b = Some m" "plugged b w" "k \<in> set (kids m)" for b m k
      proof -
        obtain x where x: "nodes w k = Some x" "parent x = Some b" using kids_known [OF ok b(2,4)] by auto
        then have "k \<noteq> p" "k \<notin> gone" using n(1,3) b(1) kids_known [OF ok n(1), of k] sub by auto
        then show ?thesis using de(2) [of k] by (simp add: idx_of_def)
      qed
    qed (use w'(3) in auto)
  qed (use inv in \<open>simp add: sys_inv_def\<close>)
  then show ?thesis using w'(1,2) by (simp add: sys_inv_def)
qed

lemma limit_ok:
  assumes ok: "sys_ok w" and n: "nodes w p = Some n"
  shows "sys_ok (set_node p (n\<lparr>clk := snd (max_vclocks_store mem sig parsed count (clk n))\<rparr>) w)"
proof -
  note parts = ids_parts [OF ok]
  let ?c = "snd (max_vclocks_store mem sig parsed count (clk n))"
  have keep: "ptp_index ?c = ptp_index (clk n)" "drv ?c = drv (clk n)" "is_virtual_clock ?c = is_virtual_clock (clk n)" "tsevqs ?c = tsevqs (clk n)"
    by (auto simp: max_vclocks_store_def split: option.splits)
  have "sys_pre (set_node p (n\<lparr>clk := ?c\<rparr>) w)"
    by (rule touch_pre [OF parts(8) n]) (use refs_okD [OF parts(3) n] keep in \<open>simp_all add: idle_own_def busy_own_def queues_ok_def\<close>)
  moreover have "live_ok (set_node p (n\<lparr>clk := ?c\<rparr>) w)" using parts(7) n by (simp add: live_ok_def set_node_def)
  ultimately show ?thesis by (simp add: sys_ok_def)
qed

lemma limit_call:
  assumes inv: "sys_inv w" and n: "nodes w p = Some n" "plugged p w" "parent n = None"
  shows "sys_inv (set_node p (n\<lparr>clk := snd (max_vclocks_store mem sig parsed count (clk n))\<rparr>) w)"
proof -
  let ?c = "snd (max_vclocks_store mem sig parsed count (clk n))"
  let ?w = "set_node p (n\<lparr>clk := ?c\<rparr>) w"
  have ok: "sys_ok w" and tr: "tracked p w" using inv n by (simp_all add: sys_inv_def all_tracked_def)
  note tn = trackedD [OF tr n(1)]
  have plug: "plugged b ?w = plugged b w" for b by (simp add: plugged_def set_node_def)
  have idx: "idx_of ?w = idx_of w"
    using n(1) by (auto simp: idx_of_def set_node_def max_vclocks_store_def fun_eq_iff split: option.splits)
  have c: "n_vclocks ?c = n_vclocks (clk n)" "length (vclock_index ?c) = max_vclocks ?c" "n_vclocks ?c \<le> max_vclocks ?c"
      "take (n_vclocks ?c) (vclock_index ?c) = take (n_vclocks (clk n)) (vclock_index (clk n))"
    using tn(3,4) by (auto simp: max_vclocks_store_def split: option.splits)
  have "tracked p ?w"
    unfolding tracked_def plug idx using c tn by (intro exI [of _ "n\<lparr>clk := ?c\<rparr>"]) (simp add: set_node_def)
  then have "all_tracked ?w"
    by (intro tracked_elsewhere [OF inv, where A = "{p}"]) (auto simp: plug idx, simp add: set_node_def)
  then show ?thesis using limit_ok [OF ok n(1)] by (simp add: sys_inv_def)
qed

lemma files_tracked:
  assumes inv: "sys_inv w" and "sys_ok w'" and plug: "\<And>b. plugged b w' = plugged b w" and same: "same_place w w'"
  shows "all_tracked w'"
proof (rule all_trackedI [where A = "{}"])
  show ok: "sys_ok w" "all_tracked w" using inv by (simp_all add: sys_inv_def)
  note par = ids_parts [OF ok(1)]
  fix b m'
  assume b: "b \<notin> {}" "nodes w' b = Some m'" "plugged b w'" "parent m' = None"
  obtain m where m: "nodes w b = Some m" using b(3) plug own_none [OF par(2), of b] by (cases "nodes w b") (auto simp: plugged_def)
  obtain qs where m': "parent m' = parent m" "kids m' = kids m" "clk m' = (clk m)\<lparr>tsevqs := qs\<rparr>"
    using same b(2,3) plug m unfolding same_place_def by fastforce
  have "idx_of w' k = idx_of w k" if k: "k \<in> set (kids m)" for k
  proof -
    obtain x where x: "nodes w k = Some x" "plugged k w" using kids_known [OF ok(1) m k] by auto
    then obtain x' qs where "nodes w' k = Some x'" "clk x' = (clk x)\<lparr>tsevqs := qs\<rparr>" using same unfolding same_place_def by fastforce
    then show ?thesis using x by (simp add: idx_of_def)
  qed
  then show "\<exists>n qs. nodes w b = Some n \<and> plugged b w \<and> parent n = None \<and> kids m' = kids n \<and> clk m' = (clk n)\<lparr>tsevqs := qs\<rparr>
      \<and> (\<forall>k \<in> set (kids n). idx_of w' k = idx_of w k)"
    using m m' b(3,4) plug by auto
qed simp

lemma unregister_call:
  assumes inv: "sys_inv w" and n: "nodes w a = Some n" "plugged a w" "parent n = None"
  shows "\<exists>w'. ptp_clock_unregister intr a w = Ok w' \<and> sys_inv w'"
proof -
  have ok: "sys_ok w" using inv by (simp add: sys_inv_def)
  let ?ks = "removed_kids intr a n"
  from clock_unregister_result [where intr = intr, OF ok n] obtain w' where w': "ptp_clock_unregister intr a w = Ok w'" "sys_ok w'"
    "\<forall>b. plugged b w' \<longleftrightarrow> plugged b w \<and> b \<notin> insert a (set ?ks)" "\<forall>b. b \<notin> insert a (set ?ks) \<longrightarrow> nodes w' b = nodes w b"
    by (elim exE conjE) (rule that; assumption)
  have sub: "set ?ks \<subseteq> set (kids n)" by (auto simp: removed_kids_def)
  have "all_tracked w'"
  proof (rule tracked_elsewhere [OF inv, where A = "insert a (set ?ks)"])
    show "idx_of w' k = idx_of w k" if b: "b \<notin> insert a (set ?ks)" "nodes w b = Some m" "plugged b w" "k \<in> set (kids m)" for b m k
    proof -
      obtain x where x: "nodes w k = Some x" "parent x = Some b" using kids_known [OF ok b(2,4)] by auto
      then have "k \<notin> insert a (set ?ks)" using n(1,3) b(1) kids_known [OF ok n(1), of k] sub by auto
      then show ?thesis using w'(4) by (simp add: idx_of_def)
    qed
  qed (use w'(3,4) in auto)
  then show ?thesis using w'(1,2) by (auto simp: sys_inv_def)
qed

lemma ptp_call_ok:
  assumes "ptp_call w x" and "sys_inv w"
  shows "(\<exists>w'. x = Ok w' \<and> sys_inv w') \<or> (\<exists>err. x = Err err)"
  using assms
proof (induction rule: ptp_call.induct)
  case (register e w info d pins)
  then show ?case using register_call [OF register(2,1)] by blast
next
  case (vclocks w p n env ops hz intr sig parsed count)
  then show ?case using vclocks_call [OF vclocks(5,1-4)] by blast
next
  case (limit w p n mem sig parsed count)
  then show ?case using limit_call [OF limit(4,1-3)] by blast
next
  case (opened w a n h mq mm)
  have "sys_ok w" using opened(3) by (simp add: sys_inv_def)
  from open_ok [OF this opened(1,2), of mq mm] files_tracked [OF opened(3)] show ?case by (auto simp: sys_inv_def)
next
  case (closed w a n h q)
  have "sys_ok w" using closed(3) by (simp add: sys_inv_def)
  from close_ok [OF this closed(1,2)] files_tracked [OF closed(3)] show ?case by (auto simp: sys_inv_def)
next
  case (unregister w a n intr)
  then show ?case using unregister_call [OF unregister(4,1-3)] by blast
qed

lemma reached_inv: "ptp_step\<^sup>*\<^sup>* empty_core w \<Longrightarrow> sys_inv w"
proof (induction rule: rtranclp_induct)
  case base
  then show ?case by (simp add: sys_inv_def empty_ok all_tracked_def) (simp add: empty_core_def)
next
  case (step w w')
  then show ?case using ptp_call_ok [of w "Ok w'"] by (auto simp: ptp_step_def)
qed



text \<open>New addresses for the virtual clocks of one store.\<close>

definition env_from :: "nat \<Rightarrow> nat \<Rightarrow> vclock_env" where
  "env_from a j = (all_well (a + j), Some j, 0)"

lemma env_from_new: "(\<And>b. a \<le> b \<Longrightarrow> nodes w b = None) \<Longrightarrow> vclocks w = Map.empty \<Longrightarrow> new_addresses (env_from a) 0 w"
  by (simp add: new_addresses_def env_from_def all_well_def)

lemma n_vclocks_store_exact_witness:
  "\<exists>w r w'. snd (ptp_clock_register (all_well 1) None mock_info the_mock mock_pins (empty_core :: (mock_phc, u64 \<times> u64) ptp_system)) = Ok (Inr 1, w)
     \<and> n_vclocks_store plain_tc 100 (env_from 2) (\<lambda>k. False) False (Some 3) 1 1 w = Ok (r, w') \<and> sys_ok w'
     \<and> (r = Inr 1 \<longrightarrow> length (children 1 w') = 3)"
proof -
  obtain w where w: "snd (ptp_clock_register (all_well 1) None mock_info the_mock mock_pins (empty_core :: (mock_phc, u64 \<times> u64) ptp_system)) = Ok (Inr 1, w)"
    "sys_ok w" "tracked 1 w" "vclocks w = Map.empty" "\<And>a. a \<noteq> 1 \<Longrightarrow> nodes w a = None" "children 1 w = []"
    using register_mock by blast
  have "counter 1 w = 0" using trackedD(6) [OF w(3)] w(6) by (auto simp: counter_def children_def split: option.splits)
  moreover have "new_addresses (env_from 2) 0 w" by (rule env_from_new) (simp_all add: w(4,5))
  ultimately show ?thesis
    using n_vclocks_store_exact [OF w(2,3), of "env_from 2" plain_tc 100 "\<lambda>k. False" False "Some 3" 1] w(1,6) by fastforce
qed

section \<open>Timestamps\<close>

lemma find_vclock_run:
  assumes ok: "sys_ok w" and vs: "\<And>v. v \<in> set vs \<Longrightarrow> vclocks w v \<noteq> None"
  shows "\<exists>r. find_vclock i vs w = Ok r
    \<and> (case r of None \<Rightarrow> \<forall>v \<in> set vs. \<forall>vc n. vclocks w v = Some vc \<longrightarrow> nodes w (vc_clock vc) = Some n \<longrightarrow> ptp_index (clk n) \<noteq> i
       | Some vc \<Rightarrow> \<exists>v \<in> set vs. vclocks w v = Some vc \<and> (\<exists>n. nodes w (vc_clock vc) = Some n \<and> ptp_index (clk n) = i))"
  using vs
proof (induction vs)
  case (Cons v vs)
  then obtain vc where vc: "vclocks w v = Some vc" by fastforce
  obtain n where n: "nodes w (vc_clock vc) = Some n" using vclocks_okD2 [OF ids_parts(5) [OF ok] vc] by auto
  obtain r where r: "find_vclock i vs w = Ok r"
    "case r of None \<Rightarrow> \<forall>v \<in> set vs. \<forall>vc n. vclocks w v = Some vc \<longrightarrow> nodes w (vc_clock vc) = Some n \<longrightarrow> ptp_index (clk n) \<noteq> i
       | Some vc \<Rightarrow> \<exists>v \<in> set vs. vclocks w v = Some vc \<and> (\<exists>n. nodes w (vc_clock vc) = Some n \<and> ptp_index (clk n) = i)"
    using Cons by auto
  show ?case
  proof (cases "ptp_index (clk n) = i")
    case True
    then show ?thesis using vc n by (auto simp: node_def)
  next
    case False
    then show ?thesis using vc n r by (auto simp: node_def split: option.splits)
  qed
qed simp

text \<open>
  C37: A timestamp of the network stack is converted by the virtual clock that has the given index, if there is one
  in the system, and to 0 otherwise. The search never touches a virtual clock that is gone.
\<close>

theorem ptp_convert_timestamp_exact:
  assumes "sys_ok w"
  shows "(\<forall>v vc n. vclocks w v = Some vc \<longrightarrow> nodes w (vc_clock vc) = Some n \<longrightarrow> ptp_index (clk n) = i \<longrightarrow>
       ptp_convert_timestamp ops False ts i w = Ok (tc_cyc2time ops (cc_mult (vc_time vc)) ts (vc_tc (vc_time vc))))
    \<and> ((\<nexists>v vc n. vclocks w v = Some vc \<and> nodes w (vc_clock vc) = Some n \<and> ptp_index (clk n) = i) \<longrightarrow>
       ptp_convert_timestamp ops False ts i w = Ok 0)"
proof -
  note parts = ids_parts [OF assms]
  let ?P = "\<lambda>vc. \<exists>v n. vclocks w v = Some vc \<and> nodes w (vc_clock vc) = Some n \<and> ptp_index (clk n) = i"
  have hash: "v \<in> set (vclock_hash w h) \<longleftrightarrow> (\<exists>vc n. vclocks w v = Some vc \<and> nodes w (vc_clock vc) = Some n \<and> ptp_index (clk n) mod HASH_SIZE = h)" for v h
    using parts(6) by (simp only: hash_ok_def)
  have unique: "x = y" if x: "?P x" and y: "?P y" for x y
  proof -
    obtain v n u m where vn: "vclocks w v = Some x" "nodes w (vc_clock x) = Some n" "ptp_index (clk n) = i"
      and um: "vclocks w u = Some y" "nodes w (vc_clock y) = Some m" "ptp_index (clk m) = i" using x y by auto
    have "vc_clock x = vc_clock y" using idx_inj [OF parts(1) vn(2) um(2)] vn(3) um(3) by simp
    then have "v = u" using vclocks_okD2 [OF parts(5) vn(1)] vclocks_okD2 [OF parts(5) um(1)] by auto
    then show ?thesis using vn(1) um(1) by simp
  qed
  let ?vs = "vclock_hash w (i mod HASH_SIZE)"
  have "vclocks w v \<noteq> None" if "v \<in> set ?vs" for v using that hash by auto
  from find_vclock_run [OF assms this] obtain r where r: "find_vclock i ?vs w = Ok r"
    "case r of None \<Rightarrow> \<forall>v \<in> set ?vs. \<forall>vc n. vclocks w v = Some vc \<longrightarrow> nodes w (vc_clock vc) = Some n \<longrightarrow> ptp_index (clk n) \<noteq> i
       | Some vc \<Rightarrow> \<exists>v \<in> set ?vs. vclocks w v = Some vc \<and> (\<exists>n. nodes w (vc_clock vc) = Some n \<and> ptp_index (clk n) = i)" by blast
  show ?thesis
  proof (cases r)
    case None
    have "\<not> ?P vc" for vc
    proof
      assume "?P vc"
      then obtain v n where v: "vclocks w v = Some vc" "nodes w (vc_clock vc) = Some n" "ptp_index (clk n) = i" by auto
      then have "v \<in> set ?vs" using hash by blast
      then show False using r(2) None v by auto
    qed
    then show ?thesis using r(1) None by (auto simp: ptp_convert_timestamp_def)
  next
    case (Some vc)
    then have vc: "?P vc" using r(2) by auto
    show ?thesis
    proof (intro conjI allI impI)
      fix v y n
      assume "vclocks w v = Some y" "nodes w (vc_clock y) = Some n" "ptp_index (clk n) = i"
      then have "y = vc" using unique [OF _ vc] by blast
      then show "ptp_convert_timestamp ops False ts i w = Ok (tc_cyc2time ops (cc_mult (vc_time y)) ts (vc_tc (vc_time y)))"
        using r(1) Some by (simp add: ptp_convert_timestamp_def)
    qed (use vc in blast)
  qed
qed

lemma ptp_convert_timestamp_exact_witness:
  "ptp_convert_timestamp plain_tc False 5 0 (empty_core :: (mock_phc, u64 \<times> u64) ptp_system) = Ok 0"
  using ptp_convert_timestamp_exact [OF empty_ok, where ops = plain_tc and ts = 5 and i = 0] by (simp add: empty_core_def)

section \<open>The rate of a virtual clock\<close>

lemma div_bracket: "0 < d \<Longrightarrow> d * (x div d) \<le> x" "0 < d \<Longrightarrow> x < d * (x div d) + d" for x d :: int
  using mult_div_mod_eq [of d x] pos_mod_bound [of d x] pos_mod_sign [of d x] by linarith+

lemma ppb_range:
  assumes "\<bar>sint ppm\<bar> \<le> 2 ^ 55" and "\<bar>sint (scaled_ppm_to_ppb ppm)\<bar> \<le> 500000000"
  shows "- 32768000001 \<le> sint ppm" and "sint ppm \<le> 32768000064"
proof -
  define q where "q = (1 + sint ppm) * 125 div 8192"
  have "\<bar>q\<bar> \<le> 500000000"
    using assms(2) unfolding scaled_ppm_to_ppb_exact [OF assms(1)] q_def by simp
  moreover have q: "8192 * q \<le> (1 + sint ppm) * 125" "(1 + sint ppm) * 125 < 8192 * q + 8192"
    unfolding q_def by (rule div_bracket; simp)+
  ultimately show "- 32768000001 \<le> sint ppm" by (simp add: abs_le_iff)
  show "sint ppm \<le> 32768000064" using \<open>\<bar>q\<bar> \<le> 500000000\<close> q by (simp add: abs_le_iff)
qed

lemma ucast_low: "ucast (word_of_int k :: s64) = (word_of_int k :: u32)"
  by transfer simp

lemma vclock_mult:
  assumes "- 32768000001 \<le> sint ppm" and "sint ppm \<le> 32768000064"
  defines "adj \<equiv> sint ppm * 512 sdiv 15625"
  shows "uint (PTP_VCLOCK_CC_MULT + ucast (div_s64 (push_bit PTP_VCLOCK_FADJ_SHIFT ppm) PTP_VCLOCK_FADJ_DENOMINATOR)) = 2 ^ 31 + adj"
    and "- (2 ^ 30) \<le> adj" and "adj \<le> 2 ^ 30 + 2"
proof -
  have shift: "sint (push_bit PTP_VCLOCK_FADJ_SHIFT ppm :: s64) = sint ppm * 512"
  proof -
    have "push_bit PTP_VCLOCK_FADJ_SHIFT ppm = ppm * 512" by (simp add: PTP_VCLOCK_FADJ_SHIFT_def push_bit_eq_mult)
    moreover have "sint (ppm * 512) = sint ppm * sint (512 :: s64)"
      by (rule sint_mult_exact) (use assms in \<open>simp add: s64_fits_def\<close>)
    ultimately show ?thesis by simp
  qed
  have range: "- (2 ^ 30) \<le> adj \<and> adj \<le> 2 ^ 30 + 2"
  proof (cases "0 \<le> sint ppm")
    case True
    then have "adj = sint ppm * 512 div 15625" by (simp add: adj_def signed_divide_int_def sgn_if)
    then show ?thesis using assms(2) True div_bracket [of 15625 "sint ppm * 512"] by simp
  next
    case False
    then have "adj = - ((- sint ppm * 512) div 15625)" by (simp add: adj_def signed_divide_int_def sgn_if)
    then show ?thesis using assms(1) False div_bracket [of 15625 "- sint ppm * 512"] by simp
  qed
  then show "- (2 ^ 30) \<le> adj" "adj \<le> 2 ^ 30 + 2" by simp_all
  have "div_s64 (push_bit PTP_VCLOCK_FADJ_SHIFT ppm) PTP_VCLOCK_FADJ_DENOMINATOR = word_of_int adj"
    by (simp add: div_s64_def shift adj_def PTP_VCLOCK_FADJ_DENOMINATOR_def)
  then have "PTP_VCLOCK_CC_MULT + ucast (div_s64 (push_bit PTP_VCLOCK_FADJ_SHIFT ppm) PTP_VCLOCK_FADJ_DENOMINATOR) = word_of_int (2 ^ 31 + adj)"
    by (simp add: PTP_VCLOCK_CC_MULT_def PTP_VCLOCK_CC_SHIFT_def push_bit_eq_mult ucast_low)
  moreover have "uint (word_of_int n :: u32) = n" if "0 \<le> n" "n < 2 ^ 32" for n
    using that by (simp add: uint_word_of_int_eq take_bit_int_eq_self)
  then have "uint (word_of_int (2 ^ 31 + adj) :: u32) = 2 ^ 31 + adj" using range by (simp del: of_int_add)
  ultimately show "uint (PTP_VCLOCK_CC_MULT + ucast (div_s64 (push_bit PTP_VCLOCK_FADJ_SHIFT ppm) PTP_VCLOCK_FADJ_DENOMINATOR)) = 2 ^ 31 + adj"
    using range by simp
qed

text \<open>A virtual clock as it is registered, started at cycle 0.\<close>

definition fresh_vclock :: "(u64 \<times> u64) vclock_time ptp_clock" where
  "fresh_vclock =
     \<lparr>ptp_index = 1, drv = \<lparr>cc_mult = PTP_VCLOCK_CC_MULT, vc_tc = (0, 0)\<rparr>, pin_config = [], dialed_frequency = 0,
      tsevqs = [(0, new_queue)], defunct = False, max_vclocks = 0, n_vclocks = 0, vclock_index = [],
      is_virtual_clock = True, has_cycles = False\<rparr>"

text \<open>
  C38: A frequency of at most \<open>2^55\<close> in absolute value that the PTP core accepts for a virtual clock never overflows the multiplier of
  its cycle counter: the multiplier is \<open>2^31\<close> corrected by the rounded product, it stays between half and three halves of its nominal
  value, and the rate differs from the asked one by less than one part in \<open>2^31\<close>. The bound on the frequency is a condition:
  \<open>ptp_clock_adjtime\<close> does not check it, and \<open>vclock_frequency_wraps\<close> shows what happens beyond it.
\<close>

theorem vclock_frequency_exact:
  assumes "\<bar>sint (tx_freq tx)\<bar> \<le> 2 ^ 55" and "mode_set ADJ_FREQUENCY tx" and "\<not> mode_set ADJ_SETOFFSET tx"
    and "ptp_clock_adjtime (ptp_vclock_info ops hz False cycles px cross) False tx ptp = Ok (None, tx', ptp')"
  shows "(let p = sint (tx_freq tx); m = uint (cc_mult (drv ptp'))
          in 2 ^ 30 \<le> m \<and> m \<le> 3 * 2 ^ 30 + 2 \<and> \<bar>(m - 2 ^ 31) * 15625 - p * 512\<bar> < 15625)"
proof -
  let ?info = "ptp_vclock_info ops hz False cycles px cross"
  have free: "\<not> ptp_clock_freerun False ptp" using assms(4) by (auto simp: ptp_clock_adjtime_def)
  have adj: "max_adj ?info = 500000000" "adjfine ?info = ptp_vclock_adjfine ops False (ptp_vclock_read cycles)"
    by (simp_all add: ptp_vclock_info_def Let_def)
  have range: "\<bar>sint (scaled_ppm_to_ppb (tx_freq tx))\<bar> \<le> 500000000"
    using assms(2-4) free by (auto simp: ptp_clock_adjtime_def adj Let_def split: if_splits)
  note ppm = ppb_range [OF assms(1) range]
  have "drv ptp' = snd (ptp_vclock_adjfine ops False (ptp_vclock_read cycles) (tx_freq tx) (drv ptp))"
    using assms(2-4) free range
    by (auto simp: ptp_clock_adjtime_def adj Let_def call_drv_def split: if_splits prod.splits)
  then have m: "uint (cc_mult (drv ptp')) = 2 ^ 31 + sint (tx_freq tx) * 512 sdiv 15625"
    using vclock_mult(1) [OF ppm] by (simp add: ptp_vclock_adjfine_def Let_def)
  have "\<bar>sint (tx_freq tx) * 512 - 15625 * (sint (tx_freq tx) * 512 sdiv 15625)\<bar> < 15625"
    by (rule sdiv_rounding) simp
  then show ?thesis using m vclock_mult(2,3) [OF ppm] by (simp add: Let_def algebra_simps abs_minus_commute)
qed

lemma vclock_frequency_exact_witness:
  "\<exists>ptp'. ptp_clock_adjtime (ptp_vclock_info plain_tc 250 False (Inr \<lparr>tv_sec = 1, tv_nsec = 5\<rparr>) None None) False
        (freq_tx ADJ_FREQUENCY 15625) fresh_vclock = Ok (None, freq_tx ADJ_FREQUENCY 15625, ptp')
     \<and> \<bar>(uint (cc_mult (drv ptp')) - 2 ^ 31) * 15625 - 15625 * 512\<bar> < 15625"
proof -
  let ?info = "ptp_vclock_info plain_tc 250 False (Inr \<lparr>tv_sec = 1, tv_nsec = 5\<rparr>) None None"
  let ?tx = "freq_tx ADJ_FREQUENCY 15625"
  have tx: "\<bar>sint (tx_freq ?tx)\<bar> \<le> 2 ^ 55" "mode_set ADJ_FREQUENCY ?tx" "\<not> mode_set ADJ_SETOFFSET ?tx"
    by (simp_all add: freq_tx_def mode_set_def ADJ_FREQUENCY_def ADJ_SETOFFSET_def)
  have "\<exists>ptp'. ptp_clock_adjtime ?info False ?tx fresh_vclock = Ok (None, ?tx, ptp')"
    using tx(2,3) by (simp add: ptp_clock_adjtime_def ptp_clock_freerun_def ptp_vclock_in_use_def fresh_vclock_def freq_tx_def
        scaled_ppm_to_ppb_def ptp_vclock_info_def ptp_vclock_adjfine_def call_drv_def Let_def split: prod.split)
  then obtain ptp' where ptp': "ptp_clock_adjtime ?info False ?tx fresh_vclock = Ok (None, ?tx, ptp')" by blast
  have "sint (tx_freq ?tx) = 15625" by (simp add: freq_tx_def)
  with vclock_frequency_exact [OF tx ptp'] have "\<bar>(uint (cc_mult (drv ptp')) - 2 ^ 31) * 15625 - 15625 * 512\<bar> < 15625"
    by (simp only: Let_def)
  with ptp' show ?thesis by blast
qed

text \<open>
  Beyond the bound of \<open>vclock_frequency_exact\<close>, \<open>scaled_ppm_to_ppb\<close> wraps around: a frequency of 147573952589676412, more than four
  thousand times the maximum, is 0 parts per billion to the check of the range, is accepted, and sets the multiplier to 3346065671.
\<close>

lemma vclock_frequency_wraps:
  "\<exists>ptp'. ptp_clock_adjtime (ptp_vclock_info plain_tc 250 False (Inr \<lparr>tv_sec = 1, tv_nsec = 5\<rparr>) None None) False
        (freq_tx ADJ_FREQUENCY 147573952589676412) fresh_vclock = Ok (None, freq_tx ADJ_FREQUENCY 147573952589676412, ptp')
     \<and> cc_mult (drv ptp') = 3346065671"
proof -
  let ?info = "ptp_vclock_info plain_tc 250 False (Inr \<lparr>tv_sec = 1, tv_nsec = 5\<rparr>) None None"
  let ?tx = "freq_tx ADJ_FREQUENCY 147573952589676412"
  have tx: "mode_set ADJ_FREQUENCY ?tx" "\<not> mode_set ADJ_SETOFFSET ?tx" "tx_freq ?tx = 147573952589676412"
    by (simp_all add: freq_tx_def mode_set_def ADJ_FREQUENCY_def ADJ_SETOFFSET_def)
  have free: "\<not> ptp_clock_freerun False fresh_vclock"
    by (simp add: ptp_clock_freerun_def ptp_vclock_in_use_def fresh_vclock_def)
  have zero: "scaled_ppm_to_ppb 147573952589676412 = 0" by (simp add: scaled_ppm_to_ppb_def Let_def)
  have adj: "max_adj ?info = 500000000" "adjfine ?info = ptp_vclock_adjfine plain_tc False (ptp_vclock_read (Inr \<lparr>tv_sec = 1, tv_nsec = 5\<rparr>))"
    by (simp_all add: ptp_vclock_info_def Let_def)
  have "ptp_clock_adjtime ?info False ?tx fresh_vclock = Ok (fst (call_drv (adjfine ?info 147573952589676412) fresh_vclock), ?tx,
      (snd (call_drv (adjfine ?info 147573952589676412) fresh_vclock))\<lparr>dialed_frequency := 147573952589676412\<rparr>)"
    using tx free zero by (simp add: ptp_clock_adjtime_def adj(1) Let_def call_drv_pair)
  moreover have "fst (call_drv (adjfine ?info 147573952589676412) fresh_vclock) = None"
    by (simp add: adj(2) ptp_vclock_adjfine_def Let_def split: prod.split)
  moreover have "cc_mult (drv (snd (call_drv (adjfine ?info 147573952589676412) fresh_vclock))) = 3346065671"
    by (simp add: adj(2) ptp_vclock_adjfine_def Let_def div_s64_def PTP_VCLOCK_FADJ_SHIFT_def PTP_VCLOCK_FADJ_DENOMINATOR_def
        PTP_VCLOCK_CC_MULT_def PTP_VCLOCK_CC_SHIFT_def push_bit_eq_mult signed_divide_int_def split: prod.split)
  ultimately show ?thesis by simp
qed

end
