(* ===== verification/Slot_Table.thy ===== *)
theory Slot_Table
  imports Prelude
begin

text \<open>
  Tables of a fixed number of slots with a flag that says whether a slot is taken, as the
  IPsec and MACsec offloads of netdevsim keep them.
\<close>

section \<open>The first free slot\<close>

fun first_free :: "('a \<Rightarrow> bool) \<Rightarrow> 'a list \<Rightarrow> nat option" where
  "first_free used [] = None"
| "first_free used (x # xs) = (if \<not> used x then Some 0 else map_option Suc (first_free used xs))"

lemma first_free_Some:
  "first_free used xs = Some i \<Longrightarrow> i < length xs \<and> \<not> used (xs ! i) \<and> (\<forall>j < i. used (xs ! j))"
proof (induction xs arbitrary: i)
  case (Cons x xs)
  then show ?case by (auto simp: nth_Cons less_Suc_eq_0_disj split: if_splits nat.splits)
qed simp

lemma first_free_None: "first_free used xs = None \<longleftrightarrow> (\<forall>x \<in> set xs. used x)"
  by (induction xs) auto

section \<open>Taken slots\<close>

locale slot_table =
  fixes used :: "'a \<Rightarrow> bool" and blank :: 'a
  assumes blank_free: "\<not> used blank"
begin

definition taken :: "'a list \<Rightarrow> 'a list" where
  "taken xs = filter used xs"

lemma taken_le: "length (taken xs) \<le> length xs"
  by (simp add: taken_def)

lemma taken_blank: "taken (replicate n blank) = []"
  by (simp add: taken_def blank_free)

lemma room_iff: "first_free used xs = None \<longleftrightarrow> length (taken xs) = length xs"
proof -
  have "(\<forall>x \<in> set xs. used x) \<longleftrightarrow> length (filter used xs) = length xs"
    by (metis filter_id_conv length_filter_less less_irrefl)
  then show ?thesis by (simp add: first_free_None taken_def)
qed

lemma take_slot:
  assumes "i < length xs" and "\<not> used (xs ! i)" and "used x"
  shows "length (taken (xs[i := x])) = Suc (length (taken xs))"
    and "set (taken (xs[i := x])) = insert x (set (taken xs))"
proof -
  have xs: "xs = take i xs @ xs ! i # drop (Suc i) xs" using assms(1) by (simp add: id_take_nth_drop)
  have upd: "xs[i := x] = take i xs @ x # drop (Suc i) xs" using assms(1) by (simp add: upd_conv_take_nth_drop)
  have "filter used xs = filter used (take i xs) @ filter used (drop (Suc i) xs)"
    by (subst xs) (simp add: assms(2))
  moreover have "filter used (xs[i := x]) = filter used (take i xs) @ x # filter used (drop (Suc i) xs)"
    by (simp add: upd assms(3))
  ultimately show "length (taken (xs[i := x])) = Suc (length (taken xs))"
    and "set (taken (xs[i := x])) = insert x (set (taken xs))"
    by (simp_all add: taken_def)
qed

lemma free_slot:
  assumes "i < length xs" and "used (xs ! i)"
  shows "Suc (length (taken (xs[i := blank]))) = length (taken xs)"
proof -
  have xs: "xs = take i xs @ xs ! i # drop (Suc i) xs" using assms(1) by (simp add: id_take_nth_drop)
  have "filter used xs = filter used (take i xs) @ xs ! i # filter used (drop (Suc i) xs)"
    by (subst xs) (simp add: assms(2))
  then show ?thesis using assms(1) by (simp add: taken_def upd_conv_take_nth_drop blank_free)
qed

lemma keep_slot:
  assumes "i < length xs" and "used (xs ! i)" and "used x"
  shows "length (taken (xs[i := x])) = length (taken xs)"
proof -
  have xs: "xs = take i xs @ xs ! i # drop (Suc i) xs" using assms(1) by (simp add: id_take_nth_drop)
  have "filter used xs = filter used (take i xs) @ xs ! i # filter used (drop (Suc i) xs)"
    by (subst xs) (simp add: assms(2))
  then show ?thesis using assms(1,3) by (simp add: taken_def upd_conv_take_nth_drop)
qed

lemma taken_image: "f ` set (taken xs) = (\<lambda>i. f (xs ! i)) ` {i. i < length xs \<and> used (xs ! i)}"
  unfolding taken_def by (force simp: in_set_conv_nth)

end

end
