(* ===== verification/Request_Runs.thy ===== *)
theory Request_Runs
  imports Prelude
begin

text \<open>
  Sequences of requests to a component and their replies. A component implements a specification when
  it gives the same replies to every sequence of requests that its caller may make.
\<close>

fun replies :: "('r \<Rightarrow> 's \<Rightarrow> 's res) \<Rightarrow> 'r list \<Rightarrow> 's \<Rightarrow> unit res list" where
  "replies step [] s = []"
| "replies step (r # rs) s =
     (case step r s of
        Ok s' \<Rightarrow> Ok () # replies step rs s'
      | Err e \<Rightarrow> Err e # replies step rs s
      | Fault \<Rightarrow> [Fault])"

text \<open>The state after the requests; a request that fails changes nothing.\<close>

fun after :: "('r \<Rightarrow> 's \<Rightarrow> 's res) \<Rightarrow> 'r list \<Rightarrow> 's \<Rightarrow> 's" where
  "after step [] s = s"
| "after step (r # rs) s = after step rs (case step r s of Ok s' \<Rightarrow> s' | _ \<Rightarrow> s)"

fun allowed_run :: "('r \<Rightarrow> 'a \<Rightarrow> bool) \<Rightarrow> ('r \<Rightarrow> 'a \<Rightarrow> 'a res) \<Rightarrow> 'r list \<Rightarrow> 'a \<Rightarrow> bool" where
  "allowed_run ok spec [] a \<longleftrightarrow> True"
| "allowed_run ok spec (r # rs) a \<longleftrightarrow> ok r a \<and> allowed_run ok spec rs (case spec r a of Ok a' \<Rightarrow> a' | _ \<Rightarrow> a)"

text \<open>One result agrees with the one that is specified, and keeps the invariant.\<close>

primrec agrees :: "('s \<Rightarrow> bool) \<Rightarrow> ('s \<Rightarrow> 'a) \<Rightarrow> 's res \<Rightarrow> 'a res \<Rightarrow> bool" where
  "agrees good abst (Ok s) y \<longleftrightarrow> good s \<and> y = Ok (abst s)"
| "agrees good abst (Err e) y \<longleftrightarrow> y = Err e"
| "agrees good abst Fault y \<longleftrightarrow> False"

locale request_refinement =
  fixes step :: "'r \<Rightarrow> 's \<Rightarrow> 's res" and spec :: "'r \<Rightarrow> 'a \<Rightarrow> 'a res"
    and abst :: "'s \<Rightarrow> 'a" and inv :: "'s \<Rightarrow> bool" and ok :: "'r \<Rightarrow> 'a \<Rightarrow> bool"
  assumes step: "inv s \<Longrightarrow> ok r (abst s) \<Longrightarrow> agrees inv abst (step r s) (spec r (abst s))"
begin

lemma run:
  "inv s \<Longrightarrow> allowed_run ok spec rs (abst s) \<Longrightarrow>
     replies step rs s = replies spec rs (abst s) \<and> inv (after step rs s) \<and> abst (after step rs s) = after spec rs (abst s)"
proof (induction rs arbitrary: s)
  case (Cons r rs)
  then have ok: "ok r (abst s)" by simp
  show ?case
  proof (cases "step r s")
    case (Ok s')
    then have "inv s'" "spec r (abst s) = Ok (abst s')" using step [OF Cons(2) ok] by auto
    then show ?thesis using Cons(1) [of s'] Cons(3) Ok by simp
  next
    case (Err e)
    then have "spec r (abst s) = Err e" using step [OF Cons(2) ok] by auto
    then show ?thesis using Cons(1) [of s] Cons(2,3) Err by simp
  next
    case Fault
    then show ?thesis using step [OF Cons(2) ok] by simp
  qed
qed simp

end

end
