(* ===== verification/Nsim_Macsec.thy ===== *)
theory Nsim_Macsec
  imports Slot_Table Request_Runs
begin

text \<open>
  The MACsec offload of a simulated device, \<open>netdevsim/macsec.c\<close>: a table of three SecYs, each with
  room for one receive channel, searched by their secure channel identifiers (SCI).
\<close>

section \<open>Data\<close>

definition NSIM_MACSEC_MAX_SECY_COUNT :: nat where "NSIM_MACSEC_MAX_SECY_COUNT = 3"
definition NSIM_MACSEC_MAX_RXSC_COUNT :: nat where "NSIM_MACSEC_MAX_RXSC_COUNT = 1"

record nsim_rxsc =
  rxsc_sci :: u64
  rxsc_used :: bool

record nsim_secy =
  secy_sci :: u64
  nsim_rxsc :: "nsim_rxsc list"
  nsim_rxsc_count :: u8
  secy_used :: bool

record nsim_macsec =
  nsim_secy :: "nsim_secy list"
  nsim_secy_count :: u8

definition blank_rxsc :: nsim_rxsc where
  "blank_rxsc = \<lparr>rxsc_sci = 0, rxsc_used = False\<rparr>"

definition blank_secy :: nsim_secy where
  "blank_secy = \<lparr>secy_sci = 0, nsim_rxsc = replicate NSIM_MACSEC_MAX_RXSC_COUNT blank_rxsc,
     nsim_rxsc_count = 0, secy_used = False\<rparr>"

definition nsim_macsec_init :: nsim_macsec where
  "nsim_macsec_init = \<lparr>nsim_secy = replicate NSIM_MACSEC_MAX_SECY_COUNT blank_secy, nsim_secy_count = 0\<rparr>"

section \<open>Operations\<close>

text \<open>The searches compare the SCI of every slot, taken or not.\<close>

definition nsim_macsec_find_secy :: "nsim_macsec \<Rightarrow> u64 \<Rightarrow> nat option" where
  "nsim_macsec_find_secy ns sci = first_free (\<lambda>s. secy_sci s \<noteq> sci) (nsim_secy ns)"

definition nsim_macsec_find_rxsc :: "nsim_secy \<Rightarrow> u64 \<Rightarrow> nat option" where
  "nsim_macsec_find_rxsc secy sci = first_free (\<lambda>c. rxsc_sci c \<noteq> sci) (nsim_rxsc secy)"

definition nsim_macsec_add_secy :: "u64 \<Rightarrow> nsim_macsec \<Rightarrow> nsim_macsec res" where
  "nsim_macsec_add_secy sci ns =
     (if nsim_secy_count ns = of_nat NSIM_MACSEC_MAX_SECY_COUNT then Err ENOSPC
      else case first_free secy_used (nsim_secy ns) of
             None \<Rightarrow> Err ENOSPC
           | Some idx \<Rightarrow>
               Ok (ns\<lparr>nsim_secy := (nsim_secy ns)[idx := (nsim_secy ns ! idx)
                         \<lparr>secy_used := True, nsim_rxsc_count := 0, secy_sci := sci\<rparr>],
                      nsim_secy_count := nsim_secy_count ns + 1\<rparr>))"

definition nsim_macsec_upd_secy :: "u64 \<Rightarrow> nsim_macsec \<Rightarrow> nsim_macsec res" where
  "nsim_macsec_upd_secy sci ns =
     (case nsim_macsec_find_secy ns sci of None \<Rightarrow> Err ENOENT | Some idx \<Rightarrow> Ok ns)"

definition nsim_macsec_del_secy :: "u64 \<Rightarrow> nsim_macsec \<Rightarrow> nsim_macsec res" where
  "nsim_macsec_del_secy sci ns =
     (case nsim_macsec_find_secy ns sci of
        None \<Rightarrow> Err ENOENT
      | Some idx \<Rightarrow> Ok (ns\<lparr>nsim_secy := (nsim_secy ns)[idx := blank_secy],
                           nsim_secy_count := nsim_secy_count ns - 1\<rparr>))"

text \<open>
  When every channel is taken although the counter says otherwise, the code reports it and writes
  beyond the array.
\<close>

definition nsim_macsec_add_rxsc :: "u64 \<Rightarrow> u64 \<Rightarrow> nsim_macsec \<Rightarrow> nsim_macsec res" where
  "nsim_macsec_add_rxsc sci rx_sci ns =
     (case nsim_macsec_find_secy ns sci of
        None \<Rightarrow> Err ENOENT
      | Some i \<Rightarrow>
          (let secy = nsim_secy ns ! i
           in if nsim_rxsc_count secy = of_nat NSIM_MACSEC_MAX_RXSC_COUNT then Err ENOSPC
              else case first_free rxsc_used (nsim_rxsc secy) of
                     None \<Rightarrow> Fault
                   | Some idx \<Rightarrow>
                       Ok (ns\<lparr>nsim_secy := (nsim_secy ns)[i := secy
                            \<lparr>nsim_rxsc := (nsim_rxsc secy)[idx := \<lparr>rxsc_sci = rx_sci, rxsc_used = True\<rparr>],
                             nsim_rxsc_count := nsim_rxsc_count secy + 1\<rparr>]\<rparr>)))"

definition nsim_macsec_upd_rxsc :: "u64 \<Rightarrow> u64 \<Rightarrow> nsim_macsec \<Rightarrow> nsim_macsec res" where
  "nsim_macsec_upd_rxsc sci rx_sci ns =
     (case nsim_macsec_find_secy ns sci of
        None \<Rightarrow> Err ENOENT
      | Some i \<Rightarrow>
          case nsim_macsec_find_rxsc (nsim_secy ns ! i) rx_sci of None \<Rightarrow> Err ENOENT | Some idx \<Rightarrow> Ok ns)"

definition nsim_macsec_del_rxsc :: "u64 \<Rightarrow> u64 \<Rightarrow> nsim_macsec \<Rightarrow> nsim_macsec res" where
  "nsim_macsec_del_rxsc sci rx_sci ns =
     (case nsim_macsec_find_secy ns sci of
        None \<Rightarrow> Err ENOENT
      | Some i \<Rightarrow>
          (let secy = nsim_secy ns ! i
           in case nsim_macsec_find_rxsc secy rx_sci of
                None \<Rightarrow> Err ENOENT
              | Some idx \<Rightarrow>
                  Ok (ns\<lparr>nsim_secy := (nsim_secy ns)[i := secy
                       \<lparr>nsim_rxsc := (nsim_rxsc secy)[idx := blank_rxsc],
                        nsim_rxsc_count := nsim_rxsc_count secy - 1\<rparr>]\<rparr>)))"

text \<open>The associations of a channel are not kept: its operations only check that the channel is there.\<close>

definition nsim_macsec_add_rxsa :: "u64 \<Rightarrow> u64 \<Rightarrow> nsim_macsec \<Rightarrow> nsim_macsec res" where
  "nsim_macsec_add_rxsa sci rx_sci ns =
     (case nsim_macsec_find_secy ns sci of
        None \<Rightarrow> Err ENOENT
      | Some i \<Rightarrow>
          case nsim_macsec_find_rxsc (nsim_secy ns ! i) rx_sci of None \<Rightarrow> Err ENOENT | Some idx \<Rightarrow> Ok ns)"

definition nsim_macsec_upd_rxsa :: "u64 \<Rightarrow> u64 \<Rightarrow> nsim_macsec \<Rightarrow> nsim_macsec res" where
  "nsim_macsec_upd_rxsa sci rx_sci ns =
     (case nsim_macsec_find_secy ns sci of
        None \<Rightarrow> Err ENOENT
      | Some i \<Rightarrow>
          case nsim_macsec_find_rxsc (nsim_secy ns ! i) rx_sci of None \<Rightarrow> Err ENOENT | Some idx \<Rightarrow> Ok ns)"

definition nsim_macsec_del_rxsa :: "u64 \<Rightarrow> u64 \<Rightarrow> nsim_macsec \<Rightarrow> nsim_macsec res" where
  "nsim_macsec_del_rxsa sci rx_sci ns =
     (case nsim_macsec_find_secy ns sci of
        None \<Rightarrow> Err ENOENT
      | Some i \<Rightarrow>
          case nsim_macsec_find_rxsc (nsim_secy ns ! i) rx_sci of None \<Rightarrow> Err ENOENT | Some idx \<Rightarrow> Ok ns)"

definition nsim_macsec_add_txsa :: "u64 \<Rightarrow> nsim_macsec \<Rightarrow> nsim_macsec res" where
  "nsim_macsec_add_txsa sci ns =
     (case nsim_macsec_find_secy ns sci of None \<Rightarrow> Err ENOENT | Some idx \<Rightarrow> Ok ns)"

definition nsim_macsec_upd_txsa :: "u64 \<Rightarrow> nsim_macsec \<Rightarrow> nsim_macsec res" where
  "nsim_macsec_upd_txsa sci ns =
     (case nsim_macsec_find_secy ns sci of None \<Rightarrow> Err ENOENT | Some idx \<Rightarrow> Ok ns)"

definition nsim_macsec_del_txsa :: "u64 \<Rightarrow> nsim_macsec \<Rightarrow> nsim_macsec res" where
  "nsim_macsec_del_txsa sci ns =
     (case nsim_macsec_find_secy ns sci of None \<Rightarrow> Err ENOENT | Some idx \<Rightarrow> Ok ns)"

text \<open>The requests of the MACsec core: the SCI of the SecY and, where it has one, of the receive channel.\<close>

datatype macsec_req =
    Add_secy u64 | Upd_secy u64 | Del_secy u64
  | Add_rxsc u64 u64 | Upd_rxsc u64 u64 | Del_rxsc u64 u64
  | Add_rxsa u64 u64 | Upd_rxsa u64 u64 | Del_rxsa u64 u64
  | Add_txsa u64 | Upd_txsa u64 | Del_txsa u64

primrec nsim_macsec_ops :: "macsec_req \<Rightarrow> nsim_macsec \<Rightarrow> nsim_macsec res" where
  "nsim_macsec_ops (Add_secy s) = nsim_macsec_add_secy s"
| "nsim_macsec_ops (Upd_secy s) = nsim_macsec_upd_secy s"
| "nsim_macsec_ops (Del_secy s) = nsim_macsec_del_secy s"
| "nsim_macsec_ops (Add_rxsc s r) = nsim_macsec_add_rxsc s r"
| "nsim_macsec_ops (Upd_rxsc s r) = nsim_macsec_upd_rxsc s r"
| "nsim_macsec_ops (Del_rxsc s r) = nsim_macsec_del_rxsc s r"
| "nsim_macsec_ops (Add_rxsa s r) = nsim_macsec_add_rxsa s r"
| "nsim_macsec_ops (Upd_rxsa s r) = nsim_macsec_upd_rxsa s r"
| "nsim_macsec_ops (Del_rxsa s r) = nsim_macsec_del_rxsa s r"
| "nsim_macsec_ops (Add_txsa s) = nsim_macsec_add_txsa s"
| "nsim_macsec_ops (Upd_txsa s) = nsim_macsec_upd_txsa s"
| "nsim_macsec_ops (Del_txsa s) = nsim_macsec_del_txsa s"

section \<open>The specification\<close>

text \<open>The SecYs by their SCI, each with its receive channel, if it has one.\<close>

type_synonym macsec_spec = "u64 \<Rightarrow> u64 option option"

definition spec_look :: "u64 \<Rightarrow> macsec_spec \<Rightarrow> macsec_spec res" where
  "spec_look s a = (if s \<in> dom a then Ok a else Err ENOENT)"

definition spec_look_rx :: "u64 \<Rightarrow> u64 \<Rightarrow> macsec_spec \<Rightarrow> macsec_spec res" where
  "spec_look_rx s r a = (if a s = Some (Some r) then Ok a else Err ENOENT)"

primrec macsec_spec :: "macsec_req \<Rightarrow> macsec_spec \<Rightarrow> macsec_spec res" where
  "macsec_spec (Add_secy s) a = (if card (dom a) = 3 then Err ENOSPC else Ok (a(s \<mapsto> None)))"
| "macsec_spec (Upd_secy s) a = spec_look s a"
| "macsec_spec (Del_secy s) a = (if s \<in> dom a then Ok (a(s := None)) else Err ENOENT)"
| "macsec_spec (Add_rxsc s r) a =
     (case a s of None \<Rightarrow> Err ENOENT | Some None \<Rightarrow> Ok (a(s \<mapsto> Some r)) | Some (Some _) \<Rightarrow> Err ENOSPC)"
| "macsec_spec (Upd_rxsc s r) a = spec_look_rx s r a"
| "macsec_spec (Del_rxsc s r) a = (if a s = Some (Some r) then Ok (a(s \<mapsto> None)) else Err ENOENT)"
| "macsec_spec (Add_rxsa s r) a = spec_look_rx s r a"
| "macsec_spec (Upd_rxsa s r) a = spec_look_rx s r a"
| "macsec_spec (Del_rxsa s r) a = spec_look_rx s r a"
| "macsec_spec (Add_txsa s) a = spec_look s a"
| "macsec_spec (Upd_txsa s) a = spec_look s a"
| "macsec_spec (Del_txsa s) a = spec_look s a"

text \<open>
  The requests for which the table is a map: no SCI is 0, and none is added twice. The MACsec core keeps the
  second condition, for it refuses an SCI that a device has already; it does not keep the first, as it
  takes any SCI from the user. What happens then is \<open>zero_sci_leaks\<close>, at the end.
\<close>

primrec macsec_allowed :: "macsec_req \<Rightarrow> macsec_spec \<Rightarrow> bool" where
  "macsec_allowed (Add_secy s) a \<longleftrightarrow> s \<noteq> 0 \<and> s \<notin> dom a"
| "macsec_allowed (Upd_secy s) a \<longleftrightarrow> s \<noteq> 0"
| "macsec_allowed (Del_secy s) a \<longleftrightarrow> s \<noteq> 0"
| "macsec_allowed (Add_rxsc s r) a \<longleftrightarrow> s \<noteq> 0 \<and> r \<noteq> 0"
| "macsec_allowed (Upd_rxsc s r) a \<longleftrightarrow> s \<noteq> 0 \<and> r \<noteq> 0"
| "macsec_allowed (Del_rxsc s r) a \<longleftrightarrow> s \<noteq> 0 \<and> r \<noteq> 0"
| "macsec_allowed (Add_rxsa s r) a \<longleftrightarrow> s \<noteq> 0 \<and> r \<noteq> 0"
| "macsec_allowed (Upd_rxsa s r) a \<longleftrightarrow> s \<noteq> 0 \<and> r \<noteq> 0"
| "macsec_allowed (Del_rxsa s r) a \<longleftrightarrow> s \<noteq> 0 \<and> r \<noteq> 0"
| "macsec_allowed (Add_txsa s) a \<longleftrightarrow> s \<noteq> 0"
| "macsec_allowed (Upd_txsa s) a \<longleftrightarrow> s \<noteq> 0"
| "macsec_allowed (Del_txsa s) a \<longleftrightarrow> s \<noteq> 0"

section \<open>The table\<close>

interpretation secys: slot_table secy_used blank_secy
  by unfold_locales (simp add: blank_secy_def)

interpretation rxscs: slot_table rxsc_used blank_rxsc
  by unfold_locales (simp add: blank_rxsc_def)

definition rx_of :: "nsim_secy \<Rightarrow> u64 option" where
  "rx_of secy = map_option rxsc_sci (find rxsc_used (nsim_rxsc secy))"

definition macsec_abs :: "nsim_macsec \<Rightarrow> macsec_spec" where
  "macsec_abs ns s = map_option rx_of (find (\<lambda>y. secy_used y \<and> secy_sci y = s) (nsim_secy ns))"

text \<open>A slot is blank, or has a SecY whose counter agrees with its channel.\<close>

definition secy_ok :: "nsim_secy \<Rightarrow> bool" where
  "secy_ok y \<longleftrightarrow> (if secy_used y
     then secy_sci y \<noteq> 0 \<and> (nsim_rxsc y = [blank_rxsc] \<and> nsim_rxsc_count y = 0
            \<or> (\<exists>r. r \<noteq> 0 \<and> nsim_rxsc y = [\<lparr>rxsc_sci = r, rxsc_used = True\<rparr>] \<and> nsim_rxsc_count y = 1))
     else y = blank_secy)"

definition macsec_inv :: "nsim_macsec \<Rightarrow> bool" where
  "macsec_inv ns \<longleftrightarrow> length (nsim_secy ns) = NSIM_MACSEC_MAX_SECY_COUNT
     \<and> (\<forall>y \<in> set (nsim_secy ns). secy_ok y)
     \<and> (\<forall>i < NSIM_MACSEC_MAX_SECY_COUNT. \<forall>j < NSIM_MACSEC_MAX_SECY_COUNT.
          secy_used (nsim_secy ns ! i) \<and> secy_used (nsim_secy ns ! j)
            \<and> secy_sci (nsim_secy ns ! i) = secy_sci (nsim_secy ns ! j) \<longrightarrow> i = j)
     \<and> nsim_secy_count ns = of_nat (length (secys.taken (nsim_secy ns)))"

lemma init_inv: "macsec_inv nsim_macsec_init"
proof -
  have "\<not> secy_used blank_secy" by (rule secys.blank_free)
  then show ?thesis by (auto simp: macsec_inv_def nsim_macsec_init_def secys.taken_blank secy_ok_def)
qed

lemma init_abs: "macsec_abs nsim_macsec_init = Map.empty"
  by (auto simp: macsec_abs_def nsim_macsec_init_def NSIM_MACSEC_MAX_SECY_COUNT_def numeral_3_eq_3 blank_secy_def)

lemma inv_slot: "macsec_inv ns \<Longrightarrow> i < length (nsim_secy ns) \<Longrightarrow> secy_ok (nsim_secy ns ! i)"
  by (simp add: macsec_inv_def)

lemma abs_iff:
  assumes "macsec_inv ns"
  shows "macsec_abs ns s = Some v \<longleftrightarrow>
    (\<exists>i < NSIM_MACSEC_MAX_SECY_COUNT. secy_used (nsim_secy ns ! i) \<and> secy_sci (nsim_secy ns ! i) = s \<and> rx_of (nsim_secy ns ! i) = v)"
proof
  assume "macsec_abs ns s = Some v"
  then obtain y where "find (\<lambda>y. secy_used y \<and> secy_sci y = s) (nsim_secy ns) = Some y" "rx_of y = v"
    by (auto simp: macsec_abs_def)
  with find_Some_iff_in [OF this(1)] show "\<exists>i < NSIM_MACSEC_MAX_SECY_COUNT. secy_used (nsim_secy ns ! i)
      \<and> secy_sci (nsim_secy ns ! i) = s \<and> rx_of (nsim_secy ns ! i) = v"
    using assms by (auto simp: macsec_inv_def in_set_conv_nth)
next
  assume "\<exists>i < NSIM_MACSEC_MAX_SECY_COUNT. secy_used (nsim_secy ns ! i) \<and> secy_sci (nsim_secy ns ! i) = s
    \<and> rx_of (nsim_secy ns ! i) = v"
  then obtain i where i: "i < NSIM_MACSEC_MAX_SECY_COUNT" "secy_used (nsim_secy ns ! i)" "secy_sci (nsim_secy ns ! i) = s"
    "rx_of (nsim_secy ns ! i) = v" by auto
  have len: "length (nsim_secy ns) = NSIM_MACSEC_MAX_SECY_COUNT" using assms by (simp add: macsec_inv_def)
  have "find (\<lambda>y. secy_used y \<and> secy_sci y = s) (nsim_secy ns) \<noteq> None"
    using i len nth_mem [of i "nsim_secy ns"] by (auto simp: find_None_all)
  then obtain y where y: "find (\<lambda>y. secy_used y \<and> secy_sci y = s) (nsim_secy ns) = Some y" by auto
  then obtain j where j: "j < NSIM_MACSEC_MAX_SECY_COUNT" "nsim_secy ns ! j = y" "secy_used y" "secy_sci y = s"
    using find_Some_iff_in [OF y] len by (auto simp: in_set_conv_nth)
  then have "j = i" using assms i by (auto simp: macsec_inv_def)
  then show "macsec_abs ns s = Some v" using y j(2) i(4) by (simp add: macsec_abs_def)
qed

lemma find_secy_None:
  "macsec_inv ns \<Longrightarrow> nsim_macsec_find_secy ns s = None \<Longrightarrow> macsec_abs ns s = None"
  by (auto simp: nsim_macsec_find_secy_def first_free_None macsec_abs_def find_None_all)

lemma find_secy_Some:
  assumes "macsec_inv ns" and "s \<noteq> 0" and "nsim_macsec_find_secy ns s = Some i"
  shows "i < NSIM_MACSEC_MAX_SECY_COUNT" and "secy_used (nsim_secy ns ! i)" and "secy_sci (nsim_secy ns ! i) = s"
    and "macsec_abs ns s = Some (rx_of (nsim_secy ns ! i))"
proof -
  from assms(3) have i: "i < length (nsim_secy ns)" "secy_sci (nsim_secy ns ! i) = s"
    by (auto simp: nsim_macsec_find_secy_def dest: first_free_Some)
  then show "i < NSIM_MACSEC_MAX_SECY_COUNT" "secy_sci (nsim_secy ns ! i) = s" using assms(1) by (simp_all add: macsec_inv_def)
  show used: "secy_used (nsim_secy ns ! i)"
    using inv_slot [OF assms(1) i(1)] i(2) assms(2) by (auto simp: secy_ok_def blank_secy_def split: if_splits)
  show "macsec_abs ns s = Some (rx_of (nsim_secy ns ! i))"
    unfolding abs_iff [OF assms(1)] using i used assms(1) by (auto simp: macsec_inv_def)
qed

text \<open>The counter of the table is the number of SecYs.\<close>

lemma card_dom_abs:
  assumes "macsec_inv ns"
  shows "card (dom (macsec_abs ns)) = length (secys.taken (nsim_secy ns))"
proof -
  have len: "length (nsim_secy ns) = NSIM_MACSEC_MAX_SECY_COUNT" using assms by (simp add: macsec_inv_def)
  define I where "I = {i. i < length (nsim_secy ns) \<and> secy_used (nsim_secy ns ! i)}"
  have "dom (macsec_abs ns) = (\<lambda>i. secy_sci (nsim_secy ns ! i)) ` I"
    using abs_iff [OF assms] by (auto simp: I_def len dom_def)
  moreover have "inj_on (\<lambda>i. secy_sci (nsim_secy ns ! i)) I"
    using assms unfolding I_def inj_on_def macsec_inv_def by auto
  ultimately have "card (dom (macsec_abs ns)) = card I" by (simp add: card_image)
  also have "\<dots> = length (secys.taken (nsim_secy ns))"
    by (simp add: I_def secys.taken_def length_filter_conv_card)
  finally show ?thesis .
qed

lemma taken_le_3: "macsec_inv ns \<Longrightarrow> length (secys.taken (nsim_secy ns)) \<le> 3"
  using secys.taken_le [of "nsim_secy ns"] by (simp add: macsec_inv_def NSIM_MACSEC_MAX_SECY_COUNT_def)

lemma count_full:
  assumes "macsec_inv ns"
  shows "nsim_secy_count ns = of_nat NSIM_MACSEC_MAX_SECY_COUNT \<longleftrightarrow> card (dom (macsec_abs ns)) = 3"
  using assms taken_le_3 [OF assms]
  by (auto simp: macsec_inv_def card_dom_abs word_unat_eq_iff unat_of_nat NSIM_MACSEC_MAX_SECY_COUNT_def)

lemma map_eq_SomeI: "(\<And>s v. f s = Some v \<longleftrightarrow> g s = Some v) \<Longrightarrow> f = g"
  by (metis option.exhaust ext)

text \<open>One slot changes: what becomes of the other slots.\<close>

lemma upd_inv_slots:
  assumes "macsec_inv ns" and "i < NSIM_MACSEC_MAX_SECY_COUNT" and "secy_ok y"
    and "\<And>j. j < NSIM_MACSEC_MAX_SECY_COUNT \<Longrightarrow> j \<noteq> i \<Longrightarrow> secy_used (nsim_secy ns ! j) \<Longrightarrow> secy_used y
           \<Longrightarrow> secy_sci (nsim_secy ns ! j) \<noteq> secy_sci y"
    and "c = of_nat (length (secys.taken ((nsim_secy ns)[i := y])))"
  shows "macsec_inv (ns\<lparr>nsim_secy := (nsim_secy ns)[i := y], nsim_secy_count := c\<rparr>)"
proof -
  have len: "length (nsim_secy ns) = NSIM_MACSEC_MAX_SECY_COUNT" using assms(1) by (simp add: macsec_inv_def)
  have "\<forall>y' \<in> set ((nsim_secy ns)[i := y]). secy_ok y'"
    using set_update_subset_insert [of "nsim_secy ns" i y] assms(1,3) by (auto simp: macsec_inv_def)
  moreover have "j = k" if "j < NSIM_MACSEC_MAX_SECY_COUNT" "k < NSIM_MACSEC_MAX_SECY_COUNT"
    "secy_used ((nsim_secy ns)[i := y] ! j)" "secy_used ((nsim_secy ns)[i := y] ! k)"
    "secy_sci ((nsim_secy ns)[i := y] ! j) = secy_sci ((nsim_secy ns)[i := y] ! k)" for j k
    using that assms(1,2) assms(4) [of j] assms(4) [of k] len
    by (cases "j = i"; cases "k = i") (auto simp: macsec_inv_def)
  ultimately show ?thesis using assms(5) len unfolding macsec_inv_def by auto
qed

lemma upd_abs_slot:
  assumes "macsec_inv ns" and "macsec_inv (ns\<lparr>nsim_secy := (nsim_secy ns)[i := y], nsim_secy_count := c\<rparr>)"
    and "i < NSIM_MACSEC_MAX_SECY_COUNT"
    and "secy_used (nsim_secy ns ! i) \<Longrightarrow> secy_sci (nsim_secy ns ! i) = s"
    and "secy_used y \<Longrightarrow> secy_sci y = s"
    and "\<And>j. j < NSIM_MACSEC_MAX_SECY_COUNT \<Longrightarrow> j \<noteq> i \<Longrightarrow> secy_used (nsim_secy ns ! j) \<Longrightarrow> secy_sci (nsim_secy ns ! j) \<noteq> s"
  shows "macsec_abs (ns\<lparr>nsim_secy := (nsim_secy ns)[i := y], nsim_secy_count := c\<rparr>)
    = (macsec_abs ns)(s := (if secy_used y then Some (rx_of y) else None))"
proof (rule map_eq_SomeI)
  fix t v
  define ns' where "ns' = ns\<lparr>nsim_secy := (nsim_secy ns)[i := y], nsim_secy_count := c\<rparr>"
  define P where "P y \<longleftrightarrow> secy_used y \<and> secy_sci y = t \<and> rx_of y = v" for y
  have len: "length (nsim_secy ns) = NSIM_MACSEC_MAX_SECY_COUNT" using assms(1) by (simp add: macsec_inv_def)
  have old: "macsec_abs ns t = Some v \<longleftrightarrow> (\<exists>j < NSIM_MACSEC_MAX_SECY_COUNT. P (nsim_secy ns ! j))"
    using abs_iff [OF assms(1)] by (simp add: P_def)
  have nth: "nsim_secy ns' ! j = (if j = i then y else nsim_secy ns ! j)" for j
    using assms(3) len by (simp add: ns'_def nth_list_update)
  have new: "macsec_abs ns' t = Some v \<longleftrightarrow> (\<exists>j < NSIM_MACSEC_MAX_SECY_COUNT. P (if j = i then y else nsim_secy ns ! j))"
    using abs_iff [OF assms(2)] by (simp add: P_def nth ns'_def [symmetric])
  show "macsec_abs (ns\<lparr>nsim_secy := (nsim_secy ns)[i := y], nsim_secy_count := c\<rparr>) t = Some v
    \<longleftrightarrow> ((macsec_abs ns)(s := (if secy_used y then Some (rx_of y) else None))) t = Some v"
  proof (cases "t = s")
    case True
    have other: "\<not> P (nsim_secy ns ! j)" if "j < NSIM_MACSEC_MAX_SECY_COUNT" "j \<noteq> i" for j
      using assms(6) [OF that] True by (auto simp: P_def)
    have "(\<exists>j < NSIM_MACSEC_MAX_SECY_COUNT. P (if j = i then y else nsim_secy ns ! j)) \<longleftrightarrow> P y"
      using other assms(3) by auto
    then show ?thesis using new assms(5) True by (auto simp: P_def ns'_def)
  next
    case False
    have "\<not> P y" "\<not> P (nsim_secy ns ! i)" using assms(4,5) False by (auto simp: P_def)
    then have "(\<exists>j < NSIM_MACSEC_MAX_SECY_COUNT. P (if j = i then y else nsim_secy ns ! j))
      \<longleftrightarrow> (\<exists>j < NSIM_MACSEC_MAX_SECY_COUNT. P (nsim_secy ns ! j))" by (metis (full_types))
    then show ?thesis using new old False by (simp add: ns'_def)
  qed
qed

section \<open>Every request\<close>

lemma macsec_update_count: "ns\<lparr>nsim_secy := l\<rparr> = ns\<lparr>nsim_secy := l, nsim_secy_count := nsim_secy_count ns\<rparr>"
  by simp

lemma look_agrees:
  assumes "macsec_inv ns" and "s \<noteq> 0"
  shows "agrees macsec_inv macsec_abs (case nsim_macsec_find_secy ns s of None \<Rightarrow> Err ENOENT | Some idx \<Rightarrow> Ok ns)
    (spec_look s (macsec_abs ns))"
  using find_secy_None [OF assms(1)] find_secy_Some(4) [OF assms] assms(1)
  by (cases "nsim_macsec_find_secy ns s") (auto simp: spec_look_def dom_def)

lemma find_rxsc:
  assumes "secy_ok y" and "secy_used y" and "r \<noteq> 0"
  shows "nsim_macsec_find_rxsc y r = (if rx_of y = Some r then Some 0 else None)"
  using assms by (auto simp: secy_ok_def nsim_macsec_find_rxsc_def rx_of_def blank_rxsc_def)

lemma used_slot:
  assumes "macsec_inv ns" and "s \<noteq> 0" and "nsim_macsec_find_secy ns s = Some i"
  shows "secy_ok (nsim_secy ns ! i)"
  using inv_slot [OF assms(1)] find_secy_Some(1) [OF assms] assms(1) by (simp add: macsec_inv_def)

lemma look_rx_agrees:
  assumes "macsec_inv ns" and "s \<noteq> 0" and "r \<noteq> 0"
  shows "agrees macsec_inv macsec_abs
    (case nsim_macsec_find_secy ns s of
       None \<Rightarrow> Err ENOENT
     | Some i \<Rightarrow> case nsim_macsec_find_rxsc (nsim_secy ns ! i) r of None \<Rightarrow> Err ENOENT | Some idx \<Rightarrow> Ok ns)
    (spec_look_rx s r (macsec_abs ns))"
proof (cases "nsim_macsec_find_secy ns s")
  case None
  then show ?thesis using find_secy_None [OF assms(1)] by (simp add: spec_look_rx_def)
next
  case (Some i)
  then show ?thesis
    using find_secy_Some(2,4) [OF assms(1,2) Some] find_rxsc [OF used_slot [OF assms(1,2) Some] _ assms(3)] assms(1)
    by (auto simp: spec_look_rx_def)
qed

lemma others_differ:
  assumes "macsec_inv ns" and "secy_used (nsim_secy ns ! i)" and "i < NSIM_MACSEC_MAX_SECY_COUNT"
  shows "j < NSIM_MACSEC_MAX_SECY_COUNT \<Longrightarrow> j \<noteq> i \<Longrightarrow> secy_used (nsim_secy ns ! j) \<Longrightarrow> secy_sci (nsim_secy ns ! j) \<noteq> secy_sci (nsim_secy ns ! i)"
  using assms by (auto simp: macsec_inv_def)

lemma add_secy_agrees:
  assumes inv: "macsec_inv ns" and s: "s \<noteq> 0" "s \<notin> dom (macsec_abs ns)"
  shows "agrees macsec_inv macsec_abs (nsim_macsec_add_secy s ns) (macsec_spec (Add_secy s) (macsec_abs ns))"
proof (cases "first_free secy_used (nsim_secy ns)")
  case None
  then have "nsim_secy_count ns = of_nat NSIM_MACSEC_MAX_SECY_COUNT"
    using inv by (simp add: secys.room_iff macsec_inv_def)
  then show ?thesis using count_full [OF inv] by (simp add: nsim_macsec_add_secy_def)
next
  case (Some i)
  have i: "i < length (nsim_secy ns)" "\<not> secy_used (nsim_secy ns ! i)" using first_free_Some [OF Some] by auto
  have i': "i < NSIM_MACSEC_MAX_SECY_COUNT" using i(1) inv by (simp add: macsec_inv_def)
  define y where "y = (nsim_secy ns ! i)\<lparr>secy_used := True, nsim_rxsc_count := 0, secy_sci := s\<rparr>"
  have blank: "nsim_secy ns ! i = blank_secy" using inv_slot [OF inv i(1)] i(2) by (simp add: secy_ok_def)
  have y: "secy_used y" "secy_sci y = s" "secy_ok y" "rx_of y = None"
    using s(1) by (simp_all add: y_def blank secy_ok_def blank_secy_def NSIM_MACSEC_MAX_RXSC_COUNT_def rx_of_def blank_rxsc_def)
  have fresh: "secy_sci (nsim_secy ns ! j) \<noteq> s" if "j < NSIM_MACSEC_MAX_SECY_COUNT" "secy_used (nsim_secy ns ! j)" for j
    using abs_iff [OF inv, of s] that s(2) by auto
  have count: "nsim_secy_count ns + 1 = of_nat (length (secys.taken ((nsim_secy ns)[i := y])))"
    using secys.take_slot(1) [OF i y(1)] inv by (simp add: macsec_inv_def)
  have inv': "macsec_inv (ns\<lparr>nsim_secy := (nsim_secy ns)[i := y], nsim_secy_count := nsim_secy_count ns + 1\<rparr>)"
    by (rule upd_inv_slots [OF inv i' y(3) _ count]) (simp add: fresh y(2))
  have "macsec_abs (ns\<lparr>nsim_secy := (nsim_secy ns)[i := y], nsim_secy_count := nsim_secy_count ns + 1\<rparr>)
    = (macsec_abs ns)(s := (if secy_used y then Some (rx_of y) else None))"
    by (rule upd_abs_slot [OF inv inv' i']) (simp_all add: i(2) y(2) fresh)
  then show ?thesis
    using inv' y(1,4) Some count_full [OF inv] by (simp add: nsim_macsec_add_secy_def y_def [symmetric])
qed

lemma del_secy_agrees:
  assumes inv: "macsec_inv ns" and s: "s \<noteq> 0"
  shows "agrees macsec_inv macsec_abs (nsim_macsec_del_secy s ns) (macsec_spec (Del_secy s) (macsec_abs ns))"
proof (cases "nsim_macsec_find_secy ns s")
  case None
  then show ?thesis using find_secy_None [OF inv] by (simp add: nsim_macsec_del_secy_def dom_def)
next
  case (Some i)
  note i = find_secy_Some [OF inv s Some]
  have free: "\<not> secy_used blank_secy" by (rule secys.blank_free)
  have "Suc (length (secys.taken ((nsim_secy ns)[i := blank_secy]))) = length (secys.taken (nsim_secy ns))"
    using secys.free_slot [OF _ i(2)] i(1) inv by (simp add: macsec_inv_def)
  from arg_cong [OF this, of "of_nat :: nat \<Rightarrow> u8"]
  have count: "nsim_secy_count ns - 1 = of_nat (length (secys.taken ((nsim_secy ns)[i := blank_secy])))"
    using inv by (simp add: macsec_inv_def algebra_simps)
  have inv': "macsec_inv (ns\<lparr>nsim_secy := (nsim_secy ns)[i := blank_secy], nsim_secy_count := nsim_secy_count ns - 1\<rparr>)"
    by (rule upd_inv_slots [OF inv i(1) _ _ count]) (simp_all add: secy_ok_def free)
  have "macsec_abs (ns\<lparr>nsim_secy := (nsim_secy ns)[i := blank_secy], nsim_secy_count := nsim_secy_count ns - 1\<rparr>)
    = (macsec_abs ns)(s := (if secy_used blank_secy then Some (rx_of blank_secy) else None))"
    by (rule upd_abs_slot [OF inv inv' i(1)]) (use others_differ [OF inv i(2,1)] in \<open>simp_all add: i(3) free\<close>)
  then show ?thesis using inv' free i(4) Some by (simp add: nsim_macsec_del_secy_def dom_def)
qed

text \<open>The channel of one SecY changes.\<close>

lemma upd_rx_agrees:
  assumes inv: "macsec_inv ns" and s: "s \<noteq> 0" and i: "nsim_macsec_find_secy ns s = Some i"
    and y: "secy_ok y" "secy_used y" "secy_sci y = s"
  shows "agrees macsec_inv macsec_abs (Ok (ns\<lparr>nsim_secy := (nsim_secy ns)[i := y]\<rparr>)) (Ok ((macsec_abs ns)(s \<mapsto> rx_of y)))"
proof -
  note i = find_secy_Some [OF inv s i]
  note differ = others_differ [OF inv i(2,1), unfolded i(3)]
  have count: "nsim_secy_count ns = of_nat (length (secys.taken ((nsim_secy ns)[i := y])))"
    using secys.keep_slot [OF _ i(2) y(2)] i(1) inv by (simp add: macsec_inv_def)
  have inv': "macsec_inv (ns\<lparr>nsim_secy := (nsim_secy ns)[i := y], nsim_secy_count := nsim_secy_count ns\<rparr>)"
    by (rule upd_inv_slots [OF inv i(1) y(1) _ count]) (simp add: y(3) differ)
  have "macsec_abs (ns\<lparr>nsim_secy := (nsim_secy ns)[i := y], nsim_secy_count := nsim_secy_count ns\<rparr>)
    = (macsec_abs ns)(s := (if secy_used y then Some (rx_of y) else None))"
    by (rule upd_abs_slot [OF inv inv' i(1)]) (simp_all add: i(3) y(3) differ)
  then show ?thesis using inv' y(2) by (subst macsec_update_count) simp
qed

lemma add_rxsc_agrees:
  assumes inv: "macsec_inv ns" and s: "s \<noteq> 0" and r: "r \<noteq> 0"
  shows "agrees macsec_inv macsec_abs (nsim_macsec_add_rxsc s r ns) (macsec_spec (Add_rxsc s r) (macsec_abs ns))"
proof (cases "nsim_macsec_find_secy ns s")
  case None
  then show ?thesis using find_secy_None [OF inv] by (simp add: nsim_macsec_add_rxsc_def)
next
  case (Some i)
  note i = find_secy_Some [OF inv s Some]
  let ?y = "nsim_secy ns ! i"
  consider (empty) "nsim_rxsc ?y = [blank_rxsc]" "nsim_rxsc_count ?y = 0"
    | (full) r' where "nsim_rxsc ?y = [\<lparr>rxsc_sci = r', rxsc_used = True\<rparr>]" "nsim_rxsc_count ?y = 1"
    using used_slot [OF inv s Some] i(2) by (auto simp: secy_ok_def)
  then show ?thesis
  proof cases
    case empty
    define y where "y = ?y\<lparr>nsim_rxsc := (nsim_rxsc ?y)[0 := \<lparr>rxsc_sci = r, rxsc_used = True\<rparr>],
      nsim_rxsc_count := nsim_rxsc_count ?y + 1\<rparr>"
    have y: "secy_ok y" "secy_used y" "secy_sci y = s" "rx_of y = Some r"
      using used_slot [OF inv s Some] i(2,3) empty r by (auto simp: y_def secy_ok_def rx_of_def)
    have "nsim_macsec_add_rxsc s r ns = Ok (ns\<lparr>nsim_secy := (nsim_secy ns)[i := y]\<rparr>)"
      using Some empty by (simp add: nsim_macsec_add_rxsc_def y_def Let_def NSIM_MACSEC_MAX_RXSC_COUNT_def blank_rxsc_def)
    moreover have "macsec_abs ns s = Some None" using i(4) empty by (simp add: rx_of_def blank_rxsc_def)
    ultimately show ?thesis using upd_rx_agrees [OF inv s Some y(1-3)] y(4) by simp
  next
    case full
    then have "macsec_abs ns s = Some (Some r')" using i(4) by (simp add: rx_of_def)
    then show ?thesis using Some full by (simp add: nsim_macsec_add_rxsc_def NSIM_MACSEC_MAX_RXSC_COUNT_def)
  qed
qed

lemma del_rxsc_agrees:
  assumes inv: "macsec_inv ns" and s: "s \<noteq> 0" and r: "r \<noteq> 0"
  shows "agrees macsec_inv macsec_abs (nsim_macsec_del_rxsc s r ns) (macsec_spec (Del_rxsc s r) (macsec_abs ns))"
proof (cases "nsim_macsec_find_secy ns s")
  case None
  then show ?thesis using find_secy_None [OF inv] by (simp add: nsim_macsec_del_rxsc_def)
next
  case (Some i)
  note i = find_secy_Some [OF inv s Some]
  note find = find_rxsc [OF used_slot [OF inv s Some] i(2) r]
  show ?thesis
  proof (cases "rx_of (nsim_secy ns ! i) = Some r")
    case False
    then show ?thesis using Some find i(4) by (simp add: nsim_macsec_del_rxsc_def Let_def)
  next
    case True
    let ?y = "nsim_secy ns ! i"
    have full: "nsim_rxsc ?y = [\<lparr>rxsc_sci = r, rxsc_used = True\<rparr>]" "nsim_rxsc_count ?y = 1"
      using used_slot [OF inv s Some] i(2) True by (auto simp: secy_ok_def rx_of_def blank_rxsc_def)
    define y where "y = ?y\<lparr>nsim_rxsc := (nsim_rxsc ?y)[0 := blank_rxsc], nsim_rxsc_count := nsim_rxsc_count ?y - 1\<rparr>"
    have y: "secy_ok y" "secy_used y" "secy_sci y = s" "rx_of y = None"
      using used_slot [OF inv s Some] i(2,3) full by (auto simp: y_def secy_ok_def rx_of_def blank_rxsc_def)
    have "nsim_macsec_del_rxsc s r ns = Ok (ns\<lparr>nsim_secy := (nsim_secy ns)[i := y]\<rparr>)"
      using Some find True by (simp add: nsim_macsec_del_rxsc_def y_def Let_def)
    then show ?thesis using upd_rx_agrees [OF inv s Some y(1-3)] y(4) i(4) True by simp
  qed
qed

lemma macsec_agrees:
  assumes "macsec_inv ns" and "macsec_allowed r (macsec_abs ns)"
  shows "agrees macsec_inv macsec_abs (nsim_macsec_ops r ns) (macsec_spec r (macsec_abs ns))"
  using assms add_secy_agrees [OF assms(1)] del_secy_agrees [OF assms(1)] add_rxsc_agrees [OF assms(1)]
    del_rxsc_agrees [OF assms(1)] look_agrees [OF assms(1)] look_rx_agrees [OF assms(1)]
  by (cases r) (auto simp: nsim_macsec_upd_secy_def nsim_macsec_upd_rxsc_def nsim_macsec_add_rxsa_def nsim_macsec_upd_rxsa_def
    nsim_macsec_del_rxsa_def nsim_macsec_add_txsa_def nsim_macsec_upd_txsa_def nsim_macsec_del_txsa_def)

interpretation macsec: request_refinement nsim_macsec_ops macsec_spec macsec_abs macsec_inv macsec_allowed
  by unfold_locales (rule macsec_agrees)

text \<open>
  C39: As long as no request names the SCI 0 and no SCI is added twice, the offload of MACsec behaves as a
  table of at most three SecYs, each with at most one receive channel: to every such sequence of
  requests, starting from the table as it is initialised, the driver gives the replies of that table; the counter is the number
  of SecYs; and no request writes beyond the arrays. The condition on the SCI 0 is one on the users of the
  driver: nothing in it or in the MACsec core enforces it.
\<close>

theorem macsec_table_refines:
  assumes "allowed_run macsec_allowed macsec_spec rs Map.empty"
  shows "replies nsim_macsec_ops rs nsim_macsec_init = replies macsec_spec rs Map.empty
    \<and> unat (nsim_secy_count (after nsim_macsec_ops rs nsim_macsec_init)) = card (dom (after macsec_spec rs Map.empty))"
proof -
  note run = macsec.run [OF init_inv, unfolded init_abs, OF assms]
  let ?ns = "after nsim_macsec_ops rs nsim_macsec_init"
  have inv: "macsec_inv ?ns" and abs: "macsec_abs ?ns = after macsec_spec rs Map.empty" using run by auto
  have "unat (nsim_secy_count ?ns) = length (secys.taken (nsim_secy ?ns))"
    using inv taken_le_3 [OF inv] by (simp add: macsec_inv_def unat_of_nat)
  then show ?thesis using card_dom_abs [OF inv] run by (simp add: abs)
qed

lemma macsec_table_refines_witness:
  "replies nsim_macsec_ops [Add_secy 1, Add_secy 2, Add_rxsc 2 7, Add_rxsc 2 8, Add_secy 3, Add_secy 4, Del_secy 1, Add_secy 4, Upd_rxsc 2 7] nsim_macsec_init
     = replies macsec_spec [Add_secy 1, Add_secy 2, Add_rxsc 2 7, Add_rxsc 2 8, Add_secy 3, Add_secy 4, Del_secy 1, Add_secy 4, Upd_rxsc 2 7] Map.empty"
  by (rule macsec_table_refines [THEN conjunct1]) (simp add: spec_look_rx_def)

text \<open>
  The SCI 0 is special, since a free slot has it too. The stack lets a user choose any SCI. With
  two SecYs, the second of SCI 0, deleting the first and then the second clears the free slot: the
  second stays in its slot for good, while the counter is 0.
\<close>

lemma zero_sci_leaks:
  "nsim_secy_count (after nsim_macsec_ops [Add_secy 1, Add_secy 0, Del_secy 1, Del_secy 0] nsim_macsec_init) = 0
   \<and> secy_used (nsim_secy (after nsim_macsec_ops [Add_secy 1, Add_secy 0, Del_secy 1, Del_secy 0] nsim_macsec_init) ! 1)"
  by (simp add: nsim_macsec_init_def nsim_macsec_add_secy_def nsim_macsec_del_secy_def nsim_macsec_find_secy_def
      blank_secy_def NSIM_MACSEC_MAX_SECY_COUNT_def numeral_3_eq_3)

end
