(* ===== verification/Dpll_Types.thy ===== *)
theory Dpll_Types
  imports Xarray
begin

text \<open>
  The data of the DPLL subsystem (\<open>dpll/dpll_core.h\<close>, \<open>include/linux/dpll.h\<close>): devices, pins,
  the references between them, and the callback tables of the drivers behind them.

  A device or pin is named by its \<open>id\<close>, its index in \<open>dpll_device_xa\<close> or \<open>dpll_pin_xa\<close>; a
  pointer to one is that number, and dereferencing a number that is in use no more is
  \<open>None\<close>, or \<open>Fault\<close>. An operations table and a private pointer are numbers too, because the
  code compares them; the number 0 is NULL. The mark \<open>DPLL_REGISTERED\<close> of an array slot is a
  field of the object in the slot. A reference count is a natural number.
\<close>

section \<open>Numbers of the user-space interface\<close>

definition DPLL_LOCK_STATUS_UNLOCKED :: nat where "DPLL_LOCK_STATUS_UNLOCKED = 1"
definition DPLL_LOCK_STATUS_LOCKED_HO_ACQ :: nat where "DPLL_LOCK_STATUS_LOCKED_HO_ACQ = 3"
definition DPLL_LOCK_STATUS_HOLDOVER :: nat where "DPLL_LOCK_STATUS_HOLDOVER = 4"
definition DPLL_TYPE_PPS :: nat where "DPLL_TYPE_PPS = 1"
definition DPLL_TYPE_MAX :: nat where "DPLL_TYPE_MAX = 2"
definition DPLL_PIN_TYPE_MUX :: nat where "DPLL_PIN_TYPE_MUX = 1"
definition DPLL_PIN_TYPE_MAX :: nat where "DPLL_PIN_TYPE_MAX = 5"

definition DPLL_PIN_CAPABILITIES_DIRECTION_CAN_CHANGE :: u64 where
  "DPLL_PIN_CAPABILITIES_DIRECTION_CAN_CHANGE = 1"
definition DPLL_PIN_CAPABILITIES_PRIORITY_CAN_CHANGE :: u64 where
  "DPLL_PIN_CAPABILITIES_PRIORITY_CAN_CHANGE = 2"
definition DPLL_PIN_CAPABILITIES_STATE_CAN_CHANGE :: u64 where
  "DPLL_PIN_CAPABILITIES_STATE_CAN_CHANGE = 4"

section \<open>Objects\<close>

record device_reg =
  dr_ops :: nat
  dr_priv :: nat

record pin_reg =
  pr_ops :: nat
  pr_priv :: nat
  pr_cookie :: "nat option"

text \<open>\<open>struct dpll_pin_ref\<close>: \<open>ref_obj\<close> is the device or the pin of the union.\<close>

record pin_ref =
  ref_obj :: nat
  ref_regs :: "pin_reg list"
  ref_count :: nat

record dpll_device =
  device_idx :: nat
  d_clock_id :: u64
  d_module :: nat
  d_type :: nat
  pin_refs :: "pin_ref xarray"
  d_refcount :: nat
  d_regs :: "device_reg list"
  d_registered :: bool

record pin_frequency =
  f_min :: u64
  f_max :: u64

record pin_properties =
  board_label :: "string option"
  panel_label :: "string option"
  package_label :: "string option"
  pp_type :: nat
  capabilities :: u64
  freq_supported :: "pin_frequency list"
  phase_min :: int
  phase_max :: int

record dpll_pin =
  pin_idx :: nat
  p_clock_id :: u64
  p_module :: nat
  dpll_refs :: "pin_ref xarray"
  parent_refs :: "pin_ref xarray"
  pin_prop :: pin_properties
  p_refcount :: nat
  p_registered :: bool

section \<open>Messages\<close>

text \<open>
  A netlink message as the sequence of what has been put into it. \<open>Nest\<close> and \<open>Nest_end\<close>
  bracket a nested attribute; \<open>Cmd\<close> is the generic netlink header.
\<close>

datatype dpll_cmd =
    DPLL_CMD_DEVICE_ID_GET | DPLL_CMD_DEVICE_GET | DPLL_CMD_DEVICE_CREATE_NTF
  | DPLL_CMD_DEVICE_DELETE_NTF | DPLL_CMD_DEVICE_CHANGE_NTF | DPLL_CMD_PIN_ID_GET
  | DPLL_CMD_PIN_GET | DPLL_CMD_PIN_CREATE_NTF | DPLL_CMD_PIN_DELETE_NTF
  | DPLL_CMD_PIN_CHANGE_NTF

datatype attr_name =
    DPLL_A_ID | DPLL_A_MODULE_NAME | DPLL_A_CLOCK_ID | DPLL_A_MODE | DPLL_A_MODE_SUPPORTED
  | DPLL_A_LOCK_STATUS | DPLL_A_LOCK_STATUS_ERROR | DPLL_A_TEMP | DPLL_A_TYPE
  | DPLL_A_PIN_ID | DPLL_A_PIN_PARENT_ID | DPLL_A_PIN_MODULE_NAME | DPLL_A_PIN_CLOCK_ID
  | DPLL_A_PIN_BOARD_LABEL | DPLL_A_PIN_PANEL_LABEL | DPLL_A_PIN_PACKAGE_LABEL
  | DPLL_A_PIN_TYPE | DPLL_A_PIN_CAPABILITIES | DPLL_A_PIN_FREQUENCY
  | DPLL_A_PIN_FREQUENCY_SUPPORTED | DPLL_A_PIN_FREQUENCY_MIN | DPLL_A_PIN_FREQUENCY_MAX
  | DPLL_A_PIN_PRIO | DPLL_A_PIN_STATE | DPLL_A_PIN_DIRECTION | DPLL_A_PIN_PARENT_PIN
  | DPLL_A_PIN_PARENT_DEVICE | DPLL_A_PIN_PHASE_ADJUST_MIN | DPLL_A_PIN_PHASE_ADJUST_MAX
  | DPLL_A_PIN_PHASE_ADJUST | DPLL_A_PIN_PHASE_OFFSET | DPLL_A_PIN_FRACTIONAL_FREQUENCY_OFFSET

datatype msg_token =
    Cmd dpll_cmd
  | U32 attr_name nat
  | S32 attr_name int
  | U64 attr_name u64
  | S64 attr_name int
  | Str attr_name string
  | Nest attr_name
  | Nest_end

type_synonym msg = "msg_token list"

section \<open>Driver callbacks\<close>

text \<open>
  The tables over a driver state \<open>'d\<close>. The arguments are the pin, its private pointer, the
  device (or parent pin) and its private pointer, as the code passes them. A getter reads
  the driver's state. An entry that the core tests before the call is an option.
\<close>

type_synonym ('d, 'r) pin_get = "nat \<Rightarrow> nat \<Rightarrow> nat \<Rightarrow> nat \<Rightarrow> 'd \<Rightarrow> errno + 'r"
type_synonym ('d, 'r) pin_set = "nat \<Rightarrow> nat \<Rightarrow> nat \<Rightarrow> nat \<Rightarrow> 'r \<Rightarrow> 'd \<Rightarrow> ret \<times> 'd"

record 'd device_ops =
  mode_get :: "(nat \<Rightarrow> nat \<Rightarrow> 'd \<Rightarrow> errno + nat) option"
  lock_status_get :: "(nat \<Rightarrow> nat \<Rightarrow> 'd \<Rightarrow> errno + nat \<times> nat) option"
  temp_get :: "(nat \<Rightarrow> nat \<Rightarrow> 'd \<Rightarrow> errno + int) option"

record 'd pin_ops =
  frequency_set :: "('d, u64) pin_set option"
  frequency_get :: "('d, u64) pin_get option"
  direction_set :: "('d, nat) pin_set option"
  direction_get :: "('d, nat) pin_get option"
  state_on_pin_get :: "('d, nat) pin_get option"
  state_on_dpll_get :: "('d, nat) pin_get option"
  state_on_pin_set :: "('d, nat) pin_set option"
  state_on_dpll_set :: "('d, nat) pin_set option"
  prio_get :: "('d, nat) pin_get option"
  prio_set :: "('d, nat) pin_set option"
  phase_offset_get :: "('d, int) pin_get option"
  phase_adjust_get :: "('d, int) pin_get option"
  phase_adjust_set :: "('d, int) pin_set option"
  ffo_get :: "('d, int) pin_get option"

text \<open>
  The environment of a call: the tables that the operations numbers stand for, the names
  of the modules, whether a message still has room for one more token, and whether the
  allocation of a message succeeds.
\<close>

record 'd dpll_env =
  dev_table :: "nat \<Rightarrow> 'd device_ops"
  pin_table :: "nat \<Rightarrow> 'd pin_ops"
  mod_name :: "nat \<Rightarrow> string"
  fits :: "msg \<Rightarrow> msg_token \<Rightarrow> bool"
  msg_mem :: bool

text \<open>
  The subsystem: both object arrays, the cursors of the identifiers, the state of the
  drivers, the notifications sent so far, and whether a warning has been raised.
\<close>

record 'd dpll_sys =
  device_xa :: "dpll_device xarray"
  pin_xa :: "dpll_pin xarray"
  ddrv :: 'd
  ntfs :: "msg list"
  warned :: bool

definition warn :: "'d dpll_sys \<Rightarrow> 'd dpll_sys" where
  "warn s = s\<lparr>warned := True\<rparr>"

definition warn_if :: "bool \<Rightarrow> 'd dpll_sys \<Rightarrow> 'd dpll_sys" where
  "warn_if b s = (if b then warn s else s)"

definition upd_dev :: "nat \<Rightarrow> (dpll_device \<Rightarrow> dpll_device) \<Rightarrow> 'd dpll_sys \<Rightarrow> 'd dpll_sys" where
  "upd_dev d f s = s\<lparr>device_xa := xa_modify d f (device_xa s)\<rparr>"

definition upd_pin :: "nat \<Rightarrow> (dpll_pin \<Rightarrow> dpll_pin) \<Rightarrow> 'd dpll_sys \<Rightarrow> 'd dpll_sys" where
  "upd_pin p f s = s\<lparr>pin_xa := xa_modify p f (pin_xa s)\<rparr>"

definition the_dev :: "'d dpll_sys \<Rightarrow> nat \<Rightarrow> dpll_device res" where
  "the_dev s d = deref (xa_load (device_xa s) d)"

definition the_pin :: "'d dpll_sys \<Rightarrow> nat \<Rightarrow> dpll_pin res" where
  "the_pin s p = deref (xa_load (pin_xa s) p)"

end
