(* ===== verification/Dpll_Msg.thy ===== *)
theory Dpll_Msg
  imports Dpll_Types
begin

text \<open>
  The message builders of \<open>dpll/dpll_netlink.c\<close> and the notifications. A builder appends to a
  message and fails with \<open>-EMSGSIZE\<close> when the next token does not fit; on any failure the
  caller drops what was appended, so that a builder returns no partial message. \<open>Fault\<close>
  stands for a read through a pointer that is NULL or dead.
\<close>

section \<open>Access to registrations\<close>

text \<open>
  The \<open>..._registration_first\<close> functions warn and return NULL on an empty list, and their callers
  read through the result.
\<close>

definition dpll_device_registration_first :: "dpll_device \<Rightarrow> device_reg res" where
  "dpll_device_registration_first dpll = (case d_regs dpll of [] \<Rightarrow> Fault | reg # _ \<Rightarrow> Ok reg)"

definition dpll_pin_registration_first :: "pin_ref \<Rightarrow> pin_reg res" where
  "dpll_pin_registration_first ref = (case ref_regs ref of [] \<Rightarrow> Fault | reg # _ \<Rightarrow> Ok reg)"

definition dpll_priv :: "'d dpll_sys \<Rightarrow> nat \<Rightarrow> nat res" where
  "dpll_priv s d =
     andthen (the_dev s d) (\<lambda>dpll.
     andthen (dpll_device_registration_first dpll) (\<lambda>reg. Ok (dr_priv reg)))"

definition dpll_device_ops :: "'d dpll_env \<Rightarrow> 'd dpll_sys \<Rightarrow> nat \<Rightarrow> 'd device_ops res" where
  "dpll_device_ops env s d =
     andthen (the_dev s d) (\<lambda>dpll.
     andthen (dpll_device_registration_first dpll) (\<lambda>reg. Ok (dev_table env (dr_ops reg))))"

definition dpll_pin_ops :: "'d dpll_env \<Rightarrow> pin_ref \<Rightarrow> 'd pin_ops res" where
  "dpll_pin_ops env ref =
     andthen (dpll_pin_registration_first ref) (\<lambda>reg. Ok (pin_table env (pr_ops reg)))"

definition dpll_pin_on_dpll_priv :: "'d dpll_sys \<Rightarrow> nat \<Rightarrow> nat \<Rightarrow> nat res" where
  "dpll_pin_on_dpll_priv s d p =
     andthen (the_dev s d) (\<lambda>dpll.
     andthen (the_pin s p) (\<lambda>pin.
     case xa_load (pin_refs dpll) (pin_idx pin) of
       None \<Rightarrow> Ok 0
     | Some ref \<Rightarrow> andthen (dpll_pin_registration_first ref) (\<lambda>reg. Ok (pr_priv reg))))"

definition dpll_pin_on_pin_priv :: "'d dpll_sys \<Rightarrow> nat \<Rightarrow> nat \<Rightarrow> nat res" where
  "dpll_pin_on_pin_priv s parent p =
     andthen (the_pin s parent) (\<lambda>ppin.
     andthen (the_pin s p) (\<lambda>pin.
     case xa_load (parent_refs pin) (pin_idx ppin) of
       None \<Rightarrow> Ok 0
     | Some ref \<Rightarrow> andthen (dpll_pin_registration_first ref) (\<lambda>reg. Ok (pr_priv reg))))"

definition dpll_xa_ref_dpll_first :: "pin_ref xarray \<Rightarrow> pin_ref res" where
  "dpll_xa_ref_dpll_first refs = (case refs of [] \<Rightarrow> Fault | (i, ref) # _ \<Rightarrow> Ok ref)"

section \<open>Putting tokens\<close>

definition nla_put :: "'d dpll_env \<Rightarrow> msg_token \<Rightarrow> msg \<Rightarrow> msg res" where
  "nla_put env t m = (if fits env m t then Ok (m @ [t]) else Err EMSGSIZE)"

definition dpll_msg_add_dev_handle :: "'d dpll_env \<Rightarrow> nat \<Rightarrow> msg \<Rightarrow> msg res" where
  "dpll_msg_add_dev_handle env d m = nla_put env (U32 DPLL_A_ID d) m"

definition dpll_msg_add_dev_parent_handle :: "'d dpll_env \<Rightarrow> nat \<Rightarrow> msg \<Rightarrow> msg res" where
  "dpll_msg_add_dev_parent_handle env i m = nla_put env (U32 DPLL_A_PIN_PARENT_ID i) m"

definition dpll_msg_add_pin_handle :: "'d dpll_env \<Rightarrow> nat option \<Rightarrow> msg \<Rightarrow> msg res" where
  "dpll_msg_add_pin_handle env p m =
     (case p of None \<Rightarrow> Ok m | Some i \<Rightarrow> nla_put env (U32 DPLL_A_PIN_ID i) m)"

text \<open>Calling a callback that the core does not test first.\<close>

definition call_get :: "'f option \<Rightarrow> ('f \<Rightarrow> errno + 'a) \<Rightarrow> 'a res" where
  "call_get f k = andthen (deref f) (\<lambda>g. of_sum (k g))"

section \<open>Device attributes\<close>

definition dpll_msg_add_mode :: "'d dpll_env \<Rightarrow> 'd dpll_sys \<Rightarrow> nat \<Rightarrow> msg \<Rightarrow> msg res" where
  "dpll_msg_add_mode env s d m =
     andthen (dpll_device_ops env s d) (\<lambda>ops.
     andthen (dpll_priv s d) (\<lambda>priv.
     andthen (call_get (mode_get ops) (\<lambda>f. f d priv (ddrv s))) (\<lambda>mode.
     nla_put env (U32 DPLL_A_MODE mode) m)))"

definition dpll_msg_add_mode_supported ::
    "'d dpll_env \<Rightarrow> 'd dpll_sys \<Rightarrow> nat \<Rightarrow> msg \<Rightarrow> msg res" where
  "dpll_msg_add_mode_supported env s d m =
     andthen (dpll_device_ops env s d) (\<lambda>ops.
     andthen (dpll_priv s d) (\<lambda>priv.
     andthen (call_get (mode_get ops) (\<lambda>f. f d priv (ddrv s))) (\<lambda>mode.
     nla_put env (U32 DPLL_A_MODE_SUPPORTED mode) m)))"

definition dpll_msg_add_lock_status ::
    "'d dpll_env \<Rightarrow> 'd dpll_sys \<Rightarrow> nat \<Rightarrow> msg \<Rightarrow> msg res" where
  "dpll_msg_add_lock_status env s d m =
     andthen (dpll_device_ops env s d) (\<lambda>ops.
     andthen (dpll_priv s d) (\<lambda>priv.
     andthen (call_get (lock_status_get ops) (\<lambda>f. f d priv (ddrv s))) (\<lambda>(status, status_error).
     andthen (nla_put env (U32 DPLL_A_LOCK_STATUS status) m) (\<lambda>m.
     if status_error \<noteq> 0
        \<and> (status = DPLL_LOCK_STATUS_UNLOCKED \<or> status = DPLL_LOCK_STATUS_HOLDOVER)
     then nla_put env (U32 DPLL_A_LOCK_STATUS_ERROR status_error) m
     else Ok m))))"

definition dpll_msg_add_temp :: "'d dpll_env \<Rightarrow> 'd dpll_sys \<Rightarrow> nat \<Rightarrow> msg \<Rightarrow> msg res" where
  "dpll_msg_add_temp env s d m =
     andthen (dpll_device_ops env s d) (\<lambda>ops.
     case temp_get ops of
       None \<Rightarrow> Ok m
     | Some f \<Rightarrow>
         andthen (dpll_priv s d) (\<lambda>priv.
         andthen (of_sum (f d priv (ddrv s))) (\<lambda>temp.
         nla_put env (S32 DPLL_A_TEMP temp) m)))"

definition dpll_device_get_one :: "'d dpll_env \<Rightarrow> 'd dpll_sys \<Rightarrow> nat \<Rightarrow> msg \<Rightarrow> msg res" where
  "dpll_device_get_one env s d m =
     andthen (the_dev s d) (\<lambda>dpll.
     andthen (dpll_msg_add_dev_handle env d m) (\<lambda>m.
     andthen (nla_put env (Str DPLL_A_MODULE_NAME (mod_name env (d_module dpll))) m) (\<lambda>m.
     andthen (nla_put env (U64 DPLL_A_CLOCK_ID (d_clock_id dpll)) m) (\<lambda>m.
     andthen (dpll_msg_add_temp env s d m) (\<lambda>m.
     andthen (dpll_msg_add_lock_status env s d m) (\<lambda>m.
     andthen (dpll_msg_add_mode env s d m) (\<lambda>m.
     andthen (dpll_msg_add_mode_supported env s d m) (\<lambda>m.
     nla_put env (U32 DPLL_A_TYPE (d_type dpll)) m))))))))"

section \<open>Pin attributes\<close>

text \<open>
  Asking an optional getter of the driver about a pin on a device: nothing is added when the
  driver has none.
\<close>

definition pin_getter ::
    "'d dpll_sys \<Rightarrow> nat \<Rightarrow> pin_ref \<Rightarrow> ('d, 'r) pin_get option \<Rightarrow> msg \<Rightarrow> ('r \<Rightarrow> msg res) \<Rightarrow> msg res" where
  "pin_getter s p ref getter m put =
     (case getter of
        None \<Rightarrow> Ok m
      | Some f \<Rightarrow>
          andthen (dpll_pin_on_dpll_priv s (ref_obj ref) p) (\<lambda>pin_priv.
          andthen (dpll_priv s (ref_obj ref)) (\<lambda>priv.
          andthen (of_sum (f p pin_priv (ref_obj ref) priv (ddrv s))) put)))"

definition dpll_msg_add_pin_prio ::
    "'d dpll_env \<Rightarrow> 'd dpll_sys \<Rightarrow> nat \<Rightarrow> pin_ref \<Rightarrow> msg \<Rightarrow> msg res" where
  "dpll_msg_add_pin_prio env s p ref m =
     andthen (dpll_pin_ops env ref) (\<lambda>ops.
     pin_getter s p ref (prio_get ops) m (\<lambda>prio. nla_put env (U32 DPLL_A_PIN_PRIO prio) m))"

definition dpll_msg_add_pin_on_dpll_state ::
    "'d dpll_env \<Rightarrow> 'd dpll_sys \<Rightarrow> nat \<Rightarrow> pin_ref \<Rightarrow> msg \<Rightarrow> msg res" where
  "dpll_msg_add_pin_on_dpll_state env s p ref m =
     andthen (dpll_pin_ops env ref) (\<lambda>ops.
     pin_getter s p ref (state_on_dpll_get ops) m (\<lambda>state. nla_put env (U32 DPLL_A_PIN_STATE state) m))"

definition dpll_msg_add_pin_direction ::
    "'d dpll_env \<Rightarrow> 'd dpll_sys \<Rightarrow> nat \<Rightarrow> pin_ref \<Rightarrow> msg \<Rightarrow> msg res" where
  "dpll_msg_add_pin_direction env s p ref m =
     andthen (dpll_pin_ops env ref) (\<lambda>ops.
     andthen (dpll_pin_on_dpll_priv s (ref_obj ref) p) (\<lambda>pin_priv.
     andthen (dpll_priv s (ref_obj ref)) (\<lambda>priv.
     andthen (call_get (direction_get ops) (\<lambda>f. f p pin_priv (ref_obj ref) priv (ddrv s)))
       (\<lambda>direction. nla_put env (U32 DPLL_A_PIN_DIRECTION direction) m))))"

definition dpll_msg_add_pin_phase_adjust ::
    "'d dpll_env \<Rightarrow> 'd dpll_sys \<Rightarrow> nat \<Rightarrow> pin_ref \<Rightarrow> msg \<Rightarrow> msg res" where
  "dpll_msg_add_pin_phase_adjust env s p ref m =
     andthen (dpll_pin_ops env ref) (\<lambda>ops.
     pin_getter s p ref (phase_adjust_get ops) m
       (\<lambda>adj. nla_put env (S32 DPLL_A_PIN_PHASE_ADJUST adj) m))"

definition dpll_msg_add_phase_offset ::
    "'d dpll_env \<Rightarrow> 'd dpll_sys \<Rightarrow> nat \<Rightarrow> pin_ref \<Rightarrow> msg \<Rightarrow> msg res" where
  "dpll_msg_add_phase_offset env s p ref m =
     andthen (dpll_pin_ops env ref) (\<lambda>ops.
     pin_getter s p ref (phase_offset_get ops) m
       (\<lambda>offset. nla_put env (S64 DPLL_A_PIN_PHASE_OFFSET offset) m))"

text \<open>\<open>-ENODATA\<close> from the driver is no error.\<close>

definition dpll_msg_add_ffo ::
    "'d dpll_env \<Rightarrow> 'd dpll_sys \<Rightarrow> nat \<Rightarrow> pin_ref \<Rightarrow> msg \<Rightarrow> msg res" where
  "dpll_msg_add_ffo env s p ref m =
     andthen (dpll_pin_ops env ref) (\<lambda>ops.
     case ffo_get ops of
       None \<Rightarrow> Ok m
     | Some f \<Rightarrow>
         andthen (dpll_pin_on_dpll_priv s (ref_obj ref) p) (\<lambda>pin_priv.
         andthen (dpll_priv s (ref_obj ref)) (\<lambda>priv.
         case f p pin_priv (ref_obj ref) priv (ddrv s) of
           Inl err \<Rightarrow> if err = ENODATA then Ok m else Err err
         | Inr ffo \<Rightarrow> nla_put env (S64 DPLL_A_PIN_FRACTIONAL_FREQUENCY_OFFSET ffo) m)))"

primrec put_freqs :: "'d dpll_env \<Rightarrow> pin_frequency list \<Rightarrow> msg \<Rightarrow> msg res" where
  "put_freqs env [] m = Ok m"
| "put_freqs env (fs # fss) m =
     andthen (nla_put env (Nest DPLL_A_PIN_FREQUENCY_SUPPORTED) m) (\<lambda>m.
     andthen (nla_put env (U64 DPLL_A_PIN_FREQUENCY_MIN (f_min fs)) m) (\<lambda>m.
     andthen (nla_put env (U64 DPLL_A_PIN_FREQUENCY_MAX (f_max fs)) m) (\<lambda>m.
     put_freqs env fss (m @ [Nest_end]))))"

definition dpll_msg_add_pin_freq ::
    "'d dpll_env \<Rightarrow> 'd dpll_sys \<Rightarrow> nat \<Rightarrow> pin_ref \<Rightarrow> msg \<Rightarrow> msg res" where
  "dpll_msg_add_pin_freq env s p ref m =
     andthen (dpll_pin_ops env ref) (\<lambda>ops.
     pin_getter s p ref (frequency_get ops) m (\<lambda>freq.
     andthen (nla_put env (U64 DPLL_A_PIN_FREQUENCY freq) m) (\<lambda>m.
     andthen (the_pin s p) (\<lambda>pin.
     put_freqs env (freq_supported (pin_prop pin)) m))))"

primrec add_parents ::
    "'d dpll_env \<Rightarrow> 'd dpll_sys \<Rightarrow> nat \<Rightarrow> pin_ref \<Rightarrow> pin_ref xarray \<Rightarrow> msg \<Rightarrow> msg res" where
  "add_parents env s p dpll_ref [] m = Ok m"
| "add_parents env s p dpll_ref (ir # refs) m =
     (let ref = snd ir; ppin = ref_obj ref in
     andthen (dpll_pin_ops env ref) (\<lambda>ops.
     andthen (dpll_pin_on_dpll_priv s (ref_obj dpll_ref) ppin) (\<lambda>parent_priv.
     andthen (dpll_pin_on_pin_priv s ppin p) (\<lambda>pin_priv.
     andthen (call_get (state_on_pin_get ops) (\<lambda>f. f p pin_priv ppin parent_priv (ddrv s)))
       (\<lambda>state.
     andthen (nla_put env (Nest DPLL_A_PIN_PARENT_PIN) m) (\<lambda>m.
     andthen (dpll_msg_add_dev_parent_handle env ppin m) (\<lambda>m.
     andthen (nla_put env (U32 DPLL_A_PIN_STATE state) m) (\<lambda>m.
     add_parents env s p dpll_ref refs (m @ [Nest_end]))))))))) "

definition dpll_msg_add_pin_parents ::
    "'d dpll_env \<Rightarrow> 'd dpll_sys \<Rightarrow> nat \<Rightarrow> pin_ref \<Rightarrow> msg \<Rightarrow> msg res" where
  "dpll_msg_add_pin_parents env s p dpll_ref m =
     andthen (the_pin s p) (\<lambda>pin. add_parents env s p dpll_ref (parent_refs pin) m)"

primrec add_dplls ::
    "'d dpll_env \<Rightarrow> 'd dpll_sys \<Rightarrow> nat \<Rightarrow> pin_ref xarray \<Rightarrow> msg \<Rightarrow> msg res" where
  "add_dplls env s p [] m = Ok m"
| "add_dplls env s p (ir # refs) m =
     (let ref = snd ir in
     andthen (nla_put env (Nest DPLL_A_PIN_PARENT_DEVICE) m) (\<lambda>m.
     andthen (the_dev s (ref_obj ref)) (\<lambda>_.
     andthen (dpll_msg_add_dev_parent_handle env (ref_obj ref) m) (\<lambda>m.
     andthen (dpll_msg_add_pin_on_dpll_state env s p ref m) (\<lambda>m.
     andthen (dpll_msg_add_pin_prio env s p ref m) (\<lambda>m.
     andthen (dpll_msg_add_pin_direction env s p ref m) (\<lambda>m.
     andthen (dpll_msg_add_phase_offset env s p ref m) (\<lambda>m.
     add_dplls env s p refs (m @ [Nest_end])))))))))"

definition dpll_msg_add_pin_dplls :: "'d dpll_env \<Rightarrow> 'd dpll_sys \<Rightarrow> nat \<Rightarrow> msg \<Rightarrow> msg res" where
  "dpll_msg_add_pin_dplls env s p m =
     andthen (the_pin s p) (\<lambda>pin. add_dplls env s p (dpll_refs pin) m)"

definition put_label :: "'d dpll_env \<Rightarrow> attr_name \<Rightarrow> string option \<Rightarrow> msg \<Rightarrow> msg res" where
  "put_label env a label m = (case label of None \<Rightarrow> Ok m | Some l \<Rightarrow> nla_put env (Str a l) m)"

text \<open>
  The first reference of the pin, looked up on entry, is read through only once the fixed
  attributes are in place.
\<close>

definition dpll_cmd_pin_get_one :: "'d dpll_env \<Rightarrow> 'd dpll_sys \<Rightarrow> nat \<Rightarrow> msg \<Rightarrow> msg res" where
  "dpll_cmd_pin_get_one env s p m =
     andthen (the_pin s p) (\<lambda>pin.
     let pr = pin_prop pin in
     andthen (dpll_msg_add_pin_handle env (Some p) m) (\<lambda>m.
     andthen (nla_put env (Str DPLL_A_PIN_MODULE_NAME (mod_name env (p_module pin))) m) (\<lambda>m.
     andthen (nla_put env (U64 DPLL_A_PIN_CLOCK_ID (p_clock_id pin)) m) (\<lambda>m.
     andthen (put_label env DPLL_A_PIN_BOARD_LABEL (board_label pr) m) (\<lambda>m.
     andthen (put_label env DPLL_A_PIN_PANEL_LABEL (panel_label pr) m) (\<lambda>m.
     andthen (put_label env DPLL_A_PIN_PACKAGE_LABEL (package_label pr) m) (\<lambda>m.
     andthen (nla_put env (U32 DPLL_A_PIN_TYPE (pp_type pr)) m) (\<lambda>m.
     andthen (nla_put env (U32 DPLL_A_PIN_CAPABILITIES (unat (capabilities pr) mod 2 ^ 32)) m) (\<lambda>m.
     andthen (dpll_xa_ref_dpll_first (dpll_refs pin)) (\<lambda>ref.
     andthen (dpll_msg_add_pin_freq env s p ref m) (\<lambda>m.
     andthen (nla_put env (S32 DPLL_A_PIN_PHASE_ADJUST_MIN (phase_min pr)) m) (\<lambda>m.
     andthen (nla_put env (S32 DPLL_A_PIN_PHASE_ADJUST_MAX (phase_max pr)) m) (\<lambda>m.
     andthen (dpll_msg_add_pin_phase_adjust env s p ref m) (\<lambda>m.
     andthen (dpll_msg_add_ffo env s p ref m) (\<lambda>m.
     if xa_empty (parent_refs pin) then dpll_msg_add_pin_dplls env s p m
     else dpll_msg_add_pin_parents env s p ref m)))))))))))))))"

section \<open>Notifications\<close>

text \<open>
  A notification is the header and the object. Sending one appends it to the log; the
  result is \<open>None\<close> where building it faults.
\<close>

definition multicast ::
    "'d dpll_env \<Rightarrow> dpll_cmd \<Rightarrow> (msg \<Rightarrow> msg res) \<Rightarrow> 'd dpll_sys \<Rightarrow> (ret \<times> 'd dpll_sys) option" where
  "multicast env event build s =
     (if \<not> msg_mem env then Some (Some ENOMEM, s)
      else if \<not> fits env [] (Cmd event) then Some (Some ENOMEM, s)
      else (case build [Cmd event] of
              Ok m \<Rightarrow> Some (None, s\<lparr>ntfs := ntfs s @ [m]\<rparr>)
            | Err err \<Rightarrow> Some (Some err, s)
            | Fault \<Rightarrow> None))"

definition dpll_device_event_send ::
    "'d dpll_env \<Rightarrow> dpll_cmd \<Rightarrow> nat \<Rightarrow> 'd dpll_sys \<Rightarrow> (ret \<times> 'd dpll_sys) option" where
  "dpll_device_event_send env event d s =
     (case xa_load (device_xa s) d of
        None \<Rightarrow> None
      | Some dpll \<Rightarrow>
          if \<not> d_registered dpll then Some (Some ENODEV, warn s)
          else multicast env event (dpll_device_get_one env s d) s)"

definition dpll_device_create_ntf ::
    "'d dpll_env \<Rightarrow> nat \<Rightarrow> 'd dpll_sys \<Rightarrow> (ret \<times> 'd dpll_sys) option" where
  "dpll_device_create_ntf env = dpll_device_event_send env DPLL_CMD_DEVICE_CREATE_NTF"

definition dpll_device_delete_ntf ::
    "'d dpll_env \<Rightarrow> nat \<Rightarrow> 'd dpll_sys \<Rightarrow> (ret \<times> 'd dpll_sys) option" where
  "dpll_device_delete_ntf env = dpll_device_event_send env DPLL_CMD_DEVICE_DELETE_NTF"

definition dpll_device_change_ntf ::
    "'d dpll_env \<Rightarrow> nat \<Rightarrow> 'd dpll_sys \<Rightarrow> (ret \<times> 'd dpll_sys) option" where
  "dpll_device_change_ntf env = dpll_device_event_send env DPLL_CMD_DEVICE_CHANGE_NTF"

text \<open>The marks of the objects a pin refers to; a freed object has no mark.\<close>

definition pin_marked :: "'d dpll_sys \<Rightarrow> nat \<Rightarrow> bool" where
  "pin_marked s p = (case xa_load (pin_xa s) p of Some pin \<Rightarrow> p_registered pin | None \<Rightarrow> False)"

definition dev_marked :: "'d dpll_sys \<Rightarrow> nat \<Rightarrow> bool" where
  "dev_marked s d = (case xa_load (device_xa s) d of Some dpll \<Rightarrow> d_registered dpll | None \<Rightarrow> False)"

definition dpll_pin_available :: "'d dpll_sys \<Rightarrow> nat \<Rightarrow> bool" where
  "dpll_pin_available s p =
     (case xa_load (pin_xa s) p of
        None \<Rightarrow> False
      | Some pin \<Rightarrow>
          if \<not> p_registered pin then False
          else if \<exists>(i, ref) \<in> set (parent_refs pin). pin_marked s (ref_obj ref) then True
          else \<exists>(i, ref) \<in> set (dpll_refs pin). dev_marked s (ref_obj ref))"

definition dpll_pin_event_send ::
    "'d dpll_env \<Rightarrow> dpll_cmd \<Rightarrow> nat \<Rightarrow> 'd dpll_sys \<Rightarrow> (ret \<times> 'd dpll_sys) option" where
  "dpll_pin_event_send env event p s =
     (if \<not> dpll_pin_available s p then Some (Some ENODEV, s)
      else multicast env event (dpll_cmd_pin_get_one env s p) s)"

definition dpll_pin_create_ntf ::
    "'d dpll_env \<Rightarrow> nat \<Rightarrow> 'd dpll_sys \<Rightarrow> (ret \<times> 'd dpll_sys) option" where
  "dpll_pin_create_ntf env = dpll_pin_event_send env DPLL_CMD_PIN_CREATE_NTF"

definition dpll_pin_delete_ntf ::
    "'d dpll_env \<Rightarrow> nat \<Rightarrow> 'd dpll_sys \<Rightarrow> (ret \<times> 'd dpll_sys) option" where
  "dpll_pin_delete_ntf env = dpll_pin_event_send env DPLL_CMD_PIN_DELETE_NTF"

definition dpll_pin_change_ntf ::
    "'d dpll_env \<Rightarrow> nat \<Rightarrow> 'd dpll_sys \<Rightarrow> (ret \<times> 'd dpll_sys) option" where
  "dpll_pin_change_ntf env = dpll_pin_event_send env DPLL_CMD_PIN_CHANGE_NTF"

text \<open>A notification changes at most the log and the warning.\<close>

lemma multicast_frame:
  "multicast env event build s = Some (r, s') \<Longrightarrow> \<exists>ns. s' = s\<lparr>ntfs := ntfs s @ ns\<rparr>"
  by (auto simp: multicast_def split: if_splits res.splits)
    (metis append_Nil2 dpll_sys.surjective dpll_sys.update_convs(4))+

definition same_objects :: "'d dpll_sys \<Rightarrow> 'd dpll_sys \<Rightarrow> bool" where
  "same_objects s s' \<longleftrightarrow>
     device_xa s' = device_xa s \<and> pin_xa s' = pin_xa s \<and> ddrv s' = ddrv s"

definition same_tables :: "'d dpll_sys \<Rightarrow> 'd dpll_sys \<Rightarrow> bool" where
  "same_tables s s' \<longleftrightarrow> device_xa s' = device_xa s \<and> pin_xa s' = pin_xa s"

lemma same_tables_refl [simp]: "same_tables s s"
  by (simp add: same_tables_def)

lemma same_tables_trans: "same_tables s t \<Longrightarrow> same_tables t u \<Longrightarrow> same_tables s u"
  by (simp add: same_tables_def)

lemma same_tables_ddrv [simp]: "same_tables s (s\<lparr>ddrv := x\<rparr>)"
  by (simp add: same_tables_def)

lemma same_objects_tables: "same_objects s s' \<Longrightarrow> same_tables s s'"
  by (simp add: same_objects_def same_tables_def)

lemma device_event_same:
  "dpll_device_event_send env event d s = Some (r, s') \<Longrightarrow> same_objects s s'"
  by (auto simp: dpll_device_event_send_def same_objects_def warn_def
      dest!: multicast_frame split: option.splits if_splits)

lemma pin_event_same:
  "dpll_pin_event_send env event p s = Some (r, s') \<Longrightarrow> same_objects s s' \<and> warned s' = warned s"
  by (auto simp: dpll_pin_event_send_def same_objects_def dest!: multicast_frame split: if_splits)

end
