(* ===== verification/Dpll_Core.thy ===== *)
theory Dpll_Core
  imports Dpll_Msg "HOL-Library.Monad_Syntax"
begin

text \<open>
  The kernel side of the DPLL subsystem (\<open>dpll/dpll_core.c\<close>): the life cycle of devices and
  pins, and the registration of pins with devices and with parent pins. An operation on the
  subsystem returns \<open>None\<close> where it reads through a dead pointer. Allocations have their
  outcomes as arguments.
\<close>

section \<open>References\<close>

definition dpll_pin_registration_find ::
    "pin_ref \<Rightarrow> nat \<Rightarrow> nat \<Rightarrow> nat option \<Rightarrow> pin_reg option" where
  "dpll_pin_registration_find ref ops priv cookie =
     find (\<lambda>reg. pr_ops reg = ops \<and> pr_priv reg = priv \<and> pr_cookie reg = cookie) (ref_regs ref)"

text \<open>The allocations of one insertion: the reference, the slot of the array, the registration.\<close>

record ref_mem =
  m_ref :: bool
  m_insert :: bool
  m_reg :: bool

text \<open>
  The two functions that add a reference differ in the name of the object and in the key of its
  slot (the index of a pin, the identifier of a device), and so do the two that delete one.
\<close>

definition xa_ref_add ::
    "ref_mem \<Rightarrow> nat \<Rightarrow> nat \<Rightarrow> nat \<Rightarrow> nat \<Rightarrow> nat option \<Rightarrow> pin_ref xarray \<Rightarrow> ret \<times> pin_ref xarray" where
  "xa_ref_add mem key obj ops priv cookie refs =
     (let reg = \<lparr>pr_ops = ops, pr_priv = priv, pr_cookie = cookie\<rparr>
      in case find (\<lambda>ir. ref_obj (snd ir) = obj) refs of
           Some (i, ref) \<Rightarrow>
             (case dpll_pin_registration_find ref ops priv cookie of
                Some _ \<Rightarrow> (None, xa_modify i (\<lambda>ref. ref\<lparr>ref_count := Suc (ref_count ref)\<rparr>) refs)
              | None \<Rightarrow>
                  if \<not> m_reg mem then (Some ENOMEM, refs)
                  else (None, xa_modify i (\<lambda>ref. ref\<lparr>ref_count := Suc (ref_count ref),
                                                     ref_regs := ref_regs ref @ [reg]\<rparr>) refs))
         | None \<Rightarrow>
             if \<not> m_ref mem then (Some ENOMEM, refs)
             else (case xa_insert (m_insert mem) key
                          \<lparr>ref_obj = obj, ref_regs = [], ref_count = 0\<rparr> refs of
                     Inl err \<Rightarrow> (Some err, refs)
                   | Inr refs1 \<Rightarrow>
                       let refs2 = xa_modify key (\<lambda>ref. ref\<lparr>ref_count := 1\<rparr>) refs1
                       in if \<not> m_reg mem then (Some ENOMEM, xa_erase key refs2)
                          else (None, xa_modify key
                                        (\<lambda>ref. ref\<lparr>ref_regs := ref_regs ref @ [reg]\<rparr>) refs2)))"

text \<open>Deletion also says whether it raises a warning.\<close>

definition xa_ref_del ::
    "nat \<Rightarrow> nat \<Rightarrow> nat \<Rightarrow> nat option \<Rightarrow> pin_ref xarray \<Rightarrow> ret \<times> bool \<times> pin_ref xarray" where
  "xa_ref_del obj ops priv cookie refs =
     (case find (\<lambda>ir. ref_obj (snd ir) = obj) refs of
        None \<Rightarrow> (Some EINVAL, False, refs)
      | Some (i, ref) \<Rightarrow>
          (case dpll_pin_registration_find ref ops priv cookie of
             None \<Rightarrow> (Some EINVAL, True, refs)
           | Some reg \<Rightarrow>
               let regs = remove1 reg (ref_regs ref)
               in if ref_count ref = 1 then (None, regs \<noteq> [], xa_erase i refs)
                  else (None, False, xa_modify i (\<lambda>ref. ref\<lparr>ref_regs := regs,
                                        ref_count := ref_count ref - 1\<rparr>) refs)))"

definition dpll_xa_ref_pin_add ::
    "ref_mem \<Rightarrow> nat \<Rightarrow> dpll_pin \<Rightarrow> nat \<Rightarrow> nat \<Rightarrow> nat option \<Rightarrow> pin_ref xarray \<Rightarrow> ret \<times> pin_ref xarray" where
  "dpll_xa_ref_pin_add mem p pin ops priv cookie xa_pins =
     xa_ref_add mem (pin_idx pin) p ops priv cookie xa_pins"

definition dpll_xa_ref_pin_del ::
    "nat \<Rightarrow> nat \<Rightarrow> nat \<Rightarrow> nat option \<Rightarrow> pin_ref xarray \<Rightarrow> ret \<times> bool \<times> pin_ref xarray" where
  "dpll_xa_ref_pin_del p ops priv cookie xa_pins = xa_ref_del p ops priv cookie xa_pins"

definition dpll_xa_ref_dpll_add ::
    "ref_mem \<Rightarrow> nat \<Rightarrow> nat \<Rightarrow> nat \<Rightarrow> nat option \<Rightarrow> pin_ref xarray \<Rightarrow> ret \<times> pin_ref xarray" where
  "dpll_xa_ref_dpll_add mem d ops priv cookie xa_dplls =
     xa_ref_add mem d d ops priv cookie xa_dplls"

definition dpll_xa_ref_dpll_del ::
    "nat \<Rightarrow> nat \<Rightarrow> nat \<Rightarrow> nat option \<Rightarrow> pin_ref xarray \<Rightarrow> bool \<times> pin_ref xarray" where
  "dpll_xa_ref_dpll_del d ops priv cookie xa_dplls = snd (xa_ref_del d ops priv cookie xa_dplls)"

section \<open>Devices\<close>

text \<open>
  What \<open>xa_alloc_cyclic\<close> answers: an error, a free identifier, or a free identifier after the
  cursor has wrapped around (the call then returns 1).
\<close>

datatype slot = Slot_err errno | Slot nat | Slot_wrapped nat

definition dpll_device_get_by_id :: "'d dpll_sys \<Rightarrow> nat \<Rightarrow> nat option" where
  "dpll_device_get_by_id s i = (if dev_marked s i then Some i else None)"

definition dpll_device_alloc ::
    "bool \<Rightarrow> slot \<Rightarrow> u64 \<Rightarrow> nat \<Rightarrow> nat \<Rightarrow> 'd dpll_sys \<Rightarrow> (errno + nat) \<times> 'd dpll_sys" where
  "dpll_device_alloc mem slot clock_id idx module s =
     (let dpll = \<lparr>device_idx = idx, d_clock_id = clock_id, d_module = module, d_type = 0,
                  pin_refs = [], d_refcount = 1, d_regs = [], d_registered = False\<rparr>;
          place = (\<lambda>i. (Inr i, s\<lparr>device_xa := xa_store i dpll (device_xa s)\<rparr>))
      in if \<not> mem then (Inl ENOMEM, s)
         else (case slot of Slot_err err \<Rightarrow> (Inl err, s) | Slot i \<Rightarrow> place i | Slot_wrapped i \<Rightarrow> place i))"

definition dpll_device_get ::
    "bool \<Rightarrow> slot \<Rightarrow> u64 \<Rightarrow> nat \<Rightarrow> nat \<Rightarrow> 'd dpll_sys \<Rightarrow> (errno + nat) \<times> 'd dpll_sys" where
  "dpll_device_get mem slot clock_id idx module s =
     (case find (\<lambda>(i, dpll). d_clock_id dpll = clock_id \<and> device_idx dpll = idx
                            \<and> d_module dpll = module) (device_xa s) of
        Some (i, _) \<Rightarrow> (Inr i, upd_dev i (\<lambda>dpll. dpll\<lparr>d_refcount := Suc (d_refcount dpll)\<rparr>) s)
      | None \<Rightarrow> dpll_device_alloc mem slot clock_id idx module s)"

definition dpll_device_put :: "nat \<Rightarrow> 'd dpll_sys \<Rightarrow> 'd dpll_sys option" where
  "dpll_device_put d s =
     do { dpll \<leftarrow> xa_load (device_xa s) d;
          Some (if d_refcount dpll = 1
                then warn_if (d_registered dpll \<or> \<not> xa_empty (pin_refs dpll) \<or> d_regs dpll \<noteq> [])
                       (s\<lparr>device_xa := xa_erase d (device_xa s)\<rparr>)
                else upd_dev d (\<lambda>dpll. dpll\<lparr>d_refcount := d_refcount dpll - 1\<rparr>) s) }"

definition dpll_device_registration_find :: "dpll_device \<Rightarrow> nat \<Rightarrow> nat \<Rightarrow> device_reg option" where
  "dpll_device_registration_find dpll ops priv =
     find (\<lambda>reg. dr_ops reg = ops \<and> dr_priv reg = priv) (d_regs dpll)"

definition dpll_device_register ::
    "'d dpll_env \<Rightarrow> bool \<Rightarrow> nat \<Rightarrow> nat \<Rightarrow> nat \<Rightarrow> nat \<Rightarrow> 'd dpll_sys \<Rightarrow> (ret \<times> 'd dpll_sys) option" where
  "dpll_device_register env mem d type ops priv s =
     (if ops = 0 then Some (Some EINVAL, warn s)
      else if mode_get (dev_table env ops) = None then Some (Some EINVAL, warn s)
      else if lock_status_get (dev_table env ops) = None then Some (Some EINVAL, warn s)
      else if type < DPLL_TYPE_PPS \<or> type > DPLL_TYPE_MAX then Some (Some EINVAL, warn s)
      else do {
        dpll \<leftarrow> xa_load (device_xa s) d;
        if dpll_device_registration_find dpll ops priv \<noteq> None then Some (Some EEXIST, s)
        else if \<not> mem then Some (Some ENOMEM, s)
        else do {
          let s1 = upd_dev d (\<lambda>dpll. dpll\<lparr>d_type := type,
                      d_regs := d_regs dpll @ [\<lparr>dr_ops = ops, dr_priv = priv\<rparr>]\<rparr>) s;
          if d_regs dpll \<noteq> [] then Some (None, s1)
          else do {
            (_, s2) \<leftarrow> dpll_device_create_ntf env d
                         (upd_dev d (\<lambda>dpll. dpll\<lparr>d_registered := True\<rparr>) s1);
            Some (None, s2) } } })"

definition dpll_device_unregister ::
    "'d dpll_env \<Rightarrow> nat \<Rightarrow> nat \<Rightarrow> nat \<Rightarrow> 'd dpll_sys \<Rightarrow> 'd dpll_sys option" where
  "dpll_device_unregister env d ops priv s =
     do { let s1 = warn_if (\<not> dev_marked s d) s;
          (_, s2) \<leftarrow> dpll_device_delete_ntf env d s1;
          dpll \<leftarrow> xa_load (device_xa s2) d;
          case dpll_device_registration_find dpll ops priv of
            None \<Rightarrow> Some (warn s2)
          | Some reg \<Rightarrow>
              let regs = remove1 reg (d_regs dpll);
                  s3 = upd_dev d (\<lambda>dpll. dpll\<lparr>d_regs := regs\<rparr>) s2
              in if regs \<noteq> [] then Some s3
                 else Some (upd_dev d (\<lambda>dpll. dpll\<lparr>d_registered := False\<rparr>) s3) }"

section \<open>Pins\<close>

text \<open>The allocations of the copy of the properties.\<close>

record prop_mem =
  m_freq :: bool
  m_board :: bool
  m_panel :: bool
  m_package :: bool

definition dpll_pin_prop_dup :: "prop_mem \<Rightarrow> pin_properties \<Rightarrow> errno + pin_properties" where
  "dpll_pin_prop_dup mem src =
     (if freq_supported src \<noteq> [] \<and> \<not> m_freq mem then Inl ENOMEM
      else if board_label src \<noteq> None \<and> \<not> m_board mem then Inl ENOMEM
      else if panel_label src \<noteq> None \<and> \<not> m_panel mem then Inl ENOMEM
      else if package_label src \<noteq> None \<and> \<not> m_package mem then Inl ENOMEM
      else Inr src)"

text \<open>
  When the cursor of the identifiers wraps around, the 1 that \<open>xa_alloc_cyclic\<close> returns is
  taken for an error: the pin is freed while the array still holds it and the caller gets
  the pointer 1. No continuation of that is modelled.
\<close>

definition dpll_pin_alloc ::
    "bool \<Rightarrow> prop_mem \<Rightarrow> slot \<Rightarrow> u64 \<Rightarrow> nat \<Rightarrow> nat \<Rightarrow> pin_properties \<Rightarrow> 'd dpll_sys
      \<Rightarrow> ((errno + nat) \<times> 'd dpll_sys) option" where
  "dpll_pin_alloc mem pmem slot clock_id idx module src s =
     (if \<not> mem then Some (Inl ENOMEM, s)
      else if pp_type src < DPLL_PIN_TYPE_MUX \<or> pp_type src > DPLL_PIN_TYPE_MAX
      then Some (Inl EINVAL, warn s)
      else (case dpll_pin_prop_dup pmem src of
              Inl err \<Rightarrow> Some (Inl err, s)
            | Inr dst \<Rightarrow>
                (case slot of
                   Slot_err err \<Rightarrow> Some (Inl err, s)
                 | Slot i \<Rightarrow>
                     Some (Inr i, s\<lparr>pin_xa := xa_store i
                       \<lparr>pin_idx = idx, p_clock_id = clock_id, p_module = module, dpll_refs = [],
                        parent_refs = [], pin_prop = dst, p_refcount = 1, p_registered = False\<rparr>
                       (pin_xa s)\<rparr>)
                 | Slot_wrapped i \<Rightarrow> None)))"

definition dpll_pin_get ::
    "bool \<Rightarrow> prop_mem \<Rightarrow> slot \<Rightarrow> u64 \<Rightarrow> nat \<Rightarrow> nat \<Rightarrow> pin_properties \<Rightarrow> 'd dpll_sys
      \<Rightarrow> ((errno + nat) \<times> 'd dpll_sys) option" where
  "dpll_pin_get mem pmem slot clock_id idx module src s =
     (case find (\<lambda>(i, pin). p_clock_id pin = clock_id \<and> pin_idx pin = idx \<and> p_module pin = module)
                (pin_xa s) of
        Some (i, _) \<Rightarrow> Some (Inr i, upd_pin i (\<lambda>pin. pin\<lparr>p_refcount := Suc (p_refcount pin)\<rparr>) s)
      | None \<Rightarrow> dpll_pin_alloc mem pmem slot clock_id idx module src s)"

definition dpll_pin_put :: "nat \<Rightarrow> 'd dpll_sys \<Rightarrow> 'd dpll_sys option" where
  "dpll_pin_put p s =
     do { pin \<leftarrow> xa_load (pin_xa s) p;
          Some (if p_refcount pin = 1 then s\<lparr>pin_xa := xa_erase p (pin_xa s)\<rparr>
                else upd_pin p (\<lambda>pin. pin\<lparr>p_refcount := p_refcount pin - 1\<rparr>) s) }"

section \<open>Registration of a pin with a device\<close>

abbreviation set_pin_refs :: "nat \<Rightarrow> pin_ref xarray \<Rightarrow> 'd dpll_sys \<Rightarrow> 'd dpll_sys" where
  "set_pin_refs d refs \<equiv> upd_dev d (\<lambda>dpll. dpll\<lparr>pin_refs := refs\<rparr>)"

abbreviation set_dpll_refs :: "nat \<Rightarrow> pin_ref xarray \<Rightarrow> 'd dpll_sys \<Rightarrow> 'd dpll_sys" where
  "set_dpll_refs p refs \<equiv> upd_pin p (\<lambda>pin. pin\<lparr>dpll_refs := refs\<rparr>)"

abbreviation set_parent_refs :: "nat \<Rightarrow> pin_ref xarray \<Rightarrow> 'd dpll_sys \<Rightarrow> 'd dpll_sys" where
  "set_parent_refs p refs \<equiv> upd_pin p (\<lambda>pin. pin\<lparr>parent_refs := refs\<rparr>)"

abbreviation mark_pin :: "bool \<Rightarrow> nat \<Rightarrow> 'd dpll_sys \<Rightarrow> 'd dpll_sys" where
  "mark_pin b p \<equiv> upd_pin p (\<lambda>pin. pin\<lparr>p_registered := b\<rparr>)"

text \<open>\<open>__dpll_pin_register\<close>, with the allocations of its two insertions.\<close>

definition pin_register ::
    "'d dpll_env \<Rightarrow> ref_mem \<times> ref_mem \<Rightarrow> nat \<Rightarrow> nat \<Rightarrow> nat \<Rightarrow> nat \<Rightarrow> nat option \<Rightarrow> 'd dpll_sys
      \<Rightarrow> (ret \<times> 'd dpll_sys) option" where
  "pin_register env mem d p ops priv cookie s =
     do { dpll \<leftarrow> xa_load (device_xa s) d;
          pin \<leftarrow> xa_load (pin_xa s) p;
          case dpll_xa_ref_pin_add (fst mem) p pin ops priv cookie (pin_refs dpll) of
            (Some err, refs) \<Rightarrow> Some (Some err, set_pin_refs d refs s)
          | (None, refs) \<Rightarrow>
              (case dpll_xa_ref_dpll_add (snd mem) d ops priv cookie (dpll_refs pin) of
                 (None, drefs) \<Rightarrow>
                   do { (_, s1) \<leftarrow> dpll_pin_create_ntf env p
                          (mark_pin True p (set_dpll_refs p drefs (set_pin_refs d refs s)));
                        Some (None, s1) }
               | (Some err, drefs) \<Rightarrow>
                   (let (_, w, refs1) = dpll_xa_ref_pin_del p ops priv cookie refs
                    in Some (Some err, warn_if w
                          (set_pin_refs d refs1 (set_dpll_refs p drefs (set_pin_refs d refs s)))))) }"

definition dpll_pin_register ::
    "'d dpll_env \<Rightarrow> ref_mem \<times> ref_mem \<Rightarrow> nat \<Rightarrow> nat \<Rightarrow> nat \<Rightarrow> nat \<Rightarrow> 'd dpll_sys
      \<Rightarrow> (ret \<times> 'd dpll_sys) option" where
  "dpll_pin_register env mem d p ops priv s =
     (if ops = 0 \<or> state_on_dpll_get (pin_table env ops) = None
         \<or> direction_get (pin_table env ops) = None then Some (Some EINVAL, warn s)
      else do {
        dpll \<leftarrow> xa_load (device_xa s) d;
        pin \<leftarrow> xa_load (pin_xa s) p;
        if \<not> (d_module dpll = p_module pin \<and> d_clock_id dpll = p_clock_id pin)
        then Some (Some EINVAL, warn s)
        else pin_register env mem d p ops priv None s })"

text \<open>\<open>__dpll_pin_unregister\<close>.\<close>

definition pin_unregister ::
    "nat \<Rightarrow> nat \<Rightarrow> nat \<Rightarrow> nat \<Rightarrow> nat option \<Rightarrow> 'd dpll_sys \<Rightarrow> 'd dpll_sys option" where
  "pin_unregister d p ops priv cookie s =
     do { let s1 = warn_if (\<not> pin_marked s p) s;
          dpll \<leftarrow> xa_load (device_xa s1) d;
          pin \<leftarrow> xa_load (pin_xa s1) p;
          let (_, w1, refs) = dpll_xa_ref_pin_del p ops priv cookie (pin_refs dpll);
          let (w2, drefs) = dpll_xa_ref_dpll_del d ops priv cookie (dpll_refs pin);
          let s2 = warn_if (w1 \<or> w2) (set_dpll_refs p drefs (set_pin_refs d refs s1));
          Some (if xa_empty drefs then mark_pin False p s2 else s2) }"

definition dpll_pin_unregister ::
    "'d dpll_env \<Rightarrow> nat \<Rightarrow> nat \<Rightarrow> nat \<Rightarrow> nat \<Rightarrow> 'd dpll_sys \<Rightarrow> 'd dpll_sys option" where
  "dpll_pin_unregister env d p ops priv s =
     do { dpll \<leftarrow> xa_load (device_xa s) d;
          pin \<leftarrow> xa_load (pin_xa s) p;
          if xa_empty (pin_refs dpll) then Some (warn s)
          else if \<not> xa_empty (parent_refs pin) then Some (warn s)
          else do { (_, s1) \<leftarrow> dpll_pin_delete_ntf env p s;
                    pin_unregister d p ops priv None s1 } }"

section \<open>Registration of a pin with a parent pin\<close>

text \<open>
  The loop over the devices of the parent: it stops at the first failure, with the index of
  the reference it failed at.
\<close>

primrec register_with_all ::
    "'d dpll_env \<Rightarrow> (nat \<Rightarrow> ref_mem \<times> ref_mem) \<Rightarrow> nat \<Rightarrow> nat \<Rightarrow> nat \<Rightarrow> nat \<Rightarrow> pin_ref xarray
      \<Rightarrow> 'd dpll_sys \<Rightarrow> ((errno \<times> nat) option \<times> 'd dpll_sys) option" where
  "register_with_all env mem parent p ops priv [] s = Some (None, s)"
| "register_with_all env mem parent p ops priv (ir # refs) s =
     do { (ret, s1) \<leftarrow> pin_register env (mem (fst ir)) (ref_obj (snd ir)) p ops priv (Some parent) s;
          case ret of
            Some err \<Rightarrow> Some (Some (err, fst ir), s1)
          | None \<Rightarrow>
              do { (_, s2) \<leftarrow> dpll_pin_create_ntf env p s1;
                   register_with_all env mem parent p ops priv refs s2 } }"

primrec unregister_below ::
    "'d dpll_env \<Rightarrow> nat \<Rightarrow> nat \<Rightarrow> nat \<Rightarrow> nat \<Rightarrow> nat \<Rightarrow> pin_ref xarray \<Rightarrow> 'd dpll_sys
      \<Rightarrow> 'd dpll_sys option" where
  "unregister_below env stop parent p ops priv [] s = Some s"
| "unregister_below env stop parent p ops priv (ir # refs) s =
     (if fst ir < stop then
        do { s1 \<leftarrow> pin_unregister (ref_obj (snd ir)) p ops priv (Some parent) s;
             (_, s2) \<leftarrow> dpll_pin_delete_ntf env p s1;
             unregister_below env stop parent p ops priv refs s2 }
      else unregister_below env stop parent p ops priv refs s)"

text \<open>Taking the parent out of the references of a pin again.\<close>

definition drop_parent :: "nat \<Rightarrow> nat \<Rightarrow> nat \<Rightarrow> nat \<Rightarrow> 'd dpll_sys \<Rightarrow> 'd dpll_sys option" where
  "drop_parent parent p ops priv s =
     do { pin \<leftarrow> xa_load (pin_xa s) p;
          let (_, w, refs) = dpll_xa_ref_pin_del parent ops priv (Some p) (parent_refs pin);
          Some (warn_if w (set_parent_refs p refs s)) }"

definition pin_refcount_inc :: "nat \<Rightarrow> 'd dpll_sys \<Rightarrow> 'd dpll_sys" where
  "pin_refcount_inc p = upd_pin p (\<lambda>pin. pin\<lparr>p_refcount := Suc (p_refcount pin)\<rparr>)"

definition pin_refcount_dec :: "nat \<Rightarrow> 'd dpll_sys \<Rightarrow> 'd dpll_sys" where
  "pin_refcount_dec p = upd_pin p (\<lambda>pin. pin\<lparr>p_refcount := p_refcount pin - 1\<rparr>)"

definition dpll_pin_on_pin_register ::
    "'d dpll_env \<Rightarrow> ref_mem \<Rightarrow> (nat \<Rightarrow> ref_mem \<times> ref_mem) \<Rightarrow> nat \<Rightarrow> nat \<Rightarrow> nat \<Rightarrow> nat
      \<Rightarrow> 'd dpll_sys \<Rightarrow> (ret \<times> 'd dpll_sys) option" where
  "dpll_pin_on_pin_register env pmem mem parent p ops priv s =
     do { ppin \<leftarrow> xa_load (pin_xa s) parent;
          if pp_type (pin_prop ppin) \<noteq> DPLL_PIN_TYPE_MUX then Some (Some EINVAL, warn s)
          else if ops = 0 \<or> state_on_pin_get (pin_table env ops) = None
                  \<or> direction_get (pin_table env ops) = None then Some (Some EINVAL, warn s)
          else do {
            pin \<leftarrow> xa_load (pin_xa s) p;
            case dpll_xa_ref_pin_add pmem parent ppin ops priv (Some p) (parent_refs pin) of
              (Some err, refs) \<Rightarrow> Some (Some err, set_parent_refs p refs s)
            | (None, refs) \<Rightarrow>
                do { (failed, s1) \<leftarrow> register_with_all env mem parent p ops priv (dpll_refs ppin)
                                      (pin_refcount_inc p (set_parent_refs p refs s));
                     case failed of
                       None \<Rightarrow> Some (None, s1)
                     | Some (err, stop) \<Rightarrow>
                         do { s2 \<leftarrow> unregister_below env stop parent p ops priv (dpll_refs ppin) s1;
                              s3 \<leftarrow> drop_parent parent p ops priv (pin_refcount_dec p s2);
                              Some (Some err, s3) } } } }"

primrec unregister_from_all ::
    "nat \<Rightarrow> nat \<Rightarrow> nat \<Rightarrow> nat \<Rightarrow> pin_ref xarray \<Rightarrow> 'd dpll_sys \<Rightarrow> 'd dpll_sys option" where
  "unregister_from_all parent p ops priv [] s = Some s"
| "unregister_from_all parent p ops priv (ir # refs) s =
     do { s1 \<leftarrow> pin_unregister (ref_obj (snd ir)) p ops priv (Some parent) s;
          unregister_from_all parent p ops priv refs s1 }"

definition dpll_pin_on_pin_unregister ::
    "'d dpll_env \<Rightarrow> nat \<Rightarrow> nat \<Rightarrow> nat \<Rightarrow> nat \<Rightarrow> 'd dpll_sys \<Rightarrow> 'd dpll_sys option" where
  "dpll_pin_on_pin_unregister env parent p ops priv s =
     do { (_, s1) \<leftarrow> dpll_pin_delete_ntf env p s;
          s2 \<leftarrow> drop_parent parent p ops priv s1;
          let s3 = pin_refcount_dec p s2;
          pin \<leftarrow> xa_load (pin_xa s3) p;
          unregister_from_all parent p ops priv (dpll_refs pin) s3 }"

section \<open>Network devices\<close>

text \<open>The pin of every network device, \<open>dev->dpll_pin\<close>.\<close>

definition dpll_netdev_pin_set :: "nat \<Rightarrow> nat option \<Rightarrow> (nat \<Rightarrow> nat option) \<Rightarrow> nat \<Rightarrow> nat option" where
  "dpll_netdev_pin_set dev p pins = pins(dev := p)"

definition dpll_netdev_pin_clear :: "nat \<Rightarrow> (nat \<Rightarrow> nat option) \<Rightarrow> nat \<Rightarrow> nat option" where
  "dpll_netdev_pin_clear dev pins = pins(dev := None)"

definition dpll_netdev_add_pin_handle ::
    "'d dpll_env \<Rightarrow> (nat \<Rightarrow> nat option) \<Rightarrow> nat \<Rightarrow> msg \<Rightarrow> msg res" where
  "dpll_netdev_add_pin_handle env pins dev m = dpll_msg_add_pin_handle env (pins dev) m"

end
