(* ===== verification/Dpll_Registry.thy ===== *)
theory Dpll_Registry
  imports Dpll_Core
begin

text \<open>
  The references between devices and pins. One array of references implements a table of
  registrations (locale \<open>registry\<close>): every object has a list of them, adding appends, deleting
  removes, and a failed addition changes nothing. The invariant \<open>wf\<close> of the subsystem says
  that the two tables a registration is kept in, the device's and the pin's, agree; the
  operations preserve it and are all-or-nothing.
\<close>

section \<open>The contract of a table of registrations\<close>

locale registry =
  fixes regs :: "'t \<Rightarrow> nat \<Rightarrow> pin_reg list"
    and add :: "ref_mem \<Rightarrow> nat \<Rightarrow> pin_reg \<Rightarrow> 't \<Rightarrow> ret \<times> 't"
    and del :: "nat \<Rightarrow> pin_reg \<Rightarrow> 't \<Rightarrow> ret \<times> bool \<times> 't"
    and invar :: "'t \<Rightarrow> bool"
  assumes add_error: "invar t \<Longrightarrow> add m obj r t = (Some e, t') \<Longrightarrow> t' = t"
    and add_ok: "invar t \<Longrightarrow> r \<notin> set (regs t obj) \<Longrightarrow> add m obj r t = (None, t') \<Longrightarrow>
      invar t' \<and> regs t' = (regs t)(obj := regs t obj @ [r])"
    and del_ok: "invar t \<Longrightarrow> r \<in> set (regs t obj) \<Longrightarrow>
      \<exists>t'. del obj r t = (None, False, t') \<and> invar t' \<and> regs t' = (regs t)(obj := remove1 r (regs t obj))"
    and del_absent: "invar t \<Longrightarrow> r \<notin> set (regs t obj) \<Longrightarrow> \<exists>w. del obj r t = (Some EINVAL, w, t)"
    and extensional: "invar t \<Longrightarrow> invar u \<Longrightarrow> regs t = regs u \<Longrightarrow> t = u"
begin

lemma add_frame:
  "invar t \<Longrightarrow> r \<notin> set (regs t obj) \<Longrightarrow> add m obj r t = (ret, t') \<Longrightarrow>
     invar t' \<and> regs t' = (if ret = None then (regs t)(obj := regs t obj @ [r]) else regs t)"
  using add_error [of t m obj r _ t'] add_ok [of t r obj m t'] by (cases ret) auto

lemma add_del:
  assumes "invar t" and "r \<notin> set (regs t obj)" and "add m obj r t = (None, t')"
  shows "del obj r t' = (None, False, t)"
proof -
  note a = add_ok [OF assms]
  obtain u where u: "del obj r t' = (None, False, u)" "invar u"
      "regs u = (regs t')(obj := remove1 r (regs t' obj))"
    using del_ok [of t' r obj] a by auto
  have "regs u = regs t"
    using u(3) a assms(2) by (auto simp: remove1_append)
  then show ?thesis using extensional [OF u(2) assms(1)] u(1) by simp
qed

end

section \<open>Arrays of references implement it\<close>

definition refs_inv :: "(nat \<Rightarrow> nat) \<Rightarrow> pin_ref xarray \<Rightarrow> bool" where
  "refs_inv key refs \<longleftrightarrow> xa_ok refs \<and>
     (\<forall>i ref. xa_load refs i = Some ref \<longrightarrow> i = key (ref_obj ref) \<and> ref_regs ref \<noteq> []
        \<and> distinct (ref_regs ref) \<and> ref_count ref = length (ref_regs ref))"

definition regs_in :: "(nat \<Rightarrow> nat) \<Rightarrow> pin_ref xarray \<Rightarrow> nat \<Rightarrow> pin_reg list" where
  "regs_in key refs obj =
     (case xa_load refs (key obj) of
        Some ref \<Rightarrow> if ref_obj ref = obj then ref_regs ref else []
      | None \<Rightarrow> [])"

lemma find_ref:
  assumes "refs_inv key refs"
  shows "find (\<lambda>ir. ref_obj (snd ir) = obj) refs =
    (case xa_load refs (key obj) of
       Some ref \<Rightarrow> if ref_obj ref = obj then Some (key obj, ref) else None
     | None \<Rightarrow> None)"
proof (cases "find (\<lambda>ir. ref_obj (snd ir) = obj) refs")
  case None
  then have "\<forall>ir\<in>set refs. ref_obj (snd ir) \<noteq> obj"
    by (simp add: find_None_all)
  moreover have ok: "xa_ok refs" using assms by (simp add: refs_inv_def)
  ultimately have "ref_obj ref \<noteq> obj" if "xa_load refs (key obj) = Some ref" for ref
    using xa_load_in [OF ok, of "key obj" ref] that by auto
  then show ?thesis using None by (auto split: option.split)
next
  case (Some ir)
  obtain i ref where ir: "ir = (i, ref)" by fastforce
  have ok: "xa_ok refs" using assms by (simp add: refs_inv_def)
  have load: "xa_load refs i = Some ref \<and> ref_obj ref = obj"
    using find_xa_load [OF ok Some [unfolded ir]] by simp
  then have "i = key obj" using assms by (auto simp: refs_inv_def)
  then show ?thesis using load Some by (simp add: ir)
qed

lemma find_eq: "find (\<lambda>x. x = r) xs = (if r \<in> set xs then Some r else None)"
  by (induction xs) auto

lemma find_reg:
  "dpll_pin_registration_find ref (pr_ops r) (pr_priv r) (pr_cookie r)
     = (if r \<in> set (ref_regs ref) then Some r else None)"
proof -
  have eq: "(pr_ops x = pr_ops r \<and> pr_priv x = pr_priv r \<and> pr_cookie x = pr_cookie r) \<longleftrightarrow> x = r" for x
    by (auto intro: pin_reg.equality)
  show ?thesis
    unfolding dpll_pin_registration_find_def eq by (rule find_eq)
qed

abbreviation ref_add :: "(nat \<Rightarrow> nat) \<Rightarrow> ref_mem \<Rightarrow> nat \<Rightarrow> pin_reg \<Rightarrow> pin_ref xarray \<Rightarrow> ret \<times> pin_ref xarray"
  where "ref_add key m obj r \<equiv> xa_ref_add m (key obj) obj (pr_ops r) (pr_priv r) (pr_cookie r)"

abbreviation ref_del :: "nat \<Rightarrow> pin_reg \<Rightarrow> pin_ref xarray \<Rightarrow> ret \<times> bool \<times> pin_ref xarray"
  where "ref_del obj r \<equiv> xa_ref_del obj (pr_ops r) (pr_priv r) (pr_cookie r)"

lemma reg_eta: "\<lparr>pr_ops = pr_ops r, pr_priv = pr_priv r, pr_cookie = pr_cookie r\<rparr> = r"
  by (rule pin_reg.equality) auto

text \<open>An addition in terms of the table.\<close>

lemma ref_add_eq:
  assumes "refs_inv key refs" and "r \<notin> set (regs_in key refs obj)"
  shows "ref_add key m obj r refs =
    (case xa_load refs (key obj) of
       Some ref \<Rightarrow>
         if ref_obj ref = obj
         then (if m_reg m
               then (None, xa_store (key obj) (ref\<lparr>ref_count := Suc (ref_count ref),
                                                  ref_regs := ref_regs ref @ [r]\<rparr>) refs)
               else (Some ENOMEM, refs))
         else (Some (if m_ref m then EBUSY else ENOMEM), refs)
     | None \<Rightarrow>
         if m_ref m \<and> m_insert m \<and> m_reg m
         then (None, xa_store (key obj) \<lparr>ref_obj = obj, ref_regs = [r], ref_count = 1\<rparr> refs)
         else (Some ENOMEM, refs))"
proof -
  have ok: "xa_ok refs" using assms(1) by (simp add: refs_inv_def)
  show ?thesis
  proof (cases "xa_load refs (key obj)")
    case None
    then show ?thesis
      using ok by (simp add: xa_ref_add_def find_ref [OF assms(1)] xa_insert_def reg_eta Let_def
          xa.modify_store xa.invar_store xa.erase_store)
  next
    case (Some ref)
    show ?thesis
    proof (cases "ref_obj ref = obj")
      case True
      then have "r \<notin> set (ref_regs ref)"
        using assms(2) Some by (simp add: regs_in_def)
      then show ?thesis
        using ok True Some
        by (simp add: xa_ref_add_def find_ref [OF assms(1)] find_reg reg_eta Let_def xa.modify_eq_store)
    next
      case False
      then show ?thesis
        using Some by (simp add: xa_ref_add_def find_ref [OF assms(1)] xa_insert_def)
    qed
  qed
qed

lemma ref_del_eq:
  assumes "refs_inv key refs"
  shows "ref_del obj r refs =
    (if regs_in key refs obj = [] then (Some EINVAL, False, refs)
     else if r \<notin> set (regs_in key refs obj) then (Some EINVAL, True, refs)
     else if regs_in key refs obj = [r] then (None, False, xa_erase (key obj) refs)
     else (None, False, xa_store (key obj)
            \<lparr>ref_obj = obj, ref_regs = remove1 r (regs_in key refs obj),
             ref_count = length (regs_in key refs obj) - 1\<rparr> refs))"
proof -
  have ok: "xa_ok refs" using assms(1) by (simp add: refs_inv_def)
  show ?thesis
  proof (cases "xa_load refs (key obj)")
    case None
    then show ?thesis
      by (simp add: xa_ref_del_def find_ref [OF assms(1)] regs_in_def)
  next
    case (Some ref)
    then have inv: "ref_regs ref \<noteq> []" "ref_count ref = length (ref_regs ref)"
      using assms by (auto simp: refs_inv_def)
    show ?thesis
    proof (cases "ref_obj ref = obj \<and> r \<in> set (ref_regs ref)")
      case True
      have one: "length (ref_regs ref) = Suc 0 \<longleftrightarrow> ref_regs ref = [r]"
        using True by (auto simp: length_Suc_conv)
      have eq: "ref\<lparr>ref_regs := rs, ref_count := n\<rparr> = \<lparr>ref_obj = obj, ref_regs = rs, ref_count = n\<rparr>" for rs n
        using True by (intro pin_ref.equality) auto
      show ?thesis
        using ok True Some inv
        by (simp add: xa_ref_del_def find_ref [OF assms(1)] find_reg Let_def xa.modify_eq_store
            regs_in_def one eq)
    next
      case False
      then show ?thesis
        using Some inv by (auto simp: xa_ref_del_def find_ref [OF assms(1)] regs_in_def find_reg)
    qed
  qed
qed

lemma remove1_nonempty: "r \<in> set xs \<Longrightarrow> xs \<noteq> [r] \<Longrightarrow> remove1 r xs \<noteq> []"
  by (cases xs) (auto split: if_splits)

lemma refs_inv_store:
  "refs_inv key refs \<Longrightarrow> rs \<noteq> [] \<Longrightarrow> distinct rs \<Longrightarrow>
     refs_inv key (xa_store (key obj) \<lparr>ref_obj = obj, ref_regs = rs, ref_count = length rs\<rparr> refs)"
  by (auto simp: refs_inv_def xa_ok_store xa_load_store)

lemma regs_in_distinct: "refs_inv key refs \<Longrightarrow> distinct (regs_in key refs obj)"
  by (auto simp: refs_inv_def regs_in_def split: option.split)

text \<open>A slot is free for an object if it is empty or is the object's own.\<close>

definition slot_free :: "(nat \<Rightarrow> nat) \<Rightarrow> pin_ref xarray \<Rightarrow> nat \<Rightarrow> bool" where
  "slot_free key refs obj \<longleftrightarrow>
     (case xa_load refs (key obj) of Some ref \<Rightarrow> ref_obj ref = obj | None \<Rightarrow> True)"

lemma regs_in_store:
  "refs_inv key refs \<Longrightarrow> slot_free key refs obj \<Longrightarrow>
     regs_in key (xa_store (key obj) \<lparr>ref_obj = obj, ref_regs = rs, ref_count = n\<rparr> refs)
       = (regs_in key refs)(obj := rs)"
  by (auto simp: refs_inv_def regs_in_def xa_load_store slot_free_def fun_eq_iff split: option.splits)

lemma regs_in_erase:
  "refs_inv key refs \<Longrightarrow> slot_free key refs obj \<Longrightarrow>
     regs_in key (xa_erase (key obj) refs) = (regs_in key refs)(obj := [])"
  by (auto simp: refs_inv_def regs_in_def xa_load_erase slot_free_def fun_eq_iff split: option.splits)

lemma slot_free_regs: "regs_in key refs obj \<noteq> [] \<Longrightarrow> slot_free key refs obj"
  by (auto simp: regs_in_def slot_free_def split: option.splits if_splits)

text \<open>An addition succeeds exactly when the slot is free and the allocations it needs succeed.\<close>

lemma ref_add_cases:
  assumes "refs_inv key refs" and "r \<notin> set (regs_in key refs obj)"
    and "ref_add key m obj r refs = (ret, refs')"
  shows "(ret \<noteq> None \<and> refs' = refs)
    \<or> (ret = None \<and> slot_free key refs obj
        \<and> refs' = xa_store (key obj) \<lparr>ref_obj = obj, ref_regs = regs_in key refs obj @ [r],
                     ref_count = Suc (length (regs_in key refs obj))\<rparr> refs)"
proof (cases "xa_load refs (key obj)")
  case None
  then show ?thesis
    using assms(3) unfolding ref_add_eq [OF assms(1,2)]
    by (auto simp: slot_free_def regs_in_def split: if_splits)
next
  case (Some ref)
  have eq: "ref\<lparr>ref_count := n, ref_regs := rs\<rparr> = \<lparr>ref_obj = ref_obj ref, ref_regs = rs, ref_count = n\<rparr>" for rs n
    by (intro pin_ref.equality) auto
  show ?thesis
    using assms Some unfolding ref_add_eq [OF assms(1,2)]
    by (auto simp: slot_free_def regs_in_def refs_inv_def eq split: if_splits)
qed

interpretation refs: registry "regs_in key" "ref_add key" ref_del "refs_inv key"
proof
  fix t m obj r e t'
  assume t: "refs_inv key t"
  show "t' = t" if "ref_add key m obj r t = (Some e, t')"
  proof (cases "r \<in> set (regs_in key t obj)")
    case True
    then show ?thesis
      using that t by (auto simp: xa_ref_add_def find_ref [OF t] regs_in_def find_reg Let_def
          split: option.splits if_splits)
  next
    case False
    then show ?thesis using ref_add_cases [OF t False that] by simp
  qed
  show "refs_inv key t' \<and> regs_in key t' = (regs_in key t)(obj := regs_in key t obj @ [r])"
    if new: "r \<notin> set (regs_in key t obj)" and "ref_add key m obj r t = (None, t')"
    using ref_add_cases [OF t that] regs_in_distinct [OF t, of obj] new
      refs_inv_store [OF t, of "regs_in key t obj @ [r]" obj]
    by (auto simp: regs_in_store [OF t])
  show "\<exists>w. ref_del obj r t = (Some EINVAL, w, t)" if "r \<notin> set (regs_in key t obj)"
    using that unfolding ref_del_eq [OF t] by (cases "regs_in key t obj = []") auto
  show "\<exists>u. ref_del obj r t = (None, False, u) \<and> refs_inv key u
      \<and> regs_in key u = (regs_in key t)(obj := remove1 r (regs_in key t obj))"
    if r: "r \<in> set (regs_in key t obj)"
  proof (cases "regs_in key t obj = [r]")
    case True
    then have "refs_inv key (xa_erase (key obj) t)"
      using t by (simp add: refs_inv_def xa_ok_erase xa_load_erase)
    then show ?thesis
      using True slot_free_regs [of key t obj] by (simp add: ref_del_eq [OF t] regs_in_erase [OF t])
  next
    case False
    let ?rs = "remove1 r (regs_in key t obj)"
    have "?rs \<noteq> []" and d: "distinct ?rs" and n: "length (regs_in key t obj) - Suc 0 = length ?rs"
      using False r regs_in_distinct [OF t, of obj]
      by (simp_all add: remove1_nonempty distinct_remove1 length_remove1)
    from refs_inv_store [OF t this(1,2), of obj] show ?thesis
      using False r slot_free_regs [of key t obj]
      by (auto simp: ref_del_eq [OF t] n regs_in_store [OF t])
  qed
next
  fix t u
  assume t: "refs_inv key t" and u: "refs_inv key u" and eq: "regs_in key t = regs_in key u"
  have load: "xa_load b i = Some ref" if "refs_inv key a" "refs_inv key b"
    "regs_in key a = regs_in key b" "xa_load a i = Some ref" for a b i ref
  proof -
    have i: "i = key (ref_obj ref)" "ref_regs ref \<noteq> []" "ref_count ref = length (ref_regs ref)"
      using that(1,4) by (auto simp: refs_inv_def)
    have "regs_in key b (ref_obj ref) = ref_regs ref"
      using that(3,4) i by (simp add: regs_in_def flip: that(3))
    with i(2) obtain ref' where ref': "xa_load b (key (ref_obj ref)) = Some ref'"
        "ref_obj ref' = ref_obj ref" "ref_regs ref' = ref_regs ref"
      by (auto simp: regs_in_def split: option.splits if_splits)
    then have "ref_count ref' = length (ref_regs ref')"
      using that(2) by (auto simp: refs_inv_def)
    then show ?thesis using ref' i by (simp add: pin_ref.equality)
  qed
  show "t = u"
  proof (rule xa_ext)
    show "xa_load t = xa_load u"
    proof
      fix i
      show "xa_load t i = xa_load u i"
        using load [OF t u eq, of i] load [OF u t eq [symmetric], of i]
        by (cases "xa_load t i"; cases "xa_load u i") auto
    qed
  qed (use t u in \<open>simp_all add: refs_inv_def\<close>)
qed

section \<open>The invariant of the subsystem\<close>

definition pin_key :: "'d dpll_sys \<Rightarrow> nat \<Rightarrow> nat" where
  "pin_key s p = (case xa_load (pin_xa s) p of Some pin \<Rightarrow> pin_idx pin | None \<Rightarrow> 0)"

text \<open>A device is stored under its own identifier.\<close>

definition own_key :: "nat \<Rightarrow> nat" where
  "own_key d = d"

text \<open>The registrations of pin \<open>p\<close> with device \<open>d\<close>, as the device and as the pin has them.\<close>

definition dev_regs :: "'d dpll_sys \<Rightarrow> nat \<Rightarrow> nat \<Rightarrow> pin_reg list" where
  "dev_regs s d p =
     (case xa_load (device_xa s) d of
        Some dpll \<Rightarrow> regs_in (pin_key s) (pin_refs dpll) p
      | None \<Rightarrow> [])"

definition pin_regs :: "'d dpll_sys \<Rightarrow> nat \<Rightarrow> nat \<Rightarrow> pin_reg list" where
  "pin_regs s d p =
     (case xa_load (pin_xa s) p of Some pin \<Rightarrow> regs_in own_key (dpll_refs pin) d | None \<Rightarrow> [])"

definition wf :: "'d dpll_sys \<Rightarrow> bool" where
  "wf s \<longleftrightarrow> xa_ok (device_xa s) \<and> xa_ok (pin_xa s)
     \<and> (\<forall>d dpll. xa_load (device_xa s) d = Some dpll \<longrightarrow>
          refs_inv (pin_key s) (pin_refs dpll) \<and> distinct (d_regs dpll)
          \<and> (d_registered dpll \<longleftrightarrow> d_regs dpll \<noteq> []))
     \<and> (\<forall>p pin. xa_load (pin_xa s) p = Some pin \<longrightarrow>
          refs_inv own_key (dpll_refs pin) \<and> (p_registered pin \<longleftrightarrow> dpll_refs pin \<noteq> []))
     \<and> dev_regs s = pin_regs s"

text \<open>Two systems with the same tables are interchangeable for all of this.\<close>

lemma same_tables_wf: "same_tables s s' \<Longrightarrow> wf s' = wf s \<and> dev_regs s' = dev_regs s"
proof -
  assume eq: "same_tables s s'"
  then have key: "pin_key s' = pin_key s"
    by (simp add: same_tables_def pin_key_def fun_eq_iff)
  then have "dev_regs s' = dev_regs s" "pin_regs s' = pin_regs s"
    using eq by (simp_all add: same_tables_def dev_regs_def [abs_def] pin_regs_def [abs_def]
        cong: option.case_cong)
  then show ?thesis
    using eq key by (simp add: same_tables_def wf_def)
qed

lemmas same_objects_wf = same_tables_wf [OF same_objects_tables]

lemma upd_simps [simp]:
  "device_xa (upd_pin p f s) = device_xa s" "pin_xa (upd_dev d g s) = pin_xa s"
  "device_xa (upd_dev d g s) = xa_modify d g (device_xa s)"
  "pin_xa (upd_pin p f s) = xa_modify p f (pin_xa s)"
  "ddrv (upd_dev d g s) = ddrv s" "ddrv (upd_pin p f s) = ddrv s"
  "warned (upd_dev d g s) = warned s" "warned (upd_pin p f s) = warned s"
  by (simp_all add: upd_dev_def upd_pin_def)

lemma warn_if_simps [simp]:
  "device_xa (warn_if b s) = device_xa s" "pin_xa (warn_if b s) = pin_xa s"
  "ddrv (warn_if b s) = ddrv s" "warned (warn_if b s) = (b \<or> warned s)" "warn_if False s = s"
  by (simp_all add: warn_if_def warn_def)

lemma upd_dev_id:
  "xa_ok (device_xa s) \<Longrightarrow> xa_load (device_xa s) d = Some dpll \<Longrightarrow> f dpll = dpll \<Longrightarrow> upd_dev d f s = s"
  using xa.modify_id [of "device_xa s" d f] by (simp add: upd_dev_def)

lemma upd_pin_id:
  "xa_ok (pin_xa s) \<Longrightarrow> xa_load (pin_xa s) p = Some pin \<Longrightarrow> f pin = pin \<Longrightarrow> upd_pin p f s = s"
  using xa.modify_id [of "pin_xa s" p f] by (simp add: upd_pin_def)

lemma upd_dev_twice:
  "xa_ok (device_xa s) \<Longrightarrow> upd_dev d g (upd_dev d f s) = upd_dev d (g \<circ> f) s"
  by (simp add: upd_dev_def xa.modify_modify)

lemma pin_key_upd_dev [simp]: "pin_key (upd_dev d f s) = pin_key s"
  by (simp add: pin_key_def fun_eq_iff)

lemma pin_key_upd_pin:
  "(\<And>pin. pin_idx (f pin) = pin_idx pin) \<Longrightarrow> pin_key (upd_pin p f s) = pin_key s"
  by (auto simp: pin_key_def fun_eq_iff xa_load_modify split: option.split)

text \<open>
  Giving pin and device a new list of registrations with each other, on both sides and with
  the right mark, keeps the invariant.
\<close>

abbreviation relink :: "nat \<Rightarrow> nat \<Rightarrow> pin_ref xarray \<Rightarrow> pin_ref xarray \<Rightarrow> 'd dpll_sys \<Rightarrow> 'd dpll_sys" where
  "relink d p refs drefs s \<equiv>
     mark_pin (drefs \<noteq> []) p (set_dpll_refs p drefs (set_pin_refs d refs s))"

lemma relink_wf:
  assumes wf: "wf s"
    and d: "xa_load (device_xa s) d = Some dpll" and p: "xa_load (pin_xa s) p = Some pin"
    and refs: "refs_inv (pin_key s) refs" "regs_in (pin_key s) refs = (regs_in (pin_key s) (pin_refs dpll))(p := rs)"
    and drefs: "refs_inv own_key drefs" "regs_in own_key drefs = (regs_in own_key (dpll_refs pin))(d := rs)"
  shows "wf (relink d p refs drefs s)
    \<and> dev_regs (relink d p refs drefs s) = (dev_regs s)(d := (dev_regs s d)(p := rs))"
proof -
  let ?s = "relink d p refs drefs s"
  have key: "pin_key ?s = pin_key s"
    by (simp add: pin_key_upd_pin)
  have dev: "dev_regs ?s = (dev_regs s)(d := (dev_regs s d)(p := rs))"
    using d refs(2) by (auto simp: fun_eq_iff dev_regs_def key xa_load_modify split: option.split)
  moreover have "pin_regs ?s = dev_regs ?s"
  proof -
    have "pin_regs ?s = (\<lambda>d' p'. if p' = p \<and> d' = d then rs else pin_regs s d' p')"
      using p drefs(2) by (auto simp: fun_eq_iff pin_regs_def xa_load_modify split: option.split)
    moreover have "dev_regs s = pin_regs s" using wf by (simp add: wf_def)
    ultimately show ?thesis by (auto simp: dev fun_eq_iff)
  qed
  moreover have "xa_ok (device_xa ?s)" "xa_ok (pin_xa ?s)"
    using wf by (simp_all add: wf_def xa_ok_modify)
  moreover have "refs_inv (pin_key s) (pin_refs x) \<and> distinct (d_regs x) \<and> (d_registered x \<longleftrightarrow> d_regs x \<noteq> [])"
    if "xa_load (device_xa ?s) i = Some x" for i x
    using that wf refs(1) by (auto simp: xa_load_modify wf_def split: if_splits)
  moreover have "refs_inv own_key (dpll_refs x) \<and> (p_registered x \<longleftrightarrow> dpll_refs x \<noteq> [])"
    if "xa_load (pin_xa ?s) i = Some x" for i x
    using that wf drefs(1) by (auto simp: xa_load_modify wf_def split: if_splits)
  ultimately show ?thesis by (simp add: wf_def key)
qed

lemma relink_back:
  assumes wf: "wf s"
    and d: "xa_load (device_xa s) d = Some dpll" and p: "xa_load (pin_xa s) p = Some pin"
  shows "relink d p (pin_refs dpll) (dpll_refs pin) (relink d p refs drefs s) = s"
proof -
  have ok: "xa_ok (device_xa s)" "xa_ok (pin_xa s)" and mark: "p_registered pin = (dpll_refs pin \<noteq> [])"
    using wf p by (auto simp: wf_def)
  let ?s = "relink d p (pin_refs dpll) (dpll_refs pin) (relink d p refs drefs s)"
  have "device_xa ?s = device_xa s"
    using ok d by (simp add: xa.modify_modify xa_ok_modify, intro xa.modify_id) auto
  moreover have "pin_xa ?s = pin_xa s"
    using ok p mark by (simp add: xa.modify_modify xa_ok_modify, intro xa.modify_id) auto
  ultimately show ?thesis
    by (simp add: upd_dev_def upd_pin_def)
qed

section \<open>Registration\<close>

text \<open>
  \<open>__dpll_pin_register\<close> either fails and leaves the subsystem as it was, or links the pin and
  the device on both sides and sends a notification.
\<close>

lemma pin_register_cases:
  assumes wf: "wf s" and d: "xa_load (device_xa s) d = Some dpll" and p: "xa_load (pin_xa s) p = Some pin"
    and new: "\<lparr>pr_ops = ops, pr_priv = priv, pr_cookie = cookie\<rparr> \<notin> set (dev_regs s d p)"
    and run: "pin_register env mem d p ops priv cookie s = Some (ret, s')"
  obtains
    (failed) "ret \<noteq> None" "s' = s"
  | (linked) refs drefs r where "ret = None" "drefs \<noteq> []"
      "ref_add (pin_key s) (fst mem) p \<lparr>pr_ops = ops, pr_priv = priv, pr_cookie = cookie\<rparr> (pin_refs dpll)
         = (None, refs)"
      "ref_add own_key (snd mem) d \<lparr>pr_ops = ops, pr_priv = priv, pr_cookie = cookie\<rparr> (dpll_refs pin)
         = (None, drefs)"
      "dpll_pin_create_ntf env p (relink d p refs drefs s) = Some (r, s')"
proof -
  let ?r = "\<lparr>pr_ops = ops, pr_priv = priv, pr_cookie = cookie\<rparr>"
  have inv: "refs_inv (pin_key s) (pin_refs dpll)" "refs_inv own_key (dpll_refs pin)"
    and ok: "xa_ok (device_xa s)" "xa_ok (pin_xa s)" and sym: "dev_regs s d p = pin_regs s d p"
    using wf d p by (auto simp: wf_def)
  have r1: "?r \<notin> set (regs_in (pin_key s) (pin_refs dpll) p)"
    using new d by (simp add: dev_regs_def)
  have r2: "?r \<notin> set (regs_in own_key (dpll_refs pin) d)"
    using new p by (simp add: sym pin_regs_def)
  have idx: "pin_idx pin = pin_key s p"
    using p by (simp add: pin_key_def)
  obtain e1 refs where a1: "ref_add (pin_key s) (fst mem) p ?r (pin_refs dpll) = (e1, refs)"
    by fastforce
  obtain e2 drefs where a2: "ref_add own_key (snd mem) d ?r (dpll_refs pin) = (e2, drefs)"
    by fastforce
  show ?thesis
  proof (cases e1)
    case (Some e)
    then have "refs = pin_refs dpll" using refs.add_error [OF inv(1)] a1 by blast
    then have "ret \<noteq> None" "s' = s"
      using run d p a1 Some idx
      by (auto simp: pin_register_def dpll_xa_ref_pin_add_def upd_dev_id [OF ok(1)])
    then show ?thesis by (rule failed)
  next
    case None
    note a1 = a1 [unfolded None]
    have del: "ref_del p ?r refs = (None, False, pin_refs dpll)"
      by (rule refs.add_del [OF inv(1) r1 a1])
    show ?thesis
    proof (cases e2)
      case (Some e)
      then have "drefs = dpll_refs pin" using refs.add_error [OF inv(2)] a2 by blast
      then have "ret \<noteq> None"
        and s': "s' = set_pin_refs d (pin_refs dpll) (set_dpll_refs p (dpll_refs pin) (set_pin_refs d refs s))"
        using run d p a1 a2 Some idx del
        by (auto simp: pin_register_def dpll_xa_ref_pin_add_def dpll_xa_ref_dpll_add_def
            dpll_xa_ref_pin_del_def own_key_def)
      have "device_xa s' = device_xa s"
        unfolding s' using ok d by (simp add: xa.modify_modify, intro xa.modify_id) auto
      moreover have "pin_xa s' = pin_xa s"
        unfolding s' using ok p by (simp, intro xa.modify_id) auto
      ultimately have "s' = s" unfolding s' by (simp add: upd_dev_def upd_pin_def)
      with \<open>ret \<noteq> None\<close> show ?thesis by (rule failed)
    next
      case None
      note a2 = a2 [unfolded None]
      have "regs_in own_key drefs d \<noteq> []" using refs.add_ok [OF inv(2) r2 a2] by simp
      then have ne: "drefs \<noteq> []" by (auto simp: regs_in_def)
      then obtain r where "dpll_pin_create_ntf env p (relink d p refs drefs s) = Some (r, s')" "ret = None"
        using run d p a1 a2 idx
        by (auto simp: pin_register_def dpll_xa_ref_pin_add_def dpll_xa_ref_dpll_add_def own_key_def
            split: bind_splits)
      with ne a1 a2 show ?thesis by (intro linked)
    qed
  qed
qed

text \<open>What a successful addition to both tables gives, and that deleting it undoes it.\<close>

lemma linked_wf:
  assumes wf: "wf s" and d: "xa_load (device_xa s) d = Some dpll" and p: "xa_load (pin_xa s) p = Some pin"
    and new: "r \<notin> set (dev_regs s d p)"
    and a1: "ref_add (pin_key s) m1 p r (pin_refs dpll) = (None, refs)"
    and a2: "ref_add own_key m2 d r (dpll_refs pin) = (None, drefs)"
  shows "wf (relink d p refs drefs s)"
    and "dev_regs (relink d p refs drefs s) = (dev_regs s)(d := (dev_regs s d)(p := dev_regs s d p @ [r]))"
    and "refs \<noteq> []"
    and "ref_del p r refs = (None, False, pin_refs dpll)"
    and "ref_del d r drefs = (None, False, dpll_refs pin)"
proof -
  have inv: "refs_inv (pin_key s) (pin_refs dpll)" "refs_inv own_key (dpll_refs pin)"
    and sym: "pin_regs s d p = dev_regs s d p"
    using wf d p by (auto simp: wf_def)
  have eq: "regs_in (pin_key s) (pin_refs dpll) p = dev_regs s d p"
      "regs_in own_key (dpll_refs pin) d = dev_regs s d p"
    using d p sym by (auto simp: dev_regs_def pin_regs_def)
  have new1: "r \<notin> set (regs_in (pin_key s) (pin_refs dpll) p)"
    and new2: "r \<notin> set (regs_in own_key (dpll_refs pin) d)"
    using new eq by simp_all
  note add = refs.add_ok [OF inv(1) new1 a1] refs.add_ok [OF inv(2) new2 a2]
  have rs: "refs_inv (pin_key s) refs" "regs_in (pin_key s) refs
      = (regs_in (pin_key s) (pin_refs dpll))(p := dev_regs s d p @ [r])"
    and drs: "refs_inv own_key drefs" "regs_in own_key drefs
      = (regs_in own_key (dpll_refs pin))(d := dev_regs s d p @ [r])"
    using add unfolding eq by blast+
  from relink_wf [OF wf d p rs drs]
  show "wf (relink d p refs drefs s)"
    and "dev_regs (relink d p refs drefs s) = (dev_regs s)(d := (dev_regs s d)(p := dev_regs s d p @ [r]))"
    by blast+
  have "regs_in (pin_key s) refs p \<noteq> []" using rs(2) by simp
  then show "refs \<noteq> []" by (auto simp: regs_in_def)
  show "ref_del p r refs = (None, False, pin_refs dpll)"
    by (rule refs.add_del [OF inv(1) new1 a1])
  show "ref_del d r drefs = (None, False, dpll_refs pin)"
    by (rule refs.add_del [OF inv(2) new2 a2])
qed

lemma pin_unregister_eq:
  assumes wf: "wf s" and d: "xa_load (device_xa s) d = Some dpll" and p: "xa_load (pin_xa s) p = Some pin"
    and reg: "\<lparr>pr_ops = ops, pr_priv = priv, pr_cookie = cookie\<rparr> \<in> set (dev_regs s d p)"
  obtains refs drefs where
    "ref_del p \<lparr>pr_ops = ops, pr_priv = priv, pr_cookie = cookie\<rparr> (pin_refs dpll) = (None, False, refs)"
    "ref_del d \<lparr>pr_ops = ops, pr_priv = priv, pr_cookie = cookie\<rparr> (dpll_refs pin) = (None, False, drefs)"
    "pin_unregister d p ops priv cookie s = Some (relink d p refs drefs s)"
proof -
  let ?r = "\<lparr>pr_ops = ops, pr_priv = priv, pr_cookie = cookie\<rparr>"
  have inv: "refs_inv (pin_key s) (pin_refs dpll)" "refs_inv own_key (dpll_refs pin)"
    and ok: "xa_ok (pin_xa s)" and sym: "dev_regs s d p = pin_regs s d p"
    and mark: "p_registered pin = (dpll_refs pin \<noteq> [])"
    using wf d p by (auto simp: wf_def)
  have r1: "?r \<in> set (regs_in (pin_key s) (pin_refs dpll) p)"
    using reg d by (simp add: dev_regs_def)
  have r2: "?r \<in> set (regs_in own_key (dpll_refs pin) d)"
    using reg p by (simp add: sym pin_regs_def)
  obtain refs where a1: "ref_del p ?r (pin_refs dpll) = (None, False, refs)"
    using refs.del_ok [OF inv(1) r1] by blast
  obtain drefs where a2: "ref_del d ?r (dpll_refs pin) = (None, False, drefs)"
    using refs.del_ok [OF inv(2) r2] by blast
  have ne: "dpll_refs pin \<noteq> []"
    using r2 by (auto simp: regs_in_def)
  let ?s = "set_dpll_refs p drefs (set_pin_refs d refs s)"
  have same: "mark_pin True p ?s = ?s" if "drefs \<noteq> []"
    by (rule upd_pin_id [where pin = "pin\<lparr>dpll_refs := drefs\<rparr>"])
      (use ok p mark ne in \<open>simp_all add: xa_ok_modify xa_load_modify\<close>)
  have "pin_unregister d p ops priv cookie s = Some (relink d p refs drefs s)"
    using d p a1 a2 mark ne same
    by (auto simp: pin_unregister_def dpll_xa_ref_pin_del_def dpll_xa_ref_dpll_del_def pin_marked_def
        xa_empty_def Let_def)
  with a1 a2 show ?thesis by (rule that)
qed

lemma dpll_pin_register_runs:
  assumes "dpll_pin_register env mem d p ops priv s = Some (ret, s')"
    and "xa_load (device_xa s) d = Some dpll" and "xa_load (pin_xa s) p = Some pin"
  shows "(ret \<noteq> None \<and> same_objects s s')
    \<or> pin_register env mem d p ops priv None s = Some (ret, s')"
  using assms by (auto simp: dpll_pin_register_def same_objects_def warn_def split: if_splits)

text \<open>
  C9: Registering a pin with a device is all or nothing: a failure leaves every device and pin as it was, a success
  adds exactly that registration, with the device and the pin agreeing on it.
\<close>

theorem pin_register_atomic:
  assumes "wf s" and "xa_load (device_xa s) d = Some dpll" and "xa_load (pin_xa s) p = Some pin"
    and "\<lparr>pr_ops = ops, pr_priv = priv, pr_cookie = None\<rparr> \<notin> set (dev_regs s d p)"
    and "dpll_pin_register env mem d p ops priv s = Some (ret, s')"
  shows "wf s'
    \<and> (ret \<noteq> None \<longrightarrow> device_xa s' = device_xa s \<and> pin_xa s' = pin_xa s)
    \<and> (ret = None \<longrightarrow> dev_regs s' = (dev_regs s)(d := (dev_regs s d)
          (p := dev_regs s d p @ [\<lparr>pr_ops = ops, pr_priv = priv, pr_cookie = None\<rparr>])))"
  using dpll_pin_register_runs [OF assms(5,2,3)]
proof
  assume "ret \<noteq> None \<and> same_objects s s'"
  then show ?thesis using assms(1) same_objects_wf [of s s'] by (auto simp: same_objects_def)
next
  assume "pin_register env mem d p ops priv None s = Some (ret, s')"
  with assms(1-4) show ?thesis
  proof (cases rule: pin_register_cases)
    case failed
    then show ?thesis using assms(1) by auto
  next
    case (linked refs drefs r)
    have "same_objects (relink d p refs drefs s) s'"
      using linked(5) [unfolded dpll_pin_create_ntf_def, THEN pin_event_same] by simp
    from same_objects_wf [OF this] show ?thesis
      using linked_wf(1,2) [OF assms(1-4) linked(3,4)] linked(1) by simp
  qed
qed

text \<open>
  A small instance, for the witnesses: a registered device 3 and a pin 5 of the same module and
  clock, and a driver that answers every question.
\<close>

definition demo_dev_ops :: "unit device_ops" where
  "demo_dev_ops = \<lparr>mode_get = Some (\<lambda>_ _ _. Inr 2), lock_status_get = Some (\<lambda>_ _ _. Inr (1, 0)),
                  temp_get = None\<rparr>"

definition demo_pin_ops :: "unit pin_ops" where
  "demo_pin_ops = \<lparr>frequency_set = None, frequency_get = None, direction_set = None,
     direction_get = Some (\<lambda>_ _ _ _ _. Inr 1), state_on_pin_get = Some (\<lambda>_ _ _ _ _. Inr 1),
     state_on_dpll_get = Some (\<lambda>_ _ _ _ _. Inr 1), state_on_pin_set = None,
     state_on_dpll_set = None, prio_get = None, prio_set = None, phase_offset_get = None,
     phase_adjust_get = None, phase_adjust_set = None, ffo_get = None\<rparr>"

definition demo_env :: "unit dpll_env" where
  "demo_env = \<lparr>dev_table = (\<lambda>_. demo_dev_ops), pin_table = (\<lambda>_. demo_pin_ops),
               mod_name = (\<lambda>_. ''m''), fits = (\<lambda>_ _. True), msg_mem = True\<rparr>"

definition demo_sys :: "unit dpll_sys" where
  "demo_sys =
     \<lparr>device_xa = [(3, \<lparr>device_idx = 0, d_clock_id = 7, d_module = 1, d_type = 1, pin_refs = [],
                        d_refcount = 1, d_regs = [\<lparr>dr_ops = 1, dr_priv = 9\<rparr>], d_registered = True\<rparr>)],
      pin_xa = [(5, \<lparr>pin_idx = 0, p_clock_id = 7, p_module = 1, dpll_refs = [], parent_refs = [],
                     pin_prop = \<lparr>board_label = None, panel_label = None, package_label = None,
                       pp_type = 2, capabilities = 0, freq_supported = [], phase_min = 0,
                       phase_max = 0\<rparr>,
                     p_refcount = 1, p_registered = False\<rparr>)],
      ddrv = (), ntfs = [], warned = False\<rparr>"

definition all_mem :: "ref_mem \<times> ref_mem" where
  "all_mem = (\<lparr>m_ref = True, m_insert = True, m_reg = True\<rparr>, \<lparr>m_ref = True, m_insert = True, m_reg = True\<rparr>)"

text \<open>The definitions that evaluate the operations on an instance.\<close>

lemmas demo_defs =
  demo_env_def demo_sys_def demo_dev_ops_def demo_pin_ops_def all_mem_def

lemmas message_defs =
  multicast_def nla_put_def put_label_def pin_getter_def call_get_def the_dev_def the_pin_def
  dpll_cmd_pin_get_one_def dpll_msg_add_pin_handle_def dpll_xa_ref_dpll_first_def
  dpll_msg_add_pin_freq_def dpll_pin_ops_def dpll_pin_registration_first_def
  dpll_msg_add_pin_phase_adjust_def dpll_msg_add_ffo_def dpll_msg_add_pin_dplls_def
  dpll_msg_add_dev_parent_handle_def dpll_msg_add_pin_on_dpll_state_def
  dpll_msg_add_pin_prio_def dpll_msg_add_pin_direction_def dpll_msg_add_phase_offset_def
  dpll_pin_on_dpll_priv_def dpll_priv_def dpll_device_registration_first_def

lemmas registration_defs =
  dpll_pin_register_def pin_register_def dpll_pin_unregister_def pin_unregister_def
  dpll_xa_ref_pin_add_def dpll_xa_ref_dpll_add_def dpll_xa_ref_pin_del_def
  dpll_xa_ref_dpll_del_def xa_ref_add_def xa_ref_del_def dpll_pin_registration_find_def
  xa_insert_def xa_modify_def xa_erase_def xa_load_def xa_empty_def upd_dev_def upd_pin_def
  dpll_pin_create_ntf_def dpll_pin_delete_ntf_def dpll_pin_event_send_def
  dpll_pin_available_def dev_marked_def pin_marked_def warn_if_def warn_def Let_def

lemma demo_wf: "wf demo_sys"
  by (auto simp: wf_def demo_sys_def xa_ok_Cons refs_inv_def xa_load_def dev_regs_def pin_regs_def
      regs_in_def fun_eq_iff split: if_splits option.splits)

lemma demo_loads:
  "xa_load (device_xa demo_sys) 3 = Some (snd (hd (device_xa demo_sys)))"
  "xa_load (pin_xa demo_sys) 5 = Some (snd (hd (pin_xa demo_sys)))"
  "dev_regs demo_sys 3 5 = []" "parent_refs (snd (hd (pin_xa demo_sys))) = []"
  by (simp_all add: demo_sys_def xa_load_def dev_regs_def regs_in_def)

lemma demo_runs:
  "\<exists>s1. dpll_pin_register demo_env all_mem 3 5 1 4 demo_sys = Some (None, s1)
     \<and> dpll_pin_unregister demo_env 3 5 1 4 s1 \<noteq> None"
  by (simp add: demo_defs registration_defs message_defs)

lemma pin_register_atomic_witness:
  "\<exists>s1. dpll_pin_register demo_env all_mem 3 5 1 4 demo_sys = Some (None, s1) \<and> wf s1
     \<and> dev_regs s1 3 5 = [\<lparr>pr_ops = 1, pr_priv = 4, pr_cookie = None\<rparr>]"
proof -
  obtain s1 where s1: "dpll_pin_register demo_env all_mem 3 5 1 4 demo_sys = Some (None, s1)"
    using demo_runs by blast
  then show ?thesis
    using pin_register_atomic [OF demo_wf demo_loads(1,2) _ s1] by (simp add: demo_loads)
qed

text \<open>Unregistering on any system with the tables a registration left gives back the tables before it.\<close>

lemma pin_unregister_undoes:
  fixes s t :: "'d dpll_sys"
  assumes "wf s" and "xa_load (device_xa s) d = Some dpll" and "xa_load (pin_xa s) p = Some pin"
    and "\<lparr>pr_ops = ops, pr_priv = priv, pr_cookie = None\<rparr> \<notin> set (dev_regs s d p)"
    and "parent_refs pin = []"
    and "dpll_pin_register env mem d p ops priv s = Some (None, s1)"
    and t: "same_tables s1 t"
    and ntf: "dpll_pin_delete_ntf env' p t = Some (r2, s3)"
  shows "\<exists>s2. dpll_pin_unregister env' d p ops priv t = Some s2
     \<and> same_tables s s2 \<and> warned s2 = warned t"
proof -
  let ?r = "\<lparr>pr_ops = ops, pr_priv = priv, pr_cookie = None\<rparr>"
  have run: "pin_register env mem d p ops priv None s = Some (None, s1)"
    using dpll_pin_register_runs [OF assms(6,2,3)] by simp
  from assms(1-4) run show ?thesis
  proof (cases rule: pin_register_cases)
    case (linked refs drefs r)
    let ?t = "relink d p refs drefs s"
    note link = linked_wf [OF assms(1-4) linked(3,4)]
    have "same_objects ?t s1"
      using linked(5) [unfolded dpll_pin_create_ntf_def, THEN pin_event_same] by simp
    moreover have same3: "same_objects t s3" "warned s3 = warned t"
      using pin_event_same [of env' DPLL_CMD_PIN_DELETE_NTF p t r2 s3] ntf
      by (auto simp: dpll_pin_delete_ntf_def)
    ultimately have same4: "same_tables ?t s3"
      using t by (simp add: same_objects_def same_tables_def)
    have w3: "wf s3" "dev_regs s3 = dev_regs ?t"
      using same_tables_wf [OF same4] link(1) by simp_all
    have d3: "xa_load (device_xa s3) d = Some (dpll\<lparr>pin_refs := refs\<rparr>)"
      using same4 assms(2) by (simp add: same_tables_def xa_load_modify)
    have p3: "xa_load (pin_xa s3) p = Some (pin\<lparr>dpll_refs := drefs, p_registered := True\<rparr>)"
      using same4 assms(3) linked(2) by (simp add: same_tables_def xa_load_modify)
    have "?r \<in> set (dev_regs s3 d p)" using w3(2) link(2) by simp
    from pin_unregister_eq [OF w3(1) d3 p3 this]
    have "pin_unregister d p ops priv None s3 = Some (relink d p (pin_refs dpll) (dpll_refs pin) s3)"
      using link(4,5) by fastforce
    moreover have "dpll_pin_unregister env' d p ops priv t = pin_unregister d p ops priv None s3"
      using assms(2,3,5) same3(1) d3 p3 ntf link(3)
      by (simp add: dpll_pin_unregister_def same_objects_def xa_empty_def)
    moreover have "device_xa (relink d p (pin_refs dpll) (dpll_refs pin) s3)
        = device_xa (relink d p (pin_refs dpll) (dpll_refs pin) ?t)"
      "pin_xa (relink d p (pin_refs dpll) (dpll_refs pin) s3)
        = pin_xa (relink d p (pin_refs dpll) (dpll_refs pin) ?t)"
      using same4 by (simp_all add: same_tables_def)
    ultimately show ?thesis
      using same3(2) by (simp only: relink_back [OF assms(1-3)]) (simp add: same_tables_def)
  qed simp
qed



text \<open>
  Registering the same pin with the same operations and private pointer twice succeeds both
  times, but is counted and not remembered: after one of the two is undone the reference is
  left without a registration, and asking for the pin reads through NULL.
\<close>

theorem duplicate_registration_faults:
  "\<exists>s1 s2 s3. dpll_pin_register demo_env all_mem 3 5 1 4 demo_sys = Some (None, s1)
     \<and> dpll_pin_register demo_env all_mem 3 5 1 4 s1 = Some (None, s2)
     \<and> dpll_pin_unregister demo_env 3 5 1 4 s2 = Some s3
     \<and> dpll_cmd_pin_get_one demo_env s3 5 [] = Fault"
  by (simp add: demo_defs registration_defs message_defs)

end
