(* ===== verification/Dpll_Life.thy ===== *)
theory Dpll_Life
  imports Dpll_Registry
begin

text \<open>
  The life cycle of devices and pins: every operation of \<open>dpll_core.c\<close> on a device or a pin, used
  within its contract, preserves the invariant \<open>wf\<close>; so does every run of them.
\<close>

section \<open>Changes that keep the references\<close>

lemma refs_inv_Nil [simp]: "refs_inv key []"
  by (simp add: refs_inv_def xa_load_def)

lemma regs_in_Nil [simp]: "regs_in key [] obj = []"
  by (simp add: regs_in_def xa_load_def)

lemma dev_change_wf:
  assumes wf: "wf s" and d: "xa_load (device_xa s) d = Some dpll"
    and f: "pin_refs (f dpll) = pin_refs dpll" "distinct (d_regs (f dpll))"
      "d_registered (f dpll) \<longleftrightarrow> d_regs (f dpll) \<noteq> []"
  shows "wf (upd_dev d f s) \<and> dev_regs (upd_dev d f s) = dev_regs s"
proof -
  have dev: "dev_regs (upd_dev d f s) = dev_regs s"
    using d f(1) by (auto simp: fun_eq_iff dev_regs_def xa_load_modify split: option.split)
  have pin: "pin_regs (upd_dev d f s) = pin_regs s"
    by (simp add: pin_regs_def [abs_def])
  show ?thesis
    using wf d f unfolding wf_def dev pin
    by (auto simp: xa_ok_modify xa_load_modify split: if_splits)
qed

lemma pin_change_wf:
  assumes wf: "wf s" and f: "\<And>pin. dpll_refs (f pin) = dpll_refs pin"
      "\<And>pin. p_registered (f pin) = p_registered pin" "\<And>pin. pin_idx (f pin) = pin_idx pin"
  shows "wf (upd_pin p f s) \<and> dev_regs (upd_pin p f s) = dev_regs s"
proof -
  have key: "pin_key (upd_pin p f s) = pin_key s"
    by (rule pin_key_upd_pin) (rule f)
  have dev: "dev_regs (upd_pin p f s) = dev_regs s"
    by (simp add: dev_regs_def [abs_def] key cong: option.case_cong)
  have pin: "pin_regs (upd_pin p f s) = pin_regs s"
    by (auto simp: fun_eq_iff pin_regs_def xa_load_modify f split: option.split)
  show ?thesis
    using wf unfolding wf_def dev pin key
    by (auto simp: xa_ok_modify xa_load_modify f split: if_splits)
qed

lemma refs_inv_cong:
  assumes "refs_inv key refs" and "\<And>ref. ref_regs ref \<noteq> [] \<Longrightarrow> xa_load refs (key (ref_obj ref)) = Some ref
     \<Longrightarrow> key' (ref_obj ref) = key (ref_obj ref)"
  shows "refs_inv key' refs"
  using assms unfolding refs_inv_def by metis

text \<open>The references of a device name live pins only.\<close>

lemma wf_ref_live:
  assumes "wf s" and "xa_load (device_xa s) d = Some dpll" and "xa_load (pin_refs dpll) i = Some ref"
  shows "dev_regs s d (ref_obj ref) = ref_regs ref" and "xa_load (pin_xa s) (ref_obj ref) \<noteq> None"
    and "ref_regs ref \<noteq> []"
proof -
  have inv: "refs_inv (pin_key s) (pin_refs dpll)" and sym: "dev_regs s = pin_regs s"
    using assms(1,2) by (auto simp: wf_def)
  have i: "i = pin_key s (ref_obj ref)" "ref_regs ref \<noteq> []"
    using inv assms(3) by (auto simp: refs_inv_def)
  show eq: "dev_regs s d (ref_obj ref) = ref_regs ref"
    using assms(2,3) i by (simp add: dev_regs_def regs_in_def)
  show "xa_load (pin_xa s) (ref_obj ref) \<noteq> None"
    using eq i(2) unfolding sym by (auto simp: pin_regs_def split: option.splits)
  show "ref_regs ref \<noteq> []" by (rule i(2))
qed

lemma pins_change_wf:
  assumes wf: "wf s" and xa: "xa_ok xa" and same: "\<And>q. q \<noteq> p \<Longrightarrow> xa_load xa q = xa_load (pin_xa s) q"
    and none: "\<And>d. pin_regs s d p = []"
    and new: "\<And>pin. xa_load xa p = Some pin \<Longrightarrow> dpll_refs pin = [] \<and> \<not> p_registered pin"
  shows "wf (s\<lparr>pin_xa := xa\<rparr>) \<and> dev_regs (s\<lparr>pin_xa := xa\<rparr>) = dev_regs s"
proof -
  let ?s = "s\<lparr>pin_xa := xa\<rparr>"
  have key: "pin_key ?s q = pin_key s q" if "q \<noteq> p" for q
    using same [OF that] by (simp add: pin_key_def)
  have sym: "dev_regs s = pin_regs s" using wf by (simp add: wf_def)
  have not_p: "ref_obj ref \<noteq> p"
    if "xa_load (device_xa s) d = Some dpll" "xa_load (pin_refs dpll) i = Some ref" for d dpll i ref
    using wf_ref_live(1,3) [OF wf that] none [of d] sym by auto
  have inv: "refs_inv (pin_key ?s) (pin_refs dpll)" if "xa_load (device_xa s) d = Some dpll" for d dpll
  proof (rule refs_inv_cong)
    show "refs_inv (pin_key s) (pin_refs dpll)" using wf that by (auto simp: wf_def)
    fix ref
    assume "xa_load (pin_refs dpll) (pin_key s (ref_obj ref)) = Some ref"
    with not_p [OF that] show "pin_key ?s (ref_obj ref) = pin_key s (ref_obj ref)" by (intro key) auto
  qed
  have dev: "dev_regs ?s = dev_regs s"
  proof (intro ext)
    fix d q
    show "dev_regs ?s d q = dev_regs s d q"
    proof (cases "q = p")
      case True
      have "dev_regs s d p = []" using none sym by simp
      moreover have "dev_regs ?s d p = []"
        using not_p by (auto simp: dev_regs_def regs_in_def split: option.split)
      ultimately show ?thesis using True by simp
    next
      case False
      then show ?thesis by (simp add: dev_regs_def regs_in_def key cong: option.case_cong)
    qed
  qed
  have "pin_regs ?s = pin_regs s"
  proof (intro ext)
    fix d q
    show "pin_regs ?s d q = pin_regs s d q"
      using same [of q] none [of d] new
      by (cases "q = p") (auto simp: pin_regs_def regs_in_def xa_load_def split: option.split)
  qed
  moreover have "refs_inv own_key (dpll_refs pin) \<and> (p_registered pin \<longleftrightarrow> dpll_refs pin \<noteq> [])"
    if "xa_load xa q = Some pin" for q pin
  proof (cases "q = p")
    case True
    then show ?thesis using new that by simp
  next
    case False
    then show ?thesis using that wf same [OF False] by (simp add: wf_def)
  qed
  ultimately show ?thesis
    using wf xa inv unfolding wf_def dev by simp
qed

lemma devs_change_wf:
  assumes wf: "wf s" and xa: "xa_ok xa" and same: "\<And>e. e \<noteq> d \<Longrightarrow> xa_load xa e = xa_load (device_xa s) e"
    and none: "\<And>p. dev_regs s d p = []"
    and new: "\<And>dpll. xa_load xa d = Some dpll \<Longrightarrow>
       pin_refs dpll = [] \<and> d_regs dpll = [] \<and> \<not> d_registered dpll"
  shows "wf (s\<lparr>device_xa := xa\<rparr>) \<and> dev_regs (s\<lparr>device_xa := xa\<rparr>) = dev_regs s"
proof -
  let ?s = "s\<lparr>device_xa := xa\<rparr>"
  have key: "pin_key ?s = pin_key s"
    by (simp add: pin_key_def [abs_def])
  have dev: "dev_regs ?s = dev_regs s"
  proof (intro ext)
    fix e p
    show "dev_regs ?s e p = dev_regs s e p"
    proof (cases "e = d")
      case True
      then show ?thesis using none [of p] new by (auto simp: dev_regs_def key split: option.split)
    next
      case False
      then show ?thesis using same [OF False] by (simp add: dev_regs_def key cong: option.case_cong)
    qed
  qed
  have "pin_regs ?s = pin_regs s"
    by (simp add: pin_regs_def [abs_def])
  moreover have "refs_inv (pin_key s) (pin_refs dpll) \<and> distinct (d_regs dpll)
      \<and> (d_registered dpll \<longleftrightarrow> d_regs dpll \<noteq> [])" if "xa_load xa e = Some dpll" for e dpll
  proof (cases "e = d")
    case True
    then show ?thesis using new that by simp
  next
    case False
    then show ?thesis using that wf same [OF False] by (simp add: wf_def)
  qed
  ultimately show ?thesis
    using wf xa unfolding wf_def dev key by simp
qed

section \<open>The operations\<close>

lemma device_get_wf:
  assumes wf: "wf s" and free: "\<And>i. slot = Slot i \<or> slot = Slot_wrapped i \<Longrightarrow> xa_load (device_xa s) i = None"
  shows "wf (snd (dpll_device_get mem slot clock_id idx module s))
    \<and> dev_regs (snd (dpll_device_get mem slot clock_id idx module s)) = dev_regs s"
proof -
  have ok: "xa_ok (device_xa s)" using wf by (simp add: wf_def)
  have place: "wf (s\<lparr>device_xa := xa_store i dpll (device_xa s)\<rparr>)
      \<and> dev_regs (s\<lparr>device_xa := xa_store i dpll (device_xa s)\<rparr>) = dev_regs s"
    if "xa_load (device_xa s) i = None" "pin_refs dpll = []" "d_regs dpll = []" "\<not> d_registered dpll" for i dpll
    by (rule devs_change_wf [where d = i])
      (use wf ok that in \<open>auto simp: xa_ok_store xa_load_store dev_regs_def\<close>)
  have alloc: "wf (snd (dpll_device_alloc mem slot clock_id idx module s))
      \<and> dev_regs (snd (dpll_device_alloc mem slot clock_id idx module s)) = dev_regs s"
    using free wf by (auto simp: dpll_device_alloc_def Let_def place split: slot.splits)
  have inc: "wf (upd_dev i (\<lambda>dpll. dpll\<lparr>d_refcount := Suc (d_refcount dpll)\<rparr>) s)
      \<and> dev_regs (upd_dev i (\<lambda>dpll. dpll\<lparr>d_refcount := Suc (d_refcount dpll)\<rparr>) s) = dev_regs s"
    if "xa_load (device_xa s) i = Some dpll" for i dpll
    by (rule dev_change_wf [OF wf that]) (use wf that in \<open>auto simp: wf_def\<close>)
  show ?thesis
    using alloc inc find_xa_load [OF ok] by (auto simp: dpll_device_get_def split: option.split)
qed

lemma pin_get_wf:
  assumes wf: "wf s" and free: "\<And>i. slot = Slot i \<Longrightarrow> xa_load (pin_xa s) i = None"
    and run: "dpll_pin_get mem pmem slot clock_id idx module src s = Some (r, s')"
  shows "wf s' \<and> dev_regs s' = dev_regs s"
proof -
  have ok: "xa_ok (pin_xa s)" using wf by (simp add: wf_def)
  have place: "wf (s\<lparr>pin_xa := xa_store i pin (pin_xa s)\<rparr>)
      \<and> dev_regs (s\<lparr>pin_xa := xa_store i pin (pin_xa s)\<rparr>) = dev_regs s"
    if "xa_load (pin_xa s) i = None" "dpll_refs pin = []" "\<not> p_registered pin" for i pin
    by (rule pins_change_wf [where p = i])
      (use wf ok that in \<open>auto simp: xa_ok_store xa_load_store pin_regs_def\<close>)
  have inc: "wf (upd_pin i (\<lambda>pin. pin\<lparr>p_refcount := Suc (p_refcount pin)\<rparr>) s)
      \<and> dev_regs (upd_pin i (\<lambda>pin. pin\<lparr>p_refcount := Suc (p_refcount pin)\<rparr>) s) = dev_regs s" for i
    by (rule pin_change_wf [OF wf]) auto
  have warn: "wf (warn s) \<and> dev_regs (warn s) = dev_regs s"
    using same_objects_wf [of s "warn s"] wf by (simp add: same_objects_def warn_def)
  show ?thesis
    using run free wf warn inc place
    by (auto simp: dpll_pin_get_def dpll_pin_alloc_def split: option.splits if_splits sum.splits slot.splits)
qed

text \<open>A device may be put for good once no pin and no owner is registered with it.\<close>

lemma device_put_wf:
  assumes wf: "wf s" and d: "xa_load (device_xa s) d = Some dpll"
    and last: "d_refcount dpll = 1 \<Longrightarrow> pin_refs dpll = [] \<and> d_regs dpll = []"
    and run: "dpll_device_put d s = Some s'"
  shows "wf s' \<and> dev_regs s' = dev_regs s \<and> warned s' = warned s"
proof (cases "d_refcount dpll = 1")
  case True
  then have "pin_refs dpll = []" "d_regs dpll = []" "\<not> d_registered dpll"
    using last wf d by (auto simp: wf_def)
  then have s': "s' = s\<lparr>device_xa := xa_erase d (device_xa s)\<rparr>"
    using run d True by (simp add: dpll_device_put_def xa_empty_def)
  have none: "dev_regs s d p = []" for p
    using d \<open>pin_refs dpll = []\<close> by (simp add: dev_regs_def)
  have "wf s' \<and> dev_regs s' = dev_regs s"
    unfolding s' by (rule devs_change_wf [where d = d, OF wf _ _ none])
      (use wf in \<open>simp_all add: wf_def xa_ok_erase xa_load_erase\<close>)
  then show ?thesis by (simp add: s')
next
  case False
  then have s': "s' = upd_dev d (\<lambda>dpll. dpll\<lparr>d_refcount := d_refcount dpll - 1\<rparr>) s"
    using run d by (simp add: dpll_device_put_def)
  have "wf s' \<and> dev_regs s' = dev_regs s"
    unfolding s' by (rule dev_change_wf [OF wf d]) (use wf d in \<open>auto simp: wf_def\<close>)
  then show ?thesis by (simp add: s')
qed

lemma pin_put_wf:
  assumes wf: "wf s" and p: "xa_load (pin_xa s) p = Some pin"
    and last: "p_refcount pin = 1 \<Longrightarrow> dpll_refs pin = []"
    and run: "dpll_pin_put p s = Some s'"
  shows "wf s' \<and> dev_regs s' = dev_regs s \<and> warned s' = warned s"
proof (cases "p_refcount pin = 1")
  case True
  then have s': "s' = s\<lparr>pin_xa := xa_erase p (pin_xa s)\<rparr>"
    using run p by (simp add: dpll_pin_put_def)
  have "wf s' \<and> dev_regs s' = dev_regs s"
    unfolding s' by (rule pins_change_wf [where p = p])
      (use wf p last True in \<open>auto simp: wf_def xa_ok_erase xa_load_erase pin_regs_def\<close>)
  then show ?thesis by (simp add: s')
next
  case False
  then have s': "s' = upd_pin p (\<lambda>pin. pin\<lparr>p_refcount := p_refcount pin - 1\<rparr>) s"
    using run p by (simp add: dpll_pin_put_def)
  have "wf s' \<and> dev_regs s' = dev_regs s"
    unfolding s' by (rule pin_change_wf [OF wf]) auto
  then show ?thesis by (simp add: s')
qed

lemma marked_already:
  "d_registered x \<Longrightarrow> x\<lparr>d_type := t, d_regs := rs, d_registered := True\<rparr> = x\<lparr>d_type := t, d_regs := rs\<rparr>"
  "d_registered x \<Longrightarrow> x\<lparr>d_regs := rs, d_registered := True\<rparr> = x\<lparr>d_regs := rs\<rparr>"
  by (cases x, simp)+

lemma dev_find:
  "dpll_device_registration_find dpll ops priv
     = (if \<lparr>dr_ops = ops, dr_priv = priv\<rparr> \<in> set (d_regs dpll)
        then Some \<lparr>dr_ops = ops, dr_priv = priv\<rparr> else None)"
proof -
  have eq: "(dr_ops x = ops \<and> dr_priv x = priv) \<longleftrightarrow> x = \<lparr>dr_ops = ops, dr_priv = priv\<rparr>" for x
    by (auto intro: device_reg.equality)
  show ?thesis unfolding dpll_device_registration_find_def eq by (rule find_eq)
qed

lemma device_register_cases:
  assumes wf: "wf s" and d: "xa_load (device_xa s) d = Some dpll"
    and run: "dpll_device_register env mem d type ops priv s = Some (ret, s')"
  shows "(ret \<noteq> None \<and> same_objects s s')
    \<or> (ret = None \<and> \<lparr>dr_ops = ops, dr_priv = priv\<rparr> \<notin> set (d_regs dpll)
        \<and> same_objects (upd_dev d (\<lambda>dpll. dpll\<lparr>d_type := type,
             d_regs := d_regs dpll @ [\<lparr>dr_ops = ops, dr_priv = priv\<rparr>], d_registered := True\<rparr>) s) s')"
proof -
  have ok: "xa_ok (device_xa s)" and mark: "d_registered dpll \<longleftrightarrow> d_regs dpll \<noteq> []"
    using wf d by (auto simp: wf_def)
  have found: "dpll_device_registration_find dpll ops priv = None
      \<longleftrightarrow> \<lparr>dr_ops = ops, dr_priv = priv\<rparr> \<notin> set (d_regs dpll)"
    by (simp add: dev_find)
  let ?f = "\<lambda>dpll. dpll\<lparr>d_type := type, d_regs := d_regs dpll @ [\<lparr>dr_ops = ops, dr_priv = priv\<rparr>]\<rparr>"
  let ?g = "\<lambda>dpll. dpll\<lparr>d_type := type, d_regs := d_regs dpll @ [\<lparr>dr_ops = ops, dr_priv = priv\<rparr>],
              d_registered := True\<rparr>"
  have later: "device_xa (upd_dev d ?f s) = device_xa (upd_dev d ?g s)" if "d_regs dpll \<noteq> []"
    using ok d mark that by (simp add: xa.modify_eq_store marked_already)
  have first: "upd_dev d (\<lambda>dpll. dpll\<lparr>d_registered := True\<rparr>) (upd_dev d ?f s) = upd_dev d ?g s"
    by (simp add: upd_dev_twice [OF ok] comp_def)
  show ?thesis
    using run d found later
    by (auto simp: dpll_device_register_def Let_def first same_objects_def warn_def
        dpll_device_create_ntf_def split: if_splits bind_splits dest!: device_event_same)
qed

lemma device_register_wf:
  assumes wf: "wf s" and d: "xa_load (device_xa s) d = Some dpll"
    and run: "dpll_device_register env mem d type ops priv s = Some (ret, s')"
  shows "wf s' \<and> dev_regs s' = dev_regs s"
proof -
  let ?g = "\<lambda>dpll. dpll\<lparr>d_type := type, d_regs := d_regs dpll @ [\<lparr>dr_ops = ops, dr_priv = priv\<rparr>],
              d_registered := True\<rparr>"
  have "wf (upd_dev d ?g s) \<and> dev_regs (upd_dev d ?g s) = dev_regs s"
    if "\<lparr>dr_ops = ops, dr_priv = priv\<rparr> \<notin> set (d_regs dpll)"
    by (rule dev_change_wf [OF wf d]) (use that wf d in \<open>auto simp: wf_def\<close>)
  then show ?thesis
    using device_register_cases [OF wf d run] wf same_objects_wf [of s s']
      same_objects_wf [of "upd_dev d ?g s" s'] by auto
qed

text \<open>Unregistering the owner of a device takes its registration away, and the mark with the last.\<close>

lemma device_unregister_eq:
  assumes wf: "wf s" and d: "xa_load (device_xa s) d = Some dpll"
    and reg: "\<lparr>dr_ops = ops, dr_priv = priv\<rparr> \<in> set (d_regs dpll)"
    and ntf: "dpll_device_delete_ntf env d s = Some (r, s2)"
    and rs: "rs = remove1 \<lparr>dr_ops = ops, dr_priv = priv\<rparr> (d_regs dpll)"
  shows "same_objects s s2
    \<and> dpll_device_unregister env d ops priv s
        = Some (upd_dev d (\<lambda>dpll. dpll\<lparr>d_regs := rs, d_registered := rs \<noteq> []\<rparr>) s2)"
proof -
  have mark: "d_registered dpll"
    using wf d reg by (auto simp: wf_def)
  have find: "dpll_device_registration_find dpll ops priv = Some \<lparr>dr_ops = ops, dr_priv = priv\<rparr>"
    using reg by (simp add: dev_find)
  have warn: "warn_if (\<not> dev_marked s d) s = s"
    using d mark by (simp add: dev_marked_def)
  have same: "same_objects s s2"
    using device_event_same ntf unfolding dpll_device_delete_ntf_def by blast
  then have d2: "xa_load (device_xa s2) d = Some dpll" and ok: "xa_ok (device_xa s2)"
    using wf d by (auto simp: same_objects_def wf_def)
  show ?thesis
  proof (cases "rs = []")
    case True
    then show ?thesis
      using same ntf d2 find rs unfolding dpll_device_unregister_def warn
      by (simp add: Let_def upd_dev_twice [OF ok] comp_def)
  next
    case False
    then have "dpll_device_unregister env d ops priv s = Some (upd_dev d (\<lambda>dpll. dpll\<lparr>d_regs := rs\<rparr>) s2)"
      using ntf d2 find rs unfolding dpll_device_unregister_def warn by (simp add: Let_def)
    then show ?thesis
      using same False mark xa.modify_eq_store [OF ok d2] by (simp add: upd_dev_def marked_already)
  qed
qed

lemma device_unregister_wf:
  assumes wf: "wf s" and d: "xa_load (device_xa s) d = Some dpll"
    and reg: "\<lparr>dr_ops = ops, dr_priv = priv\<rparr> \<in> set (d_regs dpll)"
    and run: "dpll_device_unregister env d ops priv s = Some s'"
  shows "wf s' \<and> dev_regs s' = dev_regs s
    \<and> (\<exists>dpll'. xa_load (device_xa s') d = Some dpll'
         \<and> d_regs dpll' = remove1 \<lparr>dr_ops = ops, dr_priv = priv\<rparr> (d_regs dpll))"
proof -
  let ?rs = "remove1 \<lparr>dr_ops = ops, dr_priv = priv\<rparr> (d_regs dpll)"
  let ?f = "\<lambda>dpll. dpll\<lparr>d_regs := ?rs, d_registered := ?rs \<noteq> []\<rparr>"
  have "d_registered dpll" and dist: "distinct (d_regs dpll)"
    using wf d reg by (auto simp: wf_def)
  then obtain r s2 where ntf: "dpll_device_delete_ntf env d s = Some (r, s2)"
    using run d by (auto simp: dpll_device_unregister_def dev_marked_def Let_def split: bind_splits)
  from device_unregister_eq [OF wf d reg this refl]
  have same: "same_objects s s2" and s': "s' = upd_dev d ?f s2" using run by auto
  then have wf2: "wf s2" "dev_regs s2 = dev_regs s" and d2: "xa_load (device_xa s2) d = Some dpll"
    using wf d same_objects_wf [OF same] by (auto simp: same_objects_def)
  have "wf (upd_dev d ?f s2) \<and> dev_regs (upd_dev d ?f s2) = dev_regs s2"
    by (rule dev_change_wf [OF wf2(1) d2]) (use dist in auto)
  then show ?thesis
    using wf2(2) d2 by (auto simp: s' xa_load_modify)
qed

end
