(* ===== verification/Dpll_Onpin.thy ===== *)
theory Dpll_Onpin
  imports Dpll_Life
begin

text \<open>
  Registration of a pin with a parent pin: it registers the pin with every device of the
  parent, and takes back what it did when one of them fails. The proof goes through the
  table of registrations: the invariant makes the arrays a function of that table, so undoing
  the registrations in another order still gives back the same arrays.
\<close>

section \<open>The arrays are determined by the table\<close>

definition skel :: "'d dpll_sys \<Rightarrow> dpll_device xarray \<times> dpll_pin xarray" where
  "skel s = (map (\<lambda>(i, dpll). (i, dpll\<lparr>pin_refs := []\<rparr>)) (device_xa s),
             map (\<lambda>(i, pin). (i, pin\<lparr>dpll_refs := [], p_registered := False\<rparr>)) (pin_xa s))"

lemma skel_dev: "xa_load (fst (skel s)) d = map_option (\<lambda>dpll. dpll\<lparr>pin_refs := []\<rparr>) (xa_load (device_xa s) d)"
  by (simp add: skel_def xa_load_def map_of_map)

lemma skel_pin: "xa_load (snd (skel s)) p
    = map_option (\<lambda>pin. pin\<lparr>dpll_refs := [], p_registered := False\<rparr>) (xa_load (pin_xa s) p)"
  by (simp add: skel_def xa_load_def map_of_map)

lemma skel_key:
  assumes "skel s = skel t"
  shows "pin_key s = pin_key t"
proof
  fix p
  have "map_option pin_idx (xa_load (snd (skel s)) p) = map_option pin_idx (xa_load (snd (skel t)) p)"
    using assms by simp
  then show "pin_key s p = pin_key t p"
    unfolding skel_pin by (auto simp: pin_key_def option.map_comp comp_def split: option.splits)
qed

lemma skel_upd_dev:
  "(\<And>dpll. (f dpll)\<lparr>pin_refs := []\<rparr> = dpll\<lparr>pin_refs := []\<rparr>) \<Longrightarrow> skel (upd_dev d f s) = skel s"
  by (auto simp: skel_def xa_modify_def)

lemma skel_upd_pin:
  "(\<And>pin. (f pin)\<lparr>dpll_refs := [], p_registered := False\<rparr> = pin\<lparr>dpll_refs := [], p_registered := False\<rparr>)
     \<Longrightarrow> skel (upd_pin p f s) = skel s"
  by (auto simp: skel_def xa_modify_def)

lemma skel_relink: "skel (relink d p refs drefs s) = skel s"
  by (simp add: skel_upd_pin skel_upd_dev)

lemma skel_same: "same_objects s s' \<Longrightarrow> skel s' = skel s"
  by (simp add: same_objects_def skel_def)

lemma device_eqI: "x\<lparr>pin_refs := []\<rparr> = y\<lparr>pin_refs := []\<rparr> \<Longrightarrow> pin_refs x = pin_refs y \<Longrightarrow> x = (y :: dpll_device)"
  by (cases x, cases y) simp

lemma pin_eqI:
  "x\<lparr>dpll_refs := [], p_registered := False\<rparr> = y\<lparr>dpll_refs := [], p_registered := False\<rparr> \<Longrightarrow>
     dpll_refs x = dpll_refs y \<Longrightarrow> p_registered x = p_registered y \<Longrightarrow> x = (y :: dpll_pin)"
  by (cases x, cases y) simp

lemma wf_canonical:
  assumes wf: "wf s" "wf t" and skel: "skel s = skel t" and regs: "dev_regs s = dev_regs t"
  shows "device_xa s = device_xa t \<and> pin_xa s = pin_xa t"
proof
  have pregs: "pin_regs s = pin_regs t" using wf regs by (simp add: wf_def)
  note key = skel_key [OF skel]
  show "device_xa s = device_xa t"
  proof (rule xa_ext)
    show "xa_load (device_xa s) = xa_load (device_xa t)"
    proof
      fix d
      show "xa_load (device_xa s) d = xa_load (device_xa t) d"
      proof (cases "xa_load (device_xa s) d")
        case None
        then show ?thesis using skel_dev [of s d] skel_dev [of t d] skel by simp
      next
        case (Some x)
        then obtain y where y: "xa_load (device_xa t) d = Some y" "x\<lparr>pin_refs := []\<rparr> = y\<lparr>pin_refs := []\<rparr>"
          using skel_dev [of s d] skel_dev [of t d] skel by auto
        have "regs_in (pin_key s) (pin_refs x) = regs_in (pin_key s) (pin_refs y)"
          using fun_cong [OF regs, of d] Some y(1) by (simp add: dev_regs_def [abs_def] key)
        moreover have "refs_inv (pin_key s) (pin_refs x)" "refs_inv (pin_key s) (pin_refs y)"
          using wf Some y(1) by (auto simp: wf_def key)
        ultimately have "pin_refs x = pin_refs y" using refs.extensional by blast
        then show ?thesis using Some y device_eqI by simp
      qed
    qed
  qed (use wf in \<open>simp_all add: wf_def\<close>)
  show "pin_xa s = pin_xa t"
  proof (rule xa_ext)
    show "xa_load (pin_xa s) = xa_load (pin_xa t)"
    proof
      fix p
      show "xa_load (pin_xa s) p = xa_load (pin_xa t) p"
      proof (cases "xa_load (pin_xa s) p")
        case None
        then show ?thesis using skel_pin [of s p] skel_pin [of t p] skel by simp
      next
        case (Some x)
        then obtain y where y: "xa_load (pin_xa t) p = Some y"
            "x\<lparr>dpll_refs := [], p_registered := False\<rparr> = y\<lparr>dpll_refs := [], p_registered := False\<rparr>"
          using skel_pin [of s p] skel_pin [of t p] skel by auto
        have "regs_in own_key (dpll_refs x) d = regs_in own_key (dpll_refs y) d" for d
          using fun_cong [OF fun_cong [OF pregs, of d], of p] Some y(1) by (simp add: pin_regs_def)
        then have "regs_in own_key (dpll_refs x) = regs_in own_key (dpll_refs y)" by blast
        moreover have "refs_inv own_key (dpll_refs x)" "refs_inv own_key (dpll_refs y)"
          and "p_registered x = (dpll_refs x \<noteq> [])" "p_registered y = (dpll_refs y \<noteq> [])"
          using wf Some y(1) by (auto simp: wf_def)
        ultimately show ?thesis using Some y pin_eqI refs.extensional by metis
      qed
    qed
  qed (use wf in \<open>simp_all add: wf_def\<close>)
qed

section \<open>One registration as a step on the table\<close>

lemma live_same: "skel s' = skel s \<Longrightarrow>
   (xa_load (device_xa s') d = None \<longleftrightarrow> xa_load (device_xa s) d = None)
   \<and> (xa_load (pin_xa s') p = None \<longleftrightarrow> xa_load (pin_xa s) p = None)"
  by (metis skel_dev skel_pin map_option_is_None)

lemma pin_register_step:
  assumes wf: "wf s" and d: "xa_load (device_xa s) d = Some dpll" and p: "xa_load (pin_xa s) p = Some pin"
    and new: "\<lparr>pr_ops = ops, pr_priv = priv, pr_cookie = cookie\<rparr> \<notin> set (dev_regs s d p)"
    and run: "pin_register env mem d p ops priv cookie s = Some (ret, s')"
  shows "wf s' \<and> skel s' = skel s
    \<and> dev_regs s' = (if ret = None then (dev_regs s)(d := (dev_regs s d)(p := dev_regs s d p
         @ [\<lparr>pr_ops = ops, pr_priv = priv, pr_cookie = cookie\<rparr>])) else dev_regs s)
    \<and> warned s' = warned s"
  using wf d p new run
proof (cases rule: pin_register_cases)
  case failed
  then show ?thesis using wf by auto
next
  case (linked refs drefs r)
  have "same_objects (relink d p refs drefs s) s' \<and> warned s' = warned (relink d p refs drefs s)"
    using linked(5) [unfolded dpll_pin_create_ntf_def, THEN pin_event_same] by simp
  then show ?thesis
    using linked_wf(1,2) [OF wf d p new linked(3,4)] linked(1) same_objects_wf skel_same skel_relink
    by (metis (no_types, lifting) upd_simps(7,8))
qed

lemma pin_unregister_step:
  assumes wf: "wf s" and d: "xa_load (device_xa s) d = Some dpll" and p: "xa_load (pin_xa s) p = Some pin"
    and reg: "\<lparr>pr_ops = ops, pr_priv = priv, pr_cookie = cookie\<rparr> \<in> set (dev_regs s d p)"
  obtains s' where "pin_unregister d p ops priv cookie s = Some s'" "wf s'" "skel s' = skel s"
    "dev_regs s' = (dev_regs s)(d := (dev_regs s d)(p := remove1
        \<lparr>pr_ops = ops, pr_priv = priv, pr_cookie = cookie\<rparr> (dev_regs s d p)))"
    "warned s' = warned s"
proof -
  let ?r = "\<lparr>pr_ops = ops, pr_priv = priv, pr_cookie = cookie\<rparr>"
  have inv: "refs_inv (pin_key s) (pin_refs dpll)" "refs_inv own_key (dpll_refs pin)"
    and sym: "pin_regs s d p = dev_regs s d p"
    using wf d p by (auto simp: wf_def)
  have eq: "regs_in (pin_key s) (pin_refs dpll) p = dev_regs s d p"
      "regs_in own_key (dpll_refs pin) d = dev_regs s d p"
    using d p sym by (auto simp: dev_regs_def pin_regs_def)
  from pin_unregister_eq [OF wf d p reg] obtain refs drefs where
    del: "ref_del p ?r (pin_refs dpll) = (None, False, refs)"
      "ref_del d ?r (dpll_refs pin) = (None, False, drefs)"
    and run: "pin_unregister d p ops priv cookie s = Some (relink d p refs drefs s)" .
  have 1: "refs_inv (pin_key s) refs" "regs_in (pin_key s) refs
      = (regs_in (pin_key s) (pin_refs dpll))(p := remove1 ?r (dev_regs s d p))"
    using refs.del_ok [OF inv(1), of ?r p] del(1) reg eq by auto
  have 2: "refs_inv own_key drefs" "regs_in own_key drefs
      = (regs_in own_key (dpll_refs pin))(d := remove1 ?r (dev_regs s d p))"
    using refs.del_ok [OF inv(2), of ?r d] del(2) reg eq by auto
  from relink_wf [OF wf d p 1 2] run skel_relink show ?thesis
    by (intro that [of "relink d p refs drefs s"]) auto
qed

section \<open>The loops\<close>

text \<open>Changing the registrations of pin \<open>p\<close> with the devices in \<open>D\<close>.\<close>

definition regs_upd ::
    "nat set \<Rightarrow> nat \<Rightarrow> (pin_reg list \<Rightarrow> pin_reg list) \<Rightarrow> (nat \<Rightarrow> nat \<Rightarrow> pin_reg list) \<Rightarrow> nat \<Rightarrow> nat \<Rightarrow> pin_reg list" where
  "regs_upd D p f R = (\<lambda>d q. if q = p \<and> d \<in> D then f (R d q) else R d q)"

definition objs :: "pin_ref xarray \<Rightarrow> nat set" where
  "objs refs = (\<lambda>ir. ref_obj (snd ir)) ` set refs"

lemma objs_simps [simp]: "objs [] = {}" "objs (ir # refs) = insert (ref_obj (snd ir)) (objs refs)"
  by (simp_all add: objs_def)

lemma regs_upd_one: "(R :: nat \<Rightarrow> nat \<Rightarrow> pin_reg list)(d := (R d)(p := f (R d p))) = regs_upd {d} p f R"
  by (auto simp: regs_upd_def fun_eq_iff)

lemma regs_upd_empty [simp]: "regs_upd {} p f R = R"
  by (simp add: regs_upd_def)

lemma regs_upd_more: "d \<notin> D \<Longrightarrow> regs_upd D p f (regs_upd {d} p f R) = regs_upd (insert d D) p f R"
  by (auto simp: regs_upd_def fun_eq_iff)

lemma regs_upd_undo:
  "\<forall>d\<in>D. r \<notin> set (R d p) \<Longrightarrow> regs_upd D p (remove1 r) (regs_upd D p (\<lambda>l. l @ [r]) R) = R"
  by (auto simp: regs_upd_def fun_eq_iff remove1_append)

text \<open>References in the order of the walk, every device once.\<close>

definition walk_ok :: "'d dpll_sys \<Rightarrow> pin_ref xarray \<Rightarrow> bool" where
  "walk_ok s refs \<longleftrightarrow> sorted_wrt (<) (map fst refs) \<and> distinct (map (\<lambda>ir. ref_obj (snd ir)) refs)
     \<and> (\<forall>d\<in>objs refs. xa_load (device_xa s) d \<noteq> None)"

lemma walk_ok_skel: "skel s' = skel s \<Longrightarrow> walk_ok s' refs = walk_ok s refs"
  using live_same [of s' s] unfolding walk_ok_def by blast

definition done_before :: "(errno \<times> nat) option \<Rightarrow> pin_ref xarray \<Rightarrow> pin_ref xarray" where
  "done_before failed refs =
     (case failed of None \<Rightarrow> refs | Some (e, stop) \<Rightarrow> filter (\<lambda>ir. fst ir < stop) refs)"

lemma register_with_all_step:
  assumes "register_with_all env mem parent p ops priv refs s = Some (failed, s')"
    and "wf s" and "xa_load (pin_xa s) p \<noteq> None" and "walk_ok s refs"
    and "\<forall>d\<in>objs refs. \<lparr>pr_ops = ops, pr_priv = priv, pr_cookie = Some parent\<rparr> \<notin> set (dev_regs s d p)"
  shows "wf s' \<and> skel s' = skel s \<and> warned s' = warned s
    \<and> dev_regs s' = regs_upd (objs (done_before failed refs)) p
         (\<lambda>l. l @ [\<lparr>pr_ops = ops, pr_priv = priv, pr_cookie = Some parent\<rparr>]) (dev_regs s)
    \<and> (\<forall>e stop. failed = Some (e, stop) \<longrightarrow> stop \<in> fst ` set refs)"
  using assms
proof (induction refs arbitrary: s)
  case Nil
  then show ?case by (simp add: done_before_def)
next
  case (Cons ir refs)
  let ?r = "\<lparr>pr_ops = ops, pr_priv = priv, pr_cookie = Some parent\<rparr>" and ?d = "ref_obj (snd ir)"
  obtain dpll pin where live: "xa_load (device_xa s) ?d = Some dpll" "xa_load (pin_xa s) p = Some pin"
    using Cons.prems(3,4) by (auto simp: walk_ok_def)
  have new: "?r \<notin> set (dev_regs s ?d p)" using Cons.prems(5) by simp
  have fresh: "?d \<notin> objs refs"
    using Cons.prems(4) by (auto simp: walk_ok_def objs_def)
  obtain ret s1 where step: "pin_register env (mem (fst ir)) ?d p ops priv (Some parent) s = Some (ret, s1)"
    using Cons.prems(1) by (auto split: bind_splits)
  note one = pin_register_step [OF Cons.prems(2) live new step]
  show ?case
  proof (cases ret)
    case (Some err)
    then have "failed = Some (err, fst ir)" "s' = s1" using Cons.prems(1) step by auto
    moreover have "filter (\<lambda>x. fst x < fst ir) (ir # refs) = []"
      using Cons.prems(4) by (fastforce simp: walk_ok_def filter_empty_conv)
    ultimately show ?thesis using one Some by (simp add: done_before_def)
  next
    case None
    then obtain r2 s2 where s2: "dpll_pin_create_ntf env p s1 = Some (r2, s2)"
        "register_with_all env mem parent p ops priv refs s2 = Some (failed, s')"
      using Cons.prems(1) step by (auto split: bind_splits)
    have same: "same_objects s1 s2 \<and> warned s2 = warned s1"
      using s2(1) [unfolded dpll_pin_create_ntf_def, THEN pin_event_same] by simp
    have wf2: "wf s2" and skel2: "skel s2 = skel s" and warn2: "warned s2 = warned s"
      and regs2: "dev_regs s2 = regs_upd {?d} p (\<lambda>l. l @ [?r]) (dev_regs s)"
      using one None same same_objects_wf [of s1 s2] skel_same [of s1 s2]
      by (simp_all flip: regs_upd_one)
    have walk: "walk_ok s2 refs"
      using Cons.prems(4) walk_ok_skel [OF skel2] by (auto simp: walk_ok_def)
    have new2: "\<forall>d\<in>objs refs. ?r \<notin> set (dev_regs s2 d p)"
      using Cons.prems(5) fresh by (auto simp: regs2 regs_upd_def)
    have p2: "xa_load (pin_xa s2) p \<noteq> None" using live_same [OF skel2] live by simp
    note IH = Cons.IH [OF s2(2) wf2 p2 walk new2]
    have sub: "objs (done_before failed refs) \<subseteq> objs refs"
      by (auto simp: done_before_def objs_def split: option.split)
    have stop: "stop \<in> fst ` set refs" if "failed = Some (e, stop)" for e stop
      using IH that by blast
    have above: "\<forall>i \<in> fst ` set refs. fst ir < i"
      using Cons.prems(4) by (simp add: walk_ok_def)
    have "done_before failed (ir # refs) = ir # done_before failed refs"
      using stop above by (auto simp: done_before_def split: option.split)
    then have "objs (done_before failed (ir # refs)) = insert ?d (objs (done_before failed refs))"
      by simp
    then show ?thesis
      using IH regs_upd_more [of ?d "objs (done_before failed refs)" p "\<lambda>l. l @ [?r]" "dev_regs s"]
        fresh sub skel2 warn2 regs2 stop by auto
  qed
qed

lemma unregister_below_step:
  assumes "unregister_below env stop parent p ops priv refs s = Some s'"
    and "wf s" and "xa_load (pin_xa s) p \<noteq> None" and "walk_ok s refs"
    and "\<forall>d\<in>objs (filter (\<lambda>ir. fst ir < stop) refs).
           \<lparr>pr_ops = ops, pr_priv = priv, pr_cookie = Some parent\<rparr> \<in> set (dev_regs s d p)"
  shows "wf s' \<and> skel s' = skel s \<and> warned s' = warned s
    \<and> dev_regs s' = regs_upd (objs (filter (\<lambda>ir. fst ir < stop) refs)) p
         (remove1 \<lparr>pr_ops = ops, pr_priv = priv, pr_cookie = Some parent\<rparr>) (dev_regs s)"
  using assms
proof (induction refs arbitrary: s)
  case Nil
  then show ?case by simp
next
  case (Cons ir refs)
  let ?r = "\<lparr>pr_ops = ops, pr_priv = priv, pr_cookie = Some parent\<rparr>" and ?d = "ref_obj (snd ir)"
  have walk: "walk_ok s refs" using Cons.prems(4) by (auto simp: walk_ok_def)
  show ?case
  proof (cases "fst ir < stop")
    case False
    then show ?thesis using Cons.IH [OF _ Cons.prems(2,3) walk] Cons.prems(1,5) by simp
  next
    case True
    obtain dpll pin where live: "xa_load (device_xa s) ?d = Some dpll" "xa_load (pin_xa s) p = Some pin"
      using Cons.prems(3,4) by (auto simp: walk_ok_def)
    have reg: "?r \<in> set (dev_regs s ?d p)" using Cons.prems(5) True by simp
    have fresh: "?d \<notin> objs (filter (\<lambda>ir. fst ir < stop) refs)"
      using Cons.prems(4) by (auto simp: walk_ok_def objs_def)
    from pin_unregister_step [OF Cons.prems(2) live reg] obtain s1 where
      one: "pin_unregister ?d p ops priv (Some parent) s = Some s1" "wf s1" "skel s1 = skel s"
        "dev_regs s1 = (dev_regs s)(?d := (dev_regs s ?d)(p := remove1 ?r (dev_regs s ?d p)))"
        "warned s1 = warned s" .
    then obtain r2 s2 where s2: "dpll_pin_delete_ntf env p s1 = Some (r2, s2)"
        "unregister_below env stop parent p ops priv refs s2 = Some s'"
      using Cons.prems(1) True by (auto split: bind_splits)
    have same: "same_objects s1 s2 \<and> warned s2 = warned s1"
      using s2(1) [unfolded dpll_pin_delete_ntf_def, THEN pin_event_same] by simp
    have wf2: "wf s2" and skel2: "skel s2 = skel s" and warn2: "warned s2 = warned s"
      and regs2: "dev_regs s2 = regs_upd {?d} p (remove1 ?r) (dev_regs s)"
      using one same same_objects_wf [of s1 s2] skel_same [of s1 s2]
      by (simp_all flip: regs_upd_one)
    have new2: "\<forall>d\<in>objs (filter (\<lambda>ir. fst ir < stop) refs). ?r \<in> set (dev_regs s2 d p)"
      using Cons.prems(5) True fresh by (auto simp: regs2 regs_upd_def)
    have p2: "xa_load (pin_xa s2) p \<noteq> None" using live_same [OF skel2] live by simp
    note IH = Cons.IH [OF s2(2) wf2 p2 walk [folded walk_ok_skel [OF skel2]] new2]
    show ?thesis
      using IH regs_upd_more [OF fresh, of p "remove1 ?r" "dev_regs s"] True skel2 warn2 regs2 by simp
  qed
qed

section \<open>All or nothing\<close>

lemma wf_walk_ok:
  assumes wf: "wf s" and p: "xa_load (pin_xa s) parent = Some ppin"
  shows "walk_ok s (dpll_refs ppin)"
proof -
  let ?refs = "dpll_refs ppin"
  have inv: "refs_inv own_key ?refs" and sym: "dev_regs s = pin_regs s"
    using wf p by (auto simp: wf_def)
  then have ok: "xa_ok ?refs" by (simp add: refs_inv_def)
  have obj: "ref_obj (snd ir) = fst ir \<and> ref_regs (snd ir) \<noteq> []" if "ir \<in> set ?refs" for ir
    using inv that xa_load_in [OF ok, of "fst ir" "snd ir"] by (simp add: refs_inv_def own_key_def)
  then have eq: "map (\<lambda>ir. ref_obj (snd ir)) ?refs = map fst ?refs" by simp
  have "distinct (map (\<lambda>ir. ref_obj (snd ir)) ?refs)"
    unfolding eq using ok strict_sorted_iff by (auto simp: xa_ok_def)
  moreover have "xa_load (device_xa s) d \<noteq> None" if "d \<in> objs ?refs" for d
  proof -
    from that obtain ir where ir: "ir \<in> set ?refs" "d = ref_obj (snd ir)" by (auto simp: objs_def)
    then have "xa_load ?refs d = Some (snd ir)"
      using xa_load_in [OF ok, of d "snd ir"] obj [OF ir(1)] by simp
    then have "pin_regs s d parent \<noteq> []"
      using p obj [OF ir(1)] ir(2) by (simp add: pin_regs_def regs_in_def own_key_def)
    then show ?thesis unfolding sym [symmetric] by (auto simp: dev_regs_def split: option.splits)
  qed
  ultimately show ?thesis using ok by (simp add: walk_ok_def xa_ok_def)
qed

text \<open>
  C11: Registering a pin with a parent pin is all or nothing: either the pin is registered with
  every device of the parent, under the parent as cookie, or the call fails and every device and pin is exactly
  as it was, however far the registration had come.
\<close>

theorem pin_on_pin_register_atomic:
  assumes wf: "wf s" and parent: "xa_load (pin_xa s) parent = Some ppin"
    and p: "xa_load (pin_xa s) p = Some pin"
    and pinv: "refs_inv (pin_key s) (parent_refs pin)"
    and pnew: "\<lparr>pr_ops = ops, pr_priv = priv, pr_cookie = Some p\<rparr>
       \<notin> set (regs_in (pin_key s) (parent_refs pin) parent)"
    and new: "\<forall>d. \<lparr>pr_ops = ops, pr_priv = priv, pr_cookie = Some parent\<rparr> \<notin> set (dev_regs s d p)"
    and run: "dpll_pin_on_pin_register env pmem mem parent p ops priv s = Some (ret, s')"
  shows "(ret \<noteq> None \<longrightarrow> device_xa s' = device_xa s \<and> pin_xa s' = pin_xa s)
    \<and> (ret = None \<longrightarrow> wf s' \<and> (\<forall>d q. dev_regs s' d q = (if q = p \<and> d \<in> objs (dpll_refs ppin)
          then dev_regs s d q @ [\<lparr>pr_ops = ops, pr_priv = priv, pr_cookie = Some parent\<rparr>]
          else dev_regs s d q)))"
proof -
  let ?rp = "\<lparr>pr_ops = ops, pr_priv = priv, pr_cookie = Some p\<rparr>"
  let ?r = "\<lparr>pr_ops = ops, pr_priv = priv, pr_cookie = Some parent\<rparr>"
  have ok: "xa_ok (pin_xa s)" using wf by (simp add: wf_def)
  have idx: "pin_idx ppin = pin_key s parent" using parent by (simp add: pin_key_def)
  obtain e refs where add: "ref_add (pin_key s) pmem parent ?rp (parent_refs pin) = (e, refs)"
    by fastforce
  consider (refused) "ret \<noteq> None" "same_objects s s'"
    | (checked) "case e of
          Some err \<Rightarrow> ret = Some err \<and> s' = set_parent_refs p refs s
        | None \<Rightarrow> \<exists>failed s1. register_with_all env mem parent p ops priv (dpll_refs ppin)
                      (pin_refcount_inc p (set_parent_refs p refs s)) = Some (failed, s1)
            \<and> (case failed of
                 None \<Rightarrow> ret = None \<and> s' = s1
               | Some (err, stop) \<Rightarrow> ret = Some err
                   \<and> (\<exists>s2. unregister_below env stop parent p ops priv (dpll_refs ppin) s1 = Some s2
                        \<and> drop_parent parent p ops priv (pin_refcount_dec p s2) = Some s'))"
    using run parent p add idx
    by (auto simp: dpll_pin_on_pin_register_def dpll_xa_ref_pin_add_def same_objects_def warn_def
        split: if_splits bind_splits option.splits)
  then show ?thesis
  proof cases
    case refused
    then show ?thesis by (auto simp: same_objects_def)
  next
    case checked
    show ?thesis
    proof (cases e)
      case (Some err)
      then have "refs = parent_refs pin" using refs.add_error [OF pinv] add by blast
      then have "s' = s" using checked Some upd_pin_id [OF ok p] by simp
      then show ?thesis using checked Some by simp
    next
      case None
      let ?s0 = "pin_refcount_inc p (set_parent_refs p refs s)"
      have t: "wf (set_parent_refs p refs s) \<and> dev_regs (set_parent_refs p refs s) = dev_regs s"
        by (rule pin_change_wf [OF wf]) auto
      have "wf ?s0 \<and> dev_regs ?s0 = dev_regs (set_parent_refs p refs s)"
        unfolding pin_refcount_inc_def by (rule pin_change_wf) (use t in auto)
      with t have s0: "wf ?s0" "dev_regs ?s0 = dev_regs s" by simp_all
      have p0: "xa_load (pin_xa ?s0) p \<noteq> None" using p by (simp add: pin_refcount_inc_def xa_load_modify)
      have walk: "walk_ok ?s0 (dpll_refs ppin)"
        using wf_walk_ok [OF wf parent] by (simp add: walk_ok_def pin_refcount_inc_def)
      obtain failed s1 where loop: "register_with_all env mem parent p ops priv (dpll_refs ppin) ?s0
          = Some (failed, s1)"
        and rest: "case failed of
                 None \<Rightarrow> ret = None \<and> s' = s1
               | Some (err, stop) \<Rightarrow> ret = Some err
                   \<and> (\<exists>s2. unregister_below env stop parent p ops priv (dpll_refs ppin) s1 = Some s2
                        \<and> drop_parent parent p ops priv (pin_refcount_dec p s2) = Some s')"
        using checked None by auto
      have "\<forall>d\<in>objs (dpll_refs ppin). ?r \<notin> set (dev_regs ?s0 d p)" using new s0(2) by simp
      note all = register_with_all_step [OF loop s0(1) p0 walk this]
      show ?thesis
      proof (cases failed)
        case None
        then show ?thesis using all rest s0(2) by (simp add: done_before_def regs_upd_def)
      next
        case (Some f)
        obtain err stop where f: "failed = Some (err, stop)" using Some by (cases f) auto
        let ?done = "filter (\<lambda>ir. fst ir < stop) (dpll_refs ppin)"
        have s1: "wf s1" "skel s1 = skel ?s0" "dev_regs s1 = regs_upd (objs ?done) p (\<lambda>l. l @ [?r]) (dev_regs s)"
          using all f s0(2) by (simp_all add: done_before_def)
        obtain s2 where s2: "unregister_below env stop parent p ops priv (dpll_refs ppin) s1 = Some s2"
            "drop_parent parent p ops priv (pin_refcount_dec p s2) = Some s'" and r: "ret = Some err"
          using rest f by auto
        have in1: "\<forall>d\<in>objs ?done. ?r \<in> set (dev_regs s1 d p)"
          by (auto simp: s1(3) regs_upd_def)
        have p1: "xa_load (pin_xa s1) p \<noteq> None" using live_same [OF s1(2), where p = p] p0 by simp
        note undo = unregister_below_step [OF s2(1) s1(1) p1 walk [folded walk_ok_skel [OF s1(2)]] in1]
        have "regs_upd (objs ?done) p (remove1 ?r) (dev_regs s1) = dev_regs s"
          unfolding s1(3) by (rule regs_upd_undo) (use new in auto)
        with undo have "wf s2" "skel s2 = skel ?s0" "dev_regs s2 = dev_regs ?s0"
          using s1(2) s0(2) by simp_all
        then have same: "device_xa s2 = device_xa ?s0" "pin_xa s2 = pin_xa ?s0"
          using wf_canonical [of s2 ?s0] s0(1) by blast+
        let ?q = "pin\<lparr>parent_refs := refs\<rparr>"
        have p2: "xa_load (pin_xa (pin_refcount_dec p s2)) p = Some ?q"
          using p same(2) by (simp add: pin_refcount_dec_def pin_refcount_inc_def xa_load_modify)
        have "ref_del parent ?rp refs = (None, False, parent_refs pin)"
          by (rule refs.add_del [OF pinv pnew]) (use add None in simp)
        then have s': "s' = set_parent_refs p (parent_refs pin) (pin_refcount_dec p s2)"
          using s2(2) p2 by (simp add: drop_parent_def dpll_xa_ref_pin_del_def)
        have "device_xa s' = device_xa s"
          using same(1) by (simp add: s' pin_refcount_dec_def pin_refcount_inc_def)
        moreover have "pin_xa s' = pin_xa s"
          using same(2) ok p
          by (simp add: s' pin_refcount_dec_def pin_refcount_inc_def xa.modify_modify xa_ok_modify comp_def,
              intro xa.modify_id) auto
        ultimately show ?thesis using r by simp
      qed
    qed
  qed
qed

text \<open>Two devices 3 and 4 with a multiplexer pin 5, and a pin 6 to put behind it.\<close>

definition demo_mux :: "unit dpll_sys" where
  "demo_mux =
     (let dev = \<lparr>device_idx = 0, d_clock_id = 7, d_module = 1, d_type = 1,
                 pin_refs = [(0, \<lparr>ref_obj = 5, ref_regs = [\<lparr>pr_ops = 1, pr_priv = 4, pr_cookie = None\<rparr>],
                                  ref_count = 1\<rparr>)],
                 d_refcount = 1, d_regs = [\<lparr>dr_ops = 1, dr_priv = 9\<rparr>], d_registered = True\<rparr>;
          ref = (\<lambda>d. \<lparr>ref_obj = d, ref_regs = [\<lparr>pr_ops = 1, pr_priv = 4, pr_cookie = None\<rparr>], ref_count = 1\<rparr>);
          pin = \<lparr>pin_idx = 0, p_clock_id = 7, p_module = 1, dpll_refs = [], parent_refs = [],
                 pin_prop = \<lparr>board_label = None, panel_label = None, package_label = None,
                   pp_type = DPLL_PIN_TYPE_MUX, capabilities = 0, freq_supported = [], phase_min = 0,
                   phase_max = 0\<rparr>,
                 p_refcount = 1, p_registered = False\<rparr>
      in \<lparr>device_xa = [(3, dev), (4, dev\<lparr>device_idx := 1\<rparr>)],
          pin_xa = [(5, pin\<lparr>dpll_refs := [(3, ref 3), (4, ref 4)], p_registered := True\<rparr>),
                    (6, pin\<lparr>pin_idx := 1\<rparr>)],
          ddrv = (), ntfs = [], warned = False\<rparr>)"

lemma demo_mux_wf: "wf demo_mux"
  by (auto simp: wf_def demo_mux_def xa_ok_Cons refs_inv_def xa_load_def dev_regs_def pin_regs_def
      regs_in_def own_key_def pin_key_def Let_def fun_eq_iff split: if_splits option.splits)

definition mem_but :: "nat \<Rightarrow> nat \<Rightarrow> ref_mem \<times> ref_mem" where
  "mem_but j i = (\<lparr>m_ref = True, m_insert = True, m_reg = True\<rparr>,
                  \<lparr>m_ref = True, m_insert = True, m_reg = i \<noteq> j\<rparr>)"

lemma demo_mux_runs:
  "\<exists>s'. dpll_pin_on_pin_register demo_env (fst all_mem) (mem_but 4) 5 6 1 8 demo_mux
     = Some (Some ENOMEM, s')"
  by (simp add: demo_mux_def demo_defs registration_defs message_defs dpll_pin_on_pin_register_def
      mem_but_def pin_refcount_inc_def pin_refcount_dec_def drop_parent_def
      dpll_msg_add_pin_parents_def dpll_pin_on_pin_priv_def)

lemma pin_on_pin_register_atomic_witness:
  "\<exists>s'. dpll_pin_on_pin_register demo_env (fst all_mem) (mem_but 4) 5 6 1 8 demo_mux
       = Some (Some ENOMEM, s')
     \<and> device_xa s' = device_xa demo_mux \<and> pin_xa s' = pin_xa demo_mux"
proof -
  obtain s' where run: "dpll_pin_on_pin_register demo_env (fst all_mem) (mem_but 4) 5 6 1 8 demo_mux
      = Some (Some ENOMEM, s')"
    using demo_mux_runs by blast
  have p: "xa_load (pin_xa demo_mux) 5 = Some (snd (hd (pin_xa demo_mux)))"
      "xa_load (pin_xa demo_mux) 6 = Some (snd (pin_xa demo_mux ! 1))"
      "parent_refs (snd (pin_xa demo_mux ! 1)) = []"
    by (simp_all add: demo_mux_def xa_load_def Let_def)
  have new: "\<lparr>pr_ops = 1, pr_priv = 8, pr_cookie = Some 5\<rparr> \<notin> set (dev_regs demo_mux d 6)" for d
    by (simp add: demo_mux_def xa_load_def Let_def dev_regs_def regs_in_def pin_key_def)
  show ?thesis
    using pin_on_pin_register_atomic [OF demo_mux_wf p(1,2) _ _ _ run] run new p(3) by simp
qed

end
