(* ===== verification/Dpll_Reach.thy ===== *)
theory Dpll_Reach
  imports Dpll_Onpin
begin

text \<open>
  Everything a disciplined driver can do to the subsystem, as a step relation: it gets and puts
  devices and pins, registers each registration once, and unregisters what it has registered before it
  puts the last reference. Every reachable state satisfies \<open>wf\<close>, has no two objects with the
  same identity, and no warning has been raised on the way.
\<close>

section \<open>Identities\<close>

definition dident :: "'d dpll_sys \<Rightarrow> nat \<Rightarrow> (u64 \<times> nat \<times> nat) option" where
  "dident s d = map_option (\<lambda>x. (d_clock_id x, device_idx x, d_module x)) (xa_load (device_xa s) d)"

definition pident :: "'d dpll_sys \<Rightarrow> nat \<Rightarrow> (u64 \<times> nat \<times> nat) option" where
  "pident s p = map_option (\<lambda>x. (p_clock_id x, pin_idx x, p_module x)) (xa_load (pin_xa s) p)"

definition idents_ok :: "'d dpll_sys \<Rightarrow> bool" where
  "idents_ok s \<longleftrightarrow> (\<forall>i j. dident s i \<noteq> None \<longrightarrow> dident s i = dident s j \<longrightarrow> i = j)
     \<and> (\<forall>i j. pident s i \<noteq> None \<longrightarrow> pident s i = pident s j \<longrightarrow> i = j)"

lemma idents_skel:
  "dident s = (\<lambda>d. map_option (\<lambda>x. (d_clock_id x, device_idx x, d_module x)) (xa_load (fst (skel s)) d))"
  "pident s = (\<lambda>p. map_option (\<lambda>x. (p_clock_id x, pin_idx x, p_module x)) (xa_load (snd (skel s)) p))"
  by (simp_all add: fun_eq_iff dident_def pident_def skel_dev skel_pin option.map_comp comp_def)

lemma skel_idents: "skel s = skel t \<Longrightarrow> dident s = dident t \<and> pident s = pident t"
  unfolding idents_skel by simp

text \<open>A map in which every value has one index stays so when a new value is added.\<close>

definition one_index :: "(nat \<Rightarrow> 'v option) \<Rightarrow> bool" where
  "one_index m \<longleftrightarrow> (\<forall>i j. m i \<noteq> None \<longrightarrow> m i = m j \<longrightarrow> i = j)"

lemma one_index_new:
  assumes "one_index m" and "\<And>i. m i \<noteq> Some v"
  shows "one_index (m(k := Some v))"
proof -
  have "i = j" if "(m(k := Some v)) i \<noteq> None" "(m(k := Some v)) i = (m(k := Some v)) j" for i j
    using assms(1) [unfolded one_index_def, rule_format, of i j] assms(2) [of i] assms(2) [of j] that
    by (cases "i = k"; cases "j = k") auto
  then show ?thesis unfolding one_index_def by blast
qed

lemma idents_ok_one: "idents_ok s \<longleftrightarrow> one_index (dident s) \<and> one_index (pident s)"
  by (auto simp: idents_ok_def one_index_def)

lemma idents_upd [simp]:
  "(\<And>x. d_clock_id (f x) = d_clock_id x \<and> device_idx (f x) = device_idx x \<and> d_module (f x) = d_module x)
     \<Longrightarrow> dident (upd_dev d f s) = dident s"
  "(\<And>x. p_clock_id (g x) = p_clock_id x \<and> pin_idx (g x) = pin_idx x \<and> p_module (g x) = p_module x)
     \<Longrightarrow> pident (upd_pin p g s) = pident s"
  "dident (upd_pin p g s) = dident s" "pident (upd_dev d f s) = pident s"
  by (auto simp: fun_eq_iff dident_def pident_def xa_load_modify option.map_comp comp_def)

lemma idents_warn [simp]: "dident (warn_if b s) = dident s" "pident (warn_if b s) = pident s"
  by (simp_all add: dident_def [abs_def] pident_def [abs_def])

lemma idents_same: "same_objects s s' \<Longrightarrow> dident s' = dident s \<and> pident s' = pident s"
  by (simp add: same_objects_def dident_def [abs_def] pident_def [abs_def])

section \<open>Steps\<close>

inductive life_step :: "'d dpll_env \<Rightarrow> 'd dpll_sys \<Rightarrow> 'd dpll_sys \<Rightarrow> bool" for env where
  device_get: "(\<And>i. slot = Slot i \<or> slot = Slot_wrapped i \<Longrightarrow> xa_load (device_xa s) i = None) \<Longrightarrow>
    life_step env s (snd (dpll_device_get mem slot clock_id idx module s))"
| device_put: "xa_load (device_xa s) d = Some dpll \<Longrightarrow>
    (d_refcount dpll = 1 \<Longrightarrow> pin_refs dpll = [] \<and> d_regs dpll = []) \<Longrightarrow>
    dpll_device_put d s = Some s' \<Longrightarrow> life_step env s s'"
| device_register: "xa_load (device_xa s) d = Some dpll \<Longrightarrow> ops \<noteq> 0 \<Longrightarrow>
    mode_get (dev_table env ops) \<noteq> None \<Longrightarrow> lock_status_get (dev_table env ops) \<noteq> None \<Longrightarrow>
    DPLL_TYPE_PPS \<le> type \<and> type \<le> DPLL_TYPE_MAX \<Longrightarrow>
    dpll_device_register env mem d type ops priv s = Some (ret, s') \<Longrightarrow> life_step env s s'"
| device_unregister: "xa_load (device_xa s) d = Some dpll \<Longrightarrow>
    \<lparr>dr_ops = ops, dr_priv = priv\<rparr> \<in> set (d_regs dpll) \<Longrightarrow>
    dpll_device_unregister env d ops priv s = Some s' \<Longrightarrow> life_step env s s'"
| pin_get: "(\<And>i. slot = Slot i \<Longrightarrow> xa_load (pin_xa s) i = None) \<Longrightarrow>
    DPLL_PIN_TYPE_MUX \<le> pp_type src \<and> pp_type src \<le> DPLL_PIN_TYPE_MAX \<Longrightarrow>
    dpll_pin_get mem pmem slot clock_id idx module src s = Some (r, s') \<Longrightarrow> life_step env s s'"
| pin_put: "xa_load (pin_xa s) p = Some pin \<Longrightarrow> (p_refcount pin = 1 \<Longrightarrow> dpll_refs pin = []) \<Longrightarrow>
    dpll_pin_put p s = Some s' \<Longrightarrow> life_step env s s'"
| pin_register: "xa_load (device_xa s) d = Some dpll \<Longrightarrow> xa_load (pin_xa s) p = Some pin \<Longrightarrow>
    ops \<noteq> 0 \<Longrightarrow> state_on_dpll_get (pin_table env ops) \<noteq> None \<Longrightarrow>
    direction_get (pin_table env ops) \<noteq> None \<Longrightarrow>
    d_module dpll = p_module pin \<Longrightarrow> d_clock_id dpll = p_clock_id pin \<Longrightarrow>
    \<lparr>pr_ops = ops, pr_priv = priv, pr_cookie = None\<rparr> \<notin> set (dev_regs s d p) \<Longrightarrow>
    dpll_pin_register env rmem d p ops priv s = Some (ret, s') \<Longrightarrow> life_step env s s'"
| pin_unregister: "xa_load (device_xa s) d = Some dpll \<Longrightarrow> xa_load (pin_xa s) p = Some pin \<Longrightarrow>
    parent_refs pin = [] \<Longrightarrow>
    \<lparr>pr_ops = ops, pr_priv = priv, pr_cookie = None\<rparr> \<in> set (dev_regs s d p) \<Longrightarrow>
    dpll_pin_unregister env d p ops priv s = Some s' \<Longrightarrow> life_step env s s'"

definition safe :: "'d dpll_sys \<Rightarrow> bool" where
  "safe s \<longleftrightarrow> wf s \<and> idents_ok s \<and> \<not> warned s"

definition dpll_empty :: "'d \<Rightarrow> 'd dpll_sys" where
  "dpll_empty d = \<lparr>device_xa = [], pin_xa = [], ddrv = d, ntfs = [], warned = False\<rparr>"

lemma safe_empty: "safe (dpll_empty d)"
  by (simp add: safe_def wf_def dpll_empty_def idents_ok_def dident_def pident_def xa_load_def
      dev_regs_def [abs_def] pin_regs_def [abs_def])

lemma idents_eq: "dident s' = dident s \<Longrightarrow> pident s' = pident s \<Longrightarrow> idents_ok s' = idents_ok s"
  by (simp add: idents_ok_def)

lemma idents_erase:
  "idents_ok s \<Longrightarrow> idents_ok (s\<lparr>device_xa := xa_erase d (device_xa s)\<rparr>)"
  "idents_ok s \<Longrightarrow> idents_ok (s\<lparr>pin_xa := xa_erase p (pin_xa s)\<rparr>)"
  by (auto simp: idents_ok_def dident_def pident_def xa_load_erase split: if_splits)

lemma device_get_idents:
  assumes "wf s" and "idents_ok s"
    and free: "\<And>i. slot = Slot i \<or> slot = Slot_wrapped i \<Longrightarrow> xa_load (device_xa s) i = None"
  shows "idents_ok (snd (dpll_device_get mem slot clock_id idx module s))"
proof (cases "find (\<lambda>(i, dpll). d_clock_id dpll = clock_id \<and> device_idx dpll = idx \<and> d_module dpll = module) (device_xa s)")
  case (Some ir)
  then show ?thesis
    using assms(2) by (cases ir) (simp add: dpll_device_get_def idents_ok_one)
next
  case None
  have ok: "xa_ok (device_xa s)" using assms(1) by (simp add: wf_def)
  have no: "dident s i \<noteq> Some (clock_id, idx, module)" for i
  proof
    assume "dident s i = Some (clock_id, idx, module)"
    then obtain x where x: "(i, x) \<in> set (device_xa s)" "d_clock_id x = clock_id" "device_idx x = idx"
        "d_module x = module"
      using xa_load_in [OF ok, of i] unfolding dident_def by auto
    then show False using bspec [OF iffD1 [OF find_None_all None] x(1)] by simp
  qed
  have "idents_ok (s\<lparr>device_xa := xa_store i x (device_xa s)\<rparr>)"
    if "xa_load (device_xa s) i = None" "d_clock_id x = clock_id" "device_idx x = idx" "d_module x = module" for i x
  proof -
    have "dident (s\<lparr>device_xa := xa_store i x (device_xa s)\<rparr>) = (dident s)(i := Some (clock_id, idx, module))"
      "pident (s\<lparr>device_xa := xa_store i x (device_xa s)\<rparr>) = pident s"
      using that ok by (auto simp: fun_eq_iff dident_def pident_def xa_load_store)
    then show ?thesis
      using assms(2) one_index_new [of "dident s", OF _ no] by (simp add: idents_ok_one)
  qed
  then show ?thesis
    using None free assms(2)
    by (auto simp: dpll_device_get_def dpll_device_alloc_def Let_def split: slot.splits)
qed

lemma pin_get_idents:
  assumes "wf s" and "idents_ok s" and free: "\<And>i. slot = Slot i \<Longrightarrow> xa_load (pin_xa s) i = None"
    and run: "dpll_pin_get mem pmem slot clock_id idx module src s = Some (r, s')"
  shows "idents_ok s'"
proof (cases "find (\<lambda>(i, pin). p_clock_id pin = clock_id \<and> pin_idx pin = idx \<and> p_module pin = module) (pin_xa s)")
  case (Some ir)
  then show ?thesis
    using assms(2) run by (cases ir) (auto simp: dpll_pin_get_def idents_ok_one)
next
  case None
  have ok: "xa_ok (pin_xa s)" using assms(1) by (simp add: wf_def)
  have no: "pident s i \<noteq> Some (clock_id, idx, module)" for i
  proof
    assume "pident s i = Some (clock_id, idx, module)"
    then obtain x where x: "(i, x) \<in> set (pin_xa s)" "p_clock_id x = clock_id" "pin_idx x = idx"
        "p_module x = module"
      using xa_load_in [OF ok, of i] unfolding pident_def by auto
    then show False using bspec [OF iffD1 [OF find_None_all None] x(1)] by simp
  qed
  have new: "idents_ok (s\<lparr>pin_xa := xa_store i x (pin_xa s)\<rparr>)"
    if "xa_load (pin_xa s) i = None" "p_clock_id x = clock_id" "pin_idx x = idx" "p_module x = module" for i x
  proof -
    have "pident (s\<lparr>pin_xa := xa_store i x (pin_xa s)\<rparr>) = (pident s)(i := Some (clock_id, idx, module))"
      "dident (s\<lparr>pin_xa := xa_store i x (pin_xa s)\<rparr>) = dident s"
      using that ok by (auto simp: fun_eq_iff dident_def pident_def xa_load_store)
    then show ?thesis
      using assms(2) one_index_new [of "pident s", OF _ no] by (simp add: idents_ok_one)
  qed
  have "idents_ok (warn s)" using assms(2) by (simp add: idents_ok_def dident_def pident_def warn_def)
  then show ?thesis
    using None free assms(2) run
    by (auto simp: dpll_pin_get_def dpll_pin_alloc_def new split: if_splits sum.splits slot.splits)
qed

text \<open>None of the operations warns when it is used within its contract.\<close>

lemma device_event_quiet:
  "dpll_device_event_send env event d s = Some (r, s') \<Longrightarrow> dev_marked s d \<Longrightarrow> warned s' = warned s"
  by (auto simp: dpll_device_event_send_def dev_marked_def dest!: multicast_frame split: option.splits if_splits)

lemma device_register_quiet:
  assumes "dpll_device_register env mem d type ops priv s = Some (ret, s')" and "ops \<noteq> 0"
    and "mode_get (dev_table env ops) \<noteq> None" and "lock_status_get (dev_table env ops) \<noteq> None"
    and "DPLL_TYPE_PPS \<le> type \<and> type \<le> DPLL_TYPE_MAX"
  shows "warned s' = warned s"
  using assms
  by (auto simp: dpll_device_register_def dpll_device_create_ntf_def dev_marked_def Let_def xa_load_modify
      dest!: device_event_quiet split: if_splits bind_splits)

lemma device_unregister_quiet:
  assumes "dpll_device_unregister env d ops priv s = Some s'" and "wf s"
    and "xa_load (device_xa s) d = Some dpll" and "\<lparr>dr_ops = ops, dr_priv = priv\<rparr> \<in> set (d_regs dpll)"
  shows "warned s' = warned s" and "dident s' = dident s \<and> pident s' = pident s"
proof -
  have mark: "dev_marked s d"
    using assms(2-4) by (auto simp: wf_def dev_marked_def)
  obtain r s2 where s2: "dpll_device_delete_ntf env d s = Some (r, s2)"
    using assms(1) mark by (auto simp: dpll_device_unregister_def Let_def split: bind_splits)
  then have same: "same_objects s s2" "warned s2 = warned s"
    using device_event_same device_event_quiet mark unfolding dpll_device_delete_ntf_def by blast+
  have "dpll_device_registration_find dpll ops priv \<noteq> None"
    using assms(4) by (simp add: dev_find)
  then show "warned s' = warned s"
    using assms(1,3) mark s2 same
    by (auto simp: dpll_device_unregister_def same_objects_def Let_def split: if_splits)
  have "dident s' = dident s2 \<and> pident s' = pident s2"
    using assms(1) mark s2
    by (auto simp: dpll_device_unregister_def Let_def warn_def dident_def [abs_def] pident_def [abs_def]
        xa_load_modify option.map_comp comp_def fun_eq_iff split: if_splits option.splits bind_splits)
  then show "dident s' = dident s \<and> pident s' = pident s"
    using idents_same [OF same(1)] by simp
qed

lemma life_step_safe:
  assumes "life_step env s s'" and "safe s"
  shows "safe s'"
  using assms
proof (cases rule: life_step.cases)
  case (device_get slot mem clock_id idx module)
  have "warned s' = warned s"
    by (simp add: device_get(1) dpll_device_get_def dpll_device_alloc_def Let_def
        split: option.split slot.split)
  then show ?thesis
    using assms(2) device_get device_get_wf [of s slot mem clock_id idx module]
      device_get_idents [of s slot mem clock_id idx module] by (simp add: safe_def)
next
  case (device_put d dpll)
  have "idents_ok s'"
    using assms(2) device_put(1,3) idents_erase(1) [of s d]
    by (auto simp: dpll_device_put_def safe_def idents_ok_one split: if_splits)
  then show ?thesis
    using device_put_wf [of s d dpll s'] device_put assms(2) by (simp add: safe_def)
next
  case (device_register d dpll ops type mem priv ret)
  have "dident s' = dident s \<and> pident s' = pident s"
    using device_register_cases [of s d dpll env mem type ops priv ret s'] device_register assms(2)
      idents_same [of s s'] idents_same [of _ s'] by (auto simp: safe_def)
  then show ?thesis
    using device_register_wf device_register_quiet device_register assms(2)
    by (simp add: safe_def idents_ok_one) blast
next
  case (device_unregister d dpll ops priv)
  have "wf s" using assms(2) by (simp add: safe_def)
  note quiet = device_unregister_quiet [OF device_unregister(3) this device_unregister(1,2)]
  show ?thesis
    using device_unregister_wf [OF \<open>wf s\<close> device_unregister] quiet assms(2)
    by (simp add: safe_def idents_ok_one)
next
  case (pin_get slot src mem pmem clock_id idx module r)
  have "warned s' = warned s"
    using pin_get(2,3) by (auto simp: dpll_pin_get_def dpll_pin_alloc_def
        split: option.splits if_splits sum.splits slot.splits)
  then show ?thesis
    using pin_get_wf [OF _ pin_get(1,3)] pin_get_idents [OF _ _ pin_get(1,3)] assms(2)
    by (simp add: safe_def)
next
  case (pin_put p pin)
  have "idents_ok s'"
    using assms(2) pin_put(1,3) idents_erase(2) [of s p]
    by (auto simp: dpll_pin_put_def safe_def idents_ok_one split: if_splits)
  then show ?thesis
    using pin_put_wf [of s p pin s'] pin_put assms(2) by (simp add: safe_def)
next
  case (pin_register d dpll p pin ops priv rmem ret)
  have run: "pin_register env rmem d p ops priv None s = Some (ret, s')"
    using pin_register by (auto simp: dpll_pin_register_def)
  have "wf s" using assms(2) by (simp add: safe_def)
  from pin_register_step [OF this pin_register(1,2,8) run] show ?thesis
    using assms(2) skel_idents [of s' s] by (simp add: safe_def idents_ok_one)
next
  case (pin_unregister d dpll p pin ops priv)
  have wf: "wf s" using assms(2) by (simp add: safe_def)
  have "pin_refs dpll \<noteq> []"
    using pin_unregister(1,4) by (auto simp: dev_regs_def)
  then obtain r s1 where s1: "dpll_pin_delete_ntf env p s = Some (r, s1)"
      "Dpll_Core.pin_unregister d p ops priv None s1 = Some s'"
    using pin_unregister(1-3,5) by (auto simp: dpll_pin_unregister_def xa_empty_def split: bind_splits)
  have same: "same_objects s s1" "warned s1 = warned s"
    using s1(1) [unfolded dpll_pin_delete_ntf_def, THEN pin_event_same] by simp_all
  have wf1: "wf s1" "dev_regs s1 = dev_regs s"
    using same_objects_wf [OF same(1)] wf by simp_all
  have live: "xa_load (device_xa s1) d = Some dpll" "xa_load (pin_xa s1) p = Some pin"
    using same(1) pin_unregister(1,2) by (simp_all add: same_objects_def)
  from pin_unregister_step [OF wf1(1) live pin_unregister(4) [folded wf1(2)]] s1(2)
  have "wf s'" "skel s' = skel s1" "warned s' = warned s1" by auto
  then show ?thesis
    using skel_idents [of s' s1] idents_same [OF same(1)] same(2) assms(2)
    by (simp add: safe_def idents_ok_one)
qed



end
