(* ===== verification/Dpll_Reply.thy ===== *)
theory Dpll_Reply
  imports Dpll_Life
begin

text \<open>
  What the message builders of \<open>dpll/dpll_netlink.c\<close> guarantee. A builder that succeeds has
  appended tokens that depend on the objects only, not on the message they went into; and a
  builder never reads through a dead pointer when the references it follows are live and the
  drivers have the callbacks that the core does not test (\<open>answerable\<close>).
\<close>

section \<open>Builders append\<close>

text \<open>
  Either the builder appends the same tokens to every message they fit into, and reports
  \<open>-EMSGSIZE\<close> otherwise, or it fails on every message.
\<close>

definition appends :: "(msg \<Rightarrow> msg res) \<Rightarrow> bool" where
  "appends f \<longleftrightarrow> (\<exists>b. \<forall>m. f m = Ok (m @ b) \<or> f m = Err EMSGSIZE) \<or> (\<forall>m m'. f m \<noteq> Ok m')"

named_theorems appends_intros

lemma appends_more [appends_intros]: "appends (\<lambda>m. Ok (m @ b))"
  by (auto simp: appends_def)

lemma appends_Ok [appends_intros]: "appends Ok"
  using appends_more [of "[]"] by simp

lemma appends_Err [appends_intros]: "appends (\<lambda>m. Err e)"
  by (simp add: appends_def)

lemma appends_nla_put [appends_intros]: "appends (nla_put env t)"
  by (auto simp: appends_def nla_put_def)

lemma appends_then [appends_intros]:
  assumes "appends f" and "appends g"
  shows "appends (\<lambda>m. andthen (f m) g)"
proof (cases "(\<forall>m m'. f m \<noteq> Ok m') \<or> (\<forall>m m'. g m \<noteq> Ok m')")
  case True
  then show ?thesis by (auto simp: appends_def andthen_Ok_iff)
next
  case False
  then obtain b c where "\<forall>m. f m = Ok (m @ b) \<or> f m = Err EMSGSIZE"
    "\<forall>m. g m = Ok (m @ c) \<or> g m = Err EMSGSIZE"
    using assms unfolding appends_def by blast
  then have "andthen (f m) g = Ok (m @ (b @ c)) \<or> andthen (f m) g = Err EMSGSIZE" for m
    by (metis andthen.simps(1,2) append.assoc)
  then show ?thesis unfolding appends_def by blast
qed

lemma appends_after [appends_intros]:
  assumes "appends g"
  shows "appends (\<lambda>m. g (m @ b))"
  using appends_then [OF appends_more [of b] assms] by simp

lemma appends_value [appends_intros]: "(\<And>a. appends (g a)) \<Longrightarrow> appends (\<lambda>m. andthen r (\<lambda>a. g a m))"
  by (cases r) (simp_all add: appends_def)

lemma appends_if [appends_intros]:
  "appends f \<Longrightarrow> appends g \<Longrightarrow> appends (\<lambda>m. if c then f m else g m)"
  by (cases c) simp_all

lemma appends_option [appends_intros]:
  "appends f \<Longrightarrow> (\<And>a. appends (g a)) \<Longrightarrow> appends (\<lambda>m. case x of None \<Rightarrow> f m | Some a \<Rightarrow> g a m)"
  by (cases x) simp_all

lemma appends_sum [appends_intros]:
  "(\<And>e. appends (f e)) \<Longrightarrow> (\<And>a. appends (g a)) \<Longrightarrow>
     appends (\<lambda>m. case x of Inl e \<Rightarrow> f e m | Inr a \<Rightarrow> g a m)"
  by (cases x) simp_all

lemma appends_prod [appends_intros]:
  "(\<And>a b. appends (g a b)) \<Longrightarrow> appends (\<lambda>m. case x of (a, b) \<Rightarrow> g a b m)"
  by (cases x) simp

lemmas device_parts =
  dpll_msg_add_dev_handle_def [abs_def] dpll_msg_add_mode_def [abs_def]
  dpll_msg_add_mode_supported_def [abs_def] dpll_msg_add_lock_status_def [abs_def]
  dpll_msg_add_temp_def [abs_def]

lemmas pin_parts =
  dpll_msg_add_dev_parent_handle_def [abs_def] dpll_msg_add_pin_handle_def [abs_def]
  dpll_msg_add_pin_prio_def [abs_def] dpll_msg_add_pin_on_dpll_state_def [abs_def]
  dpll_msg_add_pin_direction_def [abs_def] dpll_msg_add_phase_offset_def [abs_def]
  dpll_msg_add_pin_phase_adjust_def [abs_def] dpll_msg_add_ffo_def [abs_def]
  dpll_msg_add_pin_freq_def [abs_def] pin_getter_def put_label_def [abs_def]

lemma appends_device_get_one: "appends (dpll_device_get_one env s d)"
  unfolding dpll_device_get_one_def [abs_def] device_parts
  by (intro appends_intros)

lemma appends_put_freqs [appends_intros]: "appends (put_freqs env fss)"
proof (induction fss)
  case Nil
  show ?case using appends_Ok by (simp add: appends_def)
next
  case (Cons fs fss)
  show ?case unfolding put_freqs.simps [abs_def] by (intro appends_intros Cons.IH)
qed

lemma appends_add_dplls [appends_intros]: "appends (add_dplls env s p refs)"
proof (induction refs)
  case Nil
  show ?case using appends_Ok by (simp add: appends_def)
next
  case (Cons ir refs)
  show ?case unfolding add_dplls.simps [abs_def] Let_def pin_parts by (intro appends_intros Cons.IH)
qed

lemma appends_add_parents [appends_intros]: "appends (add_parents env s p ref refs)"
proof (induction refs)
  case Nil
  show ?case using appends_Ok by (simp add: appends_def)
next
  case (Cons ir refs)
  show ?case unfolding add_parents.simps [abs_def] Let_def pin_parts by (intro appends_intros Cons.IH)
qed

lemma appends_pin_get_one: "appends (dpll_cmd_pin_get_one env s p)"
  unfolding dpll_cmd_pin_get_one_def [abs_def] pin_parts Let_def
    dpll_msg_add_pin_dplls_def [abs_def] dpll_msg_add_pin_parents_def [abs_def]
  by (intro appends_intros)

section \<open>Builders do not fault\<close>

text \<open>
  A pin can be asked about: it has a reference to a device, its devices are registered, its
  parents are live, and the drivers have the two callbacks that the core calls untested.
\<close>

definition answerable :: "'d dpll_env \<Rightarrow> 'd dpll_sys \<Rightarrow> nat \<Rightarrow> bool" where
  "answerable env s p =
     (case xa_load (pin_xa s) p of
        None \<Rightarrow> False
      | Some pin \<Rightarrow> dpll_refs pin \<noteq> []
          \<and> (\<forall>ir \<in> set (dpll_refs pin). dev_marked s (ref_obj (snd ir))
               \<and> (\<forall>r \<in> set (ref_regs (snd ir)). direction_get (pin_table env (pr_ops r)) \<noteq> None))
          \<and> (\<forall>ir \<in> set (parent_refs pin). xa_load (pin_xa s) (ref_obj (snd ir)) \<noteq> None
               \<and> ref_regs (snd ir) \<noteq> []
               \<and> (\<forall>r \<in> set (ref_regs (snd ir)). state_on_pin_get (pin_table env (pr_ops r)) \<noteq> None)))"

named_theorems no_fault

lemma no_fault_simps [no_fault]: "Ok a \<noteq> Fault" "Err e \<noteq> Fault"
  by simp_all

lemma no_fault_put [no_fault]: "nla_put env t m \<noteq> Fault"
  by (simp add: nla_put_def)

lemma no_fault_sum [no_fault]: "of_sum x \<noteq> Fault"
  by (cases x) simp_all

lemma no_fault_then [no_fault]: "x \<noteq> Fault \<Longrightarrow> (\<And>a. x = Ok a \<Longrightarrow> f a \<noteq> Fault) \<Longrightarrow> andthen x f \<noteq> Fault"
  by (cases x) simp_all

lemma no_fault_option [no_fault]:
  "x \<noteq> Fault \<Longrightarrow> (\<And>a. y = Some a \<Longrightarrow> f a \<noteq> Fault) \<Longrightarrow> (case y of None \<Rightarrow> x | Some a \<Rightarrow> f a) \<noteq> Fault"
  by (cases y) simp_all

lemma no_fault_handle [no_fault]: "dpll_msg_add_dev_parent_handle env i m \<noteq> Fault"
  by (simp add: dpll_msg_add_dev_parent_handle_def no_fault_put)

lemma no_fault_call [no_fault]: "g \<noteq> None \<Longrightarrow> call_get g k \<noteq> Fault"
  by (cases g) (simp_all add: call_get_def no_fault_sum)

lemma no_fault_label [no_fault]: "put_label env a l m \<noteq> Fault"
  by (simp add: put_label_def no_fault)

lemma no_fault_freqs [no_fault]: "put_freqs env fss m \<noteq> Fault"
  by (induction fss arbitrary: m) (simp_all add: no_fault)

text \<open>The three reads every getter of a pin makes.\<close>

lemma live_reads:
  assumes "wf s" and "dev_marked s d" and "xa_load (pin_xa s) p = Some pin"
  obtains pp dp where "dpll_pin_on_dpll_priv s d p = Ok pp" "dpll_priv s d = Ok dp"
proof -
  obtain dpll where d: "xa_load (device_xa s) d = Some dpll" "d_registered dpll"
    using assms(2) by (auto simp: dev_marked_def split: option.splits)
  then have "d_regs dpll \<noteq> []" and inv: "refs_inv (pin_key s) (pin_refs dpll)"
    using assms(1) by (auto simp: wf_def)
  then obtain reg regs where "d_regs dpll = reg # regs"
    by (cases "d_regs dpll") auto
  then have "dpll_priv s d = Ok (dr_priv reg)"
    using d by (simp add: dpll_priv_def the_dev_def dpll_device_registration_first_def)
  moreover have "\<exists>pp. dpll_pin_on_dpll_priv s d p = Ok pp"
    using d assms(3) inv
    by (auto simp: dpll_pin_on_dpll_priv_def the_dev_def the_pin_def refs_inv_def
        dpll_pin_registration_first_def split: option.split list.split)
  ultimately show ?thesis using that by blast
qed

lemma ref_ops: "ref_regs ref \<noteq> [] \<Longrightarrow> dpll_pin_ops env ref = Ok (pin_table env (pr_ops (hd (ref_regs ref))))"
  by (cases "ref_regs ref") (simp_all add: dpll_pin_ops_def dpll_pin_registration_first_def)

text \<open>The references of an answerable pin.\<close>

lemma answerable_ref:
  assumes "wf s" and "answerable env s p" and "xa_load (pin_xa s) p = Some pin"
    and "ir \<in> set (dpll_refs pin)"
  shows "dev_marked s (ref_obj (snd ir))" and "ref_regs (snd ir) \<noteq> []"
    and "direction_get (pin_table env (pr_ops (hd (ref_regs (snd ir))))) \<noteq> None"
proof -
  have "refs_inv own_key (dpll_refs pin)" using assms(1,3) by (auto simp: wf_def)
  then show ne: "ref_regs (snd ir) \<noteq> []"
    using assms(4) xa_load_in [of "dpll_refs pin" "fst ir" "snd ir"] by (auto simp: refs_inv_def)
  show "dev_marked s (ref_obj (snd ir))"
    and "direction_get (pin_table env (pr_ops (hd (ref_regs (snd ir))))) \<noteq> None"
    using assms(2-4) ne by (auto simp: answerable_def dest: hd_in_set)
qed

lemma no_fault_getter:
  assumes "wf s" and "dev_marked s (ref_obj ref)" and "xa_load (pin_xa s) p = Some pin"
    and "\<And>a. put a \<noteq> Fault"
  shows "pin_getter s p ref g m put \<noteq> Fault"
proof -
  obtain pp dp where "dpll_pin_on_dpll_priv s (ref_obj ref) p = Ok pp" "dpll_priv s (ref_obj ref) = Ok dp"
    using live_reads [OF assms(1-3)] .
  then show ?thesis
    unfolding pin_getter_def by (cases g) (simp_all, intro no_fault assms(4))
qed

lemma no_fault_dplls:
  assumes "wf s" and "xa_load (pin_xa s) p = Some pin"
    and "\<forall>ir \<in> set refs. dev_marked s (ref_obj (snd ir)) \<and> ref_regs (snd ir) \<noteq> []
      \<and> direction_get (pin_table env (pr_ops (hd (ref_regs (snd ir))))) \<noteq> None"
  shows "add_dplls env s p refs m \<noteq> Fault"
  using assms(3)
proof (induction refs arbitrary: m)
  case (Cons ir refs)
  let ?ref = "snd ir"
  have r: "dev_marked s (ref_obj ?ref)" "ref_regs ?ref \<noteq> []"
    "direction_get (pin_table env (pr_ops (hd (ref_regs ?ref)))) \<noteq> None"
    using Cons.prems by auto
  note ops = ref_ops [OF r(2)]
  note get = no_fault_getter [OF assms(1) r(1) assms(2)]
  obtain pp dp where priv: "dpll_pin_on_dpll_priv s (ref_obj ?ref) p = Ok pp" "dpll_priv s (ref_obj ?ref) = Ok dp"
    using live_reads [OF assms(1) r(1) assms(2)] .
  have dev: "the_dev s (ref_obj ?ref) \<noteq> Fault"
    using r(1) by (auto simp: the_dev_def dev_marked_def split: option.splits)
  show ?case
    unfolding add_dplls.simps Let_def
      dpll_msg_add_pin_on_dpll_state_def dpll_msg_add_pin_prio_def dpll_msg_add_pin_direction_def
      dpll_msg_add_phase_offset_def ops priv andthen.simps
    apply (intro no_fault get dev r(3) Cons.IH)
    using Cons.prems by simp
qed (simp add: no_fault)

lemma no_fault_parents:
  assumes "wf s" and "dev_marked s (ref_obj dref)" and "xa_load (pin_xa s) p = Some pin"
    and "\<forall>ir \<in> set (parent_refs pin). ref_regs (snd ir) \<noteq> []"
    and "\<forall>ir \<in> set refs. xa_load (pin_xa s) (ref_obj (snd ir)) \<noteq> None \<and> ref_regs (snd ir) \<noteq> []
      \<and> state_on_pin_get (pin_table env (pr_ops (hd (ref_regs (snd ir))))) \<noteq> None"
  shows "add_parents env s p dref refs m \<noteq> Fault"
  using assms(5)
proof (induction refs arbitrary: m)
  case (Cons ir refs)
  let ?ref = "snd ir"
  have r: "ref_regs ?ref \<noteq> []" "state_on_pin_get (pin_table env (pr_ops (hd (ref_regs ?ref)))) \<noteq> None"
    using Cons.prems by auto
  obtain ppin where ppin: "xa_load (pin_xa s) (ref_obj ?ref) = Some ppin"
    using Cons.prems by auto
  obtain pp dp where priv: "dpll_pin_on_dpll_priv s (ref_obj dref) (ref_obj ?ref) = Ok pp"
    using live_reads [OF assms(1,2) ppin] .
  have on_pin: "dpll_pin_on_pin_priv s (ref_obj ?ref) p \<noteq> Fault"
    using ppin assms(3,4)
    by (auto simp: dpll_pin_on_pin_priv_def the_pin_def xa_load_def dpll_pin_registration_first_def
        dest!: map_of_SomeD split: option.split list.split)
  show ?case
    unfolding add_parents.simps Let_def ref_ops [OF r(1)] priv andthen.simps
    by (intro no_fault on_pin r(2) Cons.IH) (use Cons.prems in simp)
qed (simp add: no_fault)

lemma no_fault_pin:
  assumes "wf s" and "answerable env s p"
  shows "dpll_cmd_pin_get_one env s p m \<noteq> Fault"
proof -
  obtain pin where p: "xa_load (pin_xa s) p = Some pin" and ne: "dpll_refs pin \<noteq> []"
    using assms(2) by (auto simp: answerable_def split: option.splits)
  then obtain i ref rest where refs: "dpll_refs pin = (i, ref) # rest"
    by (cases "dpll_refs pin") auto
  note r = answerable_ref [OF assms p, of "(i, ref)", unfolded refs, simplified]
  note get = no_fault_getter [OF assms(1) r(1) p]
  obtain pp dp where priv: "dpll_pin_on_dpll_priv s (ref_obj ref) p = Ok pp" "dpll_priv s (ref_obj ref) = Ok dp"
    using live_reads [OF assms(1) r(1) p] .
  have ffo: "dpll_msg_add_ffo env s p ref m \<noteq> Fault" for m
    unfolding dpll_msg_add_ffo_def ref_ops [OF r(2)] priv andthen.simps
    by (auto simp: no_fault_put split: sum.split option.split)
  have parents: "dpll_msg_add_pin_parents env s p ref m \<noteq> Fault" for m
    using assms(2) p no_fault_parents [OF assms(1) r(1) p]
    by (auto simp: dpll_msg_add_pin_parents_def the_pin_def answerable_def dest: hd_in_set)
  have dplls: "dpll_msg_add_pin_dplls env s p m \<noteq> Fault" for m
    using no_fault_dplls [OF assms(1) p] answerable_ref [OF assms p]
    by (simp add: dpll_msg_add_pin_dplls_def the_pin_def p)
  have handle: "dpll_msg_add_pin_handle env (Some p) m \<noteq> Fault" for m
    by (simp add: dpll_msg_add_pin_handle_def no_fault_put)
  have first: "dpll_xa_ref_dpll_first (dpll_refs pin) = Ok ref"
    by (simp add: dpll_xa_ref_dpll_first_def refs)
  have load: "the_pin s p = Ok pin" by (simp add: the_pin_def p)
  show ?thesis
    unfolding dpll_cmd_pin_get_one_def load first andthen.simps Let_def
      dpll_msg_add_pin_freq_def dpll_msg_add_pin_phase_adjust_def ref_ops [OF r(2)]
    by (intro no_fault get ffo handle) (simp_all add: parents dplls)
qed

definition device_answerable :: "'d dpll_env \<Rightarrow> 'd dpll_sys \<Rightarrow> nat \<Rightarrow> bool" where
  "device_answerable env s d =
     (case xa_load (device_xa s) d of
        None \<Rightarrow> False
      | Some dpll \<Rightarrow> d_regs dpll \<noteq> []
          \<and> (\<forall>r \<in> set (d_regs dpll). mode_get (dev_table env (dr_ops r)) \<noteq> None
               \<and> lock_status_get (dev_table env (dr_ops r)) \<noteq> None))"

lemma no_fault_device:
  assumes "device_answerable env s d"
  shows "dpll_device_get_one env s d m \<noteq> Fault"
proof -
  obtain dpll reg regs where d: "xa_load (device_xa s) d = Some dpll" "d_regs dpll = reg # regs"
    and calls: "mode_get (dev_table env (dr_ops reg)) \<noteq> None"
      "lock_status_get (dev_table env (dr_ops reg)) \<noteq> None"
    using assms
    by (auto simp: device_answerable_def neq_Nil_conv split: option.splits)
  have reads: "the_dev s d = Ok dpll" "dpll_priv s d = Ok (dr_priv reg)"
    "dpll_device_ops env s d = Ok (dev_table env (dr_ops reg))"
    using d by (simp_all add: the_dev_def dpll_priv_def dpll_device_ops_def dpll_device_registration_first_def)
  have lock: "dpll_msg_add_lock_status env s d m \<noteq> Fault" for m
    unfolding dpll_msg_add_lock_status_def reads andthen.simps
    by (rule no_fault_then [OF no_fault_call [OF calls(2)]], clarsimp split: prod.split)
      (auto simp: nla_put_def split: if_splits)
  show ?thesis
    unfolding dpll_device_get_one_def dpll_msg_add_dev_handle_def dpll_msg_add_temp_def
      dpll_msg_add_mode_def dpll_msg_add_mode_supported_def reads andthen.simps
    by (intro no_fault lock calls)
qed

lemma multicast_runs: "build [Cmd event] \<noteq> Fault \<Longrightarrow> \<exists>r s'. multicast env event build s = Some (r, s')"
  by (auto simp: multicast_def split: res.split)

lemma pin_event_runs:
  "wf s \<Longrightarrow> answerable env s p \<Longrightarrow> \<exists>r s'. dpll_pin_event_send env event p s = Some (r, s')"
  by (simp add: dpll_pin_event_send_def multicast_runs no_fault_pin)

end
