(* ===== verification/Dpll_Set.thy ===== *)
theory Dpll_Set
  imports Dpll_Reply
begin

text \<open>
  The set requests of \<open>dpll/dpll_netlink.c\<close>: what user space may change of a pin. A request is a
  list of attributes, handled in their order. An operation returns \<open>None\<close> where the code reads
  through a dead pointer or calls a callback that is not there. The attributes of a request have
  passed the policies of the family (\<open>dpll_nl.c\<close>), which the netlink core checks: values have
  their C types, and a nested attribute is the record of the values parsed from it.
\<close>

section \<open>Attributes\<close>

record parent_attrs =
  a_parent_id :: "nat option"
  a_state :: "nat option"
  a_prio :: "nat option"
  a_direction :: "nat option"

datatype pin_attr =
    A_frequency u64
  | A_phase_adjust int
  | A_parent_device parent_attrs
  | A_parent_pin parent_attrs
  | A_clock_id u64
  | A_module_name string
  | A_type nat
  | A_board_label string
  | A_panel_label string
  | A_package_label string
  | A_other

section \<open>Calling a setter\<close>

definition attempt :: "'a res \<Rightarrow> 's \<Rightarrow> ('a \<Rightarrow> (ret \<times> 's) option) \<Rightarrow> (ret \<times> 's) option" where
  "attempt r s k = (case r of Ok a \<Rightarrow> k a | Err e \<Rightarrow> Some (Some e, s) | Fault \<Rightarrow> None)"

definition call_set ::
    "('d, 'r) pin_set option \<Rightarrow> nat \<Rightarrow> nat \<Rightarrow> nat \<Rightarrow> nat \<Rightarrow> 'r \<Rightarrow> 'd dpll_sys \<Rightarrow> (ret \<times> 'd dpll_sys) option" where
  "call_set f p pin_priv obj obj_priv v s =
     (case f of
        None \<Rightarrow> None
      | Some g \<Rightarrow> (let (r, d) = g p pin_priv obj obj_priv v (ddrv s) in Some (r, s\<lparr>ddrv := d\<rparr>)))"

text \<open>Setting a value of pin \<open>p\<close> on the device of one of its references.\<close>

definition set_on ::
    "'d dpll_env \<Rightarrow> ('d pin_ops \<Rightarrow> ('d, 'r) pin_set option) \<Rightarrow> nat \<Rightarrow> 'r \<Rightarrow> pin_ref \<Rightarrow> 'd dpll_sys
       \<Rightarrow> (ret \<times> 'd dpll_sys) option" where
  "set_on env setf p v ref s =
     attempt (dpll_pin_ops env ref) s (\<lambda>ops.
     attempt (dpll_pin_on_dpll_priv s (ref_obj ref) p) s (\<lambda>pin_priv.
     attempt (dpll_priv s (ref_obj ref)) s (\<lambda>priv.
     call_set (setf ops) p pin_priv (ref_obj ref) priv v s)))"

text \<open>Sending the change notification; what becomes of it is not looked at.\<close>

definition change_ntf :: "'d dpll_env \<Rightarrow> nat \<Rightarrow> 'd dpll_sys \<Rightarrow> (ret \<times> 'd dpll_sys) option" where
  "change_ntf env p s =
     (case dpll_pin_change_ntf env p s of None \<Rightarrow> None | Some (_, s') \<Rightarrow> Some (None, s'))"

section \<open>Values that all devices of a pin share\<close>

definition dpll_pin_is_freq_supported :: "dpll_pin \<Rightarrow> u32 \<Rightarrow> bool" where
  "dpll_pin_is_freq_supported pin freq =
     (\<exists>fs \<in> set (freq_supported (pin_prop pin)). f_min fs \<le> ucast freq \<and> ucast freq \<le> f_max fs)"

primrec ops_have :: "'d dpll_env \<Rightarrow> ('d pin_ops \<Rightarrow> bool) \<Rightarrow> pin_ref xarray \<Rightarrow> unit res" where
  "ops_have env P [] = Ok ()"
| "ops_have env P (ir # refs) =
     andthen (dpll_pin_ops env (snd ir)) (\<lambda>ops.
     if P ops then ops_have env P refs else Err EOPNOTSUPP)"

text \<open>Setting a value on one device after the other; a failure comes with its place in the array.\<close>

primrec set_each ::
    "'d dpll_env \<Rightarrow> ('d pin_ops \<Rightarrow> ('d, 'r) pin_set option) \<Rightarrow> nat \<Rightarrow> 'r \<Rightarrow> pin_ref xarray
       \<Rightarrow> 'd dpll_sys \<Rightarrow> ((errno \<times> nat) option \<times> 'd dpll_sys) option" where
  "set_each env setf p v [] s = Some (None, s)"
| "set_each env setf p v (ir # refs) s =
     (case set_on env setf p v (snd ir) s of
        None \<Rightarrow> None
      | Some (Some e, s') \<Rightarrow> Some (Some (e, fst ir), s')
      | Some (None, s') \<Rightarrow> set_each env setf p v refs s')"

text \<open>The rollback: the old value, on every device before the one that failed.\<close>

primrec set_back ::
    "'d dpll_env \<Rightarrow> ('d pin_ops \<Rightarrow> ('d, 'r) pin_set option) \<Rightarrow> nat \<Rightarrow> 'r \<Rightarrow> nat \<Rightarrow> pin_ref xarray
       \<Rightarrow> 'd dpll_sys \<Rightarrow> 'd dpll_sys option" where
  "set_back env setf p old failed [] s = Some s"
| "set_back env setf p old failed (ir # refs) s =
     (if fst ir = failed then Some s
      else (case set_on env setf p old (snd ir) s of
              None \<Rightarrow> None
            | Some (_, s') \<Rightarrow> set_back env setf p old failed refs s'))"

text \<open>The common body of \<open>dpll_pin_freq_set\<close> and \<open>dpll_pin_phase_adj_set\<close>.\<close>

definition set_on_all ::
    "'d dpll_env \<Rightarrow> ('d pin_ops \<Rightarrow> ('d, 'r) pin_get option) \<Rightarrow> ('d pin_ops \<Rightarrow> ('d, 'r) pin_set option)
       \<Rightarrow> nat \<Rightarrow> dpll_pin \<Rightarrow> 'r \<Rightarrow> 'd dpll_sys \<Rightarrow> (ret \<times> 'd dpll_sys) option" where
  "set_on_all env getf setf p pin v s =
     attempt (ops_have env (\<lambda>ops. setf ops \<noteq> None \<and> getf ops \<noteq> None) (dpll_refs pin)) s (\<lambda>_.
     attempt (dpll_xa_ref_dpll_first (dpll_refs pin)) s (\<lambda>ref.
     attempt (dpll_pin_ops env ref) s (\<lambda>ops.
     attempt (dpll_pin_on_dpll_priv s (ref_obj ref) p) s (\<lambda>pin_priv.
     attempt (dpll_priv s (ref_obj ref)) s (\<lambda>priv.
     attempt (call_get (getf ops) (\<lambda>f. f p pin_priv (ref_obj ref) priv (ddrv s))) s (\<lambda>old.
     if v = old then Some (None, s)
     else (case set_each env setf p v (dpll_refs pin) s of
             None \<Rightarrow> None
           | Some (None, s1) \<Rightarrow> change_ntf env p s1
           | Some (Some (e, failed), s1) \<Rightarrow>
               (case set_back env setf p old failed (dpll_refs pin) s1 of
                  None \<Rightarrow> None
                | Some s2 \<Rightarrow> Some (Some e, s2)))))))))"

text \<open>The check of the frequency has a 32-bit parameter: the value is truncated by the call.\<close>

definition dpll_pin_freq_set ::
    "'d dpll_env \<Rightarrow> nat \<Rightarrow> u64 \<Rightarrow> 'd dpll_sys \<Rightarrow> (ret \<times> 'd dpll_sys) option" where
  "dpll_pin_freq_set env p freq s =
     (case xa_load (pin_xa s) p of
        None \<Rightarrow> None
      | Some pin \<Rightarrow>
          if \<not> dpll_pin_is_freq_supported pin (ucast freq) then Some (Some EINVAL, s)
          else set_on_all env frequency_get frequency_set p pin freq s)"

definition dpll_pin_phase_adj_set ::
    "'d dpll_env \<Rightarrow> nat \<Rightarrow> int \<Rightarrow> 'd dpll_sys \<Rightarrow> (ret \<times> 'd dpll_sys) option" where
  "dpll_pin_phase_adj_set env p phase_adj s =
     (case xa_load (pin_xa s) p of
        None \<Rightarrow> None
      | Some pin \<Rightarrow>
          if phase_adj > phase_max (pin_prop pin) \<or> phase_adj < phase_min (pin_prop pin)
          then Some (Some EINVAL, s)
          else set_on_all env phase_adjust_get phase_adjust_set p pin phase_adj s)"

section \<open>Values of a pin on one parent\<close>

primrec state_on_parent ::
    "'d dpll_env \<Rightarrow> nat \<Rightarrow> nat \<Rightarrow> pin_ref \<Rightarrow> nat \<Rightarrow> pin_ref xarray \<Rightarrow> 'd dpll_sys
       \<Rightarrow> (ret \<times> 'd dpll_sys) option" where
  "state_on_parent env p parent parent_ref state [] s = Some (None, s)"
| "state_on_parent env p parent parent_ref state (ir # refs) s =
     attempt (dpll_pin_ops env parent_ref) s (\<lambda>ops.
     if state_on_pin_set ops = None then Some (Some EOPNOTSUPP, s)
     else
       attempt (dpll_pin_on_pin_priv s parent p) s (\<lambda>pin_priv.
       attempt (dpll_pin_on_dpll_priv s (ref_obj (snd ir)) parent) s (\<lambda>parent_priv.
       case call_set (state_on_pin_set ops) p pin_priv parent parent_priv state s of
         None \<Rightarrow> None
       | Some (Some e, s') \<Rightarrow> Some (Some e, s')
       | Some (None, s') \<Rightarrow> state_on_parent env p parent parent_ref state refs s')))"

definition dpll_pin_on_pin_state_set ::
    "'d dpll_env \<Rightarrow> nat \<Rightarrow> nat \<Rightarrow> nat \<Rightarrow> 'd dpll_sys \<Rightarrow> (ret \<times> 'd dpll_sys) option" where
  "dpll_pin_on_pin_state_set env p parent_idx state s =
     (case xa_load (pin_xa s) p of
        None \<Rightarrow> None
      | Some pin \<Rightarrow>
          if and DPLL_PIN_CAPABILITIES_STATE_CAN_CHANGE (capabilities (pin_prop pin)) = 0
          then Some (Some EOPNOTSUPP, s)
          else
            case xa_load (pin_xa s) parent_idx of
              None \<Rightarrow> Some (Some EINVAL, s)
            | Some parent \<Rightarrow>
                case xa_load (parent_refs pin) (pin_idx parent) of
                  None \<Rightarrow> Some (Some EINVAL, s)
                | Some parent_ref \<Rightarrow>
                    case state_on_parent env p parent_idx parent_ref state (dpll_refs parent) s of
                      None \<Rightarrow> None
                    | Some (Some e, s') \<Rightarrow> Some (Some e, s')
                    | Some (None, s') \<Rightarrow> change_ntf env p s')"

text \<open>The common body of the three functions that set a value of a pin on one device.\<close>

definition set_on_device ::
    "'d dpll_env \<Rightarrow> u64 \<Rightarrow> ('d pin_ops \<Rightarrow> ('d, nat) pin_set option) \<Rightarrow> nat \<Rightarrow> nat \<Rightarrow> nat \<Rightarrow> 'd dpll_sys
       \<Rightarrow> (ret \<times> 'd dpll_sys) option" where
  "set_on_device env capability setf d p v s =
     (case xa_load (pin_xa s) p of
        None \<Rightarrow> None
      | Some pin \<Rightarrow>
          if and capability (capabilities (pin_prop pin)) = 0 then Some (Some EOPNOTSUPP, s)
          else
            case xa_load (dpll_refs pin) d of
              None \<Rightarrow> None
            | Some ref \<Rightarrow>
                attempt (dpll_pin_ops env ref) s (\<lambda>ops.
                if setf ops = None then Some (Some EOPNOTSUPP, s)
                else
                  attempt (dpll_pin_on_dpll_priv s d p) s (\<lambda>pin_priv.
                  attempt (dpll_priv s d) s (\<lambda>priv.
                  case call_set (setf ops) p pin_priv d priv v s of
                    None \<Rightarrow> None
                  | Some (Some e, s') \<Rightarrow> Some (Some e, s')
                  | Some (None, s') \<Rightarrow> change_ntf env p s'))))"

definition dpll_pin_state_set ::
    "'d dpll_env \<Rightarrow> nat \<Rightarrow> nat \<Rightarrow> nat \<Rightarrow> 'd dpll_sys \<Rightarrow> (ret \<times> 'd dpll_sys) option" where
  "dpll_pin_state_set env =
     set_on_device env DPLL_PIN_CAPABILITIES_STATE_CAN_CHANGE state_on_dpll_set"

definition dpll_pin_prio_set ::
    "'d dpll_env \<Rightarrow> nat \<Rightarrow> nat \<Rightarrow> nat \<Rightarrow> 'd dpll_sys \<Rightarrow> (ret \<times> 'd dpll_sys) option" where
  "dpll_pin_prio_set env =
     set_on_device env DPLL_PIN_CAPABILITIES_PRIORITY_CAN_CHANGE prio_set"

definition dpll_pin_direction_set ::
    "'d dpll_env \<Rightarrow> nat \<Rightarrow> nat \<Rightarrow> nat \<Rightarrow> 'd dpll_sys \<Rightarrow> (ret \<times> 'd dpll_sys) option" where
  "dpll_pin_direction_set env =
     set_on_device env DPLL_PIN_CAPABILITIES_DIRECTION_CAN_CHANGE direction_set"

section \<open>Requests\<close>

text \<open>An optional attribute: nothing to do when it is absent; an error ends the request.\<close>

definition opt_set ::
    "nat option \<Rightarrow> (nat \<Rightarrow> 's \<Rightarrow> (ret \<times> 's) option) \<Rightarrow> ('s \<Rightarrow> (ret \<times> 's) option) \<Rightarrow> 's \<Rightarrow> (ret \<times> 's) option"
  where
  "opt_set a f k s =
     (case a of
        None \<Rightarrow> k s
      | Some v \<Rightarrow> (case f v s of
                     None \<Rightarrow> None
                   | Some (Some e, s') \<Rightarrow> Some (Some e, s')
                   | Some (None, s') \<Rightarrow> k s'))"

definition dpll_pin_parent_device_set ::
    "'d dpll_env \<Rightarrow> nat \<Rightarrow> parent_attrs \<Rightarrow> 'd dpll_sys \<Rightarrow> (ret \<times> 'd dpll_sys) option" where
  "dpll_pin_parent_device_set env p tb s =
     (case a_parent_id tb of
        None \<Rightarrow> Some (Some EINVAL, s)
      | Some d \<Rightarrow>
          case xa_load (device_xa s) d of
            None \<Rightarrow> Some (Some EINVAL, s)
          | Some _ \<Rightarrow>
              case xa_load (pin_xa s) p of
                None \<Rightarrow> None
              | Some pin \<Rightarrow>
                  if xa_load (dpll_refs pin) d = None then Some (Some EINVAL, s)
                  else
                    opt_set (a_state tb) (dpll_pin_state_set env d p) (
                    opt_set (a_prio tb) (dpll_pin_prio_set env d p) (
                    opt_set (a_direction tb) (dpll_pin_direction_set env d p) (\<lambda>s.
                    Some (None, s)))) s)"

definition dpll_pin_parent_pin_set ::
    "'d dpll_env \<Rightarrow> nat \<Rightarrow> parent_attrs \<Rightarrow> 'd dpll_sys \<Rightarrow> (ret \<times> 'd dpll_sys) option" where
  "dpll_pin_parent_pin_set env p tb s =
     (case a_parent_id tb of
        None \<Rightarrow> Some (Some EINVAL, s)
      | Some ppin \<Rightarrow> opt_set (a_state tb) (dpll_pin_on_pin_state_set env p ppin) (\<lambda>s. Some (None, s)) s)"

definition set_attr ::
    "'d dpll_env \<Rightarrow> nat \<Rightarrow> pin_attr \<Rightarrow> 'd dpll_sys \<Rightarrow> (ret \<times> 'd dpll_sys) option" where
  "set_attr env p a s =
     (case a of
        A_frequency freq \<Rightarrow> dpll_pin_freq_set env p freq s
      | A_phase_adjust adj \<Rightarrow> dpll_pin_phase_adj_set env p adj s
      | A_parent_device tb \<Rightarrow> dpll_pin_parent_device_set env p tb s
      | A_parent_pin tb \<Rightarrow> dpll_pin_parent_pin_set env p tb s
      | _ \<Rightarrow> Some (None, s))"

primrec dpll_pin_set_from_nlattr ::
    "'d dpll_env \<Rightarrow> nat \<Rightarrow> pin_attr list \<Rightarrow> 'd dpll_sys \<Rightarrow> (ret \<times> 'd dpll_sys) option" where
  "dpll_pin_set_from_nlattr env p [] s = Some (None, s)"
| "dpll_pin_set_from_nlattr env p (a # as) s =
     (case set_attr env p a s of
        None \<Rightarrow> None
      | Some (Some e, s') \<Rightarrow> Some (Some e, s')
      | Some (None, s') \<Rightarrow> dpll_pin_set_from_nlattr env p as s')"

definition dpll_nl_pin_set_doit ::
    "'d dpll_env \<Rightarrow> nat \<Rightarrow> pin_attr list \<Rightarrow> 'd dpll_sys \<Rightarrow> (ret \<times> 'd dpll_sys) option" where
  "dpll_nl_pin_set_doit env p attrs s = dpll_pin_set_from_nlattr env p attrs s"

end
