(* ===== verification/Dpll_Set_Props.thy ===== *)
theory Dpll_Set_Props
  imports Dpll_Set
begin

text \<open>
  What the set requests guarantee. A value that all devices of a pin share is set on all of them
  or on none, if the drivers do what their callbacks promise (\<open>honest_value\<close>); no request touches
  the devices and pins themselves; a pin without the capability keeps its value.
\<close>

section \<open>The driver's state does not matter to the tables\<close>

lemma ddrv_frame [simp]:
  "pin_key (s\<lparr>ddrv := x\<rparr>) = pin_key s" "dev_regs (s\<lparr>ddrv := x\<rparr>) = dev_regs s"
  "pin_regs (s\<lparr>ddrv := x\<rparr>) = pin_regs s" "dev_marked (s\<lparr>ddrv := x\<rparr>) = dev_marked s"
  "answerable env (s\<lparr>ddrv := x\<rparr>) p = answerable env s p"
  by (simp_all add: pin_key_def [abs_def] dev_regs_def [abs_def] pin_regs_def [abs_def]
      dev_marked_def [abs_def] answerable_def cong: option.case_cong)

lemma wf_ddrv [simp]: "Dpll_Registry.wf (s\<lparr>ddrv := x\<rparr>) = Dpll_Registry.wf s"
  by (simp add: wf_def)

section \<open>All devices or none\<close>

text \<open>
  The contract of a driver for a value: a setter that succeeds changes the value on that device
  and nothing else, one that fails changes no value, and a getter tells the value.
\<close>

definition honest_value ::
    "'d dpll_env \<Rightarrow> ('d pin_ops \<Rightarrow> ('d, 'r) pin_get option) \<Rightarrow> ('d pin_ops \<Rightarrow> ('d, 'r) pin_set option)
       \<Rightarrow> nat \<Rightarrow> ('d \<Rightarrow> nat \<Rightarrow> 'r) \<Rightarrow> bool" where
  "honest_value env getf setf p val \<longleftrightarrow>
     (\<forall>n f pp d dp v x. setf (pin_table env n) = Some f \<longrightarrow>
        val (snd (f p pp d dp v x)) = (if fst (f p pp d dp v x) = None then (val x)(d := v) else val x))
   \<and> (\<forall>n g pp d dp x a. getf (pin_table env n) = Some g \<longrightarrow> g p pp d dp x = Inr a \<longrightarrow> a = val x d)"

text \<open>A value that every device accepts at any time.\<close>

definition accepted ::
    "'d dpll_env \<Rightarrow> ('d pin_ops \<Rightarrow> ('d, 'r) pin_set option) \<Rightarrow> nat \<Rightarrow> 'r \<Rightarrow> bool" where
  "accepted env setf p v \<longleftrightarrow>
     (\<forall>n f pp d dp x. setf (pin_table env n) = Some f \<longrightarrow> fst (f p pp d dp v x) = None)"

definition on_all :: "pin_ref xarray \<Rightarrow> 'r \<Rightarrow> (nat \<Rightarrow> 'r) \<Rightarrow> nat \<Rightarrow> 'r" where
  "on_all refs v f = (\<lambda>d. if \<exists>ir \<in> set refs. ref_obj (snd ir) = d then v else f d)"

lemma on_all_simps [simp]:
  "on_all [] v f = f"
  "on_all (ir # refs) v f = on_all refs v (f(ref_obj (snd ir) := v))"
  by (auto simp: on_all_def fun_eq_iff)

lemma on_all_idle: "\<forall>ir \<in> set refs. f (ref_obj (snd ir)) = v \<Longrightarrow> on_all refs v f = f"
  by (auto simp: on_all_def fun_eq_iff)

lemma on_all_twice: "on_all refs v (on_all refs w f) = on_all refs v f"
  by (auto simp: on_all_def)

text \<open>References through which a value can be set.\<close>

definition settable ::
    "'d dpll_env \<Rightarrow> ('d pin_ops \<Rightarrow> ('d, 'r) pin_set option) \<Rightarrow> 'd dpll_sys \<Rightarrow> pin_ref \<Rightarrow> bool" where
  "settable env setf s ref \<longleftrightarrow> dev_marked s (ref_obj ref) \<and> ref_regs ref \<noteq> []
     \<and> setf (pin_table env (pr_ops (hd (ref_regs ref)))) \<noteq> None"

lemma settable_ddrv [simp]: "settable env setf (s\<lparr>ddrv := x\<rparr>) ref = settable env setf s ref"
  by (simp add: settable_def)

lemma set_on_runs:
  assumes "Dpll_Registry.wf s" and "xa_load (pin_xa s) p = Some pin"
    and "settable env setf s ref" and "honest_value env getf setf p val"
  obtains r x where "set_on env setf p v ref s = Some (r, s\<lparr>ddrv := x\<rparr>)"
    "val x = (if r = None then (val (ddrv s))(ref_obj ref := v) else val (ddrv s))"
    "accepted env setf p v \<Longrightarrow> r = None"
proof -
  obtain f where f: "setf (pin_table env (pr_ops (hd (ref_regs ref)))) = Some f"
    and ne: "ref_regs ref \<noteq> []" and mark: "dev_marked s (ref_obj ref)"
    using assms(3) by (auto simp: settable_def)
  obtain pp dp where priv: "dpll_pin_on_dpll_priv s (ref_obj ref) p = Ok pp" "dpll_priv s (ref_obj ref) = Ok dp"
    using live_reads [OF assms(1) mark assms(2)] .
  let ?c = "f p pp (ref_obj ref) dp v (ddrv s)"
  have "set_on env setf p v ref s = Some (fst ?c, s\<lparr>ddrv := snd ?c\<rparr>)"
    by (simp add: set_on_def attempt_def ref_ops [OF ne] priv call_set_def f split: prod.split)
  moreover have "val (snd ?c) = (if fst ?c = None then (val (ddrv s))(ref_obj ref := v) else val (ddrv s))"
    using assms(4) f unfolding honest_value_def by blast
  moreover have "accepted env setf p v \<Longrightarrow> fst ?c = None"
    using f unfolding accepted_def by blast
  ultimately show ?thesis by (rule that)
qed

lemma set_each_runs:
  assumes "Dpll_Registry.wf s" and "xa_load (pin_xa s) p = Some pin"
    and "\<forall>ir \<in> set refs. settable env setf s (snd ir)" and "honest_value env getf setf p val"
  obtains
    (all) x where "set_each env setf p v refs s = Some (None, s\<lparr>ddrv := x\<rparr>)"
      "val x = on_all refs v (val (ddrv s))"
  | (some) pre ir post e x where "refs = pre @ ir # post"
      "set_each env setf p v refs s = Some (Some (e, fst ir), s\<lparr>ddrv := x\<rparr>)"
      "val x = on_all pre v (val (ddrv s))"
  using assms(1-3)
proof (induction refs arbitrary: s thesis)
  case Nil
  show ?case by (rule Nil(1) [of "ddrv s"]) simp_all
next
  case (Cons ir refs)
  obtain r x where one: "set_on env setf p v (snd ir) s = Some (r, s\<lparr>ddrv := x\<rparr>)"
    "val x = (if r = None then (val (ddrv s))(ref_obj (snd ir) := v) else val (ddrv s))"
    using set_on_runs [OF Cons.prems(3,4) _ assms(4)] Cons.prems(5) by (metis list.set_intros(1))
  show ?case
  proof (cases r)
    case (Some e)
    then show ?thesis using Cons.prems(2) [of "[]" ir refs e x] one by simp
  next
    case None
    let ?s = "s\<lparr>ddrv := x\<rparr>"
    have ok: "Dpll_Registry.wf ?s" "xa_load (pin_xa ?s) p = Some pin"
      "\<forall>ir \<in> set refs. settable env setf ?s (snd ir)"
      using Cons.prems(3-5) by simp_all
    show ?thesis
    proof (rule Cons.IH [OF _ _ ok])
      fix y
      assume "set_each env setf p v refs ?s = Some (None, ?s\<lparr>ddrv := y\<rparr>)"
        "val y = on_all refs v (val (ddrv ?s))"
      then show thesis using Cons.prems(1) [of y] one None by simp
    next
      fix pre ir' post e y
      assume "refs = pre @ ir' # post"
        "set_each env setf p v refs ?s = Some (Some (e, fst ir'), ?s\<lparr>ddrv := y\<rparr>)"
        "val y = on_all pre v (val (ddrv ?s))"
      then show thesis using Cons.prems(2) [of "ir # pre" ir' post e y] one None by simp
    qed
  qed
qed

lemma set_back_runs:
  assumes "Dpll_Registry.wf s" and "xa_load (pin_xa s) p = Some pin"
    and "\<forall>ir \<in> set pre. settable env setf s (snd ir) \<and> fst ir \<noteq> failed"
    and "honest_value env getf setf p val" and "accepted env setf p old"
  obtains x where "set_back env setf p old failed (pre @ (failed, ref) # post) s = Some (s\<lparr>ddrv := x\<rparr>)"
    "val x = on_all pre old (val (ddrv s))"
  using assms(1-3)
proof (induction pre arbitrary: s thesis)
  case Nil
  show ?case by (rule Nil(1) [of "ddrv s"]) simp_all
next
  case (Cons ir pre)
  have "settable env setf s (snd ir)" using Cons.prems(4) by simp
  from set_on_runs [OF Cons.prems(2,3) this assms(4), of old]
  obtain x where one: "set_on env setf p old (snd ir) s = Some (None, s\<lparr>ddrv := x\<rparr>)"
    "val x = (val (ddrv s))(ref_obj (snd ir) := old)"
    using assms(5) by (metis (full_types))
  let ?s = "s\<lparr>ddrv := x\<rparr>"
  have ok: "Dpll_Registry.wf ?s" "xa_load (pin_xa ?s) p = Some pin"
    "\<forall>ir \<in> set pre. settable env setf ?s (snd ir) \<and> fst ir \<noteq> failed"
    using Cons.prems(2-4) by simp_all
  obtain y where "set_back env setf p old failed (pre @ (failed, ref) # post) ?s = Some (?s\<lparr>ddrv := y\<rparr>)"
    "val y = on_all pre old (val (ddrv ?s))"
    using Cons.IH [OF _ ok] .
  then show ?case using Cons.prems(1) [of y] Cons.prems(4) one by simp
qed

lemma change_ntf_runs:
  assumes "Dpll_Registry.wf s" and "answerable env s p"
  obtains s' where "change_ntf env p s = Some (None, s')" "same_objects s s'"
proof -
  obtain r s' where run: "dpll_pin_change_ntf env p s = Some (r, s')"
    using pin_event_runs [OF assms, of DPLL_CMD_PIN_CHANGE_NTF] by (auto simp: dpll_pin_change_ntf_def)
  then have "same_objects s s'"
    using pin_event_same by (fastforce simp: dpll_pin_change_ntf_def)
  then show ?thesis using run that by (simp add: change_ntf_def)
qed

lemma ops_have_eq:
  "\<forall>ir \<in> set refs. ref_regs (snd ir) \<noteq> [] \<Longrightarrow>
     ops_have env P refs =
       (if \<forall>ir \<in> set refs. P (pin_table env (pr_ops (hd (ref_regs (snd ir))))) then Ok ()
        else Err EOPNOTSUPP)"
  by (induction refs) (simp_all add: ref_ops)

lemma xa_ok_unique: "xa_ok (pre @ ir # post) \<Longrightarrow> \<forall>jr \<in> set pre. fst jr \<noteq> fst ir"
  by (auto simp: xa_ok_def sorted_wrt_append)

lemma set_on_all_runs:
  assumes wf: "Dpll_Registry.wf s" and ans: "answerable env s p" and p: "xa_load (pin_xa s) p = Some pin"
    and honest: "honest_value env getf setf p val" and old: "accepted env setf p old"
    and shared: "\<forall>ir \<in> set (dpll_refs pin). val (ddrv s) (ref_obj (snd ir)) = old"
  shows "\<exists>r s'. set_on_all env getf setf p pin v s = Some (r, s')
    \<and> device_xa s' = device_xa s \<and> pin_xa s' = pin_xa s
    \<and> val (ddrv s') = (if r = None then on_all (dpll_refs pin) v (val (ddrv s)) else val (ddrv s))"
    (is "\<exists>r s'. ?run = Some (r, s') \<and> ?good r s'")
proof -
  let ?refs = "dpll_refs pin"
  let ?P = "\<lambda>ops. setf ops \<noteq> None \<and> getf ops \<noteq> None"
  note ref = answerable_ref [OF wf ans p]
  have have_eq: "ops_have env ?P ?refs = (if \<forall>ir \<in> set ?refs. ?P (pin_table env (pr_ops (hd (ref_regs (snd ir)))))
      then Ok () else Err EOPNOTSUPP)"
    using ref(2) by (intro ops_have_eq) blast
  show ?thesis
  proof (cases "\<forall>ir \<in> set ?refs. ?P (pin_table env (pr_ops (hd (ref_regs (snd ir)))))")
    case False
    then have "?run = Some (Some EOPNOTSUPP, s)"
      by (simp only: set_on_all_def attempt_def have_eq if_False res.case)
    then show ?thesis by simp
  next
    case True
    have settable: "\<forall>ir \<in> set ?refs. settable env setf s (snd ir)"
      using True ref by (simp add: settable_def)
    obtain i fst_ref rest where refs: "?refs = (i, fst_ref) # rest"
      using ans p by (cases ?refs) (auto simp: answerable_def)
    then have mem: "(i, fst_ref) \<in> set ?refs" by simp
    note r1 = ref [OF mem, simplified]
    obtain pp dp where priv: "dpll_pin_on_dpll_priv s (ref_obj fst_ref) p = Ok pp"
        "dpll_priv s (ref_obj fst_ref) = Ok dp"
      using live_reads [OF wf r1(1) p] .
    let ?ops = "pin_table env (pr_ops (hd (ref_regs fst_ref)))"
    obtain g where g: "getf ?ops = Some g" using True mem by fastforce
    let ?set = "set_each env setf p v ?refs s"
    let ?rest = "\<lambda>w. case ?set of None \<Rightarrow> None
       | Some (None, s1) \<Rightarrow> change_ntf env p s1
       | Some (Some (e, failed), s1) \<Rightarrow>
           (case set_back env setf p w failed ?refs s1 of None \<Rightarrow> None | Some s2 \<Rightarrow> Some (Some e, s2))"
    have run: "?run = (case g p pp (ref_obj fst_ref) dp (ddrv s) of
        Inl e \<Rightarrow> Some (Some e, s) | Inr w \<Rightarrow> if v = w then Some (None, s) else ?rest w)"
      unfolding set_on_all_def have_eq if_P [OF True]
      by (simp add: attempt_def dpll_xa_ref_dpll_first_def refs ref_ops [OF r1(2)]
          priv call_get_def g split: sum.split)
    show ?thesis
    proof (cases "g p pp (ref_obj fst_ref) dp (ddrv s)")
      case (Inl e)
      then show ?thesis using run by simp
    next
      case (Inr w)
      then have w: "w = old"
        using honest g shared mem unfolding honest_value_def by fastforce
      show ?thesis
      proof (cases "v = old")
        case True
        then show ?thesis using run Inr w on_all_idle [of ?refs "val (ddrv s)" v] shared by simp
      next
        case False
        with run Inr w have run: "?run = ?rest old" by simp
        from wf p settable honest show ?thesis
        proof (cases rule: set_each_runs [where v = v])
          case (all x)
          obtain s' where "change_ntf env p (s\<lparr>ddrv := x\<rparr>) = Some (None, s')" "same_objects (s\<lparr>ddrv := x\<rparr>) s'"
            using change_ntf_runs [of "s\<lparr>ddrv := x\<rparr>" env p] wf ans by auto
          then show ?thesis using run all by (auto simp: same_objects_def)
        next
          case (some pre ir post e x)
          have "xa_ok ?refs" using wf p by (auto simp: wf_def refs_inv_def)
          then have before: "\<forall>jr \<in> set pre. settable env setf (s\<lparr>ddrv := x\<rparr>) (snd jr) \<and> fst jr \<noteq> fst ir"
            using some(1) settable xa_ok_unique [of pre ir post] by simp
          obtain y where "set_back env setf p old (fst ir) ?refs (s\<lparr>ddrv := x\<rparr>) = Some (s\<lparr>ddrv := y\<rparr>)"
            "val y = on_all pre old (val x)"
            using set_back_runs [OF _ _ before honest old, where pin = pin and ref = "snd ir" and post = post] wf p some(1) by auto
          moreover have "on_all pre old (val x) = val (ddrv s)"
            using some(1,3) shared by (simp add: on_all_twice on_all_idle)
          ultimately show ?thesis using run some(2) by simp
        qed
      qed
    qed
  qed
qed

text \<open>
  An instance for the witnesses: pin 5 on the devices 3 and 4, which keep a frequency and a phase
  adjustment each; \<open>picky\<close> says that device 4 accepts only the values it has.
\<close>

definition keep_freq :: "bool \<Rightarrow> ((nat \<Rightarrow> u64) \<times> (nat \<Rightarrow> int), u64) pin_set" where
  "keep_freq picky p pp d dp v x =
     (if picky \<and> d = 4 \<and> v \<noteq> 10 then (Some EBUSY, x) else (None, (fst x)(d := v), snd x))"

definition keep_phase :: "bool \<Rightarrow> ((nat \<Rightarrow> u64) \<times> (nat \<Rightarrow> int), int) pin_set" where
  "keep_phase picky p pp d dp v x =
     (if picky \<and> d = 4 \<and> v \<noteq> 0 then (Some EBUSY, x) else (None, fst x, (snd x)(d := v)))"

definition two_env :: "bool \<Rightarrow> ((nat \<Rightarrow> u64) \<times> (nat \<Rightarrow> int)) dpll_env" where
  "two_env picky =
     \<lparr>dev_table = (\<lambda>_. \<lparr>mode_get = Some (\<lambda>_ _ _. Inr 2), lock_status_get = Some (\<lambda>_ _ _. Inr (1, 0)),
                       temp_get = None\<rparr>),
      pin_table = (\<lambda>_. \<lparr>frequency_set = Some (keep_freq picky),
        frequency_get = Some (\<lambda>_ _ d _ x. Inr (fst x d)), direction_set = None,
        direction_get = Some (\<lambda>_ _ _ _ _. Inr 1), state_on_pin_get = None,
        state_on_dpll_get = None, state_on_pin_set = None, state_on_dpll_set = None,
        prio_get = None, prio_set = None, phase_offset_get = None,
        phase_adjust_get = Some (\<lambda>_ _ d _ x. Inr (snd x d)),
        phase_adjust_set = Some (keep_phase picky), ffo_get = None\<rparr>),
      mod_name = (\<lambda>_. ''m''), fits = (\<lambda>_ _. True), msg_mem = True\<rparr>"

definition two_reg :: pin_reg where
  "two_reg = \<lparr>pr_ops = 1, pr_priv = 4, pr_cookie = None\<rparr>"

definition two_dev :: dpll_device where
  "two_dev = \<lparr>device_idx = 0, d_clock_id = 7, d_module = 1, d_type = 1,
     pin_refs = [(0, \<lparr>ref_obj = 5, ref_regs = [two_reg], ref_count = 1\<rparr>)],
     d_refcount = 1, d_regs = [\<lparr>dr_ops = 1, dr_priv = 9\<rparr>], d_registered = True\<rparr>"

definition two_pin :: dpll_pin where
  "two_pin = \<lparr>pin_idx = 0, p_clock_id = 7, p_module = 1,
     dpll_refs = [(3, \<lparr>ref_obj = 3, ref_regs = [two_reg], ref_count = 1\<rparr>),
                  (4, \<lparr>ref_obj = 4, ref_regs = [two_reg], ref_count = 1\<rparr>)],
     parent_refs = [],
     pin_prop = \<lparr>board_label = None, panel_label = None, package_label = None, pp_type = 2,
       capabilities = 0, freq_supported = [\<lparr>f_min = 1, f_max = 20\<rparr>], phase_min = -5, phase_max = 5\<rparr>,
     p_refcount = 1, p_registered = True\<rparr>"

definition two_sys :: "((nat \<Rightarrow> u64) \<times> (nat \<Rightarrow> int)) dpll_sys" where
  "two_sys = \<lparr>device_xa = [(3, two_dev), (4, two_dev)], pin_xa = [(5, two_pin)],
     ddrv = (\<lambda>_. 10, \<lambda>_. 0), ntfs = [], warned = False\<rparr>"

lemmas two_defs = two_env_def two_sys_def two_dev_def two_pin_def two_reg_def keep_freq_def keep_phase_def

lemma two_wf: "Dpll_Registry.wf two_sys"
  by (auto simp: wf_def two_defs xa_ok_Cons refs_inv_def xa_load_def dev_regs_def pin_regs_def
      regs_in_def fun_eq_iff pin_key_def own_key_def split: if_splits option.splits)

lemma two_answerable: "answerable (two_env picky) two_sys 5"
  by (simp add: answerable_def two_defs xa_load_def dev_marked_def)

lemma two_load: "xa_load (pin_xa two_sys) 5 = Some two_pin"
  by (simp add: two_sys_def xa_load_def)

lemma two_honest:
  "honest_value (two_env picky) frequency_get frequency_set 5 fst"
  "accepted (two_env picky) frequency_set 5 10"
  "honest_value (two_env picky) phase_adjust_get phase_adjust_set 5 snd"
  "accepted (two_env picky) phase_adjust_set 5 0"
  by (auto simp: honest_value_def accepted_def two_defs)

section \<open>The calls of the setters, whatever the drivers answer\<close>

text \<open>
  The callback behind a reference with the arguments the core gives it, and a list of such calls made one after the other:
  the answers, in order, and the state the drivers are left in.
\<close>

definition setter ::
    "'d dpll_env \<Rightarrow> ('d pin_ops \<Rightarrow> ('d, 'r) pin_set option) \<Rightarrow> 'd dpll_sys \<Rightarrow> nat \<Rightarrow> 'r \<Rightarrow> pin_ref \<Rightarrow> 'd \<Rightarrow> ret \<times> 'd" where
  "setter env setf s p v ref x =
     (case (setf (pin_table env (pr_ops (hd (ref_regs ref)))), dpll_pin_on_dpll_priv s (ref_obj ref) p, dpll_priv s (ref_obj ref)) of
        (Some f, Ok pp, Ok dp) \<Rightarrow> f p pp (ref_obj ref) dp v x
      | _ \<Rightarrow> (Some EINVAL, x))"

definition getter ::
    "'d dpll_env \<Rightarrow> ('d pin_ops \<Rightarrow> ('d, 'r) pin_get option) \<Rightarrow> 'd dpll_sys \<Rightarrow> nat \<Rightarrow> pin_ref \<Rightarrow> errno + 'r" where
  "getter env getf s p ref =
     (case (getf (pin_table env (pr_ops (hd (ref_regs ref)))), dpll_pin_on_dpll_priv s (ref_obj ref) p, dpll_priv s (ref_obj ref)) of
        (Some g, Ok pp, Ok dp) \<Rightarrow> g p pp (ref_obj ref) dp (ddrv s)
      | _ \<Rightarrow> Inl EINVAL)"

primrec answers :: "('d \<Rightarrow> ret \<times> 'd) list \<Rightarrow> 'd \<Rightarrow> ret list \<times> 'd" where
  "answers [] x = ([], x)"
| "answers (f # fs) x = (let (r, y) = f x; (rs, z) = answers fs y in (r # rs, z))"

lemma answers_append:
  "answers (fs @ gs) x = (let (r, y) = answers fs x; (q, z) = answers gs y in (r @ q, z))"
  by (induction fs arbitrary: x) (simp_all split: prod.splits)

lemma answers_length: "length (fst (answers fs x)) = length fs"
  by (induction fs arbitrary: x) (simp_all split: prod.splits, metis fst_conv)

lemma priv_ddrv [simp]:
  "dpll_pin_on_dpll_priv (s\<lparr>ddrv := x\<rparr>) d p = dpll_pin_on_dpll_priv s d p" "dpll_priv (s\<lparr>ddrv := x\<rparr>) d = dpll_priv s d"
  by (simp_all add: dpll_pin_on_dpll_priv_def dpll_priv_def the_dev_def the_pin_def cong: option.case_cong)

lemma setter_ddrv [simp]: "setter env setf (s\<lparr>ddrv := x\<rparr>) = setter env setf s"
  by (simp add: setter_def fun_eq_iff)

lemma set_on_calls:
  assumes "Dpll_Registry.wf s" and "xa_load (pin_xa s) p = Some pin" and "settable env setf s ref"
  shows "set_on env setf p v ref s = (let (r, x) = setter env setf s p v ref (ddrv s) in Some (r, s\<lparr>ddrv := x\<rparr>))"
proof -
  obtain f where f: "setf (pin_table env (pr_ops (hd (ref_regs ref)))) = Some f"
    and ne: "ref_regs ref \<noteq> []" and mark: "dev_marked s (ref_obj ref)"
    using assms(3) by (auto simp: settable_def)
  obtain pp dp where priv: "dpll_pin_on_dpll_priv s (ref_obj ref) p = Ok pp" "dpll_priv s (ref_obj ref) = Ok dp"
    using live_reads [OF assms(1) mark assms(2)] .
  then show ?thesis
    by (simp add: set_on_def attempt_def ref_ops [OF ne] call_set_def f setter_def split: prod.split)
qed

lemma set_each_calls:
  assumes "Dpll_Registry.wf s" and "xa_load (pin_xa s) p = Some pin"
    and "\<forall>ir \<in> set refs. settable env setf s (snd ir)"
  obtains
    (all) x where "set_each env setf p v refs s = Some (None, s\<lparr>ddrv := x\<rparr>)"
      "answers (map (setter env setf s p v \<circ> snd) refs) (ddrv s) = (replicate (length refs) None, x)"
  | (some) pre ir post e x where "refs = pre @ ir # post"
      "set_each env setf p v refs s = Some (Some (e, fst ir), s\<lparr>ddrv := x\<rparr>)"
      "answers (map (setter env setf s p v \<circ> snd) (pre @ [ir])) (ddrv s) = (replicate (length pre) None @ [Some e], x)"
  using assms(1-3)
proof (induction refs arbitrary: s thesis)
  case Nil
  show ?case by (rule Nil(1) [of "ddrv s"]) simp_all
next
  case (Cons ir refs)
  have able: "settable env setf s (snd ir)" using Cons.prems(5) by simp
  obtain r x where c: "setter env setf s p v (snd ir) (ddrv s) = (r, x)" by (metis surj_pair)
  then have one: "set_on env setf p v (snd ir) s = Some (r, s\<lparr>ddrv := x\<rparr>)"
    using set_on_calls [OF Cons.prems(3,4) able, of v] by simp
  show ?case
  proof (cases r)
    case (Some e)
    then show ?thesis using Cons.prems(2) [of "[]" ir refs e x] one c by simp
  next
    case None
    let ?s = "s\<lparr>ddrv := x\<rparr>"
    have ok: "Dpll_Registry.wf ?s" "xa_load (pin_xa ?s) p = Some pin"
      "\<forall>ir \<in> set refs. settable env setf ?s (snd ir)"
      using Cons.prems(3-5) by simp_all
    show ?thesis
    proof (rule Cons.IH [OF _ _ ok])
      fix y
      assume "set_each env setf p v refs ?s = Some (None, ?s\<lparr>ddrv := y\<rparr>)"
        "answers (map (setter env setf ?s p v \<circ> snd) refs) (ddrv ?s) = (replicate (length refs) None, y)"
      then show thesis using Cons.prems(1) [of y] one c None by (simp add: o_def)
    next
      fix pre ir' post e y
      assume "refs = pre @ ir' # post"
        "set_each env setf p v refs ?s = Some (Some (e, fst ir'), ?s\<lparr>ddrv := y\<rparr>)"
        "answers (map (setter env setf ?s p v \<circ> snd) (pre @ [ir'])) (ddrv ?s) = (replicate (length pre) None @ [Some e], y)"
      then show thesis using Cons.prems(2) [of "ir # pre" ir' post e y] one c None by (simp add: o_def)
    qed
  qed
qed

lemma set_back_calls:
  assumes "Dpll_Registry.wf s" and "xa_load (pin_xa s) p = Some pin"
    and "\<forall>ir \<in> set pre. settable env setf s (snd ir) \<and> fst ir \<noteq> failed"
  shows "set_back env setf p old failed (pre @ (failed, ref) # post) s =
    Some (s\<lparr>ddrv := snd (answers (map (setter env setf s p old \<circ> snd) pre) (ddrv s))\<rparr>)"
  using assms
proof (induction pre arbitrary: s)
  case (Cons ir pre)
  have "settable env setf s (snd ir)" using Cons.prems(3) by simp
  note one = set_on_calls [OF Cons.prems(1,2) this, of old]
  obtain r x where c: "setter env setf s p old (snd ir) (ddrv s) = (r, x)" by (metis surj_pair)
  have ok: "Dpll_Registry.wf (s\<lparr>ddrv := x\<rparr>)" "xa_load (pin_xa (s\<lparr>ddrv := x\<rparr>)) p = Some pin"
    "\<forall>ir \<in> set pre. settable env setf (s\<lparr>ddrv := x\<rparr>) (snd ir) \<and> fst ir \<noteq> failed"
    using Cons.prems by simp_all
  show ?case using Cons.IH [OF ok] Cons.prems(3) one c by (simp add: o_def split: prod.split)
qed simp

definition no_setter where
  "no_setter env getf setf pin \<longleftrightarrow>
     (\<exists>ir \<in> set (dpll_refs pin). setf (pin_table env (pr_ops (hd (ref_regs (snd ir))))) = None
        \<or> getf (pin_table env (pr_ops (hd (ref_regs (snd ir))))) = None)"

lemma set_on_all_calls:
  assumes wf: "Dpll_Registry.wf s" and ans: "answerable env s p" and p: "xa_load (pin_xa s) p = Some pin"
  shows "\<exists>r s'. set_on_all env getf setf p pin v s = Some (r, s')
    \<and> device_xa s' = device_xa s \<and> pin_xa s' = pin_xa s
    \<and> (if no_setter env getf setf pin then r = Some EOPNOTSUPP \<and> s' = s
       else case getter env getf s p (snd (hd (dpll_refs pin))) of
         Inl e \<Rightarrow> r = Some e \<and> s' = s
       | Inr old \<Rightarrow>
           if old = v then r = None \<and> s' = s
           else (r = None \<and> answers (map (setter env setf s p v \<circ> snd) (dpll_refs pin)) (ddrv s) = (replicate (length (dpll_refs pin)) None, ddrv s'))
             \<or> (\<exists>pre ir post e undos. dpll_refs pin = pre @ ir # post \<and> r = Some e \<and> ntfs s' = ntfs s
                  \<and> length undos = length pre
                  \<and> answers (map (setter env setf s p v \<circ> snd) (pre @ [ir]) @ map (setter env setf s p old \<circ> snd) pre) (ddrv s)
                      = (replicate (length pre) None @ [Some e] @ undos, ddrv s')))"
    (is "\<exists>r s'. ?run = Some (r, s') \<and> ?good r s'")
proof -
  let ?refs = "dpll_refs pin"
  let ?P = "\<lambda>ops. setf ops \<noteq> None \<and> getf ops \<noteq> None"
  note ref = answerable_ref [OF wf ans p]
  have none: "no_setter env getf setf pin \<longleftrightarrow> \<not> (\<forall>ir \<in> set ?refs. ?P (pin_table env (pr_ops (hd (ref_regs (snd ir))))))"
    by (auto simp: no_setter_def)
  have have_eq: "ops_have env ?P ?refs = (if no_setter env getf setf pin then Err EOPNOTSUPP else Ok ())"
    unfolding none using ops_have_eq [of ?refs env ?P] ref(2) by (simp split: if_split)
  show ?thesis
  proof (cases "no_setter env getf setf pin")
    case True
    then have "?run = Some (Some EOPNOTSUPP, s)"
      by (simp only: set_on_all_def attempt_def have_eq if_True res.case)
    then show ?thesis using True by simp
  next
    case False
    note able = False [unfolded none not_not]
    have settable: "\<forall>ir \<in> set ?refs. settable env setf s (snd ir)"
      using able ref by (simp add: settable_def)
    obtain i fst_ref rest where refs: "?refs = (i, fst_ref) # rest"
      using ans p by (cases ?refs) (auto simp: answerable_def)
    then have mem: "(i, fst_ref) \<in> set ?refs" by simp
    note r1 = ref [OF mem, simplified]
    obtain pp dp where priv: "dpll_pin_on_dpll_priv s (ref_obj fst_ref) p = Ok pp" "dpll_priv s (ref_obj fst_ref) = Ok dp"
      using live_reads [OF wf r1(1) p] .
    let ?ops = "pin_table env (pr_ops (hd (ref_regs fst_ref)))"
    obtain g where g: "getf ?ops = Some g" using able mem by fastforce
    let ?set = "set_each env setf p v ?refs s"
    let ?rest = "\<lambda>w. case ?set of None \<Rightarrow> None
       | Some (None, s1) \<Rightarrow> change_ntf env p s1
       | Some (Some (e, failed), s1) \<Rightarrow>
           (case set_back env setf p w failed ?refs s1 of None \<Rightarrow> None | Some s2 \<Rightarrow> Some (Some e, s2))"
    have first: "snd (hd ?refs) = fst_ref" by (simp add: refs)
    have get: "getter env getf s p fst_ref = g p pp (ref_obj fst_ref) dp (ddrv s)"
      by (simp add: getter_def g priv)
    have run: "?run = (case getter env getf s p fst_ref of
        Inl e \<Rightarrow> Some (Some e, s) | Inr w \<Rightarrow> if v = w then Some (None, s) else ?rest w)"
      unfolding set_on_all_def have_eq if_not_P [OF False] get
      by (simp add: attempt_def dpll_xa_ref_dpll_first_def refs ref_ops [OF r1(2)] priv call_get_def g split: sum.split)
    show ?thesis
    proof (cases "getter env getf s p fst_ref")
      case (Inl e)
      then show ?thesis using run False first by simp
    next
      case (Inr old)
      show ?thesis
      proof (cases "old = v")
        case True
        then show ?thesis using run Inr False first by simp
      next
        case new: False
        with run Inr have run: "?run = ?rest old" by simp
        from wf p settable show ?thesis
        proof (cases rule: set_each_calls [where v = v])
          case (all x)
          obtain s' where "change_ntf env p (s\<lparr>ddrv := x\<rparr>) = Some (None, s')" "same_objects (s\<lparr>ddrv := x\<rparr>) s'"
            using change_ntf_runs [of "s\<lparr>ddrv := x\<rparr>" env p] wf ans by auto
          then show ?thesis using run all Inr False first new by (simp add: same_objects_def)
        next
          case (some pre ir post e x)
          have "xa_ok ?refs" using wf p by (auto simp: wf_def refs_inv_def)
          then have before: "\<forall>jr \<in> set pre. settable env setf (s\<lparr>ddrv := x\<rparr>) (snd jr) \<and> fst jr \<noteq> fst ir"
            using some(1) settable xa_ok_unique [of pre ir post] by simp
          obtain undos y where b: "answers (map (setter env setf s p old \<circ> snd) pre) x = (undos, y)" by (metis surj_pair)
          have "set_back env setf p old (fst ir) ?refs (s\<lparr>ddrv := x\<rparr>) = Some (s\<lparr>ddrv := y\<rparr>)"
            using set_back_calls [OF _ _ before, where pin = pin and ref = "snd ir" and post = post] wf p some(1) b
            by simp
          then have done_it: "?run = Some (Some e, s\<lparr>ddrv := y\<rparr>)" using run some(2) by simp
          have "length undos = length pre" using b answers_length [of "map (setter env setf s p old \<circ> snd) pre" x] by simp
          moreover have "answers (map (setter env setf s p v \<circ> snd) (pre @ [ir]) @ map (setter env setf s p old \<circ> snd) pre) (ddrv s)
              = (replicate (length pre) None @ [Some e] @ undos, y)"
            unfolding answers_append [of "map (setter env setf s p v \<circ> snd) (pre @ [ir])"] some(3) by (simp add: b)
          ultimately have "?good (Some e) (s\<lparr>ddrv := y\<rparr>)"
            unfolding first Inr if_not_P [OF False] sum.case if_not_P [OF new]
            by (intro conjI disjI2 exI [of _ pre] exI [of _ ir] exI [of _ post] exI [of _ e] exI [of _ undos])
              (simp_all add: some(1))
          with done_it show ?thesis by blast
        qed
      qed
    qed
  qed
qed

text \<open>
  C13: Setting the frequency of a pin in service (its devices registered, its parents live, \<open>answerable\<close>) always returns and
  changes no device and no pin, whatever the drivers answer. An unsupported frequency, a driver without the two callbacks, an
  error of the first driver's getter, and the frequency the pin already has end the request before any driver is
  told. Otherwise the setters are called with the new frequency in the order of the references until one fails. When none
  fails the result is 0; when one fails, its error is the result, no notification is sent, and each setter
  that had succeeded, and no other, is called once more, in the same order and with the old frequency, even when one of these calls fails too.
\<close>

theorem freq_set_sets_or_rolls_back:
  assumes "Dpll_Registry.wf s" and "answerable env s p" and "xa_load (pin_xa s) p = Some pin"
  shows "\<exists>r s'. dpll_pin_freq_set env p freq s = Some (r, s')
    \<and> device_xa s' = device_xa s \<and> pin_xa s' = pin_xa s
    \<and> (if \<not> dpll_pin_is_freq_supported pin (ucast freq) then r = Some EINVAL \<and> s' = s
       else if no_setter env frequency_get frequency_set pin then r = Some EOPNOTSUPP \<and> s' = s
       else case getter env frequency_get s p (snd (hd (dpll_refs pin))) of
         Inl e \<Rightarrow> r = Some e \<and> s' = s
       | Inr old \<Rightarrow>
           if old = freq then r = None \<and> s' = s
           else (r = None \<and> answers (map (setter env frequency_set s p freq \<circ> snd) (dpll_refs pin)) (ddrv s) = (replicate (length (dpll_refs pin)) None, ddrv s'))
             \<or> (\<exists>pre ir post e undos. dpll_refs pin = pre @ ir # post \<and> r = Some e \<and> ntfs s' = ntfs s
                  \<and> length undos = length pre
                  \<and> answers (map (setter env frequency_set s p freq \<circ> snd) (pre @ [ir]) @ map (setter env frequency_set s p old \<circ> snd) pre) (ddrv s)
                      = (replicate (length pre) None @ [Some e] @ undos, ddrv s')))"
proof (cases "dpll_pin_is_freq_supported pin (ucast freq)")
  case True
  then show ?thesis
    using set_on_all_calls [OF assms(1-3), of frequency_get frequency_set freq]
    by (simp only: dpll_pin_freq_set_def assms(3) option.case if_True if_False not_True_eq_False)
next
  case False
  then show ?thesis by (simp add: dpll_pin_freq_set_def assms(3))
qed

lemma two_first:
  "dpll_pin_is_freq_supported two_pin (ucast (20 :: u64))" "\<not> no_setter (two_env True) frequency_get frequency_set two_pin"
  "getter (two_env True) frequency_get two_sys 5 (snd (hd (dpll_refs two_pin))) = Inr 10"
  "(10 :: u64) \<noteq> 20"
  by (simp_all add: dpll_pin_is_freq_supported_def no_setter_def getter_def dpll_pin_on_dpll_priv_def dpll_priv_def
      the_dev_def the_pin_def dpll_device_registration_first_def dpll_pin_registration_first_def xa_load_def two_defs)

lemma two_setter:
  assumes "d = 3 \<or> d = 4"
  shows "setter (two_env True) frequency_set two_sys 5 f \<lparr>ref_obj = d, ref_regs = [two_reg], ref_count = Suc 0\<rparr> x =
    (if d = 4 \<and> f \<noteq> 10 then (Some EBUSY, x) else (None, (fst x)(d := f), snd x))"
  using assms
  by (auto simp: setter_def dpll_pin_on_dpll_priv_def dpll_priv_def
      the_dev_def the_pin_def dpll_device_registration_first_def dpll_pin_registration_first_def xa_load_def two_defs)

lemma two_state: "ddrv two_sys = (\<lambda>_. 10, \<lambda>_. 0)" "(\<lambda>_. 10)(3 := 10) = (\<lambda>_. 10 :: u64)"
  by (auto simp: two_sys_def)

lemma freq_set_sets_or_rolls_back_witness:
  "\<exists>s'. dpll_pin_freq_set (two_env True) 5 20 two_sys = Some (Some EBUSY, s') \<and> ddrv s' = ddrv two_sys \<and> ntfs s' = []"
proof -
  have refs: "dpll_refs two_pin = [(3, \<lparr>ref_obj = 3, ref_regs = [two_reg], ref_count = 1\<rparr>),
      (4, \<lparr>ref_obj = 4, ref_regs = [two_reg], ref_count = 1\<rparr>)]" by (simp add: two_pin_def)
  obtain r s' where run: "dpll_pin_freq_set (two_env True) 5 20 two_sys = Some (r, s')"
    and one: "r = None \<and> answers (map (setter (two_env True) frequency_set two_sys 5 20 \<circ> snd) (dpll_refs two_pin)) (ddrv two_sys)
          = (replicate (length (dpll_refs two_pin)) None, ddrv s')
      \<or> (\<exists>pre ir post e undos. dpll_refs two_pin = pre @ ir # post \<and> r = Some e \<and> ntfs s' = ntfs two_sys
                  \<and> length undos = length pre
                  \<and> answers (map (setter (two_env True) frequency_set two_sys 5 20 \<circ> snd) (pre @ [ir])
                        @ map (setter (two_env True) frequency_set two_sys 5 10 \<circ> snd) pre) (ddrv two_sys)
                      = (replicate (length pre) None @ [Some e] @ undos, ddrv s'))"
    using freq_set_sets_or_rolls_back [OF two_wf two_answerable two_load, of True 20]
    unfolding two_first sum.case if_not_P [OF two_first(2)] if_not_P [OF two_first(4)]
      if_not_P [OF iffD2 [OF not_not two_first(1)]]
    by (elim exE conjE) (rule that; assumption)
  then obtain pre ir post e undos where w: "dpll_refs two_pin = pre @ ir # post" "r = Some e" "ntfs s' = ntfs two_sys"
    "answers (map (setter (two_env True) frequency_set two_sys 5 20 \<circ> snd) (pre @ [ir])
      @ map (setter (two_env True) frequency_set two_sys 5 10 \<circ> snd) pre) (ddrv two_sys)
     = (replicate (length pre) None @ [Some e] @ undos, ddrv s')"
    by (auto simp: refs two_setter)
  have "e = EBUSY \<and> ddrv s' = ddrv two_sys"
  proof (cases pre)
    case Nil
    then show ?thesis using w(1,4) by (auto simp: refs two_setter)
  next
    case (Cons q qs)
    then show ?thesis using w(1,4) by (cases qs) (auto simp: refs two_setter two_state)
  qed
  then show ?thesis using run w(2,3) by (simp add: two_sys_def)
qed



text \<open>The same holds for the phase adjustment of a pin.\<close>

theorem phase_adj_set_all_or_nothing:
  assumes "Dpll_Registry.wf s" and "answerable env s p" and "xa_load (pin_xa s) p = Some pin"
    and "honest_value env phase_adjust_get phase_adjust_set p val"
    and "accepted env phase_adjust_set p old"
    and "\<forall>ir \<in> set (dpll_refs pin). val (ddrv s) (ref_obj (snd ir)) = old"
  shows "\<exists>r s'. dpll_pin_phase_adj_set env p adj s = Some (r, s')
    \<and> device_xa s' = device_xa s \<and> pin_xa s' = pin_xa s
    \<and> val (ddrv s') = (if r = None then on_all (dpll_refs pin) adj (val (ddrv s)) else val (ddrv s))"
  using set_on_all_runs [OF assms, of adj] by (simp add: dpll_pin_phase_adj_set_def assms(3))

lemma phase_adj_set_all_or_nothing_witness:
  "\<exists>r s'. dpll_pin_phase_adj_set (two_env True) 5 3 two_sys = Some (r, s')
     \<and> snd (ddrv s') 3 = snd (ddrv s') 4"
  using phase_adj_set_all_or_nothing [OF two_wf two_answerable two_load two_honest(3,4), of True 3]
  by (auto simp: two_defs on_all_def)

section \<open>The check of a frequency\<close>

text \<open>
  The check of a frequency against the supported ranges sees only its low 32 bits: a pin
  that supports 1 Hz to 20 Hz accepts 4294967297 Hz and hands it to every driver.
\<close>

theorem freq_check_truncates:
  "\<exists>s'. dpll_pin_freq_set (two_env False) 5 (2 ^ 32 + 1) two_sys = Some (None, s')
     \<and> fst (ddrv s') 3 = 2 ^ 32 + 1 \<and> fst (ddrv s') 4 = 2 ^ 32 + 1
     \<and> freq_supported (pin_prop two_pin) = [\<lparr>f_min = 1, f_max = 20\<rparr>]"
  by (simp add: dpll_pin_freq_set_def set_on_all_def dpll_pin_is_freq_supported_def attempt_def
      set_on_def call_set_def change_ntf_def dpll_pin_change_ntf_def dpll_pin_event_send_def
      dpll_pin_available_def pin_marked_def dev_marked_def xa_load_def two_defs message_defs xa_empty_def Let_def)

section \<open>Capabilities\<close>

definition changes_value :: "pin_attr \<Rightarrow> bool" where
  "changes_value a = (case a of A_frequency _ \<Rightarrow> True | A_phase_adjust _ \<Rightarrow> True | _ \<Rightarrow> False)"

lemma set_on_device_incapable:
  "xa_load (pin_xa s) p = Some pin \<Longrightarrow> capabilities (pin_prop pin) = 0 \<Longrightarrow>
     set_on_device env capability setf d p v s = Some (Some EOPNOTSUPP, s)"
  by (simp add: set_on_device_def)

lemma set_attr_incapable:
  assumes "xa_load (pin_xa s) p = Some pin" and "capabilities (pin_prop pin) = 0" and "\<not> changes_value a"
  shows "\<exists>r. set_attr env p a s = Some (r, s)"
proof (cases a)
  case (A_parent_device tb)
  then show ?thesis
    using assms
    by (auto simp: set_attr_def dpll_pin_parent_device_set_def opt_set_def dpll_pin_state_set_def
        dpll_pin_prio_set_def dpll_pin_direction_set_def set_on_device_incapable split: option.split)
next
  case (A_parent_pin tb)
  then show ?thesis
    using assms
    by (auto simp: set_attr_def dpll_pin_parent_pin_set_def opt_set_def dpll_pin_on_pin_state_set_def
        split: option.split)
qed (use assms(3) in \<open>simp_all add: set_attr_def changes_value_def\<close>)

text \<open>
  A pin whose driver declared no capability cannot be changed on any of its parents: a
  request with any number of parent attributes, valid or not, always returns and leaves
  everything, the drivers included, as it was.
\<close>

theorem incapable_pin_unchanged:
  assumes "xa_load (pin_xa s) p = Some pin" and "capabilities (pin_prop pin) = 0"
    and "\<forall>a \<in> set attrs. \<not> changes_value a"
  shows "\<exists>r. dpll_nl_pin_set_doit env p attrs s = Some (r, s)"
  using assms(3) unfolding dpll_nl_pin_set_doit_def
proof (induction attrs)
  case (Cons a attrs)
  then obtain r where "set_attr env p a s = Some (r, s)"
    using set_attr_incapable [OF assms(1,2), of a env] by auto
  then show ?case using Cons by (cases r) auto
qed simp

lemma incapable_pin_unchanged_witness:
  "\<exists>r. dpll_nl_pin_set_doit (two_env False) 5
     [A_parent_device \<lparr>a_parent_id = Some 3, a_state = Some 1, a_prio = Some 2, a_direction = Some 1\<rparr>]
     two_sys = Some (r, two_sys)"
  by (rule incapable_pin_unchanged [OF two_load]) (simp_all add: two_pin_def changes_value_def)

end
