(* ===== verification/Dpll_Query.thy ===== *)
theory Dpll_Query
  imports Dpll_Set
begin

text \<open>
  The requests of \<open>dpll/dpll_netlink.c\<close> that look objects up and report them, and the brackets
  around every request. A reply is the message handed to \<open>genlmsg_reply\<close>; what the socket does
  with it is not modelled. The arrays are walked in index order.
\<close>

section \<open>Finding an object\<close>

text \<open>A walk that looks for the only match: \<open>-EINVAL\<close> on a second one, \<open>-ENODEV\<close> without any.\<close>

primrec only_match :: "('a \<Rightarrow> bool) \<Rightarrow> 'a xarray \<Rightarrow> nat option \<Rightarrow> errno + nat" where
  "only_match P [] found = (case found of None \<Rightarrow> Inl ENODEV | Some i \<Rightarrow> Inr i)"
| "only_match P (ix # xs) found =
     (if P (snd ix)
      then (if found \<noteq> None then Inl EINVAL else only_match P xs (Some (fst ix)))
      else only_match P xs found)"

text \<open>The labels of the request against those of the pin; an absent attribute matches.\<close>

definition label_match :: "string option \<Rightarrow> string option \<Rightarrow> bool" where
  "label_match attr label =
     (case attr of None \<Rightarrow> True | Some a \<Rightarrow> (case label of None \<Rightarrow> False | Some l \<Rightarrow> a = l))"

record find_args =
  fa_clock_id :: u64
  fa_module :: "string option"
  fa_type :: nat
  fa_board :: "string option"
  fa_panel :: "string option"
  fa_package :: "string option"

definition no_args :: find_args where
  "no_args = \<lparr>fa_clock_id = 0, fa_module = None, fa_type = 0, fa_board = None, fa_panel = None,
              fa_package = None\<rparr>"

text \<open>Clock 0 and type 0 stand for an attribute that is not there.\<close>

definition pin_matches :: "'d dpll_env \<Rightarrow> find_args \<Rightarrow> dpll_pin \<Rightarrow> bool" where
  "pin_matches env fa pin \<longleftrightarrow>
     (fa_clock_id fa = 0 \<or> p_clock_id pin = fa_clock_id fa)
   \<and> (case fa_module fa of None \<Rightarrow> True | Some a \<Rightarrow> a = mod_name env (p_module pin))
   \<and> (fa_type fa = 0 \<or> pp_type (pin_prop pin) = fa_type fa)
   \<and> label_match (fa_board fa) (board_label (pin_prop pin))
   \<and> label_match (fa_panel fa) (panel_label (pin_prop pin))
   \<and> label_match (fa_package fa) (package_label (pin_prop pin))"

definition dpll_pin_find :: "'d dpll_env \<Rightarrow> find_args \<Rightarrow> 'd dpll_sys \<Rightarrow> errno + nat" where
  "dpll_pin_find env fa s =
     only_match (\<lambda>pin. p_registered pin \<and> pin_matches env fa pin) (pin_xa s) None"

text \<open>A repeated attribute is refused; clock 0 and type 0 are not remembered.\<close>

primrec pin_find_args :: "pin_attr list \<Rightarrow> find_args \<Rightarrow> find_args option" where
  "pin_find_args [] fa = Some fa"
| "pin_find_args (a # as) fa =
     (case a of
        A_clock_id c \<Rightarrow>
          if fa_clock_id fa \<noteq> 0 then None else pin_find_args as (fa\<lparr>fa_clock_id := c\<rparr>)
      | A_module_name n \<Rightarrow>
          if fa_module fa \<noteq> None then None else pin_find_args as (fa\<lparr>fa_module := Some n\<rparr>)
      | A_type t \<Rightarrow>
          if fa_type fa \<noteq> 0 then None else pin_find_args as (fa\<lparr>fa_type := t\<rparr>)
      | A_board_label l \<Rightarrow>
          if fa_board fa \<noteq> None then None else pin_find_args as (fa\<lparr>fa_board := Some l\<rparr>)
      | A_panel_label l \<Rightarrow>
          if fa_panel fa \<noteq> None then None else pin_find_args as (fa\<lparr>fa_panel := Some l\<rparr>)
      | A_package_label l \<Rightarrow>
          if fa_package fa \<noteq> None then None else pin_find_args as (fa\<lparr>fa_package := Some l\<rparr>)
      | _ \<Rightarrow> pin_find_args as fa)"

definition dpll_pin_find_from_nlattr ::
    "'d dpll_env \<Rightarrow> pin_attr list \<Rightarrow> 'd dpll_sys \<Rightarrow> errno + nat" where
  "dpll_pin_find_from_nlattr env attrs s =
     (case pin_find_args attrs no_args of
        None \<Rightarrow> Inl EINVAL
      | Some fa \<Rightarrow>
          if fa_clock_id fa = 0 \<and> fa_module fa = None \<and> fa_board fa = None \<and> fa_panel fa = None
             \<and> fa_package fa = None
          then Inl EINVAL
          else dpll_pin_find env fa s)"

datatype device_attr =
    D_clock_id u64
  | D_module_name string
  | D_type nat
  | D_other

definition device_matches :: "'d dpll_env \<Rightarrow> find_args \<Rightarrow> dpll_device \<Rightarrow> bool" where
  "device_matches env fa dpll \<longleftrightarrow>
     (fa_clock_id fa = 0 \<or> d_clock_id dpll = fa_clock_id fa)
   \<and> (case fa_module fa of None \<Rightarrow> True | Some a \<Rightarrow> a = mod_name env (d_module dpll))
   \<and> (fa_type fa = 0 \<or> d_type dpll = fa_type fa)"

definition dpll_device_find :: "'d dpll_env \<Rightarrow> find_args \<Rightarrow> 'd dpll_sys \<Rightarrow> errno + nat" where
  "dpll_device_find env fa s =
     only_match (\<lambda>dpll. d_registered dpll \<and> device_matches env fa dpll) (device_xa s) None"

primrec device_find_args :: "device_attr list \<Rightarrow> find_args \<Rightarrow> find_args option" where
  "device_find_args [] fa = Some fa"
| "device_find_args (a # as) fa =
     (case a of
        D_clock_id c \<Rightarrow>
          if fa_clock_id fa \<noteq> 0 then None else device_find_args as (fa\<lparr>fa_clock_id := c\<rparr>)
      | D_module_name n \<Rightarrow>
          if fa_module fa \<noteq> None then None else device_find_args as (fa\<lparr>fa_module := Some n\<rparr>)
      | D_type t \<Rightarrow>
          if fa_type fa \<noteq> 0 then None else device_find_args as (fa\<lparr>fa_type := t\<rparr>)
      | D_other \<Rightarrow> device_find_args as fa)"

definition dpll_device_find_from_nlattr ::
    "'d dpll_env \<Rightarrow> device_attr list \<Rightarrow> 'd dpll_sys \<Rightarrow> errno + nat" where
  "dpll_device_find_from_nlattr env attrs s =
     (case device_find_args attrs no_args of
        None \<Rightarrow> Inl EINVAL
      | Some fa \<Rightarrow>
          if fa_clock_id fa = 0 \<and> fa_module fa = None \<and> fa_type fa = 0 then Inl EINVAL
          else dpll_device_find env fa s)"

section \<open>Replies\<close>

text \<open>Allocating a message and putting the header of a reply into it.\<close>

definition new_reply :: "'d dpll_env \<Rightarrow> dpll_cmd \<Rightarrow> msg res" where
  "new_reply env cmd =
     (if \<not> msg_mem env then Err ENOMEM
      else if \<not> fits env [] (Cmd cmd) then Err EMSGSIZE
      else Ok [Cmd cmd])"

text \<open>A lookup that fails, for whatever reason, is answered by a message without a handle.\<close>

definition dpll_nl_pin_id_get_doit ::
    "'d dpll_env \<Rightarrow> pin_attr list \<Rightarrow> 'd dpll_sys \<Rightarrow> msg res" where
  "dpll_nl_pin_id_get_doit env attrs s =
     andthen (new_reply env DPLL_CMD_PIN_ID_GET) (\<lambda>m.
     case dpll_pin_find_from_nlattr env attrs s of
       Inl _ \<Rightarrow> Ok m
     | Inr p \<Rightarrow>
         if \<not> dpll_pin_available s p then Err ENODEV
         else dpll_msg_add_pin_handle env (Some p) m)"

definition dpll_nl_device_id_get_doit ::
    "'d dpll_env \<Rightarrow> device_attr list \<Rightarrow> 'd dpll_sys \<Rightarrow> msg res" where
  "dpll_nl_device_id_get_doit env attrs s =
     andthen (new_reply env DPLL_CMD_DEVICE_ID_GET) (\<lambda>m.
     case dpll_device_find_from_nlattr env attrs s of
       Inl _ \<Rightarrow> Ok m
     | Inr d \<Rightarrow> dpll_msg_add_dev_handle env d m)"

text \<open>The object is the one the bracket of the request has found.\<close>

definition dpll_nl_pin_get_doit :: "'d dpll_env \<Rightarrow> nat option \<Rightarrow> 'd dpll_sys \<Rightarrow> msg res" where
  "dpll_nl_pin_get_doit env pin s =
     (case pin of
        None \<Rightarrow> Err ENODEV
      | Some p \<Rightarrow> andthen (new_reply env DPLL_CMD_PIN_GET) (dpll_cmd_pin_get_one env s p))"

definition dpll_nl_device_get_doit :: "'d dpll_env \<Rightarrow> nat \<Rightarrow> 'd dpll_sys \<Rightarrow> msg res" where
  "dpll_nl_device_get_doit env d s =
     andthen (new_reply env DPLL_CMD_DEVICE_GET) (dpll_device_get_one env s d)"

definition dpll_nl_device_set_doit :: "'d dpll_sys \<Rightarrow> ret \<times> 'd dpll_sys" where
  "dpll_nl_device_set_doit s = (None, s)"

section \<open>Dumps\<close>

text \<open>
  A dump fills one buffer after the other. The walk stops at the first object that does not fit
  or fails, takes back what it had begun to put, and gives the error with the index.
\<close>

primrec dump_walk ::
    "'d dpll_env \<Rightarrow> dpll_cmd \<Rightarrow> (nat \<Rightarrow> bool) \<Rightarrow> (nat \<Rightarrow> msg \<Rightarrow> msg res) \<Rightarrow> 'a xarray \<Rightarrow> msg
       \<Rightarrow> ((errno \<times> nat) option \<times> msg) option" where
  "dump_walk env cmd wanted build [] m = Some (None, m)"
| "dump_walk env cmd wanted build (ix # xs) m =
     (if \<not> wanted (fst ix) then dump_walk env cmd wanted build xs m
      else if \<not> fits env m (Cmd cmd) then Some (Some (EMSGSIZE, fst ix), m)
      else (case build (fst ix) (m @ [Cmd cmd]) of
              Fault \<Rightarrow> None
            | Err e \<Rightarrow> Some (Some (e, fst ix), m)
            | Ok m' \<Rightarrow> dump_walk env cmd wanted build xs m'))"

text \<open>
  One call of a dump handler: where the last one stopped (\<open>ctx->idx\<close>) goes in and out; the result is
  an error, or the length of the buffer if there is more to come, or 0.
\<close>

definition dump_result ::
    "nat \<Rightarrow> ((errno \<times> nat) option \<times> msg) option \<Rightarrow> ((errno + nat) \<times> nat \<times> msg) option" where
  "dump_result ctx r =
     (case r of
        None \<Rightarrow> None
      | Some (None, m) \<Rightarrow> Some (Inr 0, ctx, m)
      | Some (Some (e, i), m) \<Rightarrow>
          if e = EMSGSIZE then Some (Inr (length m), i, m) else Some (Inl e, ctx, m))"

definition dpll_nl_pin_get_dumpit ::
    "'d dpll_env \<Rightarrow> 'd dpll_sys \<Rightarrow> nat \<Rightarrow> msg \<Rightarrow> ((errno + nat) \<times> nat \<times> msg) option" where
  "dpll_nl_pin_get_dumpit env s ctx skb =
     dump_result ctx (dump_walk env DPLL_CMD_PIN_GET (dpll_pin_available s) (dpll_cmd_pin_get_one env s)
       (filter (\<lambda>ip. ctx \<le> fst ip \<and> p_registered (snd ip)) (pin_xa s)) skb)"

definition dpll_nl_device_get_dumpit ::
    "'d dpll_env \<Rightarrow> 'd dpll_sys \<Rightarrow> nat \<Rightarrow> msg \<Rightarrow> ((errno + nat) \<times> nat \<times> msg) option" where
  "dpll_nl_device_get_dumpit env s ctx skb =
     dump_result ctx (dump_walk env DPLL_CMD_DEVICE_GET (\<lambda>_. True) (dpll_device_get_one env s)
       (filter (\<lambda>id. ctx \<le> fst id \<and> d_registered (snd id)) (device_xa s)) skb)"

text \<open>
  The netlink core calls a dump handler with an empty buffer until it returns 0 or an error, and
  delivers every buffer. The first argument bounds the number of calls.
\<close>

primrec netlink_dump ::
    "nat \<Rightarrow> (nat \<Rightarrow> msg \<Rightarrow> ((errno + nat) \<times> nat \<times> msg) option) \<Rightarrow> nat \<Rightarrow> ((errno + nat) \<times> msg list) option"
  where
  "netlink_dump 0 f ctx = None"
| "netlink_dump (Suc n) f ctx =
     (case f ctx [] of
        None \<Rightarrow> None
      | Some (Inl e, _, m) \<Rightarrow> Some (Inl e, [m])
      | Some (Inr 0, _, m) \<Rightarrow> Some (Inr 0, [m])
      | Some (Inr (Suc k), ctx', m) \<Rightarrow>
          (case netlink_dump n f ctx' of None \<Rightarrow> None | Some (r, ms) \<Rightarrow> Some (r, m # ms)))"

section \<open>The brackets around a request\<close>

text \<open>
  \<open>dpll_lock\<close> is the number of times it is held; a request starts and ends with it free.
\<close>

definition mutex_lock :: "nat \<Rightarrow> nat" where "mutex_lock l = Suc l"
definition mutex_unlock :: "nat \<Rightarrow> nat" where "mutex_unlock l = l - 1"

definition dpll_pre_doit :: "nat option \<Rightarrow> 'd dpll_sys \<Rightarrow> nat \<Rightarrow> (errno + nat) \<times> nat" where
  "dpll_pre_doit attr_id s l =
     (case attr_id of
        None \<Rightarrow> (Inl EINVAL, l)
      | Some i \<Rightarrow>
          (let l = mutex_lock l in
           case dpll_device_get_by_id s i of
             None \<Rightarrow> (Inl ENODEV, mutex_unlock l)
           | Some d \<Rightarrow> (Inr d, l)))"

definition dpll_post_doit :: "nat \<Rightarrow> nat" where
  "dpll_post_doit l = mutex_unlock l"

definition dpll_lock_doit :: "nat \<Rightarrow> ret \<times> nat" where
  "dpll_lock_doit l = (None, mutex_lock l)"

definition dpll_unlock_doit :: "nat \<Rightarrow> nat" where
  "dpll_unlock_doit l = mutex_unlock l"

definition dpll_pin_pre_doit :: "nat option \<Rightarrow> 'd dpll_sys \<Rightarrow> nat \<Rightarrow> (errno + nat) \<times> nat" where
  "dpll_pin_pre_doit attr_id s l =
     (let l = mutex_lock l in
      case attr_id of
        None \<Rightarrow> (Inl EINVAL, mutex_unlock l)
      | Some i \<Rightarrow>
          if xa_load (pin_xa s) i = None \<or> \<not> dpll_pin_available s i
          then (Inl ENODEV, mutex_unlock l)
          else (Inr i, l))"

definition dpll_pin_post_doit :: "nat \<Rightarrow> nat" where
  "dpll_pin_post_doit l = mutex_unlock l"

text \<open>The requests as the table of operations composes them.\<close>

definition pin_get_request :: "'d dpll_env \<Rightarrow> nat option \<Rightarrow> 'd dpll_sys \<Rightarrow> nat \<Rightarrow> msg res \<times> nat" where
  "pin_get_request env attr_id s l =
     (case dpll_pin_pre_doit attr_id s l of
        (Inl e, l') \<Rightarrow> (Err e, l')
      | (Inr p, l') \<Rightarrow> (dpll_nl_pin_get_doit env (Some p) s, dpll_pin_post_doit l'))"

definition pin_set_request ::
    "'d dpll_env \<Rightarrow> nat option \<Rightarrow> pin_attr list \<Rightarrow> 'd dpll_sys \<Rightarrow> nat \<Rightarrow> (ret \<times> 'd dpll_sys \<times> nat) option"
  where
  "pin_set_request env attr_id attrs s l =
     (case dpll_pin_pre_doit attr_id s l of
        (Inl e, l') \<Rightarrow> Some (Some e, s, l')
      | (Inr p, l') \<Rightarrow>
          (case dpll_nl_pin_set_doit env p attrs s of
             None \<Rightarrow> None
           | Some (r, s') \<Rightarrow> Some (r, s', dpll_pin_post_doit l')))"

definition device_get_request :: "'d dpll_env \<Rightarrow> nat option \<Rightarrow> 'd dpll_sys \<Rightarrow> nat \<Rightarrow> msg res \<times> nat" where
  "device_get_request env attr_id s l =
     (case dpll_pre_doit attr_id s l of
        (Inl e, l') \<Rightarrow> (Err e, l')
      | (Inr d, l') \<Rightarrow> (dpll_nl_device_get_doit env d s, dpll_post_doit l'))"

end
