(* ===== verification/Dpll_Dump.thy ===== *)
theory Dpll_Dump
  imports Dpll_Requests
begin

text \<open>
  Dumps are complete. The interface is the locale \<open>message_source\<close>: a builder that appends; from
  it follows that a dump delivers the message of every wanted object once and in order, however
  the buffers cut it. It is interpreted on the builders of pins and of devices.
\<close>

definition message_of :: "dpll_cmd \<Rightarrow> (nat \<Rightarrow> msg \<Rightarrow> msg res) \<Rightarrow> nat \<Rightarrow> msg" where
  "message_of cmd build i = (case build i [Cmd cmd] of Ok m \<Rightarrow> m | _ \<Rightarrow> [])"

text \<open>The message of an object can be built and fits into a buffer of its own.\<close>

definition deliverable :: "'d dpll_env \<Rightarrow> dpll_cmd \<Rightarrow> (nat \<Rightarrow> msg \<Rightarrow> msg res) \<Rightarrow> nat \<Rightarrow> bool" where
  "deliverable env cmd build i \<longleftrightarrow> fits env [] (Cmd cmd) \<and> (\<exists>m. build i [Cmd cmd] = Ok m)"

locale message_source =
  fixes build :: "nat \<Rightarrow> msg \<Rightarrow> msg res"
  assumes build_appends: "appends (build i)"
begin

lemma build_after:
  assumes "deliverable env cmd build i"
  shows "(build i (m @ [Cmd cmd]) = Ok (m @ message_of cmd build i) \<or> build i (m @ [Cmd cmd]) = Err EMSGSIZE)
    \<and> message_of cmd build i \<noteq> []"
proof -
  obtain m0 where m0: "build i [Cmd cmd] = Ok m0"
    using assms by (auto simp: deliverable_def)
  then obtain b where b: "\<And>m. build i m = Ok (m @ b) \<or> build i m = Err EMSGSIZE"
    using build_appends [of i] by (auto simp: appends_def)
  have "m0 = [Cmd cmd] @ b" using b [of "[Cmd cmd]"] m0 by auto
  then show ?thesis using b [of "m @ [Cmd cmd]"] m0 by (auto simp: message_of_def)
qed

lemma walk_cases:
  assumes "\<forall>ix \<in> set xs. wanted (fst ix) \<longrightarrow> deliverable env cmd build (fst ix)"
  obtains
    (finished) "dump_walk env cmd wanted build xs m
      = Some (None, m @ concat (map (message_of cmd build) (filter wanted (map fst xs))))"
  | (full) pre ix post where "xs = pre @ ix # post" "m = [] \<Longrightarrow> filter wanted (map fst pre) \<noteq> []"
      "dump_walk env cmd wanted build xs m = Some (Some (EMSGSIZE, fst ix),
         m @ concat (map (message_of cmd build) (filter wanted (map fst pre))))"
  using assms
proof (induction xs arbitrary: m thesis)
  case Nil
  then show ?case by simp
next
  case (Cons ix xs)
  have rest: "\<forall>ix \<in> set xs. wanted (fst ix) \<longrightarrow> deliverable env cmd build (fst ix)"
    using Cons.prems(3) by simp
  show ?case
  proof (cases "wanted (fst ix)")
    case False
    show ?thesis
    proof (rule Cons.IH [OF _ _ rest, of m])
      assume "dump_walk env cmd wanted build xs m
        = Some (None, m @ concat (map (message_of cmd build) (filter wanted (map fst xs))))"
      then show thesis using Cons.prems(1) False by simp
    next
      fix pre jx post
      assume "xs = pre @ jx # post" "m = [] \<Longrightarrow> filter wanted (map fst pre) \<noteq> []"
        "dump_walk env cmd wanted build xs m = Some (Some (EMSGSIZE, fst jx),
           m @ concat (map (message_of cmd build) (filter wanted (map fst pre))))"
      then show thesis using Cons.prems(2) [of "ix # pre" jx post] False by simp
    qed
  next
    case True
    note d = Cons.prems(3) [rule_format, of ix, simplified, OF True]
    let ?b = "message_of cmd build (fst ix)"
    show ?thesis
    proof (cases "fits env m (Cmd cmd) \<and> build (fst ix) (m @ [Cmd cmd]) = Ok (m @ ?b)")
      case False
      have "m \<noteq> []"
      proof
        assume "m = []"
        then show False using False d by (auto simp: deliverable_def message_of_def)
      qed
      moreover have "dump_walk env cmd wanted build (ix # xs) m = Some (Some (EMSGSIZE, fst ix), m)"
        using True False build_after [OF d, of m] by auto
      ultimately show thesis using Cons.prems(2) [of "[]" ix xs] by simp
    next
      case ok: True
      have ne: "?b \<noteq> []" using build_after [OF d] by blast
      show ?thesis
      proof (rule Cons.IH [OF _ _ rest, of "m @ ?b"])
        assume "dump_walk env cmd wanted build xs (m @ ?b)
          = Some (None, (m @ ?b) @ concat (map (message_of cmd build) (filter wanted (map fst xs))))"
        then show thesis using Cons.prems(1) True ok by simp
      next
        fix pre jx post
        assume "xs = pre @ jx # post"
          "dump_walk env cmd wanted build xs (m @ ?b) = Some (Some (EMSGSIZE, fst jx),
             (m @ ?b) @ concat (map (message_of cmd build) (filter wanted (map fst pre))))"
        then show thesis using Cons.prems(2) [of "ix # pre" jx post] True ok by simp
      qed
    qed
  qed
qed

lemma messages_nonempty:
  "\<forall>i \<in> set is. deliverable env cmd build i \<Longrightarrow> is \<noteq> [] \<Longrightarrow> concat (map (message_of cmd build) is) \<noteq> []"
  using build_after [of env cmd] by (cases "is") auto

lemma dump_complete:
  assumes "sorted_wrt (<) (map fst table)"
    and "\<forall>ix \<in> set table. wanted (fst ix) \<longrightarrow> deliverable env cmd build (fst ix)"
    and "xs = filter (\<lambda>ix. ctx \<le> fst ix \<and> marked (snd ix)) table" and "length xs < n"
  shows "\<exists>ms. netlink_dump n (\<lambda>ctx skb. dump_result ctx (dump_walk env cmd wanted build
         (filter (\<lambda>ix. ctx \<le> fst ix \<and> marked (snd ix)) table) skb)) ctx = Some (Inr 0, ms)
    \<and> concat ms = concat (map (message_of cmd build) (filter wanted (map fst xs)))"
  using assms(3,4)
proof (induction n arbitrary: ctx xs)
  case (Suc n)
  have del: "\<forall>ix \<in> set xs. wanted (fst ix) \<longrightarrow> deliverable env cmd build (fst ix)"
    using assms(2) Suc.prems(1) by simp
  from del show ?case
  proof (cases rule: walk_cases [where m = "[]"])
    case finished
    then show ?thesis using Suc.prems(1) by (simp add: dump_result_def)
  next
    case (full pre ix post)
    let ?ids = "filter wanted (map fst pre)"
    have srt: "sorted_wrt (<) (map fst xs)"
      using assms(1) by (simp add: Suc.prems(1) sorted_wrt_map sorted_wrt_filter)
    have "ix \<in> set xs" by (simp add: full(1))
    then have ix: "ctx \<le> fst ix" by (simp add: Suc.prems(1))
    have "filter (\<lambda>jx. fst ix \<le> fst jx \<and> marked (snd jx)) table = filter (\<lambda>jx. fst ix \<le> fst jx) xs"
      unfolding Suc.prems(1) filter_filter by (rule filter_cong) (use ix in auto)
    also have "\<dots> = ix # post"
    proof -
      have "\<forall>jx \<in> set pre. fst jx < fst ix" "\<forall>jx \<in> set post. fst ix < fst jx"
        using srt by (simp_all add: full(1) sorted_wrt_append)
      then have "filter (\<lambda>jx. fst ix \<le> fst jx) pre = []" "filter (\<lambda>jx. fst ix \<le> fst jx) post = post"
        by (auto simp: filter_empty_conv filter_id_conv)
      then show ?thesis by (simp add: full(1))
    qed
    finally have next_xs: "ix # post = filter (\<lambda>jx. fst ix \<le> fst jx \<and> marked (snd jx)) table" ..
    have "pre \<noteq> []" using full(2) by auto
    then have "length (ix # post) < n" using full(1) Suc.prems(2) by (cases pre) auto
    then obtain ms where ms: "netlink_dump n (\<lambda>ctx skb. dump_result ctx (dump_walk env cmd wanted build
         (filter (\<lambda>ix. ctx \<le> fst ix \<and> marked (snd ix)) table) skb)) (fst ix) = Some (Inr 0, ms)"
      "concat ms = concat (map (message_of cmd build) (filter wanted (map fst (ix # post))))"
      using Suc.IH [OF next_xs] by blast
    have "concat (map (message_of cmd build) ?ids) \<noteq> []"
      using messages_nonempty [of ?ids env cmd] del full(1,2) by auto
    then obtain k where k: "length (concat (map (message_of cmd build) ?ids)) = Suc k"
      by (metis length_0_conv not0_implies_Suc)
    then show ?thesis
      using full(1,3) ms Suc.prems(1) by (simp add: dump_result_def)
  qed
qed simp

end

interpretation pin_source: message_source "dpll_cmd_pin_get_one env s"
  by unfold_locales (rule appends_pin_get_one)

interpretation device_source: message_source "dpll_device_get_one env s"
  by unfold_locales (rule appends_device_get_one)

text \<open>
  C16: Dumping the pins ends after at most one call per pin and one more, without an error, and
  what user space has received is the message of every available pin, each once and in the
  order of the identifiers, however the messages were spread over the buffers. Each message
  fits into a buffer alone.
\<close>

theorem pin_dump_complete:
  assumes "xa_ok (pin_xa s)"
    and "\<forall>p. dpll_pin_available s p \<longrightarrow> deliverable env DPLL_CMD_PIN_GET (dpll_cmd_pin_get_one env s) p"
  shows "\<exists>ms. netlink_dump (Suc (length (pin_xa s))) (dpll_nl_pin_get_dumpit env s) 0 = Some (Inr 0, ms)
    \<and> concat ms = concat (map (message_of DPLL_CMD_PIN_GET (dpll_cmd_pin_get_one env s))
        (filter (dpll_pin_available s) (map fst (pin_xa s))))"
proof -
  have srt: "sorted_wrt (<) (map fst (pin_xa s))" using assms(1) by (simp add: xa_ok_def)
  let ?xs = "filter (\<lambda>ip. 0 \<le> fst ip \<and> p_registered (snd ip)) (pin_xa s)"
  have "p_registered pin" if "(p, pin) \<in> set (pin_xa s)" "dpll_pin_available s p" for p pin
    using that xa_load_in [OF assms(1), of p pin] by (simp add: dpll_pin_available_def split: if_splits)
  then have "filter (dpll_pin_available s) (map fst ?xs) = filter (dpll_pin_available s) (map fst (pin_xa s))"
    by (auto simp: filter_map intro!: arg_cong [where f = "map fst"] filter_cong)
  moreover have "length ?xs < Suc (length (pin_xa s))" by (simp add: less_Suc_eq_le)
  ultimately show ?thesis
    using pin_source.dump_complete [OF srt _ refl, of "dpll_pin_available s" env DPLL_CMD_PIN_GET env s 0 p_registered
        "Suc (length (pin_xa s))"] assms(2)
    unfolding dpll_nl_pin_get_dumpit_def [abs_def] by simp
qed

lemma pin_dump_complete_witness:
  "\<exists>ms. netlink_dump 2 (dpll_nl_pin_get_dumpit (two_env False) two_sys) 0 = Some (Inr 0, ms)
     \<and> length (concat ms) > 0"
proof -
  have ok: "xa_ok (pin_xa two_sys)" by (simp add: two_sys_def xa_ok_def)
  have "p = 5" if "dpll_pin_available two_sys p" for p
    using that by (auto simp: dpll_pin_available_def two_sys_def xa_load_def split: if_splits)
  moreover have del: "deliverable (two_env False) DPLL_CMD_PIN_GET (dpll_cmd_pin_get_one (two_env False) two_sys) 5"
    by (simp add: deliverable_def two_defs message_defs xa_load_def xa_empty_def Let_def)
  ultimately have all: "\<forall>p. dpll_pin_available two_sys p \<longrightarrow>
      deliverable (two_env False) DPLL_CMD_PIN_GET (dpll_cmd_pin_get_one (two_env False) two_sys) p" by blast
  have "dpll_pin_available two_sys 5"
    by (simp add: dpll_pin_available_def dev_marked_def two_sys_def two_pin_def two_dev_def xa_load_def)
  moreover have "message_of DPLL_CMD_PIN_GET (dpll_cmd_pin_get_one (two_env False) two_sys) 5 \<noteq> []"
    using pin_source.build_after [OF del] by blast
  moreover have eqs: "map fst (pin_xa two_sys) = [5]" "Suc (length (pin_xa two_sys)) = 2"
    by (simp_all add: two_sys_def)
  moreover obtain ms where "netlink_dump 2 (dpll_nl_pin_get_dumpit (two_env False) two_sys) 0 = Some (Inr 0, ms)"
    "concat ms = concat (map (message_of DPLL_CMD_PIN_GET (dpll_cmd_pin_get_one (two_env False) two_sys))
        (filter (dpll_pin_available two_sys) [5]))"
    using pin_dump_complete [OF ok all] unfolding eqs by blast
  ultimately show ?thesis
    by (intro exI [of _ ms]) simp
qed

end
