(* ===== verification/Nsim_Ubx.thy ===== *)
theory Nsim_Ubx
  imports Prelude
begin

text \<open>
  The UBX protocol of the simulated GNSS receiver, \<open>netdevsim/dpll.c\<close>: checksum, frames, and the
  messages the receiver sends. A buffer is a list of bytes; a builder returns the bytes it has
  written or \<open>-ENOSPC\<close>. Every message is compared with the bytes it has to consist of.
\<close>

unbundle bit_operations_syntax

section \<open>Bytes\<close>

definition ascii :: "string \<Rightarrow> u8 list" where
  "ascii s = map of_char s"

text \<open>Little-endian bytes, and the number that four of them are.\<close>

definition ubx_put_le32 :: "u32 \<Rightarrow> u8 list" where
  "ubx_put_le32 val =
     [ucast (val AND 0xFF), ucast (drop_bit 8 val AND 0xFF), ucast (drop_bit 16 val AND 0xFF),
      ucast (drop_bit 24 val AND 0xFF)]"

definition ubx_get_le32 :: "u8 \<Rightarrow> u8 \<Rightarrow> u8 \<Rightarrow> u8 \<Rightarrow> u32" where
  "ubx_get_le32 b0 b1 b2 b3 =
     ucast b0 OR push_bit 8 (ucast b1) OR push_bit 16 (ucast b2) OR push_bit 24 (ucast b3)"

text \<open>Writing bytes into a buffer at an offset.\<close>

definition put_at :: "nat \<Rightarrow> u8 list \<Rightarrow> u8 list \<Rightarrow> u8 list" where
  "put_at i bs buf = take i buf @ bs @ drop (i + length bs) buf"

text \<open>\<open>strscpy\<close>: at most \<open>n - 1\<close> characters and a terminating zero.\<close>

definition strscpy_at :: "nat \<Rightarrow> string \<Rightarrow> nat \<Rightarrow> u8 list \<Rightarrow> u8 list" where
  "strscpy_at i s n buf = put_at i (take (n - 1) (ascii s) @ [0]) buf"

section \<open>Frames\<close>

definition UBX_SYNC1 :: u8 where "UBX_SYNC1 = 0xB5"
definition UBX_SYNC2 :: u8 where "UBX_SYNC2 = 0x62"
definition UBX_HDR_LEN :: nat where "UBX_HDR_LEN = 6"
definition UBX_CK_LEN :: nat where "UBX_CK_LEN = 2"
definition UBX_OVERHEAD :: nat where "UBX_OVERHEAD = UBX_HDR_LEN + UBX_CK_LEN"

definition UBX_CLASS_NAV :: u8 where "UBX_CLASS_NAV = 0x01"
definition UBX_CLASS_ACK :: u8 where "UBX_CLASS_ACK = 0x05"
definition UBX_CLASS_CFG :: u8 where "UBX_CLASS_CFG = 0x06"
definition UBX_CLASS_MON :: u8 where "UBX_CLASS_MON = 0x0A"

definition UBX_NAV_STATUS :: u8 where "UBX_NAV_STATUS = 0x03"
definition UBX_NAV_CLOCK :: u8 where "UBX_NAV_CLOCK = 0x22"
definition UBX_ACK_ACK :: u8 where "UBX_ACK_ACK = 0x01"
definition UBX_CFG_MSG :: u8 where "UBX_CFG_MSG = 0x01"
definition UBX_CFG_CFG :: u8 where "UBX_CFG_CFG = 0x09"
definition UBX_CFG_VALSET :: u8 where "UBX_CFG_VALSET = 0x8A"
definition UBX_MON_VER :: u8 where "UBX_MON_VER = 0x04"
definition UBX_MON_HW :: u8 where "UBX_MON_HW = 0x09"

definition UBX_NAV_STATUS_LEN :: nat where "UBX_NAV_STATUS_LEN = 16"
definition UBX_NAV_CLOCK_LEN :: nat where "UBX_NAV_CLOCK_LEN = 20"
definition UBX_ACK_ACK_LEN :: nat where "UBX_ACK_ACK_LEN = 2"
definition UBX_MON_HW_LEN :: nat where "UBX_MON_HW_LEN = 60"
definition UBX_MON_VER_SW_LEN :: nat where "UBX_MON_VER_SW_LEN = 30"
definition UBX_MON_VER_HW_LEN :: nat where "UBX_MON_VER_HW_LEN = 10"
definition UBX_MON_VER_EXT_LEN :: nat where "UBX_MON_VER_EXT_LEN = 30"
definition UBX_MON_VER_PAYLOAD_LEN :: nat where
  "UBX_MON_VER_PAYLOAD_LEN = UBX_MON_VER_SW_LEN + UBX_MON_VER_HW_LEN + UBX_MON_VER_EXT_LEN"

lemmas ubx_consts =
  UBX_SYNC1_def UBX_SYNC2_def UBX_HDR_LEN_def UBX_CK_LEN_def UBX_OVERHEAD_def UBX_NAV_STATUS_LEN_def
  UBX_NAV_CLOCK_LEN_def UBX_ACK_ACK_LEN_def UBX_MON_HW_LEN_def UBX_MON_VER_SW_LEN_def
  UBX_MON_VER_HW_LEN_def UBX_MON_VER_EXT_LEN_def UBX_MON_VER_PAYLOAD_LEN_def

lemmas ubx_ids =
  UBX_CLASS_NAV_def UBX_CLASS_ACK_def UBX_CLASS_CFG_def UBX_CLASS_MON_def UBX_NAV_STATUS_def
  UBX_NAV_CLOCK_def UBX_ACK_ACK_def UBX_CFG_MSG_def UBX_CFG_CFG_def UBX_CFG_VALSET_def
  UBX_MON_VER_def UBX_MON_HW_def

text \<open>The two running sums of the checksum.\<close>

primrec checksum_from :: "u8 list \<Rightarrow> u8 \<times> u8 \<Rightarrow> u8 \<times> u8" where
  "checksum_from [] ab = ab"
| "checksum_from (d # ds) ab = checksum_from ds (fst ab + d, snd ab + (fst ab + d))"

definition ubx_checksum :: "u8 list \<Rightarrow> u8 \<times> u8" where
  "ubx_checksum data = checksum_from data (0, 0)"

text \<open>The length parameter of a frame has 16 bits.\<close>

definition ubx_build_frame :: "nat \<Rightarrow> u8 \<Rightarrow> u8 \<Rightarrow> u8 list \<Rightarrow> 16 word \<Rightarrow> errno + u8 list" where
  "ubx_build_frame bufsz cls mid payload payload_len =
     (if bufsz < UBX_OVERHEAD + unat payload_len then Inl ENOSPC
      else
        (let body = [cls, mid, ucast (payload_len AND 0xFF), ucast (drop_bit 8 payload_len AND 0xFF)]
                    @ take (unat payload_len) payload;
             (ck_a, ck_b) = ubx_checksum body
         in Inr ([UBX_SYNC1, UBX_SYNC2] @ body @ [ck_a, ck_b])))"

section \<open>Messages\<close>

definition UBX_LEAP_SECONDS :: u64 where "UBX_LEAP_SECONDS = 18"
definition UBX_GPS_EPOCH_UNIX :: u64 where "UBX_GPS_EPOCH_UNIX = 315964800"
definition UBX_SECS_PER_WEEK :: u64 where "UBX_SECS_PER_WEEK = 604800"

text \<open>The millisecond of the GPS week, from the real-time clock.\<close>

definition ubx_get_itow :: "timespec64 \<Rightarrow> u32" where
  "ubx_get_itow ts =
     (let gps_secs = word_of_int (tv_sec ts) + UBX_LEAP_SECONDS - UBX_GPS_EPOCH_UNIX;
          secs_in_week = ucast (gps_secs mod UBX_SECS_PER_WEEK)
      in secs_in_week * 1000 + word_of_int (tv_nsec ts div 1000000))"

definition ubx_build_mon_ver :: "nat \<Rightarrow> errno + u8 list" where
  "ubx_build_mon_ver bufsz =
     (let payload = strscpy_at (UBX_MON_VER_SW_LEN + UBX_MON_VER_HW_LEN) ''PROTVER=29.20'' UBX_MON_VER_EXT_LEN
                     (strscpy_at UBX_MON_VER_SW_LEN ''00190000'' UBX_MON_VER_HW_LEN
                     (strscpy_at 0 ''SIM 1.00 (000000)'' UBX_MON_VER_SW_LEN
                     (replicate UBX_MON_VER_PAYLOAD_LEN 0)))
      in ubx_build_frame bufsz UBX_CLASS_MON UBX_MON_VER payload (of_nat UBX_MON_VER_PAYLOAD_LEN))"

definition ubx_build_mon_hw :: "nat \<Rightarrow> errno + u8 list" where
  "ubx_build_mon_hw bufsz =
     (let payload = (replicate UBX_MON_HW_LEN 0)[20 := 0x02, 21 := 0x02, 22 := 0x00]
      in ubx_build_frame bufsz UBX_CLASS_MON UBX_MON_HW payload (of_nat UBX_MON_HW_LEN))"

definition ubx_build_ack :: "nat \<Rightarrow> u8 \<Rightarrow> u8 \<Rightarrow> errno + u8 list" where
  "ubx_build_ack bufsz acked_cls acked_id =
     ubx_build_frame bufsz UBX_CLASS_ACK UBX_ACK_ACK [acked_cls, acked_id] (of_nat UBX_ACK_ACK_LEN)"

definition ubx_build_nav_status :: "timespec64 \<Rightarrow> nat \<Rightarrow> u8 \<Rightarrow> errno + u8 list" where
  "ubx_build_nav_status now bufsz gps_fix =
     (let payload = put_at 12 (ubx_put_le32 60000) (put_at 8 (ubx_put_le32 1000)
            ((put_at 0 (ubx_put_le32 (ubx_get_itow now)) (replicate UBX_NAV_STATUS_LEN 0))
             [4 := gps_fix, 5 := (if gps_fix \<ge> 2 then 0x0D else 0x00), 6 := 0x00, 7 := 0x08]))
      in ubx_build_frame bufsz UBX_CLASS_NAV UBX_NAV_STATUS payload (of_nat UBX_NAV_STATUS_LEN))"

definition ubx_build_nav_clock :: "timespec64 \<Rightarrow> nat \<Rightarrow> u8 \<Rightarrow> errno + u8 list" where
  "ubx_build_nav_clock now bufsz gps_fix =
     (let t_acc = (if gps_fix \<ge> 2 then 10 else 999999);
          payload = put_at 16 (ubx_put_le32 10) (put_at 12 (ubx_put_le32 t_acc)
            (put_at 8 (ubx_put_le32 0) (put_at 4 (ubx_put_le32 0)
            (put_at 0 (ubx_put_le32 (ubx_get_itow now)) (replicate UBX_NAV_CLOCK_LEN 0)))))
      in ubx_build_frame bufsz UBX_CLASS_NAV UBX_NAV_CLOCK payload (of_nat UBX_NAV_CLOCK_LEN))"

section \<open>The checksum\<close>

text \<open>The reference: the sum of the bytes, and their sum weighted by the distance from the end.\<close>

definition plain_sum :: "u8 list \<Rightarrow> u8" where
  "plain_sum ds = sum_list ds"

primrec weighted_sum :: "u8 list \<Rightarrow> u8" where
  "weighted_sum [] = 0"
| "weighted_sum (d # ds) = of_nat (Suc (length ds)) * d + weighted_sum ds"

lemma checksum_from_eq:
  "checksum_from ds (a, b) = (a + plain_sum ds, b + of_nat (length ds) * a + weighted_sum ds)"
  by (induction ds arbitrary: a b) (simp_all add: plain_sum_def algebra_simps)

text \<open>
  C17: The checksum computed in one pass with two running sums is the sum of the bytes and
  their sum weighted by their distance from the end, modulo 256.
\<close>

theorem checksum_closed_form:
  "ubx_checksum data = (sum_list data, (\<Sum>i < length data. of_nat (length data - i) * data ! i))"
proof -
  have "weighted_sum ds = (\<Sum>i < length ds. of_nat (length ds - i) * ds ! i)" for ds
    by (induction ds) (simp_all add: sum.lessThan_Suc_shift del: sum.lessThan_Suc of_nat_diff)
  then show ?thesis by (simp add: ubx_checksum_def checksum_from_eq plain_sum_def)
qed

section \<open>The bytes of a message\<close>

lemma byte_of: "(ucast (x AND 0xFF) :: u8) = ucast (x :: 'a::len word)"
proof -
  have ff: "(0xFF :: 'a word) = mask 8" by (simp add: mask_eq_exp_minus_1)
  show ?thesis
    unfolding ff by (intro bit_word_eqI) (auto simp: bit_simps dest: bit_imp_le_length)
qed

lemma unat_byte: "unat (ucast (x :: 'a::len word) :: u8) = unat x mod 256"
  by (simp add: unsigned_ucast_eq unsigned_take_bit_eq take_bit_eq_mod)

lemma unat_shift: "unat (drop_bit n (x :: 'a::len word)) = unat x div 2 ^ n"
  by (simp add: unsigned_drop_bit_eq take_bit_nat_eq_self flip: drop_bit_eq_div)

lemma len_bytes:
  "unat (ucast (len AND 0xFF) :: u8) + 256 * unat (ucast (drop_bit 8 len AND 0xFF) :: u8) = unat (len :: 16 word)"
proof -
  have "unat len < 2 ^ 16" using unsigned_less [of len] by simp
  then show ?thesis by (simp add: byte_of unat_byte unat_shift)
qed

text \<open>
  A frame as the protocol defines it: two sync bytes, class, identifier, the length of the payload with its low byte first,
  the payload, and the sum and the weighted sum of all bytes from the class on.
\<close>

definition ubx_frame :: "u8 \<Rightarrow> u8 \<Rightarrow> u8 list \<Rightarrow> u8 list" where
  "ubx_frame cls mid payload =
     (let body = [cls, mid, of_nat (length payload mod 256), of_nat (length payload div 256)] @ payload
      in [0xB5, 0x62] @ body @ [sum_list body, (\<Sum>i < length body. of_nat (length body - i) * body ! i)])"

text \<open>The four bytes of a number, the low one first.\<close>

definition bytes4 :: "int \<Rightarrow> u8 list" where
  "bytes4 k = [word_of_int k, word_of_int (k div 256), word_of_int (k div 65536), word_of_int (k div 16777216)]"

lemma checksum_sums:
  "checksum_from data (0, 0) = (sum_list data, (\<Sum>i < length data. of_nat (length data - i) * data ! i))"
proof -
  have "weighted_sum ds = (\<Sum>i < length ds. of_nat (length ds - i) * ds ! i)" for ds
    by (induction ds) (simp_all add: sum.lessThan_Suc_shift del: sum.lessThan_Suc of_nat_diff)
  then show ?thesis by (simp add: checksum_from_eq plain_sum_def)
qed

lemma build_frame_eq:
  assumes "length payload = n" and "n < 2 ^ 16" and "UBX_OVERHEAD + n \<le> bufsz"
  shows "ubx_build_frame bufsz cls mid payload (of_nat n) = Inr (ubx_frame cls mid payload)"
proof -
  have len: "unat (of_nat n :: 16 word) = n" using assms(2) by (simp add: unsigned_of_nat take_bit_eq_mod)
  have low: "ucast (of_nat n AND 0xFF :: 16 word) = (of_nat (n mod 256) :: u8)"
    using assms(2) by (simp add: word_unat_eq_iff byte_of unat_byte len unsigned_of_nat take_bit_eq_mod)
  have high: "ucast (drop_bit 8 (of_nat n) AND 0xFF :: 16 word) = (of_nat (n div 256) :: u8)"
    using assms(2) by (simp add: word_unat_eq_iff byte_of unat_byte unat_shift len unsigned_of_nat take_bit_eq_mod)
  show ?thesis
    unfolding ubx_build_frame_def len low high ubx_checksum_def checksum_sums
    using assms by (simp add: ubx_frame_def UBX_SYNC1_def UBX_SYNC2_def Let_def)
qed

lemma ubx_lens:
  "UBX_MON_VER_PAYLOAD_LEN = 70" "UBX_MON_HW_LEN = 60" "UBX_ACK_ACK_LEN = 2" "UBX_NAV_STATUS_LEN = 16"
  "UBX_NAV_CLOCK_LEN = 20" "UBX_MON_VER_SW_LEN = 30" "UBX_MON_VER_HW_LEN = 10" "UBX_MON_VER_EXT_LEN = 30"
  by (simp_all add: ubx_consts)

lemma put_le32_bytes:
  "ubx_put_le32 v = bytes4 (uint v)"
proof -
  have v: "take_bit 32 (uint v) = uint v" using uint_bounded [of v] by (simp add: take_bit_int_eq_self)
  have "ucast (drop_bit m v) = (word_of_int (uint v div 2 ^ m) :: u8)" for m
    by (simp add: word_uint_eq_iff uint_word_of_int_eq unsigned_ucast_eq unsigned_drop_bit_eq v) (simp add: drop_bit_eq_div)
  from this [of 0] this [of 8] this [of 16] this [of 24] show ?thesis
    by (simp add: ubx_put_le32_def byte_of bytes4_def)
qed

lemma put_at_length [simp]: "i + length bs \<le> length buf \<Longrightarrow> length (put_at i bs buf) = length buf"
  by (simp add: put_at_def)

lemma le32_length [simp]: "length (ubx_put_le32 v) = 4"
  by (simp add: ubx_put_le32_def)

lemma strscpy_length [simp]:
  "i + n \<le> length buf \<Longrightarrow> 0 < n \<Longrightarrow> length (strscpy_at i s n buf) = length buf"
  by (simp add: strscpy_at_def)

section \<open>The time of week\<close>

lemma uint_of_int: "0 \<le> k \<Longrightarrow> k < 2 ^ LENGTH('a) \<Longrightarrow> uint (word_of_int k :: 'a::len word) = k"
  by (simp add: uint_word_of_int take_bit_int_eq_self)

lemma itow_range:
  "0 \<le> w \<Longrightarrow> w < 604800 \<Longrightarrow> 0 \<le> m \<Longrightarrow> m < 1000 \<Longrightarrow>
     0 \<le> w * 1000 + m \<and> w * 1000 + m < (2 :: int) ^ LENGTH(32)"
  by simp

text \<open>
  From the GPS epoch on, the time of week in the messages is the exact number of
  milliseconds since the start of the GPS week, leap seconds included.
\<close>

lemma itow_value:
  assumes "315964782 \<le> tv_sec ts" and "tv_sec ts < 2 ^ 62" and "0 \<le> tv_nsec ts" and "tv_nsec ts < 1000000000"
  shows "uint (ubx_get_itow ts) = (tv_sec ts - 315964782) mod 604800 * 1000 + tv_nsec ts div 1000000"
proof -
  let ?s = "tv_sec ts - 315964782"
  have "word_of_int (tv_sec ts) + UBX_LEAP_SECONDS - UBX_GPS_EPOCH_UNIX = (word_of_int ?s :: u64)"
    by (simp add: UBX_LEAP_SECONDS_def UBX_GPS_EPOCH_UNIX_def)
  moreover have "uint (word_of_int ?s :: u64) = ?s"
    by (rule uint_of_int) (use assms in simp_all)
  moreover have "uint UBX_SECS_PER_WEEK = 604800" by (simp add: UBX_SECS_PER_WEEK_def)
  ultimately have "uint ((word_of_int (tv_sec ts) + UBX_LEAP_SECONDS - UBX_GPS_EPOCH_UNIX) mod UBX_SECS_PER_WEEK) = ?s mod 604800"
    by (simp only: uint_mod)
  then have "((word_of_int (tv_sec ts) + UBX_LEAP_SECONDS - UBX_GPS_EPOCH_UNIX) mod UBX_SECS_PER_WEEK)
      = word_of_int (?s mod 604800)"
    by (metis word_of_int_uint)
  moreover have "ucast (word_of_int (?s mod 604800) :: u64) = (word_of_int (?s mod 604800) :: u32)"
  proof -
    have "uint (word_of_int (?s mod 604800) :: u64) = ?s mod 604800"
      by (rule uint_of_int) (simp_all add: order.strict_trans [OF pos_mod_bound])
    then show ?thesis by (metis of_int_uint)
  qed
  ultimately have "ubx_get_itow ts = word_of_int (?s mod 604800 * 1000 + tv_nsec ts div 1000000)"
    by (simp add: ubx_get_itow_def Let_def)
  moreover have "0 \<le> ?s mod 604800" "?s mod 604800 < 604800" by simp_all
  moreover have "0 \<le> tv_nsec ts div 1000000" "tv_nsec ts div 1000000 < 1000"
    using assms(3,4) zdiv_mono1 [of "tv_nsec ts" 999999999 1000000] by (simp_all add: pos_imp_zdiv_nonneg_iff)
  ultimately show ?thesis
    by (metis (no_types, lifting) itow_range uint_of_int)
qed

section \<open>The messages\<close>

text \<open>
  C18: Every message of the receiver, byte by byte. The version has the three strings in their fields of 30, 10 and 30
  bytes; the hardware status reports a good antenna; an acknowledgement names the class and the identifier; the navigation
  status has the exact millisecond of the GPS week, the fix, its flags, and two times; the clock has the same time, no
  bias, and the accuracy that belongs to the fix. Each is in a frame whose length and checksum are
  right, and fits the buffers the driver gives it. The system clock is taken to be past the GPS epoch.
\<close>

theorem messages_exact:
  assumes "315964782 \<le> tv_sec now" and "tv_sec now < 2 ^ 62" and "0 \<le> tv_nsec now" and "tv_nsec now < 1000000000"
    and itow: "itow = (tv_sec now - 315964782) mod 604800 * 1000 + tv_nsec now div 1000000"
  shows "ubx_build_mon_ver 78 = Inr (ubx_frame 0x0A 0x04
       (ascii ''SIM 1.00 (000000)'' @ replicate 13 0 @ ascii ''00190000'' @ replicate 2 0 @ ascii ''PROTVER=29.20'' @ replicate 17 0))
    \<and> ubx_build_mon_hw 78 = Inr (ubx_frame 0x0A 0x09 (replicate 20 0 @ [2, 2] @ replicate 38 0))
    \<and> ubx_build_ack 78 c i = Inr (ubx_frame 0x05 0x01 [c, i])
    \<and> (28 \<le> bufsz \<longrightarrow>
         ubx_build_nav_status now bufsz gps_fix = Inr (ubx_frame 0x01 0x03
           (bytes4 itow @ [gps_fix, if gps_fix \<ge> 2 then 0x0D else 0, 0, 8] @ bytes4 1000 @ bytes4 60000))
         \<and> ubx_build_nav_clock now bufsz gps_fix = Inr (ubx_frame 0x01 0x22
           (bytes4 itow @ bytes4 0 @ bytes4 0 @ bytes4 (if gps_fix \<ge> 2 then 10 else 999999) @ bytes4 10)))"
proof -
  have now: "ubx_put_le32 (ubx_get_itow now) = bytes4 itow"
    unfolding put_le32_bytes itow itow_value [OF assms(1-4)] ..
  have le32: "ubx_put_le32 1000 = bytes4 1000" "ubx_put_le32 60000 = bytes4 60000" "ubx_put_le32 0 = bytes4 0"
    "ubx_put_le32 10 = bytes4 10" "ubx_put_le32 (if gps_fix \<ge> 2 then 10 else 999999) = bytes4 (if gps_fix \<ge> 2 then 10 else 999999)"
    by (simp_all add: put_le32_bytes)
  have "ubx_build_mon_ver 78 = Inr (ubx_frame 0x0A 0x04
       (ascii ''SIM 1.00 (000000)'' @ replicate 13 0 @ ascii ''00190000'' @ replicate 2 0 @ ascii ''PROTVER=29.20'' @ replicate 17 0))"
  proof -
    have "strscpy_at 40 ''PROTVER=29.20'' 30 (strscpy_at 30 ''00190000'' 10 (strscpy_at 0 ''SIM 1.00 (000000)'' 30 (replicate 70 0)))
        = ascii ''SIM 1.00 (000000)'' @ replicate 13 0 @ ascii ''00190000'' @ replicate 2 0 @ ascii ''PROTVER=29.20'' @ replicate 17 0"
      by (simp add: strscpy_at_def put_at_def ascii_def eval_nat_numeral)
    then show ?thesis
      unfolding ubx_build_mon_ver_def Let_def ubx_lens
      by (subst build_frame_eq) (simp_all add: UBX_OVERHEAD_def UBX_HDR_LEN_def UBX_CK_LEN_def UBX_CLASS_MON_def UBX_MON_VER_def ascii_def)
  qed
  moreover have "ubx_build_mon_hw 78 = Inr (ubx_frame 0x0A 0x09 (replicate 20 0 @ [2, 2] @ replicate 38 0))"
  proof -
    have "(replicate 60 0)[20 := 0x02, 21 := 0x02, 22 := 0x00] = replicate 20 (0 :: u8) @ [2, 2] @ replicate 38 0"
      by (simp add: eval_nat_numeral)
    then show ?thesis
      unfolding ubx_build_mon_hw_def Let_def ubx_lens
      by (subst build_frame_eq) (simp_all add: UBX_OVERHEAD_def UBX_HDR_LEN_def UBX_CK_LEN_def UBX_CLASS_MON_def UBX_MON_HW_def)
  qed
  moreover have "ubx_build_ack 78 c i = Inr (ubx_frame 0x05 0x01 [c, i])"
    unfolding ubx_build_ack_def ubx_lens
    by (subst build_frame_eq) (simp_all add: UBX_OVERHEAD_def UBX_HDR_LEN_def UBX_CK_LEN_def UBX_CLASS_ACK_def UBX_ACK_ACK_def)
  moreover have "ubx_build_nav_status now bufsz gps_fix = Inr (ubx_frame 0x01 0x03
      (bytes4 itow @ [gps_fix, if gps_fix \<ge> 2 then 0x0D else 0, 0, 8] @ bytes4 1000 @ bytes4 60000))" if "28 \<le> bufsz"
  proof -
    have "put_at 12 (bytes4 60000) (put_at 8 (bytes4 1000) ((put_at 0 (bytes4 itow) (replicate 16 0))
        [4 := gps_fix, 5 := (if gps_fix \<ge> 2 then 0x0D else 0x00), 6 := 0x00, 7 := 0x08]))
      = bytes4 itow @ [gps_fix, if gps_fix \<ge> 2 then 0x0D else 0, 0, 8] @ bytes4 1000 @ bytes4 60000"
      by (simp add: put_at_def bytes4_def eval_nat_numeral)
    then show ?thesis
      unfolding ubx_build_nav_status_def Let_def ubx_lens le32 now using that
      by (subst build_frame_eq) (simp_all add: UBX_OVERHEAD_def UBX_HDR_LEN_def UBX_CK_LEN_def UBX_CLASS_NAV_def UBX_NAV_STATUS_def bytes4_def)
  qed
  moreover have "ubx_build_nav_clock now bufsz gps_fix = Inr (ubx_frame 0x01 0x22
      (bytes4 itow @ bytes4 0 @ bytes4 0 @ bytes4 (if gps_fix \<ge> 2 then 10 else 999999) @ bytes4 10))" if "28 \<le> bufsz"
  proof -
    have payload: "put_at 16 (bytes4 10) (put_at 12 (bytes4 t) (put_at 8 (bytes4 0) (put_at 4 (bytes4 0) (put_at 0 (bytes4 itow) (replicate 20 0)))))
      = bytes4 itow @ bytes4 0 @ bytes4 0 @ bytes4 t @ bytes4 10" for t
      by (simp add: put_at_def bytes4_def eval_nat_numeral)
    show ?thesis
      unfolding ubx_build_nav_clock_def Let_def ubx_lens le32 now payload using that
      by (subst build_frame_eq) (simp_all add: UBX_OVERHEAD_def UBX_HDR_LEN_def UBX_CK_LEN_def UBX_CLASS_NAV_def UBX_NAV_CLOCK_def bytes4_def)
  qed
  ultimately show ?thesis by blast
qed

lemma bytes4_numerals:
  "bytes4 252818005 = [0x55, 0xB2, 0x11, 0x0F]" "bytes4 1000 = [0xE8, 3, 0, 0]" "bytes4 60000 = [0x60, 0xEA, 0, 0]"
  by (simp_all add: bytes4_def word_eq_iff_unsigned)

lemma messages_exact_witness:
  "ubx_build_nav_status \<lparr>tv_sec = 1700000000, tv_nsec = 5000000\<rparr> 28 3 = Inr (ubx_frame 0x01 0x03
     ([0x55, 0xB2, 0x11, 0x0F] @ [3, 0x0D, 0, 8] @ [0xE8, 3, 0, 0] @ [0x60, 0xEA, 0, 0]))"
  using messages_exact [of "\<lparr>tv_sec = 1700000000, tv_nsec = 5000000\<rparr>" 252818005 0 0 28 3]
  by (simp add: bytes4_numerals word_le_nat_alt)

end
