(* ===== verification/Nsim_Gnss.thy ===== *)
theory Nsim_Gnss
  imports Nsim_Ubx Dpll_Types
begin

text \<open>
  The simulated GNSS receiver and the lock status it drives, \<open>netdevsim/dpll.c\<close>: what user space
  writes to the receiver (NMEA sentences and UBX frames), the sysfs attribute, and the timers.
  A timer is the flag that it is armed; its callback runs when it is, and leaves it disarmed
  unless it restarts. The bytes given to the GNSS core are logged in order.
\<close>

section \<open>State\<close>

record nsim_dpll_pin =
  np_pin :: nat
  np_ns :: nat
  np_direction :: nat
  np_frequency :: u64

text \<open>
  \<open>struct nsim_dpll\<close>. Devices, pins and network devices are the numbers the cores know them by;
  \<open>port_pins\<close> is the list of the pointers to its entries. The private data of the fixed pins,
  which the structure embeds, are found in the memory of \<open>Nsim_Dpll\<close> by their addresses.
\<close>

record nsim_dpll =
  pps_dpll :: nat
  eec_dpll :: nat
  gnss_pin :: nat
  ext_pins :: "nat list"
  port_pins :: "nat list"
  clock_id :: u64
  gnss_dev :: bool
  ubx_timer :: bool
  ntf_timer :: bool
  holdover_timer :: bool
  ntf_work :: bool
  ubx_nav_enabled :: bool
  signal_blocked :: bool
  gnss_gps_fix :: u8
  lock_status :: nat
  sysfs_kobj :: bool
  gnss_out :: "u8 list list"

section \<open>Lock status\<close>

definition schedule_ntf_work :: "nsim_dpll \<Rightarrow> nsim_dpll" where
  "schedule_ntf_work n = n\<lparr>ntf_work := True\<rparr>"

definition nsim_dpll_set_lock_status :: "nat \<Rightarrow> nsim_dpll \<Rightarrow> nsim_dpll" where
  "nsim_dpll_set_lock_status status n =
     (if lock_status n = status then n else schedule_ntf_work (n\<lparr>lock_status := status\<rparr>))"

text \<open>The timer does not restart: it is disarmed when its callback runs.\<close>

definition nsim_dpll_holdover_timer_cb :: "nsim_dpll \<Rightarrow> nsim_dpll" where
  "nsim_dpll_holdover_timer_cb n =
     (let n = n\<lparr>holdover_timer := False\<rparr> in
      if lock_status n = DPLL_LOCK_STATUS_HOLDOVER \<and> (gnss_gps_fix n = 0 \<or> signal_blocked n)
      then nsim_dpll_set_lock_status DPLL_LOCK_STATUS_UNLOCKED n else n)"

definition nsim_dpll_enter_holdover :: "nsim_dpll \<Rightarrow> nsim_dpll" where
  "nsim_dpll_enter_holdover n =
     (let n = (if lock_status n \<noteq> DPLL_LOCK_STATUS_HOLDOVER
               then nsim_dpll_set_lock_status DPLL_LOCK_STATUS_HOLDOVER n else n)
      in n\<lparr>holdover_timer := True\<rparr>)"

definition nsim_dpll_enter_locked :: "nsim_dpll \<Rightarrow> nsim_dpll" where
  "nsim_dpll_enter_locked n =
     (let n = n\<lparr>holdover_timer := False\<rparr> in
      if lock_status n \<noteq> DPLL_LOCK_STATUS_LOCKED_HO_ACQ
      then nsim_dpll_set_lock_status DPLL_LOCK_STATUS_LOCKED_HO_ACQ n else n)"

definition nsim_dpll_lock_status_show :: "nsim_dpll \<Rightarrow> string" where
  "nsim_dpll_lock_status_show n =
     (if lock_status n = DPLL_LOCK_STATUS_LOCKED_HO_ACQ then ''locked'' @ [newline]
      else if lock_status n = DPLL_LOCK_STATUS_HOLDOVER then ''holdover'' @ [newline]
      else if lock_status n = DPLL_LOCK_STATUS_UNLOCKED then ''freerun'' @ [newline]
      else ''unknown'' @ [newline])"

text \<open>Equal up to one newline at the end.\<close>

definition sysfs_streq :: "string \<Rightarrow> string \<Rightarrow> bool" where
  "sysfs_streq a b \<longleftrightarrow> a = b \<or> a = b @ [newline] \<or> b = a @ [newline]"

definition nsim_dpll_lock_status_store :: "string \<Rightarrow> nsim_dpll \<Rightarrow> (errno + nat) \<times> nsim_dpll" where
  "nsim_dpll_lock_status_store buf n =
     (case (if sysfs_streq buf ''locked'' then Some DPLL_LOCK_STATUS_LOCKED_HO_ACQ
            else if sysfs_streq buf ''holdover'' then Some DPLL_LOCK_STATUS_HOLDOVER
            else if sysfs_streq buf ''freerun'' then Some DPLL_LOCK_STATUS_UNLOCKED
            else None) of
        None \<Rightarrow> (Inl EINVAL, n)
      | Some new_status \<Rightarrow>
          (Inr (length buf),
           if signal_blocked n \<or> gnss_gps_fix n = 0 then n
           else if new_status = DPLL_LOCK_STATUS_HOLDOVER then nsim_dpll_enter_holdover n
           else if new_status = DPLL_LOCK_STATUS_LOCKED_HO_ACQ then nsim_dpll_enter_locked n
           else nsim_dpll_set_lock_status new_status (n\<lparr>holdover_timer := False\<rparr>)))"

section \<open>NMEA\<close>

definition nsim_gga_quality_to_gps_fix :: "u8 \<Rightarrow> u8" where
  "nsim_gga_quality_to_gps_fix q = (if q = 0 then 0x00 else if q = 6 then 0x01 else 0x03)"

definition DOLLAR :: u8 where "DOLLAR = 0x24"
definition STAR :: u8 where "STAR = 0x2A"
definition COMMA :: u8 where "COMMA = 0x2C"
definition ZERO :: u8 where "ZERO = 0x30"
definition NINE :: u8 where "NINE = 0x39"

text \<open>
  The inner loop, from behind the tag: the digit behind the fifth comma, if the sentence gets
  that far.
\<close>

primrec gga_field :: "u8 list \<Rightarrow> nat \<Rightarrow> u8 option" where
  "gga_field [] commas = None"
| "gga_field (c # cs) commas =
     (if c = STAR \<or> c = DOLLAR then None
      else if c = COMMA then
        (if Suc commas = 5
         then (case cs of
                 [] \<Rightarrow> None
               | d # _ \<Rightarrow> if d < ZERO \<or> d > NINE then None else Some (d - ZERO))
         else gga_field cs (Suc commas))
      else gga_field cs commas)"

text \<open>
  The outer loop over the rest of the buffer: it goes on while more than ten bytes are left and
  stops for good at the first GGA sentence.
\<close>

fun gga_scan :: "u8 list \<Rightarrow> u8 option" where
  "gga_scan [] = None"
| "gga_scan (c # cs) =
     (if length (c # cs) \<le> 10 then None
      else if c \<noteq> DOLLAR then gga_scan cs
      else if take 4 (drop 2 cs) \<noteq> ascii ''GGA,'' then gga_scan cs
      else gga_field (drop 6 cs) 0)"

definition nsim_parse_gga_fix :: "u8 list \<Rightarrow> nsim_dpll \<Rightarrow> nsim_dpll" where
  "nsim_parse_gga_fix buf n =
     (case gga_scan buf of
        None \<Rightarrow> n
      | Some quality \<Rightarrow>
          (let old_fix = gnss_gps_fix n;
               new_fix = nsim_gga_quality_to_gps_fix quality;
               n = n\<lparr>gnss_gps_fix := new_fix\<rparr>
           in if signal_blocked n then n
              else if new_fix = 0 \<and> old_fix \<noteq> 0 then nsim_dpll_enter_holdover n
              else if new_fix \<noteq> 0
                      \<and> (old_fix = 0 \<or> lock_status n \<noteq> DPLL_LOCK_STATUS_LOCKED_HO_ACQ)
              then nsim_dpll_enter_locked n
              else n))"

section \<open>The receiver\<close>

definition nsim_ubx_insert_locked :: "u8 list \<Rightarrow> nsim_dpll \<Rightarrow> nsim_dpll" where
  "nsim_ubx_insert_locked buf n = n\<lparr>gnss_out := gnss_out n @ [buf]\<rparr>"

text \<open>A message that was built is inserted.\<close>

definition respond :: "errno + u8 list \<Rightarrow> nsim_dpll \<Rightarrow> nsim_dpll" where
  "respond r n = (case r of Inl _ \<Rightarrow> n | Inr f \<Rightarrow> nsim_ubx_insert_locked f n)"

definition start_nav :: "nsim_dpll \<Rightarrow> nsim_dpll" where
  "start_nav n = (if ubx_nav_enabled n then n else n\<lparr>ubx_nav_enabled := True, ubx_timer := True\<rparr>)"

definition nsim_gnss_open :: "nsim_dpll \<Rightarrow> nsim_dpll" where
  "nsim_gnss_open n = start_nav n"

definition nsim_gnss_close :: "nsim_dpll \<Rightarrow> nsim_dpll" where
  "nsim_gnss_close n = n\<lparr>ubx_nav_enabled := False, ubx_timer := False\<rparr>"

definition nsim_ubx_timer_cb :: "timespec64 \<Rightarrow> nsim_dpll \<Rightarrow> nsim_dpll" where
  "nsim_ubx_timer_cb now n =
     (if \<not> ubx_nav_enabled n \<or> \<not> gnss_dev n then n\<lparr>ubx_timer := False\<rparr>
      else
        (let bufsz = UBX_OVERHEAD + UBX_NAV_CLOCK_LEN
         in respond (ubx_build_nav_clock now bufsz (gnss_gps_fix n))
              (respond (ubx_build_nav_status now bufsz (gnss_gps_fix n)) n)))"

definition UBX_CFG_VALSET_HDR_LEN :: nat where "UBX_CFG_VALSET_HDR_LEN = 4"
definition UBX_CFGKEY_INFIL_NCNOTHRS :: u32 where "UBX_CFGKEY_INFIL_NCNOTHRS = 0x201100aa"

text \<open>
  The loop over keys and values, on the bytes from the read position to the checksum: the value
  of the first key that is the one looked for. Every value is taken to be one byte long.
\<close>

fun valset_scan :: "u8 list \<Rightarrow> u8 option" where
  "valset_scan (k0 # k1 # k2 # k3 # v # rest) =
     (if ubx_get_le32 k0 k1 k2 k3 = UBX_CFGKEY_INFIL_NCNOTHRS then Some v else valset_scan rest)"
| "valset_scan _ = None"

definition block_signal :: "u8 \<Rightarrow> nsim_dpll \<Rightarrow> nsim_dpll" where
  "block_signal val n =
     (if val > 0 then nsim_dpll_enter_holdover (n\<lparr>signal_blocked := True, gnss_gps_fix := 0x00\<rparr>)
      else nsim_dpll_enter_locked (n\<lparr>signal_blocked := False, gnss_gps_fix := 0x03\<rparr>))"

definition handle_cfg :: "u8 list \<Rightarrow> nsim_dpll \<Rightarrow> nsim_dpll" where
  "handle_cfg buf n =
     (let cls = buf ! 2; mid = buf ! 3; count = length buf;
          ack = ubx_build_ack (UBX_OVERHEAD + UBX_MON_VER_PAYLOAD_LEN) cls mid
      in if mid = UBX_CFG_MSG \<and> count \<ge> UBX_HDR_LEN + 3 then
           (let msg_cls = buf ! UBX_HDR_LEN; msg_id = buf ! (UBX_HDR_LEN + 1)
            in respond ack
                 (if msg_cls = UBX_CLASS_NAV \<and> (msg_id = UBX_NAV_STATUS \<or> msg_id = UBX_NAV_CLOCK)
                  then start_nav n else n))
         else if mid = UBX_CFG_VALSET \<and> count \<ge> UBX_HDR_LEN + UBX_CFG_VALSET_HDR_LEN + 5 then
           respond ack
             (case valset_scan (drop (UBX_HDR_LEN + UBX_CFG_VALSET_HDR_LEN) (take (count - UBX_CK_LEN) buf)) of
                None \<Rightarrow> n
              | Some val \<Rightarrow> block_signal val n)
         else if mid = UBX_CFG_CFG then respond ack n
         else n)"

definition handle_nav :: "timespec64 \<Rightarrow> u8 list \<Rightarrow> nsim_dpll \<Rightarrow> nsim_dpll" where
  "handle_nav now buf n =
     (let cls = buf ! 2; mid = buf ! 3; bufsz = UBX_OVERHEAD + UBX_MON_VER_PAYLOAD_LEN
      in if mid = UBX_NAV_STATUS \<or> mid = UBX_NAV_CLOCK then
           (let n = start_nav n
            in respond (if mid = UBX_NAV_STATUS then ubx_build_nav_status now bufsz (gnss_gps_fix n)
                        else ubx_build_nav_clock now bufsz (gnss_gps_fix n)) n)
         else respond (ubx_build_ack bufsz cls mid) n)"

definition handle_mon :: "u8 list \<Rightarrow> nsim_dpll \<Rightarrow> nsim_dpll" where
  "handle_mon buf n =
     (let mid = buf ! 3; bufsz = UBX_OVERHEAD + UBX_MON_VER_PAYLOAD_LEN
      in if mid = UBX_MON_VER then respond (ubx_build_mon_ver bufsz) n
         else if mid = UBX_MON_HW then respond (ubx_build_mon_hw bufsz) n
         else n)"

text \<open>The result is always the number of bytes written.\<close>

definition nsim_gnss_write_raw :: "timespec64 \<Rightarrow> u8 list \<Rightarrow> nsim_dpll \<Rightarrow> nat \<times> nsim_dpll" where
  "nsim_gnss_write_raw now buf n =
     (length buf,
      if buf = [] then n
      else if buf ! 0 = DOLLAR then
        nsim_ubx_insert_locked buf (if signal_blocked n then n else nsim_parse_gga_fix buf n)
      else if length buf < UBX_HDR_LEN \<or> buf ! 0 \<noteq> UBX_SYNC1 \<or> buf ! 1 \<noteq> UBX_SYNC2 then n
      else if buf ! 2 = UBX_CLASS_MON then handle_mon buf n
      else if buf ! 2 = UBX_CLASS_CFG then handle_cfg buf n
      else if buf ! 2 = UBX_CLASS_NAV then handle_nav now buf n
      else respond (ubx_build_ack (UBX_OVERHEAD + UBX_MON_VER_PAYLOAD_LEN) (buf ! 2) (buf ! 3)) n)"

definition nsim_dpll_ntf_timer_cb :: "nsim_dpll \<Rightarrow> nsim_dpll" where
  "nsim_dpll_ntf_timer_cb n = schedule_ntf_work n"

end
