(* ===== verification/Nsim_Gnss_Props.thy ===== *)
theory Nsim_Gnss_Props
  imports Nsim_Gnss
begin

text \<open>
  What the receiver guarantees. Its events are user space writing to it, opening and closing it,
  writing the sysfs attribute, and the timers firing. While the signal is lost the lock status
  is holdover with the timer running, or free-running after that, and only a message to the
  receiver brings the lock back. A well-formed sentence or configuration frame is read as what
  it says.
\<close>

section \<open>Events\<close>

datatype gnss_event =
    Ev_open
  | Ev_close
  | Ev_write timespec64 "u8 list"
  | Ev_store string
  | Ev_holdover
  | Ev_ubx timespec64
  | Ev_ntf

text \<open>A timer that is not armed does not fire.\<close>

fun gnss_step :: "gnss_event \<Rightarrow> nsim_dpll \<Rightarrow> nsim_dpll" where
  "gnss_step Ev_open n = nsim_gnss_open n"
| "gnss_step Ev_close n = nsim_gnss_close n"
| "gnss_step (Ev_write now buf) n = snd (nsim_gnss_write_raw now buf n)"
| "gnss_step (Ev_store buf) n = snd (nsim_dpll_lock_status_store buf n)"
| "gnss_step Ev_holdover n = (if holdover_timer n then nsim_dpll_holdover_timer_cb n else n)"
| "gnss_step (Ev_ubx now) n = (if ubx_timer n then nsim_ubx_timer_cb now n else n)"
| "gnss_step Ev_ntf n = (if ntf_timer n then nsim_dpll_ntf_timer_cb n else n)"

definition gnss_run :: "gnss_event list \<Rightarrow> nsim_dpll \<Rightarrow> nsim_dpll" where
  "gnss_run evs n = fold gnss_step evs n"

section \<open>The invariant\<close>

definition lock_inv :: "nsim_dpll \<Rightarrow> bool" where
  "lock_inv n \<longleftrightarrow>
     (signal_blocked n \<longrightarrow> gnss_gps_fix n = 0)
   \<and> (gnss_gps_fix n = 0 \<longrightarrow> (lock_status n = DPLL_LOCK_STATUS_HOLDOVER \<and> holdover_timer n)
        \<or> lock_status n = DPLL_LOCK_STATUS_UNLOCKED)
   \<and> (holdover_timer n \<longrightarrow> lock_status n = DPLL_LOCK_STATUS_HOLDOVER)
   \<and> lock_status n \<in> {DPLL_LOCK_STATUS_UNLOCKED, DPLL_LOCK_STATUS_LOCKED_HO_ACQ, DPLL_LOCK_STATUS_HOLDOVER}"

definition nav_inv :: "nsim_dpll \<Rightarrow> bool" where
  "nav_inv n \<longleftrightarrow> gnss_dev n \<and> (ubx_timer n \<longleftrightarrow> ubx_nav_enabled n)"

lemmas lock_moves =
  nsim_dpll_enter_holdover_def nsim_dpll_enter_locked_def nsim_dpll_set_lock_status_def
  nsim_dpll_holdover_timer_cb_def schedule_ntf_work_def Let_def

lemmas lock_status_defs =
  DPLL_LOCK_STATUS_UNLOCKED_def DPLL_LOCK_STATUS_LOCKED_HO_ACQ_def DPLL_LOCK_STATUS_HOLDOVER_def

text \<open>What the parts of the receiver leave alone.\<close>

lemma respond_frame [simp]:
  "lock_inv (respond r n) = lock_inv n" "nav_inv (respond r n) = nav_inv n"
  "lock_status (respond r n) = lock_status n" "gnss_gps_fix (respond r n) = gnss_gps_fix n"
  by (auto simp: respond_def nsim_ubx_insert_locked_def lock_inv_def nav_inv_def split: sum.split)

lemma insert_frame [simp]:
  "lock_inv (nsim_ubx_insert_locked b n) = lock_inv n" "nav_inv (nsim_ubx_insert_locked b n) = nav_inv n"
  "lock_status (nsim_ubx_insert_locked b n) = lock_status n"
  by (simp_all add: nsim_ubx_insert_locked_def lock_inv_def nav_inv_def)

lemma start_nav_frame [simp]:
  "lock_inv (start_nav n) = lock_inv n" "lock_status (start_nav n) = lock_status n"
  "gnss_gps_fix (start_nav n) = gnss_gps_fix n" "nav_inv n \<Longrightarrow> nav_inv (start_nav n)"
  by (auto simp: start_nav_def lock_inv_def nav_inv_def)

lemma lock_inv_block: "lock_inv (block_signal val n)"
  by (auto simp: block_signal_def lock_moves lock_inv_def lock_status_defs)

lemma lock_inv_parse: "lock_inv n \<Longrightarrow> \<not> signal_blocked n \<Longrightarrow> lock_inv (nsim_parse_gga_fix buf n)"
  by (auto simp: nsim_parse_gga_fix_def lock_moves lock_inv_def lock_status_defs
      nsim_gga_quality_to_gps_fix_def split: option.split)

lemma nav_inv_lock [simp]:
  "nav_inv (block_signal val n) = nav_inv n" "nav_inv (nsim_parse_gga_fix buf n) = nav_inv n"
  by (auto simp: block_signal_def nsim_parse_gga_fix_def lock_moves nav_inv_def split: option.split)

lemma handle_mon_inv:
  "lock_inv (handle_mon buf n) = lock_inv n" "nav_inv (handle_mon buf n) = nav_inv n"
  by (simp_all add: handle_mon_def Let_def)

lemma handle_nav_inv:
  "lock_inv (handle_nav now buf n) = lock_inv n" "nav_inv n \<Longrightarrow> nav_inv (handle_nav now buf n)"
  by (simp_all add: handle_nav_def Let_def)

lemma handle_cfg_inv:
  "lock_inv n \<Longrightarrow> lock_inv (handle_cfg buf n)" "nav_inv n \<Longrightarrow> nav_inv (handle_cfg buf n)"
  by (simp_all add: handle_cfg_def Let_def lock_inv_block split: option.split)

lemma write_inv:
  "lock_inv n \<Longrightarrow> lock_inv (snd (nsim_gnss_write_raw now buf n))"
  "nav_inv n \<Longrightarrow> nav_inv (snd (nsim_gnss_write_raw now buf n))"
  by (simp_all add: nsim_gnss_write_raw_def handle_mon_inv handle_nav_inv handle_cfg_inv lock_inv_parse)

lemma store_inv:
  "lock_inv n \<Longrightarrow> lock_inv (snd (nsim_dpll_lock_status_store buf n))"
  "nav_inv n \<Longrightarrow> nav_inv (snd (nsim_dpll_lock_status_store buf n))"
  by (auto simp: nsim_dpll_lock_status_store_def lock_moves lock_inv_def nav_inv_def
      lock_status_defs split: option.split)

lemma holdover_inv:
  "lock_inv n \<Longrightarrow> lock_inv (nsim_dpll_holdover_timer_cb n)"
  "nav_inv n \<Longrightarrow> nav_inv (nsim_dpll_holdover_timer_cb n)"
  by (auto simp: lock_moves lock_inv_def nav_inv_def lock_status_defs)

lemma open_close_inv:
  "lock_inv (nsim_gnss_open n) = lock_inv n" "nav_inv n \<Longrightarrow> nav_inv (nsim_gnss_open n)"
  "lock_inv (nsim_gnss_close n) = lock_inv n" "nav_inv n \<Longrightarrow> nav_inv (nsim_gnss_close n)"
  "lock_inv (nsim_dpll_ntf_timer_cb n) = lock_inv n" "nav_inv (nsim_dpll_ntf_timer_cb n) = nav_inv n"
  by (simp_all add: nsim_gnss_open_def nsim_gnss_close_def nsim_dpll_ntf_timer_cb_def schedule_ntf_work_def,
      simp_all add: lock_inv_def nav_inv_def)

lemma ubx_timer_inv:
  "lock_inv n \<Longrightarrow> lock_inv (nsim_ubx_timer_cb now n)"
  "nav_inv n \<Longrightarrow> ubx_timer n \<Longrightarrow> nav_inv (nsim_ubx_timer_cb now n)"
  by (simp_all add: nsim_ubx_timer_cb_def Let_def) (simp_all add: lock_inv_def nav_inv_def)

lemma gnss_step_inv:
  assumes "lock_inv n" and "nav_inv n"
  shows "lock_inv (gnss_step e n) \<and> nav_inv (gnss_step e n)"
  using assms
  by (cases e) (simp_all add: write_inv store_inv holdover_inv open_close_inv ubx_timer_inv)

text \<open>The receiver as \<open>nsim_dpll_init\<close> leaves it.\<close>

definition receiver_ready :: "nsim_dpll \<Rightarrow> bool" where
  "receiver_ready n \<longleftrightarrow> lock_status n = DPLL_LOCK_STATUS_LOCKED_HO_ACQ \<and> gnss_gps_fix n = 0x03
     \<and> \<not> signal_blocked n \<and> \<not> ubx_nav_enabled n \<and> \<not> ubx_timer n \<and> \<not> holdover_timer n \<and> gnss_dev n"

text \<open>
  C19: Whatever happens to a receiver that has been set up, in any order: a blocked signal is a lost one; while it is
  lost the status is holdover with the timeout running or free-running, never locked; the timeout
  runs in holdover only; and the periodic messages are armed exactly while they are enabled.
\<close>

theorem receiver_invariant:
  assumes "receiver_ready n"
  shows "lock_inv (gnss_run evs n) \<and> nav_inv (gnss_run evs n)"
proof -
  have "lock_inv n" "nav_inv n"
    using assms by (simp_all add: receiver_ready_def lock_inv_def nav_inv_def)
  then show ?thesis
    unfolding gnss_run_def by (induction evs arbitrary: n) (simp_all add: gnss_step_inv)
qed

definition demo_receiver :: nsim_dpll where
  "demo_receiver =
     \<lparr>pps_dpll = 0, eec_dpll = 1, gnss_pin = 0,
      ext_pins = [], port_pins = [], clock_id = 0, gnss_dev = True,
      ubx_timer = False, ntf_timer = True, holdover_timer = False, ntf_work = False,
      ubx_nav_enabled = False, signal_blocked = False, gnss_gps_fix = 3,
      lock_status = DPLL_LOCK_STATUS_LOCKED_HO_ACQ, sysfs_kobj = True, gnss_out = []\<rparr>"

lemma demo_ready: "receiver_ready demo_receiver"
  by (simp add: receiver_ready_def demo_receiver_def)

lemma receiver_invariant_witness:
  "lock_inv (gnss_run [Ev_open, Ev_write \<lparr>tv_sec = 0, tv_nsec = 0\<rparr> (ascii ''$GPGGA,,,,,,0''), Ev_holdover] demo_receiver)"
  using receiver_invariant [OF demo_ready] by blast

section \<open>Losing and regaining the lock\<close>

text \<open>The two messages that can end a loss of the signal.\<close>

definition restores :: "gnss_event \<Rightarrow> nsim_dpll \<Rightarrow> bool" where
  "restores e n \<longleftrightarrow> (\<exists>now buf. e = Ev_write now buf \<and>
     (\<not> signal_blocked n \<and> (\<exists>q. gga_scan buf = Some q \<and> q \<noteq> 0)
      \<or> buf ! 2 = UBX_CLASS_CFG \<and> buf ! 3 = UBX_CFG_VALSET
        \<and> valset_scan (drop 10 (take (length buf - 2) buf)) = Some 0))"

lemma block_lost: "lock_status (block_signal val n) = DPLL_LOCK_STATUS_LOCKED_HO_ACQ \<Longrightarrow> val = 0"
  by (auto simp: block_signal_def lock_moves lock_status_defs word_gt_0 split: if_splits)

lemma parse_lost:
  "gnss_gps_fix n = 0 \<Longrightarrow> lock_status n \<noteq> DPLL_LOCK_STATUS_LOCKED_HO_ACQ \<Longrightarrow>
     lock_status (nsim_parse_gga_fix buf n) = DPLL_LOCK_STATUS_LOCKED_HO_ACQ \<Longrightarrow>
     \<exists>q. gga_scan buf = Some q \<and> q \<noteq> 0"
  by (auto simp: nsim_parse_gga_fix_def lock_moves nsim_gga_quality_to_gps_fix_def split: option.splits if_splits)

text \<open>
  C20: While the signal is lost, a write to the sysfs attribute changes nothing; the expiry of the
  timeout ends the holdover; and the lock comes back only with a sentence that reports a fix, if
  the signal is not blocked, or with the frame that lifts the blockade.
\<close>

theorem lost_signal_holds:
  assumes "lock_inv n" and "gnss_gps_fix n = 0"
  shows "gnss_step (Ev_store buf) n = n
    \<and> lock_status (gnss_step Ev_holdover n) = DPLL_LOCK_STATUS_UNLOCKED
    \<and> (lock_status (gnss_step e n) = DPLL_LOCK_STATUS_LOCKED_HO_ACQ \<longrightarrow> restores e n)"
proof (intro conjI impI)
  have lost: "lock_status n \<noteq> DPLL_LOCK_STATUS_LOCKED_HO_ACQ"
    using assms by (auto simp: lock_inv_def lock_status_defs)
  show store: "gnss_step (Ev_store buf) n = n" for buf
    using assms(2) by (simp add: nsim_dpll_lock_status_store_def split: option.split)
  show hold: "lock_status (gnss_step Ev_holdover n) = DPLL_LOCK_STATUS_UNLOCKED"
    using assms by (auto simp: lock_inv_def lock_moves lock_status_defs)
  assume locked: "lock_status (gnss_step e n) = DPLL_LOCK_STATUS_LOCKED_HO_ACQ"
  show "restores e n"
  proof (cases e)
    case (Ev_write now buf)
    then show ?thesis
      using locked lost parse_lost [OF assms(2) lost] block_lost
      by (auto simp: restores_def nsim_gnss_write_raw_def handle_mon_def handle_cfg_def handle_nav_def
          Let_def ubx_consts UBX_CFG_VALSET_HDR_LEN_def split: if_splits option.splits)
  next
    case (Ev_store buf)
    then show ?thesis using locked lost store by simp
  next
    case Ev_holdover
    then show ?thesis using locked hold by (simp add: lock_status_defs)
  qed (use locked lost in \<open>auto simp: nsim_gnss_open_def nsim_gnss_close_def nsim_ubx_timer_cb_def
        nsim_dpll_ntf_timer_cb_def schedule_ntf_work_def Let_def split: if_splits\<close>)
qed

lemma lost_signal_holds_witness:
  "lock_status (gnss_step Ev_holdover
     (demo_receiver\<lparr>gnss_gps_fix := 0, lock_status := DPLL_LOCK_STATUS_HOLDOVER, holdover_timer := True\<rparr>))
   = DPLL_LOCK_STATUS_UNLOCKED"
  by (rule lost_signal_holds [THEN conjunct2, THEN conjunct1])
    (simp_all add: lock_inv_def demo_receiver_def lock_status_defs)

section \<open>Sentences are read\<close>

text \<open>A GGA sentence: five fields behind the tag, then the quality.\<close>

definition gga_sentence :: "u8 \<Rightarrow> u8 \<Rightarrow> u8 list list \<Rightarrow> u8 \<Rightarrow> u8 list \<Rightarrow> u8 list" where
  "gga_sentence ta tb flds quality rest =
     DOLLAR # ta # tb # ascii ''GGA,'' @ concat (map (\<lambda>f. f @ [COMMA]) flds) @ (ZERO + quality) # rest"

definition plain_field :: "u8 list \<Rightarrow> bool" where
  "plain_field f \<longleftrightarrow> STAR \<notin> set f \<and> DOLLAR \<notin> set f \<and> COMMA \<notin> set f"

lemma gga_field_skip: "plain_field f \<Longrightarrow> gga_field (f @ cs) k = gga_field cs k"
  by (induction f) (auto simp: plain_field_def)

lemma gga_field_list:
  assumes "\<forall>f \<in> set flds. plain_field f" and "k + length flds = 5" and "flds \<noteq> []" and "quality \<le> 9"
  shows "gga_field (concat (map (\<lambda>f. f @ [COMMA]) flds) @ (ZERO + quality) # rest) k = Some quality"
  using assms(1-3)
proof (induction flds arbitrary: k)
  case (Cons f flds)
  have sep: "COMMA \<noteq> STAR" "COMMA \<noteq> DOLLAR" by (simp_all add: COMMA_def STAR_def DOLLAR_def)
  have digit: "\<not> ZERO + quality < ZERO" "\<not> NINE < ZERO + quality"
  proof -
    have "unat quality \<le> 9" using assms(4) by (simp add: word_le_nat_alt)
    then have "unat (ZERO + quality) = 48 + unat quality"
      by (simp add: ZERO_def unat_word_ariths)
    then show "\<not> ZERO + quality < ZERO" "\<not> NINE < ZERO + quality"
      using \<open>unat quality \<le> 9\<close> by (simp_all add: word_less_nat_alt ZERO_def NINE_def)
  qed
  show ?case
  proof (cases "flds = []")
    case True
    then show ?thesis
      using Cons.prems sep digit by (simp add: gga_field_skip)
  next
    case False
    then have "Suc k \<noteq> 5" using Cons.prems(2) by (cases flds) auto
    then show ?thesis
      using Cons.IH [of "Suc k"] Cons.prems False sep by (simp add: gga_field_skip)
  qed
qed simp

text \<open>Nothing before the sentence looks like the start of one.\<close>

definition no_gga_before :: "u8 list \<Rightarrow> u8 list \<Rightarrow> bool" where
  "no_gga_before pre s \<longleftrightarrow>
     (\<forall>p < length pre. pre ! p = DOLLAR \<longrightarrow> take 4 (drop (p + 3) (pre @ s)) \<noteq> ascii ''GGA,'')"

lemma no_gga_Cons:
  "no_gga_before (c # pre) s \<longleftrightarrow> (c = DOLLAR \<longrightarrow> take 4 (drop 2 (pre @ s)) \<noteq> ascii ''GGA,'') \<and> no_gga_before pre s"
proof -
  have "drop (0 + 3) (c # xs) = drop 2 xs" for xs :: "u8 list"
    by (simp add: numeral_eq_Suc)
  then show ?thesis
    unfolding no_gga_before_def
    by (simp only: length_Cons All_less_Suc2 nth_Cons_0 nth_Cons_Suc append_Cons add_Suc drop_Suc_Cons)
qed

lemma no_gga_Nil: "no_gga_before [] s"
  by (simp add: no_gga_before_def)

lemma gga_scan_sentence:
  assumes "\<forall>f \<in> set flds. plain_field f" and "length flds = 5" and "quality \<le> 9"
    and "no_gga_before pre (gga_sentence ta tb flds quality rest)"
  shows "gga_scan (pre @ gga_sentence ta tb flds quality rest) = Some quality"
  using assms(4)
proof (induction pre)
  case Nil
  have "length (concat (map (\<lambda>f. f @ [COMMA]) flds)) \<ge> length flds"
    by (induction flds) auto
  moreover have "gga_field (concat (map (\<lambda>f. f @ [COMMA]) flds) @ (ZERO + quality) # rest) 0 = Some quality"
    by (rule gga_field_list) (use assms in auto)
  ultimately show ?case
    using assms(2) by (simp add: gga_sentence_def ascii_def)
next
  case (Cons c pre)
  let ?s = "gga_sentence ta tb flds quality rest"
  have "length (concat (map (\<lambda>f. f @ [COMMA]) flds)) \<ge> length flds"
    by (induction flds) auto
  then have "length (c # pre @ ?s) > 10"
    using assms(2) by (simp add: gga_sentence_def ascii_def)
  then show ?case
    using Cons by (auto simp: no_gga_Cons)
qed

text \<open>
  C21: Writing to the receiver a buffer that starts with a dollar sign and contains a GGA sentence, the first of
  its kind in the buffer, with a one-digit quality and five fields free of commas and of the start of another GGA
  sentence in front of it, forwards the buffer to the readers and, unless the signal is blocked, makes
  the receiver, in any state the invariant of the receiver admits, report the fix of that sentence and drive the lock accordingly:
  quality 0 begins the holdover with its timeout when there was a fix, and any other quality locks. While the signal is blocked the
  buffer is only forwarded. A buffer that starts neither with a dollar sign nor with the first sync byte of UBX
  changes nothing, whatever sentences are in it.
\<close>

theorem gga_sentence_drives_lock:
  assumes "\<forall>f \<in> set flds. plain_field f" and "length flds = 5" and "quality \<le> 9"
    and "no_gga_before pre (gga_sentence ta tb flds quality rest)"
    and "lock_inv n" and buf: "buf = pre @ gga_sentence ta tb flds quality rest" and "hd buf = DOLLAR"
    and n': "nsim_gnss_write_raw now buf n = (count, n')"
  shows "count = length buf \<and> gnss_out n' = gnss_out n @ [buf]
    \<and> (if signal_blocked n then n' = n\<lparr>gnss_out := gnss_out n @ [buf]\<rparr>
       else gnss_gps_fix n' = (if quality = 0 then 0 else if quality = 6 then 1 else 3)
         \<and> (if quality \<noteq> 0 then lock_status n' = DPLL_LOCK_STATUS_LOCKED_HO_ACQ \<and> \<not> holdover_timer n'
            else if gnss_gps_fix n = 0 then lock_status n' = lock_status n \<and> holdover_timer n' = holdover_timer n
            else lock_status n' = DPLL_LOCK_STATUS_HOLDOVER \<and> holdover_timer n'))
    \<and> (c \<noteq> DOLLAR \<and> c \<noteq> UBX_SYNC1 \<longrightarrow> nsim_gnss_write_raw now (c # buf) n = (Suc (length buf), n))"
proof -
  have "buf \<noteq> []" using buf by (simp add: gga_sentence_def)
  then have head: "buf ! 0 = DOLLAR" using assms(7) by (simp add: hd_conv_nth)
  then have "count = length buf"
    and w: "n' = nsim_ubx_insert_locked buf (if signal_blocked n then n else nsim_parse_gga_fix buf n)"
    using n' \<open>buf \<noteq> []\<close> by (auto simp: nsim_gnss_write_raw_def)
  moreover have scan: "gga_scan buf = Some quality"
    unfolding buf by (rule gga_scan_sentence [OF assms(1-4)])
  have "gnss_out (nsim_parse_gga_fix buf n) = gnss_out n"
    by (simp add: nsim_parse_gga_fix_def scan lock_moves)
  ultimately show ?thesis
    using assms(5) unfolding nsim_parse_gga_fix_def scan nsim_ubx_insert_locked_def
    by (auto simp: lock_moves nsim_gga_quality_to_gps_fix_def lock_inv_def lock_status_defs nsim_gnss_write_raw_def)
qed

lemma gga_sentence_drives_lock_witness:
  "gnss_gps_fix (snd (nsim_gnss_write_raw \<lparr>tv_sec = 0, tv_nsec = 0\<rparr>
     (ascii ''$GPZDA*4'' @ gga_sentence 0x47 0x50 [ascii ''1'', [], [], [], []] 6 []) demo_receiver)) = 1"
proof -
  have before: "no_gga_before (ascii ''$GPZDA*4'') (gga_sentence 0x47 0x50 [ascii ''1'', [], [], [], []] 6 [])"
    by (simp add: no_gga_Cons no_gga_Nil ascii_def DOLLAR_def)
  have plain: "\<forall>f \<in> set [ascii ''1'', [], [], [], []]. plain_field f"
    by (simp add: plain_field_def ascii_def STAR_def DOLLAR_def COMMA_def)
  have inv: "lock_inv demo_receiver" by (simp add: demo_receiver_def lock_inv_def lock_status_defs)
  have head: "hd (ascii ''$GPZDA*4'' @ gga_sentence 0x47 0x50 [ascii ''1'', [], [], [], []] 6 []) = DOLLAR"
    by (simp add: ascii_def DOLLAR_def)
  have "\<not> signal_blocked demo_receiver" by (simp add: demo_receiver_def)
  then show ?thesis
    using gga_sentence_drives_lock [OF plain _ _ before inv refl head surjective_pairing] by simp
qed

section \<open>Configuration frames are read\<close>

lemma get_put_le32:
  "ubx_put_le32 k = [b0, b1, b2, b3] \<Longrightarrow> ubx_get_le32 b0 b1 b2 b3 = k"
proof -
  assume "ubx_put_le32 k = [b0, b1, b2, b3]"
  then have b: "b0 = ucast k" "b1 = ucast (drop_bit 8 k)" "b2 = ucast (drop_bit 16 k)" "b3 = ucast (drop_bit 24 k)"
    by (auto simp: ubx_put_le32_def byte_of)
  show ?thesis
  proof (rule bit_word_eqI)
    fix i assume i: "i < LENGTH(32)"
    consider "i < 8" | j where "i = 8 + j" "j < 8" | j where "i = 16 + j" "j < 8" | j where "i = 24 + j" "j < 8"
    proof -
      have "i < 8 \<or> (\<exists>j. i = 8 + j \<and> j < 8) \<or> (\<exists>j. i = 16 + j \<and> j < 8) \<or> (\<exists>j. i = 24 + j \<and> j < 8)"
        using i by simp presburger
      then show thesis using that by blast
    qed
    then show "bit (ubx_get_le32 b0 b1 b2 b3) i = bit k i"
      by cases (simp_all add: ubx_get_le32_def b bit_simps)
  qed
qed

lemma framed_part: "length xs = 10 \<Longrightarrow> drop 10 (take (length (xs @ ys @ [a, b]) - 2) (xs @ ys @ [a, b])) = ys"
  by simp

text \<open>A list of settings, each with a value of one byte.\<close>

definition settings :: "(u32 \<times> u8) list \<Rightarrow> u8 list" where
  "settings kvs = concat (map (\<lambda>(k, v). ubx_put_le32 k @ [v]) kvs)"

lemma valset_scan_settings: "valset_scan (settings kvs) = map_of kvs UBX_CFGKEY_INFIL_NCNOTHRS"
proof (induction kvs)
  case Nil
  show ?case by (simp add: settings_def)
next
  case (Cons kv kvs)
  obtain k v where kv: "kv = (k, v)" by fastforce
  obtain b0 b1 b2 b3 where b: "ubx_put_le32 k = [b0, b1, b2, b3]"
    by (simp add: ubx_put_le32_def)
  have "settings (kv # kvs) = b0 # b1 # b2 # b3 # v # settings kvs"
    by (simp add: settings_def kv b)
  then show ?case using get_put_le32 [OF b] Cons kv by simp
qed

text \<open>
  C22: A CFG-VALSET frame whose settings all have values of one byte, with any header, length field and checksum (the driver
  checks neither), is accepted in full and acknowledged, and its first setting of the jamming key decides the signal:
  a value other than 0 blocks it, the fix is lost and the holdover begins with its timeout; 0 restores it with a three-dimensional fix
  and the lock; and without that key the frame changes nothing else. That the values have one byte is a
  condition: \<open>valset_long_value_hides_key\<close> shows a frame with a longer one that is not obeyed.
\<close>

theorem valset_frame_obeyed:
  assumes "length hdr = 4" and "kvs \<noteq> []"
    and f: "f = [0xB5, 0x62, 0x06, 0x8A, l0, l1] @ hdr @ settings kvs @ [ck_a, ck_b]"
    and n': "nsim_gnss_write_raw now f n = (count, n')"
  shows "count = length f
    \<and> gnss_out n' = gnss_out n @ [[0xB5, 0x62, 0x05, 0x01, 0x02, 0x00, 0x06, 0x8A, 0x98, 0xC1]]
    \<and> (case map_of kvs 0x201100AA of
         None \<Rightarrow> n' = n\<lparr>gnss_out := gnss_out n'\<rparr>
       | Some val \<Rightarrow>
           if val \<noteq> 0 then signal_blocked n' \<and> gnss_gps_fix n' = 0 \<and> lock_status n' = DPLL_LOCK_STATUS_HOLDOVER \<and> holdover_timer n'
           else \<not> signal_blocked n' \<and> gnss_gps_fix n' = 3 \<and> lock_status n' = DPLL_LOCK_STATUS_LOCKED_HO_ACQ \<and> \<not> holdover_timer n')"
proof -
  let ?ack = "[0xB5, 0x62, 0x05, 0x01, 0x02, 0x00, 0x06, 0x8A, 0x98, 0xC1] :: u8 list"
  let ?m = "case map_of kvs 0x201100AA of None \<Rightarrow> n | Some val \<Rightarrow> block_signal val n"
  have long: "length (settings kvs) \<ge> 5"
    using assms(2) by (cases kvs) (auto simp: settings_def)
  have "f = ([0xB5, 0x62, 0x06, 0x8A, l0, l1] @ hdr) @ settings kvs @ [ck_a, ck_b]"
    by (simp add: f)
  moreover have "length ([0xB5, 0x62, 0x06, 0x8A, l0, l1] @ hdr) = 10"
    using assms(1) by simp
  ultimately have kvs: "drop 10 (take (length f - 2) f) = settings kvs"
    by (metis framed_part)
  have ack: "ubx_build_ack 78 0x06 0x8A = Inr ?ack"
    by (simp add: ubx_build_ack_def ubx_build_frame_def ubx_consts ubx_ids Let_def case_prod_beta ubx_checksum_def byte_of)
  have ids: "UBX_CLASS_CFG = 0x06" "UBX_CLASS_MON \<noteq> 0x06" "UBX_CFG_MSG \<noteq> 0x8A" "UBX_CFG_VALSET = 0x8A" "DOLLAR \<noteq> 0xB5"
      "UBX_SYNC1 = 0xB5" "UBX_SYNC2 = 0x62" "UBX_CFGKEY_INFIL_NCNOTHRS = 0x201100AA"
    by (simp_all add: ubx_ids ubx_consts DOLLAR_def UBX_CFGKEY_INFIL_NCNOTHRS_def)
  have eqs: "UBX_HDR_LEN + UBX_CFG_VALSET_HDR_LEN = 10" "UBX_CK_LEN = 2" "UBX_OVERHEAD + UBX_MON_VER_PAYLOAD_LEN = 78"
      "f ! 0 = 0xB5" "f ! 1 = 0x62" "f ! 2 = 0x06" "f ! 3 = 0x8A" "15 \<le> length f"
    using long assms(1) by (simp_all add: f ubx_consts UBX_CFG_VALSET_HDR_LEN_def)
  have "handle_cfg f n = respond (Inr ?ack) ?m"
    by (simp add: handle_cfg_def Let_def eqs ids kvs valset_scan_settings ack)
  moreover have "nsim_gnss_write_raw now f n = (length f, handle_cfg f n)"
  proof -
    have "f \<noteq> []" "\<not> length f < UBX_HDR_LEN" using eqs(8) by (auto simp: ubx_consts)
    then show ?thesis unfolding nsim_gnss_write_raw_def eqs ids using ids by simp
  qed
  ultimately have "count = length f" "n' = nsim_ubx_insert_locked ?ack ?m"
    using n' by (simp_all add: respond_def)
  moreover have "gnss_out ?m = gnss_out n" by (simp add: block_signal_def lock_moves split: option.split)
  ultimately show ?thesis
    by (auto simp: nsim_ubx_insert_locked_def block_signal_def lock_moves lock_status_defs word_gt_0 split: option.splits)
qed

lemma valset_frame_obeyed_witness:
  "signal_blocked (snd (nsim_gnss_write_raw \<lparr>tv_sec = 0, tv_nsec = 0\<rparr>
     ([0xB5, 0x62, 0x06, 0x8A, 14, 0] @ [0, 1, 0, 0] @ settings [(0x10110001, 1), (0x201100AA, 1)] @ [7, 7]) demo_receiver))"
  using valset_frame_obeyed [OF _ _ refl surjective_pairing, of "[0, 1, 0, 0]" "[(0x10110001, 1), (0x201100AA, 1)]"]
  by simp

text \<open>
  A setting with a value of four bytes in front of the jamming key hides it: the driver
  takes every value to be one byte long, loses its place, and does not see the request to block
  the signal that the frame makes.
\<close>

theorem valset_long_value_hides_key:
  "valset_scan (ubx_put_le32 0x40050024 @ ubx_put_le32 1 @ ubx_put_le32 UBX_CFGKEY_INFIL_NCNOTHRS @ [1]) = None"
  by (simp add: ubx_put_le32_def byte_of ubx_get_le32_def UBX_CFGKEY_INFIL_NCNOTHRS_def)

end
