(* ===== verification/Nsim_Dpll.thy ===== *)
theory Nsim_Dpll
  imports Nsim_Gnss Dpll_Core "HOL-Library.Monad_Syntax"
begin

text \<open>
  The DPLL devices and pins of netdevsim, \<open>netdevsim/dpll.c\<close>: the callbacks the DPLL core calls,
  and setting the whole up and taking it down. The driver's memory maps addresses to the
  structures it allocates; the private pointers it hands to the core are these addresses. An
  operation is \<open>None\<close> where an operation of the core faults.
\<close>

section \<open>The driver's memory\<close>

record nsim_mem =
  mem_dpll :: "nat \<Rightarrow> nsim_dpll"
  mem_pin :: "nat \<Rightarrow> nsim_dpll_pin"

text \<open>The addresses of the pin data inside \<open>struct nsim_dpll\<close> at address \<open>a\<close>.\<close>

definition gnss_pin_priv :: "nat \<Rightarrow> nat" where "gnss_pin_priv a = a + 1"
definition ext_pin_privs :: "nat \<Rightarrow> nat \<Rightarrow> nat" where "ext_pin_privs a i = a + 2 + i"

section \<open>Callbacks\<close>

definition DPLL_MODE_AUTOMATIC :: nat where "DPLL_MODE_AUTOMATIC = 2"
definition DPLL_LOCK_STATUS_ERROR_NONE :: nat where "DPLL_LOCK_STATUS_ERROR_NONE = 0"
definition DPLL_PIN_STATE_CONNECTED :: nat where "DPLL_PIN_STATE_CONNECTED = 1"
definition DPLL_PIN_DIRECTION_INPUT :: nat where "DPLL_PIN_DIRECTION_INPUT = 1"
definition DPLL_PIN_DIRECTION_OUTPUT :: nat where "DPLL_PIN_DIRECTION_OUTPUT = 2"
definition DPLL_TYPE_EEC :: nat where "DPLL_TYPE_EEC = 2"
definition DPLL_PIN_TYPE_EXT :: nat where "DPLL_PIN_TYPE_EXT = 2"
definition DPLL_PIN_TYPE_SYNCE_ETH_PORT :: nat where "DPLL_PIN_TYPE_SYNCE_ETH_PORT = 3"
definition DPLL_PIN_TYPE_GNSS :: nat where "DPLL_PIN_TYPE_GNSS = 5"
definition DPLL_PIN_FREQUENCY_1_HZ :: u64 where "DPLL_PIN_FREQUENCY_1_HZ = 1"
definition DPLL_PIN_FREQUENCY_10_MHZ :: u64 where "DPLL_PIN_FREQUENCY_10_MHZ = 10000000"

definition nsim_dpll_mode_get :: "nat \<Rightarrow> nat \<Rightarrow> nsim_mem \<Rightarrow> errno + nat" where
  "nsim_dpll_mode_get dpll priv m = Inr DPLL_MODE_AUTOMATIC"

definition nsim_dpll_lock_status_get :: "nat \<Rightarrow> nat \<Rightarrow> nsim_mem \<Rightarrow> errno + nat \<times> nat" where
  "nsim_dpll_lock_status_get dpll priv m =
     Inr (lock_status (mem_dpll m priv), DPLL_LOCK_STATUS_ERROR_NONE)"

definition nsim_dpll_device_ops :: "nsim_mem device_ops" where
  "nsim_dpll_device_ops =
     \<lparr>mode_get = Some nsim_dpll_mode_get, lock_status_get = Some nsim_dpll_lock_status_get,
      temp_get = None\<rparr>"

definition nsim_dpll_pin_frequency_get :: "(nsim_mem, u64) pin_get" where
  "nsim_dpll_pin_frequency_get pin pin_priv dpll priv m = Inr (np_frequency (mem_pin m pin_priv))"

definition nsim_dpll_pin_direction_get :: "(nsim_mem, nat) pin_get" where
  "nsim_dpll_pin_direction_get pin pin_priv dpll priv m = Inr (np_direction (mem_pin m pin_priv))"

definition nsim_dpll_pin_state_on_dpll_get :: "(nsim_mem, nat) pin_get" where
  "nsim_dpll_pin_state_on_dpll_get pin pin_priv dpll priv m = Inr DPLL_PIN_STATE_CONNECTED"

definition nsim_dpll_pin_phase_offset_get :: "(nsim_mem, int) pin_get" where
  "nsim_dpll_pin_phase_offset_get pin pin_priv dpll priv m = Inr 0"

definition nsim_dpll_gnss_pin_ops :: "nsim_mem pin_ops" where
  "nsim_dpll_gnss_pin_ops =
     \<lparr>frequency_set = None, frequency_get = Some nsim_dpll_pin_frequency_get, direction_set = None,
      direction_get = Some nsim_dpll_pin_direction_get, state_on_pin_get = None,
      state_on_dpll_get = Some nsim_dpll_pin_state_on_dpll_get, state_on_pin_set = None,
      state_on_dpll_set = None, prio_get = None, prio_set = None,
      phase_offset_get = Some nsim_dpll_pin_phase_offset_get, phase_adjust_get = None,
      phase_adjust_set = None, ffo_get = None\<rparr>"

definition nsim_dpll_rclk_pin_ops :: "nsim_mem pin_ops" where
  "nsim_dpll_rclk_pin_ops = nsim_dpll_gnss_pin_ops"

text \<open>The numbers of the tables, and a core whose tables are these.\<close>

definition DEVICE_OPS :: nat where "DEVICE_OPS = 1"
definition GNSS_PIN_OPS :: nat where "GNSS_PIN_OPS = 1"
definition RCLK_PIN_OPS :: nat where "RCLK_PIN_OPS = 2"

definition nsim_tables :: "nsim_mem dpll_env \<Rightarrow> bool" where
  "nsim_tables env \<longleftrightarrow> dev_table env DEVICE_OPS = nsim_dpll_device_ops
     \<and> pin_table env GNSS_PIN_OPS = nsim_dpll_gnss_pin_ops
     \<and> pin_table env RCLK_PIN_OPS = nsim_dpll_rclk_pin_ops"

section \<open>Setting up\<close>

definition NSIM_DPLL_CLOCK_ID :: u64 where "NSIM_DPLL_CLOCK_ID = 0"
definition NSIM_DPLL_PPS_IDX :: nat where "NSIM_DPLL_PPS_IDX = 0"
definition NSIM_DPLL_EEC_IDX :: nat where "NSIM_DPLL_EEC_IDX = 1"
definition NSIM_DPLL_GNSS_PIN_IDX :: nat where "NSIM_DPLL_GNSS_PIN_IDX = 0"
definition NSIM_DPLL_NUM_EXT_PINS :: nat where "NSIM_DPLL_NUM_EXT_PINS = 4"
definition NSIM_DPLL_EXT_PIN_BASE :: nat where "NSIM_DPLL_EXT_PIN_BASE = NSIM_DPLL_GNSS_PIN_IDX + 1"
definition THIS_MODULE :: nat where "THIS_MODULE = 1"

definition DPLL_PIN_FREQUENCY :: "u64 \<Rightarrow> pin_frequency" where
  "DPLL_PIN_FREQUENCY v = \<lparr>f_min = v, f_max = v\<rparr>"

definition plain_props :: "string \<Rightarrow> nat \<Rightarrow> pin_frequency list \<Rightarrow> pin_properties" where
  "plain_props label type freqs =
     \<lparr>board_label = Some label, panel_label = None, package_label = None, pp_type = type,
      capabilities = 0, freq_supported = freqs, phase_min = 0, phase_max = 0\<rparr>"

definition nsim_dpll_gnss_pin_props :: pin_properties where
  "nsim_dpll_gnss_pin_props =
     plain_props ''GNSS-1PPS'' DPLL_PIN_TYPE_GNSS [DPLL_PIN_FREQUENCY DPLL_PIN_FREQUENCY_1_HZ]"

definition nsim_dpll_ext_freq :: "pin_frequency list" where
  "nsim_dpll_ext_freq =
     [DPLL_PIN_FREQUENCY DPLL_PIN_FREQUENCY_1_HZ, DPLL_PIN_FREQUENCY DPLL_PIN_FREQUENCY_10_MHZ]"

definition nsim_dpll_ext_pin_labels :: "string list" where
  "nsim_dpll_ext_pin_labels = [''SMA1'', ''SMA2'', ''U.FL1'', ''U.FL2'']"

definition nsim_dpll_ext_pin_dirs :: "nat list" where
  "nsim_dpll_ext_pin_dirs =
     [DPLL_PIN_DIRECTION_INPUT, DPLL_PIN_DIRECTION_OUTPUT, DPLL_PIN_DIRECTION_INPUT,
      DPLL_PIN_DIRECTION_OUTPUT]"

text \<open>
  The world of a device: the DPLL core with the driver's memory, the pins of the network
  devices, and \<open>nsim_dev->dpll\<close>.
\<close>

record nsim_world =
  w_sys :: "nsim_mem dpll_sys"
  w_netdev :: "nat \<Rightarrow> nat option"
  w_dpll :: "nat option"

definition on_sys :: "(nsim_mem dpll_sys \<Rightarrow> ('r \<times> nsim_mem dpll_sys) option) \<Rightarrow> nsim_world
    \<Rightarrow> ('r \<times> nsim_world) option" where
  "on_sys f w = (case f (w_sys w) of None \<Rightarrow> None | Some (r, s) \<Rightarrow> Some (r, w\<lparr>w_sys := s\<rparr>))"

definition on_sys_only :: "(nsim_mem dpll_sys \<Rightarrow> nsim_mem dpll_sys option) \<Rightarrow> nsim_world \<Rightarrow> nsim_world option"
  where
  "on_sys_only f w = (case f (w_sys w) of None \<Rightarrow> None | Some s \<Rightarrow> Some (w\<lparr>w_sys := s\<rparr>))"

definition upd_nd :: "nat \<Rightarrow> (nsim_dpll \<Rightarrow> nsim_dpll) \<Rightarrow> nsim_world \<Rightarrow> nsim_world" where
  "upd_nd a f w =
     (let m = ddrv (w_sys w)
      in w\<lparr>w_sys := (w_sys w)\<lparr>ddrv := m\<lparr>mem_dpll := (mem_dpll m)(a := f (mem_dpll m a))\<rparr>\<rparr>\<rparr>)"

definition upd_np :: "nat \<Rightarrow> (nsim_dpll_pin \<Rightarrow> nsim_dpll_pin) \<Rightarrow> nsim_world \<Rightarrow> nsim_world" where
  "upd_np q f w =
     (let m = ddrv (w_sys w)
      in w\<lparr>w_sys := (w_sys w)\<lparr>ddrv := m\<lparr>mem_pin := (mem_pin m)(q := f (mem_pin m q))\<rparr>\<rparr>\<rparr>)"

definition the_nd :: "nat \<Rightarrow> nsim_world \<Rightarrow> nsim_dpll" where
  "the_nd a w = mem_dpll (ddrv (w_sys w)) a"

definition the_np :: "nat \<Rightarrow> nsim_world \<Rightarrow> nsim_dpll_pin" where
  "the_np q w = mem_pin (ddrv (w_sys w)) q"

text \<open>
  What the environment decides: where the allocations are and whether they succeed, the slots the
  core finds for devices and pins (by their index), and the results of the GNSS core and sysfs.
\<close>

record pin_choice =
  pc_mem :: bool
  pc_prop :: prop_mem
  pc_slot :: slot
  pc_refs :: "ref_mem \<times> ref_mem"

record init_choice =
  ic_ndpll :: "nat option"
  ic_dev :: "nat \<Rightarrow> bool \<times> slot"
  ic_dev_reg :: "nat \<Rightarrow> bool"
  ic_pin :: "nat \<Rightarrow> pin_choice"
  ic_npin :: "nat \<Rightarrow> nat option"
  ic_gnss_alloc :: bool
  ic_gnss_register :: ret
  ic_kobj :: bool
  ic_sysfs :: ret

record port =
  port_is_pf :: bool
  port_ns :: nat
  port_name :: string

definition zero_dpll :: nsim_dpll where
  "zero_dpll =
     \<lparr>pps_dpll = 0, eec_dpll = 0, gnss_pin = 0, ext_pins = [], port_pins = [], clock_id = 0,
      gnss_dev = False, ubx_timer = False, ntf_timer = False, holdover_timer = False,
      ntf_work = False, ubx_nav_enabled = False, signal_blocked = False, gnss_gps_fix = 0,
      lock_status = 0, sysfs_kobj = False, gnss_out = []\<rparr>"

text \<open>A step that may fail, what to undo then, and what comes next: the \<open>goto\<close>s of the code.\<close>

definition or_else ::
    "(ret \<times> 'w) option \<Rightarrow> ('w \<Rightarrow> 'w option) \<Rightarrow> ('w \<Rightarrow> (ret \<times> 'w) option) \<Rightarrow> (ret \<times> 'w) option" where
  "or_else r undo next =
     (case r of
        None \<Rightarrow> None
      | Some (Some e, w) \<Rightarrow> (case undo w of None \<Rightarrow> None | Some w' \<Rightarrow> Some (Some e, w'))
      | Some (None, w) \<Rightarrow> next w)"

subsection \<open>Undoing\<close>

definition err_pps_put :: "nat \<Rightarrow> nsim_world \<Rightarrow> nsim_world option" where
  "err_pps_put a w = on_sys_only (dpll_device_put (pps_dpll (the_nd a w))) w"

definition err_pps_unreg :: "nsim_mem dpll_env \<Rightarrow> nat \<Rightarrow> nsim_world \<Rightarrow> nsim_world option" where
  "err_pps_unreg env a w =
     do { w \<leftarrow> on_sys_only (dpll_device_unregister env (pps_dpll (the_nd a w)) DEVICE_OPS a) w;
          err_pps_put a w }"

definition err_eec_put :: "nsim_mem dpll_env \<Rightarrow> nat \<Rightarrow> nsim_world \<Rightarrow> nsim_world option" where
  "err_eec_put env a w =
     do { w \<leftarrow> on_sys_only (dpll_device_put (eec_dpll (the_nd a w))) w;
          err_pps_unreg env a w }"

definition err_eec_unreg :: "nsim_mem dpll_env \<Rightarrow> nat \<Rightarrow> nsim_world \<Rightarrow> nsim_world option" where
  "err_eec_unreg env a w =
     do { w \<leftarrow> on_sys_only (dpll_device_unregister env (eec_dpll (the_nd a w)) DEVICE_OPS a) w;
          err_eec_put env a w }"

definition err_gnss_put :: "nsim_mem dpll_env \<Rightarrow> nat \<Rightarrow> nsim_world \<Rightarrow> nsim_world option" where
  "err_gnss_put env a w =
     do { w \<leftarrow> on_sys_only (dpll_pin_put (gnss_pin (the_nd a w))) w;
          err_eec_unreg env a w }"

definition gnss_pin_unreg :: "nsim_mem dpll_env \<Rightarrow> nat \<Rightarrow> nsim_world \<Rightarrow> nsim_world option" where
  "gnss_pin_unreg env a w =
     on_sys_only (dpll_pin_unregister env (pps_dpll (the_nd a w)) (gnss_pin (the_nd a w))
       GNSS_PIN_OPS (gnss_pin_priv a)) w"

text \<open>The loops over the external pins go downwards.\<close>

primrec drop_ext_pins ::
    "nsim_mem dpll_env \<Rightarrow> nat \<Rightarrow> (nat \<times> nat) list \<Rightarrow> nsim_world \<Rightarrow> nsim_world option" where
  "drop_ext_pins env a [] w = Some w"
| "drop_ext_pins env a (ip # ips) w =
     do { w \<leftarrow> on_sys_only (dpll_pin_unregister env (pps_dpll (the_nd a w)) (snd ip) GNSS_PIN_OPS
                 (ext_pin_privs a (fst ip))) w;
          w \<leftarrow> on_sys_only (dpll_pin_put (snd ip)) w;
          drop_ext_pins env a ips w }"

definition ext_pins_cleanup :: "nsim_mem dpll_env \<Rightarrow> nat \<Rightarrow> nsim_world \<Rightarrow> nsim_world option" where
  "ext_pins_cleanup env a w =
     do { w \<leftarrow> drop_ext_pins env a (rev (enumerate 0 (ext_pins (the_nd a w)))) w;
          Some (upd_nd a (\<lambda>n. n\<lparr>ext_pins := []\<rparr>) w) }"

definition err_ext_cleanup :: "nsim_mem dpll_env \<Rightarrow> nat \<Rightarrow> nsim_world \<Rightarrow> nsim_world option" where
  "err_ext_cleanup env a w =
     do { w \<leftarrow> ext_pins_cleanup env a w;
          w \<leftarrow> gnss_pin_unreg env a w;
          err_gnss_put env a w }"

primrec drop_port_pins :: "nsim_mem dpll_env \<Rightarrow> nat \<Rightarrow> nat list \<Rightarrow> nsim_world \<Rightarrow> nsim_world option" where
  "drop_port_pins env a [] w = Some w"
| "drop_port_pins env a (q # qs) w =
     do { let npin = the_np q w;
          let w = w\<lparr>w_netdev := dpll_netdev_pin_clear (np_ns npin) (w_netdev w)\<rparr>;
          w \<leftarrow> on_sys_only (dpll_pin_unregister env (pps_dpll (the_nd a w)) (np_pin npin)
                 RCLK_PIN_OPS q) w;
          w \<leftarrow> on_sys_only (dpll_pin_put (np_pin npin)) w;
          drop_port_pins env a qs (upd_nd a (\<lambda>n. n\<lparr>port_pins := remove1 q (port_pins n)\<rparr>) w) }"

definition nsim_dpll_cleanup_port_pins ::
    "nsim_mem dpll_env \<Rightarrow> nat \<Rightarrow> nsim_world \<Rightarrow> nsim_world option" where
  "nsim_dpll_cleanup_port_pins env a w = drop_port_pins env a (port_pins (the_nd a w)) w"

definition err_ports_cleanup :: "nsim_mem dpll_env \<Rightarrow> nat \<Rightarrow> nsim_world \<Rightarrow> nsim_world option" where
  "err_ports_cleanup env a w =
     do { w \<leftarrow> nsim_dpll_cleanup_port_pins env a
                 (upd_nd a (\<lambda>n. n\<lparr>ntf_timer := False, ntf_work := False\<rparr>) w);
          err_ext_cleanup env a w }"

definition drop_gnss :: "nsim_dpll \<Rightarrow> nsim_dpll" where
  "drop_gnss n =
     (if gnss_dev n then n\<lparr>ubx_nav_enabled := False, ubx_timer := False, gnss_dev := False\<rparr> else n)"

definition err_gnss_cleanup :: "nsim_mem dpll_env \<Rightarrow> nat \<Rightarrow> nsim_world \<Rightarrow> nsim_world option" where
  "err_gnss_cleanup env a w = err_ports_cleanup env a (upd_nd a drop_gnss w)"

definition err_sysfs_kobj :: "nsim_mem dpll_env \<Rightarrow> nat \<Rightarrow> nsim_world \<Rightarrow> nsim_world option" where
  "err_sysfs_kobj env a w = err_gnss_cleanup env a (upd_nd a (\<lambda>n. n\<lparr>sysfs_kobj := False\<rparr>) w)"

subsection \<open>The stages\<close>

definition get_device ::
    "init_choice \<Rightarrow> nat \<Rightarrow> (nat \<Rightarrow> nsim_dpll \<Rightarrow> nsim_dpll) \<Rightarrow> nat \<Rightarrow> nsim_world \<Rightarrow> (ret \<times> nsim_world) option"
  where
  "get_device ch a field idx w =
     do { (g, w) \<leftarrow> on_sys (\<lambda>s. Some (dpll_device_get (fst (ic_dev ch idx)) (snd (ic_dev ch idx))
                               NSIM_DPLL_CLOCK_ID idx THIS_MODULE s)) w;
          case g of
            Inl e \<Rightarrow> Some (Some e, w)
          | Inr d \<Rightarrow> Some (None, upd_nd a (field d) w) }"

definition get_pin ::
    "init_choice \<Rightarrow> nat \<Rightarrow> pin_properties \<Rightarrow> nsim_world \<Rightarrow> ((errno + nat) \<times> nsim_world) option" where
  "get_pin ch idx props w =
     (let c = ic_pin ch idx
      in on_sys (dpll_pin_get (pc_mem c) (pc_prop c) (pc_slot c) NSIM_DPLL_CLOCK_ID idx THIS_MODULE props) w)"

definition get_gnss_pin :: "init_choice \<Rightarrow> nat \<Rightarrow> nsim_world \<Rightarrow> (ret \<times> nsim_world) option" where
  "get_gnss_pin ch a w =
     do { let w = upd_np (gnss_pin_priv a) (\<lambda>q. q\<lparr>np_direction := DPLL_PIN_DIRECTION_INPUT,
                    np_frequency := DPLL_PIN_FREQUENCY_1_HZ\<rparr>) w;
          (g, w) \<leftarrow> get_pin ch NSIM_DPLL_GNSS_PIN_IDX nsim_dpll_gnss_pin_props w;
          case g of
            Inl e \<Rightarrow> Some (Some e, w)
          | Inr p \<Rightarrow> Some (None, upd_nd a (\<lambda>n. n\<lparr>gnss_pin := p\<rparr>) w) }"

primrec init_ext_pins ::
    "nsim_mem dpll_env \<Rightarrow> init_choice \<Rightarrow> nat \<Rightarrow> nat list \<Rightarrow> nsim_world \<Rightarrow> (ret \<times> nsim_world) option" where
  "init_ext_pins env ch a [] w = Some (None, w)"
| "init_ext_pins env ch a (i # is) w =
     do { (g, w) \<leftarrow> get_pin ch (NSIM_DPLL_EXT_PIN_BASE + i)
                      (plain_props (nsim_dpll_ext_pin_labels ! i) DPLL_PIN_TYPE_EXT nsim_dpll_ext_freq) w;
          case g of
            Inl e \<Rightarrow> Some (Some e, w)
          | Inr epin \<Rightarrow>
              do { let w = upd_np (ext_pin_privs a i) (\<lambda>q. q\<lparr>np_direction := nsim_dpll_ext_pin_dirs ! i,
                             np_frequency := DPLL_PIN_FREQUENCY_1_HZ\<rparr>) w;
                   (r, w) \<leftarrow> on_sys (dpll_pin_register env (pc_refs (ic_pin ch (NSIM_DPLL_EXT_PIN_BASE + i)))
                               (pps_dpll (the_nd a w)) epin GNSS_PIN_OPS (ext_pin_privs a i)) w;
                   case r of
                     Some e \<Rightarrow> do { w \<leftarrow> on_sys_only (dpll_pin_put epin) w; Some (Some e, w) }
                   | None \<Rightarrow> init_ext_pins env ch a is
                               (upd_nd a (\<lambda>n. n\<lparr>ext_pins := ext_pins n @ [epin]\<rparr>) w) } }"

primrec init_port_pins ::
    "nsim_mem dpll_env \<Rightarrow> init_choice \<Rightarrow> nat \<Rightarrow> nat \<Rightarrow> port list \<Rightarrow> nsim_world
       \<Rightarrow> (ret \<times> nsim_world) option" where
  "init_port_pins env ch a k [] w = Some (None, w)"
| "init_port_pins env ch a k (port # ports) w =
     (if \<not> port_is_pf port then init_port_pins env ch a k ports w
      else
        case ic_npin ch k of
          None \<Rightarrow> Some (Some ENOMEM, w)
        | Some q \<Rightarrow>
            do { let w = upd_np q (\<lambda>_. \<lparr>np_pin = 0, np_ns = port_ns port,
                           np_direction = DPLL_PIN_DIRECTION_OUTPUT,
                           np_frequency = DPLL_PIN_FREQUENCY_10_MHZ\<rparr>) w;
                 (g, w) \<leftarrow> get_pin ch k (plain_props (port_name port) DPLL_PIN_TYPE_SYNCE_ETH_PORT
                             [DPLL_PIN_FREQUENCY DPLL_PIN_FREQUENCY_10_MHZ]) w;
                 case g of
                   Inl e \<Rightarrow> Some (Some e, w)
                 | Inr p \<Rightarrow>
                     do { (r, w) \<leftarrow> on_sys (dpll_pin_register env (pc_refs (ic_pin ch k))
                                      (pps_dpll (the_nd a w)) p RCLK_PIN_OPS q) w;
                          case r of
                            Some e \<Rightarrow> do { w \<leftarrow> on_sys_only (dpll_pin_put p) w; Some (Some e, w) }
                          | None \<Rightarrow>
                              init_port_pins env ch a (Suc k) ports
                                (upd_nd a (\<lambda>n. n\<lparr>port_pins := port_pins n @ [q]\<rparr>)
                                (upd_np q (\<lambda>np. np\<lparr>np_pin := p\<rparr>)
                                (w\<lparr>w_netdev := dpll_netdev_pin_set (port_ns port) (Some p) (w_netdev w)\<rparr>))) } })"

definition start_timers :: "nat \<Rightarrow> nsim_world \<Rightarrow> nsim_world" where
  "start_timers a w =
     (upd_nd a (\<lambda>n. n\<lparr>ntf_work := False, ntf_timer := True, holdover_timer := False\<rparr>) w)\<lparr>w_dpll := Some a\<rparr>"

definition init_gnss :: "init_choice \<Rightarrow> nat \<Rightarrow> nsim_world \<Rightarrow> (ret \<times> nsim_world) option" where
  "init_gnss ch a w =
     (if \<not> ic_gnss_alloc ch then Some (Some ENOMEM, w)
      else case ic_gnss_register ch of
             Some e \<Rightarrow> Some (Some e, w)
           | None \<Rightarrow>
               Some (None, upd_nd a (\<lambda>n. n\<lparr>gnss_dev := True, ubx_timer := False, ubx_nav_enabled := False,
                                        signal_blocked := False, gnss_gps_fix := 0x03\<rparr>) w))"

definition init_kobj :: "init_choice \<Rightarrow> nat \<Rightarrow> nsim_world \<Rightarrow> (ret \<times> nsim_world) option" where
  "init_kobj ch a w =
     Some (if ic_kobj ch then (None, upd_nd a (\<lambda>n. n\<lparr>sysfs_kobj := True\<rparr>) w) else (Some ENOMEM, w))"

subsection \<open>Notifications\<close>

text \<open>Sending them ignores the results.\<close>

primrec send_all :: "(nsim_mem dpll_sys \<Rightarrow> (ret \<times> nsim_mem dpll_sys) option) list \<Rightarrow> nsim_world \<Rightarrow> nsim_world option"
  where
  "send_all [] w = Some w"
| "send_all (f # fs) w = do { (_, w) \<leftarrow> on_sys f w; send_all fs w }"

definition change_ntfs :: "nsim_mem dpll_env \<Rightarrow> nsim_dpll
    \<Rightarrow> (nsim_mem dpll_sys \<Rightarrow> (ret \<times> nsim_mem dpll_sys) option) list" where
  "change_ntfs env n =
     [dpll_device_change_ntf env (pps_dpll n), dpll_device_change_ntf env (eec_dpll n),
      dpll_pin_change_ntf env (gnss_pin n)] @ map (dpll_pin_change_ntf env) (ext_pins n)"

definition nsim_dpll_ntf_work :: "nsim_mem dpll_env \<Rightarrow> nat \<Rightarrow> nsim_world \<Rightarrow> nsim_world option" where
  "nsim_dpll_ntf_work env a w =
     send_all (change_ntfs env (the_nd a w)) (upd_nd a (\<lambda>n. n\<lparr>ntf_work := False\<rparr>) w)"

definition initial_ntfs :: "nsim_mem dpll_env \<Rightarrow> nat \<Rightarrow> nsim_world \<Rightarrow> (ret \<times> nsim_world) option" where
  "initial_ntfs env a w =
     do { w' \<leftarrow> send_all (change_ntfs env (the_nd a w)
                  @ map (\<lambda>q. dpll_pin_change_ntf env (np_pin (the_np q w))) (port_pins (the_nd a w))) w;
          Some (None, w') }"

subsection \<open>Init and exit\<close>

definition nsim_dpll_init ::
    "nsim_mem dpll_env \<Rightarrow> init_choice \<Rightarrow> port list \<Rightarrow> nsim_world \<Rightarrow> (ret \<times> nsim_world) option" where
  "nsim_dpll_init env ch ports w =
     (case ic_ndpll ch of
        None \<Rightarrow> Some (Some ENOMEM, w)
      | Some a \<Rightarrow>
          or_else (get_device ch a (\<lambda>d n. n\<lparr>pps_dpll := d\<rparr>) NSIM_DPLL_PPS_IDX
                    (upd_nd a (\<lambda>_. zero_dpll\<lparr>clock_id := NSIM_DPLL_CLOCK_ID,
                       lock_status := DPLL_LOCK_STATUS_LOCKED_HO_ACQ\<rparr>) w)) Some (\<lambda>w.
          or_else (on_sys (dpll_device_register env (ic_dev_reg ch NSIM_DPLL_PPS_IDX) (pps_dpll (the_nd a w))
                     DPLL_TYPE_PPS DEVICE_OPS a) w) (err_pps_put a) (\<lambda>w.
          or_else (get_device ch a (\<lambda>d n. n\<lparr>eec_dpll := d\<rparr>) NSIM_DPLL_EEC_IDX w) (err_pps_unreg env a) (\<lambda>w.
          or_else (on_sys (dpll_device_register env (ic_dev_reg ch NSIM_DPLL_EEC_IDX) (eec_dpll (the_nd a w))
                     DPLL_TYPE_EEC DEVICE_OPS a) w) (err_eec_put env a) (\<lambda>w.
          or_else (get_gnss_pin ch a w) (err_eec_unreg env a) (\<lambda>w.
          or_else (on_sys (dpll_pin_register env (pc_refs (ic_pin ch NSIM_DPLL_GNSS_PIN_IDX))
                     (pps_dpll (the_nd a w)) (gnss_pin (the_nd a w)) GNSS_PIN_OPS (gnss_pin_priv a)) w)
                  (err_gnss_put env a) (\<lambda>w.
          or_else (init_ext_pins env ch a [0..<NSIM_DPLL_NUM_EXT_PINS] w) (err_ext_cleanup env a) (\<lambda>w.
          or_else (init_port_pins env ch a (NSIM_DPLL_EXT_PIN_BASE + NSIM_DPLL_NUM_EXT_PINS) ports
                    (start_timers a w)) (err_ports_cleanup env a) (\<lambda>w.
          or_else (init_gnss ch a w) (err_ports_cleanup env a) (\<lambda>w.
          or_else (init_kobj ch a w) (err_gnss_cleanup env a) (\<lambda>w.
          or_else (Some (ic_sysfs ch, w)) (err_sysfs_kobj env a)
                  (initial_ntfs env a))))))))))))"

definition nsim_dpll_exit :: "nsim_mem dpll_env \<Rightarrow> nsim_world \<Rightarrow> nsim_world option" where
  "nsim_dpll_exit env w =
     (case w_dpll w of
        None \<Rightarrow> Some w
      | Some a \<Rightarrow>
          do { let w = upd_nd a (\<lambda>n. n\<lparr>sysfs_kobj := False\<rparr>) w;
               let w = upd_nd a (\<lambda>n. n\<lparr>ntf_timer := False, holdover_timer := False, ntf_work := False\<rparr>) w;
               let w = upd_nd a (\<lambda>n. if gnss_dev n then n\<lparr>ubx_nav_enabled := False, ubx_timer := False\<rparr> else n) w;
               w \<leftarrow> nsim_dpll_cleanup_port_pins env a w;
               w \<leftarrow> ext_pins_cleanup env a w;
               w \<leftarrow> gnss_pin_unreg env a w;
               w \<leftarrow> on_sys_only (dpll_pin_put (gnss_pin (the_nd a w))) w;
               w \<leftarrow> on_sys_only (dpll_device_unregister env (eec_dpll (the_nd a w)) DEVICE_OPS a) w;
               w \<leftarrow> on_sys_only (dpll_device_put (eec_dpll (the_nd a w))) w;
               w \<leftarrow> on_sys_only (dpll_device_unregister env (pps_dpll (the_nd a w)) DEVICE_OPS a) w;
               w \<leftarrow> on_sys_only (dpll_device_put (pps_dpll (the_nd a w))) w;
               Some (w\<lparr>w_dpll := None\<rparr>) })"

end
