(* ===== verification/Dpll_Undo.thy ===== *)
theory Dpll_Undo
  imports Dpll_Requests Dpll_Onpin
begin

text \<open>
  Operations of the DPLL core and what takes them back. On tables that are in service each of the four acquiring
  operations returns; when it fails, the tables are the same; when it succeeds, its counterpart
  gives back the tables before it, whatever else has happened to messages and drivers meanwhile.
\<close>

section \<open>Tables in service\<close>

definition in_service :: "'d dpll_env \<Rightarrow> 'd dpll_sys \<Rightarrow> bool" where
  "in_service env s \<longleftrightarrow> serviceable env s \<and> (\<forall>d. dev_marked s d \<longrightarrow> device_answerable env s d)"

lemma same_tables_sym: "same_tables s t \<Longrightarrow> same_tables t s"
  by (simp add: same_tables_def)

lemma in_service_same: "same_tables s t \<Longrightarrow> in_service env t = in_service env s"
  using serviceable_same [of s t env]
  by (simp add: in_service_def same_tables_def dev_marked_def device_answerable_def cong: option.case_cong)

lemma in_service_wf: "in_service env s \<Longrightarrow> Dpll_Registry.wf s"
  by (simp add: in_service_def serviceable_def)

text \<open>Taking an operation back: on every system with the tables it left.\<close>

definition undoes :: "('d dpll_sys \<Rightarrow> 'd dpll_sys option) \<Rightarrow> 'd dpll_sys \<Rightarrow> 'd dpll_sys \<Rightarrow> bool" where
  "undoes u s t \<longleftrightarrow> (\<forall>t'. same_tables t t' \<longrightarrow> (\<exists>s'. u t' = Some s' \<and> same_tables s s' \<and> ddrv s' = ddrv t'))"

lemma undoes_tables: "undoes u s t \<Longrightarrow> same_tables s s1 \<Longrightarrow> same_tables t t1 \<Longrightarrow> undoes u s1 t1"
  by (simp add: undoes_def same_tables_def)

text \<open>A pin stays answerable when marks and pins are only added.\<close>

lemma answerable_more:
  assumes "answerable env s p" and "xa_load (pin_xa s) p = Some pin" and "xa_load (pin_xa t) p = Some pin'"
    and "dpll_refs pin' = dpll_refs pin" and "parent_refs pin' = parent_refs pin"
    and "\<And>d. dev_marked s d \<Longrightarrow> dev_marked t d"
    and "\<And>q. xa_load (pin_xa s) q \<noteq> None \<Longrightarrow> xa_load (pin_xa t) q \<noteq> None"
  shows "answerable env t p"
  using assms unfolding answerable_def by auto

lemma device_answerable_same:
  "device_answerable env s d \<Longrightarrow> xa_load (device_xa s) d = Some x \<Longrightarrow> xa_load (device_xa t) d = Some y \<Longrightarrow>
     d_regs y = d_regs x \<Longrightarrow> device_answerable env t d"
  by (simp add: device_answerable_def)

lemma in_service_devices:
  assumes "in_service env s" and "Dpll_Registry.wf t" and "pin_xa t = pin_xa s"
    and "\<And>d. dev_marked s d \<Longrightarrow> dev_marked t d"
    and "\<And>d. dev_marked t d \<Longrightarrow> device_answerable env t d"
  shows "in_service env t"
proof -
  have "answerable env t p" if p: "pin_marked t p" for p
  proof -
    have ans: "answerable env s p"
      using p assms(1,3) by (simp add: in_service_def serviceable_def pin_marked_def)
    then obtain pin where "xa_load (pin_xa s) p = Some pin"
      by (auto simp: answerable_def split: option.splits)
    then show ?thesis
      by (intro answerable_more [OF ans]) (auto simp: assms(3) intro: assms(4))
  qed
  then show ?thesis using assms(2,5) by (simp add: in_service_def serviceable_def)
qed

section \<open>Getting and putting a device\<close>

definition new_device :: "u64 \<Rightarrow> nat \<Rightarrow> nat \<Rightarrow> dpll_device" where
  "new_device clock_id idx module =
     \<lparr>device_idx = idx, d_clock_id = clock_id, d_module = module, d_type = 0, pin_refs = [],
      d_refcount = 1, d_regs = [], d_registered = False\<rparr>"

definition is_device :: "u64 \<Rightarrow> nat \<Rightarrow> nat \<Rightarrow> dpll_device \<Rightarrow> bool" where
  "is_device clock_id idx module x \<longleftrightarrow> d_clock_id x = clock_id \<and> device_idx x = idx \<and> d_module x = module"

lemma device_get_cases:
  assumes "dpll_device_get mem slot clock_id idx module s = (g, t)" and "xa_ok (device_xa s)"
    and "\<forall>i. slot = Slot i \<or> slot = Slot_wrapped i \<longrightarrow> xa_load (device_xa s) i = None"
  obtains
    (failed) e where "g = Inl e" "t = s"
  | (old) d x where "g = Inr d" "xa_load (device_xa s) d = Some x" "is_device clock_id idx module x"
      "t = upd_dev d (\<lambda>x. x\<lparr>d_refcount := Suc (d_refcount x)\<rparr>) s"
  | (new) d where "g = Inr d" "xa_load (device_xa s) d = None" "slot = Slot d \<or> slot = Slot_wrapped d"
      "t = s\<lparr>device_xa := xa_store d (new_device clock_id idx module) (device_xa s)\<rparr>"
proof (cases "find (\<lambda>(i, x). d_clock_id x = clock_id \<and> device_idx x = idx \<and> d_module x = module) (device_xa s)")
  case None
  then have run: "dpll_device_alloc mem slot clock_id idx module s = (g, t)"
    using assms(1) by (simp add: dpll_device_get_def)
  have alloc: "dpll_device_alloc mem slot clock_id idx module s =
    (if \<not> mem then (Inl ENOMEM, s)
     else case slot of
       Slot_err e \<Rightarrow> (Inl e, s)
     | Slot i \<Rightarrow> (Inr i, s\<lparr>device_xa := xa_store i (new_device clock_id idx module) (device_xa s)\<rparr>)
     | Slot_wrapped i \<Rightarrow> (Inr i, s\<lparr>device_xa := xa_store i (new_device clock_id idx module) (device_xa s)\<rparr>))"
    by (simp add: dpll_device_alloc_def new_device_def Let_def cong: slot.case_cong)
  show ?thesis
  proof (cases g)
    case (Inl e)
    then have "t = s"
      using run unfolding alloc by (cases mem; cases slot) simp_all
    then show ?thesis by (rule failed [OF Inl])
  next
    case (Inr d)
    then have "slot = Slot d \<or> slot = Slot_wrapped d"
      using run unfolding alloc by (cases mem; cases slot) simp_all
    moreover have "t = s\<lparr>device_xa := xa_store d (new_device clock_id idx module) (device_xa s)\<rparr>"
      using run Inr unfolding alloc by (cases mem; cases slot) simp_all
    ultimately show ?thesis using assms(3) by (intro new [OF Inr]) blast+
  qed
next
  case (Some ix)
  obtain i x where ix: "ix = (i, x)" by fastforce
  have "xa_load (device_xa s) i = Some x" "is_device clock_id idx module x"
    using find_xa_load [OF assms(2) Some [unfolded ix]] by (simp_all add: is_device_def)
  moreover have "g = Inr i" "t = upd_dev i (\<lambda>x. x\<lparr>d_refcount := Suc (d_refcount x)\<rparr>) s"
    using assms(1) Some by (simp_all add: dpll_device_get_def ix)
  ultimately show ?thesis by (intro old)
qed

lemma device_put_undoes:
  assumes ok: "xa_ok (device_xa s)"
    and t: "same_tables (upd_dev d (\<lambda>x. x\<lparr>d_refcount := Suc (d_refcount x)\<rparr>) s) t"
    and d: "xa_load (device_xa s) d = Some x" "0 < d_refcount x"
  shows "\<exists>s'. dpll_device_put d t = Some s' \<and> same_tables s s' \<and> ddrv s' = ddrv t"
proof -
  have "xa_modify d (\<lambda>x. x\<lparr>d_refcount := d_refcount x - 1\<rparr>)
      (xa_modify d (\<lambda>x. x\<lparr>d_refcount := Suc (d_refcount x)\<rparr>) (device_xa s)) = device_xa s"
    by (simp add: xa.modify_modify ok, rule xa.modify_id [OF ok]) simp
  then show ?thesis
    using t d by (simp add: dpll_device_put_def same_tables_def xa_load_modify)
qed

lemma device_put_new_undoes:
  assumes ok: "xa_ok (device_xa s)" and d: "xa_load (device_xa s) d = None"
    and t: "same_tables (s\<lparr>device_xa := xa_store d x (device_xa s)\<rparr>) t" and x: "d_refcount x = 1"
  shows "\<exists>s'. dpll_device_put d t = Some s' \<and> same_tables s s' \<and> ddrv s' = ddrv t"
  using t x by (simp add: dpll_device_put_def same_tables_def xa_load_store ok xa.erase_store [OF ok d])

lemma xa_modify_store: "xa_ok xa \<Longrightarrow> xa_modify i f (xa_store i v xa) = xa_store i (f v) xa"
  by (rule xa.modify_store)

text \<open>
  A device that is got can be put back, also after it has been registered and unregistered, which
  leaves its type set, provided that a device that was there already had that type.
\<close>

lemma device_get_stage:
  assumes sv: "in_service env s"
    and free: "\<forall>i. slot = Slot i \<or> slot = Slot_wrapped i \<longrightarrow> xa_load (device_xa s) i = None"
    and own: "\<forall>d x. xa_load (device_xa s) d = Some x \<longrightarrow> is_device clock_id idx module x \<longrightarrow>
       0 < d_refcount x \<and> d_type x = type"
    and run: "dpll_device_get mem slot clock_id idx module s = (g, t)"
  shows "in_service env t \<and> ddrv t = ddrv s \<and> pin_xa t = pin_xa s \<and> dev_regs t = dev_regs s
    \<and> dev_marked t = dev_marked s
    \<and> (\<forall>e. g = Inl e \<longrightarrow> t = s)
    \<and> (\<forall>d. g = Inr d \<longrightarrow> undoes (dpll_device_put d) s t
         \<and> undoes (dpll_device_put d) s (upd_dev d (\<lambda>x. x\<lparr>d_type := type\<rparr>) t)
         \<and> (\<exists>x. xa_load (device_xa t) d = Some x \<and> is_device clock_id idx module x
              \<and> (x = new_device clock_id idx module
                 \<or> (\<exists>y. xa_load (device_xa s) d = Some y \<and> x = y\<lparr>d_refcount := Suc (d_refcount y)\<rparr>)))
         \<and> (xa_load (device_xa s) d \<noteq> None \<or> slot = Slot d \<or> slot = Slot_wrapped d)
         \<and> (\<forall>d'. d' \<noteq> d \<longrightarrow> xa_load (device_xa t) d' = xa_load (device_xa s) d'))"
proof -
  note wf = in_service_wf [OF sv]
  then have ok: "xa_ok (device_xa s)" by (simp add: wf_def)
  have wft: "Dpll_Registry.wf t" "dev_regs t = dev_regs s"
    using device_get_wf [OF wf, of slot mem clock_id idx module] free run by auto
  from run ok free show ?thesis
  proof (cases rule: device_get_cases)
    case (failed e)
    then show ?thesis using sv by simp
  next
    case (old d x)
    have "0 < d_refcount x" and type: "d_type x = type" using own old(2,3) by auto
    then have u: "undoes (dpll_device_put d) s t"
      unfolding undoes_def old(4) using device_put_undoes [OF ok _ old(2)] by blast
    have "upd_dev d (\<lambda>x. x\<lparr>d_type := type\<rparr>) t = t"
      by (rule upd_dev_id [where dpll = "x\<lparr>d_refcount := Suc (d_refcount x)\<rparr>"])
        (use ok old(2) type in \<open>simp_all add: old(4) xa_ok_modify xa_load_modify\<close>)
    moreover have mark: "dev_marked t = dev_marked s"
      using old(2) by (auto simp: old(4) dev_marked_def xa_load_modify fun_eq_iff)
    moreover have "in_service env t"
    proof (rule in_service_devices [OF sv wft(1)])
      fix e
      assume "dev_marked t e"
      then have "device_answerable env s e" using sv mark by (simp add: in_service_def)
      then show "device_answerable env t e"
        using old(2) by (auto simp: old(4) device_answerable_def xa_load_modify split: option.splits)
    qed (simp_all add: old(4) mark [unfolded old(4)])
    ultimately show ?thesis
      using u old wft(2) by (auto simp: xa_load_modify is_device_def)
  next
    case (new d)
    have u: "undoes (dpll_device_put d) s (upd_dev d f t)" if "d_refcount (f (new_device clock_id idx module)) = 1" for f
      unfolding undoes_def using device_put_new_undoes [OF ok new(2)] that
      by (simp add: new(4) upd_dev_def xa_modify_store ok)
    have "undoes (dpll_device_put d) s t"
      using u [of "\<lambda>x. x"] by (simp add: new_device_def upd_dev_def xa_modify_def)
    moreover have mark: "dev_marked t = dev_marked s"
      using new(2) ok by (auto simp: new(4) dev_marked_def xa_load_store new_device_def fun_eq_iff)
    moreover have "in_service env t"
    proof (rule in_service_devices [OF sv wft(1)])
      fix e
      assume "dev_marked t e"
      then have "device_answerable env s e" using sv mark by (simp add: in_service_def)
      then show "device_answerable env t e"
        using new(2) ok by (auto simp: new(4) device_answerable_def xa_load_store split: option.splits)
    qed (simp_all add: new(4) mark [unfolded new(4)])
    ultimately show ?thesis
      using u [of "\<lambda>x. x\<lparr>d_type := type\<rparr>"] new wft(2) ok
      by (auto simp: xa_load_store is_device_def new_device_def)
  qed
qed

section \<open>Registering and unregistering a device\<close>

lemma device_event_runs:
  "device_answerable env s d \<Longrightarrow> \<exists>r s'. dpll_device_event_send env event d s = Some (r, s')"
  by (auto simp: dpll_device_event_send_def device_answerable_def multicast_runs no_fault_device
      split: option.splits)

abbreviation registered_by :: "nat \<Rightarrow> nat \<Rightarrow> nat \<Rightarrow> dpll_device \<Rightarrow> dpll_device" where
  "registered_by type ops priv x \<equiv> x\<lparr>d_type := type, d_regs := d_regs x @ [\<lparr>dr_ops = ops, dr_priv = priv\<rparr>],
     d_registered := True\<rparr>"

lemma device_register_runs:
  assumes "xa_load (device_xa s) d = Some x" and "\<lparr>dr_ops = ops, dr_priv = priv\<rparr> \<notin> set (d_regs x)"
  obtains ret t where "dpll_device_register env mem d type ops priv s = Some (ret, t)"
proof -
  let ?s = "upd_dev d (\<lambda>x. x\<lparr>d_registered := True\<rparr>) (upd_dev d (\<lambda>dpll. dpll\<lparr>d_type := type,
              d_regs := d_regs dpll @ [\<lparr>dr_ops = ops, dr_priv = priv\<rparr>]\<rparr>) s)"
  have find: "dpll_device_registration_find x ops priv = None" using assms(2) by (simp add: dev_find)
  have "dpll_device_register env mem d type ops priv s \<noteq> None"
  proof (cases "mode_get (dev_table env ops) = None \<or> lock_status_get (dev_table env ops) = None \<or> d_regs x \<noteq> []")
    case True
    then show ?thesis
      using assms find by (auto simp: dpll_device_register_def Let_def)
  next
    case False
    then have "device_answerable env ?s d"
      using assms(1) by (simp add: device_answerable_def xa_load_modify)
    then obtain r t where "dpll_device_create_ntf env d ?s = Some (r, t)"
      unfolding dpll_device_create_ntf_def using device_event_runs by blast
    then show ?thesis
      using assms find by (simp add: dpll_device_register_def Let_def)
  qed
  then show ?thesis using that by (cases "dpll_device_register env mem d type ops priv s") auto
qed

lemma device_unregister_undoes:
  assumes sv: "in_service env t" and d: "xa_load (device_xa s) d = Some x" and wf: "Dpll_Registry.wf s"
    and new: "\<lparr>dr_ops = ops, dr_priv = priv\<rparr> \<notin> set (d_regs x)"
    and t: "same_tables (upd_dev d (registered_by type ops priv) s) t"
  shows "undoes (dpll_device_unregister env d ops priv) (upd_dev d (\<lambda>x. x\<lparr>d_type := type\<rparr>) s) t"
  unfolding undoes_def
proof (intro allI impI)
  fix t'
  assume "same_tables t t'"
  then have t': "same_tables (upd_dev d (registered_by type ops priv) s) t'" and sv': "in_service env t'"
    using t sv in_service_same same_tables_trans by blast+
  let ?x = "registered_by type ops priv x"
  have d': "xa_load (device_xa t') d = Some ?x" using t' d by (simp add: same_tables_def xa_load_modify)
  then have "device_answerable env t' d"
    using sv' by (simp add: in_service_def dev_marked_def)
  then obtain r u where ntf: "dpll_device_delete_ntf env d t' = Some (r, u)"
    unfolding dpll_device_delete_ntf_def using device_event_runs by blast
  have rs: "d_regs x = remove1 \<lparr>dr_ops = ops, dr_priv = priv\<rparr> (d_regs ?x)"
    using new by (simp add: remove1_append)
  let ?f = "\<lambda>y. y\<lparr>d_regs := d_regs x, d_registered := d_regs x \<noteq> []\<rparr>"
  have reg: "\<lparr>dr_ops = ops, dr_priv = priv\<rparr> \<in> set (d_regs ?x)" by simp
  have run: "same_objects t' u" "dpll_device_unregister env d ops priv t' = Some (upd_dev d ?f u)"
    using device_unregister_eq [OF in_service_wf [OF sv'] d' reg ntf rs] by blast+
  have ok: "xa_ok (device_xa s)" using wf by (simp add: wf_def)
  have x: "(?f \<circ> registered_by type ops priv) x = x\<lparr>d_type := type\<rparr>"
    using wf d by (auto simp: wf_def intro: dpll_device.equality)
  have "xa_modify d ?f (xa_modify d (registered_by type ops priv) (device_xa s))
      = xa_modify d (\<lambda>x. x\<lparr>d_type := type\<rparr>) (device_xa s)"
    unfolding xa.modify_modify [OF ok] by (simp only: xa.modify_eq_store [OF ok d] x)
  then show "\<exists>s'. dpll_device_unregister env d ops priv t' = Some s'
      \<and> same_tables (upd_dev d (\<lambda>x. x\<lparr>d_type := type\<rparr>) s) s' \<and> ddrv s' = ddrv t'"
    using run t' by (simp add: same_objects_def same_tables_def)
qed

lemma device_register_stage:
  assumes sv: "in_service env s" and d: "xa_load (device_xa s) d = Some x"
    and new: "\<lparr>dr_ops = ops, dr_priv = priv\<rparr> \<notin> set (d_regs x)"
  obtains ret t where "dpll_device_register env mem d type ops priv s = Some (ret, t)"
    "in_service env t" "ddrv t = ddrv s" "dev_regs t = dev_regs s"
    "ret \<noteq> None \<longrightarrow> same_tables s t"
    "ret = None \<longrightarrow> same_tables (upd_dev d (registered_by type ops priv) s) t"
    "ret = None \<longrightarrow> undoes (dpll_device_unregister env d ops priv) (upd_dev d (\<lambda>x. x\<lparr>d_type := type\<rparr>) s) t"
proof -
  note wf = in_service_wf [OF sv]
  obtain ret t where run: "dpll_device_register env mem d type ops priv s = Some (ret, t)"
    using device_register_runs [OF d new] .
  note wft = device_register_wf [OF wf d run]
  from device_register_cases [OF wf d run] show ?thesis
  proof (elim disjE conjE)
    assume ret: "ret \<noteq> None" and "same_objects s t"
    then have "same_tables s t" "ddrv t = ddrv s" by (simp_all add: same_objects_def same_tables_def)
    then show ?thesis using that [OF run] in_service_same [of s t env] sv wft ret by simp
  next
    assume ret: "ret = None" and "same_objects (upd_dev d (registered_by type ops priv) s) t"
    then have t: "same_tables (upd_dev d (registered_by type ops priv) s) t" "ddrv t = ddrv s"
      by (simp_all add: same_objects_def same_tables_def)
    have calls: "mode_get (dev_table env ops) \<noteq> None" "lock_status_get (dev_table env ops) \<noteq> None"
      using run ret by (auto simp: dpll_device_register_def split: if_splits)
    have "in_service env t"
    proof (rule in_service_devices [OF sv])
      show "Dpll_Registry.wf t" using wft by blast
      fix e
      show "dev_marked t e" if "dev_marked s e"
        using that t(1) by (auto simp: same_tables_def dev_marked_def xa_load_modify split: option.splits)
      show "device_answerable env t e" if "dev_marked t e"
      proof (cases "e = d \<and> d_regs x = []")
        case True
        then show ?thesis
          using t(1) d calls by (simp add: device_answerable_def same_tables_def xa_load_modify)
      next
        case False
        then have "dev_marked s e"
          using that t(1) d wf by (auto simp: dev_marked_def same_tables_def xa_load_modify wf_def split: if_splits)
        then show ?thesis
          using sv t(1) calls by (auto simp: in_service_def device_answerable_def same_tables_def xa_load_modify
              split: option.splits)
      qed
    qed (use t(1) in \<open>simp add: same_tables_def\<close>)
    with ret t wft device_unregister_undoes [OF _ d wf new t(1)] that [OF run] show ?thesis by simp
  qed
qed

section \<open>Getting and putting a pin\<close>

definition is_pin :: "u64 \<Rightarrow> nat \<Rightarrow> nat \<Rightarrow> dpll_pin \<Rightarrow> bool" where
  "is_pin clock_id idx module x \<longleftrightarrow> p_clock_id x = clock_id \<and> pin_idx x = idx \<and> p_module x = module"

definition new_pin :: "u64 \<Rightarrow> nat \<Rightarrow> nat \<Rightarrow> pin_properties \<Rightarrow> dpll_pin" where
  "new_pin clock_id idx module props =
     \<lparr>pin_idx = idx, p_clock_id = clock_id, p_module = module, dpll_refs = [], parent_refs = [],
      pin_prop = props, p_refcount = 1, p_registered = False\<rparr>"

lemma pin_get_cases:
  assumes "xa_ok (pin_xa s)"
    and "\<forall>i. slot \<noteq> Slot_wrapped i" and "\<forall>i. slot = Slot i \<longrightarrow> xa_load (pin_xa s) i = None"
  obtains
    (failed) e t where "dpll_pin_get mem pmem slot clock_id idx module src s = Some (Inl e, t)"
      "same_tables s t" "ddrv t = ddrv s"
  | (old) p x where "dpll_pin_get mem pmem slot clock_id idx module src s
        = Some (Inr p, upd_pin p (\<lambda>x. x\<lparr>p_refcount := Suc (p_refcount x)\<rparr>) s)"
      "xa_load (pin_xa s) p = Some x" "is_pin clock_id idx module x"
  | (new) p where "dpll_pin_get mem pmem slot clock_id idx module src s
        = Some (Inr p, s\<lparr>pin_xa := xa_store p (new_pin clock_id idx module src) (pin_xa s)\<rparr>)"
      "slot = Slot p" "xa_load (pin_xa s) p = None"
proof (cases "find (\<lambda>(i, x). p_clock_id x = clock_id \<and> pin_idx x = idx \<and> p_module x = module) (pin_xa s)")
  case None
  then have run: "dpll_pin_get mem pmem slot clock_id idx module src s
      = dpll_pin_alloc mem pmem slot clock_id idx module src s"
    by (simp add: dpll_pin_get_def)
  have dup: "dpll_pin_prop_dup pmem src = Inr dst \<Longrightarrow> dst = src" for dst
    by (auto simp: dpll_pin_prop_dup_def split: if_splits)
  show ?thesis
  proof (cases "mem \<and> DPLL_PIN_TYPE_MUX \<le> pp_type src \<and> pp_type src \<le> DPLL_PIN_TYPE_MAX
      \<and> dpll_pin_prop_dup pmem src = Inr src \<and> (\<exists>i. slot = Slot i)")
    case True
    then obtain i where "slot = Slot i" by blast
    then show ?thesis
      using True run assms(3) by (intro new [of i]) (simp_all add: dpll_pin_alloc_def new_pin_def not_less)
  next
    case False
    then have "\<exists>e. dpll_pin_alloc mem pmem slot clock_id idx module src s = Some (Inl e, s)
        \<or> dpll_pin_alloc mem pmem slot clock_id idx module src s = Some (Inl e, warn s)"
      using assms(2) dup by (auto simp: dpll_pin_alloc_def split: sum.split slot.split)
    then show ?thesis
      using run failed by (auto simp: same_tables_def warn_def)
  qed
next
  case (Some ix)
  obtain i x where ix: "ix = (i, x)" by fastforce
  show ?thesis
    using find_xa_load [OF assms(1) Some [unfolded ix]] Some
    by (intro old [of i x]) (simp_all add: is_pin_def dpll_pin_get_def ix)
qed

lemma in_service_pins:
  assumes "in_service env s" and "Dpll_Registry.wf t" and "device_xa t = device_xa s"
    and "\<And>p x. xa_load (pin_xa t) p = Some x \<Longrightarrow> p_registered x \<Longrightarrow> \<exists>y. xa_load (pin_xa s) p = Some y
       \<and> p_registered y \<and> dpll_refs x = dpll_refs y \<and> parent_refs x = parent_refs y"
    and "\<And>p. xa_load (pin_xa s) p \<noteq> None \<Longrightarrow> xa_load (pin_xa t) p \<noteq> None"
  shows "in_service env t"
proof -
  have mark: "dev_marked t = dev_marked s" "device_answerable env t = device_answerable env s"
    by (simp_all add: dev_marked_def [abs_def] device_answerable_def [abs_def] assms(3) cong: option.case_cong)
  have "answerable env t p" if m: "pin_marked t p" for p
  proof -
    obtain x where x: "xa_load (pin_xa t) p = Some x" "p_registered x"
      using m by (auto simp: pin_marked_def split: option.splits)
    then obtain y where y: "xa_load (pin_xa s) p = Some y" "p_registered y" "dpll_refs x = dpll_refs y"
        "parent_refs x = parent_refs y" using assms(4) by blast
    then have "answerable env s p"
      using assms(1) by (simp add: in_service_def serviceable_def pin_marked_def)
    from answerable_more [OF this y(1) x(1) y(3,4)] show ?thesis using assms(5) by (simp add: mark)
  qed
  then show ?thesis using assms(1,2) by (simp add: in_service_def serviceable_def mark)
qed

lemma pin_get_stage:
  assumes sv: "in_service env s"
    and slots: "\<forall>i. slot \<noteq> Slot_wrapped i" and free: "\<forall>i. slot = Slot i \<longrightarrow> xa_load (pin_xa s) i = None"
    and own: "\<And>p x. xa_load (pin_xa s) p = Some x \<Longrightarrow> is_pin clock_id idx module x \<Longrightarrow> 0 < p_refcount x"
  obtains g t where "dpll_pin_get mem pmem slot clock_id idx module src s = Some (g, t)"
    "in_service env t" "ddrv t = ddrv s" "device_xa t = device_xa s" "dev_regs t = dev_regs s"
    "\<And>e. g = Inl e \<Longrightarrow> same_tables s t"
    "\<And>p. g = Inr p \<Longrightarrow> undoes (dpll_pin_put p) s t"
    "\<And>p q. g = Inr p \<Longrightarrow> q \<noteq> p \<Longrightarrow> xa_load (pin_xa t) q = xa_load (pin_xa s) q"
    "\<And>p. g = Inr p \<Longrightarrow>
       slot = Slot p \<and> xa_load (pin_xa t) p = Some (new_pin clock_id idx module src)
       \<or> (\<exists>x. xa_load (pin_xa s) p = Some x \<and> is_pin clock_id idx module x
            \<and> xa_load (pin_xa t) p = Some (x\<lparr>p_refcount := Suc (p_refcount x)\<rparr>))"
proof -
  note wf = in_service_wf [OF sv]
  then have ok: "xa_ok (pin_xa s)" by (simp add: wf_def)
  have wft: "Dpll_Registry.wf t \<and> dev_regs t = dev_regs s"
    if "dpll_pin_get mem pmem slot clock_id idx module src s = Some (g, t)" for g t
    using pin_get_wf [OF wf _ that] free by blast
  from ok slots free show ?thesis
  proof (cases rule: pin_get_cases [where mem = mem and pmem = pmem and src = src and clock_id = clock_id
        and idx = idx and module = module])
    case (failed e t)
    then show ?thesis
      using wft [OF failed(1)] sv in_service_same [OF failed(2), of env]
      by (intro that [OF failed(1)]) (simp_all add: same_tables_def)
  next
    case (old p x)
    let ?t = "upd_pin p (\<lambda>x. x\<lparr>p_refcount := Suc (p_refcount x)\<rparr>) s"
    have "in_service env ?t"
      by (rule in_service_pins [OF sv])
        (use wft [OF old(1)] in \<open>auto simp: xa_load_modify split: if_splits\<close>)
    moreover have "undoes (dpll_pin_put p) s ?t"
    proof -
      have "xa_modify p (\<lambda>x. x\<lparr>p_refcount := p_refcount x - 1\<rparr>)
          (xa_modify p (\<lambda>x. x\<lparr>p_refcount := Suc (p_refcount x)\<rparr>) (pin_xa s)) = pin_xa s"
        by (simp add: xa.modify_modify ok, rule xa.modify_id [OF ok]) simp
      then show ?thesis
        using own [OF old(2,3)] old(2)
        by (auto simp: undoes_def dpll_pin_put_def same_tables_def xa_load_modify)
    qed
    ultimately show ?thesis
      using wft [OF old(1)] old(2,3) by (intro that [OF old(1)]) (auto simp: xa_load_modify)
  next
    case (new p)
    let ?t = "s\<lparr>pin_xa := xa_store p (new_pin clock_id idx module src) (pin_xa s)\<rparr>"
    have "in_service env ?t"
      by (rule in_service_pins [OF sv])
        (use wft [OF new(1)] ok in \<open>auto simp: xa_load_store new_pin_def split: if_splits\<close>)
    moreover have "undoes (dpll_pin_put p) s ?t"
      by (auto simp: undoes_def dpll_pin_put_def same_tables_def xa_load_store ok new_pin_def
          xa.erase_store [OF ok new(3)])
    ultimately show ?thesis
      using wft [OF new(1)] new(2,3) ok by (intro that [OF new(1)]) (auto simp: xa_load_store)
  qed
qed

section \<open>Registering and unregistering a pin\<close>

text \<open>The references of a pin, read off the table of registrations.\<close>

lemma ref_dev_regs:
  assumes "Dpll_Registry.wf s" and "xa_load (pin_xa s) p = Some pin" and "ir \<in> set (dpll_refs pin)"
  shows "ref_regs (snd ir) = dev_regs s (ref_obj (snd ir)) p" and "ref_regs (snd ir) \<noteq> []"
proof -
  have inv: "refs_inv own_key (dpll_refs pin)" and sym: "dev_regs s = pin_regs s"
    using assms(1,2) by (auto simp: wf_def)
  then have "xa_load (dpll_refs pin) (fst ir) = Some (snd ir)"
    using assms(3) xa_load_in [of "dpll_refs pin"] by (auto simp: refs_inv_def)
  then show "ref_regs (snd ir) = dev_regs s (ref_obj (snd ir)) p" and "ref_regs (snd ir) \<noteq> []"
    using inv assms(2) by (auto simp: sym pin_regs_def regs_in_def refs_inv_def own_key_def)
qed

lemma answerable_regs:
  assumes "Dpll_Registry.wf s" and "xa_load (pin_xa s) p = Some pin" and "parent_refs pin = []"
  shows "answerable env s p \<longleftrightarrow> dpll_refs pin \<noteq> []
    \<and> (\<forall>d. \<forall>r \<in> set (dev_regs s d p). dev_marked s d \<and> direction_get (pin_table env (pr_ops r)) \<noteq> None)"
proof
  assume ans: "answerable env s p"
  have "dev_marked s d \<and> direction_get (pin_table env (pr_ops r)) \<noteq> None" if r: "r \<in> set (dev_regs s d p)" for d r
  proof -
    have "dev_regs s d p = pin_regs s d p" using assms(1) by (simp add: wf_def)
    then obtain ref where ref: "xa_load (dpll_refs pin) (own_key d) = Some ref" "ref_obj ref = d" "r \<in> set (ref_regs ref)"
      using r assms(2) by (auto simp: pin_regs_def regs_in_def split: option.splits if_splits)
    then have "(own_key d, ref) \<in> set (dpll_refs pin)"
      by (auto simp: xa_load_def dest: map_of_SomeD)
    with ans assms(2) ref(2,3) show ?thesis by (auto simp: answerable_def)
  qed
  then show "dpll_refs pin \<noteq> []
    \<and> (\<forall>d. \<forall>r \<in> set (dev_regs s d p). dev_marked s d \<and> direction_get (pin_table env (pr_ops r)) \<noteq> None)"
    using ans assms(2) by (simp add: answerable_def)
next
  assume regs: "dpll_refs pin \<noteq> []
    \<and> (\<forall>d. \<forall>r \<in> set (dev_regs s d p). dev_marked s d \<and> direction_get (pin_table env (pr_ops r)) \<noteq> None)"
  have "dev_marked s (ref_obj (snd ir))
      \<and> (\<forall>r \<in> set (ref_regs (snd ir)). direction_get (pin_table env (pr_ops r)) \<noteq> None)"
    if ir: "ir \<in> set (dpll_refs pin)" for ir
    using ref_dev_regs [OF assms(1,2) ir] regs hd_in_set [of "ref_regs (snd ir)"] by metis
  then show "answerable env s p"
    using regs assms(2,3) by (simp add: answerable_def)
qed

text \<open>A new registration with a registered device keeps a pin without parents answerable.\<close>

lemma answerable_relink:
  assumes sv: "in_service env s" and d: "xa_load (device_xa s) d = Some dpll" "d_registered dpll"
    and p: "xa_load (pin_xa s) p = Some pin" and top: "parent_refs pin = []"
    and dir: "direction_get (pin_table env (pr_ops r)) \<noteq> None"
    and wf: "Dpll_Registry.wf (relink d p refs drefs s)" and ne: "drefs \<noteq> []"
    and regs: "dev_regs (relink d p refs drefs s) = (dev_regs s)(d := (dev_regs s d)(p := dev_regs s d p @ [r]))"
  shows "answerable env (relink d p refs drefs s) p"
proof -
  let ?t = "relink d p refs drefs s"
  have pt: "xa_load (pin_xa ?t) p = Some (pin\<lparr>dpll_refs := drefs, p_registered := True\<rparr>)"
    using p ne by (simp add: xa_load_modify)
  have mark: "dev_marked ?t = dev_marked s"
    by (auto simp: dev_marked_def xa_load_modify fun_eq_iff split: option.splits)
  have old: "dev_marked s e \<and> direction_get (pin_table env (pr_ops q)) \<noteq> None" if q: "q \<in> set (dev_regs s e p)" for e q
  proof -
    have "dev_regs s = pin_regs s" using in_service_wf [OF sv] by (simp add: wf_def)
    then have "dpll_refs pin \<noteq> []" using q p by (auto simp: pin_regs_def)
    then have "pin_marked s p" using in_service_wf [OF sv] p by (auto simp: wf_def pin_marked_def)
    then have "answerable env s p" using sv by (simp add: in_service_def serviceable_def)
    then show ?thesis using q answerable_regs [OF in_service_wf [OF sv] p top] by blast
  qed
  have conv: "\<forall>e. \<forall>q \<in> set (dev_regs ?t e p). dev_marked ?t e \<and> direction_get (pin_table env (pr_ops q)) \<noteq> None"
    unfolding regs mark using old dir d by (auto simp: dev_marked_def)
  show ?thesis
    by (rule answerable_regs [OF wf pt, THEN iffD2]) (use top ne conv in simp_all)
qed

lemma pin_register_runs:
  assumes sv: "in_service env s" and d: "xa_load (device_xa s) d = Some dpll" "d_registered dpll"
    and p: "xa_load (pin_xa s) p = Some pin" and top: "parent_refs pin = []"
    and new: "\<lparr>pr_ops = ops, pr_priv = priv, pr_cookie = None\<rparr> \<notin> set (dev_regs s d p)"
  obtains ret t where "dpll_pin_register env mem d p ops priv s = Some (ret, t)"
proof -
  let ?r = "\<lparr>pr_ops = ops, pr_priv = priv, pr_cookie = None\<rparr>"
  have idx: "pin_idx pin = pin_key s p" using p by (simp add: pin_key_def)
  obtain e1 refs where a1: "ref_add (pin_key s) (fst mem) p ?r (pin_refs dpll) = (e1, refs)" by fastforce
  obtain e2 drefs where a2: "ref_add own_key (snd mem) d ?r (dpll_refs pin) = (e2, drefs)" by fastforce
  have run: "\<exists>y. pin_register env mem d p ops priv None s = Some y"
    if dir: "direction_get (pin_table env ops) \<noteq> None"
  proof (cases "e1 = None \<and> e2 = None")
    case True
    note link = linked_wf [OF in_service_wf [OF sv] d(1) p new]
    have b: "ref_add (pin_key s) (fst mem) p ?r (pin_refs dpll) = (None, refs)"
      "ref_add own_key (snd mem) d ?r (dpll_refs pin) = (None, drefs)" using a1 a2 True by simp_all
    have "ref_del d ?r drefs = (None, False, dpll_refs pin)" by (rule link(5) [OF b])
    then have ne: "drefs \<noteq> []" by (auto simp: xa_ref_del_def)
    have "answerable env (relink d p refs drefs s) p"
      by (rule answerable_relink [OF sv d p top, where r = ?r]) (use dir ne link(1,2) [OF b] in simp_all)
    then obtain r t where "dpll_pin_create_ntf env p (relink d p refs drefs s) = Some (r, t)"
      unfolding dpll_pin_create_ntf_def using pin_event_runs [OF link(1) [OF b]] by blast
    then show ?thesis
      using d(1) p b idx ne
      by (simp add: pin_register_def dpll_xa_ref_pin_add_def dpll_xa_ref_dpll_add_def own_key_def)
  next
    case False
    then show ?thesis
      using d(1) p a1 a2 idx
      by (cases e1; cases e2) (auto simp: pin_register_def dpll_xa_ref_pin_add_def dpll_xa_ref_dpll_add_def
          own_key_def Let_def split: prod.split)
  qed
  have "dpll_pin_register env mem d p ops priv s \<noteq> None"
    using d(1) p run by (auto simp: dpll_pin_register_def)
  then show ?thesis using that by (cases "dpll_pin_register env mem d p ops priv s") auto
qed

lemma pin_register_stage:
  assumes sv: "in_service env s" and d: "xa_load (device_xa s) d = Some dpll" "d_registered dpll"
    and p: "xa_load (pin_xa s) p = Some pin" and top: "parent_refs pin = []"
    and new: "\<lparr>pr_ops = ops, pr_priv = priv, pr_cookie = None\<rparr> \<notin> set (dev_regs s d p)"
  obtains ret t where "dpll_pin_register env mem d p ops priv s = Some (ret, t)"
    "in_service env t" "ddrv t = ddrv s" "skel t = skel s"
    "ret \<noteq> None \<Longrightarrow> same_tables s t"
    "ret = None \<Longrightarrow> dev_regs t = (dev_regs s)(d := (dev_regs s d)
       (p := dev_regs s d p @ [\<lparr>pr_ops = ops, pr_priv = priv, pr_cookie = None\<rparr>]))"
proof -
  let ?r = "\<lparr>pr_ops = ops, pr_priv = priv, pr_cookie = None\<rparr>"
  note wf = in_service_wf [OF sv]
  obtain ret t where run: "dpll_pin_register env mem d p ops priv s = Some (ret, t)"
    using pin_register_runs [OF sv d p top new] .
  note result = that [OF run]
  have failed: ?thesis if bad: "ret \<noteq> None" "same_objects s t"
    using bad(1) in_service_same [OF same_objects_tables [OF bad(2)], of env] sv skel_same [OF bad(2)]
      same_objects_tables [OF bad(2)] bad(2)
    by (intro result) (simp_all add: same_objects_def)
  from dpll_pin_register_runs [OF run d(1) p] show ?thesis
  proof
    assume "ret \<noteq> None \<and> same_objects s t"
    then show ?thesis using failed by blast
  next
    assume "pin_register env mem d p ops priv None s = Some (ret, t)"
    with wf d(1) p new show ?thesis
    proof (cases rule: pin_register_cases)
      case failed
      then show ?thesis using \<open>ret \<noteq> None \<Longrightarrow> same_objects s t \<Longrightarrow> ?thesis\<close> by (simp add: same_objects_def)
    next
      case (linked refs drefs r)
      let ?t = "relink d p refs drefs s"
      note link = linked_wf [OF wf d(1) p new linked(3,4)]
      have same: "same_objects ?t t"
        using linked(5) [unfolded dpll_pin_create_ntf_def, THEN pin_event_same] by simp
      note tabs = same_objects_tables [OF same]
      have dir: "direction_get (pin_table env ops) \<noteq> None"
        using run linked(1) by (auto simp: dpll_pin_register_def split: if_splits)
      have ans: "answerable env ?t p"
        by (rule answerable_relink [OF sv d p top, where r = ?r]) (use dir linked(2) link(1,2) in simp_all)
      have sv1: "in_service env ?t"
        unfolding in_service_def serviceable_def
      proof (intro conjI allI impI)
        show "Dpll_Registry.wf ?t" by (rule link(1))
        fix q
        assume q: "pin_marked ?t q"
        show "answerable env ?t q"
        proof (cases "q = p")
          case False
          then have "pin_marked s q" using q by (simp add: pin_marked_def xa_load_modify)
          then have ans: "answerable env s q" using sv by (simp add: in_service_def serviceable_def)
          then obtain y where "xa_load (pin_xa s) q = Some y" by (auto simp: answerable_def split: option.splits)
          then show ?thesis
            using False by (intro answerable_more [OF ans]) (auto simp: xa_load_modify dev_marked_def split: option.splits)
        qed (use ans in simp)
      next
        fix e
        assume "dev_marked ?t e"
        then have "dev_marked s e" by (auto simp: dev_marked_def xa_load_modify split: if_splits option.splits)
        then show "device_answerable env ?t e"
          using sv by (auto simp: in_service_def device_answerable_def xa_load_modify split: option.splits)
      qed
      have svt: "in_service env t" using sv1 in_service_same [OF tabs, of env] by simp
      have "ddrv t = ddrv s" "skel t = skel s" "dev_regs t = dev_regs ?t"
        using same skel_same [OF same] same_objects_wf [OF same]
        by (simp_all add: same_objects_def skel_relink)
      then show ?thesis
        using svt linked(1) link(2) by (intro result) simp_all
    qed
  qed
qed

end
