(* ===== verification/Dpll_Adds.thy ===== *)
theory Dpll_Adds
  imports Dpll_Undo
begin

text \<open>
  Pins that a driver adds to one device and takes away again in any order: \<open>adds d ps s t\<close> says
  that \<open>t\<close> is \<open>s\<close> with the pins of \<open>ps\<close> got once more and registered with \<open>d\<close>. Such tables are in
  service when \<open>s\<close> is; unregistering and putting a pin removes it from the list; and the empty
  list leaves the tables of \<open>s\<close>.
\<close>

section \<open>Pins without their registrations\<close>

definition bare :: "dpll_pin \<Rightarrow> dpll_pin" where
  "bare x = x\<lparr>dpll_refs := [], p_registered := False\<rparr>"

definition pskel :: "'d dpll_sys \<Rightarrow> nat \<Rightarrow> dpll_pin option" where
  "pskel s p = map_option bare (xa_load (pin_xa s) p)"

lemma pskel_skel: "pskel s p = xa_load (snd (skel s)) p"
  by (simp add: pskel_def skel_pin bare_def [abs_def])

lemma bare_simps [simp]:
  "parent_refs (bare x) = parent_refs x" "p_refcount (bare x) = p_refcount x" "pin_idx (bare x) = pin_idx x"
  "p_module (bare x) = p_module x" "p_clock_id (bare x) = p_clock_id x" "bare (bare x) = bare x"
  "bare (x\<lparr>p_refcount := n\<rparr>) = (bare x)\<lparr>p_refcount := n\<rparr>" "bare (new_pin c i m q) = new_pin c i m q"
  by (simp_all add: bare_def new_pin_def)

lemma skel_dev_eq:
  assumes "fst (skel t) = fst (skel s)" and "xa_load (device_xa t) d = Some y"
  obtains x where "xa_load (device_xa s) d = Some x" "d_regs x = d_regs y" "d_registered x = d_registered y"
    "x\<lparr>pin_refs := []\<rparr> = y\<lparr>pin_refs := []\<rparr>"
proof -
  obtain x where x: "xa_load (device_xa s) d = Some x" "x\<lparr>pin_refs := []\<rparr> = y\<lparr>pin_refs := []\<rparr>"
    using skel_dev [of s d] skel_dev [of t d] assms by auto
  then show ?thesis using that by (cases x; cases y) auto
qed

lemma pin_determined:
  assumes wf: "Dpll_Registry.wf s" "Dpll_Registry.wf t"
    and x: "xa_load (pin_xa s) p = Some x" "xa_load (pin_xa t) p = Some y" "bare x = bare y"
    and regs: "\<And>d. dev_regs s d p = dev_regs t d p"
  shows "x = y"
proof -
  have "regs_in own_key (dpll_refs x) d = regs_in own_key (dpll_refs y) d" for d
    using regs [of d] wf x by (simp add: wf_def pin_regs_def)
  then have "regs_in own_key (dpll_refs x) = regs_in own_key (dpll_refs y)" by blast
  moreover have "refs_inv own_key (dpll_refs x)" "refs_inv own_key (dpll_refs y)"
    and "p_registered x = (dpll_refs x \<noteq> [])" "p_registered y = (dpll_refs y \<noteq> [])"
    using wf x(1,2) by (auto simp: wf_def)
  ultimately show ?thesis using x(3) pin_eqI refs.extensional unfolding bare_def by metis
qed

lemma unregistered_regs:
  assumes "Dpll_Registry.wf s" and "xa_load (pin_xa s) p = Some x" and "\<And>d. dev_regs s d p = []"
  shows "dpll_refs x = []"
proof (rule ccontr)
  assume "dpll_refs x \<noteq> []"
  then obtain ir where "ir \<in> set (dpll_refs x)" by (cases "dpll_refs x") auto
  with ref_dev_regs [OF assms(1,2) this] assms(3) show False by simp
qed

section \<open>Added pins\<close>

definition added :: "dpll_pin option \<Rightarrow> dpll_pin option \<Rightarrow> bool" where
  "added old new \<longleftrightarrow>
     (case old of
        None \<Rightarrow> (\<exists>x. new = Some x \<and> p_refcount x = 1 \<and> parent_refs x = [])
      | Some y \<Rightarrow> new = Some (y\<lparr>p_refcount := Suc (p_refcount y)\<rparr>) \<and> 0 < p_refcount y \<and> parent_refs y = [])"

lemma added_None: "\<not> added old None"
  by (cases old) (simp_all add: added_def)

lemma added_top:
  assumes "added (map_option bare old) (Some (bare y))"
  shows "parent_refs y = []" and "old = Some x \<Longrightarrow> parent_refs x = []"
proof -
  have "parent_refs y = [] \<and> (\<forall>x. old = Some x \<longrightarrow> parent_refs x = [])"
  proof (cases old)
    case None
    then show ?thesis using assms by (simp add: added_def)
  next
    case (Some x)
    then have eq: "bare y = (bare x)\<lparr>p_refcount := Suc (p_refcount x)\<rparr>" and x: "parent_refs x = []"
      using assms by (simp_all add: added_def)
    have "parent_refs (bare y) = parent_refs x" unfolding eq by simp
    then show ?thesis using Some x by simp
  qed
  then show "parent_refs y = []" and "old = Some x \<Longrightarrow> parent_refs x = []" by simp_all
qed

lemma added_first: "added old (Some x) \<Longrightarrow> p_refcount x = 1 \<longleftrightarrow> old = None"
  by (cases old) (auto simp: added_def)

definition adds :: "nat \<Rightarrow> (nat \<times> pin_reg) list \<Rightarrow> 'd dpll_sys \<Rightarrow> 'd dpll_sys \<Rightarrow> bool" where
  "adds d ps s t \<longleftrightarrow> Dpll_Registry.wf t \<and> fst (skel t) = fst (skel s) \<and> distinct (map fst ps)
     \<and> (\<forall>e p. dev_regs t e p = dev_regs s e p
          @ (if e = d then (case map_of ps p of Some r \<Rightarrow> [r] | None \<Rightarrow> []) else []))
     \<and> (\<forall>p. if p \<in> fst ` set ps then added (pskel s p) (pskel t p) else pskel t p = pskel s p)"

lemma map_of_None_fst: "map_of ps p = None \<longleftrightarrow> p \<notin> fst ` set ps"
  by (simp add: map_of_eq_None_iff)

lemma addsD:
  assumes "adds d ps s t"
  shows "Dpll_Registry.wf t" and "fst (skel t) = fst (skel s)" and "distinct (map fst ps)"
    and "dev_regs t e p = dev_regs s e p
          @ (if e = d then (case map_of ps p of Some r \<Rightarrow> [r] | None \<Rightarrow> []) else [])"
    and "p \<in> fst ` set ps \<Longrightarrow> added (pskel s p) (pskel t p)"
    and "p \<notin> fst ` set ps \<Longrightarrow> pskel t p = pskel s p"
  using assms by (simp_all add: adds_def)

lemma adds_refl: "Dpll_Registry.wf s \<Longrightarrow> adds d [] s s"
  by (simp add: adds_def)

lemma adds_same: "adds d ps s t \<Longrightarrow> same_tables t t' \<Longrightarrow> adds d ps s t'"
proof -
  assume adds: "adds d ps s t" and same: "same_tables t t'"
  then have "pskel t' = pskel t" "skel t' = skel t"
    by (simp_all add: same_tables_def pskel_def [abs_def] skel_def)
  with adds same_tables_wf [OF same] show ?thesis unfolding adds_def by simp
qed

text \<open>Without added pins the tables are the same.\<close>

lemma adds_empty:
  assumes "Dpll_Registry.wf s" and "adds d [] s t"
  shows "same_tables s t"
proof -
  have fst: "map fst (snd (skel u)) = map fst (pin_xa u)" for u :: "'a dpll_sys"
    by (simp add: skel_def case_prod_beta)
  have "snd (skel t) = snd (skel s)"
  proof (rule xa_ext)
    show "xa_load (snd (skel t)) = xa_load (snd (skel s))"
      using assms(2) by (simp add: adds_def pskel_skel fun_eq_iff)
  qed (use assms in \<open>simp_all add: adds_def wf_def xa_ok_def fst\<close>)
  then have "skel s = skel t"
    using addsD(2) [OF assms(2)] by (simp add: prod_eq_iff)
  moreover have "dev_regs s = dev_regs t"
    using assms(2) by (simp add: adds_def fun_eq_iff)
  ultimately show ?thesis
    using wf_canonical [of s t] assms by (simp add: adds_def same_tables_def)
qed

lemma adds_marked: "adds d ps s t \<Longrightarrow> dev_marked t = dev_marked s"
proof
  fix e
  assume "adds d ps s t"
  then have "fst (skel t) = fst (skel s)" by (simp add: adds_def)
  then have "map_option d_registered (xa_load (fst (skel t)) e) = map_option d_registered (xa_load (fst (skel s)) e)"
    by simp
  then show "dev_marked t e = dev_marked s e"
    unfolding skel_dev by (auto simp: dev_marked_def option.map_comp comp_def split: option.splits)
qed

lemma adds_live: "adds d ps s t \<Longrightarrow> xa_load (pin_xa s) q \<noteq> None \<Longrightarrow> xa_load (pin_xa t) q \<noteq> None"
proof -
  assume adds: "adds d ps s t" and q: "xa_load (pin_xa s) q \<noteq> None"
  have "added (pskel s q) (pskel t q) \<or> pskel t q = pskel s q"
    using addsD(5,6) [OF adds] by blast
  then have "pskel t q \<noteq> None"
    using q by (cases "pskel s q") (auto simp: pskel_def added_def)
  then show ?thesis by (simp add: pskel_def)
qed

lemma adds_in_service:
  assumes sv: "in_service env s" and d: "dev_marked s d" and adds: "adds d ps s t"
    and dir: "\<forall>(p, r) \<in> set ps. direction_get (pin_table env (pr_ops r)) \<noteq> None"
  shows "in_service env t"
proof -
  note wf = in_service_wf [OF sv] and mark = adds_marked [OF adds]
  have wft: "Dpll_Registry.wf t" using adds by (simp add: adds_def)
  have "answerable env t p" if m: "pin_marked t p" for p
  proof -
    obtain y where y: "xa_load (pin_xa t) p = Some y" "p_registered y"
      using m by (auto simp: pin_marked_def split: option.splits)
    then have ne: "dpll_refs y \<noteq> []" using wft by (auto simp: wf_def)
    have old: "answerable env s p" if "xa_load (pin_xa s) p = Some x" "r \<in> set (dev_regs s e p)" for x r e
    proof -
      have "dev_regs s = pin_regs s" using wf by (simp add: wf_def)
      then have "dpll_refs x \<noteq> []" using that by (auto simp: pin_regs_def)
      then have "pin_marked s p" using wf that(1) by (auto simp: wf_def pin_marked_def)
      then show ?thesis using sv by (simp add: in_service_def serviceable_def)
    qed
    show ?thesis
    proof (cases "p \<in> fst ` set ps")
      case False
      then have regs: "dev_regs s e p = dev_regs t e p" for e
        using addsD(4) [OF adds, of e p] False map_of_None_fst [of ps p] by simp
      have "pskel t p = pskel s p" by (rule addsD(6) [OF adds False])
      then obtain x where x: "xa_load (pin_xa s) p = Some x" "bare x = bare y"
        using y by (cases "xa_load (pin_xa s) p") (auto simp: pskel_def)
      have "x = y" by (rule pin_determined [OF wf wft x(1) y(1) x(2) regs])
      then have "answerable env s p"
        using x y(2) sv by (simp add: in_service_def serviceable_def pin_marked_def)
      from answerable_more [OF this x(1) y(1)] show ?thesis
        using \<open>x = y\<close> adds_live [OF adds] by (simp add: mark)
    next
      case True
      then obtain r where r: "map_of ps p = Some r" "(p, r) \<in> set ps"
        by (metis map_of_None_fst map_of_SomeD not_None_eq)
      have "added (map_option bare (xa_load (pin_xa s) p)) (Some (bare y))"
        using addsD(5) [OF adds True] y(1) by (simp add: pskel_def)
      note top = added_top(1) [OF this] and old_top = added_top(2) [OF this]
      have before: "dev_marked s e \<and> direction_get (pin_table env (pr_ops q)) \<noteq> None"
        if q: "q \<in> set (dev_regs s e p)" for e q
      proof -
        have "dev_regs s = pin_regs s" using wf by (simp add: wf_def)
        then obtain x where x: "xa_load (pin_xa s) p = Some x"
          using q by (cases "xa_load (pin_xa s) p") (auto simp: pin_regs_def)
        show ?thesis using answerable_regs [OF wf x old_top [OF x], of env] old [OF x q] q by blast
      qed
      have new: "direction_get (pin_table env (pr_ops r)) \<noteq> None" using dir r(2) by auto
      have "dev_marked t e \<and> direction_get (pin_table env (pr_ops q)) \<noteq> None" if q: "q \<in> set (dev_regs t e p)" for e q
      proof -
        have "q \<in> set (dev_regs s e p) \<or> e = d \<and> q = r"
          using q unfolding addsD(4) [OF adds] by (cases "e = d") (auto simp: r(1))
        then show ?thesis using before new d by (auto simp: mark)
      qed
      then show ?thesis using answerable_regs [OF wft y(1) top, of env] ne by blast
    qed
  qed
  moreover have "device_answerable env t e" if m: "dev_marked t e" for e
  proof -
    have "dev_marked s e" using m mark by simp
    then have "device_answerable env s e" using sv by (simp add: in_service_def)
    moreover obtain y where y: "xa_load (device_xa t) e = Some y"
      using m by (auto simp: dev_marked_def split: option.splits)
    obtain x where "xa_load (device_xa s) e = Some x" "d_regs x = d_regs y"
      using skel_dev_eq [OF addsD(2) [OF adds] y] by metis
    ultimately show ?thesis using y by (simp add: device_answerable_def)
  qed
  ultimately show ?thesis using wft by (simp add: in_service_def serviceable_def)
qed

section \<open>Adding a pin\<close>

text \<open>A pin that has been got on top of \<open>ps\<close>, and is not registered yet.\<close>

definition got :: "'d dpll_env \<Rightarrow> (nat \<times> pin_reg) list \<Rightarrow> 'd dpll_sys \<Rightarrow> 'd dpll_sys \<Rightarrow> nat \<Rightarrow> nat \<Rightarrow> 'd dpll_sys \<Rightarrow> bool" where
  "got env ps s t idx p u \<longleftrightarrow> in_service env u \<and> dev_regs u = dev_regs t \<and> fst (skel u) = fst (skel t)
     \<and> p \<notin> fst ` set ps \<and> added (pskel s p) (pskel u p) \<and> (\<forall>q. q \<noteq> p \<longrightarrow> pskel u q = pskel t q)
     \<and> undoes (dpll_pin_put p) t u \<and> (\<exists>x. pskel u p = Some x \<and> pin_idx x = idx)"

lemma adds_get:
  assumes sv: "in_service env t" and adds: "adds d ps s t"
    and slots: "\<forall>i. slot \<noteq> Slot_wrapped i" and free: "\<forall>i. slot = Slot i \<longrightarrow> xa_load (pin_xa t) i = None"
    and own: "\<And>p x. xa_load (pin_xa s) p = Some x \<Longrightarrow> is_pin clock_id idx module x \<Longrightarrow>
       0 < p_refcount x \<and> parent_refs x = []"
    and other: "\<And>p x. p \<in> fst ` set ps \<Longrightarrow> pskel t p = Some x \<Longrightarrow> pin_idx x \<noteq> idx"
  obtains
    (failed) e u where "dpll_pin_get mem pmem slot clock_id idx module src t = Some (Inl e, u)"
      "same_tables t u" "ddrv u = ddrv t"
  | (got) p u where "dpll_pin_get mem pmem slot clock_id idx module src t = Some (Inr p, u)" "ddrv u = ddrv t"
      "got env ps s t idx p u"
      "\<And>q. xa_load (pin_xa t) q = None \<Longrightarrow> slot \<noteq> Slot q \<Longrightarrow> xa_load (pin_xa u) q = None"
proof -
  have outside: "p \<notin> fst ` set ps" if "xa_load (pin_xa t) p = Some x" "is_pin clock_id idx module x" for p x
    using other [of p "bare x"] that by (auto simp: pskel_def is_pin_def)
  have pos: "0 < p_refcount x \<and> parent_refs x = []"
    if x: "xa_load (pin_xa t) p = Some x" "is_pin clock_id idx module x" for p x
  proof -
    have "pskel s p = Some (bare x)"
      using addsD(6) [OF adds outside [OF x]] x(1) by (simp add: pskel_def)
    then obtain y where y: "xa_load (pin_xa s) p = Some y" "bare y = bare x" by (auto simp: pskel_def)
    have eqs: "p_clock_id y = p_clock_id x" "pin_idx y = pin_idx x" "p_module y = p_module x"
      "p_refcount y = p_refcount x" "parent_refs y = parent_refs x"
      using y(2) by (metis bare_simps(1-5))+
    then show ?thesis using own [OF y(1)] x(2) by (simp add: is_pin_def)
  qed
  show ?thesis
  proof (rule pin_get_stage [OF sv slots free, where mem = mem and pmem = pmem and src = src
        and clock_id = clock_id and idx = idx and module = module])
    show "0 < p_refcount x" if "xa_load (pin_xa t) p = Some x" "is_pin clock_id idx module x" for p x
      using pos [OF that] by simp
    fix g u
    assume run: "dpll_pin_get mem pmem slot clock_id idx module src t = Some (g, u)"
      "in_service env u" "ddrv u = ddrv t" "device_xa u = device_xa t" "dev_regs u = dev_regs t"
      and bad: "\<And>e. g = Inl e \<Longrightarrow> same_tables t u"
      and undo: "\<And>p. g = Inr p \<Longrightarrow> undoes (dpll_pin_put p) t u"
      and rest: "\<And>p q. g = Inr p \<Longrightarrow> q \<noteq> p \<Longrightarrow> xa_load (pin_xa u) q = xa_load (pin_xa t) q"
      and pin: "\<And>p. g = Inr p \<Longrightarrow>
         slot = Slot p \<and> xa_load (pin_xa u) p = Some (new_pin clock_id idx module src)
         \<or> (\<exists>x. xa_load (pin_xa t) p = Some x \<and> is_pin clock_id idx module x
              \<and> xa_load (pin_xa u) p = Some (x\<lparr>p_refcount := Suc (p_refcount x)\<rparr>))"
    show ?thesis
  proof (cases g)
    case (Inl e)
    then show ?thesis using run bad failed by simp
  next
    case (Inr p)
    have "p \<notin> fst ` set ps \<and> added (pskel s p) (pskel u p) \<and> (\<exists>x. pskel u p = Some x \<and> pin_idx x = idx)"
      using pin [OF Inr]
    proof (elim disjE exE conjE)
      assume new: "slot = Slot p" "xa_load (pin_xa u) p = Some (new_pin clock_id idx module src)"
      then have none: "pskel t p = None" using free by (simp add: pskel_def)
      have out: "p \<notin> fst ` set ps"
        using addsD(5) [OF adds, of p] none added_None by metis
      then have "pskel s p = None" using addsD(6) [OF adds] none by simp
      then show ?thesis using new out by (simp add: pskel_def added_def) (simp add: new_pin_def)
    next
      fix x
      assume old: "xa_load (pin_xa t) p = Some x" "is_pin clock_id idx module x"
        "xa_load (pin_xa u) p = Some (x\<lparr>p_refcount := Suc (p_refcount x)\<rparr>)"
      have "pskel s p = Some (bare x)"
        using addsD(6) [OF adds outside [OF old(1,2)]] old(1) by (simp add: pskel_def)
      moreover have "pskel u p = Some ((bare x)\<lparr>p_refcount := Suc (p_refcount x)\<rparr>)"
        using old(3) by (simp add: pskel_def)
      ultimately show ?thesis
        using old(2) outside [OF old(1,2)] pos [OF old(1,2)] by (simp add: added_def is_pin_def)
    qed
    then have "got env ps s t idx p u"
      using run undo [OF Inr] rest [OF Inr] by (simp add: got_def skel_def pskel_def)
    moreover have "xa_load (pin_xa u) q = None" if "xa_load (pin_xa t) q = None" "slot \<noteq> Slot q" for q
      using pin [OF Inr] rest [OF Inr, of q] that by (cases "q = p") auto
    ultimately show ?thesis using run(1,3) Inr got by blast
  qed
  qed
qed

lemma got_tables: "got env ps s t idx p u \<Longrightarrow> same_tables u u' \<Longrightarrow> got env ps s t idx p u'"
proof -
  assume g: "got env ps s t idx p u" and same: "same_tables u u'"
  have "pskel u' = pskel u" "skel u' = skel u" "dev_regs u' = dev_regs u"
    using same same_tables_wf [OF same] by (simp_all add: same_tables_def pskel_def [abs_def] skel_def)
  then show ?thesis
    using g in_service_same [OF same, of env] undoes_tables [OF _ same_tables_refl same]
    by (simp add: got_def)
qed

lemma adds_register:
  assumes sv: "in_service env s" and d: "dev_marked s d" and adds: "adds d ps s t"
    and got: "got env ps s t idx p u"
    and new: "\<lparr>pr_ops = ops, pr_priv = priv, pr_cookie = None\<rparr> \<notin> set (dev_regs s d p)"
  obtains ret v where "dpll_pin_register env mem d p ops priv u = Some (ret, v)" "ddrv v = ddrv u"
    "ret \<noteq> None \<longrightarrow> same_tables u v"
    "ret = None \<longrightarrow> adds d (ps @ [(p, \<lparr>pr_ops = ops, pr_priv = priv, pr_cookie = None\<rparr>)]) s v"
    "ret = None \<longrightarrow> pskel v = pskel u" "ret = None \<longrightarrow> direction_get (pin_table env ops) \<noteq> None"
proof -
  let ?r = "\<lparr>pr_ops = ops, pr_priv = priv, pr_cookie = None\<rparr>"
  have svu: "in_service env u" and out: "p \<notin> fst ` set ps"
    and add: "added (pskel s p) (pskel u p)" and rest: "\<And>q. q \<noteq> p \<Longrightarrow> pskel u q = pskel t q"
    and regs: "dev_regs u = dev_regs t" and fst: "fst (skel u) = fst (skel t)"
    using got by (auto simp: got_def)
  obtain x0 where x0: "xa_load (device_xa s) d = Some x0" "d_registered x0"
    using d by (auto simp: dev_marked_def split: option.splits)
  have "map_option d_registered (xa_load (fst (skel u)) d) = map_option d_registered (xa_load (fst (skel s)) d)"
    using fst addsD(2) [OF adds] by simp
  then obtain dpll where dpll: "xa_load (device_xa u) d = Some dpll" "d_registered dpll"
    unfolding skel_dev using x0 by (auto simp: option.map_comp comp_def)
  obtain pin where pin: "xa_load (pin_xa u) p = Some pin"
    using add by (auto simp: added_def pskel_def split: option.splits)
  then have top: "parent_refs pin = []" using added_top(1) add by (simp add: pskel_def)
  have same: "dev_regs u e p = dev_regs s e p" for e
    using addsD(4) [OF adds, of e p] map_of_None_fst [of ps p] out by (simp add: regs)
  obtain ret v where run: "dpll_pin_register env mem d p ops priv u = Some (ret, v)"
    "in_service env v" "ddrv v = ddrv u" "skel v = skel u"
    "ret \<noteq> None \<Longrightarrow> same_tables u v"
    "ret = None \<Longrightarrow> dev_regs v = (dev_regs u)(d := (dev_regs u d)(p := dev_regs u d p @ [?r]))"
    using pin_register_stage [OF svu dpll pin top, of ops priv mem] new same by metis
  have "adds d (ps @ [(p, ?r)]) s v" if ret: "ret = None"
  proof -
    have map: "map_of (ps @ [(p, ?r)]) = (map_of ps)(p \<mapsto> ?r)"
      using out map_of_None_fst [of ps p] by (auto simp: fun_eq_iff map_add_def split: option.splits)
    have regs_v: "dev_regs v e q = dev_regs s e q
        @ (if e = d then (case map_of (ps @ [(p, ?r)]) q of Some r \<Rightarrow> [r] | None \<Rightarrow> []) else [])" for e q
      using run(6) [OF ret] addsD(4) [OF adds, of e q] same [of d] same [of e] unfolding map regs
      by auto
    have pins_v: "if q \<in> fst ` set (ps @ [(p, ?r)]) then added (pskel s q) (pskel v q) else pskel v q = pskel s q" for q
    proof (cases "q = p")
      case True
      then show ?thesis using add by (simp add: pskel_skel run(4))
    next
      case False
      then show ?thesis using addsD(5,6) [OF adds, of q] rest [of q] by (simp add: pskel_skel run(4))
    qed
    show ?thesis
      using in_service_wf [OF run(2)] addsD(2,3) [OF adds] fst run(4) out regs_v pins_v
      unfolding adds_def by simp
  qed
  moreover have "pskel v = pskel u" using run(4) by (simp add: pskel_skel [abs_def] fun_eq_iff)
  moreover have "direction_get (pin_table env ops) \<noteq> None" if "ret = None"
    using run(1) that by (auto simp: dpll_pin_register_def split: if_splits)
  ultimately show ?thesis using that run(1,3,5) by blast
qed

section \<open>Taking a pin away\<close>

lemma adds_drop:
  assumes sv: "in_service env s" and d: "dev_marked s d" and adds: "adds d (xs @ (p, r) # ys) s t"
    and dir: "\<forall>(p, r) \<in> set (xs @ (p, r) # ys). direction_get (pin_table env (pr_ops r)) \<noteq> None"
    and cookie: "pr_cookie r = None" and new: "r \<notin> set (dev_regs s d p)"
  shows "\<exists>u v. dpll_pin_unregister env d p (pr_ops r) (pr_priv r) t = Some u \<and> dpll_pin_put p u = Some v
    \<and> ddrv u = ddrv t \<and> ddrv v = ddrv t \<and> adds d (xs @ ys) s v"
proof -
  let ?ps = "xs @ (p, r) # ys"
  have svt: "in_service env t" by (rule adds_in_service [OF sv d adds dir])
  note wft = in_service_wf [OF svt]
  have out: "p \<notin> fst ` set (xs @ ys)" using addsD(3) [OF adds] by auto
  have map: "map_of ?ps = (map_of (xs @ ys))(p \<mapsto> r)"
    using out map_of_None_fst [of xs p] map_of_None_fst [of ys p]
    by (auto simp: fun_eq_iff map_add_def split: option.splits)
  have regs: "dev_regs t e p = dev_regs s e p @ (if e = d then [r] else [])" for e
    unfolding addsD(4) [OF adds] map by simp
  have r: "\<lparr>pr_ops = pr_ops r, pr_priv = pr_priv r, pr_cookie = None\<rparr> = r"
    using cookie by (simp add: pin_reg.equality)
  have add: "added (pskel s p) (pskel t p)" by (rule addsD(5) [OF adds]) simp
  obtain dpll where dpll: "xa_load (device_xa t) d = Some dpll"
    using d unfolding adds_marked [OF adds, symmetric] by (auto simp: dev_marked_def split: option.splits)
  obtain pin where pin: "xa_load (pin_xa t) p = Some pin"
    using add by (auto simp: added_def pskel_def split: option.splits)
  have top: "parent_refs pin = []" using added_top(1) add pin by (simp add: pskel_def)
  have sym: "dev_regs t = pin_regs t" using wft by (simp add: wf_def)
  have "r \<in> set (dev_regs t d p)" by (simp add: regs)
  moreover have "dev_regs t d p = regs_in own_key (dpll_refs pin) d"
    unfolding sym using pin by (simp add: pin_regs_def)
  moreover have "dev_regs t d p = regs_in (pin_key t) (pin_refs dpll) p"
    using dpll by (simp add: dev_regs_def)
  ultimately have ne: "pin_refs dpll \<noteq> []" and "dpll_refs pin \<noteq> []" by auto
  then have "pin_marked t p" using wft pin by (auto simp: wf_def pin_marked_def)
  then have "answerable env t p" using svt by (simp add: in_service_def serviceable_def)
  then obtain q t1 where ntf: "dpll_pin_delete_ntf env p t = Some (q, t1)"
    unfolding dpll_pin_delete_ntf_def using pin_event_runs [OF wft] by blast
  have same: "same_tables t t1" "ddrv t1 = ddrv t"
    using ntf by (auto simp: dpll_pin_delete_ntf_def same_objects_def same_tables_def dest!: pin_event_same)
  note same1 = same_tables_wf [OF same(1)]
  have live: "xa_load (device_xa t1) d = Some dpll" "xa_load (pin_xa t1) p = Some pin"
    using same(1) dpll pin by (simp_all add: same_tables_def)
  have reg1: "\<lparr>pr_ops = pr_ops r, pr_priv = pr_priv r, pr_cookie = None\<rparr> \<in> set (dev_regs t1 d p)"
    using regs same1 by (simp add: r)
  obtain u where u: "pin_unregister d p (pr_ops r) (pr_priv r) None t1 = Some u" "Dpll_Registry.wf u"
    "skel u = skel t1" "dev_regs u = (dev_regs t1)(d := (dev_regs t1 d)(p := remove1 r (dev_regs t1 d p)))"
    using pin_unregister_step [OF _ live reg1] same1 wft unfolding r by blast
  have ddrv_u: "ddrv u = ddrv t1"
    using u(1) by (auto simp: pin_unregister_def warn_def Let_def split: bind_splits if_splits prod.splits)
  have run: "dpll_pin_unregister env d p (pr_ops r) (pr_priv r) t = Some u"
    using dpll pin ne top ntf u(1) by (simp add: dpll_pin_unregister_def xa_empty_def)
  have skel_u: "skel u = skel t" "pskel u = pskel t"
    using u(3) same(1) by (simp_all add: skel_def same_tables_def pskel_skel [abs_def] fun_eq_iff)
  have regs_u: "dev_regs u e q = dev_regs s e q
      @ (if e = d then (case map_of (xs @ ys) q of Some r \<Rightarrow> [r] | None \<Rightarrow> []) else [])" for e q
  proof (cases "q = p")
    case True
    then show ?thesis
      using u(4) same1 regs [of e] regs [of d] new map_of_None_fst [of "xs @ ys" p] out
      by (auto simp: remove1_append simp del: map_of_append)
  next
    case False
    have "dev_regs t e q = dev_regs s e q
        @ (if e = d then (case map_of (xs @ ys) q of Some r \<Rightarrow> [r] | None \<Rightarrow> []) else [])"
      unfolding addsD(4) [OF adds] map using False by simp
    then show ?thesis using u(4) same1 False by auto
  qed
  obtain pin_u where pin_u: "xa_load (pin_xa u) p = Some pin_u" "bare pin_u = bare pin"
    using fun_cong [OF skel_u(2), of p] pin by (auto simp: pskel_def)
  have count: "p_refcount pin_u = p_refcount pin" using pin_u(2) by (metis bare_simps(2))
  have regs_p: "dev_regs u e p = dev_regs s e p" for e
    using regs_u [of e p] map_of_None_fst [of "xs @ ys" p] out by (simp del: map_of_append)
  have last: "dpll_refs pin_u = []" if one: "p_refcount pin_u = 1"
  proof (rule unregistered_regs [OF u(2) pin_u(1)])
    fix e
    have "pskel s p = None"
      using add one count pin added_first [of "pskel s p" "bare pin"] by (simp add: pskel_def)
    then have "pin_regs s e p = []" by (simp add: pin_regs_def pskel_def)
    then show "dev_regs u e p = []" using regs_p in_service_wf [OF sv] by (simp add: wf_def)
  qed
  obtain v where put: "dpll_pin_put p u = Some v" using pin_u(1) by (simp add: dpll_pin_put_def)
  note wfv = pin_put_wf [OF u(2) pin_u(1) last put]
  have dev_v: "device_xa v = device_xa u" "ddrv v = ddrv u" using put by (auto simp: dpll_pin_put_def split: bind_splits)
  have pins_v: "if q \<in> fst ` set (xs @ ys) then added (pskel s q) (pskel v q) else pskel v q = pskel s q" for q
  proof (cases "q = p")
    case False
    then have "pskel v q = pskel u q"
      using put by (auto simp: dpll_pin_put_def pskel_def xa_load_erase xa_load_modify split: bind_splits if_splits)
    then show ?thesis using addsD(5,6) [OF adds, of q] False skel_u(2) by auto
  next
    case True
    have "pskel v p = pskel s p"
    proof (cases "pskel s p")
      case None
      then have "p_refcount pin_u = 1" using add pin count by (auto simp: added_def pskel_def)
      then show ?thesis using put pin_u(1) None by (auto simp: dpll_pin_put_def pskel_def xa_load_erase)
    next
      case (Some y)
      have "pskel t p = Some (bare pin)" using pin by (simp add: pskel_def)
      then have y: "bare pin = y\<lparr>p_refcount := Suc (p_refcount y)\<rparr>" "0 < p_refcount y"
        using add Some by (simp_all add: added_def)
      have n: "p_refcount pin_u = Suc (p_refcount y)" unfolding count using arg_cong [OF y(1), of p_refcount] by simp
      have "bare (pin_u\<lparr>p_refcount := p_refcount pin_u - 1\<rparr>) = y"
        by (simp add: pin_u(2) y(1) n)
      then show ?thesis
        using put pin_u(1) n y(2) unfolding Some by (auto simp: dpll_pin_put_def pskel_def xa_load_modify)
    qed
    then show ?thesis using True out by simp
  qed
  have "fst (skel v) = fst (skel u)" using dev_v(1) by (simp add: skel_def)
  then have "adds d (xs @ ys) s v"
    unfolding adds_def using wfv addsD(2,3) [OF adds] skel_u(1) regs_u pins_v by auto
  then show ?thesis using run put ddrv_u dev_v(2) same(2) by auto
qed

end
