(* ===== verification/Nsim_Init.thy ===== *)
theory Nsim_Init
  imports Nsim_Dpll Nsim_Gnss_Props Dpll_Adds
begin

text \<open>
  Setting up and removing the DPLL devices of netdevsim is all or nothing: wherever
  \<open>nsim_dpll_init\<close> fails, the devices and pins of the core, those of other drivers and of other
  netdevsim devices included, are as before, and \<open>nsim_dpll_exit\<close> gives them back after a
  success. The devices are undone in reverse order (\<open>Dpll_Undo\<close>), the pins in the order the
  code takes them (\<open>Dpll_Adds\<close>).
\<close>

section \<open>Worlds\<close>

lemma world_simps [simp]:
  "the_nd a (upd_nd a f w) = f (the_nd a w)" "the_np q (upd_nd a f w) = the_np q w"
  "the_nd a (upd_np q g w) = the_nd a w"
  "the_np r (upd_np q g w) = (if r = q then g (the_np q w) else the_np r w)"
  "w_netdev (upd_nd a f w) = w_netdev w" "w_netdev (upd_np q g w) = w_netdev w"
  "device_xa (w_sys (upd_nd a f w)) = device_xa (w_sys w)" "pin_xa (w_sys (upd_nd a f w)) = pin_xa (w_sys w)"
  "device_xa (w_sys (upd_np q g w)) = device_xa (w_sys w)" "pin_xa (w_sys (upd_np q g w)) = pin_xa (w_sys w)"
  "w_dpll (upd_nd a f w) = w_dpll w" "w_dpll (upd_np q g w) = w_dpll w"
  "the_nd a (w\<lparr>w_netdev := x\<rparr>) = the_nd a w" "the_np q (w\<lparr>w_netdev := x\<rparr>) = the_np q w"
  "the_nd a (w\<lparr>w_dpll := y\<rparr>) = the_nd a w" "the_np q (w\<lparr>w_dpll := y\<rparr>) = the_np q w"
  by (simp_all add: the_nd_def the_np_def upd_nd_def upd_np_def Let_def)

lemma sys_memory:
  "ddrv s = ddrv (w_sys w) \<Longrightarrow> the_nd a (w\<lparr>w_sys := s\<rparr>) = the_nd a w"
  "ddrv s = ddrv (w_sys w) \<Longrightarrow> the_np q (w\<lparr>w_sys := s\<rparr>) = the_np q w"
  by (simp_all add: the_nd_def the_np_def)

lemma upd_tables [simp]:
  "same_tables (w_sys w) (w_sys (upd_nd a f w))" "same_tables (w_sys w) (w_sys (upd_np q g w))"
  by (simp_all add: same_tables_def)

section \<open>Ends\<close>

text \<open>The run returns; with \<open>F\<close> when it reports an error, with \<open>S\<close> when it succeeds.\<close>

definition ends :: "(ret \<times> 'w) option \<Rightarrow> ('w \<Rightarrow> bool) \<Rightarrow> ('w \<Rightarrow> bool) \<Rightarrow> bool" where
  "ends r F S \<longleftrightarrow> (\<exists>ret w. r = Some (ret, w) \<and> (if ret = None then S w else F w))"

lemma ends_or_else:
  assumes "ends r F S" and "\<And>w. F w \<Longrightarrow> \<exists>w'. undo w = Some w' \<and> F' w'" and "\<And>w. S w \<Longrightarrow> ends (next w) F' S'"
  shows "ends (or_else r undo next) F' S'"
proof -
  obtain ret w where r: "r = Some (ret, w)" "if ret = None then S w else F w"
    using assms(1) by (auto simp: ends_def)
  show ?thesis
  proof (cases ret)
    case None
    then show ?thesis using r assms(3) by (simp add: or_else_def)
  next
    case (Some e)
    then obtain w' where "undo w = Some w'" "F' w'" using r assms(2) by auto
    then show ?thesis using r Some by (simp add: or_else_def ends_def)
  qed
qed

lemma ends_Some [simp]: "ends (Some (ret, w)) F S = (if ret = None then S w else F w)"
  by (auto simp: ends_def)

lemma endsI: "r = Some (ret, w) \<Longrightarrow> (ret \<noteq> None \<Longrightarrow> F w) \<Longrightarrow> (ret = None \<Longrightarrow> S w) \<Longrightarrow> ends r F S"
  by (auto simp: ends_def)

section \<open>Undoing the devices\<close>

text \<open>
  \<open>rolls_back a rd u F w\<close>: on every world with the tables of \<open>w\<close>, its network devices, and the handles
  \<open>rd\<close> of the structure at \<open>a\<close>, the undo function \<open>u\<close> arrives at \<open>F\<close> and leaves the memory alone.
\<close>

definition rolls_back :: "nat \<Rightarrow> (nsim_dpll \<Rightarrow> 'h) \<Rightarrow> (nsim_world \<Rightarrow> nsim_world option) \<Rightarrow> (nsim_world \<Rightarrow> bool)
    \<Rightarrow> nsim_world \<Rightarrow> bool" where
  "rolls_back a rd u F w \<longleftrightarrow> (\<forall>w'. same_tables (w_sys w) (w_sys w') \<longrightarrow> rd (the_nd a w') = rd (the_nd a w) \<longrightarrow>
     w_netdev w' = w_netdev w \<longrightarrow> (\<exists>w''. u w' = Some w'' \<and> F w'' \<and> ddrv (w_sys w'') = ddrv (w_sys w')))"

lemma rolls_backD:
  "rolls_back a rd u F w \<Longrightarrow> same_tables (w_sys w) (w_sys w') \<Longrightarrow> rd (the_nd a w') = rd (the_nd a w) \<Longrightarrow>
     w_netdev w' = w_netdev w \<Longrightarrow> \<exists>w''. u w' = Some w'' \<and> F w'' \<and> ddrv (w_sys w'') = ddrv (w_sys w')"
  by (simp add: rolls_back_def)

lemma rolls_back_step:
  assumes undo: "undoes (f (sel (the_nd a w))) (w_sys v) (w_sys w)" and rest: "rolls_back a rd u F v"
    and reads: "\<And>n n'. rd' n = rd' n' \<Longrightarrow> rd n = rd n' \<and> sel n = sel n'"
    and v: "rd (the_nd a w) = rd (the_nd a v)" "w_netdev w = w_netdev v"
  shows "rolls_back a rd' (\<lambda>w. do { w \<leftarrow> on_sys_only (f (sel (the_nd a w))) w; u w }) F w"
  unfolding rolls_back_def
proof (intro allI impI)
  fix w'
  assume w': "same_tables (w_sys w) (w_sys w')" "rd' (the_nd a w') = rd' (the_nd a w)" "w_netdev w' = w_netdev w"
  then obtain s where s: "f (sel (the_nd a w)) (w_sys w') = Some s" "same_tables (w_sys v) s" "ddrv s = ddrv (w_sys w')"
    using undo by (auto simp: undoes_def)
  have "\<exists>w''. u (w'\<lparr>w_sys := s\<rparr>) = Some w'' \<and> F w'' \<and> ddrv (w_sys w'') = ddrv (w_sys (w'\<lparr>w_sys := s\<rparr>))"
    by (rule rolls_backD [OF rest]) (use s w' v reads [OF w'(2)] in \<open>simp_all add: sys_memory\<close>)
  then show "\<exists>w''. do { w \<leftarrow> on_sys_only (f (sel (the_nd a w'))) w'; u w } = Some w'' \<and> F w''
      \<and> ddrv (w_sys w'') = ddrv (w_sys w')"
    using s(1,3) reads [OF w'(2)] by (simp add: on_sys_only_def)
qed

text \<open>The same world with the type of a device set.\<close>

definition retyped :: "nat \<Rightarrow> nat \<Rightarrow> nsim_world \<Rightarrow> nsim_world" where
  "retyped d type w = w\<lparr>w_sys := upd_dev d (\<lambda>x. x\<lparr>d_type := type\<rparr>) (w_sys w)\<rparr>"

lemma retyped_simps [simp]:
  "the_nd a (retyped d type w) = the_nd a w" "w_netdev (retyped d type w) = w_netdev w"
  "w_sys (retyped d type w) = upd_dev d (\<lambda>x. x\<lparr>d_type := type\<rparr>) (w_sys w)"
  by (simp_all add: retyped_def the_nd_def)

section \<open>What the set-up relies on\<close>

definition nsim_type :: "nat \<Rightarrow> nat" where
  "nsim_type idx = (if idx = NSIM_DPLL_PPS_IDX then DPLL_TYPE_PPS else DPLL_TYPE_EEC)"

text \<open>
  The devices and pins of other netdevsim devices, which share clock and module: they are held,
  have the types this driver gives, and do not know the new structure yet.
\<close>

definition own_devices :: "nat \<Rightarrow> nat \<Rightarrow> nsim_mem dpll_sys \<Rightarrow> bool" where
  "own_devices a idx s \<longleftrightarrow> (\<forall>d x. xa_load (device_xa s) d = Some x \<longrightarrow> is_device NSIM_DPLL_CLOCK_ID idx THIS_MODULE x \<longrightarrow>
     0 < d_refcount x \<and> d_type x = nsim_type idx \<and> \<lparr>dr_ops = DEVICE_OPS, dr_priv = a\<rparr> \<notin> set (d_regs x))"

definition own_pins :: "nsim_mem dpll_sys \<Rightarrow> bool" where
  "own_pins s \<longleftrightarrow> (\<forall>p x. xa_load (pin_xa s) p = Some x \<longrightarrow> p_module x = THIS_MODULE \<longrightarrow>
     0 < p_refcount x \<and> parent_refs x = [])"

definition priv_unused :: "nat \<Rightarrow> nsim_mem dpll_sys \<Rightarrow> bool" where
  "priv_unused q s \<longleftrightarrow> (\<forall>d p. \<forall>r \<in> set (dev_regs s d p). pr_priv r \<noteq> q)"

text \<open>The slots that the core finds are free and distinct, and its cursor of the pins does not wrap.\<close>

definition dev_slot :: "init_choice \<Rightarrow> nat \<Rightarrow> nat \<Rightarrow> bool" where
  "dev_slot ch idx i \<longleftrightarrow> snd (ic_dev ch idx) = Slot i \<or> snd (ic_dev ch idx) = Slot_wrapped i"

definition free_slots :: "init_choice \<Rightarrow> nsim_mem dpll_sys \<Rightarrow> bool" where
  "free_slots ch s \<longleftrightarrow>
     (\<forall>idx i. dev_slot ch idx i \<longrightarrow> xa_load (device_xa s) i = None)
     \<and> (\<forall>i. dev_slot ch NSIM_DPLL_PPS_IDX i \<longrightarrow> \<not> dev_slot ch NSIM_DPLL_EEC_IDX i)
     \<and> (\<forall>k i. pc_slot (ic_pin ch k) \<noteq> Slot_wrapped i)
     \<and> (\<forall>k i. pc_slot (ic_pin ch k) = Slot i \<longrightarrow> xa_load (pin_xa s) i = None)
     \<and> (\<forall>k k' i. pc_slot (ic_pin ch k) = Slot i \<longrightarrow> pc_slot (ic_pin ch k') = Slot i \<longrightarrow> k = k')"

definition fresh_memory :: "init_choice \<Rightarrow> nat \<Rightarrow> nsim_mem dpll_sys \<Rightarrow> bool" where
  "fresh_memory ch a s \<longleftrightarrow>
     priv_unused (gnss_pin_priv a) s \<and> (\<forall>i < NSIM_DPLL_NUM_EXT_PINS. priv_unused (ext_pin_privs a i) s)
     \<and> (\<forall>k q. ic_npin ch k = Some q \<longrightarrow> priv_unused q s)
     \<and> (\<forall>k k' q. ic_npin ch k = Some q \<longrightarrow> ic_npin ch k' = Some q \<longrightarrow> k = k')"

definition startable :: "nsim_mem dpll_env \<Rightarrow> init_choice \<Rightarrow> nat \<Rightarrow> nsim_mem dpll_sys \<Rightarrow> bool" where
  "startable env ch a s \<longleftrightarrow> nsim_tables env \<and> in_service env s
     \<and> own_devices a NSIM_DPLL_PPS_IDX s \<and> own_devices a NSIM_DPLL_EEC_IDX s \<and> own_pins s
     \<and> free_slots ch s \<and> fresh_memory ch a s"

section \<open>Devices\<close>

text \<open>A device has been got and registered by \<open>w'\<close>, on top of \<open>w\<close>.\<close>

definition device_up ::
    "nsim_mem dpll_env \<Rightarrow> init_choice \<Rightarrow> nat \<Rightarrow> nat \<Rightarrow> (nsim_dpll \<Rightarrow> nat) \<Rightarrow> nsim_world \<Rightarrow> nsim_world \<Rightarrow> bool" where
  "device_up env ch a idx sel w w' \<longleftrightarrow>
     in_service env (w_sys w') \<and> pin_xa (w_sys w') = pin_xa (w_sys w) \<and> dev_regs (w_sys w') = dev_regs (w_sys w)
     \<and> w_netdev w' = w_netdev w \<and> dev_marked (w_sys w') (sel (the_nd a w'))
     \<and> (\<forall>e. dev_marked (w_sys w) e \<longrightarrow> dev_marked (w_sys w') e)
     \<and> (\<forall>e. e \<noteq> sel (the_nd a w') \<longrightarrow> xa_load (device_xa (w_sys w')) e = xa_load (device_xa (w_sys w)) e)
     \<and> (\<exists>x. xa_load (device_xa (w_sys w')) (sel (the_nd a w')) = Some x
          \<and> is_device NSIM_DPLL_CLOCK_ID idx THIS_MODULE x)
     \<and> (xa_load (device_xa (w_sys w)) (sel (the_nd a w')) \<noteq> None \<or> dev_slot ch idx (sel (the_nd a w')))"

lemma device_stage:
  fixes sel :: "nsim_dpll \<Rightarrow> nat" and rd :: "nsim_dpll \<Rightarrow> 'h" and rd' :: "nsim_dpll \<Rightarrow> 'k" and keep :: "nsim_dpll \<Rightarrow> 'm"
  assumes sv: "in_service env (w_sys w)" and own: "own_devices a idx (w_sys w)"
    and free: "\<forall>i. dev_slot ch idx i \<longrightarrow> xa_load (device_xa (w_sys w)) i = None"
    and base: "rolls_back a rd u F w"
    and field: "\<And>d n. sel (field d n) = d" "\<And>d n. rd (field d n) = rd n" "\<And>d n. keep (field d n) = keep n"
    and reads: "\<And>n n'. rd' n = rd' n' \<Longrightarrow> rd n = rd n' \<and> sel n = sel n'"
    and put: "\<And>w. put_u w = do { w \<leftarrow> on_sys_only (dpll_device_put (sel (the_nd a w))) w; u w }"
    and unreg: "\<And>w. unreg_u w
      = do { w \<leftarrow> on_sys_only (dpll_device_unregister env (sel (the_nd a w)) DEVICE_OPS a) w; put_u w }"
    and rest: "\<And>w'. device_up env ch a idx sel w w' \<Longrightarrow> rd (the_nd a w') = rd (the_nd a w) \<Longrightarrow>
      keep (the_nd a w') = keep (the_nd a w) \<Longrightarrow> rolls_back a rd' unreg_u F w' \<Longrightarrow> ends (next w') F S"
  shows "ends (or_else (get_device ch a field idx w) u (\<lambda>w.
      or_else (on_sys (dpll_device_register env mem (sel (the_nd a w)) (nsim_type idx) DEVICE_OPS a) w) put_u next)) F S"
proof -
  let ?s = "w_sys w"
  obtain g t where get: "dpll_device_get (fst (ic_dev ch idx)) (snd (ic_dev ch idx)) NSIM_DPLL_CLOCK_ID idx THIS_MODULE ?s = (g, t)"
    by fastforce
  have slots: "\<forall>i. snd (ic_dev ch idx) = Slot i \<or> snd (ic_dev ch idx) = Slot_wrapped i \<longrightarrow> xa_load (device_xa ?s) i = None"
    using free by (simp add: dev_slot_def)
  have mine: "\<forall>d x. xa_load (device_xa ?s) d = Some x \<longrightarrow> is_device NSIM_DPLL_CLOCK_ID idx THIS_MODULE x \<longrightarrow>
      0 < d_refcount x \<and> d_type x = nsim_type idx"
    using own by (auto simp: own_devices_def)
  note stage = device_get_stage [OF sv slots mine get]
  have run: "get_device ch a field idx w = (case g of
      Inl e \<Rightarrow> Some (Some e, w\<lparr>w_sys := t\<rparr>) | Inr d \<Rightarrow> Some (None, upd_nd a (field d) (w\<lparr>w_sys := t\<rparr>)))"
    by (simp add: get_device_def on_sys_def get)
  show ?thesis
  proof (cases g)
    case (Inl e)
    then obtain w' where "u (w\<lparr>w_sys := t\<rparr>) = Some w'" "F w'"
      using stage rolls_backD [OF base, of "w\<lparr>w_sys := t\<rparr>"] by auto
    then show ?thesis using Inl by (simp add: run or_else_def ends_def)
  next
    case (Inr d)
    define w1 where "w1 = upd_nd a (field d) (w\<lparr>w_sys := t\<rparr>)"
    have mem: "the_nd a w1 = field d (the_nd a w)"
      using stage by (simp add: w1_def sys_memory)
    have same1: "same_tables t (w_sys w1)" and net1: "w_netdev w1 = w_netdev w"
      using upd_tables(1) [of "w\<lparr>w_sys := t\<rparr>"] by (simp_all add: w1_def)
    then have xa1: "device_xa (w_sys w1) = device_xa t" "pin_xa (w_sys w1) = pin_xa t"
      by (simp_all add: same_tables_def)
    have sv1: "in_service env (w_sys w1)" using in_service_same [OF same1, of env] stage by simp
    have undo: "undoes (dpll_device_put d) ?s (w_sys w1)"
      "undoes (dpll_device_put d) ?s (upd_dev d (\<lambda>x. x\<lparr>d_type := nsim_type idx\<rparr>) (w_sys w1))"
      using stage Inr undoes_tables [OF _ same_tables_refl same1]
        undoes_tables [of "dpll_device_put d" ?s "upd_dev d (\<lambda>x. x\<lparr>d_type := nsim_type idx\<rparr>) t" ?s
          "upd_dev d (\<lambda>x. x\<lparr>d_type := nsim_type idx\<rparr>) (w_sys w1)"] xa1
      by (simp_all add: same_tables_def)
    obtain x where x: "xa_load (device_xa t) d = Some x" "is_device NSIM_DPLL_CLOCK_ID idx THIS_MODULE x"
      "x = new_device NSIM_DPLL_CLOCK_ID idx THIS_MODULE
        \<or> (\<exists>y. xa_load (device_xa ?s) d = Some y \<and> x = y\<lparr>d_refcount := Suc (d_refcount y)\<rparr>)"
      using stage Inr by blast
    have new: "\<lparr>dr_ops = DEVICE_OPS, dr_priv = a\<rparr> \<notin> set (d_regs x)"
      using x(3)
    proof (elim disjE exE conjE)
      fix y
      assume y: "xa_load (device_xa ?s) d = Some y" "x = y\<lparr>d_refcount := Suc (d_refcount y)\<rparr>"
      then have "is_device NSIM_DPLL_CLOCK_ID idx THIS_MODULE y" using x(2) by (simp add: is_device_def)
      then show ?thesis using own y by (auto simp: own_devices_def)
    qed (simp add: new_device_def)
    have put_back: "rolls_back a rd' put_u F w1" "rolls_back a rd' put_u F (retyped d (nsim_type idx) w1)"
      unfolding put [abs_def]
      by (rule rolls_back_step [where sel = sel and v = w, OF _ base reads];
          use undo mem stage field net1 in \<open>simp\<close>)+
    have x1: "xa_load (device_xa (w_sys w1)) d = Some x" using x(1) xa1 by simp
    obtain ret t2 where reg: "dpll_device_register env mem d (nsim_type idx) DEVICE_OPS a (w_sys w1) = Some (ret, t2)"
      "in_service env t2" "ddrv t2 = ddrv (w_sys w1)" "dev_regs t2 = dev_regs (w_sys w1)"
      "ret \<noteq> None \<longrightarrow> same_tables (w_sys w1) t2"
      "ret = None \<longrightarrow> same_tables (upd_dev d (registered_by (nsim_type idx) DEVICE_OPS a) (w_sys w1)) t2"
      "ret = None \<longrightarrow> undoes (dpll_device_unregister env d DEVICE_OPS a)
         (upd_dev d (\<lambda>x. x\<lparr>d_type := nsim_type idx\<rparr>) (w_sys w1)) t2"
      using device_register_stage [OF sv1 x1 new, of mem "nsim_type idx"] .
    let ?w2 = "w1\<lparr>w_sys := t2\<rparr>"
    have mem2: "the_nd a ?w2 = field d (the_nd a w)" using reg(3) mem by (simp add: sys_memory)
    have run2: "on_sys (dpll_device_register env mem (sel (the_nd a w1)) (nsim_type idx) DEVICE_OPS a) w1 = Some (ret, ?w2)"
      unfolding mem using reg(1) by (simp add: on_sys_def field)
    have "ends (or_else (on_sys (dpll_device_register env mem (sel (the_nd a w1)) (nsim_type idx) DEVICE_OPS a) w1)
        put_u next) F S"
    proof (cases ret)
      case (Some e)
      then obtain w' where "put_u ?w2 = Some w'" "F w'"
        using reg(5) mem mem2 net1 rolls_backD [OF put_back(1), of ?w2] by auto
      then show ?thesis using Some by (simp add: run2 or_else_def ends_def)
    next
      case None
      have t2: "same_tables (upd_dev d (registered_by (nsim_type idx) DEVICE_OPS a) (w_sys w1)) t2"
        using reg(6) None by simp
      have again: "\<And>n n'. rd' n = rd' n' \<Longrightarrow> rd' n = rd' n' \<and> sel n = sel n'" using reads by blast
      have "rolls_back a rd' unreg_u F ?w2"
        unfolding unreg [abs_def]
        by (rule rolls_back_step [where sel = sel and f = "\<lambda>d. dpll_device_unregister env d DEVICE_OPS a"
              and v = "retyped d (nsim_type idx) w1", OF _ put_back(2) again])
          (use reg(7) None mem mem2 field net1 in \<open>simp_all\<close>)
      moreover have "device_up env ch a idx sel w ?w2"
        unfolding device_up_def mem2 field
      proof (intro conjI allI impI)
        show "dev_marked (w_sys ?w2) d" using t2 x(1) xa1 by (simp add: same_tables_def dev_marked_def xa_load_modify)
        show "dev_marked (w_sys ?w2) e" if "dev_marked (w_sys w) e" for e
        proof -
          have "dev_marked t e" using stage that by simp
          then show ?thesis using t2 xa1 by (auto simp: same_tables_def dev_marked_def xa_load_modify split: option.splits)
        qed
        show "\<exists>x. xa_load (device_xa (w_sys ?w2)) d = Some x \<and> is_device NSIM_DPLL_CLOCK_ID idx THIS_MODULE x"
          using t2 x(1,2) xa1 by (simp add: same_tables_def xa_load_modify is_device_def)
        show "xa_load (device_xa ?s) d \<noteq> None \<or> dev_slot ch idx d"
          using stage Inr by (simp add: dev_slot_def)
      qed (use stage Inr reg t2 same_tables_wf [OF same1] xa1 net1 in
          \<open>simp_all add: same_tables_def xa_load_modify\<close>)
      ultimately have "ends (next ?w2) F S" using rest mem2 field by simp
      then show ?thesis using None by (simp add: run2 or_else_def)
    qed
    then show ?thesis using Inr by (simp add: run or_else_def w1_def)
  qed
qed

section \<open>Taking the pins away\<close>

definition gnss_reg :: "nat \<Rightarrow> pin_reg" where
  "gnss_reg q = \<lparr>pr_ops = GNSS_PIN_OPS, pr_priv = q, pr_cookie = None\<rparr>"

definition rclk_reg :: "nat \<Rightarrow> pin_reg" where
  "rclk_reg q = \<lparr>pr_ops = RCLK_PIN_OPS, pr_priv = q, pr_cookie = None\<rparr>"

lemma reg_simps [simp]:
  "pr_ops (gnss_reg q) = GNSS_PIN_OPS" "pr_priv (gnss_reg q) = q" "pr_cookie (gnss_reg q) = None"
  "pr_ops (rclk_reg q) = RCLK_PIN_OPS" "pr_priv (rclk_reg q) = q" "pr_cookie (rclk_reg q) = None"
  by (simp_all add: gnss_reg_def rclk_reg_def)

definition ext_regs :: "nat \<Rightarrow> nat list \<Rightarrow> (nat \<times> pin_reg) list" where
  "ext_regs a eps = map (\<lambda>ip. (snd ip, gnss_reg (ext_pin_privs a (fst ip)))) (enumerate 0 eps)"

definition port_regs :: "nat list \<Rightarrow> nsim_world \<Rightarrow> (nat \<times> pin_reg) list" where
  "port_regs qs w = map (\<lambda>q. (np_pin (the_np q w), rclk_reg q)) qs"

text \<open>The pins of the structure at \<open>a\<close>: the GNSS pin, the external pins \<open>eps\<close>, the port pins \<open>qs\<close>.\<close>

definition held :: "nat \<Rightarrow> nat list \<Rightarrow> nat list \<Rightarrow> nsim_world \<Rightarrow> (nat \<times> pin_reg) list" where
  "held a eps qs w = (gnss_pin (the_nd a w), gnss_reg (gnss_pin_priv a)) # ext_regs a eps @ port_regs qs w"

definition netdevs_ok :: "nsim_world \<Rightarrow> nat list \<Rightarrow> nsim_world \<Rightarrow> bool" where
  "netdevs_ok wd qs w \<longleftrightarrow> (\<forall>q \<in> set qs. w_netdev wd (np_ns (the_np q w)) = None)
     \<and> (\<forall>ns. (\<forall>q \<in> set qs. np_ns (the_np q w) \<noteq> ns) \<longrightarrow> w_netdev w ns = w_netdev wd ns)"

text \<open>On top of the world \<open>wd\<close>, in which the devices have been registered, \<open>w\<close> has those pins.\<close>

definition pins_held :: "init_choice \<Rightarrow> nat \<Rightarrow> nsim_world \<Rightarrow> nat list \<Rightarrow> nat list \<Rightarrow> nsim_world \<Rightarrow> bool" where
  "pins_held ch a wd eps qs w \<longleftrightarrow>
     adds (pps_dpll (the_nd a wd)) (held a eps qs w) (w_sys wd) (w_sys w)
     \<and> pps_dpll (the_nd a w) = pps_dpll (the_nd a wd) \<and> eec_dpll (the_nd a w) = eec_dpll (the_nd a wd)
     \<and> length eps \<le> NSIM_DPLL_NUM_EXT_PINS \<and> distinct qs \<and> (\<forall>q \<in> set qs. \<exists>k. ic_npin ch k = Some q)
     \<and> netdevs_ok wd qs w"

definition devices_ready :: "nsim_mem dpll_env \<Rightarrow> init_choice \<Rightarrow> nat \<Rightarrow> nsim_world \<Rightarrow> bool" where
  "devices_ready env ch a wd \<longleftrightarrow> nsim_tables env \<and> in_service env (w_sys wd)
     \<and> dev_marked (w_sys wd) (pps_dpll (the_nd a wd)) \<and> dev_marked (w_sys wd) (eec_dpll (the_nd a wd))
     \<and> own_pins (w_sys wd) \<and> fresh_memory ch a (w_sys wd)"

lemma held_ok:
  assumes ready: "devices_ready env ch a wd" and h: "pins_held ch a wd eps qs w" and x: "(p, r) \<in> set (held a eps qs w)"
  shows "direction_get (pin_table env (pr_ops r)) \<noteq> None" and "pr_cookie r = None"
    and "r \<notin> set (dev_regs (w_sys wd) d p)"
proof -
  have few: "i < NSIM_DPLL_NUM_EXT_PINS" if "i < length eps" for i
    using h that by (simp add: pins_held_def)
  have "r = gnss_reg (gnss_pin_priv a) \<or> (\<exists>i < NSIM_DPLL_NUM_EXT_PINS. r = gnss_reg (ext_pin_privs a i))
      \<or> (\<exists>q k. ic_npin ch k = Some q \<and> r = rclk_reg q)"
    using x h few by (force simp: held_def pins_held_def ext_regs_def port_regs_def in_set_enumerate_eq)
  then have ops: "pr_ops r = GNSS_PIN_OPS \<or> pr_ops r = RCLK_PIN_OPS" and "pr_cookie r = None"
    and "priv_unused (pr_priv r) (w_sys wd)"
    using ready by (auto simp: devices_ready_def fresh_memory_def)
  then show "direction_get (pin_table env (pr_ops r)) \<noteq> None" and "pr_cookie r = None"
    and "r \<notin> set (dev_regs (w_sys wd) d p)"
    using ready by (auto simp: devices_ready_def nsim_tables_def nsim_dpll_gnss_pin_ops_def
        nsim_dpll_rclk_pin_ops_def priv_unused_def)
qed

text \<open>Unregistering and putting one of them, with the world otherwise as it was.\<close>

lemma drop_held:
  assumes ready: "devices_ready env ch a wd" and h: "pins_held ch a wd eps qs w"
    and split: "held a eps qs w = xs @ (p, r) # ys"
    and w': "w_sys w' = w_sys w"
  shows "\<exists>u v. on_sys_only (dpll_pin_unregister env (pps_dpll (the_nd a wd)) p (pr_ops r) (pr_priv r)) w'
        = Some (w'\<lparr>w_sys := u\<rparr>)
      \<and> on_sys_only (dpll_pin_put p) (w'\<lparr>w_sys := u\<rparr>) = Some (w'\<lparr>w_sys := v\<rparr>)
      \<and> ddrv u = ddrv (w_sys w') \<and> ddrv v = ddrv (w_sys w')
      \<and> adds (pps_dpll (the_nd a wd)) (xs @ ys) (w_sys wd) v"
proof -
  have adds: "adds (pps_dpll (the_nd a wd)) (xs @ (p, r) # ys) (w_sys wd) (w_sys w)"
    using h by (simp add: pins_held_def split)
  have sv: "in_service env (w_sys wd)" and d: "dev_marked (w_sys wd) (pps_dpll (the_nd a wd))"
    using ready by (simp_all add: devices_ready_def)
  have pr: "(p, r) \<in> set (held a eps qs w)" by (simp add: split)
  have dirs: "\<forall>(p, r) \<in> set (xs @ (p, r) # ys). direction_get (pin_table env (pr_ops r)) \<noteq> None"
    using held_ok(1) [OF ready h] by (simp add: split [symmetric]) blast
  obtain u v where
    "dpll_pin_unregister env (pps_dpll (the_nd a wd)) p (pr_ops r) (pr_priv r) (w_sys w) = Some u"
    "dpll_pin_put p u = Some v" "ddrv u = ddrv (w_sys w)" "ddrv v = ddrv (w_sys w)"
    "adds (pps_dpll (the_nd a wd)) (xs @ ys) (w_sys wd) v"
    using adds_drop [OF sv d adds dirs held_ok(2,3) [OF ready h pr]] by auto
  then show ?thesis by (intro exI [of _ u] exI [of _ v]) (simp add: on_sys_only_def w')
qed

text \<open>The timers and the work that may run.\<close>

definition timers :: "nsim_dpll \<Rightarrow> bool \<times> bool \<times> bool \<times> bool" where
  "timers n = (ntf_timer n, holdover_timer n, ubx_timer n, ntf_work n)"

lemma timers_pins [simp]: "timers (n\<lparr>port_pins := qs\<rparr>) = timers n" "timers (n\<lparr>ext_pins := eps\<rparr>) = timers n"
  by (simp_all add: timers_def)

lemma drop_ports:
  assumes ready: "devices_ready env ch a wd" and "pins_held ch a wd eps qs w"
  shows "\<exists>w'. drop_port_pins env a qs w = Some w' \<and> pins_held ch a wd eps [] w'
    \<and> ext_pins (the_nd a w') = ext_pins (the_nd a w) \<and> timers (the_nd a w') = timers (the_nd a w)"
  using assms(2)
proof (induction qs arbitrary: w)
  case (Cons q qs)
  let ?p = "np_pin (the_np q w)"
  let ?w1 = "w\<lparr>w_netdev := dpll_netdev_pin_clear (np_ns (the_np q w)) (w_netdev w)\<rparr>"
  have split: "held a eps (q # qs) w
      = ((gnss_pin (the_nd a w), gnss_reg (gnss_pin_priv a)) # ext_regs a eps) @ (?p, rclk_reg q) # port_regs qs w"
    by (simp add: held_def port_regs_def)
  obtain u v where drop:
    "on_sys_only (dpll_pin_unregister env (pps_dpll (the_nd a wd)) ?p RCLK_PIN_OPS q) ?w1 = Some (?w1\<lparr>w_sys := u\<rparr>)"
    "on_sys_only (dpll_pin_put ?p) (?w1\<lparr>w_sys := u\<rparr>) = Some (?w1\<lparr>w_sys := v\<rparr>)"
    "ddrv u = ddrv (w_sys w)" "ddrv v = ddrv (w_sys w)"
    "adds (pps_dpll (the_nd a wd)) (((gnss_pin (the_nd a w), gnss_reg (gnss_pin_priv a)) # ext_regs a eps)
       @ port_regs qs w) (w_sys wd) v"
    using drop_held [OF ready Cons.prems split, of ?w1] by auto
  let ?w2 = "upd_nd a (\<lambda>n. n\<lparr>port_pins := remove1 q (port_pins n)\<rparr>) (?w1\<lparr>w_sys := v\<rparr>)"
  have mem: "the_nd a (?w1\<lparr>w_sys := v\<rparr>) = the_nd a w" "the_np x (?w1\<lparr>w_sys := v\<rparr>) = the_np x w" for x
    using drop(4) by (simp_all add: sys_memory)
  have net: "w_netdev (?w1\<lparr>w_sys := v\<rparr>) = (w_netdev w)(np_ns (the_np q w) := None)"
    by (simp add: dpll_netdev_pin_clear_def)
  have "held a eps qs ?w2 = (gnss_pin (the_nd a w), gnss_reg (gnss_pin_priv a)) # ext_regs a eps @ port_regs qs w"
    by (simp add: held_def port_regs_def mem)
  then have "adds (pps_dpll (the_nd a wd)) (held a eps qs ?w2) (w_sys wd) (w_sys ?w2)"
    using adds_same [OF drop(5), of "w_sys ?w2"] upd_tables(1) [of "?w1\<lparr>w_sys := v\<rparr>"] by simp
  moreover have "netdevs_ok wd qs ?w2"
    using Cons.prems by (simp add: pins_held_def netdevs_ok_def mem net)
  ultimately have "pins_held ch a wd eps qs ?w2"
    using Cons.prems by (simp add: pins_held_def mem)
  from Cons.IH [OF this] show ?case
    using Cons.prems drop(1-3) by (simp add: Let_def pins_held_def mem sys_memory)
next
  case Nil
  then show ?case by simp
qed

lemma drop_exts:
  assumes ready: "devices_ready env ch a wd" and "pins_held ch a wd eps [] w"
  shows "\<exists>w'. drop_ext_pins env a (rev (enumerate 0 eps)) w = Some w' \<and> pins_held ch a wd [] [] w'
    \<and> timers (the_nd a w') = timers (the_nd a w)"
  using assms(2)
proof (induction eps arbitrary: w rule: rev_induct)
  case (snoc p eps)
  let ?i = "length eps"
  have split: "held a (eps @ [p]) [] w
      = ((gnss_pin (the_nd a w), gnss_reg (gnss_pin_priv a)) # ext_regs a eps) @ (p, gnss_reg (ext_pin_privs a ?i)) # []"
    by (simp add: held_def port_regs_def ext_regs_def enumerate_append_eq)
  obtain u v where drop:
    "on_sys_only (dpll_pin_unregister env (pps_dpll (the_nd a wd)) p GNSS_PIN_OPS (ext_pin_privs a ?i)) w
       = Some (w\<lparr>w_sys := u\<rparr>)"
    "on_sys_only (dpll_pin_put p) (w\<lparr>w_sys := u\<rparr>) = Some (w\<lparr>w_sys := v\<rparr>)"
    "ddrv u = ddrv (w_sys w)" "ddrv v = ddrv (w_sys w)"
    "adds (pps_dpll (the_nd a wd)) ((gnss_pin (the_nd a w), gnss_reg (gnss_pin_priv a)) # ext_regs a eps) (w_sys wd) v"
    using drop_held [OF ready snoc.prems split, of w] by auto
  have mem: "the_nd a (w\<lparr>w_sys := v\<rparr>) = the_nd a w" using drop(4) by (simp add: sys_memory)
  have "pins_held ch a wd eps [] (w\<lparr>w_sys := v\<rparr>)"
    using snoc.prems drop(5) by (simp add: pins_held_def mem held_def port_regs_def netdevs_ok_def)
  from snoc.IH [OF this] show ?case
    using snoc.prems drop(1-3) by (simp add: enumerate_append_eq pins_held_def mem)
next
  case Nil
  then show ?case by simp
qed

section \<open>The error labels\<close>

abbreviation handles :: "nsim_dpll \<Rightarrow> nat \<times> nat" where
  "handles n \<equiv> (pps_dpll n, eec_dpll n)"

lemma pins_held_upd:
  "(\<And>n. gnss_pin (f n) = gnss_pin n \<and> handles (f n) = handles n) \<Longrightarrow>
     pins_held ch a wd eps qs (upd_nd a f w) = pins_held ch a wd eps qs w"
  using adds_same [OF _ upd_tables(1), of "pps_dpll (the_nd a wd)" "held a eps qs w" "w_sys wd" w a f]
    adds_same [OF _ same_tables_sym [OF upd_tables(1)], of "pps_dpll (the_nd a wd)" "held a eps qs w" "w_sys wd" a f w]
  by (auto simp: pins_held_def held_def port_regs_def netdevs_ok_def)

lemma no_pins_back:
  assumes ready: "devices_ready env ch a wd" and adds: "adds d [] (w_sys wd) (w_sys w)"
    and "handles (the_nd a w) = handles (the_nd a wd)" and "netdevs_ok wd [] w"
    and devs: "rolls_back a handles (err_eec_unreg env a) F wd"
  shows "\<exists>w'. err_eec_unreg env a w = Some w' \<and> F w' \<and> ddrv (w_sys w') = ddrv (w_sys w)"
proof (rule rolls_backD [OF devs])
  show "same_tables (w_sys wd) (w_sys w)"
    using ready adds_empty [OF in_service_wf adds, of env] by (simp add: devices_ready_def)
  show "w_netdev w = w_netdev wd" using assms(4) by (simp add: netdevs_ok_def fun_eq_iff)
qed (rule assms)

lemma gnss_back:
  assumes ready: "devices_ready env ch a wd" and h: "pins_held ch a wd [] [] w"
    and devs: "rolls_back a handles (err_eec_unreg env a) F wd"
  shows "\<exists>w'. do { w \<leftarrow> gnss_pin_unreg env a w; err_gnss_put env a w } = Some w' \<and> F w'
    \<and> timers (the_nd a w') = timers (the_nd a w)"
proof -
  have split: "held a [] [] w = [] @ (gnss_pin (the_nd a w), gnss_reg (gnss_pin_priv a)) # []"
    by (simp add: held_def ext_regs_def port_regs_def)
  obtain u v where drop:
    "on_sys_only (dpll_pin_unregister env (pps_dpll (the_nd a wd)) (gnss_pin (the_nd a w)) GNSS_PIN_OPS (gnss_pin_priv a)) w
       = Some (w\<lparr>w_sys := u\<rparr>)"
    "on_sys_only (dpll_pin_put (gnss_pin (the_nd a w))) (w\<lparr>w_sys := u\<rparr>) = Some (w\<lparr>w_sys := v\<rparr>)"
    "ddrv u = ddrv (w_sys w)" "ddrv v = ddrv (w_sys w)" "adds (pps_dpll (the_nd a wd)) [] (w_sys wd) v"
    using drop_held [OF ready h split, of w] by auto
  have mem: "the_nd a (w\<lparr>w_sys := v\<rparr>) = the_nd a w" "the_nd a (w\<lparr>w_sys := u\<rparr>) = the_nd a w"
    using drop(3,4) by (simp_all add: sys_memory)
  obtain w' where w': "err_eec_unreg env a (w\<lparr>w_sys := v\<rparr>) = Some w' \<and> F w'
      \<and> ddrv (w_sys w') = ddrv (w_sys (w\<lparr>w_sys := v\<rparr>))"
    by (atomize_elim, rule no_pins_back [OF ready _ _ _ devs]) (use drop(5) h in \<open>simp_all add: mem pins_held_def netdevs_ok_def\<close>)
  then have "the_nd a w' = the_nd a w" using drop(4) by (simp add: the_nd_def)
  with w' show ?thesis
    using drop(1,2) h by (simp add: gnss_pin_unreg_def err_gnss_put_def mem pins_held_def)
qed

lemma ext_back:
  assumes ready: "devices_ready env ch a wd" and h: "pins_held ch a wd eps [] w"
    and eps: "ext_pins (the_nd a w) = eps" and devs: "rolls_back a handles (err_eec_unreg env a) F wd"
  shows "\<exists>w'. err_ext_cleanup env a w = Some w' \<and> F w'
    \<and> timers (the_nd a w') = timers (the_nd a w)"
proof -
  obtain w1 where w1: "drop_ext_pins env a (rev (enumerate 0 eps)) w = Some w1" "pins_held ch a wd [] [] w1"
    "timers (the_nd a w1) = timers (the_nd a w)"
    using drop_exts [OF ready h] by blast
  have "pins_held ch a wd [] [] (upd_nd a (\<lambda>n. n\<lparr>ext_pins := []\<rparr>) w1)"
    using w1(2) by (simp add: pins_held_upd)
  from gnss_back [OF ready this devs] w1 show ?thesis
    by (simp add: err_ext_cleanup_def ext_pins_cleanup_def eps)
qed

lemma ports_back:
  assumes ready: "devices_ready env ch a wd" and h: "pins_held ch a wd eps qs w"
    and mem: "ext_pins (the_nd a w) = eps" "port_pins (the_nd a w) = qs"
    and devs: "rolls_back a handles (err_eec_unreg env a) F wd"
  shows "\<exists>w'. err_ports_cleanup env a w = Some w' \<and> F w'
    \<and> timers (the_nd a w') = timers ((the_nd a w)\<lparr>ntf_timer := False, ntf_work := False\<rparr>)"
proof -
  let ?w = "upd_nd a (\<lambda>n. n\<lparr>ntf_timer := False, ntf_work := False\<rparr>) w"
  have "pins_held ch a wd eps qs ?w" using h by (simp add: pins_held_upd)
  then obtain w1 where w1: "drop_port_pins env a qs ?w = Some w1" "pins_held ch a wd eps [] w1"
      "ext_pins (the_nd a w1) = eps" "timers (the_nd a w1) = timers ((the_nd a w)\<lparr>ntf_timer := False, ntf_work := False\<rparr>)"
    using drop_ports [OF ready] mem by fastforce
  from ext_back [OF ready w1(2,3) devs] show ?thesis
    using mem w1(1,4) by (simp add: err_ports_cleanup_def nsim_dpll_cleanup_port_pins_def)
qed

lemma drop_gnss_frame [simp]:
  "gnss_pin (drop_gnss n) = gnss_pin n" "pps_dpll (drop_gnss n) = pps_dpll n" "eec_dpll (drop_gnss n) = eec_dpll n"
  "ext_pins (drop_gnss n) = ext_pins n" "port_pins (drop_gnss n) = port_pins n"
  by (simp_all add: drop_gnss_def)

lemma gnss_cleanup_back:
  assumes ready: "devices_ready env ch a wd" and h: "pins_held ch a wd eps qs w"
    and mem: "ext_pins (the_nd a w) = eps" "port_pins (the_nd a w) = qs"
    and devs: "rolls_back a handles (err_eec_unreg env a) F wd"
  shows "\<exists>w'. err_gnss_cleanup env a w = Some w' \<and> F w'"
proof -
  have "pins_held ch a wd eps qs (upd_nd a drop_gnss w)" using h by (simp add: pins_held_upd)
  from ports_back [OF ready this _ _ devs] mem show ?thesis by (auto simp: err_gnss_cleanup_def)
qed

lemma sysfs_back:
  assumes ready: "devices_ready env ch a wd" and h: "pins_held ch a wd eps qs w"
    and mem: "ext_pins (the_nd a w) = eps" "port_pins (the_nd a w) = qs"
    and devs: "rolls_back a handles (err_eec_unreg env a) F wd"
  shows "\<exists>w'. err_sysfs_kobj env a w = Some w' \<and> F w'"
  unfolding err_sysfs_kobj_def
  by (rule gnss_cleanup_back [OF ready _ _ _ devs, of eps qs]) (use h mem in \<open>simp_all add: pins_held_upd\<close>)

section \<open>Adding the pins\<close>

definition room :: "init_choice \<Rightarrow> nat \<Rightarrow> (nat \<times> pin_reg) list \<Rightarrow> nsim_mem dpll_sys \<Rightarrow> bool" where
  "room ch k ps s \<longleftrightarrow> (\<forall>k' i. k \<le> k' \<longrightarrow> pc_slot (ic_pin ch k') = Slot i \<longrightarrow> xa_load (pin_xa s) i = None)
     \<and> (\<forall>p \<in> fst ` set ps. \<exists>x. pskel s p = Some x \<and> pin_idx x < k)"

definition good_slots :: "init_choice \<Rightarrow> bool" where
  "good_slots ch \<longleftrightarrow> (\<forall>k i. pc_slot (ic_pin ch k) \<noteq> Slot_wrapped i)
     \<and> (\<forall>k k' i. pc_slot (ic_pin ch k) = Slot i \<longrightarrow> pc_slot (ic_pin ch k') = Slot i \<longrightarrow> k = k')"

lemma world_get:
  assumes ready: "devices_ready env ch a wd" and slots: "good_slots ch"
    and adds: "adds (pps_dpll (the_nd a wd)) ps (w_sys wd) (w_sys w)"
    and dirs: "\<forall>(p, r) \<in> set ps. direction_get (pin_table env (pr_ops r)) \<noteq> None"
    and room: "room ch k ps (w_sys w)"
  obtains
    (failed) e u where "get_pin ch k props w = Some (Inl e, w\<lparr>w_sys := u\<rparr>)" "same_tables (w_sys w) u"
      "ddrv u = ddrv (w_sys w)"
  | (got) p u where "get_pin ch k props w = Some (Inr p, w\<lparr>w_sys := u\<rparr>)" "ddrv u = ddrv (w_sys w)"
      "got env ps (w_sys wd) (w_sys w) k p u"
      "\<forall>k' i. k < k' \<longrightarrow> pc_slot (ic_pin ch k') = Slot i \<longrightarrow> xa_load (pin_xa u) i = None"
proof -
  have svd: "in_service env (w_sys wd)" and mark: "dev_marked (w_sys wd) (pps_dpll (the_nd a wd))"
    and own: "own_pins (w_sys wd)"
    using ready by (simp_all add: devices_ready_def)
  have sv: "in_service env (w_sys w)" by (rule adds_in_service [OF svd mark adds dirs])
  have wrap: "\<forall>i. pc_slot (ic_pin ch k) \<noteq> Slot_wrapped i" using slots by (simp add: good_slots_def)
  have free: "\<forall>i. pc_slot (ic_pin ch k) = Slot i \<longrightarrow> xa_load (pin_xa (w_sys w)) i = None"
    using room by (auto simp: room_def)
  show ?thesis
  proof (rule adds_get [OF sv adds wrap free, where clock_id = NSIM_DPLL_CLOCK_ID and idx = k
        and module = THIS_MODULE and mem = "pc_mem (ic_pin ch k)" and pmem = "pc_prop (ic_pin ch k)" and src = props])
    show "0 < p_refcount x \<and> parent_refs x = []"
      if "xa_load (pin_xa (w_sys wd)) p = Some x" "is_pin NSIM_DPLL_CLOCK_ID k THIS_MODULE x" for p x
      using own that by (auto simp: own_pins_def is_pin_def)
    show "pin_idx x \<noteq> k" if "p \<in> fst ` set ps" "pskel (w_sys w) p = Some x" for p x
      using room that by (auto simp: room_def)
  next
    fix e u
    assume "dpll_pin_get (pc_mem (ic_pin ch k)) (pc_prop (ic_pin ch k)) (pc_slot (ic_pin ch k)) NSIM_DPLL_CLOCK_ID k
        THIS_MODULE props (w_sys w) = Some (Inl e, u)" "same_tables (w_sys w) u" "ddrv u = ddrv (w_sys w)"
    then show ?thesis using failed [of e u] by (simp add: get_pin_def on_sys_def Let_def)
  next
    fix p u
    assume run: "dpll_pin_get (pc_mem (ic_pin ch k)) (pc_prop (ic_pin ch k)) (pc_slot (ic_pin ch k)) NSIM_DPLL_CLOCK_ID k
        THIS_MODULE props (w_sys w) = Some (Inr p, u)" and u: "ddrv u = ddrv (w_sys w)"
        "got env ps (w_sys wd) (w_sys w) k p u"
      and none: "\<And>q. xa_load (pin_xa (w_sys w)) q = None \<Longrightarrow> pc_slot (ic_pin ch k) \<noteq> Slot q \<Longrightarrow>
        xa_load (pin_xa u) q = None"
    have "xa_load (pin_xa u) i = None" if k': "k < k'" "pc_slot (ic_pin ch k') = Slot i" for k' i
    proof (rule none)
      show "xa_load (pin_xa (w_sys w)) i = None"
        using room k' by (auto simp: room_def dest: less_imp_le)
      show "pc_slot (ic_pin ch k) \<noteq> Slot i"
        using slots k' unfolding good_slots_def by (metis less_irrefl)
    qed
    then show ?thesis using got [of p u] run u by (simp add: get_pin_def on_sys_def Let_def)
  qed
qed

lemma world_register:
  assumes ready: "devices_ready env ch a wd" and adds: "adds (pps_dpll (the_nd a wd)) ps (w_sys wd) (w_sys w)"
    and room: "room ch k ps (w_sys w)" and got: "got env ps (w_sys wd) (w_sys w) k p u"
    and later: "\<forall>k' i. k < k' \<longrightarrow> pc_slot (ic_pin ch k') = Slot i \<longrightarrow> xa_load (pin_xa u) i = None"
    and w1: "same_tables u (w_sys w1)" and unused: "priv_unused priv (w_sys wd)"
  obtains
    (failed) e v t where "on_sys (dpll_pin_register env mem (pps_dpll (the_nd a wd)) p ops priv) w1
        = Some (Some e, w1\<lparr>w_sys := v\<rparr>)" "ddrv v = ddrv (w_sys w1)" "same_tables u v"
      "on_sys_only (dpll_pin_put p) (w1\<lparr>w_sys := v\<rparr>) = Some (w1\<lparr>w_sys := t\<rparr>)" "ddrv t = ddrv (w_sys w1)"
      "same_tables (w_sys w) t"
  | (registered) v where "on_sys (dpll_pin_register env mem (pps_dpll (the_nd a wd)) p ops priv) w1
        = Some (None, w1\<lparr>w_sys := v\<rparr>)" "ddrv v = ddrv (w_sys w1)"
      "adds (pps_dpll (the_nd a wd)) (ps @ [(p, \<lparr>pr_ops = ops, pr_priv = priv, pr_cookie = None\<rparr>)]) (w_sys wd) v"
      "room ch (Suc k) (ps @ [(p, \<lparr>pr_ops = ops, pr_priv = priv, pr_cookie = None\<rparr>)]) v"
proof -
  have svd: "in_service env (w_sys wd)" and mark: "dev_marked (w_sys wd) (pps_dpll (the_nd a wd))"
    using ready by (simp_all add: devices_ready_def)
  have new: "\<lparr>pr_ops = ops, pr_priv = priv, pr_cookie = None\<rparr> \<notin> set (dev_regs (w_sys wd) (pps_dpll (the_nd a wd)) p)"
    using unused unfolding priv_unused_def by (metis pin_reg.select_convs(2))
  obtain ret v where reg: "dpll_pin_register env mem (pps_dpll (the_nd a wd)) p ops priv (w_sys w1) = Some (ret, v)"
    "ddrv v = ddrv (w_sys w1)" "ret \<noteq> None \<longrightarrow> same_tables (w_sys w1) v"
    "ret = None \<longrightarrow> adds (pps_dpll (the_nd a wd)) (ps @ [(p, \<lparr>pr_ops = ops, pr_priv = priv, pr_cookie = None\<rparr>)]) (w_sys wd) v"
    "ret = None \<longrightarrow> pskel v = pskel (w_sys w1)" "ret = None \<longrightarrow> direction_get (pin_table env ops) \<noteq> None"
    using adds_register [OF svd mark adds got_tables [OF got w1] new, where mem = mem] .
  show ?thesis
  proof (cases ret)
    case (Some e)
    have u: "same_tables u v" using reg(3) Some same_tables_trans [OF w1] by simp
    have "undoes (dpll_pin_put p) (w_sys w) u" using got by (simp add: got_def)
    then obtain t where "dpll_pin_put p v = Some t" "same_tables (w_sys w) t" "ddrv t = ddrv v"
      using u unfolding undoes_def by blast
    then show ?thesis
      using failed [of e v t] reg(1,2) Some u by (simp add: on_sys_def on_sys_only_def)
  next
    case None
    have same: "pskel v = pskel u" using reg(5) None w1 by (simp add: same_tables_def pskel_def [abs_def])
    have live: "xa_load (pin_xa s) i = None \<longleftrightarrow> pskel s i = None" for s :: "nsim_mem dpll_sys" and i
      by (simp add: pskel_def)
    have "pskel u q = pskel (w_sys w) q" if "q \<in> fst ` set ps" for q
      using got that by (auto simp: got_def)
    then have "\<exists>x. pskel v q = Some x \<and> pin_idx x < Suc k" if "q \<in> fst ` set ps" for q
      using room that by (fastforce simp: room_def same)
    moreover have "\<exists>x. pskel v p = Some x \<and> pin_idx x < Suc k"
      using got by (auto simp: got_def same)
    ultimately have "room ch (Suc k) (ps @ [(p, \<lparr>pr_ops = ops, pr_priv = priv, pr_cookie = None\<rparr>)]) v"
      using later by (auto simp: room_def live same Suc_le_eq)
    then show ?thesis
      using registered [of v] reg None by (simp add: on_sys_def)
  qed
qed

section \<open>The loops\<close>

abbreviation quiet :: "nsim_dpll \<Rightarrow> nat \<times> bool" where
  "quiet n \<equiv> (lock_status n, holdover_timer n)"

definition built :: "init_choice \<Rightarrow> nat \<Rightarrow> nsim_world \<Rightarrow> nat \<Rightarrow> nat list \<Rightarrow> nat list \<Rightarrow> nsim_world \<Rightarrow> bool" where
  "built ch a wd k eps qs w \<longleftrightarrow> pins_held ch a wd eps qs w \<and> room ch k (held a eps qs w) (w_sys w)
     \<and> ext_pins (the_nd a w) = eps \<and> port_pins (the_nd a w) = qs
     \<and> quiet (the_nd a w) = quiet (the_nd a wd) \<and> (\<forall>q \<in> set qs. \<exists>k' < k. ic_npin ch k' = Some q)"

definition stopped :: "init_choice \<Rightarrow> nat \<Rightarrow> nsim_world \<Rightarrow> nat list \<Rightarrow> nat list \<Rightarrow> nsim_world \<Rightarrow> bool" where
  "stopped ch a wd eps qs w \<longleftrightarrow> pins_held ch a wd eps qs w \<and> ext_pins (the_nd a w) = eps \<and> port_pins (the_nd a w) = qs"

lemma built_stopped: "built ch a wd k eps qs w \<Longrightarrow> stopped ch a wd eps qs w"
  by (simp add: built_def stopped_def)

text \<open>The pins are still held in a world with the same tables, handles, port pins and network devices.\<close>

lemma stopped_same:
  assumes "stopped ch a wd eps qs w" and "same_tables (w_sys w) (w_sys w')" and "the_nd a w' = the_nd a w"
    and "\<And>q. q \<in> set qs \<Longrightarrow> the_np q w' = the_np q w" and "w_netdev w' = w_netdev w"
  shows "stopped ch a wd eps qs w'"
proof -
  have "held a eps qs w' = held a eps qs w"
    using assms(3,4) by (simp add: held_def port_regs_def cong: map_cong)
  then show ?thesis
    using assms adds_same [OF _ assms(2)] by (simp add: stopped_def pins_held_def netdevs_ok_def)
qed

lemma pins_dirs:
  assumes "devices_ready env ch a wd" and "pins_held ch a wd eps qs w"
  shows "\<forall>(p, r) \<in> set (held a eps qs w). direction_get (pin_table env (pr_ops r)) \<noteq> None"
  using held_ok(1) [OF assms] by blast

lemma ext_loop:
  assumes ready: "devices_ready env ch a wd" and slots: "good_slots ch"
    and "built ch a wd (NSIM_DPLL_EXT_PIN_BASE + length eps) eps [] w" and "is = [length eps..<NSIM_DPLL_NUM_EXT_PINS]"
  shows "ends (init_ext_pins env ch a is w) (\<lambda>w'. \<exists>eps. stopped ch a wd eps [] w')
    (\<lambda>w'. \<exists>eps. built ch a wd (NSIM_DPLL_EXT_PIN_BASE + NSIM_DPLL_NUM_EXT_PINS) eps [] w')"
  using assms(3,4)
proof (induction "is" arbitrary: eps w)
  case Nil
  have "length eps = NSIM_DPLL_NUM_EXT_PINS"
    using Nil.prems(1) Nil.prems(2) [symmetric]
    by (auto simp: built_def pins_held_def upt_eq_Nil_conv)
  with Nil show ?case by (auto simp: ends_def)
next
  case (Cons i "is")
  have i: "i = length eps" "i < NSIM_DPLL_NUM_EXT_PINS" "is = [Suc (length eps)..<NSIM_DPLL_NUM_EXT_PINS]"
    using sym [OF Cons.prems(2)] by (auto simp: upt_eq_Cons_conv)
  let ?k = "NSIM_DPLL_EXT_PIN_BASE + i"
  let ?props = "plain_props (nsim_dpll_ext_pin_labels ! i) DPLL_PIN_TYPE_EXT nsim_dpll_ext_freq"
  have h: "pins_held ch a wd eps [] w" and adds: "adds (pps_dpll (the_nd a wd)) (held a eps [] w) (w_sys wd) (w_sys w)"
    and room: "room ch ?k (held a eps [] w) (w_sys w)" and pps: "pps_dpll (the_nd a w) = pps_dpll (the_nd a wd)"
    using Cons.prems(1) by (simp_all add: built_def pins_held_def i(1))
  note st = built_stopped [OF Cons.prems(1)]
  have unused: "priv_unused (ext_pin_privs a i) (w_sys wd)"
    using ready i(2) by (simp add: devices_ready_def fresh_memory_def)
  from ready slots adds pins_dirs [OF ready h] room show ?case
  proof (cases rule: world_get [where props = ?props])
    case (failed e u)
    then have "stopped ch a wd eps [] (w\<lparr>w_sys := u\<rparr>)"
      by (intro stopped_same [OF st]) (simp_all add: sys_memory)
    then show ?thesis using failed(1) by (auto simp: ends_def)
  next
    case (got p u)
    let ?w1 = "upd_np (ext_pin_privs a i) (\<lambda>q. q\<lparr>np_direction := nsim_dpll_ext_pin_dirs ! i,
        np_frequency := DPLL_PIN_FREQUENCY_1_HZ\<rparr>) (w\<lparr>w_sys := u\<rparr>)"
    have u: "same_tables u (w_sys ?w1)" using upd_tables(2) [of "w\<lparr>w_sys := u\<rparr>"] by simp
    have mem: "the_nd a ?w1 = the_nd a w" using got(2) by (simp add: sys_memory)
    from ready adds room got(3,4) u unused show ?thesis
    proof (cases rule: world_register [where mem = "pc_refs (ic_pin ch ?k)" and ops = GNSS_PIN_OPS])
      case (failed e v t)
      have "stopped ch a wd eps [] (?w1\<lparr>w_sys := t\<rparr>)"
        by (rule stopped_same [OF st]) (use failed mem in \<open>simp_all add: sys_memory\<close>)
      then show ?thesis
        using got(1) failed(1,4) by (auto simp: ends_def Let_def mem [simplified] pps)
    next
      case (registered v)
      let ?w2 = "upd_nd a (\<lambda>n. n\<lparr>ext_pins := ext_pins n @ [p]\<rparr>) (?w1\<lparr>w_sys := v\<rparr>)"
      have mem2: "the_nd a (?w1\<lparr>w_sys := v\<rparr>) = the_nd a w" using mem registered(2) by (simp add: sys_memory)
      have held: "held a (eps @ [p]) [] ?w2
          = held a eps [] w @ [(p, \<lparr>pr_ops = GNSS_PIN_OPS, pr_priv = ext_pin_privs a i, pr_cookie = None\<rparr>)]"
        by (simp add: held_def ext_regs_def port_regs_def enumerate_append_eq mem2 [simplified] gnss_reg_def
            flip: i(1))
      have tabs: "same_tables v (w_sys ?w2)" using upd_tables(1) [of "?w1\<lparr>w_sys := v\<rparr>"] by simp
      have "room ch (Suc ?k) (held a (eps @ [p]) [] ?w2) (w_sys ?w2)"
        using registered(4) tabs unfolding held by (simp add: room_def same_tables_def pskel_def)
      then have "built ch a wd (NSIM_DPLL_EXT_PIN_BASE + length (eps @ [p])) (eps @ [p]) [] ?w2"
        using Cons.prems(1) adds_same [OF registered(3) tabs] i(1,2)
        unfolding built_def pins_held_def held by (simp add: mem2 [simplified, unfolded i(1)] netdevs_ok_def)
      from Cons.IH [OF this] show ?thesis
        using got(1) registered(1) i(3) by (simp add: Let_def mem [simplified] pps)
    qed
  qed
qed

lemma port_loop:
  assumes ready: "devices_ready env ch a wd" and slots: "good_slots ch"
    and "built ch a wd k eps qs w"
    and "\<forall>port \<in> set ports. port_is_pf port \<longrightarrow> w_netdev wd (port_ns port) = None"
  shows "ends (init_port_pins env ch a k ports w) (\<lambda>w'. \<exists>qs. stopped ch a wd eps qs w')
    (\<lambda>w'. \<exists>k qs. built ch a wd k eps qs w')"
  using assms(3,4)
proof (induction ports arbitrary: k qs w)
  case Nil
  then show ?case by (auto simp: ends_def)
next
  case (Cons port ports)
  note st = built_stopped [OF Cons.prems(1)]
  show ?case
  proof (cases "port_is_pf port \<and> ic_npin ch k \<noteq> None")
    case False
    then consider "\<not> port_is_pf port" | "port_is_pf port" "ic_npin ch k = None" by blast
    then show ?thesis
    proof cases
      case 1
      then show ?thesis using Cons.IH [OF Cons.prems(1)] Cons.prems(2) by simp
    qed (use st in \<open>auto simp: ends_def\<close>)
  next
    case True
    then obtain q where q: "ic_npin ch k = Some q" "port_is_pf port" by blast
    have once: "\<And>k'. ic_npin ch k' = Some q \<Longrightarrow> k' = k"
      using ready q(1) unfolding devices_ready_def fresh_memory_def by blast
    have new: "q \<notin> set qs"
    proof
      assume "q \<in> set qs"
      then obtain k' where "k' < k" "ic_npin ch k' = Some q" using Cons.prems(1) by (auto simp: built_def)
      then show False using once by blast
    qed
    have unused: "priv_unused q (w_sys wd)"
      using ready q(1) by (auto simp: devices_ready_def fresh_memory_def)
    let ?props = "plain_props (port_name port) DPLL_PIN_TYPE_SYNCE_ETH_PORT [DPLL_PIN_FREQUENCY DPLL_PIN_FREQUENCY_10_MHZ]"
    let ?w0 = "upd_np q (\<lambda>_. \<lparr>np_pin = 0, np_ns = port_ns port, np_direction = DPLL_PIN_DIRECTION_OUTPUT,
        np_frequency = DPLL_PIN_FREQUENCY_10_MHZ\<rparr>) w"
    have held0: "held a eps qs ?w0 = held a eps qs w"
      using new by (auto simp: held_def port_regs_def)
    have st0: "stopped ch a wd eps qs ?w0"
      by (rule stopped_same [OF st]) (use new in auto)
    then have h0: "pins_held ch a wd eps qs ?w0" by (simp add: stopped_def)
    then have adds: "adds (pps_dpll (the_nd a wd)) (held a eps qs ?w0) (w_sys wd) (w_sys ?w0)"
      and pps: "pps_dpll (the_nd a ?w0) = pps_dpll (the_nd a wd)"
      by (simp_all add: pins_held_def)
    have room: "room ch k (held a eps qs ?w0) (w_sys ?w0)"
      using Cons.prems(1) unfolding held0 by (simp add: built_def room_def pskel_def)
    from ready slots adds pins_dirs [OF ready h0] room show ?thesis
    proof (cases rule: world_get [where props = ?props])
      case (failed e u)
      then have "stopped ch a wd eps qs (?w0\<lparr>w_sys := u\<rparr>)"
        by (intro stopped_same [OF st0]) (simp_all add: sys_memory)
      then show ?thesis using failed(1) q by (auto simp: ends_def Let_def)
    next
      case (got p u)
      let ?w1 = "?w0\<lparr>w_sys := u\<rparr>"
      have mem: "the_nd a ?w1 = the_nd a w" "the_np x ?w1 = the_np x ?w0" for x
        using got(2) by (simp_all add: sys_memory del: world_simps(4))
      have u: "same_tables u (w_sys ?w1)" by simp
      from ready adds room got(3,4) u unused show ?thesis
      proof (cases rule: world_register [where mem = "pc_refs (ic_pin ch k)" and ops = RCLK_PIN_OPS])
        case (failed e v t)
        have memt: "the_nd a (?w1\<lparr>w_sys := t\<rparr>) = the_nd a w" "the_np x (?w1\<lparr>w_sys := t\<rparr>) = the_np x ?w0" for x
          using got(2) failed(5) by (simp_all add: sys_memory del: world_simps(4))
        have "stopped ch a wd eps qs (?w1\<lparr>w_sys := t\<rparr>)"
          by (rule stopped_same [OF st0]) (use failed(6) memt in simp_all)
        then show ?thesis
          using got(1) failed(1,4) q by (auto simp: ends_def Let_def mem pps [simplified])
      next
        case (registered v)
        let ?wn = "(?w1\<lparr>w_sys := v\<rparr>)\<lparr>w_netdev := dpll_netdev_pin_set (port_ns port) (Some p) (w_netdev (?w1\<lparr>w_sys := v\<rparr>))\<rparr>"
        let ?w2 = "upd_nd a (\<lambda>n. n\<lparr>port_pins := port_pins n @ [q]\<rparr>) (upd_np q (\<lambda>np. np\<lparr>np_pin := p\<rparr>) ?wn)"
        have memv: "the_nd a (?w1\<lparr>w_sys := v\<rparr>) = the_nd a w" "the_np x (?w1\<lparr>w_sys := v\<rparr>) = the_np x ?w0" for x
          using got(2) registered(2) by (simp_all add: sys_memory del: world_simps(4))
        have held: "held a eps (qs @ [q]) ?w2
            = held a eps qs ?w0 @ [(p, \<lparr>pr_ops = RCLK_PIN_OPS, pr_priv = q, pr_cookie = None\<rparr>)]"
          using new by (auto simp: held_def port_regs_def memv [simplified] rclk_reg_def)
        have "same_tables (w_sys ?wn) (w_sys ?w2)"
          by (simp add: same_tables_def)
        then have tabs: "same_tables v (w_sys ?w2)" by simp
        have netdevs: "netdevs_ok wd (qs @ [q]) ?w2"
          using h0 Cons.prems(2) q(2) new
          by (auto simp: netdevs_ok_def memv [simplified] pins_held_def dpll_netdev_pin_set_def)
        have "room ch (Suc k) (held a eps (qs @ [q]) ?w2) (w_sys ?w2)"
          using registered(4) tabs unfolding held by (simp add: room_def same_tables_def pskel_def)
        moreover have "pins_held ch a wd eps (qs @ [q]) ?w2"
          using h0 adds_same [OF registered(3) tabs] netdevs new q(1)
          unfolding pins_held_def held by (auto simp: memv(1) [simplified])
        ultimately have "built ch a wd (Suc k) eps (qs @ [q]) ?w2"
          using Cons.prems(1) q(1) unfolding built_def by (auto simp: memv(1) [simplified] intro: less_SucI)
        from Cons.IH [OF this] show ?thesis
          using got(1) registered(1) q Cons.prems(2) by (simp add: Let_def mem pps [simplified])
      qed
    qed
  qed
qed

section \<open>Notifications\<close>

text \<open>On tables in service a change notification returns and changes no object.\<close>

definition reports :: "(nsim_mem dpll_sys \<Rightarrow> (ret \<times> nsim_mem dpll_sys) option) \<Rightarrow> nsim_mem dpll_sys \<Rightarrow> bool" where
  "reports f s \<longleftrightarrow> (\<forall>t. same_tables s t \<longrightarrow> (\<exists>r u. f t = Some (r, u) \<and> same_objects t u))"

lemma reports_device:
  assumes sv: "in_service env s" and d: "dev_marked s d"
  shows "reports (dpll_device_change_ntf env d) s"
  unfolding reports_def
proof (intro allI impI)
  fix t
  assume "same_tables s t"
  then have "device_answerable env t d"
    using sv d in_service_same [of s t env] by (auto simp: in_service_def same_tables_def dev_marked_def)
  from device_event_runs [OF this] show "\<exists>r u. dpll_device_change_ntf env d t = Some (r, u) \<and> same_objects t u"
    unfolding dpll_device_change_ntf_def using device_event_same by blast
qed

lemma reports_pin:
  assumes sv: "in_service env s"
  shows "reports (dpll_pin_change_ntf env p) s"
  unfolding reports_def
proof (intro allI impI)
  fix t
  assume "same_tables s t"
  then have t: "in_service env t" using sv in_service_same by blast
  show "\<exists>r u. dpll_pin_change_ntf env p t = Some (r, u) \<and> same_objects t u"
  proof (cases "dpll_pin_available t p")
    case True
    then have "answerable env t p"
      using t by (auto simp: dpll_pin_available_def in_service_def serviceable_def pin_marked_def
          split: option.splits if_splits)
    from pin_event_runs [OF in_service_wf [OF t] this] show ?thesis
      unfolding dpll_pin_change_ntf_def using pin_event_same by blast
  qed (simp add: dpll_pin_change_ntf_def dpll_pin_event_send_def same_objects_def)
qed

lemma send_all_reports:
  assumes "\<forall>f \<in> set fs. reports f (w_sys w)"
  shows "\<exists>s. send_all fs w = Some (w\<lparr>w_sys := s\<rparr>) \<and> same_objects (w_sys w) s"
  using assms
proof (induction fs arbitrary: w)
  case Nil
  show ?case by (intro exI [of _ "w_sys w"]) (simp add: same_objects_def)
next
  case (Cons f fs)
  then obtain r u where u: "f (w_sys w) = Some (r, u)" "same_objects (w_sys w) u"
    unfolding reports_def by (metis list.set_intros(1) same_tables_refl)
  then have "same_tables (w_sys w) u" by (simp add: same_objects_tables)
  then have "\<forall>f \<in> set fs. reports f (w_sys (w\<lparr>w_sys := u\<rparr>))"
    using Cons.prems same_tables_trans by (fastforce simp: reports_def)
  from Cons.IH [OF this] u show ?case
    by (auto simp: on_sys_def same_objects_def)
qed

lemma initial_ntfs_run:
  assumes ready: "devices_ready env ch a wd" and h: "pins_held ch a wd eps qs w"
  shows "\<exists>s. initial_ntfs env a w = Some (None, w\<lparr>w_sys := s\<rparr>) \<and> same_objects (w_sys w) s"
proof -
  have adds: "adds (pps_dpll (the_nd a wd)) (held a eps qs w) (w_sys wd) (w_sys w)"
    and mem: "pps_dpll (the_nd a w) = pps_dpll (the_nd a wd)" "eec_dpll (the_nd a w) = eec_dpll (the_nd a wd)"
    using h by (simp_all add: pins_held_def)
  have sv: "in_service env (w_sys w)"
    using adds_in_service [OF _ _ adds pins_dirs [OF ready h]] ready by (simp add: devices_ready_def)
  have "dev_marked (w_sys w) (pps_dpll (the_nd a w)) \<and> dev_marked (w_sys w) (eec_dpll (the_nd a w))"
    using ready by (simp add: adds_marked [OF adds] mem devices_ready_def)
  then have "\<forall>f \<in> set (change_ntfs env (the_nd a w)
      @ map (\<lambda>q. dpll_pin_change_ntf env (np_pin (the_np q w))) (port_pins (the_nd a w))). reports f (w_sys w)"
    using reports_device [OF sv] reports_pin [OF sv] by (auto simp: change_ntfs_def)
  from send_all_reports [OF this] show ?thesis by (auto simp: initial_ntfs_def)
qed

section \<open>From the devices to the end\<close>

text \<open>The GNSS pin comes first.\<close>

lemma gnss_stage:
  assumes ready: "devices_ready env ch a wd" and slots: "good_slots ch"
    and room: "room ch NSIM_DPLL_GNSS_PIN_IDX [] (w_sys wd)"
    and mem: "ext_pins (the_nd a wd) = []" "port_pins (the_nd a wd) = []"
    and devs: "rolls_back a handles (err_eec_unreg env a) F wd"
    and rest: "\<And>w. built ch a wd NSIM_DPLL_EXT_PIN_BASE [] [] w \<Longrightarrow> ends (next w) F S"
  shows "ends (or_else (get_gnss_pin ch a wd) (err_eec_unreg env a) (\<lambda>w.
      or_else (on_sys (dpll_pin_register env (pc_refs (ic_pin ch NSIM_DPLL_GNSS_PIN_IDX)) (pps_dpll (the_nd a w))
        (gnss_pin (the_nd a w)) GNSS_PIN_OPS (gnss_pin_priv a)) w) (err_gnss_put env a) next)) F S"
proof -
  define w0 where "w0 = upd_np (gnss_pin_priv a) (\<lambda>q. q\<lparr>np_direction := DPLL_PIN_DIRECTION_INPUT,
                    np_frequency := DPLL_PIN_FREQUENCY_1_HZ\<rparr>) wd"
  have same0: "same_tables (w_sys wd) (w_sys w0)" by (simp add: w0_def)
  have mem0: "the_nd a w0 = the_nd a wd" "w_netdev w0 = w_netdev wd" by (simp_all add: w0_def)
  have wf: "Dpll_Registry.wf (w_sys wd)" using ready in_service_wf by (auto simp: devices_ready_def)
  have adds: "adds (pps_dpll (the_nd a wd)) [] (w_sys wd) (w_sys w0)"
    by (rule adds_same [OF adds_refl [OF wf] same0])
  have room0: "room ch NSIM_DPLL_GNSS_PIN_IDX [] (w_sys w0)"
    using room same0 by (simp add: room_def same_tables_def)
  have unused: "priv_unused (gnss_pin_priv a) (w_sys wd)"
    using ready by (simp add: devices_ready_def fresh_memory_def)
  have undone: "\<exists>w'. err_eec_unreg env a w = Some w' \<and> F w'"
    if "same_tables (w_sys wd) (w_sys w)" and "handles (the_nd a w) = handles (the_nd a wd)"
      and "w_netdev w = w_netdev wd" for w
    using rolls_backD [OF devs that] by blast
  have dirs: "\<forall>(p :: nat, r) \<in> set []. direction_get (pin_table env (pr_ops r)) \<noteq> None" by simp
  from ready slots adds dirs room0 show ?thesis
  proof (cases rule: world_get [where props = nsim_dpll_gnss_pin_props])
    case (failed e u)
    obtain w' where "err_eec_unreg env a (w0\<lparr>w_sys := u\<rparr>) = Some w' \<and> F w'"
      by (atomize_elim, rule undone) (use failed(2,3) same0 mem0 same_tables_trans in \<open>auto simp: sys_memory\<close>)
    then show ?thesis
      using failed(1) by (simp add: get_gnss_pin_def or_else_def ends_def w0_def [symmetric])
  next
    case (got p u)
    define w1 where "w1 = upd_nd a (\<lambda>n. n\<lparr>gnss_pin := p\<rparr>) (w0\<lparr>w_sys := u\<rparr>)"
    have u: "same_tables u (w_sys w1)" using upd_tables(1) [of "w0\<lparr>w_sys := u\<rparr>"] by (simp add: w1_def)
    have mem1: "the_nd a w1 = (the_nd a wd)\<lparr>gnss_pin := p\<rparr>" "w_netdev w1 = w_netdev wd"
      using got(2) mem0 by (simp_all add: w1_def sys_memory)
    have run: "get_gnss_pin ch a wd = Some (None, w1)"
      using got(1) by (simp add: get_gnss_pin_def w0_def [symmetric] w1_def)
    from ready adds room0 got(3,4) u unused show ?thesis
    proof (cases rule: world_register [where mem = "pc_refs (ic_pin ch NSIM_DPLL_GNSS_PIN_IDX)" and ops = GNSS_PIN_OPS])
      case (failed e v t)
      have memv: "the_nd a (w1\<lparr>w_sys := v\<rparr>) = the_nd a w1" using failed(2) by (simp add: sys_memory)
      obtain w' where "err_eec_unreg env a (w1\<lparr>w_sys := t\<rparr>) = Some w' \<and> F w'"
        by (atomize_elim, rule undone) (use failed(5,6) same0 mem1 same_tables_trans in \<open>auto simp: sys_memory\<close>)
      then show ?thesis
        using failed(1,4) by (simp add: run mem1 memv err_gnss_put_def or_else_def ends_def)
    next
      case (registered v)
      let ?w2 = "w1\<lparr>w_sys := v\<rparr>"
      have mem2: "the_nd a ?w2 = (the_nd a wd)\<lparr>gnss_pin := p\<rparr>" using registered(2) mem1 by (simp add: sys_memory)
      have held: "held a [] [] ?w2 = [(p, \<lparr>pr_ops = GNSS_PIN_OPS, pr_priv = gnss_pin_priv a, pr_cookie = None\<rparr>)]"
        by (simp add: held_def ext_regs_def port_regs_def mem2 gnss_reg_def)
      have "built ch a wd NSIM_DPLL_EXT_PIN_BASE [] [] ?w2"
        using registered(3,4) mem mem1(2)
        by (simp add: built_def pins_held_def held mem2 netdevs_ok_def NSIM_DPLL_EXT_PIN_BASE_def)
      from rest [OF this] show ?thesis
        using registered(1) by (simp add: run mem1 or_else_def)
    qed
  qed
qed

text \<open>What follows the GNSS pin.\<close>

lemma port_pins_w_dpll:
  "init_port_pins env ch a k ports w = Some (r, w') \<Longrightarrow> w_dpll w' = w_dpll w"
proof (induction ports arbitrary: k w)
  case (Cons port ports)
  then show ?case
    by (fastforce simp: on_sys_def on_sys_only_def get_pin_def Let_def
        split: if_splits option.splits sum.splits Option.bind_splits prod.splits)
qed simp

text \<open>
  \<open>set_up\<close>: the device at \<open>a\<close> is as a successful set-up leaves it, and undoing its two devices
  arrives at \<open>F\<close>.
\<close>

definition set_up :: "nsim_mem dpll_env \<Rightarrow> init_choice \<Rightarrow> nat \<Rightarrow> (nsim_world \<Rightarrow> bool) \<Rightarrow> nsim_world \<Rightarrow> bool" where
  "set_up env ch a F w \<longleftrightarrow> (\<exists>wd. devices_ready env ch a wd \<and> rolls_back a handles (err_eec_unreg env a) F wd
     \<and> pins_held ch a wd (ext_pins (the_nd a w)) (port_pins (the_nd a w)) w)
     \<and> receiver_ready (the_nd a w) \<and> w_dpll w = Some a"

lemma ends_keeps:
  "ends r F S \<Longrightarrow> (\<And>ret w. r = Some (ret, w) \<Longrightarrow> Q w) \<Longrightarrow> ends r F (\<lambda>w. S w \<and> Q w)"
  unfolding ends_def by metis

lemma last_stages:
  assumes ready: "devices_ready env ch a wd" and devs: "rolls_back a handles (err_eec_unreg env a) F wd"
    and h: "pins_held ch a wd eps qs w" and mem: "ext_pins (the_nd a w) = eps" "port_pins (the_nd a w) = qs"
    and quiet: "quiet (the_nd a w) = (DPLL_LOCK_STATUS_LOCKED_HO_ACQ, False)" and up: "w_dpll w = Some a"
  shows "ends (or_else (init_gnss ch a w) (err_ports_cleanup env a) (\<lambda>w.
      or_else (init_kobj ch a w) (err_gnss_cleanup env a) (\<lambda>w.
      or_else (Some (ic_sysfs ch, w)) (err_sysfs_kobj env a) (initial_ntfs env a)))) F (set_up env ch a F)"
proof (rule ends_or_else [where S = "\<lambda>w. pins_held ch a wd eps qs w \<and> ext_pins (the_nd a w) = eps
      \<and> port_pins (the_nd a w) = qs \<and> receiver_ready (the_nd a w) \<and> w_dpll w = Some a"
      and F = "\<lambda>w'. w' = w"])
  show "ends (init_gnss ch a w) (\<lambda>w'. w' = w) (\<lambda>w. pins_held ch a wd eps qs w \<and> ext_pins (the_nd a w) = eps
      \<and> port_pins (the_nd a w) = qs \<and> receiver_ready (the_nd a w) \<and> w_dpll w = Some a)"
  proof (cases "ic_gnss_alloc ch \<and> ic_gnss_register ch = None")
    case True
    then show ?thesis using h mem quiet up by (simp add: init_gnss_def ends_def pins_held_upd receiver_ready_def)
  next
    case False
    then have "\<exists>e. init_gnss ch a w = Some (Some e, w)"
      by (cases "ic_gnss_register ch") (simp_all add: init_gnss_def)
    then obtain e where "init_gnss ch a w = Some (Some e, w)" ..
    then show ?thesis by (simp add: ends_def)
  qed
  show "\<exists>w''. err_ports_cleanup env a w' = Some w'' \<and> F w''" if "w' = w" for w'
    using ports_back [OF ready h mem devs] that by blast
next
  fix w
  assume "pins_held ch a wd eps qs w \<and> ext_pins (the_nd a w) = eps
      \<and> port_pins (the_nd a w) = qs \<and> receiver_ready (the_nd a w) \<and> w_dpll w = Some a"
  then have w: "pins_held ch a wd eps qs w" "ext_pins (the_nd a w) = eps" "port_pins (the_nd a w) = qs"
    "receiver_ready (the_nd a w)" "w_dpll w = Some a" by auto
  let ?w = "upd_nd a (\<lambda>n. n\<lparr>sysfs_kobj := True\<rparr>) w"
  have w': "pins_held ch a wd eps qs ?w" "ext_pins (the_nd a ?w) = eps" "port_pins (the_nd a ?w) = qs"
    "receiver_ready (the_nd a ?w)" "w_dpll ?w = Some a"
    using w by (simp_all add: pins_held_upd receiver_ready_def)
  obtain s where s: "initial_ntfs env a ?w = Some (None, ?w\<lparr>w_sys := s\<rparr>)" "same_objects (w_sys ?w) s"
    using initial_ntfs_run [OF ready w'(1)] by blast
  have same: "the_nd a (?w\<lparr>w_sys := s\<rparr>) = the_nd a ?w" "the_np q (?w\<lparr>w_sys := s\<rparr>) = the_np q ?w" for q
    using s(2) by (simp_all add: the_nd_def the_np_def same_objects_def)
  have "stopped ch a wd eps qs (?w\<lparr>w_sys := s\<rparr>)"
    by (rule stopped_same [where w = ?w]) (use w' s(2) same in \<open>simp_all add: stopped_def same_objects_tables\<close>)
  then have "set_up env ch a F (?w\<lparr>w_sys := s\<rparr>)"
    using w' ready devs same(1) by (auto simp: set_up_def stopped_def simp del: world_simps)
  then show "ends (or_else (init_kobj ch a w) (err_gnss_cleanup env a) (\<lambda>w.
      or_else (Some (ic_sysfs ch, w)) (err_sysfs_kobj env a) (initial_ntfs env a))) F (set_up env ch a F)"
    using gnss_cleanup_back [OF ready w(1-3) devs] sysfs_back [OF ready w'(1-3) devs] s(1)
    by (cases "ic_kobj ch"; cases "ic_sysfs ch") (auto simp: init_kobj_def or_else_def)
qed

lemma pins_stage:
  assumes ready: "devices_ready env ch a wd" and slots: "good_slots ch"
    and built: "built ch a wd NSIM_DPLL_EXT_PIN_BASE [] [] w"
    and wd: "quiet (the_nd a wd) = (DPLL_LOCK_STATUS_LOCKED_HO_ACQ, False)"
    and net: "\<forall>port \<in> set ports. port_is_pf port \<longrightarrow> w_netdev wd (port_ns port) = None"
    and devs: "rolls_back a handles (err_eec_unreg env a) F wd"
  shows "ends (or_else (init_ext_pins env ch a [0..<NSIM_DPLL_NUM_EXT_PINS] w) (err_ext_cleanup env a) (\<lambda>w.
      or_else (init_port_pins env ch a (NSIM_DPLL_EXT_PIN_BASE + NSIM_DPLL_NUM_EXT_PINS) ports (start_timers a w))
        (err_ports_cleanup env a) (\<lambda>w.
      or_else (init_gnss ch a w) (err_ports_cleanup env a) (\<lambda>w.
      or_else (init_kobj ch a w) (err_gnss_cleanup env a) (\<lambda>w.
      or_else (Some (ic_sysfs ch, w)) (err_sysfs_kobj env a) (initial_ntfs env a)))))) F (set_up env ch a F)"
proof (rule ends_or_else [OF ext_loop [OF ready slots]])
  show "built ch a wd (NSIM_DPLL_EXT_PIN_BASE + length []) [] [] w" using built by simp
  show "[0..<NSIM_DPLL_NUM_EXT_PINS] = [length []..<NSIM_DPLL_NUM_EXT_PINS]" by simp
  show "\<exists>w'. err_ext_cleanup env a w = Some w' \<and> F w'" if "\<exists>eps. stopped ch a wd eps [] w" for w
    using that ext_back [OF ready _ _ devs] by (auto simp: stopped_def)
next
  fix w
  let ?k = "NSIM_DPLL_EXT_PIN_BASE + NSIM_DPLL_NUM_EXT_PINS"
  assume "\<exists>eps. built ch a wd ?k eps [] w"
  then obtain eps where b: "built ch a wd ?k eps [] w" ..
  have "pins_held ch a wd eps [] (start_timers a w)"
    using b pins_held_upd [of "\<lambda>n. n\<lparr>ntf_work := False, ntf_timer := True, holdover_timer := False\<rparr>" ch a wd eps "[]" w]
    by (simp add: built_def start_timers_def pins_held_def held_def port_regs_def netdevs_ok_def)
  then have b: "built ch a wd ?k eps [] (start_timers a w)"
    using b wd by (simp add: built_def start_timers_def held_def port_regs_def room_def pskel_def)
  note ports = ends_keeps [OF port_loop [OF ready slots b net] port_pins_w_dpll]
  show "ends (or_else (init_port_pins env ch a ?k ports (start_timers a w)) (err_ports_cleanup env a) (\<lambda>w.
      or_else (init_gnss ch a w) (err_ports_cleanup env a) (\<lambda>w.
      or_else (init_kobj ch a w) (err_gnss_cleanup env a) (\<lambda>w.
      or_else (Some (ic_sysfs ch, w)) (err_sysfs_kobj env a) (initial_ntfs env a))))) F (set_up env ch a F)"
  proof (rule ends_or_else [OF ports], assumption)
    show "\<exists>w'. err_ports_cleanup env a w = Some w' \<and> F w'" if "\<exists>qs. stopped ch a wd eps qs w" for w
      using that ports_back [OF ready _ _ _ devs] unfolding stopped_def by blast
  next
    fix w1
    assume "(\<exists>k qs. built ch a wd k eps qs w1) \<and> w_dpll w1 = w_dpll (start_timers a w)"
    then obtain k qs where b: "built ch a wd k eps qs w1" and up: "w_dpll w1 = Some a"
      by (auto simp: start_timers_def)
    then have h: "pins_held ch a wd eps qs w1" and mem: "ext_pins (the_nd a w1) = eps" "port_pins (the_nd a w1) = qs"
      and quiet: "quiet (the_nd a w1) = (DPLL_LOCK_STATUS_LOCKED_HO_ACQ, False)"
      using wd by (auto simp: built_def)
    show "ends (or_else (init_gnss ch a w1) (err_ports_cleanup env a) (\<lambda>w.
      or_else (init_kobj ch a w) (err_gnss_cleanup env a) (\<lambda>w.
      or_else (Some (ic_sysfs ch, w)) (err_sysfs_kobj env a) (initial_ntfs env a)))) F (set_up env ch a F)"
      by (rule last_stages [OF ready devs h mem quiet up])
  qed
qed

section \<open>The set-up\<close>

abbreviation as_before :: "nsim_world \<Rightarrow> nsim_world \<Rightarrow> bool" where
  "as_before w w' \<equiv> same_tables (w_sys w) (w_sys w') \<and> w_netdev w' = w_netdev w"

text \<open>Behind the first device the second one is still to be had.\<close>

lemma eec_to_come:
  assumes up: "device_up env ch a NSIM_DPLL_PPS_IDX sel w w'"
    and own: "own_devices a NSIM_DPLL_EEC_IDX (w_sys w)" and free: "free_slots ch (w_sys w)"
  shows "own_devices a NSIM_DPLL_EEC_IDX (w_sys w')"
    and "\<forall>i. dev_slot ch NSIM_DPLL_EEC_IDX i \<longrightarrow> xa_load (device_xa (w_sys w')) i = None"
proof -
  let ?d = "sel (the_nd a w')"
  have other: "xa_load (device_xa (w_sys w')) e = xa_load (device_xa (w_sys w)) e" if "e \<noteq> ?d" for e
    using up that by (simp add: device_up_def)
  have pps: "\<not> is_device NSIM_DPLL_CLOCK_ID NSIM_DPLL_EEC_IDX THIS_MODULE x"
    if "xa_load (device_xa (w_sys w')) ?d = Some x" for x
    using up that by (auto simp: device_up_def is_device_def NSIM_DPLL_PPS_IDX_def NSIM_DPLL_EEC_IDX_def)
  show "own_devices a NSIM_DPLL_EEC_IDX (w_sys w')"
    using own other pps unfolding own_devices_def by metis
  have "\<not> dev_slot ch NSIM_DPLL_EEC_IDX ?d"
    using up free by (auto simp: device_up_def free_slots_def)
  then show "\<forall>i. dev_slot ch NSIM_DPLL_EEC_IDX i \<longrightarrow> xa_load (device_xa (w_sys w')) i = None"
    using other free by (metis free_slots_def)
qed

lemma devices_then_ready:
  assumes start: "startable env ch a (w_sys w)"
    and up1: "device_up env ch a NSIM_DPLL_PPS_IDX pps_dpll w w1" and up2: "device_up env ch a NSIM_DPLL_EEC_IDX eec_dpll w1 w2"
    and mem: "pps_dpll (the_nd a w2) = pps_dpll (the_nd a w1)"
  shows "devices_ready env ch a w2" and "room ch NSIM_DPLL_GNSS_PIN_IDX [] (w_sys w2)" and "w_netdev w2 = w_netdev w"
proof -
  have pins: "pin_xa (w_sys w2) = pin_xa (w_sys w)" and regs: "dev_regs (w_sys w2) = dev_regs (w_sys w)"
    and net: "w_netdev w2 = w_netdev w"
    using up1 up2 by (simp_all add: device_up_def)
  have "dev_marked (w_sys w2) (pps_dpll (the_nd a w2)) \<and> dev_marked (w_sys w2) (eec_dpll (the_nd a w2))"
    using up1 up2 by (simp add: device_up_def mem)
  then show "devices_ready env ch a w2"
    using start up2 by (simp add: devices_ready_def startable_def device_up_def own_pins_def fresh_memory_def
        priv_unused_def pins regs)
  show "room ch NSIM_DPLL_GNSS_PIN_IDX [] (w_sys w2)"
    using start by (simp add: room_def startable_def free_slots_def pins)
  show "w_netdev w2 = w_netdev w" by (rule net)
qed

lemma startable_same: "same_tables s t \<Longrightarrow> startable env ch a t = startable env ch a s"
proof -
  assume same: "same_tables s t"
  then have "pin_key t = pin_key s"
    by (intro ext) (simp add: same_tables_def pin_key_def)
  with same have "dev_regs t = dev_regs s"
    by (intro ext) (simp add: same_tables_def dev_regs_def split: option.split)
  then show ?thesis
    using same in_service_same [OF same, of env]
    by (simp add: startable_def own_devices_def own_pins_def free_slots_def fresh_memory_def priv_unused_def
        same_tables_def)
qed

lemma init_ends:
  assumes start: "startable env ch a (w_sys w)" and mem: "ic_ndpll ch = Some a"
    and net: "\<forall>port \<in> set ports. port_is_pf port \<longrightarrow> w_netdev w (port_ns port) = None"
  shows "ends (nsim_dpll_init env ch ports w) (as_before w) (set_up env ch a (as_before w))"
proof -
  define w0 where "w0 = upd_nd a (\<lambda>_. zero_dpll\<lparr>clock_id := NSIM_DPLL_CLOCK_ID,
                       lock_status := DPLL_LOCK_STATUS_LOCKED_HO_ACQ\<rparr>) w"
  define keep where "keep = (\<lambda>n. (ext_pins n, port_pins n, quiet n))"
  have w0: "same_tables (w_sys w) (w_sys w0)" "w_netdev w0 = w_netdev w"
    "keep (the_nd a w0) = ([], [], DPLL_LOCK_STATUS_LOCKED_HO_ACQ, False)"
    by (simp_all add: w0_def keep_def zero_dpll_def)
  have start0: "startable env ch a (w_sys w0)" using start startable_same [OF w0(1)] by simp
  have slots: "good_slots ch" using start by (simp add: startable_def free_slots_def good_slots_def)
  have pps: "DPLL_TYPE_PPS = nsim_type NSIM_DPLL_PPS_IDX" "DPLL_TYPE_EEC = nsim_type NSIM_DPLL_EEC_IDX"
    by (simp_all add: nsim_type_def NSIM_DPLL_PPS_IDX_def NSIM_DPLL_EEC_IDX_def)
  have base: "rolls_back a (\<lambda>_. ()) Some (as_before w) w0"
    using w0 same_tables_trans by (auto simp: rolls_back_def)
  show ?thesis
    unfolding nsim_dpll_init_def mem option.case w0_def [symmetric] pps
  proof (rule device_stage [where sel = pps_dpll and rd = "\<lambda>_. ()" and rd' = pps_dpll and keep = keep
        and unreg_u = "err_pps_unreg env a", OF _ _ _ base])
    fix w1
    assume up1: "device_up env ch a NSIM_DPLL_PPS_IDX pps_dpll w0 w1" and keep1: "keep (the_nd a w1) = keep (the_nd a w0)"
      and base1: "rolls_back a pps_dpll (err_pps_unreg env a) (as_before w) w1"
    note eec = eec_to_come [OF up1]
    show "ends (or_else (get_device ch a (\<lambda>d n. n\<lparr>eec_dpll := d\<rparr>) NSIM_DPLL_EEC_IDX w1) (err_pps_unreg env a) (\<lambda>w.
          or_else (on_sys (dpll_device_register env (ic_dev_reg ch NSIM_DPLL_EEC_IDX) (eec_dpll (the_nd a w))
                     (nsim_type NSIM_DPLL_EEC_IDX) DEVICE_OPS a) w) (err_eec_put env a) (\<lambda>w.
          or_else (get_gnss_pin ch a w) (err_eec_unreg env a) (\<lambda>w.
          or_else (on_sys (dpll_pin_register env (pc_refs (ic_pin ch NSIM_DPLL_GNSS_PIN_IDX))
                     (pps_dpll (the_nd a w)) (gnss_pin (the_nd a w)) GNSS_PIN_OPS (gnss_pin_priv a)) w)
                  (err_gnss_put env a) (\<lambda>w.
          or_else (init_ext_pins env ch a [0..<NSIM_DPLL_NUM_EXT_PINS] w) (err_ext_cleanup env a) (\<lambda>w.
          or_else (init_port_pins env ch a (NSIM_DPLL_EXT_PIN_BASE + NSIM_DPLL_NUM_EXT_PINS) ports
                    (start_timers a w)) (err_ports_cleanup env a) (\<lambda>w.
          or_else (init_gnss ch a w) (err_ports_cleanup env a) (\<lambda>w.
          or_else (init_kobj ch a w) (err_gnss_cleanup env a) (\<lambda>w.
          or_else (Some (ic_sysfs ch, w)) (err_sysfs_kobj env a)
                  (initial_ntfs env a)))))))))) (as_before w) (set_up env ch a (as_before w))"
    proof (rule device_stage [where sel = eec_dpll and rd = pps_dpll and rd' = handles and keep = keep
          and unreg_u = "err_eec_unreg env a", OF _ _ _ base1])
      fix w2
      assume up2: "device_up env ch a NSIM_DPLL_EEC_IDX eec_dpll w1 w2"
        and mem2: "pps_dpll (the_nd a w2) = pps_dpll (the_nd a w1)" and keep2: "keep (the_nd a w2) = keep (the_nd a w1)"
        and base2: "rolls_back a handles (err_eec_unreg env a) (as_before w) w2"
      note ready = devices_then_ready [OF start0 up1 up2 mem2]
      have kept: "ext_pins (the_nd a w2) = []" "port_pins (the_nd a w2) = []"
        "quiet (the_nd a w2) = (DPLL_LOCK_STATUS_LOCKED_HO_ACQ, False)"
        using w0(3) keep1 keep2 by (simp_all add: keep_def)
      show "ends (or_else (get_gnss_pin ch a w2) (err_eec_unreg env a) (\<lambda>w.
          or_else (on_sys (dpll_pin_register env (pc_refs (ic_pin ch NSIM_DPLL_GNSS_PIN_IDX))
                     (pps_dpll (the_nd a w)) (gnss_pin (the_nd a w)) GNSS_PIN_OPS (gnss_pin_priv a)) w)
                  (err_gnss_put env a) (\<lambda>w.
          or_else (init_ext_pins env ch a [0..<NSIM_DPLL_NUM_EXT_PINS] w) (err_ext_cleanup env a) (\<lambda>w.
          or_else (init_port_pins env ch a (NSIM_DPLL_EXT_PIN_BASE + NSIM_DPLL_NUM_EXT_PINS) ports
                    (start_timers a w)) (err_ports_cleanup env a) (\<lambda>w.
          or_else (init_gnss ch a w) (err_ports_cleanup env a) (\<lambda>w.
          or_else (init_kobj ch a w) (err_gnss_cleanup env a) (\<lambda>w.
          or_else (Some (ic_sysfs ch, w)) (err_sysfs_kobj env a)
                  (initial_ntfs env a)))))))) (as_before w) (set_up env ch a (as_before w))"
        by (rule gnss_stage [OF ready(1) slots ready(2) kept(1,2) base2 pins_stage [OF ready(1) slots _ kept(3) _ base2]])
          (use net ready(3) w0(2) in simp_all)
    qed (use eec start0 up1 in \<open>simp_all add: startable_def device_up_def keep_def err_eec_put_def err_eec_unreg_def\<close>)
  qed (use start0 in \<open>simp_all add: startable_def free_slots_def keep_def err_pps_put_def err_pps_unreg_def\<close>)
qed

end
