(* ===== verification/Nsim_Exit.thy ===== *)
theory Nsim_Exit
  imports Nsim_Init Dpll_Reach
begin

text \<open>
  The life of a netdevsim DPLL: set up, or not at all; then anything the receiver and the worker of the
  notifications do, in any order; then taken down, with nothing left behind.
\<close>

section \<open>In between\<close>

text \<open>Events of the receiver, and the worker when it has been scheduled.\<close>

inductive up_step :: "nsim_mem dpll_env \<Rightarrow> nat \<Rightarrow> nsim_world \<Rightarrow> nsim_world \<Rightarrow> bool" for env a where
  receiver: "up_step env a w (upd_nd a (gnss_step e) w)"
| worker: "ntf_work (the_nd a w) \<Longrightarrow> nsim_dpll_ntf_work env a w = Some w' \<Longrightarrow> up_step env a w w'"

text \<open>The objects of the core that the structure refers to, which no event touches.\<close>

definition refs :: "nsim_dpll \<Rightarrow> nat \<times> nat \<times> nat \<times> nat list \<times> nat list \<times> bool" where
  "refs n = (pps_dpll n, eec_dpll n, gnss_pin n, ext_pins n, port_pins n, gnss_dev n)"

lemma refs_upd [simp]:
  "refs (n\<lparr>ubx_timer := b\<rparr>) = refs n" "refs (n\<lparr>ubx_nav_enabled := b\<rparr>) = refs n" "refs (n\<lparr>holdover_timer := b\<rparr>) = refs n"
  "refs (n\<lparr>ntf_work := b\<rparr>) = refs n" "refs (n\<lparr>lock_status := l\<rparr>) = refs n" "refs (n\<lparr>signal_blocked := b\<rparr>) = refs n"
  "refs (n\<lparr>gnss_gps_fix := f\<rparr>) = refs n" "refs (n\<lparr>gnss_out := g\<rparr>) = refs n" "refs (n\<lparr>ntf_timer := b\<rparr>) = refs n"
  by (simp_all add: refs_def)

lemma refs_parts [simp]:
  "refs (respond r n) = refs n" "refs (nsim_ubx_insert_locked b n) = refs n" "refs (start_nav n) = refs n"
  "refs (block_signal val n) = refs n" "refs (nsim_parse_gga_fix buf n) = refs n"
  by (auto simp: respond_def nsim_ubx_insert_locked_def start_nav_def block_signal_def nsim_parse_gga_fix_def lock_moves
      split: sum.split option.split)

lemma refs_handlers [simp]:
  "refs (handle_mon buf n) = refs n" "refs (handle_nav now buf n) = refs n" "refs (handle_cfg buf n) = refs n"
    apply (simp add: handle_mon_def Let_def)
   apply (simp add: handle_nav_def Let_def)
  unfolding handle_cfg_def Let_def by (simp split: option.split)

lemma refs_step: "refs (gnss_step e n) = refs n"
proof (cases e)
  case (Ev_write now buf)
  then show ?thesis
    by (simp add: nsim_gnss_write_raw_def)
next
  case (Ev_store buf)
  then show ?thesis by (auto simp: nsim_dpll_lock_status_store_def lock_moves split: option.split)
qed (auto simp: nsim_gnss_open_def nsim_gnss_close_def nsim_ubx_timer_cb_def nsim_dpll_ntf_timer_cb_def lock_moves)

definition running :: "nsim_mem dpll_env \<Rightarrow> init_choice \<Rightarrow> nat \<Rightarrow> (nsim_world \<Rightarrow> bool) \<Rightarrow> nsim_world \<Rightarrow> bool" where
  "running env ch a F w \<longleftrightarrow> (\<exists>wd. devices_ready env ch a wd \<and> rolls_back a handles (err_eec_unreg env a) F wd
     \<and> pins_held ch a wd (ext_pins (the_nd a w)) (port_pins (the_nd a w)) w)
     \<and> w_dpll w = Some a \<and> lock_inv (the_nd a w) \<and> nav_inv (the_nd a w)"

lemma set_up_running: "set_up env ch a F w \<Longrightarrow> running env ch a F w"
  by (auto simp: set_up_def running_def receiver_ready_def lock_inv_def nav_inv_def)

lemma running_upd:
  assumes "running env ch a F w" and "\<And>n. refs (f n) = refs n" and "lock_inv (f (the_nd a w)) \<and> nav_inv (f (the_nd a w))"
  shows "running env ch a F (upd_nd a f w)"
proof -
  have f: "gnss_pin (f n) = gnss_pin n \<and> handles (f n) = handles n" "ext_pins (f n) = ext_pins n"
    "port_pins (f n) = port_pins n" for n
    using assms(2) [of n] by (simp_all add: refs_def)
  then show ?thesis using assms(1,3) by (simp add: running_def pins_held_upd)
qed

lemma running_in_service:
  assumes "running env ch a F w"
  shows "in_service env (w_sys w) \<and> dev_marked (w_sys w) (pps_dpll (the_nd a w)) \<and> dev_marked (w_sys w) (eec_dpll (the_nd a w))"
proof -
  obtain wd eps qs where ready: "devices_ready env ch a wd" and h: "pins_held ch a wd eps qs w"
    using assms by (auto simp: running_def)
  have adds: "adds (pps_dpll (the_nd a wd)) (held a eps qs w) (w_sys wd) (w_sys w)"
    and mem: "pps_dpll (the_nd a w) = pps_dpll (the_nd a wd)" "eec_dpll (the_nd a w) = eec_dpll (the_nd a wd)"
    using h by (simp_all add: pins_held_def)
  show ?thesis
    using adds_in_service [OF _ _ adds pins_dirs [OF ready h]] ready
    by (simp add: devices_ready_def adds_marked [OF adds] mem)
qed

text \<open>The worker always returns, and all it does is to report.\<close>

lemma worker_runs:
  assumes "running env ch a F w"
  shows "\<exists>s. nsim_dpll_ntf_work env a w = Some ((upd_nd a (\<lambda>n. n\<lparr>ntf_work := False\<rparr>) w)\<lparr>w_sys := s\<rparr>)
    \<and> same_objects (w_sys (upd_nd a (\<lambda>n. n\<lparr>ntf_work := False\<rparr>) w)) s"
proof -
  let ?w = "upd_nd a (\<lambda>n. n\<lparr>ntf_work := False\<rparr>) w"
  note now = running_in_service [OF assms]
  have sv: "in_service env (w_sys ?w)" using now in_service_same [OF upd_tables(1)] by blast
  have "dev_marked (w_sys ?w) = dev_marked (w_sys w)"
    by (intro ext) (simp add: dev_marked_def)
  with now have "\<forall>f \<in> set (change_ntfs env (the_nd a w)). reports f (w_sys ?w)"
    using reports_device [OF sv] reports_pin [OF sv] by (auto simp: change_ntfs_def)
  from send_all_reports [OF this] show ?thesis by (simp add: nsim_dpll_ntf_work_def)
qed

lemma running_same:
  assumes "running env ch a F w" and "same_objects (w_sys w) s"
  shows "running env ch a F (w\<lparr>w_sys := s\<rparr>)"
proof -
  have mem: "the_nd a (w\<lparr>w_sys := s\<rparr>) = the_nd a w" "the_np q (w\<lparr>w_sys := s\<rparr>) = the_np q w" for q
    using assms(2) by (simp_all add: the_nd_def the_np_def same_objects_def)
  obtain wd where wd: "devices_ready env ch a wd" "rolls_back a handles (err_eec_unreg env a) F wd"
    "stopped ch a wd (ext_pins (the_nd a w)) (port_pins (the_nd a w)) w"
    using assms(1) by (auto simp: running_def stopped_def)
  have "stopped ch a wd (ext_pins (the_nd a w)) (port_pins (the_nd a w)) (w\<lparr>w_sys := s\<rparr>)"
    by (rule stopped_same [OF wd(3)]) (use assms(2) mem in \<open>simp_all add: same_objects_tables\<close>)
  then show ?thesis using assms(1) wd mem(1) by (auto simp: running_def stopped_def)
qed

lemma running_step:
  assumes "up_step env a w w'" and "running env ch a F w"
  shows "running env ch a F w'"
  using assms(1)
proof cases
  case (receiver e)
  have "lock_inv (gnss_step e (the_nd a w)) \<and> nav_inv (gnss_step e (the_nd a w))"
    using assms(2) by (intro gnss_step_inv) (simp_all add: running_def)
  from running_upd [OF assms(2) refs_step this] receiver show ?thesis by simp
next
  case worker
  have "running env ch a F (upd_nd a (\<lambda>n. n\<lparr>ntf_work := False\<rparr>) w)"
    by (rule running_upd [OF assms(2)]) (use assms(2) in \<open>simp_all add: running_def lock_inv_def nav_inv_def\<close>)
  from running_same [OF this] worker_runs [OF assms(2)] worker show ?thesis by auto
qed

section \<open>Taking it down\<close>

definition stop_timers :: "nsim_dpll \<Rightarrow> nsim_dpll" where
  "stop_timers n = (let n = n\<lparr>sysfs_kobj := False, ntf_timer := False, holdover_timer := False, ntf_work := False\<rparr>
     in if gnss_dev n then n\<lparr>ubx_nav_enabled := False, ubx_timer := False\<rparr> else n)"

lemma upd_nd_upd_nd: "upd_nd a f (upd_nd a g w) = upd_nd a (f \<circ> g) w"
  by (simp add: upd_nd_def Let_def)

text \<open>From there on the exit is the last error path of the set-up.\<close>

lemma exit_eq:
  assumes "w_dpll w = Some a"
  shows "nsim_dpll_exit env w
    = do { w \<leftarrow> err_ports_cleanup env a (upd_nd a stop_timers w); Some (w\<lparr>w_dpll := None\<rparr>) }"
proof -
  have stop: "(\<lambda>n. if gnss_dev n then n\<lparr>ubx_nav_enabled := False, ubx_timer := False\<rparr> else n)
      \<circ> (\<lambda>n. n\<lparr>ntf_timer := False, holdover_timer := False, ntf_work := False\<rparr>) \<circ> (\<lambda>n. n\<lparr>sysfs_kobj := False\<rparr>)
      = stop_timers"
    by (rule ext) (simp add: stop_timers_def)
  have off: "(\<lambda>n. n\<lparr>ntf_timer := False, ntf_work := False\<rparr>) \<circ> stop_timers = stop_timers"
    by (rule ext) (simp add: stop_timers_def Let_def)
  show ?thesis
    using assms
    by (simp add: nsim_dpll_exit_def err_ports_cleanup_def err_ext_cleanup_def err_gnss_put_def err_eec_unreg_def
        err_eec_put_def err_pps_unreg_def err_pps_put_def Let_def upd_nd_upd_nd stop off)
qed

lemma exit_runs:
  assumes run: "running env ch a F w"
  shows "\<exists>w'. nsim_dpll_exit env w = Some (w'\<lparr>w_dpll := None\<rparr>) \<and> F w'
    \<and> timers (the_nd a w') = (False, False, False, False)"
proof -
  let ?w = "upd_nd a stop_timers w"
  obtain wd where ready: "devices_ready env ch a wd" and devs: "rolls_back a handles (err_eec_unreg env a) F wd"
    and h: "pins_held ch a wd (ext_pins (the_nd a w)) (port_pins (the_nd a w)) w" and up: "w_dpll w = Some a"
    and dev: "gnss_dev (the_nd a w)"
    using run by (auto simp: running_def nav_inv_def)
  have stop: "refs (stop_timers n) = refs n" for n by (simp add: stop_timers_def refs_def Let_def)
  then have same: "gnss_pin (stop_timers n) = gnss_pin n \<and> handles (stop_timers n) = handles n"
    "ext_pins (stop_timers n) = ext_pins n" "port_pins (stop_timers n) = port_pins n" for n
    by (simp_all add: refs_def)
  have h': "pins_held ch a wd (ext_pins (the_nd a w)) (port_pins (the_nd a w)) ?w"
    using h same(1) by (simp add: pins_held_upd)
  have off: "timers ((the_nd a ?w)\<lparr>ntf_timer := False, ntf_work := False\<rparr>) = (False, False, False, False)"
    using dev by (simp add: timers_def stop_timers_def Let_def)
  from ports_back [OF ready h' _ _ devs] show ?thesis
    unfolding exit_eq [OF up] off by (auto simp: same)
qed

section \<open>All or nothing\<close>

text \<open>
  C23: On tables in service, whatever allocation, slot, driver core or sysfs call fails, setting up
  returns; when it reports an error, the devices and pins of the core and the pins of the network
  devices are exactly as before; otherwise the tables are in service with the new objects, and the receiver is ready.
\<close>

theorem nsim_init_all_or_nothing:
  assumes "startable env ch a (w_sys w)" and "ic_ndpll ch = Some a"
    and "\<forall>port \<in> set ports. port_is_pf port \<longrightarrow> w_netdev w (port_ns port) = None"
  shows "\<exists>ret w'. nsim_dpll_init env ch ports w = Some (ret, w')
    \<and> (ret \<noteq> None \<longrightarrow> same_tables (w_sys w) (w_sys w') \<and> w_netdev w' = w_netdev w)
    \<and> (ret = None \<longrightarrow> in_service env (w_sys w') \<and> receiver_ready (the_nd a w') \<and> w_dpll w' = Some a
         \<and> dev_marked (w_sys w') (pps_dpll (the_nd a w')) \<and> dev_marked (w_sys w') (eec_dpll (the_nd a w')))"
proof -
  obtain ret w' where r: "nsim_dpll_init env ch ports w = Some (ret, w')"
    "if ret = None then set_up env ch a (as_before w) w' else as_before w w'"
    using init_ends [OF assms] by (auto simp: ends_def)
  have "in_service env (w_sys w') \<and> receiver_ready (the_nd a w') \<and> w_dpll w' = Some a
         \<and> dev_marked (w_sys w') (pps_dpll (the_nd a w')) \<and> dev_marked (w_sys w') (eec_dpll (the_nd a w'))"
    if "ret = None"
  proof -
    have "set_up env ch a (as_before w) w'" using r(2) that by simp
    from this running_in_service [OF set_up_running [OF this]] show ?thesis by (simp add: set_up_def)
  qed
  with r show ?thesis by auto
qed


section \<open>A small machine\<close>

text \<open>A core without devices, and one PF port; memory for messages is short, for all else it is not.\<close>

definition demo_env :: "nsim_mem dpll_env" where
  "demo_env =
     \<lparr>dev_table = (\<lambda>_. nsim_dpll_device_ops), pin_table = (\<lambda>_. nsim_dpll_gnss_pin_ops), mod_name = (\<lambda>_. ''netdevsim''),
      fits = (\<lambda>_ _. True), msg_mem = False\<rparr>"

definition demo_choice :: "ret \<Rightarrow> init_choice" where
  "demo_choice gnss =
     \<lparr>ic_ndpll = Some 100, ic_dev = (\<lambda>idx. (True, Slot idx)), ic_dev_reg = (\<lambda>_. True),
      ic_pin = (\<lambda>k. \<lparr>pc_mem = True, pc_prop = \<lparr>m_freq = True, m_board = True, m_panel = True, m_package = True\<rparr>,
        pc_slot = Slot k, pc_refs = (\<lparr>m_ref = True, m_insert = True, m_reg = True\<rparr>, \<lparr>m_ref = True, m_insert = True, m_reg = True\<rparr>)\<rparr>),
      ic_npin = (\<lambda>k. Some (200 + k)), ic_gnss_alloc = True, ic_gnss_register = gnss, ic_kobj = True, ic_sysfs = None\<rparr>"

definition demo_port :: port where
  "demo_port = \<lparr>port_is_pf = True, port_ns = 7, port_name = ''eth0''\<rparr>"

definition demo_world :: nsim_world where
  "demo_world =
     \<lparr>w_sys = dpll_empty \<lparr>mem_dpll = (\<lambda>_. zero_dpll), mem_pin = (\<lambda>_. \<lparr>np_pin = 0, np_ns = 0, np_direction = 0, np_frequency = 0\<rparr>)\<rparr>,
      w_netdev = (\<lambda>_. None), w_dpll = None\<rparr>"

lemma demo_startable: "startable demo_env (demo_choice gnss) 100 (w_sys demo_world)"
  by (simp add: startable_def nsim_tables_def demo_env_def nsim_dpll_rclk_pin_ops_def in_service_def serviceable_def
      own_devices_def own_pins_def free_slots_def fresh_memory_def priv_unused_def dev_slot_def demo_world_def
      demo_choice_def dpll_empty_def pin_marked_def dev_marked_def Dpll_Registry.wf_def 
      NSIM_DPLL_PPS_IDX_def NSIM_DPLL_EEC_IDX_def xa_load_def xa_ok_def fun_eq_iff dev_regs_def Dpll_Registry.pin_regs_def)

lemma four: "[0..<4::nat] = [0, 1, 2, 3]" by (simp add: upt_rec)

lemmas set_up_evals = get_device_def get_pin_def get_gnss_pin_def on_sys_def on_sys_only_def dpll_device_get_def dpll_device_alloc_def
  dpll_device_register_def dpll_pin_get_def dpll_pin_alloc_def dpll_pin_register_def pin_register_def
  dpll_xa_ref_pin_add_def dpll_xa_ref_dpll_add_def xa_ref_add_def dpll_pin_registration_find_def
  dpll_device_registration_find_def xa_insert_def xa_modify_def xa_load_def dpll_pin_prop_dup_def
  upd_dev_def upd_pin_def dpll_pin_create_ntf_def dpll_device_create_ntf_def
  dpll_device_event_send_def dpll_pin_event_send_def multicast_def dpll_pin_available_def dev_marked_def pin_marked_def
  nsim_dpll_device_ops_def nsim_dpll_gnss_pin_ops_def demo_env_def demo_choice_def or_else_def
  the_nd_def upd_nd_def upd_np_def the_np_def plain_props_def warn_def warn_if_def
  NSIM_DPLL_CLOCK_ID_def NSIM_DPLL_PPS_IDX_def NSIM_DPLL_EEC_IDX_def NSIM_DPLL_GNSS_PIN_IDX_def NSIM_DPLL_NUM_EXT_PINS_def
  NSIM_DPLL_EXT_PIN_BASE_def THIS_MODULE_def DEVICE_OPS_def GNSS_PIN_OPS_def RCLK_PIN_OPS_def DPLL_PIN_TYPE_EXT_def
  DPLL_PIN_TYPE_GNSS_def DPLL_PIN_TYPE_SYNCE_ETH_PORT_def nsim_dpll_gnss_pin_props_def DPLL_PIN_TYPE_MUX_def DPLL_PIN_TYPE_MAX_def
  DPLL_TYPE_EEC_def DPLL_TYPE_PPS_def DPLL_TYPE_MAX_def new_device_def dpll_device_change_ntf_def dpll_pin_change_ntf_def

lemma demo_starts: "\<exists>w. nsim_dpll_init demo_env (demo_choice None) [demo_port] demo_world = Some (None, w)"
  by (simp add: nsim_dpll_init_def set_up_evals Let_def demo_world_def dpll_empty_def zero_dpll_def four
      ext_pin_privs_def gnss_pin_priv_def start_timers_def init_gnss_def init_kobj_def initial_ntfs_def
      change_ntfs_def demo_port_def dpll_netdev_pin_set_def)

lemma nsim_init_all_or_nothing_witness:
  "\<exists>ret w'. nsim_dpll_init demo_env (demo_choice (Some ENOMEM)) [demo_port] demo_world = Some (ret, w')
    \<and> (ret \<noteq> None \<longrightarrow> device_xa (w_sys w') = [] \<and> w_netdev w' = w_netdev demo_world)"
  using nsim_init_all_or_nothing [OF demo_startable, of "Some ENOMEM" "[demo_port]"]
  by (fastforce simp: demo_choice_def demo_world_def dpll_empty_def same_tables_def)


end
