(* ===== verification/Nsim_Ipsec.thy ===== *)
theory Nsim_Ipsec
  imports Slot_Table Printing
begin

text \<open>
  The IPsec offload of a simulated device, \<open>netdevsim/ipsec.c\<close>: the table of security
  associations, the handle it leaves in the state of the stack, the check of every packet that is sent,
  and the listing in debugfs. The states of the stack are in a memory, and the table refers to them by
  their addresses.
\<close>

unbundle bit_operations_syntax

section \<open>Data\<close>

definition NSIM_IPSEC_AUTH_BITS :: nat where "NSIM_IPSEC_AUTH_BITS = 128"
definition NSIM_IPSEC_MAX_SA_COUNT :: nat where "NSIM_IPSEC_MAX_SA_COUNT = 33"
definition NSIM_IPSEC_VALID :: u64 where "NSIM_IPSEC_VALID = 2 ^ 31"

definition IPPROTO_ESP :: u8 where "IPPROTO_ESP = 50"
definition IPPROTO_AH :: u8 where "IPPROTO_AH = 51"

text \<open>The algorithm, its key as it lies in memory (32-bit words) and the length of the key in bits.\<close>

record xfrm_aead =
  alg_name :: string
  alg_key_len :: nat
  alg_icv_len :: nat
  alg_key :: "u32 list"

datatype xfrm_dir = Offload_in | Offload_out
datatype xfrm_type = Offload_crypto | Offload_packet

text \<open>The parts of \<open>struct xfrm_state\<close> that the driver uses; the address is four words, an IPv4 address the last.\<close>

record xfrm_state =
  x_spi :: u32
  x_proto :: u8
  x_calg :: bool
  x_ealg :: bool
  x_aead :: "xfrm_aead option"
  x_type :: xfrm_type
  x_dir :: xfrm_dir
  x_inet6 :: bool
  x_daddr6 :: "u32 list"
  x_daddr4 :: u32
  offload_handle :: u64

record nsim_sa =
  sa_xs :: nat
  sa_ipaddr :: "u32 list"
  sa_key :: "u32 list"
  sa_salt :: u32
  sa_used :: bool
  sa_crypt :: bool
  sa_rx :: bool

definition blank_sa :: nsim_sa where
  "blank_sa = \<lparr>sa_xs = 0, sa_ipaddr = [0, 0, 0, 0], sa_key = [0, 0, 0, 0], sa_salt = 0, sa_used = False,
     sa_crypt = False, sa_rx = False\<rparr>"

record nsim_ipsec =
  ip_sa :: "nsim_sa list"
  ip_count :: u32
  ip_tx :: u32
  ip_ok :: u32

definition no_ipsec :: nsim_ipsec where
  "no_ipsec = \<lparr>ip_sa = replicate NSIM_IPSEC_MAX_SA_COUNT blank_sa, ip_count = 0, ip_tx = 0, ip_ok = 0\<rparr>"

type_synonym xmem = "nat \<Rightarrow> xfrm_state"

section \<open>Adding and deleting\<close>

definition nsim_ipsec_find_empty_idx :: "nsim_ipsec \<Rightarrow> errno + nat" where
  "nsim_ipsec_find_empty_idx ipsec =
     (if ip_count ipsec = of_nat NSIM_IPSEC_MAX_SA_COUNT then Inl ENOSPC
      else case first_free sa_used (ip_sa ipsec) of
             Some i \<Rightarrow> Inr i
           | None \<Rightarrow> Inl ENOSPC)"

definition word_at :: "nat \<Rightarrow> u32 list \<Rightarrow> u32 res" where
  "word_at i ws = (if i < length ws then Ok (ws ! i) else Fault)"

text \<open>The key and the salt; a key longer than 128 bits is taken to have its salt in the fifth word.\<close>

definition nsim_ipsec_parse_proto_keys :: "xfrm_state \<Rightarrow> (u32 list \<times> u32) res" where
  "nsim_ipsec_parse_proto_keys xs =
     (case x_aead xs of
        None \<Rightarrow> Err EINVAL
      | Some aead \<Rightarrow>
          if alg_icv_len aead \<noteq> NSIM_IPSEC_AUTH_BITS then Err EINVAL
          else if alg_name aead \<noteq> ''rfc4106(gcm(aes))'' then Err EINVAL
          else andthen
            (if alg_key_len aead > NSIM_IPSEC_AUTH_BITS then word_at 4 (alg_key aead)
             else if alg_key_len aead = NSIM_IPSEC_AUTH_BITS then Ok 0
             else Err EINVAL)
            (\<lambda>salt. if length (alg_key aead) < 4 then Fault else Ok (take 4 (alg_key aead), salt)))"

definition sa_address :: "xfrm_state \<Rightarrow> u32 list" where
  "sa_address xs = (if x_inet6 xs then x_daddr6 xs else [0, 0, 0, x_daddr4 xs])"

definition new_sa :: "nat \<Rightarrow> xfrm_state \<Rightarrow> u32 list \<Rightarrow> u32 \<Rightarrow> nsim_sa" where
  "new_sa x xs key salt =
     (let sa = blank_sa\<lparr>sa_used := True, sa_xs := x,
                 sa_crypt := (and (x_proto xs) IPPROTO_ESP \<noteq> 0 \<and> (x_ealg xs \<or> x_aead xs \<noteq> None)),
                 sa_key := key, sa_salt := salt\<rparr>
      in if x_dir xs = Offload_in then sa\<lparr>sa_rx := True, sa_ipaddr := sa_address xs\<rparr> else sa)"

text \<open>An error leaves everything as it is; a success updates the state of the stack and the table.\<close>

definition nsim_ipsec_add_sa :: "nat \<Rightarrow> xmem \<Rightarrow> nsim_ipsec \<Rightarrow> (xmem \<times> nsim_ipsec) res" where
  "nsim_ipsec_add_sa x m ipsec =
     (let xs = m x
      in if x_proto xs \<noteq> IPPROTO_ESP \<and> x_proto xs \<noteq> IPPROTO_AH then Err EINVAL
         else if x_calg xs then Err EINVAL
         else if x_type xs \<noteq> Offload_crypto then Err EINVAL
         else case nsim_ipsec_find_empty_idx ipsec of
                Inl e \<Rightarrow> Err e
              | Inr sa_idx \<Rightarrow>
                  andthen (nsim_ipsec_parse_proto_keys xs)
                    (\<lambda>(key, salt).
                       Ok (m(x := xs\<lparr>offload_handle := or (of_nat sa_idx) NSIM_IPSEC_VALID\<rparr>),
                           ipsec\<lparr>ip_sa := (ip_sa ipsec)[sa_idx := new_sa x xs key salt],
                                 ip_count := ip_count ipsec + 1\<rparr>)))"

text \<open>The index is cut to 16 bits; an index beyond the table is not checked.\<close>

definition nsim_ipsec_del_sa :: "nat \<Rightarrow> xmem \<Rightarrow> nsim_ipsec \<Rightarrow> nsim_ipsec res" where
  "nsim_ipsec_del_sa x m ipsec =
     (let sa_idx = unat (ucast (and (offload_handle (m x)) (not NSIM_IPSEC_VALID)) :: 16 word)
      in if sa_idx \<ge> length (ip_sa ipsec) then Fault
         else if \<not> sa_used (ip_sa ipsec ! sa_idx) then Ok ipsec
         else Ok (ipsec\<lparr>ip_sa := (ip_sa ipsec)[sa_idx := blank_sa], ip_count := ip_count ipsec - 1\<rparr>))"

definition nsim_ipsec_offload_ok :: "nsim_ipsec \<Rightarrow> bool \<times> nsim_ipsec" where
  "nsim_ipsec_offload_ok ipsec = (True, ipsec\<lparr>ip_ok := ip_ok ipsec + 1\<rparr>)"

text \<open>
  Sending: the length of the security path of the packet, if it has one, and the state that
  \<open>xfrm_input_state\<close> finds on it. The index is a \<open>u32\<close>.
\<close>

definition nsim_ipsec_tx :: "nat option \<Rightarrow> nat option \<Rightarrow> xmem \<Rightarrow> nsim_ipsec \<Rightarrow> bool \<times> nsim_ipsec" where
  "nsim_ipsec_tx sp x m ipsec =
     (case sp of
        None \<Rightarrow> (True, ipsec)
      | Some len \<Rightarrow>
          if len = 0 then (False, ipsec)
          else case x of
                 None \<Rightarrow> (False, ipsec)
               | Some x \<Rightarrow>
                   (let xs = m x;
                        sa_idx = unat (ucast (and (offload_handle xs) (not NSIM_IPSEC_VALID)) :: u32)
                    in if sa_idx \<ge> NSIM_IPSEC_MAX_SA_COUNT then (False, ipsec)
                       else if \<not> sa_used (ip_sa ipsec ! sa_idx) then (False, ipsec)
                       else if x_proto xs \<noteq> IPPROTO_ESP \<and> x_proto xs \<noteq> IPPROTO_AH then (False, ipsec)
                       else (True, ipsec\<lparr>ip_tx := ip_tx ipsec + 1\<rparr>)))"

text \<open>Removing the device complains when associations are left.\<close>

definition nsim_ipsec_teardown :: "nsim_ipsec \<Rightarrow> bool" where
  "nsim_ipsec_teardown ipsec \<longleftrightarrow> ip_count ipsec = 0"

section \<open>The listing\<close>

definition words08 :: "u32 list \<Rightarrow> string" where
  "words08 ws = concat (map (\<lambda>w. '' '' @ hex08 (unat w)) (tl ws))"

text \<open>The lines of one association; \<open>m\<close> holds the states of the stack.\<close>

definition sa_lines :: "xmem \<Rightarrow> nat \<Rightarrow> nsim_sa \<Rightarrow> string list" where
  "sa_lines m i sap =
     (let sa = ''sa['' @ dec i @ '']''
      in [sa @ '' '' @ (if sa_rx sap then ''r'' else ''t'') @ ''x ipaddr=0x'' @ hex08 (unat (hd (sa_ipaddr sap)))
            @ words08 (sa_ipaddr sap) @ [newline],
          sa @ ''    spi=0x'' @ hex08 (unat (x_spi (m (sa_xs sap)))) @ '' proto=0x'' @ hex (unat (x_proto (m (sa_xs sap))))
            @ '' salt=0x'' @ hex08 (unat (sa_salt sap)) @ '' crypt='' @ dec (if sa_crypt sap then 1 else 0) @ [newline],
          sa @ ''    key=0x'' @ hex08 (unat (hd (sa_key sap))) @ words08 (sa_key sap) @ [newline]])"

definition dump_lines :: "xmem \<Rightarrow> nsim_ipsec \<Rightarrow> string list" where
  "dump_lines m ipsec =
     (''SA count='' @ dec (unat (ip_count ipsec)) @ '' tx='' @ dec (unat (ip_tx ipsec)) @ [newline])
     # concat (map (\<lambda>(i, sap). if sa_used sap then sa_lines m i sap else []) (enumerate 0 (ip_sa ipsec)))"

definition dump_bufsize :: "nsim_ipsec \<Rightarrow> nat" where
  "dump_bufsize ipsec = unat (ip_count ipsec * 4 * 60 + 60)"

definition nsim_dbg_netdev_ops_read :: "bool \<Rightarrow> xmem \<Rightarrow> nsim_ipsec \<Rightarrow> nat \<Rightarrow> int \<Rightarrow> errno + string \<times> int" where
  "nsim_dbg_netdev_ops_read mem m ipsec count ppos =
     (if \<not> mem then Inl ENOMEM
      else simple_read_from_buffer count ppos (scnprintf_all (dump_bufsize ipsec) (dump_lines m ipsec) []))"

section \<open>The table and the states of the stack\<close>

interpretation sas: slot_table sa_used blank_sa
  by unfold_locales (simp add: blank_sa_def)

text \<open>The handle of a slot gives its index back, at either width.\<close>

lemma bit_valid: "bit NSIM_IPSEC_VALID n \<longleftrightarrow> n = 31"
  unfolding NSIM_IPSEC_VALID_def by (subst bit_exp_iff) auto

lemma handle_index:
  assumes "i < NSIM_IPSEC_MAX_SA_COUNT"
  shows "unat (ucast (and (or (of_nat i) NSIM_IPSEC_VALID) (not NSIM_IPSEC_VALID)) :: 16 word) = i"
    and "unat (ucast (and (or (of_nat i) NSIM_IPSEC_VALID) (not NSIM_IPSEC_VALID)) :: u32) = i"
proof -
  have i: "i < 2 ^ 6" using assms by (simp add: NSIM_IPSEC_MAX_SA_COUNT_def)
  have "and (or (of_nat i) NSIM_IPSEC_VALID) (not NSIM_IPSEC_VALID) = (of_nat i :: u64)"
  proof (rule bit_word_eqI)
    fix n
    have "\<not> bit (of_nat i :: u64) 31"
      using i by (simp add: bit_of_nat_iff bit_nat_def)
    then show "bit (and (or (of_nat i) NSIM_IPSEC_VALID) (not NSIM_IPSEC_VALID)) n = bit (of_nat i :: u64) n" if "n < LENGTH(64)"
      using that by (auto simp: bit_valid bit_simps)
  qed
  then show "unat (ucast (and (or (of_nat i) NSIM_IPSEC_VALID) (not NSIM_IPSEC_VALID)) :: 16 word) = i"
    and "unat (ucast (and (or (of_nat i) NSIM_IPSEC_VALID) (not NSIM_IPSEC_VALID)) :: u32) = i"
    using i by (simp_all add: unsigned_ucast_eq unsigned_of_nat take_bit_nat_eq_self)
qed

definition installed :: "nsim_ipsec \<Rightarrow> nat set" where
  "installed ipsec = sa_xs ` set (sas.taken (ip_sa ipsec))"

definition ipsec_inv :: "xmem \<Rightarrow> nsim_ipsec \<Rightarrow> bool" where
  "ipsec_inv m ipsec \<longleftrightarrow> length (ip_sa ipsec) = NSIM_IPSEC_MAX_SA_COUNT
     \<and> ip_count ipsec = of_nat (length (sas.taken (ip_sa ipsec)))
     \<and> (\<forall>i < NSIM_IPSEC_MAX_SA_COUNT. sa_used (ip_sa ipsec ! i) \<longrightarrow>
          offload_handle (m (sa_xs (ip_sa ipsec ! i))) = or (of_nat i) NSIM_IPSEC_VALID)"

lemma installed_iff:
  "ipsec_inv m ipsec \<Longrightarrow> x \<in> installed ipsec \<longleftrightarrow> (\<exists>i < NSIM_IPSEC_MAX_SA_COUNT. sa_used (ip_sa ipsec ! i) \<and> sa_xs (ip_sa ipsec ! i) = x)"
  by (auto simp: installed_def ipsec_inv_def sas.taken_image)

lemma slot_unique:
  assumes "ipsec_inv m ipsec" and "i < NSIM_IPSEC_MAX_SA_COUNT" and "j < NSIM_IPSEC_MAX_SA_COUNT"
    and "sa_used (ip_sa ipsec ! i)" and "sa_used (ip_sa ipsec ! j)" and "sa_xs (ip_sa ipsec ! i) = sa_xs (ip_sa ipsec ! j)"
  shows "i = j"
proof -
  have "or (of_nat i) NSIM_IPSEC_VALID = (or (of_nat j) NSIM_IPSEC_VALID :: u64)"
    using assms by (metis ipsec_inv_def)
  then show ?thesis using handle_index(1) assms(2,3) by metis
qed

lemma card_installed:
  assumes "ipsec_inv m ipsec"
  shows "card (installed ipsec) = length (sas.taken (ip_sa ipsec))"
proof -
  have len: "length (ip_sa ipsec) = NSIM_IPSEC_MAX_SA_COUNT" using assms by (simp add: ipsec_inv_def)
  define I where "I = {i. i < length (ip_sa ipsec) \<and> sa_used (ip_sa ipsec ! i)}"
  have "installed ipsec = (\<lambda>i. sa_xs (ip_sa ipsec ! i)) ` I"
    by (simp add: installed_def I_def sas.taken_image)
  moreover have "inj_on (\<lambda>i. sa_xs (ip_sa ipsec ! i)) I"
    using slot_unique [OF assms] by (auto simp: inj_on_def I_def len)
  ultimately have "card (installed ipsec) = card I" by (simp add: card_image)
  also have "\<dots> = length (sas.taken (ip_sa ipsec))"
    by (simp add: I_def sas.taken_def length_filter_conv_card)
  finally show ?thesis .
qed

lemma count_installed:
  assumes "ipsec_inv m ipsec"
  shows "unat (ip_count ipsec) = card (installed ipsec)" and "card (installed ipsec) \<le> NSIM_IPSEC_MAX_SA_COUNT"
proof -
  have "length (sas.taken (ip_sa ipsec)) \<le> NSIM_IPSEC_MAX_SA_COUNT"
    using assms sas.taken_le [of "ip_sa ipsec"] by (simp add: ipsec_inv_def)
  then show "unat (ip_count ipsec) = card (installed ipsec)" and "card (installed ipsec) \<le> NSIM_IPSEC_MAX_SA_COUNT"
    unfolding card_installed [OF assms]
    using assms by (simp_all add: ipsec_inv_def unat_of_nat NSIM_IPSEC_MAX_SA_COUNT_def)
qed

text \<open>A free index is found unless the table is full.\<close>

lemma find_empty:
  assumes "ipsec_inv m ipsec"
  shows "if card (installed ipsec) = NSIM_IPSEC_MAX_SA_COUNT then nsim_ipsec_find_empty_idx ipsec = Inl ENOSPC
    else \<exists>i < NSIM_IPSEC_MAX_SA_COUNT. nsim_ipsec_find_empty_idx ipsec = Inr i \<and> \<not> sa_used (ip_sa ipsec ! i)"
proof -
  have cnt: "ip_count ipsec = of_nat NSIM_IPSEC_MAX_SA_COUNT \<longleftrightarrow> card (installed ipsec) = NSIM_IPSEC_MAX_SA_COUNT"
    using count_installed [OF assms] by (simp add: word_unat_eq_iff unat_of_nat NSIM_IPSEC_MAX_SA_COUNT_def)
  show ?thesis
  proof (cases "first_free sa_used (ip_sa ipsec)")
    case None
    then show ?thesis
      using assms sas.room_iff [of "ip_sa ipsec"] by (simp add: card_installed [OF assms] nsim_ipsec_find_empty_idx_def ipsec_inv_def)
  next
    case (Some i)
    then show ?thesis
      using first_free_Some [OF Some] assms cnt by (simp add: nsim_ipsec_find_empty_idx_def ipsec_inv_def)
  qed
qed

text \<open>What the stack may offload: the associations the driver supports.\<close>

definition offloadable :: "xfrm_state \<Rightarrow> bool" where
  "offloadable xs \<longleftrightarrow> (x_proto xs = IPPROTO_ESP \<or> x_proto xs = IPPROTO_AH) \<and> \<not> x_calg xs \<and> x_type xs = Offload_crypto
     \<and> (\<exists>key salt. nsim_ipsec_parse_proto_keys xs = Ok (key, salt))"

lemma add_sa_room:
  assumes inv: "ipsec_inv m ipsec" and x: "x \<notin> installed ipsec" "offloadable (m x)"
    and room: "card (installed ipsec) < NSIM_IPSEC_MAX_SA_COUNT"
  shows "\<exists>m' ipsec'. nsim_ipsec_add_sa x m ipsec = Ok (m', ipsec') \<and> ipsec_inv m' ipsec'
    \<and> installed ipsec' = insert x (installed ipsec) \<and> m' = m(x := m' x) \<and> offloadable (m' x)"
proof -
  obtain i where i: "i < NSIM_IPSEC_MAX_SA_COUNT" "nsim_ipsec_find_empty_idx ipsec = Inr i" "\<not> sa_used (ip_sa ipsec ! i)"
    using find_empty [OF inv] room by auto
  obtain key salt where k: "nsim_ipsec_parse_proto_keys (m x) = Ok (key, salt)" using x(2) by (auto simp: offloadable_def)
  define m' where "m' = m(x := (m x)\<lparr>offload_handle := or (of_nat i) NSIM_IPSEC_VALID\<rparr>)"
  define sa where "sa = new_sa x (m x) key salt"
  have sa: "sa_used sa" "sa_xs sa = x"
    "nsim_ipsec_add_sa x m ipsec = Ok (m', ipsec\<lparr>ip_sa := (ip_sa ipsec)[i := sa], ip_count := ip_count ipsec + 1\<rparr>)"
    using x(2) i(2) k
    by (auto simp: nsim_ipsec_add_sa_def offloadable_def m'_def Let_def sa_def new_sa_def)
  let ?ip = "ipsec\<lparr>ip_sa := (ip_sa ipsec)[i := sa], ip_count := ip_count ipsec + 1\<rparr>"
  have len: "length (ip_sa ipsec) = NSIM_IPSEC_MAX_SA_COUNT" using inv by (simp add: ipsec_inv_def)
  note slot = sas.take_slot [of i "ip_sa ipsec", OF _ i(3) sa(1), unfolded len, OF i(1)]
  have "ipsec_inv m' ?ip"
    unfolding ipsec_inv_def
  proof (intro conjI allI impI)
    fix j
    assume j: "j < NSIM_IPSEC_MAX_SA_COUNT" "sa_used (ip_sa ?ip ! j)"
    show "offload_handle (m' (sa_xs (ip_sa ?ip ! j))) = or (of_nat j) NSIM_IPSEC_VALID"
    proof (cases "j = i")
      case False
      then have "sa_xs (ip_sa ipsec ! j) \<noteq> x" using x(1) installed_iff [OF inv] j by auto
      then show ?thesis using False inv j by (simp add: ipsec_inv_def m'_def)
    qed (use len i(1) sa(2) in \<open>simp add: m'_def\<close>)
  qed (use inv slot(1) len in \<open>simp_all add: ipsec_inv_def\<close>)
  moreover have "installed ?ip = insert x (installed ipsec)"
    using slot(2) sa(2) by (simp add: installed_def)
  moreover have "offloadable (m' x)"
    using x(2) by (simp add: m'_def offloadable_def nsim_ipsec_parse_proto_keys_def)
  ultimately show ?thesis using sa(3) by (auto simp: m'_def)
qed

lemma del_sa_installed:
  assumes inv: "ipsec_inv m ipsec" and x: "x \<in> installed ipsec"
  shows "\<exists>ipsec'. nsim_ipsec_del_sa x m ipsec = Ok ipsec' \<and> ipsec_inv m ipsec' \<and> installed ipsec' = installed ipsec - {x}"
proof -
  obtain i where i: "i < NSIM_IPSEC_MAX_SA_COUNT" "sa_used (ip_sa ipsec ! i)" "sa_xs (ip_sa ipsec ! i) = x"
    using x installed_iff [OF inv] by auto
  let ?ip = "ipsec\<lparr>ip_sa := (ip_sa ipsec)[i := blank_sa], ip_count := ip_count ipsec - 1\<rparr>"
  have len: "length (ip_sa ipsec) = NSIM_IPSEC_MAX_SA_COUNT" using inv by (simp add: ipsec_inv_def)
  have handle: "offload_handle (m x) = or (of_nat i) NSIM_IPSEC_VALID" using inv i by (auto simp: ipsec_inv_def)
  have run: "nsim_ipsec_del_sa x m ipsec = Ok ?ip"
    unfolding nsim_ipsec_del_sa_def handle handle_index(1) [OF i(1)] using i len by simp
  have free: "\<not> sa_used blank_sa" by (rule sas.blank_free)
  have "Suc (length (sas.taken ((ip_sa ipsec)[i := blank_sa]))) = length (sas.taken (ip_sa ipsec))"
    using sas.free_slot [of i "ip_sa ipsec", OF _ i(2)] len i(1) by simp
  from arg_cong [OF this, of "of_nat :: nat \<Rightarrow> u32"]
  have less: "of_nat (length (sas.taken (ip_sa ipsec))) = (of_nat (length (sas.taken (ip_sa ?ip))) + 1 :: u32)"
    by (simp add: add.commute)
  have inv': "ipsec_inv m ?ip"
    using inv less len i(1) free by (auto simp: ipsec_inv_def nth_list_update)
  have "y \<in> installed ?ip \<longleftrightarrow> y \<in> installed ipsec - {x}" for y
  proof -
    have "sa_xs (ip_sa ipsec ! j) \<noteq> x" if "j < NSIM_IPSEC_MAX_SA_COUNT" "j \<noteq> i" "sa_used (ip_sa ipsec ! j)" for j
      using slot_unique [OF inv that(1) i(1)] that i by auto
    then show ?thesis
      using installed_iff [OF inv'] installed_iff [OF inv] len free i by (auto simp: nth_list_update; metis)
  qed
  then show ?thesis using run inv' by blast
qed

section \<open>The offload as a set\<close>

text \<open>
  What the stack does: it offloads a state that is not offloaded, and removes one that is. The
  specification is the set of the offloaded states.
\<close>

inductive ipsec_step :: "xmem \<times> nsim_ipsec \<Rightarrow> xmem \<times> nsim_ipsec \<Rightarrow> bool" where
  add: "x \<notin> installed ipsec \<Longrightarrow> nsim_ipsec_add_sa x m ipsec = Ok (m', ipsec') \<Longrightarrow> ipsec_step (m, ipsec) (m', ipsec')"
| del: "x \<in> installed ipsec \<Longrightarrow> nsim_ipsec_del_sa x m ipsec = Ok ipsec' \<Longrightarrow> ipsec_step (m, ipsec) (m, ipsec')"
| tx: "nsim_ipsec_tx sp x m ipsec = (b, ipsec') \<Longrightarrow> ipsec_step (m, ipsec) (m, ipsec')"

lemma add_sa_Ok_offloadable: "nsim_ipsec_add_sa x m ipsec = Ok y \<Longrightarrow> offloadable (m x)"
  by (auto simp: nsim_ipsec_add_sa_def offloadable_def Let_def andthen_Ok_iff split: if_splits sum.splits)

lemma add_sa_full:
  "nsim_ipsec_find_empty_idx ipsec = Inl ENOSPC \<Longrightarrow> offloadable (m x) \<Longrightarrow> nsim_ipsec_add_sa x m ipsec = Err ENOSPC"
  by (auto simp: nsim_ipsec_add_sa_def offloadable_def)

lemma tx_same: "nsim_ipsec_tx sp x m ipsec = (b, ipsec') \<Longrightarrow> ip_sa ipsec' = ip_sa ipsec \<and> ip_count ipsec' = ip_count ipsec"
  by (auto simp: nsim_ipsec_tx_def Let_def split: option.splits if_splits)

definition ipsec_ok :: "xmem \<times> nsim_ipsec \<Rightarrow> bool" where
  "ipsec_ok s \<longleftrightarrow> ipsec_inv (fst s) (snd s) \<and> (\<forall>x \<in> installed (snd s). offloadable (fst s x))"

lemma ipsec_step_ok:
  assumes "ipsec_step s t" and "ipsec_ok s"
  shows "ipsec_ok t"
  using assms
proof (induction rule: ipsec_step.induct)
  case (add x ipsec m m' ipsec')
  then have inv: "ipsec_inv m ipsec" by (simp add: ipsec_ok_def)
  have ok: "offloadable (m x)" by (rule add_sa_Ok_offloadable [OF add(2)])
  have "card (installed ipsec) < NSIM_IPSEC_MAX_SA_COUNT"
  proof (rule ccontr)
    assume "\<not> ?thesis"
    then have "nsim_ipsec_find_empty_idx ipsec = Inl ENOSPC"
      using find_empty [OF inv] count_installed(2) [OF inv] by simp
    then show False using add_sa_full [where x = x and m = m] ok add(2) by simp
  qed
  from add_sa_room [OF inv add(1) ok this] add(2)
  have new: "ipsec_inv m' ipsec'" "installed ipsec' = insert x (installed ipsec)" "m' = m(x := m' x)" "offloadable (m' x)"
    by auto
  have "m' y = m y" if "y \<noteq> x" for y using fun_cong [OF new(3), of y] that by simp
  then have "offloadable (m' y)" if "y \<in> installed ipsec'" for y
    using that new add(3) by (cases "y = x") (simp_all add: ipsec_ok_def)
  with new(1) show ?case by (simp add: ipsec_ok_def)
next
  case (del x ipsec m ipsec')
  then have "ipsec_inv m ipsec" by (simp add: ipsec_ok_def)
  from del_sa_installed [OF this del(1)] del show ?case by (auto simp: ipsec_ok_def)
next
  case (tx sp x m ipsec b ipsec')
  then show ?case using tx_same [OF tx(1)] by (auto simp: ipsec_ok_def ipsec_inv_def installed_def)
qed

text \<open>
  C25: Whatever the stack offloads and removes, in any order: the counter is the number of offloaded states and at most 33;
  another state that the driver supports is accepted exactly while there is room and is refused
  with \<open>ENOSPC\<close> otherwise, an offloaded state is removed alone, and packets of the offloaded states pass.
\<close>

theorem ipsec_table_is_a_set:
  assumes "ipsec_step\<^sup>*\<^sup>* (m0, no_ipsec) (m, ipsec)"
  shows "unat (ip_count ipsec) = card (installed ipsec) \<and> card (installed ipsec) \<le> NSIM_IPSEC_MAX_SA_COUNT
    \<and> (\<forall>x. x \<notin> installed ipsec \<longrightarrow> offloadable (m x) \<longrightarrow>
         (if card (installed ipsec) < NSIM_IPSEC_MAX_SA_COUNT
          then \<exists>m' ipsec'. nsim_ipsec_add_sa x m ipsec = Ok (m', ipsec') \<and> installed ipsec' = insert x (installed ipsec)
          else nsim_ipsec_add_sa x m ipsec = Err ENOSPC))
    \<and> (\<forall>x \<in> installed ipsec. \<exists>ipsec'. nsim_ipsec_del_sa x m ipsec = Ok ipsec' \<and> installed ipsec' = installed ipsec - {x})
    \<and> (\<forall>x \<in> installed ipsec. fst (nsim_ipsec_tx (Some 1) (Some x) m ipsec))"
proof -
  have start: "ipsec_ok (m0, no_ipsec)"
    by (simp add: ipsec_ok_def ipsec_inv_def installed_def no_ipsec_def sas.taken_blank sas.blank_free)
  from assms have "ipsec_ok (m, ipsec)"
    by (induction rule: rtranclp_induct) (use start ipsec_step_ok in blast)+
  then have inv: "ipsec_inv m ipsec" and ok: "\<forall>x \<in> installed ipsec. offloadable (m x)"
    by (simp_all add: ipsec_ok_def)
  have "fst (nsim_ipsec_tx (Some 1) (Some x) m ipsec)" if x: "x \<in> installed ipsec" for x
  proof -
    obtain i where i: "i < NSIM_IPSEC_MAX_SA_COUNT" "sa_used (ip_sa ipsec ! i)" "sa_xs (ip_sa ipsec ! i) = x"
      using x installed_iff [OF inv] by auto
    then have handle: "offload_handle (m x) = or (of_nat i) NSIM_IPSEC_VALID" using inv by (auto simp: ipsec_inv_def)
    show ?thesis
      using i ok x by (auto simp: nsim_ipsec_tx_def handle handle_index(2) [OF i(1)] offloadable_def Let_def)
  qed
  moreover have "nsim_ipsec_add_sa x m ipsec = Err ENOSPC"
    if "offloadable (m x)" "\<not> card (installed ipsec) < NSIM_IPSEC_MAX_SA_COUNT" for x
    using find_empty [OF inv] count_installed(2) [OF inv] that add_sa_full by simp
  ultimately show ?thesis
    using count_installed [OF inv] add_sa_room [OF inv] del_sa_installed [OF inv] by (auto; metis)
qed

text \<open>The shapes of the fixed arrays, for the memory of the stack and the table.\<close>

definition sa_shape :: "nsim_sa \<Rightarrow> bool" where
  "sa_shape sap \<longleftrightarrow> length (sa_ipaddr sap) = 4 \<and> length (sa_key sap) = 4"

lemma words08_length: "length ws = 4 \<Longrightarrow> length (words08 ws) = 27"
  by (simp add: words08_def length_concat hex08_u32 numeral_eq_Suc length_Suc_conv) (auto simp: hex08_u32)

lemma sa_lines_length:
  assumes "sa_shape sap" and "i < NSIM_IPSEC_MAX_SA_COUNT"
  shows "length (concat (sa_lines m i sap)) < 240"
proof -
  have "length (dec i) \<le> 2" using assms(2) by (intro digits_le) (simp_all add: NSIM_IPSEC_MAX_SA_COUNT_def)
  moreover have "unat (x_proto (m (sa_xs sap))) < 2 ^ 8" by (rule order_less_le_trans [OF unsigned_less]) simp
  then have "length (hex (unat (x_proto (m (sa_xs sap))))) \<le> 2" by (intro digits_le) simp_all
  moreover have "length (dec (if sa_crypt sap then 1 else 0)) \<le> 1" by (intro digits_le) simp_all
  ultimately show ?thesis
    using assms(1) by (simp add: sa_lines_def Let_def sa_shape_def words08_length hex08_u32)
qed

lemma dump_length:
  assumes "\<forall>sap \<in> set saps. sa_shape sap" and "k + length saps \<le> NSIM_IPSEC_MAX_SA_COUNT"
  shows "length (concat (concat (map (\<lambda>(i, sap). if sa_used sap then sa_lines m i sap else []) (enumerate k saps))))
    \<le> 240 * length (sas.taken saps)"
  using assms
proof (induction saps arbitrary: k)
  case (Cons sap saps)
  have "length (concat (sa_lines m k sap)) < 240" by (rule sa_lines_length) (use Cons.prems in simp_all)
  then show ?case using Cons.IH [of "Suc k"] Cons.prems by (auto simp: sas.taken_def)
qed (simp add: sas.taken_def)

text \<open>
  The listing is never cut: the buffer sized by the counter holds the heading and every line of every
  association, so that reading from the start with a large enough count delivers all of them.
\<close>

theorem ipsec_listing_complete:
  assumes "ipsec_inv m ipsec" and "\<forall>sap \<in> set (ip_sa ipsec). sa_shape sap"
    and "length (concat (dump_lines m ipsec)) \<le> count"
  shows "nsim_dbg_netdev_ops_read True m ipsec count 0
    = Inr (concat (dump_lines m ipsec), int (length (concat (dump_lines m ipsec))))"
proof -
  let ?n = "length (sas.taken (ip_sa ipsec))"
  have n: "?n \<le> 33" and len: "length (ip_sa ipsec) = NSIM_IPSEC_MAX_SA_COUNT" and cnt: "ip_count ipsec = of_nat ?n"
    using assms(1) sas.taken_le [of "ip_sa ipsec"] by (simp_all add: ipsec_inv_def NSIM_IPSEC_MAX_SA_COUNT_def)
  have "ip_count ipsec * 4 * 60 + 60 = of_nat (?n * 240 + 60)" by (simp add: cnt)
  then have "dump_bufsize ipsec = unat (of_nat (?n * 240 + 60) :: u32)" by (simp only: dump_bufsize_def)
  also have "\<dots> = ?n * 240 + 60" using n by (simp only: unat_of_nat) simp
  finally have size: "dump_bufsize ipsec = ?n * 240 + 60" .
  have "length (concat (concat (map (\<lambda>(i, sap). if sa_used sap then sa_lines m i sap else []) (enumerate 0 (ip_sa ipsec)))))
      \<le> 240 * ?n"
    using dump_length [OF assms(2), of 0] len by simp
  then have "length (concat (dump_lines m ipsec)) < dump_bufsize ipsec"
    using dec_u32 [of "ip_count ipsec"] dec_u32 [of "ip_tx ipsec"] by (simp add: dump_lines_def size)
  then show ?thesis
    using assms(3) scnprintf_all_fits [of "[]" "dump_lines m ipsec" "dump_bufsize ipsec"]
    by (simp add: nsim_dbg_netdev_ops_read_def simple_read_from_buffer_def Let_def)
qed

section \<open>An association\<close>

definition demo_state :: xfrm_state where
  "demo_state = \<lparr>x_spi = 0x1234, x_proto = IPPROTO_ESP, x_calg = False, x_ealg = False,
     x_aead = Some \<lparr>alg_name = ''rfc4106(gcm(aes))'', alg_key_len = 160, alg_icv_len = 128, alg_key = [1, 2, 3, 4, 5]\<rparr>,
     x_type = Offload_crypto, x_dir = Offload_out, x_inet6 = False, x_daddr6 = [0, 0, 0, 0], x_daddr4 = 0, offload_handle = 0\<rparr>"

lemma demo_offloadable: "offloadable demo_state"
  by (simp add: offloadable_def demo_state_def nsim_ipsec_parse_proto_keys_def NSIM_IPSEC_AUTH_BITS_def word_at_def)

lemma ipsec_table_is_a_set_witness:
  "\<exists>m ipsec. nsim_ipsec_add_sa 5 (\<lambda>_. demo_state) no_ipsec = Ok (m, ipsec) \<and> installed ipsec = {5}
    \<and> unat (ip_count ipsec) = 1 \<and> fst (nsim_ipsec_tx (Some 1) (Some 5) m ipsec)"
proof -
  have none: "installed no_ipsec = {}" by (simp add: installed_def no_ipsec_def sas.taken_blank)
  have "\<forall>x. \<exists>m ipsec. nsim_ipsec_add_sa x (\<lambda>_. demo_state) no_ipsec = Ok (m, ipsec) \<and> installed ipsec = {x}"
    using ipsec_table_is_a_set [OF rtranclp.rtrancl_refl, of "\<lambda>_. demo_state"] demo_offloadable
    by (simp add: none NSIM_IPSEC_MAX_SA_COUNT_def)
  then obtain m ipsec where add: "nsim_ipsec_add_sa 5 (\<lambda>_. demo_state) no_ipsec = Ok (m, ipsec)" "installed ipsec = {5}"
    by blast
  then have "ipsec_step\<^sup>*\<^sup>* (\<lambda>_. demo_state, no_ipsec) (m, ipsec)"
    using ipsec_step.add [of 5 no_ipsec "\<lambda>_. demo_state" m ipsec] none by blast
  from ipsec_table_is_a_set [OF this] add show ?thesis by auto
qed

lemma ipsec_listing_complete_witness:
  "\<exists>s p. nsim_dbg_netdev_ops_read True (\<lambda>_. demo_state) no_ipsec 100 0 = Inr (s, p) \<and> s = concat (dump_lines (\<lambda>_. demo_state) no_ipsec)"
proof -
  have none: "ip_sa no_ipsec = replicate 33 blank_sa" by (simp add: no_ipsec_def NSIM_IPSEC_MAX_SA_COUNT_def)
  have "concat (map (\<lambda>(i, sap). if sa_used sap then sa_lines (\<lambda>_. demo_state) i sap else []) (enumerate 0 (replicate n blank_sa))) = []"
    for n by (auto simp: blank_sa_def in_set_enumerate_eq)
  then have "concat (dump_lines (\<lambda>_. demo_state) no_ipsec) = ''SA count=0 tx=0'' @ [newline]"
    by (simp add: dump_lines_def none) (simp add: no_ipsec_def digits.simps digit_char_def)
  moreover have "ipsec_inv (\<lambda>_. demo_state) no_ipsec"
    by (simp add: ipsec_inv_def no_ipsec_def sas.taken_blank sas.blank_free)
  moreover have "\<forall>sap \<in> set (ip_sa no_ipsec). sa_shape sap"
    by (simp add: none sa_shape_def blank_sa_def)
  ultimately show ?thesis
    using ipsec_listing_complete [of "\<lambda>_. demo_state" no_ipsec 100] by simp
qed

end
