(* ===== verification/Nsim_Hwstats.thy ===== *)
theory Nsim_Hwstats
  imports Prelude
begin

text \<open>
  The hardware statistics of netdevsim, \<open>netdevsim/hwstats.c\<close>: which network devices are
  counted, the traffic invented for them, and how it is reported. A network device is its interface index.
  The world holds the list of the driver, the references it holds on network devices, and what the networking core has:
  which devices exist, where it has switched the statistics on, and what has been delivered to it.
\<close>

section \<open>State\<close>

datatype xstats_type = XSTATS_TYPE_L3 | Xstats_type nat

text \<open>The counters of \<open>struct rtnl_hw_stats64\<close> that the driver uses.\<close>

record hw_stats =
  rx_packets :: u64
  tx_packets :: u64
  rx_bytes :: u64
  tx_bytes :: u64

definition no_stats :: hw_stats where
  "no_stats = \<lparr>rx_packets = 0, tx_packets = 0, rx_bytes = 0, tx_bytes = 0\<rparr>"

record hwsdev =
  h_netdev :: int
  h_stats :: hw_stats
  h_enabled :: bool
  h_fail_enable :: bool

record hw_world =
  l3_list :: "hwsdev list"
  dev_refs :: "int \<Rightarrow> nat"
  net_has :: "int \<Rightarrow> bool"
  xstats_on :: "int \<Rightarrow> bool"
  delivered :: "(int \<times> hw_stats) list"
  notified :: "int list"
  traffic_dw :: bool
  hw_warned :: bool

text \<open>The list of a type; for any other type the code warns.\<close>

definition nsim_dev_hwstats_get_list_head :: "xstats_type \<Rightarrow> hw_world \<Rightarrow> bool \<times> hw_world" where
  "nsim_dev_hwstats_get_list_head type w =
     (case type of XSTATS_TYPE_L3 \<Rightarrow> (True, w) | Xstats_type _ \<Rightarrow> (False, w\<lparr>hw_warned := True\<rparr>))"

section \<open>Traffic\<close>

definition bump :: "hw_stats \<Rightarrow> hw_stats" where
  "bump s = s\<lparr>rx_packets := rx_packets s + 1, tx_packets := tx_packets s + 2, rx_bytes := rx_bytes s + 100,
     tx_bytes := tx_bytes s + 300\<rparr>"

definition nsim_dev_hwstats_traffic_bump :: "xstats_type \<Rightarrow> hw_world \<Rightarrow> hw_world" where
  "nsim_dev_hwstats_traffic_bump type w =
     (let (ok, w) = nsim_dev_hwstats_get_list_head type w
      in if \<not> ok then w
         else w\<lparr>l3_list := map (\<lambda>h. if h_enabled h then h\<lparr>h_stats := bump (h_stats h)\<rparr> else h) (l3_list w)\<rparr>)"

definition nsim_dev_hwstats_traffic_work :: "hw_world \<Rightarrow> hw_world" where
  "nsim_dev_hwstats_traffic_work w = (nsim_dev_hwstats_traffic_bump XSTATS_TYPE_L3 w)\<lparr>traffic_dw := True\<rparr>"

section \<open>The list\<close>

definition nsim_dev_hwslist_find_hwsdev :: "int \<Rightarrow> hwsdev list \<Rightarrow> hwsdev option" where
  "nsim_dev_hwslist_find_hwsdev ifindex hs = find (\<lambda>h. h_netdev h = ifindex) hs"

text \<open>Writing through the pointer that was found: the first entry of the device.\<close>

fun upd_first :: "int \<Rightarrow> (hwsdev \<Rightarrow> hwsdev) \<Rightarrow> hwsdev list \<Rightarrow> hwsdev list" where
  "upd_first ifindex f [] = []"
| "upd_first ifindex f (h # hs) = (if h_netdev h = ifindex then f h # hs else h # upd_first ifindex f hs)"

definition upd_hwsdev :: "int \<Rightarrow> (hwsdev \<Rightarrow> hwsdev) \<Rightarrow> hw_world \<Rightarrow> hw_world" where
  "upd_hwsdev ifindex f w = w\<lparr>l3_list := upd_first ifindex f (l3_list w)\<rparr>"

definition list_del :: "hwsdev \<Rightarrow> hw_world \<Rightarrow> hw_world" where
  "list_del h w = w\<lparr>l3_list := remove1 h (l3_list w)\<rparr>"

definition dev_put :: "int \<Rightarrow> hw_world \<Rightarrow> hw_world" where
  "dev_put i w = w\<lparr>dev_refs := (dev_refs w)(i := dev_refs w i - 1)\<rparr>"

section \<open>Events of the networking core\<close>

definition nsim_dev_hwsdev_enable :: "hwsdev \<Rightarrow> ret \<times> hwsdev" where
  "nsim_dev_hwsdev_enable h =
     (if h_fail_enable h then (Some (OtherErrno 125), h\<lparr>h_fail_enable := False\<rparr>)
      else (None, h\<lparr>h_enabled := True\<rparr>))"

definition nsim_dev_hwsdev_disable :: "hwsdev \<Rightarrow> hwsdev" where
  "nsim_dev_hwsdev_disable h = h\<lparr>h_enabled := False, h_stats := no_stats\<rparr>"

definition nsim_dev_hwsdev_report_delta :: "hwsdev \<Rightarrow> hw_world \<Rightarrow> hw_world" where
  "nsim_dev_hwsdev_report_delta h w =
     upd_hwsdev (h_netdev h) (\<lambda>h. h\<lparr>h_stats := no_stats\<rparr>)
       (w\<lparr>delivered := delivered w @ [(h_netdev h, h_stats h)]\<rparr>)"

definition nsim_dev_hwsdev_report_used :: "hwsdev \<Rightarrow> bool" where
  "nsim_dev_hwsdev_report_used h = h_enabled h"

datatype hw_event = Xstats_enable | Xstats_disable | Xstats_report_used | Xstats_report_delta | Netdev_unregister | Netdev_other

text \<open>The result, whether the statistics are reported as used, and the world.\<close>

definition nsim_dev_hwstats_event_off_xstats :: "xstats_type \<Rightarrow> int \<Rightarrow> hw_event \<Rightarrow> hw_world \<Rightarrow> ret \<times> bool \<times> hw_world" where
  "nsim_dev_hwstats_event_off_xstats type dev event w =
     (let (ok, w) = nsim_dev_hwstats_get_list_head type w
      in if \<not> ok then (None, False, w)
         else case nsim_dev_hwslist_find_hwsdev dev (l3_list w) of
                None \<Rightarrow> (None, False, w)
              | Some h \<Rightarrow>
                  (case event of
                     Xstats_enable \<Rightarrow>
                       (fst (nsim_dev_hwsdev_enable h), False, upd_hwsdev dev (snd \<circ> nsim_dev_hwsdev_enable) w)
                   | Xstats_disable \<Rightarrow> (None, False, upd_hwsdev dev nsim_dev_hwsdev_disable w)
                   | Xstats_report_used \<Rightarrow> (None, nsim_dev_hwsdev_report_used h, w)
                   | Xstats_report_delta \<Rightarrow> (None, False, nsim_dev_hwsdev_report_delta h w)
                   | _ \<Rightarrow> (None, False, w)))"

definition nsim_dev_hwsdev_fini :: "hwsdev \<Rightarrow> hw_world \<Rightarrow> hw_world" where
  "nsim_dev_hwsdev_fini h w = dev_put (h_netdev h) w"

definition nsim_dev_hwstats_event_unregister :: "int \<Rightarrow> hw_world \<Rightarrow> hw_world" where
  "nsim_dev_hwstats_event_unregister dev w =
     (let (ok, w) = nsim_dev_hwstats_get_list_head XSTATS_TYPE_L3 w
      in if \<not> ok then w
         else case nsim_dev_hwslist_find_hwsdev dev (l3_list w) of
                None \<Rightarrow> w
              | Some h \<Rightarrow> nsim_dev_hwsdev_fini h (list_del h w))"

definition nsim_dev_hwstats_event :: "xstats_type \<Rightarrow> int \<Rightarrow> hw_event \<Rightarrow> hw_world \<Rightarrow> ret \<times> bool \<times> hw_world" where
  "nsim_dev_hwstats_event type dev event w =
     (if event \<in> {Xstats_enable, Xstats_disable, Xstats_report_used, Xstats_report_delta}
      then nsim_dev_hwstats_event_off_xstats type dev event w
      else if event = Netdev_unregister then (None, False, nsim_dev_hwstats_event_unregister dev w)
      else (None, False, w))"

section \<open>The debugfs files\<close>

text \<open>\<open>mem\<close>: whether the allocation succeeds.\<close>

definition nsim_dev_hwstats_enable_ifindex :: "bool \<Rightarrow> int \<Rightarrow> hw_world \<Rightarrow> ret \<times> hw_world" where
  "nsim_dev_hwstats_enable_ifindex mem ifindex w =
     (case nsim_dev_hwslist_find_hwsdev ifindex (l3_list w) of
        Some _ \<Rightarrow> (None, w)
      | None \<Rightarrow>
          if \<not> net_has w ifindex then (Some ENODEV, w)
          else
            (let w = w\<lparr>dev_refs := (dev_refs w)(ifindex := dev_refs w ifindex + 1)\<rparr>
             in if \<not> mem then (Some ENOMEM, dev_put ifindex w)
                else
                  (let h = \<lparr>h_netdev = ifindex, h_stats = no_stats, h_enabled = False, h_fail_enable = False\<rparr>;
                       w = w\<lparr>l3_list := l3_list w @ [h]\<rparr>
                   in if xstats_on w ifindex
                      then (None, (upd_hwsdev ifindex (snd \<circ> nsim_dev_hwsdev_enable) w)\<lparr>notified := notified w @ [ifindex]\<rparr>)
                      else (None, w))))"

definition nsim_dev_hwstats_disable_ifindex :: "int \<Rightarrow> hw_world \<Rightarrow> ret \<times> hw_world" where
  "nsim_dev_hwstats_disable_ifindex ifindex w =
     (case nsim_dev_hwslist_find_hwsdev ifindex (l3_list w) of
        None \<Rightarrow> (Some ENOENT, w)
      | Some h \<Rightarrow>
          (let w = list_del h w;
               w = (if xstats_on w (h_netdev h)
                    then w\<lparr>delivered := delivered w @ [(h_netdev h, h_stats h)], notified := notified w @ [h_netdev h]\<rparr>
                    else w)
           in (None, nsim_dev_hwsdev_fini h w)))"

definition nsim_dev_hwstats_fail_ifindex :: "int \<Rightarrow> hw_world \<Rightarrow> ret \<times> hw_world" where
  "nsim_dev_hwstats_fail_ifindex ifindex w =
     (case nsim_dev_hwslist_find_hwsdev ifindex (l3_list w) of
        None \<Rightarrow> (Some ENOENT, w)
      | Some h \<Rightarrow> (None, upd_hwsdev ifindex (\<lambda>h. h\<lparr>h_fail_enable := True\<rparr>) w))"

datatype hw_do = DO_DISABLE | DO_ENABLE | DO_FAIL

text \<open>\<open>parsed\<close>: what \<open>kstrtoint_from_user\<close> makes of the \<open>count\<close> bytes written.\<close>

definition nsim_dev_hwstats_do_write ::
    "hw_do \<Rightarrow> xstats_type \<Rightarrow> bool \<Rightarrow> errno + int \<Rightarrow> nat \<Rightarrow> hw_world \<Rightarrow> (errno + nat) \<times> hw_world" where
  "nsim_dev_hwstats_do_write action type mem parsed count w =
     (case parsed of
        Inl e \<Rightarrow> (Inl e, w)
      | Inr ifindex \<Rightarrow>
          (let (ok, w) = nsim_dev_hwstats_get_list_head type w
           in if \<not> ok then (Inl EINVAL, w)
              else
                (let (err, w) = (case action of
                     DO_DISABLE \<Rightarrow> nsim_dev_hwstats_disable_ifindex ifindex w
                   | DO_ENABLE \<Rightarrow> nsim_dev_hwstats_enable_ifindex mem ifindex w
                   | DO_FAIL \<Rightarrow> nsim_dev_hwstats_fail_ifindex ifindex w)
                 in (case err of Some e \<Rightarrow> Inl e | None \<Rightarrow> Inr count, w))))"

section \<open>Init and exit\<close>

text \<open>The results of registering the notifier and of making the two directories; what is left then.\<close>

definition nsim_dev_hwstats_init :: "ret \<Rightarrow> ret \<Rightarrow> ret \<Rightarrow> hw_world \<Rightarrow> ret \<times> hw_world" where
  "nsim_dev_hwstats_init nb ddir l3_ddir w =
     (let w = w\<lparr>l3_list := []\<rparr>
      in case nb of Some e \<Rightarrow> (Some e, w)
         | None \<Rightarrow> (case ddir of Some e \<Rightarrow> (Some e, w)
                   | None \<Rightarrow> (case l3_ddir of Some e \<Rightarrow> (Some e, w)
                             | None \<Rightarrow> (None, w\<lparr>traffic_dw := True\<rparr>))))"

definition nsim_dev_hwsdev_list_wipe :: "xstats_type \<Rightarrow> hw_world \<Rightarrow> hw_world" where
  "nsim_dev_hwsdev_list_wipe type w =
     (let (ok, w) = nsim_dev_hwstats_get_list_head type w
      in if \<not> ok then w else fold (\<lambda>h w. nsim_dev_hwsdev_fini h (list_del h w)) (l3_list w) w)"

definition nsim_dev_hwstats_exit :: "hw_world \<Rightarrow> hw_world" where
  "nsim_dev_hwstats_exit w = nsim_dev_hwsdev_list_wipe XSTATS_TYPE_L3 (w\<lparr>traffic_dw := False\<rparr>)"

section \<open>Runs\<close>

text \<open>Everything that happens to the driver; the core also changes which devices exist and where it wants statistics.\<close>

datatype hw_op =
    is_tick: Op_tick
  | Op_event xstats_type int hw_event
  | Op_write hw_do xstats_type bool "errno + int" nat
  | Op_core "int \<Rightarrow> bool" "int \<Rightarrow> bool"

primrec hw_step :: "hw_op \<Rightarrow> hw_world \<Rightarrow> hw_world" where
  "hw_step Op_tick w = nsim_dev_hwstats_traffic_work w"
| "hw_step (Op_event type dev ev) w = snd (snd (nsim_dev_hwstats_event type dev ev w))"
| "hw_step (Op_write action type mem parsed count) w = snd (nsim_dev_hwstats_do_write action type mem parsed count w)"
| "hw_step (Op_core has on) w = w\<lparr>net_has := has, xstats_on := on\<rparr>"

definition hw_run :: "hw_op list \<Rightarrow> hw_world \<Rightarrow> hw_world" where
  "hw_run ops w = fold hw_step ops w"

definition hw_entry :: "int \<Rightarrow> hw_world \<Rightarrow> hwsdev option" where
  "hw_entry i w = nsim_dev_hwslist_find_hwsdev i (l3_list w)"

definition listed :: "hw_world \<Rightarrow> int set" where
  "listed w = h_netdev ` set (l3_list w)"

text \<open>The driver holds one reference on each listed device, on top of those of others.\<close>

definition hw_inv :: "(int \<Rightarrow> nat) \<Rightarrow> hw_world \<Rightarrow> bool" where
  "hw_inv others w \<longleftrightarrow> distinct (map h_netdev (l3_list w))
     \<and> (\<forall>i. dev_refs w i = others i + (if i \<in> listed w then 1 else 0)) \<and> \<not> hw_warned w"

lemma hw_inv_cong:
  assumes "map h_netdev (l3_list w') = map h_netdev (l3_list w)" and "dev_refs w' = dev_refs w" and "hw_warned w' = hw_warned w"
  shows "hw_inv others w' = hw_inv others w"
proof -
  have "listed w' = listed w" using arg_cong [OF assms(1), of set] by (simp add: listed_def)
  then show ?thesis using assms by (simp add: hw_inv_def)
qed

lemma find_hwsdev_Some: "find (\<lambda>h. h_netdev h = i) hs = Some h \<Longrightarrow> h \<in> set hs \<and> h_netdev h = i"
  by (auto simp: find_Some_iff)

lemma find_hwsdev_None: "find (\<lambda>h. h_netdev h = i) hs = None \<longleftrightarrow> i \<notin> h_netdev ` set hs"
  by (auto simp: find_None_iff)

lemma map_upd_first: "(\<And>h. h_netdev (f h) = h_netdev h) \<Longrightarrow> map h_netdev (upd_first i f hs) = map h_netdev hs"
  by (induction hs) auto

lemma netdevs_upd_first: "(\<And>h. h_netdev (f h) = h_netdev h) \<Longrightarrow> h_netdev ` set (upd_first i f hs) = h_netdev ` set hs"
  by (metis list.set_map map_upd_first)

lemma hw_inv_upd:
  assumes "hw_inv others w" and "\<And>h. h_netdev (f h) = h_netdev h"
  shows "hw_inv others (upd_hwsdev i f w)"
  using assms by (simp add: hw_inv_def upd_hwsdev_def listed_def map_upd_first netdevs_upd_first)

lemma hw_inv_del:
  assumes inv: "hw_inv others w" and h: "h \<in> set (l3_list w)"
  shows "hw_inv others (nsim_dev_hwsdev_fini h (list_del h w))" and "listed (list_del h w) = listed w - {h_netdev h}"
proof -
  have d: "distinct (map h_netdev (l3_list w))" using inv by (simp add: hw_inv_def)
  then have dl: "distinct (l3_list w)" and inj: "inj_on h_netdev (set (l3_list w))" by (simp_all add: distinct_map)
  have set: "set (remove1 h (l3_list w)) = set (l3_list w) - {h}" using dl by simp
  show "listed (list_del h w) = listed w - {h_netdev h}"
    using inj h by (auto simp: listed_def list_del_def set inj_on_def)
  then show "hw_inv others (nsim_dev_hwsdev_fini h (list_del h w))"
    using inv h d by (auto simp: hw_inv_def nsim_dev_hwsdev_fini_def dev_put_def listed_def list_del_def distinct_map
        inj_on_diff set dl)
qed

lemmas hw_frames = hw_inv_def listed_def

lemma enable_frame [simp]:
  "h_netdev (snd (nsim_dev_hwsdev_enable h)) = h_netdev h" "h_netdev (nsim_dev_hwsdev_disable h) = h_netdev h"
  by (simp_all add: nsim_dev_hwsdev_enable_def nsim_dev_hwsdev_disable_def)

lemma hw_inv_event:
  assumes inv: "hw_inv others w" and l3: "type = XSTATS_TYPE_L3"
  shows "hw_inv others (snd (snd (nsim_dev_hwstats_event type dev ev w)))"
proof (cases "nsim_dev_hwslist_find_hwsdev dev (l3_list w)")
  case None
  then show ?thesis
    using inv by (simp add: nsim_dev_hwstats_event_def nsim_dev_hwstats_event_off_xstats_def l3
        nsim_dev_hwstats_get_list_head_def nsim_dev_hwstats_event_unregister_def)
next
  case (Some h)
  then have h: "h \<in> set (l3_list w)" "h_netdev h = dev"
    using find_hwsdev_Some [of dev "l3_list w" h] by (simp_all add: nsim_dev_hwslist_find_hwsdev_def)
  have delta: "hw_inv others (nsim_dev_hwsdev_report_delta h w)"
    unfolding nsim_dev_hwsdev_report_delta_def
    by (rule hw_inv_upd) (use inv in \<open>simp_all add: hw_inv_def listed_def\<close>)
  show ?thesis
    using Some inv delta hw_inv_del [OF inv h(1)] hw_inv_upd [OF inv]
    by (cases ev) (simp_all add: nsim_dev_hwstats_event_def nsim_dev_hwstats_event_off_xstats_def l3
        nsim_dev_hwstats_get_list_head_def nsim_dev_hwstats_event_unregister_def)
qed

lemma hw_inv_enable:
  assumes inv: "hw_inv others w"
  shows "hw_inv others (snd (nsim_dev_hwstats_enable_ifindex mem i w))"
proof (cases "nsim_dev_hwslist_find_hwsdev i (l3_list w)")
  case None
  let ?h = "\<lparr>h_netdev = i, h_stats = no_stats, h_enabled = False, h_fail_enable = False\<rparr>"
  let ?w = "w\<lparr>dev_refs := (dev_refs w)(i := dev_refs w i + 1), l3_list := l3_list w @ [?h]\<rparr>"
  have "i \<notin> listed w" using None by (simp add: nsim_dev_hwslist_find_hwsdev_def find_hwsdev_None listed_def)
  then have new: "hw_inv others ?w" using inv by (auto simp: hw_inv_def listed_def)
  have "hw_inv others ((upd_hwsdev i (snd \<circ> nsim_dev_hwsdev_enable) ?w)\<lparr>notified := notified w @ [i]\<rparr>)"
    using hw_inv_upd [OF new, of "snd \<circ> nsim_dev_hwsdev_enable" i] by (simp add: hw_inv_def listed_def)
  then show ?thesis
    using inv new None by (simp add: nsim_dev_hwstats_enable_ifindex_def Let_def dev_put_def upd_hwsdev_def)
qed (use inv in \<open>simp add: nsim_dev_hwstats_enable_ifindex_def\<close>)

lemma hw_inv_disable:
  assumes inv: "hw_inv others w"
  shows "hw_inv others (snd (nsim_dev_hwstats_disable_ifindex i w))"
proof (cases "nsim_dev_hwslist_find_hwsdev i (l3_list w)")
  case (Some h)
  then have "h \<in> set (l3_list w)" using find_hwsdev_Some by (auto simp: nsim_dev_hwslist_find_hwsdev_def)
  note del = hw_inv_del(1) [OF inv this]
  have "hw_inv others (snd (nsim_dev_hwstats_disable_ifindex i w)) = hw_inv others (nsim_dev_hwsdev_fini h (list_del h w))"
    by (rule hw_inv_cong) (simp_all add: nsim_dev_hwstats_disable_ifindex_def Some Let_def nsim_dev_hwsdev_fini_def
        dev_put_def list_del_def)
  with del show ?thesis by simp
qed (use inv in \<open>simp add: nsim_dev_hwstats_disable_ifindex_def\<close>)

text \<open>The only type there is.\<close>

primrec op_l3 :: "hw_op \<Rightarrow> bool" where
  "op_l3 Op_tick = True"
| "op_l3 (Op_event type dev ev) = (type = XSTATS_TYPE_L3)"
| "op_l3 (Op_write action type mem parsed count) = (type = XSTATS_TYPE_L3)"
| "op_l3 (Op_core has on) = True"

lemma hw_inv_step:
  assumes inv: "hw_inv others w" and "op_l3 op"
  shows "hw_inv others (hw_step op w)"
proof (cases op)
  case Op_tick
  have "hw_inv others (hw_step op w) = hw_inv others w"
    by (rule hw_inv_cong) (auto simp: Op_tick nsim_dev_hwstats_traffic_work_def nsim_dev_hwstats_traffic_bump_def
        nsim_dev_hwstats_get_list_head_def)
  with inv show ?thesis by simp
next
  case (Op_event type dev ev)
  then show ?thesis using hw_inv_event [OF inv] assms(2) by simp
next
  case (Op_write action type mem parsed count)
  have "hw_inv others (snd (nsim_dev_hwstats_fail_ifindex i w))" for i
    using inv by (auto simp: nsim_dev_hwstats_fail_ifindex_def intro: hw_inv_upd split: option.split)
  then show ?thesis
    using Op_write assms(2) hw_inv_enable [OF inv] hw_inv_disable [OF inv] inv
    by (auto simp: nsim_dev_hwstats_do_write_def nsim_dev_hwstats_get_list_head_def Let_def case_prod_beta
        split: sum.split hw_do.split)
qed (use inv in \<open>simp add: hw_inv_def listed_def\<close>)

lemma hw_inv_run: "hw_inv others w \<Longrightarrow> \<forall>op \<in> set ops. op_l3 op \<Longrightarrow> hw_inv others (hw_run ops w)"
  unfolding hw_run_def by (induction ops arbitrary: w) (simp_all add: hw_inv_step)

lemma wipe_all:
  assumes "hw_inv others w"
  shows "hw_inv others (fold (\<lambda>h w. nsim_dev_hwsdev_fini h (list_del h w)) (l3_list w) w)
    \<and> l3_list (fold (\<lambda>h w. nsim_dev_hwsdev_fini h (list_del h w)) (l3_list w) w) = []
    \<and> traffic_dw (fold (\<lambda>h w. nsim_dev_hwsdev_fini h (list_del h w)) (l3_list w) w) = traffic_dw w"
  using assms
proof (induction "l3_list w" arbitrary: w)
  case (Cons h hs)
  let ?w = "nsim_dev_hwsdev_fini h (list_del h w)"
  have l: "l3_list w = h # hs" using Cons.hyps(2) by simp
  then have hs: "hs = l3_list ?w" "traffic_dw ?w = traffic_dw w"
    by (simp_all add: nsim_dev_hwsdev_fini_def dev_put_def list_del_def)
  have "hw_inv others ?w" using hw_inv_del(1) [OF Cons.prems, of h] l by simp
  from Cons.hyps(1) [OF hs(1) this] hs show ?case by (simp add: l)
qed simp

text \<open>
  C26: Whatever events, writes and ticks follow the set-up, the driver holds exactly one reference on each device of its
  list and no device is on it twice; after the exit the list is empty, every
  reference has been given back, and the traffic work is stopped.
\<close>

theorem hwstats_references_balanced:
  assumes "nsim_dev_hwstats_init None None None w = (None, w1)" and "\<not> hw_warned w" and "\<forall>op \<in> set ops. op_l3 op"
  shows "distinct (map h_netdev (l3_list (hw_run ops w1)))
    \<and> (\<forall>i. dev_refs (hw_run ops w1) i = dev_refs w i + (if i \<in> listed (hw_run ops w1) then 1 else 0))
    \<and> dev_refs (nsim_dev_hwstats_exit (hw_run ops w1)) = dev_refs w
    \<and> l3_list (nsim_dev_hwstats_exit (hw_run ops w1)) = [] \<and> \<not> traffic_dw (nsim_dev_hwstats_exit (hw_run ops w1))"
proof -
  have "hw_inv (dev_refs w) w1"
    using assms(1,2) by (auto simp: nsim_dev_hwstats_init_def hw_inv_def listed_def)
  then have inv: "hw_inv (dev_refs w) (hw_run ops w1)" using hw_inv_run assms(3) by blast
  then have "hw_inv (dev_refs w) ((hw_run ops w1)\<lparr>traffic_dw := False\<rparr>)" by (simp add: hw_inv_def listed_def)
  from wipe_all [OF this] inv show ?thesis
    by (simp add: nsim_dev_hwstats_exit_def nsim_dev_hwsdev_list_wipe_def nsim_dev_hwstats_get_list_head_def hw_inv_def
        listed_def fun_eq_iff)
qed

section \<open>No traffic is lost\<close>

text \<open>What has been delivered for a device, and what is pending.\<close>

definition amount :: "(hw_stats \<Rightarrow> u64) \<Rightarrow> int \<Rightarrow> hw_world \<Rightarrow> u64" where
  "amount sel i w = sum_list (map (sel \<circ> snd) (filter (\<lambda>d. fst d = i) (delivered w)))
     + (case hw_entry i w of None \<Rightarrow> 0 | Some h \<Rightarrow> sel (h_stats h))"

definition counting :: "int \<Rightarrow> hw_world \<Rightarrow> bool" where
  "counting i w \<longleftrightarrow> (case hw_entry i w of None \<Rightarrow> False | Some h \<Rightarrow> h_enabled h)"

text \<open>The ticks that find the device listed and switched on.\<close>

primrec ticks :: "int \<Rightarrow> hw_op list \<Rightarrow> hw_world \<Rightarrow> nat" where
  "ticks i [] w = 0"
| "ticks i (op # ops) w = (if is_tick op \<and> counting i w then 1 else 0) + ticks i ops (hw_step op w)"

text \<open>The core keeps its statistics of the device on, and the device exists.\<close>

primrec keeps :: "int \<Rightarrow> hw_op \<Rightarrow> bool" where
  "keeps i Op_tick = True"
| "keeps i (Op_event type dev ev) = (dev = i \<longrightarrow> ev \<noteq> Xstats_disable \<and> ev \<noteq> Netdev_unregister)"
| "keeps i (Op_write action type mem parsed count) = True"
| "keeps i (Op_core has on) = on i"

lemma entry_upd:
  assumes "\<And>h. h_netdev (f h) = h_netdev h"
  shows "hw_entry j (upd_hwsdev i f w) = (if j = i then map_option f (hw_entry i w) else hw_entry j w)"
proof -
  have "find (\<lambda>h. h_netdev h = j) (upd_first i f hs)
      = (if j = i then map_option f (find (\<lambda>h. h_netdev h = i) hs) else find (\<lambda>h. h_netdev h = j) hs)" for hs
    by (induction hs) (auto simp: assms)
  then show ?thesis by (simp add: hw_entry_def nsim_dev_hwslist_find_hwsdev_def upd_hwsdev_def)
qed

lemma entry_iff:
  assumes "distinct (map h_netdev (l3_list w))"
  shows "hw_entry i w = Some h \<longleftrightarrow> h \<in> set (l3_list w) \<and> h_netdev h = i"
proof -
  have "find (\<lambda>h. h_netdev h = i) hs = Some h \<longleftrightarrow> h \<in> set hs \<and> h_netdev h = i" if "distinct (map h_netdev hs)" for hs
    using that by (induction hs) auto
  from this [OF assms] show ?thesis by (simp add: hw_entry_def nsim_dev_hwslist_find_hwsdev_def)
qed

lemma option_extI: "(\<And>g. x = Some g \<longleftrightarrow> y = Some g) \<Longrightarrow> x = y"
  by (metis not_None_eq)

lemma entry_del:
  assumes inv: "hw_inv others w" and h: "hw_entry i w = Some h"
  shows "hw_entry j (list_del h w) = (if j = i then None else hw_entry j w)"
proof (rule option_extI)
  fix g
  have d: "distinct (map h_netdev (l3_list w))" using inv by (simp add: hw_inv_def)
  then have dl: "distinct (l3_list w)" "distinct (map h_netdev (remove1 h (l3_list w)))"
    by (simp_all add: distinct_map inj_on_diff set_remove1_eq)
  have hi: "h \<in> set (l3_list w)" "h_netdev h = i" using h entry_iff [OF d] by auto
  have uniq: "g = h" if "g \<in> set (l3_list w)" "h_netdev g = i"
    using d that hi by (auto simp: distinct_map inj_on_def)
  have "hw_entry j (list_del h w) = Some g \<longleftrightarrow> g \<in> set (l3_list w) - {h} \<and> h_netdev g = j"
    using entry_iff [of "list_del h w" j g] dl by (simp add: list_del_def)
  then show "hw_entry j (list_del h w) = Some g \<longleftrightarrow> (if j = i then None else hw_entry j w) = Some g"
    using uniq hi entry_iff [OF d, of j g] by auto
qed

lemma entry_tick:
  "hw_entry i (hw_step Op_tick w) = map_option (\<lambda>h. if h_enabled h then h\<lparr>h_stats := bump (h_stats h)\<rparr> else h) (hw_entry i w)"
proof -
  have "find (\<lambda>h. h_netdev h = i) (map g hs) = map_option g (find (\<lambda>h. h_netdev h = i) hs)"
    if "\<And>h. h_netdev (g h) = h_netdev h" for g :: "hwsdev \<Rightarrow> hwsdev" and hs
    by (induction hs) (auto simp: that)
  then show ?thesis
    by (simp add: hw_entry_def nsim_dev_hwslist_find_hwsdev_def nsim_dev_hwstats_traffic_work_def
        nsim_dev_hwstats_traffic_bump_def nsim_dev_hwstats_get_list_head_def)
qed

definition counter :: "(hw_stats \<Rightarrow> u64) \<Rightarrow> bool" where
  "counter sel \<longleftrightarrow> sel no_stats = 0 \<and> (\<forall>s. sel (bump s) = sel s + sel (bump no_stats))"

lemma counters: "counter rx_packets" "counter tx_packets" "counter rx_bytes" "counter tx_bytes"
  by (simp_all add: counter_def no_stats_def bump_def)

lemma entry_frame [simp]:
  "hw_entry i (w\<lparr>delivered := d\<rparr>) = hw_entry i w" "hw_entry i (w\<lparr>notified := n\<rparr>) = hw_entry i w"
  "hw_entry i (w\<lparr>dev_refs := r\<rparr>) = hw_entry i w" "hw_entry i (dev_put j w) = hw_entry i w"
  "delivered (upd_hwsdev j f w) = delivered w" "delivered (list_del h w) = delivered w" "delivered (dev_put j w) = delivered w"
  "xstats_on (upd_hwsdev j f w) = xstats_on w" "xstats_on (list_del h w) = xstats_on w" "xstats_on (dev_put j w) = xstats_on w"
  by (simp_all add: hw_entry_def dev_put_def upd_hwsdev_def list_del_def)

lemma entry_netdev: "hw_entry i w = Some h \<Longrightarrow> h_netdev h = i"
  using find_hwsdev_Some by (auto simp: hw_entry_def nsim_dev_hwslist_find_hwsdev_def)

lemma amount_event:
  assumes inv: "hw_inv others w" and sel: "counter sel" and "type = XSTATS_TYPE_L3" and "keeps i (Op_event type dev ev)"
  shows "amount sel i (snd (snd (nsim_dev_hwstats_event type dev ev w))) = amount sel i w"
proof (cases "hw_entry dev w")
  case None
  then show ?thesis
    using assms(3) by (simp add: nsim_dev_hwstats_event_def nsim_dev_hwstats_event_off_xstats_def hw_entry_def
        nsim_dev_hwstats_get_list_head_def nsim_dev_hwstats_event_unregister_def)
next
  case (Some h)
  have h: "nsim_dev_hwslist_find_hwsdev dev (l3_list w) = Some h" "h_netdev h = dev"
    using Some entry_netdev [OF Some] by (simp_all add: hw_entry_def)
  have zero: "sel no_stats = 0" using sel by (simp add: counter_def)
  have del: "amount sel i (nsim_dev_hwsdev_fini h (list_del h w)) = amount sel i w" if "dev \<noteq> i"
    using that entry_del [OF inv Some] by (simp add: amount_def nsim_dev_hwsdev_fini_def)
  have "h_stats (snd (nsim_dev_hwsdev_enable g)) = h_stats g" for g by (simp add: nsim_dev_hwsdev_enable_def)
  then have en: "amount sel i (upd_hwsdev dev (snd \<circ> nsim_dev_hwsdev_enable) w) = amount sel i w"
    by (simp add: amount_def entry_upd split: option.split)
  have dis: "amount sel i (upd_hwsdev dev nsim_dev_hwsdev_disable w) = amount sel i w" if "dev \<noteq> i"
    using that by (simp add: amount_def entry_upd)
  have rep: "amount sel i (nsim_dev_hwsdev_report_delta h w) = amount sel i w"
    using Some zero by (auto simp: amount_def nsim_dev_hwsdev_report_delta_def h(2) entry_upd split: option.split)
  show ?thesis
    using assms(3,4) h(1) del en dis rep
    by (cases ev) (simp_all add: nsim_dev_hwstats_event_def nsim_dev_hwstats_event_off_xstats_def
        nsim_dev_hwstats_get_list_head_def nsim_dev_hwstats_event_unregister_def)
qed

lemma amount_disable:
  assumes inv: "hw_inv others w" and "xstats_on w i"
  shows "amount sel i (snd (nsim_dev_hwstats_disable_ifindex j w)) = amount sel i w"
proof (cases "hw_entry j w")
  case (Some h)
  have h: "nsim_dev_hwslist_find_hwsdev j (l3_list w) = Some h" "h_netdev h = j"
    using Some entry_netdev [OF Some] by (simp_all add: hw_entry_def)
  then show ?thesis
    using assms(2) Some entry_del [OF inv Some]
    by (auto simp: nsim_dev_hwstats_disable_ifindex_def Let_def nsim_dev_hwsdev_fini_def amount_def)
qed (simp add: nsim_dev_hwstats_disable_ifindex_def hw_entry_def)

lemma amount_enable:
  assumes sel: "counter sel"
  shows "amount sel i (snd (nsim_dev_hwstats_enable_ifindex mem j w)) = amount sel i w"
proof (cases "nsim_dev_hwslist_find_hwsdev j (l3_list w)")
  case None
  let ?h = "\<lparr>h_netdev = j, h_stats = no_stats, h_enabled = False, h_fail_enable = False\<rparr>"
  let ?w = "w\<lparr>dev_refs := (dev_refs w)(j := dev_refs w j + 1), l3_list := l3_list w @ [?h]\<rparr>"
  have none: "hw_entry j w = None" using None by (simp add: hw_entry_def)
  have "find P (hs @ [x]) = (case find P hs of Some y \<Rightarrow> Some y | None \<Rightarrow> if P x then Some x else None)"
    for P and hs :: "hwsdev list" and x
    by (induction hs) auto
  then have e: "hw_entry i ?w = (if i = j then Some ?h else hw_entry i w)"
    using none by (simp add: hw_entry_def nsim_dev_hwslist_find_hwsdev_def split: option.split)
  have zero: "sel no_stats = 0" using sel by (simp add: counter_def)
  have new: "amount sel i ?w = amount sel i w"
    using none zero by (auto simp: amount_def e [simplified])
  have "h_stats (snd (nsim_dev_hwsdev_enable g)) = h_stats g" for g by (simp add: nsim_dev_hwsdev_enable_def)
  then have "amount sel i ((upd_hwsdev j (snd \<circ> nsim_dev_hwsdev_enable) ?w)\<lparr>notified := notified w @ [j]\<rparr>) = amount sel i ?w"
    by (simp add: amount_def entry_upd split: option.split)
  with new show ?thesis
    using None by (simp add: nsim_dev_hwstats_enable_ifindex_def Let_def dev_put_def amount_def)
qed (simp add: nsim_dev_hwstats_enable_ifindex_def)

lemma amount_step:
  assumes inv: "hw_inv others w" and sel: "counter sel" and "op_l3 op" and keep: "keeps i op" and on: "xstats_on w i"
  shows "amount sel i (hw_step op w)
    = amount sel i w + (if is_tick op \<and> counting i w then sel (bump no_stats) else 0)"
proof (cases op)
  case Op_tick
  have "delivered (hw_step Op_tick w) = delivered w"
    by (simp add: nsim_dev_hwstats_traffic_work_def nsim_dev_hwstats_traffic_bump_def nsim_dev_hwstats_get_list_head_def)
  moreover have "sel (bump (h_stats h)) = sel (h_stats h) + sel (bump no_stats)" for h
    using sel unfolding counter_def by blast
  ultimately show ?thesis
    by (cases "hw_entry i w") (simp_all add: Op_tick amount_def counting_def entry_tick del: hw_step.simps, blast)
next
  case (Op_event type dev ev)
  then show ?thesis using amount_event [OF inv sel _ keep [unfolded Op_event]] assms(3) by simp
next
  case (Op_write action type mem parsed count)
  have "amount sel i (snd (nsim_dev_hwstats_fail_ifindex j w)) = amount sel i w" for j
    by (auto simp: nsim_dev_hwstats_fail_ifindex_def amount_def entry_upd split: option.split)
  then show ?thesis
    using Op_write assms(3) amount_enable [OF sel] amount_disable [OF inv on]
    by (cases parsed; cases action)
      (simp_all add: nsim_dev_hwstats_do_write_def nsim_dev_hwstats_get_list_head_def case_prod_beta)
qed (simp add: amount_def hw_entry_def)

lemma on_step: "keeps i op \<Longrightarrow> op_l3 op \<Longrightarrow> xstats_on w i \<Longrightarrow> xstats_on (hw_step op w) i"
  by (cases op)
    (auto simp: nsim_dev_hwstats_traffic_work_def nsim_dev_hwstats_traffic_bump_def nsim_dev_hwstats_get_list_head_def
      nsim_dev_hwstats_event_def nsim_dev_hwstats_event_off_xstats_def nsim_dev_hwstats_event_unregister_def
      nsim_dev_hwsdev_report_delta_def nsim_dev_hwsdev_fini_def nsim_dev_hwstats_do_write_def
      nsim_dev_hwstats_enable_ifindex_def nsim_dev_hwstats_disable_ifindex_def nsim_dev_hwstats_fail_ifindex_def
      Let_def case_prod_beta split: option.split sum.split hw_do.split hw_event.split)

text \<open>
  C27: No traffic is lost: as long as the core does not switch the statistics of a device off, what it has been given
  for the device and what is pending grow by 1 and 2 packets and 100 and 300 bytes with every tick that finds
  the device counted, whatever else happens, its removal from the list and its return included.
\<close>

theorem hwstats_traffic_conserved:
  assumes "hw_inv others w" and "xstats_on w i" and "\<forall>op \<in> set ops. op_l3 op \<and> keeps i op"
  shows "amount rx_packets i (hw_run ops w) = amount rx_packets i w + of_nat (ticks i ops w)
    \<and> amount tx_packets i (hw_run ops w) = amount tx_packets i w + 2 * of_nat (ticks i ops w)
    \<and> amount rx_bytes i (hw_run ops w) = amount rx_bytes i w + 100 * of_nat (ticks i ops w)
    \<and> amount tx_bytes i (hw_run ops w) = amount tx_bytes i w + 300 * of_nat (ticks i ops w)"
proof -
  have "amount sel i (hw_run ops w) = amount sel i w + sel (bump no_stats) * of_nat (ticks i ops w)" if "counter sel" for sel
    using assms
  proof (induction ops arbitrary: w)
    case (Cons op ops)
    then have "hw_inv others (hw_step op w)" "xstats_on (hw_step op w) i" using hw_inv_step on_step by auto
    with Cons have "amount sel i (hw_run ops (hw_step op w))
        = amount sel i (hw_step op w) + sel (bump no_stats) * of_nat (ticks i ops (hw_step op w))" by simp
    moreover note amount_step [OF Cons.prems(1) that _ _ Cons.prems(2), of op]
    ultimately show ?case using Cons.prems(3) by (simp add: hw_run_def algebra_simps)
  qed (simp add: hw_run_def)
  from this [OF counters(1)] this [OF counters(2)] this [OF counters(3)] this [OF counters(4)]
  show ?thesis by (simp add: bump_def no_stats_def)
qed

section \<open>A device\<close>

definition demo_hw :: hw_world where
  "demo_hw = \<lparr>l3_list = [], dev_refs = (\<lambda>_. 0), net_has = (\<lambda>i. i = 3), xstats_on = (\<lambda>_. True), delivered = [],
     notified = [], traffic_dw = False, hw_warned = False\<rparr>"

lemma hwstats_references_balanced_witness:
  "dev_refs (nsim_dev_hwstats_exit (hw_run [Op_write DO_ENABLE XSTATS_TYPE_L3 True (Inr 3) 1] (snd (nsim_dev_hwstats_init None None None demo_hw)))) 3 = 0"
  using hwstats_references_balanced [of demo_hw "snd (nsim_dev_hwstats_init None None None demo_hw)"
      "[Op_write DO_ENABLE XSTATS_TYPE_L3 True (Inr 3) 1]"]
  by (simp add: demo_hw_def nsim_dev_hwstats_init_def)

lemma hwstats_traffic_conserved_witness:
  "amount rx_bytes 3 (hw_run [Op_write DO_ENABLE XSTATS_TYPE_L3 True (Inr 3) 1, Op_tick, Op_event XSTATS_TYPE_L3 3 Xstats_report_delta,
     Op_tick] demo_hw) = 200"
proof -
  have "hw_inv (\<lambda>_. 0) demo_hw" by (simp add: hw_inv_def demo_hw_def listed_def)
  moreover have "ticks 3 [Op_write DO_ENABLE XSTATS_TYPE_L3 True (Inr 3) 1, Op_tick, Op_event XSTATS_TYPE_L3 3 Xstats_report_delta,
     Op_tick] demo_hw = 2" by code_simp
  moreover have "amount rx_bytes 3 demo_hw = 0" by code_simp
  ultimately show ?thesis
    using hwstats_traffic_conserved [of "\<lambda>_. 0" demo_hw 3 "[Op_write DO_ENABLE XSTATS_TYPE_L3 True (Inr 3) 1, Op_tick,
      Op_event XSTATS_TYPE_L3 3 Xstats_report_delta, Op_tick]"]
    by (simp add: demo_hw_def)
qed

end
