(* ===== verification/Nsim_Fib.thy ===== *)
theory Nsim_Fib
  imports Prelude
begin

text \<open>
  The offload of routes and nexthops of \<open>netdevsim/fib.c\<close>: the occupancy of the resources, the
  table of routes with the queue of notifications and the work that handles them, and the
  table of nexthops. \<open>nsim_fib_rt_ht\<close> and \<open>nexthop_ht\<close> are hash tables of the kernel, maps here; a
  route is an object of the memory \<open>rt_mem\<close>, because the table and the list \<open>fib_rt_list\<close> share it. Where
  the kernel can fail (an allocation, an insertion into a hash table) the outcome is an argument.
\<close>

section \<open>Resources\<close>

record nsim_fib_entry =
  fe_max :: u64
  fe_num :: u64

record nsim_per_fib_data =
  pf_fib :: nsim_fib_entry
  pf_rules :: nsim_fib_entry

datatype nsim_resource_id =
    NSIM_RESOURCE_NONE | NSIM_RESOURCE_IPV4 | NSIM_RESOURCE_IPV4_FIB | NSIM_RESOURCE_IPV4_FIB_RULES
  | NSIM_RESOURCE_IPV6 | NSIM_RESOURCE_IPV6_FIB | NSIM_RESOURCE_IPV6_FIB_RULES | NSIM_RESOURCE_NEXTHOPS

text \<open>\<open>atomic64_add_unless (\<dots>, 1, max)\<close>, \<open>None\<close> when it does not add, and \<open>atomic64_dec_if_positive\<close>.\<close>

definition add_unless_max :: "nsim_fib_entry \<Rightarrow> nsim_fib_entry option" where
  "add_unless_max e = (if fe_num e = fe_max e then None else Some (e\<lparr>fe_num := fe_num e + 1\<rparr>))"

definition dec_if_positive :: "nsim_fib_entry \<Rightarrow> nsim_fib_entry" where
  "dec_if_positive e = (if sint (fe_num e - 1) < 0 then e else e\<lparr>fe_num := fe_num e - 1\<rparr>)"

definition nsim_fib_rule_account :: "bool \<Rightarrow> nsim_fib_entry \<Rightarrow> ret \<times> nsim_fib_entry" where
  "nsim_fib_rule_account add e =
     (if add then (case add_unless_max e of None \<Rightarrow> (Some ENOSPC, e) | Some e \<Rightarrow> (None, e))
      else (None, dec_if_positive e))"

definition nsim_fib_account :: "bool \<Rightarrow> nsim_fib_entry \<Rightarrow> ret \<times> nsim_fib_entry" where
  "nsim_fib_account add e =
     (if add then (case add_unless_max e of None \<Rightarrow> (Some ENOSPC, e) | Some e \<Rightarrow> (None, e))
      else (None, dec_if_positive e))"

section \<open>Routes\<close>

datatype family = AF_INET | AF_INET6 | AF_other nat

text \<open>The key of a route. An IPv4 address takes the first four bytes, as a little-endian machine holds it.\<close>

record nsim_fib_rt_key =
  k_addr :: "u8 list"
  k_prefix_len :: u8
  k_family :: family
  k_tb_id :: u32

definition bytes_of_u32 :: "u32 \<Rightarrow> u8 list" where
  "bytes_of_u32 d = [ucast d, ucast (drop_bit 8 d), ucast (drop_bit 16 d), ucast (drop_bit 24 d)]"

definition u32_of_bytes :: "u8 list \<Rightarrow> u32" where
  "u32_of_bytes bs = or (ucast (bs ! 0)) (or (push_bit 8 (ucast (bs ! 1)))
     (or (push_bit 16 (ucast (bs ! 2))) (push_bit 24 (ucast (bs ! 3)))))"

definition cpu_to_be32 :: "u32 \<Rightarrow> u32" where
  "cpu_to_be32 d = u32_of_bytes (rev (bytes_of_u32 d))"

text \<open>What the kernel tells of an IPv4 route; \<open>fen_fi\<close> names the \<open>fib_info\<close>.\<close>

record fen_info =
  fen_dst :: u32
  fen_dst_len :: u32
  fen_tb_id :: u32
  fen_fi :: nat
  fen_dscp :: u8
  fen_type :: u8

text \<open>
  What the driver reads of a \<open>fib6_info\<close>: destination, table, length of the source prefix. The
  kernel tells of an IPv6 route by its first \<open>fib6_info\<close> and the siblings after it.
\<close>

record fib6_info =
  i6_addr :: "u8 list"
  i6_plen :: u8
  i6_tb_id :: u32
  i6_src_plen :: nat

record fen6_info =
  fen6_rt :: nat
  fen6_nsiblings :: nat
  fen6_siblings :: "nat list"

record nsim_fib4_rt =
  f4_key :: nsim_fib_rt_key
  f4_fi :: nat
  f4_dscp :: u8
  f4_type :: u8

record nsim_fib6_rt =
  f6_key :: nsim_fib_rt_key
  f6_nh_list :: "nat list"
  f6_nhs :: nat

datatype nsim_fib_rt = Rt4 nsim_fib4_rt | Rt6 nsim_fib6_rt

primrec rt_key :: "nsim_fib_rt \<Rightarrow> nsim_fib_rt_key" where
  "rt_key (Rt4 r) = f4_key r"
| "rt_key (Rt6 r) = f6_key r"

text \<open>The route that \<open>fib_alias_hw_flags_set\<close> looks for, and the flags it writes there.\<close>

record fib_rt_info =
  fri_fi :: nat
  fri_tb_id :: u32
  fri_dst :: u32
  fri_dst_len :: u32
  fri_dscp :: u8
  fri_type :: u8

record hw_flags =
  offload :: bool
  trap :: bool
  offload_failed :: bool

section \<open>Notifications\<close>

datatype fib_event_type =
  FIB_EVENT_ENTRY_REPLACE | FIB_EVENT_ENTRY_APPEND | FIB_EVENT_ENTRY_DEL | FIB_EVENT_RULE_ADD | FIB_EVENT_RULE_DEL | FIB_EVENT_other nat

text \<open>
  The three forms of \<open>struct fib_notifier_info\<close>: an IPv4 route, an IPv6 route, and what has
  nothing but a family, a rule or an entry of another protocol.
\<close>

datatype fib_notifier_info = Info4 fen_info | Info6 fen6_info | Info_plain family

primrec info_family :: "fib_notifier_info \<Rightarrow> family" where
  "info_family (Info4 _) = AF_INET"
| "info_family (Info6 _) = AF_INET6"
| "info_family (Info_plain f) = f"

record nsim_fib6_event =
  rt_arr :: "nat list"
  nrt6 :: nat

datatype nsim_fib_event = Event4 fib_event_type fen_info | Event6 fib_event_type nsim_fib6_event

datatype notify = NOTIFY_DONE | NOTIFY_OK | NOTIFY_BAD | NOTIFY_errno errno

primrec notifier_from_errno :: "ret \<Rightarrow> notify" where
  "notifier_from_errno None = NOTIFY_OK"
| "notifier_from_errno (Some e) = NOTIFY_errno e"

section \<open>The state\<close>

record nsim_nexthop =
  nh_occ :: u64
  nh_id :: u32
  is_resilient :: bool

text \<open>
  \<open>struct nsim_fib_data\<close>, the memory of its routes, and what it does to the kernel: references on
  \<open>fib_info\<close> and \<open>fib6_info\<close>, the flags of routes, nexthops and buckets, the activity it reports.
  \<open>fib_warned\<close> records a warning, \<open>fib_fault\<close> an access through a dead or NULL pointer; \<open>0\<close> is NULL
  among the \<open>fib6_info\<close>.
\<close>

record nsim_fib_data =
  ipv4 :: nsim_per_fib_data
  ipv6 :: nsim_per_fib_data
  nexthops :: nsim_fib_entry
  rt_mem :: "nat \<Rightarrow> nsim_fib_rt option"
  rt_lim :: nat
  fib_rt_ht :: "nsim_fib_rt_key \<Rightarrow> nat option"
  fib_rt_list :: "nat list"
  nexthop_ht :: "u32 \<Rightarrow> nsim_nexthop option"
  fib_event_queue :: "nsim_fib_event list"
  fib_event_work :: bool
  fib_flush_work :: bool
  fail_route_offload :: bool
  fail_res_nexthop_group_replace :: bool
  fail_nexthop_bucket_replace :: bool
  fail_route_delete :: bool
  rt6_info :: "nat \<Rightarrow> fib6_info"
  fi_refs :: "nat \<Rightarrow> int"
  rt6_refs :: "nat \<Rightarrow> int"
  flags4 :: "fib_rt_info \<Rightarrow> hw_flags"
  flags6 :: "nat \<Rightarrow> hw_flags"
  nh_trap :: "u32 \<Rightarrow> bool"
  bucket_trap :: "u32 \<Rightarrow> nat \<Rightarrow> bool"
  nh_activity :: "(u32 \<times> u64 \<times> nat) list"
  fib_warned :: bool
  fib_fault :: bool

definition upd_fib4 :: "(nsim_fib_entry \<Rightarrow> nsim_fib_entry) \<Rightarrow> nsim_fib_data \<Rightarrow> nsim_fib_data" where
  "upd_fib4 f d = d\<lparr>ipv4 := (ipv4 d)\<lparr>pf_fib := f (pf_fib (ipv4 d))\<rparr>\<rparr>"

definition upd_fib6 :: "(nsim_fib_entry \<Rightarrow> nsim_fib_entry) \<Rightarrow> nsim_fib_data \<Rightarrow> nsim_fib_data" where
  "upd_fib6 f d = d\<lparr>ipv6 := (ipv6 d)\<lparr>pf_fib := f (pf_fib (ipv6 d))\<rparr>\<rparr>"

definition upd_rules4 :: "(nsim_fib_entry \<Rightarrow> nsim_fib_entry) \<Rightarrow> nsim_fib_data \<Rightarrow> nsim_fib_data" where
  "upd_rules4 f d = d\<lparr>ipv4 := (ipv4 d)\<lparr>pf_rules := f (pf_rules (ipv4 d))\<rparr>\<rparr>"

definition upd_rules6 :: "(nsim_fib_entry \<Rightarrow> nsim_fib_entry) \<Rightarrow> nsim_fib_data \<Rightarrow> nsim_fib_data" where
  "upd_rules6 f d = d\<lparr>ipv6 := (ipv6 d)\<lparr>pf_rules := f (pf_rules (ipv6 d))\<rparr>\<rparr>"

definition upd_nexthops :: "(nsim_fib_entry \<Rightarrow> nsim_fib_entry) \<Rightarrow> nsim_fib_data \<Rightarrow> nsim_fib_data" where
  "upd_nexthops f d = d\<lparr>nexthops := f (nexthops d)\<rparr>"

definition resource :: "nsim_resource_id \<Rightarrow> nsim_fib_data \<Rightarrow> nsim_fib_entry option" where
  "resource res d =
     (case res of
        NSIM_RESOURCE_IPV4_FIB \<Rightarrow> Some (pf_fib (ipv4 d))
      | NSIM_RESOURCE_IPV4_FIB_RULES \<Rightarrow> Some (pf_rules (ipv4 d))
      | NSIM_RESOURCE_IPV6_FIB \<Rightarrow> Some (pf_fib (ipv6 d))
      | NSIM_RESOURCE_IPV6_FIB_RULES \<Rightarrow> Some (pf_rules (ipv6 d))
      | NSIM_RESOURCE_NEXTHOPS \<Rightarrow> Some (nexthops d)
      | _ \<Rightarrow> None)"

definition nsim_fib_get_val :: "nsim_fib_data \<Rightarrow> nsim_resource_id \<Rightarrow> bool \<Rightarrow> u64" where
  "nsim_fib_get_val d res want_max =
     (case resource res d of None \<Rightarrow> 0 | Some e \<Rightarrow> if want_max then fe_max e else fe_num e)"

definition nsim_fib_set_max :: "nsim_resource_id \<Rightarrow> u64 \<Rightarrow> nsim_fib_data \<Rightarrow> nsim_fib_data" where
  "nsim_fib_set_max res val d =
     (let f = (\<lambda>e. e\<lparr>fe_max := val\<rparr>)
      in case res of
           NSIM_RESOURCE_IPV4_FIB \<Rightarrow> upd_fib4 f d
         | NSIM_RESOURCE_IPV4_FIB_RULES \<Rightarrow> upd_rules4 f d
         | NSIM_RESOURCE_IPV6_FIB \<Rightarrow> upd_fib6 f d
         | NSIM_RESOURCE_IPV6_FIB_RULES \<Rightarrow> upd_rules6 f d
         | NSIM_RESOURCE_NEXTHOPS \<Rightarrow> upd_nexthops f d
         | _ \<Rightarrow> d\<lparr>fib_warned := True\<rparr>)"

definition nsim_fib_rule_event :: "family \<Rightarrow> bool \<Rightarrow> nsim_fib_data \<Rightarrow> ret \<times> nsim_fib_data" where
  "nsim_fib_rule_event fam add d =
     (case fam of
        AF_INET \<Rightarrow> (let (err, e) = nsim_fib_rule_account add (pf_rules (ipv4 d)) in (err, upd_rules4 (\<lambda>_. e) d))
      | AF_INET6 \<Rightarrow> (let (err, e) = nsim_fib_rule_account add (pf_rules (ipv6 d)) in (err, upd_rules6 (\<lambda>_. e) d))
      | AF_other _ \<Rightarrow> (None, d))"

text \<open>\<open>nsim_fib_account\<close> on the routes of a family.\<close>

definition account4 :: "bool \<Rightarrow> nsim_fib_data \<Rightarrow> ret \<times> nsim_fib_data" where
  "account4 add d = (let (err, e) = nsim_fib_account add (pf_fib (ipv4 d)) in (err, upd_fib4 (\<lambda>_. e) d))"

definition account6 :: "bool \<Rightarrow> nsim_fib_data \<Rightarrow> ret \<times> nsim_fib_data" where
  "account6 add d = (let (err, e) = nsim_fib_account add (pf_fib (ipv6 d)) in (err, upd_fib6 (\<lambda>_. e) d))"

section \<open>The table and the list of routes\<close>

definition make_key :: "u8 list \<Rightarrow> u8 \<Rightarrow> family \<Rightarrow> u32 \<Rightarrow> nsim_fib_rt_key" where
  "make_key addr plen fam tb =
     \<lparr>k_addr = addr @ replicate (16 - length addr) 0, k_prefix_len = plen, k_family = fam, k_tb_id = tb\<rparr>"

text \<open>A new object that is zero but for its key goes to the front of the list.\<close>

definition nsim_fib_rt_init :: "nat \<Rightarrow> nsim_fib_data \<Rightarrow> nsim_fib_data" where
  "nsim_fib_rt_init a d = d\<lparr>fib_rt_list := a # fib_rt_list d\<rparr>"

definition nsim_fib_rt_fini :: "nat \<Rightarrow> nsim_fib_data \<Rightarrow> nsim_fib_data" where
  "nsim_fib_rt_fini a d = d\<lparr>fib_rt_list := remove1 a (fib_rt_list d)\<rparr>"

definition nsim_fib_rt_lookup :: "nsim_fib_data \<Rightarrow> u8 list \<Rightarrow> u8 \<Rightarrow> family \<Rightarrow> u32 \<Rightarrow> nat option" where
  "nsim_fib_rt_lookup d addr plen fam tb = fib_rt_ht d (make_key addr plen fam tb)"

definition new_object :: "nsim_fib_rt \<Rightarrow> nsim_fib_data \<Rightarrow> nat \<times> nsim_fib_data" where
  "new_object r d = (rt_lim d, d\<lparr>rt_mem := (rt_mem d)(rt_lim d \<mapsto> r), rt_lim := rt_lim d + 1\<rparr>)"

definition kfree_rt :: "nat \<Rightarrow> nsim_fib_data \<Rightarrow> nsim_fib_data" where
  "kfree_rt a d = d\<lparr>rt_mem := (rt_mem d)(a := None)\<rparr>"

text \<open>\<open>rhashtable_replace_fast\<close> and \<open>rhashtable_remove_fast\<close>, for objects that are in the table or not.\<close>

definition ht_replace :: "nsim_fib_rt_key \<Rightarrow> nat \<Rightarrow> nat \<Rightarrow> nsim_fib_data \<Rightarrow> ret \<times> nsim_fib_data" where
  "ht_replace k old new d =
     (if fib_rt_ht d k = Some old then (None, d\<lparr>fib_rt_ht := (fib_rt_ht d)(k \<mapsto> new)\<rparr>) else (Some ENOENT, d))"

definition ht_remove :: "nsim_fib_rt_key \<Rightarrow> nat \<Rightarrow> nsim_fib_data \<Rightarrow> nsim_fib_data" where
  "ht_remove k a d = (if fib_rt_ht d k = Some a then d\<lparr>fib_rt_ht := (fib_rt_ht d)(k := None)\<rparr> else d)"

text \<open>Access to the object at an address, as one of the two families.\<close>

definition rt4 :: "nsim_fib_data \<Rightarrow> nat \<Rightarrow> nsim_fib4_rt option" where
  "rt4 d a = (case rt_mem d a of Some (Rt4 r) \<Rightarrow> Some r | _ \<Rightarrow> None)"

definition rt6 :: "nsim_fib_data \<Rightarrow> nat \<Rightarrow> nsim_fib6_rt option" where
  "rt6 d a = (case rt_mem d a of Some (Rt6 r) \<Rightarrow> Some r | _ \<Rightarrow> None)"

definition bad_access :: "nsim_fib_data \<Rightarrow> nsim_fib_data" where
  "bad_access d = d\<lparr>fib_fault := True\<rparr>"

text \<open>What the kernel's memory does while one event is handled.\<close>

record fib_env =
  e_alloc :: bool
  e_nh :: "nat \<Rightarrow> bool"
  e_ht :: ret

end
