(* ===== verification/Nsim_Fib_Routes.thy ===== *)
theory Nsim_Fib_Routes
  imports Nsim_Fib
begin

text \<open>
  The handling of one notification about a route: creation, insertion, replacement, appending
  and removal of the routes of both families.
\<close>

section \<open>IPv4\<close>

definition fib_info_hold :: "nat \<Rightarrow> nsim_fib_data \<Rightarrow> nsim_fib_data" where
  "fib_info_hold fi d = d\<lparr>fi_refs := (fi_refs d)(fi := fi_refs d fi + 1)\<rparr>"

definition fib_info_put :: "nat \<Rightarrow> nsim_fib_data \<Rightarrow> nsim_fib_data" where
  "fib_info_put fi d = d\<lparr>fi_refs := (fi_refs d)(fi := fi_refs d fi - 1)\<rparr>"

definition nsim_fib4_rt_create :: "bool \<Rightarrow> fen_info \<Rightarrow> nsim_fib_data \<Rightarrow> nat option \<times> nsim_fib_data" where
  "nsim_fib4_rt_create mem fen d =
     (if \<not> mem then (None, d)
      else let k = make_key (bytes_of_u32 (fen_dst fen)) (ucast (fen_dst_len fen)) AF_INET (fen_tb_id fen);
               (a, d) = new_object (Rt4 \<lparr>f4_key = k, f4_fi = fen_fi fen, f4_dscp = fen_dscp fen, f4_type = fen_type fen\<rparr>) d;
               d = nsim_fib_rt_init a d
           in (Some a, fib_info_hold (fen_fi fen) d))"

definition nsim_fib4_rt_destroy :: "nat \<Rightarrow> nsim_fib_data \<Rightarrow> nsim_fib_data" where
  "nsim_fib4_rt_destroy a d =
     (case rt4 d a of
        None \<Rightarrow> bad_access d
      | Some r \<Rightarrow> kfree_rt a (nsim_fib_rt_fini a (fib_info_put (f4_fi r) d)))"

definition nsim_fib4_rt_lookup :: "fen_info \<Rightarrow> nsim_fib_data \<Rightarrow> nat option" where
  "nsim_fib4_rt_lookup fen d =
     nsim_fib_rt_lookup d (bytes_of_u32 (fen_dst fen)) (ucast (fen_dst_len fen)) AF_INET (fen_tb_id fen)"

definition fib_alias_hw_flags_set :: "fib_rt_info \<Rightarrow> hw_flags \<Rightarrow> nsim_fib_data \<Rightarrow> nsim_fib_data" where
  "fib_alias_hw_flags_set fri f d = d\<lparr>flags4 := (flags4 d)(fri := f)\<rparr>"

text \<open>The kernel's name of the route of a notification, and of a route of the table.\<close>

definition fri_of_fen :: "fen_info \<Rightarrow> fib_rt_info" where
  "fri_of_fen fen = \<lparr>fri_fi = fen_fi fen, fri_tb_id = fen_tb_id fen, fri_dst = cpu_to_be32 (fen_dst fen),
     fri_dst_len = fen_dst_len fen, fri_dscp = fen_dscp fen, fri_type = fen_type fen\<rparr>"

definition fri_of_rt :: "nsim_fib4_rt \<Rightarrow> fib_rt_info" where
  "fri_of_rt r = \<lparr>fri_fi = f4_fi r, fri_tb_id = k_tb_id (f4_key r), fri_dst = cpu_to_be32 (u32_of_bytes (k_addr (f4_key r))),
     fri_dst_len = ucast (k_prefix_len (f4_key r)), fri_dscp = f4_dscp r, fri_type = f4_type r\<rparr>"

definition nsim_fib4_rt_offload_failed_flag_set :: "fen_info \<Rightarrow> nsim_fib_data \<Rightarrow> nsim_fib_data" where
  "nsim_fib4_rt_offload_failed_flag_set fen d =
     fib_alias_hw_flags_set (fri_of_fen fen) \<lparr>offload = False, trap = False, offload_failed = True\<rparr> d"

definition nsim_fib4_rt_hw_flags_set :: "nat \<Rightarrow> bool \<Rightarrow> nsim_fib_data \<Rightarrow> nsim_fib_data" where
  "nsim_fib4_rt_hw_flags_set a t d =
     (case rt4 d a of
        None \<Rightarrow> bad_access d
      | Some r \<Rightarrow> fib_alias_hw_flags_set (fri_of_rt r) \<lparr>offload = False, trap = t, offload_failed = False\<rparr> d)"

text \<open>The result of \<open>rhashtable_insert_fast\<close> is an argument; it does not look for an equal key.\<close>

definition nsim_fib4_rt_add :: "ret \<Rightarrow> nat \<Rightarrow> nsim_fib_data \<Rightarrow> ret \<times> nsim_fib_data" where
  "nsim_fib4_rt_add ht a d =
     (case rt4 d a of
        None \<Rightarrow> (None, bad_access d)
      | Some r \<Rightarrow>
          (case ht of
             Some e \<Rightarrow> (Some e, snd (account4 False d))
           | None \<Rightarrow> (None, nsim_fib4_rt_hw_flags_set a True (d\<lparr>fib_rt_ht := (fib_rt_ht d)(f4_key r \<mapsto> a)\<rparr>))))"

definition nsim_fib4_rt_replace :: "nat \<Rightarrow> nat \<Rightarrow> nsim_fib_data \<Rightarrow> ret \<times> nsim_fib_data" where
  "nsim_fib4_rt_replace a old d =
     (case account4 False d of
        (Some e, d) \<Rightarrow> (Some e, d)
      | (None, d) \<Rightarrow>
          (case rt4 d a of
             None \<Rightarrow> (None, bad_access d)
           | Some r \<Rightarrow>
               (case ht_replace (f4_key r) old a d of
                  (Some e, d) \<Rightarrow> (Some e, d)
                | (None, d) \<Rightarrow>
                    (let d = nsim_fib4_rt_hw_flags_set a True d;
                         d = nsim_fib4_rt_hw_flags_set old False d
                     in (None, nsim_fib4_rt_destroy old d)))))"

definition nsim_fib4_rt_insert :: "fib_env \<Rightarrow> fen_info \<Rightarrow> nsim_fib_data \<Rightarrow> ret \<times> nsim_fib_data" where
  "nsim_fib4_rt_insert env fen d =
     (if fail_route_offload d then (Some EINVAL, d)
      else case nsim_fib4_rt_create (e_alloc env) fen d of
             (None, d) \<Rightarrow> (Some ENOMEM, d)
           | (Some a, d) \<Rightarrow>
               (let (err, d) = (case nsim_fib4_rt_lookup fen d of
                                  None \<Rightarrow> nsim_fib4_rt_add (e_ht env) a d
                                | Some old \<Rightarrow> nsim_fib4_rt_replace a old d)
                in (err, if err \<noteq> None then nsim_fib4_rt_destroy a d else d)))"

definition nsim_fib4_rt_remove :: "fen_info \<Rightarrow> nsim_fib_data \<Rightarrow> nsim_fib_data" where
  "nsim_fib4_rt_remove fen d =
     (case nsim_fib4_rt_lookup fen d of
        None \<Rightarrow> d
      | Some a \<Rightarrow>
          (case rt4 d a of
             None \<Rightarrow> bad_access d
           | Some r \<Rightarrow> nsim_fib4_rt_destroy a (ht_remove (f4_key r) a d)))"

definition nsim_fib4_event :: "fib_env \<Rightarrow> fen_info \<Rightarrow> fib_event_type \<Rightarrow> nsim_fib_data \<Rightarrow> ret \<times> nsim_fib_data" where
  "nsim_fib4_event env fen event d =
     (case event of
        FIB_EVENT_ENTRY_REPLACE \<Rightarrow>
          (case nsim_fib4_rt_insert env fen d of
             (Some e, d) \<Rightarrow> (Some e, nsim_fib4_rt_offload_failed_flag_set fen d)
           | (None, d) \<Rightarrow> (None, d))
      | FIB_EVENT_ENTRY_DEL \<Rightarrow> (None, nsim_fib4_rt_remove fen d)
      | _ \<Rightarrow> (None, d))"

section \<open>IPv6\<close>

text \<open>\<open>fib6_info_release\<close> accepts NULL, \<open>fib6_info_hold\<close> does not.\<close>

definition fib6_info_hold :: "nat \<Rightarrow> nsim_fib_data \<Rightarrow> nsim_fib_data" where
  "fib6_info_hold rt d =
     (if rt = 0 then bad_access d else d\<lparr>rt6_refs := (rt6_refs d)(rt := rt6_refs d rt + 1)\<rparr>)"

definition nsim_rt6_release :: "nat \<Rightarrow> nsim_fib_data \<Rightarrow> nsim_fib_data" where
  "nsim_rt6_release rt d =
     (if rt = 0 then d else d\<lparr>rt6_refs := (rt6_refs d)(rt := rt6_refs d rt - 1)\<rparr>)"

definition nsim_fib6_rt_nh_find :: "nsim_fib6_rt \<Rightarrow> nat \<Rightarrow> bool" where
  "nsim_fib6_rt_nh_find r rt \<longleftrightarrow> rt \<in> set (f6_nh_list r)"

definition nsim_fib6_rt_nh_add :: "bool \<Rightarrow> nat \<Rightarrow> nat \<Rightarrow> nsim_fib_data \<Rightarrow> ret \<times> nsim_fib_data" where
  "nsim_fib6_rt_nh_add mem a rt d =
     (if \<not> mem then (Some ENOMEM, d)
      else case rt6 d a of
             None \<Rightarrow> (None, bad_access d)
           | Some r \<Rightarrow>
               (None, (fib6_info_hold rt d)\<lparr>rt_mem := (rt_mem d)
                  (a \<mapsto> Rt6 (r\<lparr>f6_nh_list := f6_nh_list r @ [rt], f6_nhs := f6_nhs r + 1\<rparr>))\<rparr>))"

definition nsim_fib6_rt_nh_del :: "nat \<Rightarrow> nat \<Rightarrow> nsim_fib_data \<Rightarrow> nsim_fib_data" where
  "nsim_fib6_rt_nh_del a rt d =
     (case rt6 d a of
        None \<Rightarrow> bad_access d
      | Some r \<Rightarrow>
          if \<not> nsim_fib6_rt_nh_find r rt then d
          else (nsim_rt6_release rt d)\<lparr>rt_mem := (rt_mem d)
                  (a \<mapsto> Rt6 (r\<lparr>f6_nh_list := remove1 rt (f6_nh_list r), f6_nhs := f6_nhs r - 1\<rparr>))\<rparr>)"

text \<open>
  The loops over \<open>rt_arr\<close>: \<open>i\<close> counts the nexthops added so far, the result is how many there were when it
  ended. \<open>mark\<close> is what appending does to a nexthop once it is added.
\<close>

fun nh_add_loop :: "(nat \<Rightarrow> bool) \<Rightarrow> (nat \<Rightarrow> nsim_fib_data \<Rightarrow> nsim_fib_data) \<Rightarrow> nat \<Rightarrow> nat \<Rightarrow> nat list \<Rightarrow> nsim_fib_data
    \<Rightarrow> (nat \<times> ret) \<times> nsim_fib_data" where
  "nh_add_loop mem mark a i [] d = ((i, None), d)"
| "nh_add_loop mem mark a i (rt # rts) d =
     (case nsim_fib6_rt_nh_add (mem i) a rt d of
        (Some e, d) \<Rightarrow> ((i, Some e), d)
      | (None, d) \<Rightarrow> nh_add_loop mem mark a (i + 1) rts (mark rt d))"

definition nsim_fib6_rt_create :: "fib_env \<Rightarrow> nat list \<Rightarrow> nsim_fib_data \<Rightarrow> (errno + nat) \<times> nsim_fib_data" where
  "nsim_fib6_rt_create env arr d =
     (if \<not> e_alloc env then (Inl ENOMEM, d)
      else let i6 = rt6_info d (arr ! 0);
               k = make_key (i6_addr i6) (i6_plen i6) AF_INET6 (i6_tb_id i6);
               (a, d) = new_object (Rt6 \<lparr>f6_key = k, f6_nh_list = [], f6_nhs = 0\<rparr>) d;
               d = nsim_fib_rt_init a d
           in case nh_add_loop (e_nh env) (\<lambda>_ d. d) a 0 arr d of
                ((_, None), d) \<Rightarrow> (Inr a, d)
              | ((i, Some e), d) \<Rightarrow>
                  (Inl e, kfree_rt a (nsim_fib_rt_fini a (fold (nsim_fib6_rt_nh_del a) (rev (take i arr)) d))))"

definition nsim_fib6_rt_destroy :: "nat \<Rightarrow> nsim_fib_data \<Rightarrow> nsim_fib_data" where
  "nsim_fib6_rt_destroy a d =
     (case rt6 d a of
        None \<Rightarrow> bad_access d
      | Some r \<Rightarrow>
          (let d = fold (nsim_fib6_rt_nh_del a) (f6_nh_list r) d;
               d = (case rt6 d a of
                      None \<Rightarrow> bad_access d
                    | Some r \<Rightarrow> if f6_nh_list r \<noteq> [] then d\<lparr>fib_warned := True\<rparr> else d)
           in kfree_rt a (nsim_fib_rt_fini a d)))"

definition nsim_fib6_rt_lookup :: "nat \<Rightarrow> nsim_fib_data \<Rightarrow> nat option" where
  "nsim_fib6_rt_lookup rt d =
     (let i6 = rt6_info d rt in nsim_fib_rt_lookup d (i6_addr i6) (i6_plen i6) AF_INET6 (i6_tb_id i6))"

text \<open>\<open>WRITE_ONCE (rt->trap, t)\<close>, and \<open>fib6_info_hw_flags_set\<close>.\<close>

definition write_trap :: "bool \<Rightarrow> nat \<Rightarrow> nsim_fib_data \<Rightarrow> nsim_fib_data" where
  "write_trap t rt d = d\<lparr>flags6 := (flags6 d)(rt := (flags6 d rt)\<lparr>trap := t\<rparr>)\<rparr>"

definition fib6_info_hw_flags_set :: "hw_flags \<Rightarrow> nat \<Rightarrow> nsim_fib_data \<Rightarrow> nsim_fib_data" where
  "fib6_info_hw_flags_set f rt d = d\<lparr>flags6 := (flags6 d)(rt := f)\<rparr>"

definition nsim_fib6_rt_append :: "fib_env \<Rightarrow> nsim_fib6_event \<Rightarrow> nsim_fib_data \<Rightarrow> ret \<times> nsim_fib_data" where
  "nsim_fib6_rt_append env ev d =
     (if fail_route_offload d then (Some EINVAL, d)
      else case nsim_fib6_rt_lookup (rt_arr ev ! 0) d of
             None \<Rightarrow> (Some EINVAL, d)
           | Some a \<Rightarrow>
               (case nh_add_loop (e_nh env) (write_trap True) a 0 (rt_arr ev) d of
                  ((_, None), d) \<Rightarrow> (None, d)
                | ((i, Some e), d) \<Rightarrow>
                    (Some e, fold (\<lambda>rt d. nsim_fib6_rt_nh_del a rt (write_trap False rt d)) (rev (take i (rt_arr ev))) d)))"

definition nsim_fib6_rt_offload_failed_flag_set :: "nat list \<Rightarrow> nsim_fib_data \<Rightarrow> nsim_fib_data" where
  "nsim_fib6_rt_offload_failed_flag_set arr d =
     fold (fib6_info_hw_flags_set \<lparr>offload = False, trap = False, offload_failed = True\<rparr>) arr d"

definition nsim_fib6_rt_hw_flags_set :: "nat \<Rightarrow> bool \<Rightarrow> nsim_fib_data \<Rightarrow> nsim_fib_data" where
  "nsim_fib6_rt_hw_flags_set a t d =
     (case rt6 d a of
        None \<Rightarrow> bad_access d
      | Some r \<Rightarrow> fold (fib6_info_hw_flags_set \<lparr>offload = False, trap = t, offload_failed = False\<rparr>) (f6_nh_list r) d)"

definition nsim_fib6_rt_add :: "ret \<Rightarrow> nat \<Rightarrow> nsim_fib_data \<Rightarrow> ret \<times> nsim_fib_data" where
  "nsim_fib6_rt_add ht a d =
     (case rt6 d a of
        None \<Rightarrow> (None, bad_access d)
      | Some r \<Rightarrow>
          (case ht of
             Some e \<Rightarrow> (Some e, snd (account6 False d))
           | None \<Rightarrow> (None, nsim_fib6_rt_hw_flags_set a True (d\<lparr>fib_rt_ht := (fib_rt_ht d)(f6_key r \<mapsto> a)\<rparr>))))"

definition nsim_fib6_rt_replace :: "nat \<Rightarrow> nat \<Rightarrow> nsim_fib_data \<Rightarrow> ret \<times> nsim_fib_data" where
  "nsim_fib6_rt_replace a old d =
     (case account6 False d of
        (Some e, d) \<Rightarrow> (Some e, d)
      | (None, d) \<Rightarrow>
          (case rt6 d a of
             None \<Rightarrow> (None, bad_access d)
           | Some r \<Rightarrow>
               (case ht_replace (f6_key r) old a d of
                  (Some e, d) \<Rightarrow> (Some e, d)
                | (None, d) \<Rightarrow>
                    (let d = nsim_fib6_rt_hw_flags_set a True d;
                         d = nsim_fib6_rt_hw_flags_set old False d
                     in (None, nsim_fib6_rt_destroy old d)))))"

definition nsim_fib6_rt_insert :: "fib_env \<Rightarrow> nsim_fib6_event \<Rightarrow> nsim_fib_data \<Rightarrow> ret \<times> nsim_fib_data" where
  "nsim_fib6_rt_insert env ev d =
     (if fail_route_offload d then (Some EINVAL, d)
      else case nsim_fib6_rt_create env (rt_arr ev) d of
             (Inl e, d) \<Rightarrow> (Some e, d)
           | (Inr a, d) \<Rightarrow>
               (let (err, d) = (case nsim_fib6_rt_lookup (rt_arr ev ! 0) d of
                                  None \<Rightarrow> nsim_fib6_rt_add (e_ht env) a d
                                | Some old \<Rightarrow> nsim_fib6_rt_replace a old d)
                in (err, if err \<noteq> None then nsim_fib6_rt_destroy a d else d)))"

text \<open>When the notification does not name as many nexthops as the route has, only those it names are deleted.\<close>

definition nsim_fib6_rt_remove :: "nsim_fib6_event \<Rightarrow> nsim_fib_data \<Rightarrow> nsim_fib_data" where
  "nsim_fib6_rt_remove ev d =
     (case nsim_fib6_rt_lookup (rt_arr ev ! 0) d of
        None \<Rightarrow> d
      | Some a \<Rightarrow>
          (case rt6 d a of
             None \<Rightarrow> bad_access d
           | Some r \<Rightarrow>
               if nrt6 ev \<noteq> f6_nhs r then fold (nsim_fib6_rt_nh_del a) (rt_arr ev) d
               else nsim_fib6_rt_destroy a (ht_remove (f6_key r) a d)))"

text \<open>
  The array of a notification has room for the route and its siblings; if there are fewer
  siblings than announced the code warns and the rest of the array stays NULL.
\<close>

definition nsim_fib6_event_init :: "bool \<Rightarrow> fen6_info \<Rightarrow> nsim_fib_data \<Rightarrow> (errno + nsim_fib6_event) \<times> nsim_fib_data" where
  "nsim_fib6_event_init mem fen6 d =
     (if \<not> mem then (Inl ENOMEM, d)
      else let n = fen6_nsiblings fen6;
               sibs = take n (fen6_siblings fen6);
               d = fold fib6_info_hold (fen6_rt fen6 # sibs) d;
               d = (if length sibs \<noteq> n then d\<lparr>fib_warned := True\<rparr> else d)
           in (Inr \<lparr>rt_arr = fen6_rt fen6 # sibs @ replicate (n - length sibs) 0, nrt6 = n + 1\<rparr>, d))"

definition nsim_fib6_event_fini :: "nsim_fib6_event \<Rightarrow> nsim_fib_data \<Rightarrow> nsim_fib_data" where
  "nsim_fib6_event_fini ev d = fold nsim_rt6_release (rt_arr ev) d"

definition nsim_fib6_event :: "fib_env \<Rightarrow> nsim_fib6_event \<Rightarrow> fib_event_type \<Rightarrow> nsim_fib_data \<Rightarrow> ret \<times> nsim_fib_data" where
  "nsim_fib6_event env ev event d =
     (if i6_src_plen (rt6_info d (rt_arr ev ! 0)) \<noteq> 0 then (None, d)
      else case event of
             FIB_EVENT_ENTRY_REPLACE \<Rightarrow>
               (case nsim_fib6_rt_insert env ev d of
                  (Some e, d) \<Rightarrow> (Some e, nsim_fib6_rt_offload_failed_flag_set (rt_arr ev) d)
                | (None, d) \<Rightarrow> (None, d))
           | FIB_EVENT_ENTRY_APPEND \<Rightarrow>
               (case nsim_fib6_rt_append env ev d of
                  (Some e, d) \<Rightarrow> (Some e, nsim_fib6_rt_offload_failed_flag_set (rt_arr ev) d)
                | (None, d) \<Rightarrow> (None, d))
           | FIB_EVENT_ENTRY_DEL \<Rightarrow> (None, nsim_fib6_rt_remove ev d)
           | _ \<Rightarrow> (None, d))"

section \<open>An event of the queue\<close>

definition nsim_fib_event :: "fib_env \<Rightarrow> nsim_fib_event \<Rightarrow> nsim_fib_data \<Rightarrow> nsim_fib_data" where
  "nsim_fib_event env ev d =
     (case ev of
        Event4 event fen \<Rightarrow> fib_info_put (fen_fi fen) (snd (nsim_fib4_event env fen event d))
      | Event6 event ev6 \<Rightarrow> nsim_fib6_event_fini ev6 (snd (nsim_fib6_event env ev6 event d)))"

end
