(* ===== verification/Nsim_Fib_Work.thy ===== *)
theory Nsim_Fib_Work
  imports Nsim_Fib_Routes
begin

text \<open>
  The notifications of the kernel's routing tables, which account for a route at once and queue it, the
  work that handles the queue, the flush, and the answer to an inconsistent dump.
\<close>

section \<open>Notifications\<close>

definition nsim_fib4_prepare_event :: "fen_info \<Rightarrow> fib_event_type \<Rightarrow> nsim_fib_data \<Rightarrow> (errno + nsim_fib_event) \<times> nsim_fib_data" where
  "nsim_fib4_prepare_event fen event d =
     (case (case event of
              FIB_EVENT_ENTRY_REPLACE \<Rightarrow> account4 True d
            | FIB_EVENT_ENTRY_DEL \<Rightarrow>
                if fail_route_delete d then (Some EINVAL, d) else (None, snd (account4 False d))
            | _ \<Rightarrow> (None, d)) of
        (Some e, d) \<Rightarrow> (Inl e, d)
      | (None, d) \<Rightarrow> (Inr (Event4 event fen), fib_info_hold (fen_fi fen) d))"

definition nsim_fib6_prepare_event ::
    "bool \<Rightarrow> fen6_info \<Rightarrow> fib_event_type \<Rightarrow> nsim_fib_data \<Rightarrow> (errno + nsim_fib_event) \<times> nsim_fib_data" where
  "nsim_fib6_prepare_event mem fen6 event d =
     (case nsim_fib6_event_init mem fen6 d of
        (Inl e, d) \<Rightarrow> (Inl e, d)
      | (Inr ev6, d) \<Rightarrow>
          (case (case event of
                   FIB_EVENT_ENTRY_REPLACE \<Rightarrow> account6 True d
                 | FIB_EVENT_ENTRY_DEL \<Rightarrow>
                     if fail_route_delete d then (Some EINVAL, d) else (None, snd (account6 False d))
                 | _ \<Rightarrow> (None, d)) of
             (Some e, d) \<Rightarrow> (Inl e, nsim_fib6_event_fini ev6 d)
           | (None, d) \<Rightarrow> (Inr (Event6 event ev6), d)))"

text \<open>The two allocations: the event, and the array of an IPv6 event.\<close>

definition nsim_fib_event_schedule_work ::
    "bool \<Rightarrow> bool \<Rightarrow> fib_notifier_info \<Rightarrow> fib_event_type \<Rightarrow> nsim_fib_data \<Rightarrow> notify \<times> nsim_fib_data" where
  "nsim_fib_event_schedule_work mem mem_arr info event d =
     (let bad = (\<lambda>d. (NOTIFY_BAD, if event = FIB_EVENT_ENTRY_DEL then d\<lparr>fib_flush_work := True\<rparr> else d));
          enqueue = (\<lambda>r. case r of
             (Inl _, d) \<Rightarrow> bad d
           | (Inr ev, d) \<Rightarrow> (NOTIFY_DONE, d\<lparr>fib_event_queue := fib_event_queue d @ [ev], fib_event_work := True\<rparr>))
      in case info of
           Info_plain _ \<Rightarrow> (NOTIFY_DONE, d)
         | Info4 fen \<Rightarrow> if \<not> mem then bad d else enqueue (nsim_fib4_prepare_event fen event d)
         | Info6 fen6 \<Rightarrow> if \<not> mem then bad d else enqueue (nsim_fib6_prepare_event mem_arr fen6 event d))"

definition nsim_fib_event_nb ::
    "bool \<Rightarrow> bool \<Rightarrow> fib_event_type \<Rightarrow> fib_notifier_info \<Rightarrow> nsim_fib_data \<Rightarrow> notify \<times> nsim_fib_data" where
  "nsim_fib_event_nb mem mem_arr event info d =
     (if event = FIB_EVENT_RULE_ADD \<or> event = FIB_EVENT_RULE_DEL then
        (let (err, d) = nsim_fib_rule_event (info_family info) (event = FIB_EVENT_RULE_ADD) d
         in (notifier_from_errno err, d))
      else if event \<in> {FIB_EVENT_ENTRY_REPLACE, FIB_EVENT_ENTRY_APPEND, FIB_EVENT_ENTRY_DEL} then
        nsim_fib_event_schedule_work mem mem_arr info event d
      else (NOTIFY_DONE, d))"

section \<open>Freeing a route\<close>

definition nsim_fib4_rt_free :: "nat \<Rightarrow> nsim_fib_data \<Rightarrow> nsim_fib_data" where
  "nsim_fib4_rt_free a d = nsim_fib4_rt_destroy a (snd (account4 False (nsim_fib4_rt_hw_flags_set a False d)))"

definition nsim_fib6_rt_free :: "nat \<Rightarrow> nsim_fib_data \<Rightarrow> nsim_fib_data" where
  "nsim_fib6_rt_free a d = nsim_fib6_rt_destroy a (snd (account6 False (nsim_fib6_rt_hw_flags_set a False d)))"

text \<open>The family of the key decides how the object is read.\<close>

definition nsim_fib_rt_free :: "nat \<Rightarrow> nsim_fib_data \<Rightarrow> nsim_fib_data" where
  "nsim_fib_rt_free a d =
     (case rt_mem d a of
        None \<Rightarrow> bad_access d
      | Some r \<Rightarrow>
          (case k_family (rt_key r) of
             AF_INET \<Rightarrow> nsim_fib4_rt_free a d
           | AF_INET6 \<Rightarrow> nsim_fib6_rt_free a d
           | AF_other _ \<Rightarrow> d\<lparr>fib_warned := True\<rparr>))"

text \<open>One turn of the loop over the list, of the flush and of the answer to an inconsistent dump.\<close>

definition flush_one :: "nat \<Rightarrow> nsim_fib_data \<Rightarrow> nsim_fib_data" where
  "flush_one a d =
     (case rt_mem d a of
        None \<Rightarrow> bad_access d
      | Some r \<Rightarrow> nsim_fib_rt_free a (ht_remove (rt_key r) a d))"

section \<open>Work\<close>

text \<open>
  The work takes the whole queue and handles it in order; the environment of the \<open>i\<close>-th event is \<open>env i\<close>.
  \<open>flush_event_work\<close> is \<open>flush_work (&data->fib_event_work)\<close>: it waits until scheduled work is done.
\<close>

fun handle_all :: "(nat \<Rightarrow> fib_env) \<Rightarrow> nat \<Rightarrow> nsim_fib_event list \<Rightarrow> nsim_fib_data \<Rightarrow> nsim_fib_data" where
  "handle_all env i [] d = d"
| "handle_all env i (ev # evs) d = handle_all env (i + 1) evs (nsim_fib_event (env i) ev d)"

definition nsim_fib_event_work :: "(nat \<Rightarrow> fib_env) \<Rightarrow> nsim_fib_data \<Rightarrow> nsim_fib_data" where
  "nsim_fib_event_work env d =
     handle_all env 0 (fib_event_queue d) (d\<lparr>fib_event_queue := [], fib_event_work := False\<rparr>)"

definition flush_event_work :: "(nat \<Rightarrow> fib_env) \<Rightarrow> nsim_fib_data \<Rightarrow> nsim_fib_data" where
  "flush_event_work env d = (if fib_event_work d then nsim_fib_event_work env d else d)"

definition flush_list :: "nsim_fib_data \<Rightarrow> nsim_fib_data" where
  "flush_list d = fold flush_one (fib_rt_list d) d"

definition nsim_fib_flush_work :: "(nat \<Rightarrow> fib_env) \<Rightarrow> nsim_fib_data \<Rightarrow> nsim_fib_data" where
  "nsim_fib_flush_work env d = flush_list (flush_event_work env (d\<lparr>fib_flush_work := False\<rparr>))"

definition nsim_fib_dump_inconsistent :: "(nat \<Rightarrow> fib_env) \<Rightarrow> nsim_fib_data \<Rightarrow> nsim_fib_data" where
  "nsim_fib_dump_inconsistent env d =
     (let d = flush_list (flush_event_work env d)
      in upd_rules6 (\<lambda>e. e\<lparr>fe_num := 0\<rparr>) (upd_rules4 (\<lambda>e. e\<lparr>fe_num := 0\<rparr>) d))"

end
