(* ===== verification/Map_Total.thy ===== *)
theory Map_Total
  imports Prelude
begin

text \<open>
  The total of a measure over the entries of a finite map: what a table occupies of a resource, or
  how many references its entries hold.
\<close>

definition total :: "('v \<Rightarrow> 'n::ab_group_add) \<Rightarrow> ('k \<Rightarrow> 'v option) \<Rightarrow> 'n" where
  "total f m = (\<Sum>k \<in> dom m. f (the (m k)))"

definition weight :: "('v \<Rightarrow> 'n::ab_group_add) \<Rightarrow> 'v option \<Rightarrow> 'n" where
  "weight f x = (case x of None \<Rightarrow> 0 | Some v \<Rightarrow> f v)"

lemma weight_simps [simp]: "weight f None = 0" "weight f (Some v) = f v"
  by (simp_all add: weight_def)

lemma total_empty [simp]: "total f Map.empty = 0"
  by (simp add: total_def)

lemma total_split:
  assumes "finite (dom m)"
  shows "total f m = weight f (m k) + total f (m(k := None))"
proof (cases "m k")
  case None
  then have "m(k := None) = m" by (simp add: fun_eq_iff)
  with None show ?thesis by simp
next
  case (Some v)
  then have "k \<in> dom m" by auto
  then have "total f m = f v + (\<Sum>i \<in> dom m - {k}. f (the (m i)))"
    unfolding total_def using sum.remove [OF assms, of k "\<lambda>i. f (the (m i))"] Some by simp
  also have "(\<Sum>i \<in> dom m - {k}. f (the (m i))) = total f (m(k := None))"
    unfolding total_def by (auto intro: sum.cong)
  finally show ?thesis using Some by simp
qed

lemma total_del: "finite (dom m) \<Longrightarrow> total f (m(k := None)) = total f m - weight f (m k)"
  using total_split [of m f k] by simp

lemma total_upd: "finite (dom m) \<Longrightarrow> total f (m(k \<mapsto> v)) = total f m - weight f (m k) + f v"
  using total_split [of "m(k \<mapsto> v)" f k] total_del [of m f k] by (simp add: algebra_simps)

lemma total_cong: "(\<And>k v. m k = Some v \<Longrightarrow> f v = g v) \<Longrightarrow> total f m = total g m"
  unfolding total_def by (intro sum.cong refl) auto

lemma total_one: "finite (dom m) \<Longrightarrow> total (\<lambda>_. 1 :: int) m = int (card (dom m))"
  by (simp add: total_def)

lemma total_nonneg: "(\<And>v. (0 :: int) \<le> f v) \<Longrightarrow> 0 \<le> total f m"
  by (simp add: total_def sum_nonneg)

lemma weight_le_total: "finite (dom m) \<Longrightarrow> (\<And>v. (0 :: int) \<le> f v) \<Longrightarrow> weight f (m k) \<le> total f m"
  using total_split [of m f k] total_nonneg [of f "m(k := None)"] by simp

end
