(* ===== verification/Nsim_Fib_Table.thy ===== *)
theory Nsim_Fib_Table
  imports Nsim_Fib_Work Map_Total
begin

text \<open>
  The routes of \<open>netdevsim/fib.c\<close> as one finite map from keys to routes: the table, the list and the memory are
  views of it, and every reference the driver holds is held by a route of the map or a queued event.
\<close>

section \<open>Table, list and memory\<close>

definition tab_routes ::
    "(nsim_fib_rt_key \<Rightarrow> nat option) \<Rightarrow> (nat \<Rightarrow> nsim_fib_rt option) \<Rightarrow> nsim_fib_rt_key \<Rightarrow> nsim_fib_rt option" where
  "tab_routes ht mem k = (case ht k of None \<Rightarrow> None | Some a \<Rightarrow> mem a)"

primrec rt_ok :: "nsim_fib_rt \<Rightarrow> bool" where
  "rt_ok (Rt4 r) = (k_family (f4_key r) = AF_INET)"
| "rt_ok (Rt6 r) = (k_family (f6_key r) = AF_INET6 \<and> f6_nhs r = length (f6_nh_list r) \<and> 0 \<notin> set (f6_nh_list r))"

definition wf_tab ::
    "(nat \<Rightarrow> nsim_fib_rt option) \<Rightarrow> nat \<Rightarrow> (nsim_fib_rt_key \<Rightarrow> nat option) \<Rightarrow> nat list \<Rightarrow> bool" where
  "wf_tab mem lim ht lst \<longleftrightarrow>
     distinct lst \<and> dom mem = set lst \<and> (\<forall>a \<in> set lst. a < lim)
     \<and> (\<forall>a r. mem a = Some r \<longrightarrow> rt_ok r \<and> ht (rt_key r) = Some a)
     \<and> (\<forall>k a. ht k = Some a \<longrightarrow> (\<exists>r. mem a = Some r \<and> rt_key r = k))"

lemma wf_tabI:
  assumes "distinct lst" and "dom mem = set lst" and "\<And>a. a \<in> set lst \<Longrightarrow> a < lim"
    and "\<And>a r. mem a = Some r \<Longrightarrow> rt_ok r" and "\<And>a r. mem a = Some r \<Longrightarrow> ht (rt_key r) = Some a"
    and "\<And>k a. ht k = Some a \<Longrightarrow> \<exists>r. mem a = Some r \<and> rt_key r = k"
  shows "wf_tab mem lim ht lst"
  using assms unfolding wf_tab_def by blast

lemma wf_tabD:
  assumes "wf_tab mem lim ht lst"
  shows "distinct lst" and "dom mem = set lst" and "a \<in> set lst \<Longrightarrow> a < lim" and "mem a = Some r \<Longrightarrow> rt_ok r"
    and "mem a = Some r \<Longrightarrow> ht (rt_key r) = Some a"
  using assms unfolding wf_tab_def by blast+

lemma wf_tab_fresh:
  assumes "wf_tab mem lim ht lst"
  shows "mem lim = None" and "lim \<notin> set lst"
proof -
  show "lim \<notin> set lst" using wf_tabD(3) [OF assms, of lim] by blast
  then show "mem lim = None" using wf_tabD(2) [OF assms] by blast
qed

lemma wf_tab_entry:
  assumes wf: "wf_tab mem lim ht lst" and ht: "ht k = Some a"
  obtains r where "mem a = Some r" and "rt_key r = k" and "rt_ok r" and "a \<in> set lst" and "a \<noteq> lim" and "tab_routes ht mem k = Some r"
proof -
  from wf ht obtain r where r: "mem a = Some r" "rt_key r = k" unfolding wf_tab_def by blast
  moreover have "a \<in> set lst" using r(1) wf_tabD(2) [OF wf] by blast
  moreover from this have "a \<noteq> lim" using wf_tab_fresh(2) [OF wf] by blast
  moreover have "tab_routes ht mem k = Some r" using ht r by (simp add: tab_routes_def)
  ultimately show thesis using that wf_tabD(4) [OF wf r(1)] by blast
qed

lemma wf_tab_only:
  assumes wf: "wf_tab mem lim ht lst" and "ht k = Some a" and "ht k' = Some a"
  shows "k' = k"
proof -
  obtain r where "mem a = Some r" "rt_key r = k" by (rule wf_tab_entry [OF assms(1,2)])
  moreover obtain r' where "mem a = Some r'" "rt_key r' = k'" by (rule wf_tab_entry [OF assms(1,3)])
  ultimately show ?thesis by simp
qed

lemma wf_tab_finite:
  assumes wf: "wf_tab mem lim ht lst"
  shows "finite (dom (tab_routes ht mem))"
proof -
  have "dom (tab_routes ht mem) \<subseteq> (\<lambda>a. rt_key (the (mem a))) ` set lst"
  proof
    fix k assume "k \<in> dom (tab_routes ht mem)"
    then obtain a where "ht k = Some a" by (auto simp: tab_routes_def split: option.splits)
    then obtain r where "mem a = Some r" "rt_key r = k" "a \<in> set lst" by (rule wf_tab_entry [OF wf])
    then show "k \<in> (\<lambda>a. rt_key (the (mem a))) ` set lst" by force
  qed
  then show ?thesis by (rule finite_subset) simp
qed

lemma tab_routes_None: "wf_tab mem lim ht lst \<Longrightarrow> tab_routes ht mem k = None \<longleftrightarrow> ht k = None"
  by (cases "ht k") (auto simp: tab_routes_def elim: wf_tab_entry)

lemma wf_tab_remove:
  assumes wf: "wf_tab mem lim ht lst" and old: "ht k = Some a"
  shows "wf_tab (mem(a := None)) lim (ht(k := None)) (remove1 a lst)"
    and "tab_routes (ht(k := None)) (mem(a := None)) = (tab_routes ht mem)(k := None)"
proof -
  note only = wf_tab_only [OF wf old]
  from wf_tab_entry [OF wf old] obtain r where r: "mem a = Some r" "rt_key r = k" by metis
  show "wf_tab (mem(a := None)) lim (ht(k := None)) (remove1 a lst)"
  proof (rule wf_tabI)
    show "distinct (remove1 a lst)" using wf_tabD(1) [OF wf] by simp
    show "dom (mem(a := None)) = set (remove1 a lst)" using wf_tabD(1,2) [OF wf] by simp
  next
    fix b assume "b \<in> set (remove1 a lst)"
    then show "b < lim" using wf_tabD(3) [OF wf] by (meson notin_set_remove1)
  next
    fix b s assume s: "(mem(a := None)) b = Some s"
    then have b: "b \<noteq> a" "mem b = Some s" by (auto split: if_splits)
    show "rt_ok s" using wf_tabD(4) [OF wf b(2)] .
    have "ht (rt_key s) = Some b" using wf_tabD(5) [OF wf b(2)] .
    moreover from this have "rt_key s \<noteq> k" using b(1) old by auto
    ultimately show "(ht(k := None)) (rt_key s) = Some b" by simp
  next
    fix k' b assume "(ht(k := None)) k' = Some b"
    then have "k' \<noteq> k" "ht k' = Some b" by (auto split: if_splits)
    moreover from this have "b \<noteq> a" using only by auto
    ultimately show "\<exists>r. (mem(a := None)) b = Some r \<and> rt_key r = k'" using wf_tab_entry [OF wf] by (metis fun_upd_other)
  qed
  show "tab_routes (ht(k := None)) (mem(a := None)) = (tab_routes ht mem)(k := None)"
    using only by (auto simp: tab_routes_def fun_eq_iff split: option.split)
qed

lemma wf_tab_insert:
  assumes wf: "wf_tab mem lim ht lst" and new: "ht (rt_key r) = None" "rt_ok r"
  shows "wf_tab (mem(lim \<mapsto> r)) (lim + 1) (ht(rt_key r \<mapsto> lim)) (lim # lst)"
    and "tab_routes (ht(rt_key r \<mapsto> lim)) (mem(lim \<mapsto> r)) = (tab_routes ht mem)(rt_key r \<mapsto> r)"
proof -
  note fresh = wf_tab_fresh [OF wf]
  have not_lim: "ht k \<noteq> Some lim" for k using wf_tab_entry [OF wf, of k lim] by blast
  show "wf_tab (mem(lim \<mapsto> r)) (lim + 1) (ht(rt_key r \<mapsto> lim)) (lim # lst)"
  proof (rule wf_tabI)
    show "distinct (lim # lst)" using wf_tabD(1) [OF wf] fresh by simp
    show "dom (mem(lim \<mapsto> r)) = set (lim # lst)" using wf_tabD(2) [OF wf] by simp
  next
    fix b assume "b \<in> set (lim # lst)"
    then show "b < lim + 1" using wf_tabD(3) [OF wf, of b] by auto
  next
    fix b s assume s: "(mem(lim \<mapsto> r)) b = Some s"
    show "rt_ok s" using s new(2) wf_tabD(4) [OF wf] by (auto split: if_splits)
    show "(ht(rt_key r \<mapsto> lim)) (rt_key s) = Some b"
      using s new(1) wf_tabD(5) [OF wf, of b s] by (cases "b = lim") auto
  next
    fix k b assume "(ht(rt_key r \<mapsto> lim)) k = Some b"
    then consider "k = rt_key r" "b = lim" | "k \<noteq> rt_key r" "ht k = Some b" by (auto split: if_splits)
    then show "\<exists>s. (mem(lim \<mapsto> r)) b = Some s \<and> rt_key s = k"
    proof cases
      case 2
      with not_lim have "b \<noteq> lim" by auto
      with wf_tab_entry [OF wf 2(2)] show ?thesis by (metis fun_upd_other)
    qed simp
  qed
  show "tab_routes (ht(rt_key r \<mapsto> lim)) (mem(lim \<mapsto> r)) = (tab_routes ht mem)(rt_key r \<mapsto> r)"
    using not_lim by (auto simp: tab_routes_def fun_eq_iff split: option.split)
qed

lemma wf_tab_replace:
  assumes wf: "wf_tab mem lim ht lst" and old: "ht (rt_key r) = Some a" and new: "rt_ok r"
  shows "wf_tab (mem(lim \<mapsto> r, a := None)) (lim + 1) (ht(rt_key r \<mapsto> lim)) (lim # remove1 a lst)"
    and "tab_routes (ht(rt_key r \<mapsto> lim)) (mem(lim \<mapsto> r, a := None)) = (tab_routes ht mem)(rt_key r \<mapsto> r)"
proof -
  note wf' = wf_tab_remove [OF wf old]
  note wf'' = wf_tab_insert [OF wf'(1), of r]
  have a: "a \<noteq> lim" using wf_tab_entry [OF wf old] by metis
  then have "mem(lim \<mapsto> r, a := None) = mem(a := None, lim \<mapsto> r)" by (simp add: fun_upd_twist)
  with wf'' wf'(2) new
  show "wf_tab (mem(lim \<mapsto> r, a := None)) (lim + 1) (ht(rt_key r \<mapsto> lim)) (lim # remove1 a lst)"
    and "tab_routes (ht(rt_key r \<mapsto> lim)) (mem(lim \<mapsto> r, a := None)) = (tab_routes ht mem)(rt_key r \<mapsto> r)"
    by simp_all
qed

lemma wf_tab_modify:
  assumes wf: "wf_tab mem lim ht lst" and old: "ht (rt_key r) = Some a" and new: "rt_ok r"
  shows "wf_tab (mem(a \<mapsto> r)) lim ht lst" and "tab_routes ht (mem(a \<mapsto> r)) = (tab_routes ht mem)(rt_key r \<mapsto> r)"
proof -
  note only = wf_tab_only [OF wf old]
  from wf_tab_entry [OF wf old] have a: "a \<in> set lst" by metis
  show "wf_tab (mem(a \<mapsto> r)) lim ht lst"
  proof (rule wf_tabI)
    show "dom (mem(a \<mapsto> r)) = set lst" using wf_tabD(2) [OF wf] a by auto
  next
    fix b s assume s: "(mem(a \<mapsto> r)) b = Some s"
    show "rt_ok s" using s new wf_tabD(4) [OF wf] by (auto split: if_splits)
    show "ht (rt_key s) = Some b" using s old wf_tabD(5) [OF wf, of b s] by (auto split: if_splits)
  next
    fix k b assume k: "ht k = Some b"
    show "\<exists>s. (mem(a \<mapsto> r)) b = Some s \<and> rt_key s = k"
    proof (cases "b = a")
      case True
      with k only show ?thesis by simp
    next
      case False
      with wf_tab_entry [OF wf k] show ?thesis by (metis fun_upd_other)
    qed
  qed (fact wf_tabD(1) [OF wf], fact wf_tabD(3) [OF wf])
  show "tab_routes ht (mem(a \<mapsto> r)) = (tab_routes ht mem)(rt_key r \<mapsto> r)"
  proof
    fix k
    have "ht k \<noteq> Some a" if "k \<noteq> rt_key r" using only that by blast
    then show "tab_routes ht (mem(a \<mapsto> r)) k = ((tab_routes ht mem)(rt_key r \<mapsto> r)) k"
      using old by (auto simp: tab_routes_def split: option.split)
  qed
qed

lemma wf_tab_skip: "wf_tab mem lim ht lst \<Longrightarrow> wf_tab mem (lim + 1) ht lst"
  using less_Suc_eq unfolding wf_tab_def by auto

end
