(* ===== verification/Nsim_Fib_Ops.thy ===== *)
theory Nsim_Fib_Ops
  imports Nsim_Fib_Table
begin

text \<open>
  What the handling of one event does to the map of routes, to the accounting and to the references.
\<close>

section \<open>The state as a map of routes\<close>

definition routes :: "nsim_fib_data \<Rightarrow> nsim_fib_rt_key \<Rightarrow> nsim_fib_rt option" where
  "routes d = tab_routes (fib_rt_ht d) (rt_mem d)"

definition wf_fib :: "nsim_fib_data \<Rightarrow> bool" where
  "wf_fib d \<longleftrightarrow> wf_tab (rt_mem d) (rt_lim d) (fib_rt_ht d) (fib_rt_list d) \<and> \<not> fib_fault d \<and> \<not> fib_warned d"

definition cnt :: "nat list \<Rightarrow> nat \<Rightarrow> int" where
  "cnt xs i = int (count_list xs i)"

definition refs4 :: "nat \<Rightarrow> nsim_fib_rt \<Rightarrow> int" where
  "refs4 i r = (case r of Rt4 r \<Rightarrow> if f4_fi r = i then 1 else 0 | Rt6 _ \<Rightarrow> 0)"

definition refs6 :: "nat \<Rightarrow> nsim_fib_rt \<Rightarrow> int" where
  "refs6 i r = (case r of Rt4 _ \<Rightarrow> 0 | Rt6 r \<Rightarrow> cnt (f6_nh_list r) i)"

text \<open>The references that no route of the table holds.\<close>

definition bal4 :: "nsim_fib_data \<Rightarrow> nat \<Rightarrow> int" where
  "bal4 d i = fi_refs d i - total (refs4 i) (routes d)"

definition bal6 :: "nsim_fib_data \<Rightarrow> nat \<Rightarrow> int" where
  "bal6 d i = rt6_refs d i - total (refs6 i) (routes d)"

text \<open>What the handling of an event leaves alone.\<close>

definition frame where
  "frame d = ((fib_event_queue d, fib_event_work d, fib_flush_work d, rt6_info d),
     (fail_route_offload d, fail_route_delete d, fail_res_nexthop_group_replace d, fail_nexthop_bucket_replace d),
     (nexthops d, nexthop_ht d, pf_rules (ipv4 d), pf_rules (ipv6 d), fe_max (pf_fib (ipv4 d)), fe_max (pf_fib (ipv6 d))))"

definition kept :: "nsim_fib_data \<Rightarrow> nsim_fib_data \<Rightarrow> bool" where
  "kept d d' \<longleftrightarrow> wf_fib d' \<and> bal4 d' = bal4 d \<and> bal6 d' = bal6 d \<and> frame d' = frame d"

lemma kept_refl: "wf_fib d \<Longrightarrow> kept d d" by (simp add: kept_def)

lemma kept_trans: "kept d d' \<Longrightarrow> kept d' d'' \<Longrightarrow> kept d d''" by (simp add: kept_def)

lemma keptD: "kept d d' \<Longrightarrow> wf_fib d'" by (simp add: kept_def)

lemma routes_finite: "wf_fib d \<Longrightarrow> finite (dom (routes d))"
  unfolding wf_fib_def routes_def by (blast intro: wf_tab_finite)

lemma routes_None: "wf_fib d \<Longrightarrow> routes d k = None \<longleftrightarrow> fib_rt_ht d k = None"
  unfolding wf_fib_def routes_def using tab_routes_None by blast

lemma refs_simps [simp]:
  "refs4 i (Rt6 r6) = 0" "refs6 i (Rt4 r4) = 0" "refs6 i (Rt6 r6) = cnt (f6_nh_list r6) i"
  "refs4 i (Rt4 r4) = (if f4_fi r4 = i then 1 else 0)"
  by (simp_all add: refs4_def refs6_def)

lemma cnt_simps [simp]: "cnt [] i = 0" "cnt (x # xs) i = cnt xs i + (if x = i then 1 else 0)" "cnt (xs @ ys) i = cnt xs i + cnt ys i"
  by (simp_all add: cnt_def)

text \<open>Changing one entry of the map and the counters by what the entry holds keeps the balance.\<close>

lemma kept_upd:
  assumes wf: "wf_fib d" and wf': "wf_fib d'" and R: "routes d' = (routes d)(k := x)" and fr: "frame d' = frame d"
    and r4: "\<And>i. fi_refs d' i = fi_refs d i - weight (refs4 i) (routes d k) + weight (refs4 i) x"
    and r6: "\<And>i. rt6_refs d' i = rt6_refs d i - weight (refs6 i) (routes d k) + weight (refs6 i) x"
  shows "kept d d'"
proof -
  have tot: "total f ((routes d)(k := x)) = total f (routes d) - weight f (routes d k) + weight f x" for f :: "nsim_fib_rt \<Rightarrow> int"
    using total_upd [OF routes_finite [OF wf], of f k] total_del [OF routes_finite [OF wf], of f k] by (cases x) simp_all
  show ?thesis using wf' fr r4 r6 by (simp add: kept_def bal4_def bal6_def R tot fun_eq_iff)
qed

lemma kept_same:
  "wf_fib d' \<Longrightarrow> routes d' = routes d \<Longrightarrow> frame d' = frame d \<Longrightarrow> fi_refs d' = fi_refs d \<Longrightarrow> rt6_refs d' = rt6_refs d \<Longrightarrow> kept d d'"
  by (simp add: kept_def bal4_def [abs_def] bal6_def [abs_def])

lemma dec_max [simp]: "fe_max (dec_if_positive e) = fe_max e"
  by (simp add: dec_if_positive_def)

lemma account_False [simp]: "nsim_fib_account False e = (None, dec_if_positive e)"
  by (simp add: nsim_fib_account_def)

lemma account4_False: "account4 False d = (None, upd_fib4 dec_if_positive d)"
  by (simp add: account4_def upd_fib4_def)

lemma account6_False: "account6 False d = (None, upd_fib6 dec_if_positive d)"
  by (simp add: account6_def upd_fib6_def)

section \<open>IPv4\<close>

definition key4 :: "fen_info \<Rightarrow> nsim_fib_rt_key" where
  "key4 fen = make_key (bytes_of_u32 (fen_dst fen)) (ucast (fen_dst_len fen)) AF_INET (fen_tb_id fen)"

definition rec4 :: "fen_info \<Rightarrow> nsim_fib4_rt" where
  "rec4 fen = \<lparr>f4_key = key4 fen, f4_fi = fen_fi fen, f4_dscp = fen_dscp fen, f4_type = fen_type fen\<rparr>"

abbreviation route4 :: "fen_info \<Rightarrow> nsim_fib_rt" where
  "route4 fen \<equiv> Rt4 (rec4 fen)"

abbreviation trapped :: "bool \<Rightarrow> hw_flags" where
  "trapped t \<equiv> \<lparr>offload = False, trap = t, offload_failed = False\<rparr>"

lemma rec4_simps [simp]: "f4_key (rec4 fen) = key4 fen" "f4_fi (rec4 fen) = fen_fi fen" "k_family (key4 fen) = AF_INET"
  by (simp_all add: rec4_def key4_def make_key_def)

lemma route4_ok: "rt_ok (route4 fen)"
  by simp

lemma lookup4: "nsim_fib4_rt_lookup fen d = fib_rt_ht d (key4 fen)"
  by (simp add: nsim_fib4_rt_lookup_def nsim_fib_rt_lookup_def key4_def)

lemma create4:
  "nsim_fib4_rt_create True fen d = (Some (rt_lim d),
     d\<lparr>rt_mem := (rt_mem d)(rt_lim d \<mapsto> route4 fen), rt_lim := rt_lim d + 1, fib_rt_list := rt_lim d # fib_rt_list d,
       fi_refs := (fi_refs d)(fen_fi fen := fi_refs d (fen_fi fen) + 1)\<rparr>)"
  by (simp add: nsim_fib4_rt_create_def new_object_def nsim_fib_rt_init_def fib_info_hold_def Let_def rec4_def key4_def)

text \<open>The object of a route under an IPv4 key.\<close>

lemma entry4:
  assumes "wf_fib d" and "fib_rt_ht d (key4 fen) = Some a"
  obtains r where "rt_mem d a = Some (Rt4 r)" and "f4_key r = key4 fen" and "routes d (key4 fen) = Some (Rt4 r)"
    and "a \<noteq> rt_lim d"
proof -
  have wf: "wf_tab (rt_mem d) (rt_lim d) (fib_rt_ht d) (fib_rt_list d)" using assms(1) by (simp add: wf_fib_def)
  obtain r where r: "rt_mem d a = Some r" "rt_key r = key4 fen" "rt_ok r" "a \<noteq> rt_lim d" "routes d (key4 fen) = Some r"
    unfolding routes_def by (rule wf_tab_entry [OF wf assms(2)])
  then obtain r4 where "r = Rt4 r4" by (cases r) (auto simp: arg_cong [where f = k_family])
  with r that show thesis by simp
qed

lemma insert4_add:
  assumes wf: "wf_fib d" and ok: "\<not> fail_route_offload d" "e_alloc env" and new: "routes d (key4 fen) = None"
    and ins: "nsim_fib4_rt_insert env fen d = (err, d')"
  shows "err = e_ht env" and "kept d d'" and "routes d' = (if err = None then (routes d)(key4 fen \<mapsto> route4 fen) else routes d)"
    and "pf_fib (ipv4 d') = (if err = None then pf_fib (ipv4 d) else dec_if_positive (pf_fib (ipv4 d)))" and "ipv6 d' = ipv6 d"
proof -
  have ht: "fib_rt_ht d (key4 fen) = None" using routes_None [OF wf] new by simp
  have tab: "wf_tab (rt_mem d) (rt_lim d) (fib_rt_ht d) (fib_rt_list d)" using wf by (simp add: wf_fib_def)
  note fresh = wf_tab_fresh [OF tab]
  note tab' = wf_tab_insert [OF tab, of "route4 fen", unfolded rt_key.simps rec4_simps(1), OF ht route4_ok]
  have "err = e_ht env \<and> kept d d' \<and> routes d' = (if err = None then (routes d)(key4 fen \<mapsto> route4 fen) else routes d)
    \<and> pf_fib (ipv4 d') = (if err = None then pf_fib (ipv4 d) else dec_if_positive (pf_fib (ipv4 d))) \<and> ipv6 d' = ipv6 d"
  proof (cases "e_ht env")
    case None
    have d': "err = None" "d' = d\<lparr>rt_mem := (rt_mem d)(rt_lim d \<mapsto> route4 fen), rt_lim := rt_lim d + 1,
        fib_rt_list := rt_lim d # fib_rt_list d, fi_refs := (fi_refs d)(fen_fi fen := fi_refs d (fen_fi fen) + 1),
        fib_rt_ht := (fib_rt_ht d)(key4 fen \<mapsto> rt_lim d), flags4 := (flags4 d)(fri_of_rt (rec4 fen) := trapped True)\<rparr>"
      using ins by (simp_all add: nsim_fib4_rt_insert_def ok create4 lookup4 ht nsim_fib4_rt_add_def rt4_def None
          nsim_fib4_rt_hw_flags_set_def fib_alias_hw_flags_set_def)
    have R: "routes d' = (routes d)(key4 fen \<mapsto> route4 fen)" using tab'(2) by (simp add: routes_def d')
    have "kept d d'"
      by (rule kept_upd [OF wf _ R]) (use wf tab'(1) in \<open>simp_all add: d' wf_fib_def frame_def new\<close>)
    with R d' None show ?thesis by simp
  next
    case (Some e)
    have "(rt_mem d)(rt_lim d := None) = rt_mem d" using fresh(1) by (simp add: fun_eq_iff)
    then have d': "err = Some e" "d' = d\<lparr>rt_lim := rt_lim d + 1, ipv4 := (ipv4 d)\<lparr>pf_fib := dec_if_positive (pf_fib (ipv4 d))\<rparr>\<rparr>"
      using ins by (simp_all add: nsim_fib4_rt_insert_def ok create4 lookup4 ht nsim_fib4_rt_add_def rt4_def Some
          nsim_fib4_rt_destroy_def account4_False upd_fib4_def fib_info_put_def nsim_fib_rt_fini_def kfree_rt_def)
    have R: "routes d' = routes d" by (simp add: routes_def d')
    have "wf_fib d'" using wf wf_tab_skip [OF tab] by (simp add: wf_fib_def d')
    then have "kept d d'" by (rule kept_same [OF _ R]) (simp_all add: d' frame_def)
    with R show ?thesis by (simp add: d' Some)
  qed
  then show "err = e_ht env" "kept d d'" "routes d' = (if err = None then (routes d)(key4 fen \<mapsto> route4 fen) else routes d)"
    "pf_fib (ipv4 d') = (if err = None then pf_fib (ipv4 d) else dec_if_positive (pf_fib (ipv4 d)))" "ipv6 d' = ipv6 d"
    by blast+
qed

lemma insert4_replace:
  assumes wf: "wf_fib d" and ok: "\<not> fail_route_offload d" "e_alloc env" and old: "routes d (key4 fen) = Some ro"
    and ins: "nsim_fib4_rt_insert env fen d = (err, d')"
  shows "err = None" and "kept d d'" and "routes d' = (routes d)(key4 fen \<mapsto> route4 fen)"
    and "pf_fib (ipv4 d') = dec_if_positive (pf_fib (ipv4 d))" and "ipv6 d' = ipv6 d"
proof -
  obtain a where ht: "fib_rt_ht d (key4 fen) = Some a" using routes_None [OF wf] old by (metis not_None_eq option.distinct(1))
  obtain r where r: "rt_mem d a = Some (Rt4 r)" "f4_key r = key4 fen" "routes d (key4 fen) = Some (Rt4 r)" "a \<noteq> rt_lim d"
    by (rule entry4 [OF wf ht])
  have tab: "wf_tab (rt_mem d) (rt_lim d) (fib_rt_ht d) (fib_rt_list d)" using wf by (simp add: wf_fib_def)
  note tab' = wf_tab_replace [OF tab, of "route4 fen", unfolded rt_key.simps rec4_simps(1), OF ht route4_ok]
  have d': "err = None" "d' = d\<lparr>rt_mem := (rt_mem d)(rt_lim d \<mapsto> route4 fen, a := None), rt_lim := rt_lim d + 1,
      fib_rt_list := rt_lim d # remove1 a (fib_rt_list d),
      fi_refs := (fi_refs d)(fen_fi fen := fi_refs d (fen_fi fen) + 1,
        f4_fi r := (if f4_fi r = fen_fi fen then fi_refs d (fen_fi fen) + 1 else fi_refs d (f4_fi r)) - 1),
      fib_rt_ht := (fib_rt_ht d)(key4 fen \<mapsto> rt_lim d),
      flags4 := (flags4 d)(fri_of_rt (rec4 fen) := trapped True, fri_of_rt r := trapped False),
      ipv4 := (ipv4 d)\<lparr>pf_fib := dec_if_positive (pf_fib (ipv4 d))\<rparr>\<rparr>"
    using ins r(1) r(4) by (auto simp: nsim_fib4_rt_insert_def ok create4 lookup4 ht nsim_fib4_rt_replace_def account4_False
        upd_fib4_def rt4_def ht_replace_def nsim_fib4_rt_hw_flags_set_def fib_alias_hw_flags_set_def nsim_fib4_rt_destroy_def
        fib_info_put_def nsim_fib_rt_fini_def kfree_rt_def split del: if_split)
  show R: "routes d' = (routes d)(key4 fen \<mapsto> route4 fen)" using tab'(2) by (simp add: routes_def d')
  show "kept d d'"
    by (rule kept_upd [OF wf _ R]) (use wf tab'(1) r(3) in \<open>simp_all add: d' wf_fib_def frame_def\<close>)
  show "err = None" "pf_fib (ipv4 d') = dec_if_positive (pf_fib (ipv4 d))" "ipv6 d' = ipv6 d" by (simp_all add: d')
qed

text \<open>An insertion fails where the kernel or the tester says so, and then leaves the table alone.\<close>

definition ins_ok :: "fib_env \<Rightarrow> nsim_fib_data \<Rightarrow> bool \<Rightarrow> bool" where
  "ins_ok env d new \<longleftrightarrow> \<not> fail_route_offload d \<and> e_alloc env \<and> (new \<longrightarrow> e_ht env = None)"

lemma insert4:
  assumes wf: "wf_fib d" and ins: "nsim_fib4_rt_insert env fen d = (err, d')"
  shows "kept d d'" and "err = None \<longleftrightarrow> ins_ok env d (routes d (key4 fen) = None)"
    and "routes d' = (if err = None then (routes d)(key4 fen \<mapsto> route4 fen) else routes d)"
    and "pf_fib (ipv4 d') = (if fail_route_offload d \<or> \<not> e_alloc env \<or> err = None \<and> routes d (key4 fen) = None then pf_fib (ipv4 d)
           else dec_if_positive (pf_fib (ipv4 d)))"
    and "ipv6 d' = ipv6 d"
proof -
  consider "fail_route_offload d" | "\<not> fail_route_offload d" "\<not> e_alloc env"
    | "\<not> fail_route_offload d" "e_alloc env" "routes d (key4 fen) = None"
    | ro where "\<not> fail_route_offload d" "e_alloc env" "routes d (key4 fen) = Some ro" by fastforce
  then have "kept d d' \<and> (err = None \<longleftrightarrow> ins_ok env d (routes d (key4 fen) = None))
    \<and> routes d' = (if err = None then (routes d)(key4 fen \<mapsto> route4 fen) else routes d)
    \<and> pf_fib (ipv4 d') = (if fail_route_offload d \<or> \<not> e_alloc env \<or> err = None \<and> routes d (key4 fen) = None then pf_fib (ipv4 d)
           else dec_if_positive (pf_fib (ipv4 d))) \<and> ipv6 d' = ipv6 d"
  proof cases
    case 3
    note insert4_add [OF wf 3 ins]
    with 3 show ?thesis by (auto simp: ins_ok_def)
  next
    case 4
    note insert4_replace [OF wf 4 ins]
    with 4 show ?thesis by (auto simp: ins_ok_def)
  qed (use ins kept_refl [OF wf] in \<open>auto simp: nsim_fib4_rt_insert_def nsim_fib4_rt_create_def ins_ok_def\<close>)
  then show "kept d d'" "err = None \<longleftrightarrow> ins_ok env d (routes d (key4 fen) = None)"
    "routes d' = (if err = None then (routes d)(key4 fen \<mapsto> route4 fen) else routes d)"
    "pf_fib (ipv4 d') = (if fail_route_offload d \<or> \<not> e_alloc env \<or> err = None \<and> routes d (key4 fen) = None then pf_fib (ipv4 d)
           else dec_if_positive (pf_fib (ipv4 d)))" "ipv6 d' = ipv6 d"
    by blast+
qed

text \<open>Destroying the object under a key takes the entry away.\<close>

lemma destroy4:
  assumes wf: "wf_fib d" and ht: "fib_rt_ht d (f4_key r) = Some a" and r: "rt_mem d a = Some (Rt4 r)"
  shows "kept d (nsim_fib4_rt_destroy a (ht_remove (f4_key r) a d))"
    and "routes (nsim_fib4_rt_destroy a (ht_remove (f4_key r) a d)) = (routes d)(f4_key r := None)"
    and "ipv4 (nsim_fib4_rt_destroy a (ht_remove (f4_key r) a d)) = ipv4 d"
    and "ipv6 (nsim_fib4_rt_destroy a (ht_remove (f4_key r) a d)) = ipv6 d"
    and "fib_rt_list (nsim_fib4_rt_destroy a (ht_remove (f4_key r) a d)) = remove1 a (fib_rt_list d)"
proof -
  let ?d = "nsim_fib4_rt_destroy a (ht_remove (f4_key r) a d)"
  have tab: "wf_tab (rt_mem d) (rt_lim d) (fib_rt_ht d) (fib_rt_list d)" using wf by (simp add: wf_fib_def)
  note tab' = wf_tab_remove [OF tab ht]
  have d': "?d = d\<lparr>rt_mem := (rt_mem d)(a := None), fib_rt_list := remove1 a (fib_rt_list d), fib_rt_ht := (fib_rt_ht d)(f4_key r := None),
      fi_refs := (fi_refs d)(f4_fi r := fi_refs d (f4_fi r) - 1)\<rparr>"
    using r ht by (simp add: nsim_fib4_rt_destroy_def ht_remove_def rt4_def kfree_rt_def nsim_fib_rt_fini_def fib_info_put_def)
  have old: "routes d (f4_key r) = Some (Rt4 r)" using ht r by (simp add: routes_def tab_routes_def)
  show R: "routes ?d = (routes d)(f4_key r := None)" using tab'(2) by (simp add: routes_def d')
  show "kept d ?d"
    by (rule kept_upd [OF wf _ R]) (use wf tab'(1) old in \<open>simp_all add: d' wf_fib_def frame_def\<close>)
  show "ipv4 ?d = ipv4 d" "ipv6 ?d = ipv6 d" "fib_rt_list ?d = remove1 a (fib_rt_list d)" by (simp_all add: d')
qed

lemma remove4:
  assumes wf: "wf_fib d"
  shows "kept d (nsim_fib4_rt_remove fen d)" and "routes (nsim_fib4_rt_remove fen d) = (routes d)(key4 fen := None)"
    and "ipv4 (nsim_fib4_rt_remove fen d) = ipv4 d" and "ipv6 (nsim_fib4_rt_remove fen d) = ipv6 d"
proof -
  let ?d = "nsim_fib4_rt_remove fen d"
  have "kept d ?d \<and> routes ?d = (routes d)(key4 fen := None) \<and> ipv4 ?d = ipv4 d \<and> ipv6 ?d = ipv6 d"
  proof (cases "fib_rt_ht d (key4 fen)")
    case None
    then have "routes d (key4 fen) = None" using routes_None [OF wf] by simp
    then show ?thesis using None kept_refl [OF wf] by (simp add: nsim_fib4_rt_remove_def lookup4 fun_upd_idem)
  next
    case (Some a)
    obtain r where r: "rt_mem d a = Some (Rt4 r)" "f4_key r = key4 fen" by (rule entry4 [OF wf Some])
    then have "?d = nsim_fib4_rt_destroy a (ht_remove (f4_key r) a d)"
      by (simp add: nsim_fib4_rt_remove_def lookup4 Some rt4_def)
    with destroy4 [OF wf _ r(1)] r(2) Some show ?thesis by simp
  qed
  then show "kept d ?d" "routes ?d = (routes d)(key4 fen := None)" "ipv4 ?d = ipv4 d" "ipv6 ?d = ipv6 d" by blast+
qed

end
