(* ===== verification/Nsim_Fib_Ops6.thy ===== *)
theory Nsim_Fib_Ops6
  imports Nsim_Fib_Ops "HOL-Library.Multiset"
begin

text \<open>
  The same for IPv6, where a route is a list of nexthops that is extended and reduced in place.
\<close>

section \<open>The list of nexthops\<close>

definition set_nh :: "nat \<Rightarrow> nsim_fib6_rt \<Rightarrow> nat list \<Rightarrow> nsim_fib_data \<Rightarrow> nsim_fib_data" where
  "set_nh a r L d = d\<lparr>rt_mem := (rt_mem d)(a \<mapsto> Rt6 (r\<lparr>f6_nh_list := L, f6_nhs := length L\<rparr>)),
     rt6_refs := (\<lambda>i. rt6_refs d i + cnt L i - cnt (f6_nh_list r) i)\<rparr>"

definition rt6_at :: "nsim_fib_data \<Rightarrow> nat \<Rightarrow> nsim_fib6_rt \<Rightarrow> bool" where
  "rt6_at d a r \<longleftrightarrow> rt_mem d a = Some (Rt6 r) \<and> f6_nhs r = length (f6_nh_list r) \<and> 0 \<notin> set (f6_nh_list r)"

lemma rt6_at_rt6: "rt6_at d a r \<Longrightarrow> rt6 d a = Some r"
  by (simp add: rt6_at_def rt6_def)

lemma rt6_at_flags [simp]: "rt6_at (d\<lparr>flags6 := f\<rparr>) a r = rt6_at d a r"
  by (simp add: rt6_at_def)

lemma rt6_at_set_nh: "0 \<notin> set L \<Longrightarrow> rt6_at (set_nh a r L d) a (r\<lparr>f6_nh_list := L, f6_nhs := length L\<rparr>)"
  by (simp add: rt6_at_def set_nh_def)

lemma set_nh_set_nh [simp]: "set_nh a (r\<lparr>f6_nh_list := L, f6_nhs := n\<rparr>) L' (set_nh a r L d) = set_nh a r L' d"
  by (simp add: set_nh_def algebra_simps)

lemma set_nh_flags [simp]: "set_nh a r L (d\<lparr>flags6 := f\<rparr>) = (set_nh a r L d)\<lparr>flags6 := f\<rparr>" "flags6 (set_nh a r L d) = flags6 d"
  by (simp_all add: set_nh_def)

lemma set_nh_same: "rt6_at d a r \<Longrightarrow> set_nh a r (f6_nh_list r) d = d"
proof -
  assume at: "rt6_at d a r"
  then have "r\<lparr>f6_nhs := length (f6_nh_list r)\<rparr> = r" by (cases r) (simp add: rt6_at_def)
  with at show ?thesis by (simp add: set_nh_def rt6_at_def fun_upd_idem)
qed

lemma cnt_remove1: "x \<in> set xs \<Longrightarrow> cnt (remove1 x xs) i = cnt xs i - (if x = i then 1 else 0)"
  by (induction xs) auto

lemma nh_add: "rt6_at d a r \<Longrightarrow> rt \<noteq> 0 \<Longrightarrow> nsim_fib6_rt_nh_add True a rt d = (None, set_nh a r (f6_nh_list r @ [rt]) d)"
  by (auto simp: nsim_fib6_rt_nh_add_def rt6_at_rt6 rt6_at_def rt6_def fib6_info_hold_def set_nh_def fun_eq_iff)

lemma nh_del: "rt6_at d a r \<Longrightarrow> nsim_fib6_rt_nh_del a rt d = set_nh a r (remove1 rt (f6_nh_list r)) d"
proof (cases "rt \<in> set (f6_nh_list r)")
  case True
  moreover assume at: "rt6_at d a r"
  ultimately have "rt \<noteq> 0" unfolding rt6_at_def by metis
  with True at show ?thesis
    by (auto simp: nsim_fib6_rt_nh_del_def rt6_at_rt6 nsim_fib6_rt_nh_find_def nsim_rt6_release_def set_nh_def cnt_remove1
        length_remove1 rt6_at_def rt6_def fun_eq_iff)
next
  case False
  assume "rt6_at d a r"
  with False set_nh_same [OF this] show ?thesis
    by (simp add: nsim_fib6_rt_nh_del_def rt6_at_rt6 nsim_fib6_rt_nh_find_def remove1_idem)
qed

text \<open>How many nexthops there is memory for.\<close>

fun ok_prefix :: "(nat \<Rightarrow> bool) \<Rightarrow> nat \<Rightarrow> 'a list \<Rightarrow> nat" where
  "ok_prefix mem i [] = 0"
| "ok_prefix mem i (x # xs) = (if mem i then Suc (ok_prefix mem (i + 1) xs) else 0)"

lemma ok_prefix_le: "ok_prefix mem i xs \<le> length xs"
  by (induction xs arbitrary: i) auto

lemma nh_add_loop_spec:
  assumes "rt6_at d a r" and "0 \<notin> set arr" and mark: "\<And>rt d. mark rt d = d\<lparr>flags6 := g rt (flags6 d)\<rparr>"
  shows "nh_add_loop mem mark a i arr d =
    (let n = ok_prefix mem i arr
     in ((i + n, if n = length arr then None else Some ENOMEM),
         (set_nh a r (f6_nh_list r @ take n arr) d)\<lparr>flags6 := fold g (take n arr) (flags6 d)\<rparr>))"
  using assms(1,2)
proof (induction arr arbitrary: i d r)
  case Nil
  then show ?case by (simp add: set_nh_same)
next
  case (Cons rt arr)
  show ?case
  proof (cases "mem i")
    case True
    let ?r = "r\<lparr>f6_nh_list := f6_nh_list r @ [rt], f6_nhs := length (f6_nh_list r @ [rt])\<rparr>"
    let ?d = "(set_nh a r (f6_nh_list r @ [rt]) d)\<lparr>flags6 := g rt (flags6 d)\<rparr>"
    have "rt6_at ?d a ?r" unfolding rt6_at_flags by (rule rt6_at_set_nh) (use Cons.prems in \<open>auto simp: rt6_at_def\<close>)
    from Cons.IH [OF this, of "i + 1"] Cons.prems True nh_add [OF Cons.prems(1), of rt] show ?thesis
      by (simp add: mark Let_def del: length_append)
  next
    case False
    with Cons.prems show ?thesis by (simp add: nsim_fib6_rt_nh_add_def set_nh_same)
  qed
qed

lemma fold_nh_del:
  assumes "rt6_at d a r" and mark: "\<And>rt d. mark rt d = d\<lparr>flags6 := g rt (flags6 d)\<rparr>"
  shows "fold (\<lambda>rt d. nsim_fib6_rt_nh_del a rt (mark rt d)) xs d =
    (set_nh a r (fold remove1 xs (f6_nh_list r)) d)\<lparr>flags6 := fold g xs (flags6 d)\<rparr>"
  using assms(1)
proof (induction xs arbitrary: d r)
  case Nil
  then show ?case by (simp add: set_nh_same)
next
  case (Cons rt xs)
  let ?L = "remove1 rt (f6_nh_list r)"
  let ?d = "(set_nh a r ?L d)\<lparr>flags6 := g rt (flags6 d)\<rparr>"
  have "0 \<notin> set ?L" using Cons.prems by (meson notin_set_remove1 rt6_at_def)
  then have "rt6_at ?d a (r\<lparr>f6_nh_list := ?L, f6_nhs := length ?L\<rparr>)" unfolding rt6_at_flags by (rule rt6_at_set_nh)
  from Cons.IH [OF this] nh_del [of "d\<lparr>flags6 := g rt (flags6 d)\<rparr>" a r rt] Cons.prems show ?case by (simp add: mark)
qed

lemma fold_same: "fold (\<lambda>_ f. f) xs f = f"
  by (induction xs) auto

lemma fold_nh_del_plain:
  "rt6_at d a r \<Longrightarrow> fold (nsim_fib6_rt_nh_del a) xs d = set_nh a r (fold remove1 xs (f6_nh_list r)) d"
  using fold_nh_del [of d a r "\<lambda>_ d. d" "\<lambda>_ f. f" xs] by (simp add: set_nh_def fold_same)

section \<open>Creation and destruction\<close>

definition key6 :: "nsim_fib_data \<Rightarrow> nat \<Rightarrow> nsim_fib_rt_key" where
  "key6 d rt = (let i6 = rt6_info d rt in make_key (i6_addr i6) (i6_plen i6) AF_INET6 (i6_tb_id i6))"

definition rec6 :: "nsim_fib_rt_key \<Rightarrow> nat list \<Rightarrow> nsim_fib6_rt" where
  "rec6 k arr = \<lparr>f6_key = k, f6_nh_list = arr, f6_nhs = length arr\<rparr>"

abbreviation route6 :: "nsim_fib_rt_key \<Rightarrow> nat list \<Rightarrow> nsim_fib_rt" where
  "route6 k arr \<equiv> Rt6 (rec6 k arr)"

lemma rec6_simps [simp]: "f6_key (rec6 k arr) = k" "f6_nh_list (rec6 k arr) = arr" "f6_nhs (rec6 k arr) = length arr"
  by (simp_all add: rec6_def)

lemma key6_family [simp]: "k_family (key6 d rt) = AF_INET6"
  by (simp add: key6_def make_key_def Let_def)

lemma lookup6: "nsim_fib6_rt_lookup rt d = fib_rt_ht d (key6 d rt)"
  by (simp add: nsim_fib6_rt_lookup_def nsim_fib_rt_lookup_def key6_def Let_def)

lemma fold_hw_flags: "fold (fib6_info_hw_flags_set f) xs d = d\<lparr>flags6 := fold (\<lambda>rt F. F(rt := f)) xs (flags6 d)\<rparr>"
  by (induction xs arbitrary: d) (simp_all add: fib6_info_hw_flags_set_def)

lemma mset_fold_remove1: "mset (fold remove1 xs L) = mset L - mset xs"
  by (induction xs arbitrary: L) auto

lemma set_fold_remove1: "set (fold remove1 xs L) \<subseteq> set L"
proof (induction xs arbitrary: L)
  case (Cons x xs)
  from Cons [of "remove1 x L"] set_remove1_subset [of x L] show ?case by simp
qed simp

lemma remove_rev: "fold remove1 (rev xs) xs = []" "fold remove1 xs xs = []"
  using mset_fold_remove1 [of "rev xs" xs] mset_fold_remove1 [of xs xs] by simp_all

lemma create6:
  assumes "e_alloc env" and "0 \<notin> set arr" and "rt_mem d (rt_lim d) = None"
  shows "nsim_fib6_rt_create env arr d =
    (if ok_prefix (e_nh env) 0 arr = length arr
     then (Inr (rt_lim d), d\<lparr>rt_mem := (rt_mem d)(rt_lim d \<mapsto> route6 (key6 d (arr ! 0)) arr), rt_lim := rt_lim d + 1,
             fib_rt_list := rt_lim d # fib_rt_list d, rt6_refs := (\<lambda>i. rt6_refs d i + cnt arr i)\<rparr>)
     else (Inl ENOMEM, d\<lparr>rt_lim := rt_lim d + 1\<rparr>))"
proof -
  let ?k = "key6 d (arr ! 0)" and ?a = "rt_lim d" and ?n = "ok_prefix (e_nh env) 0 arr"
  let ?d = "d\<lparr>rt_mem := (rt_mem d)(?a \<mapsto> route6 ?k []), rt_lim := ?a + 1, fib_rt_list := ?a # fib_rt_list d\<rparr>"
  let ?d1 = "set_nh ?a (rec6 ?k []) (take ?n arr) ?d"
  have at: "rt6_at ?d ?a (rec6 ?k [])" by (simp add: rt6_at_def)
  have "nh_add_loop (e_nh env) (\<lambda>_ d. d) ?a 0 arr ?d = ((?n, if ?n = length arr then None else Some ENOMEM), ?d1)"
    using nh_add_loop_spec [OF at assms(2), of "\<lambda>_ d. d" "\<lambda>_ f. f" "e_nh env" 0] by (simp add: Let_def fold_same set_nh_def)
  then have create: "nsim_fib6_rt_create env arr d = (if ?n = length arr then (Inr ?a, ?d1)
      else (Inl ENOMEM, kfree_rt ?a (nsim_fib_rt_fini ?a (fold (nsim_fib6_rt_nh_del ?a) (rev (take ?n arr)) ?d1))))"
    by (simp add: nsim_fib6_rt_create_def assms(1) new_object_def nsim_fib_rt_init_def key6_def rec6_def Let_def)
  have "0 \<notin> set (take ?n arr)" using assms(2) by (meson in_set_takeD)
  note at1 = rt6_at_set_nh [OF this, of ?a "rec6 ?k []" ?d]
  from fold_nh_del_plain [OF at1, of "rev (take ?n arr)"]
  have undo: "fold (nsim_fib6_rt_nh_del ?a) (rev (take ?n arr)) ?d1 = set_nh ?a (rec6 ?k []) [] ?d"
    by (simp add: remove_rev)
  show ?thesis
  proof (cases "?n = length arr")
    case True
    then show ?thesis unfolding create by (simp add: set_nh_def rec6_def)
  next
    case False
    have "(rt_mem d)(?a := None) = rt_mem d" using assms(3) by (simp add: fun_eq_iff)
    with False show ?thesis unfolding create undo by (simp add: set_nh_def kfree_rt_def nsim_fib_rt_fini_def)
  qed
qed

lemma destroy6_eq:
  assumes "rt6_at d a r"
  shows "nsim_fib6_rt_destroy a d =
    d\<lparr>rt_mem := (rt_mem d)(a := None), fib_rt_list := remove1 a (fib_rt_list d), rt6_refs := (\<lambda>i. rt6_refs d i - cnt (f6_nh_list r) i)\<rparr>"
proof -
  have "fold (nsim_fib6_rt_nh_del a) (f6_nh_list r) d = set_nh a r [] d"
    using fold_nh_del_plain [OF assms] by (simp add: remove_rev)
  then show ?thesis
    using rt6_at_rt6 [OF assms]
    by (simp add: nsim_fib6_rt_destroy_def Let_def set_nh_def rt6_def kfree_rt_def nsim_fib_rt_fini_def)
qed

lemma entry6:
  assumes "wf_fib d" and "fib_rt_ht d k = Some a" and "k_family k = AF_INET6"
  obtains r where "rt6_at d a r" and "f6_key r = k" and "routes d k = Some (Rt6 r)" and "a \<noteq> rt_lim d"
proof -
  have wf: "wf_tab (rt_mem d) (rt_lim d) (fib_rt_ht d) (fib_rt_list d)" using assms(1) by (simp add: wf_fib_def)
  obtain r where r: "rt_mem d a = Some r" "rt_key r = k" "rt_ok r" "a \<noteq> rt_lim d" "routes d k = Some r"
    unfolding routes_def by (rule wf_tab_entry [OF wf assms(2)])
  then obtain r6 where "r = Rt6 r6" using assms(3) by (cases r) auto
  with r that show thesis by (simp add: rt6_at_def)
qed

lemma destroy6:
  assumes wf: "wf_fib d" and ht: "fib_rt_ht d (f6_key r) = Some a" and r: "rt6_at d a r"
  shows "kept d (nsim_fib6_rt_destroy a (ht_remove (f6_key r) a d))"
    and "routes (nsim_fib6_rt_destroy a (ht_remove (f6_key r) a d)) = (routes d)(f6_key r := None)"
    and "ipv4 (nsim_fib6_rt_destroy a (ht_remove (f6_key r) a d)) = ipv4 d"
    and "ipv6 (nsim_fib6_rt_destroy a (ht_remove (f6_key r) a d)) = ipv6 d"
    and "fib_rt_list (nsim_fib6_rt_destroy a (ht_remove (f6_key r) a d)) = remove1 a (fib_rt_list d)"
proof -
  let ?d = "nsim_fib6_rt_destroy a (ht_remove (f6_key r) a d)"
  have tab: "wf_tab (rt_mem d) (rt_lim d) (fib_rt_ht d) (fib_rt_list d)" using wf by (simp add: wf_fib_def)
  note tab' = wf_tab_remove [OF tab ht]
  have "rt6_at (ht_remove (f6_key r) a d) a r" using r by (simp add: ht_remove_def rt6_at_def)
  from destroy6_eq [OF this]
  have d': "?d = d\<lparr>rt_mem := (rt_mem d)(a := None), fib_rt_list := remove1 a (fib_rt_list d), fib_rt_ht := (fib_rt_ht d)(f6_key r := None),
      rt6_refs := (\<lambda>i. rt6_refs d i - cnt (f6_nh_list r) i)\<rparr>"
    using ht by (simp add: ht_remove_def)
  have old: "routes d (f6_key r) = Some (Rt6 r)" using ht r by (simp add: routes_def tab_routes_def rt6_at_def)
  show R: "routes ?d = (routes d)(f6_key r := None)" using tab'(2) by (simp add: routes_def d')
  show "kept d ?d"
    by (rule kept_upd [OF wf _ R]) (use wf tab'(1) old in \<open>simp_all add: d' wf_fib_def frame_def\<close>)
  show "ipv4 ?d = ipv4 d" "ipv6 ?d = ipv6 d" "fib_rt_list ?d = remove1 a (fib_rt_list d)" by (simp_all add: d')
qed

section \<open>Insertion, appending and removal\<close>

definition arr_ok :: "nsim_fib6_event \<Rightarrow> bool" where
  "arr_ok ev \<longleftrightarrow> 0 \<notin> set (rt_arr ev) \<and> nrt6 ev = length (rt_arr ev) \<and> rt_arr ev \<noteq> []"

definition mem_ok :: "fib_env \<Rightarrow> nsim_fib6_event \<Rightarrow> bool" where
  "mem_ok env ev \<longleftrightarrow> ok_prefix (e_nh env) 0 (rt_arr ev) = length (rt_arr ev)"

lemma insert6_add:
  assumes wf: "wf_fib d" and ok: "\<not> fail_route_offload d" "e_alloc env" "arr_ok ev" "mem_ok env ev"
    and k: "k = key6 d (rt_arr ev ! 0)" and new: "routes d k = None"
    and ins: "nsim_fib6_rt_insert env ev d = (err, d')"
  shows "err = e_ht env" and "kept d d'" and "routes d' = (if err = None then (routes d)(k \<mapsto> route6 k (rt_arr ev)) else routes d)"
    and "pf_fib (ipv6 d') = (if err = None then pf_fib (ipv6 d) else dec_if_positive (pf_fib (ipv6 d)))" and "ipv4 d' = ipv4 d"
proof -
  have ht: "fib_rt_ht d k = None" using routes_None [OF wf] new by simp
  have tab: "wf_tab (rt_mem d) (rt_lim d) (fib_rt_ht d) (fib_rt_list d)" using wf by (simp add: wf_fib_def)
  note fresh = wf_tab_fresh [OF tab]
  have fam: "k_family k = AF_INET6" and zero: "0 \<notin> set (rt_arr ev)" using ok(3) by (simp_all add: k arr_ok_def)
  then have rok: "rt_ok (route6 k (rt_arr ev))" by simp
  note tab' = wf_tab_insert [OF tab, of "route6 k (rt_arr ev)", unfolded rt_key.simps rec6_simps(1), OF ht rok]
  note create = create6 [OF ok(2) zero fresh(1), folded k]
  have "err = e_ht env \<and> kept d d' \<and> routes d' = (if err = None then (routes d)(k \<mapsto> route6 k (rt_arr ev)) else routes d)
    \<and> pf_fib (ipv6 d') = (if err = None then pf_fib (ipv6 d) else dec_if_positive (pf_fib (ipv6 d))) \<and> ipv4 d' = ipv4 d"
  proof (cases "e_ht env")
    case None
    have d': "err = None" "d' = d\<lparr>rt_mem := (rt_mem d)(rt_lim d \<mapsto> route6 k (rt_arr ev)), rt_lim := rt_lim d + 1,
        fib_rt_list := rt_lim d # fib_rt_list d, rt6_refs := (\<lambda>i. rt6_refs d i + cnt (rt_arr ev) i),
        fib_rt_ht := (fib_rt_ht d)(k \<mapsto> rt_lim d), flags6 := fold (\<lambda>rt F. F(rt := trapped True)) (rt_arr ev) (flags6 d)\<rparr>"
      using ins ok(4) by (simp_all add: nsim_fib6_rt_insert_def ok create mem_ok_def lookup6 key6_def flip: k)
        (simp_all add: k [unfolded key6_def, symmetric] ht [unfolded k] nsim_fib6_rt_add_def rt6_def None nsim_fib6_rt_hw_flags_set_def
          fold_hw_flags ht)
    have R: "routes d' = (routes d)(k \<mapsto> route6 k (rt_arr ev))" using tab'(2) by (simp add: routes_def d')
    have "kept d d'"
      by (rule kept_upd [OF wf _ R]) (use wf tab'(1) in \<open>simp_all add: d' wf_fib_def frame_def new\<close>)
    with R d' None show ?thesis by simp
  next
    case (Some e)
    let ?d1 = "upd_fib6 dec_if_positive (d\<lparr>rt_mem := (rt_mem d)(rt_lim d \<mapsto> route6 k (rt_arr ev)), rt_lim := rt_lim d + 1,
             fib_rt_list := rt_lim d # fib_rt_list d, rt6_refs := (\<lambda>i. rt6_refs d i + cnt (rt_arr ev) i)\<rparr>)"
    have at: "rt6_at ?d1 (rt_lim d) (rec6 k (rt_arr ev))" using zero by (simp add: rt6_at_def upd_fib6_def)
    have "err = Some e" "d' = nsim_fib6_rt_destroy (rt_lim d) ?d1"
      using ins ok(4) by (simp_all add: nsim_fib6_rt_insert_def ok create mem_ok_def lookup6 key6_def flip: k)
        (simp_all add: k [unfolded key6_def, symmetric] ht [unfolded k] nsim_fib6_rt_add_def rt6_def Some account6_False ht)
    moreover have "(rt_mem d)(rt_lim d := None) = rt_mem d" using fresh(1) by (simp add: fun_eq_iff)
    ultimately have d': "err = Some e" "d' = d\<lparr>rt_lim := rt_lim d + 1, ipv6 := (ipv6 d)\<lparr>pf_fib := dec_if_positive (pf_fib (ipv6 d))\<rparr>\<rparr>"
      unfolding destroy6_eq [OF at] by (simp_all add: upd_fib6_def)
    have R: "routes d' = routes d" by (simp add: routes_def d')
    have "wf_fib d'" using wf wf_tab_skip [OF tab] by (simp add: wf_fib_def d')
    then have "kept d d'" by (rule kept_same [OF _ R]) (simp_all add: d' frame_def)
    with R show ?thesis by (simp add: d' Some)
  qed
  then show "err = e_ht env" "kept d d'" "routes d' = (if err = None then (routes d)(k \<mapsto> route6 k (rt_arr ev)) else routes d)"
    "pf_fib (ipv6 d') = (if err = None then pf_fib (ipv6 d) else dec_if_positive (pf_fib (ipv6 d)))" "ipv4 d' = ipv4 d"
    by blast+
qed

lemma insert6_replace:
  assumes wf: "wf_fib d" and ok: "\<not> fail_route_offload d" "e_alloc env" "arr_ok ev" "mem_ok env ev"
    and k: "k = key6 d (rt_arr ev ! 0)" and old: "routes d k = Some ro"
    and ins: "nsim_fib6_rt_insert env ev d = (err, d')"
  shows "err = None" and "kept d d'" and "routes d' = (routes d)(k \<mapsto> route6 k (rt_arr ev))"
    and "pf_fib (ipv6 d') = dec_if_positive (pf_fib (ipv6 d))" and "ipv4 d' = ipv4 d"
proof -
  obtain a where ht: "fib_rt_ht d k = Some a" using routes_None [OF wf] old by (metis not_None_eq option.distinct(1))
  have tab: "wf_tab (rt_mem d) (rt_lim d) (fib_rt_ht d) (fib_rt_list d)" using wf by (simp add: wf_fib_def)
  note fresh = wf_tab_fresh [OF tab]
  have fam: "k_family k = AF_INET6" and zero: "0 \<notin> set (rt_arr ev)" using ok(3) by (simp_all add: k arr_ok_def)
  obtain r where r: "rt6_at d a r" "f6_key r = k" "routes d k = Some (Rt6 r)" "a \<noteq> rt_lim d" by (rule entry6 [OF wf ht fam])
  have rok: "rt_ok (route6 k (rt_arr ev))" using fam zero by simp
  note tab' = wf_tab_replace [OF tab, of "route6 k (rt_arr ev)", unfolded rt_key.simps rec6_simps(1), OF ht rok]
  note create = create6 [OF ok(2) zero fresh(1), folded k]
  let ?F = "fold (\<lambda>rt F. F(rt := trapped False)) (f6_nh_list r) (fold (\<lambda>rt F. F(rt := trapped True)) (rt_arr ev) (flags6 d))"
  let ?d1 = "d\<lparr>rt_mem := (rt_mem d)(rt_lim d \<mapsto> route6 k (rt_arr ev)), rt_lim := rt_lim d + 1,
      fib_rt_list := rt_lim d # fib_rt_list d, rt6_refs := (\<lambda>i. rt6_refs d i + cnt (rt_arr ev) i),
      ipv6 := (ipv6 d)\<lparr>pf_fib := dec_if_positive (pf_fib (ipv6 d))\<rparr>, fib_rt_ht := (fib_rt_ht d)(k \<mapsto> rt_lim d), flags6 := ?F\<rparr>"
  have at: "rt6_at ?d1 a r" using r by (simp add: rt6_at_def)
  have rm: "rt_mem d a = Some (Rt6 r)" using r(1) by (simp add: rt6_at_def)
  have "err = None \<and> d' = nsim_fib6_rt_destroy a ?d1"
    using ins ok(4) by (simp add: nsim_fib6_rt_insert_def ok create mem_ok_def lookup6 key6_def flip: k)
      (auto simp add: k [unfolded key6_def, symmetric] ht [unfolded k] nsim_fib6_rt_replace_def rt6_def account6_False upd_fib6_def
        ht_replace_def nsim_fib6_rt_hw_flags_set_def fold_hw_flags ht rm r(4))
  then have d': "err = None" "d' = d\<lparr>rt_mem := (rt_mem d)(rt_lim d \<mapsto> route6 k (rt_arr ev), a := None), rt_lim := rt_lim d + 1,
      fib_rt_list := rt_lim d # remove1 a (fib_rt_list d), rt6_refs := (\<lambda>i. rt6_refs d i + cnt (rt_arr ev) i - cnt (f6_nh_list r) i),
      ipv6 := (ipv6 d)\<lparr>pf_fib := dec_if_positive (pf_fib (ipv6 d))\<rparr>, fib_rt_ht := (fib_rt_ht d)(k \<mapsto> rt_lim d), flags6 := ?F\<rparr>"
    unfolding destroy6_eq [OF at] using r(4) by simp_all
  show R: "routes d' = (routes d)(k \<mapsto> route6 k (rt_arr ev))" using tab'(2) by (simp add: routes_def d')
  show "kept d d'"
    by (rule kept_upd [OF wf _ R]) (use wf tab'(1) r(3) in \<open>simp_all add: d' wf_fib_def frame_def\<close>)
  show "err = None" "pf_fib (ipv6 d') = dec_if_positive (pf_fib (ipv6 d))" "ipv4 d' = ipv4 d" by (simp_all add: d')
qed

lemma insert6:
  assumes wf: "wf_fib d" and arr: "arr_ok ev" and k: "k = key6 d (rt_arr ev ! 0)" and ins: "nsim_fib6_rt_insert env ev d = (err, d')"
  shows "kept d d'" and "err = None \<longleftrightarrow> ins_ok env d (routes d k = None) \<and> mem_ok env ev"
    and "routes d' = (if err = None then (routes d)(k \<mapsto> route6 k (rt_arr ev)) else routes d)"
    and "pf_fib (ipv6 d') = (if fail_route_offload d \<or> \<not> e_alloc env \<or> \<not> mem_ok env ev \<or> err = None \<and> routes d k = None
           then pf_fib (ipv6 d) else dec_if_positive (pf_fib (ipv6 d)))"
    and "ipv4 d' = ipv4 d"
proof -
  have tab: "wf_tab (rt_mem d) (rt_lim d) (fib_rt_ht d) (fib_rt_list d)" using wf by (simp add: wf_fib_def)
  have zero: "0 \<notin> set (rt_arr ev)" using arr by (simp add: arr_ok_def)
  consider "fail_route_offload d" | "\<not> fail_route_offload d" "\<not> e_alloc env"
    | "\<not> fail_route_offload d" "e_alloc env" "\<not> mem_ok env ev"
    | "\<not> fail_route_offload d" "e_alloc env" "mem_ok env ev" "routes d k = None"
    | ro where "\<not> fail_route_offload d" "e_alloc env" "mem_ok env ev" "routes d k = Some ro" by fastforce
  then have "kept d d' \<and> (err = None \<longleftrightarrow> ins_ok env d (routes d k = None) \<and> mem_ok env ev)
    \<and> routes d' = (if err = None then (routes d)(k \<mapsto> route6 k (rt_arr ev)) else routes d)
    \<and> pf_fib (ipv6 d') = (if fail_route_offload d \<or> \<not> e_alloc env \<or> \<not> mem_ok env ev \<or> err = None \<and> routes d k = None
           then pf_fib (ipv6 d) else dec_if_positive (pf_fib (ipv6 d))) \<and> ipv4 d' = ipv4 d"
  proof cases
    case 3
    have d': "err = Some ENOMEM" "d' = d\<lparr>rt_lim := rt_lim d + 1\<rparr>"
      using ins 3 create6 [OF 3(2) zero wf_tab_fresh(1) [OF tab]] by (simp_all add: nsim_fib6_rt_insert_def mem_ok_def)
    have R: "routes d' = routes d" by (simp add: routes_def d')
    have "wf_fib d'" using wf wf_tab_skip [OF tab] by (simp add: wf_fib_def d')
    then have "kept d d'" by (rule kept_same [OF _ R]) (simp_all add: d' frame_def)
    with R 3 show ?thesis by (simp add: d')
  next
    case 4
    note insert6_add [OF wf 4(1,2) arr 4(3) k 4(4) ins]
    with 4 show ?thesis by (auto simp: ins_ok_def)
  next
    case 5
    note insert6_replace [OF wf 5(1,2) arr 5(3) k 5(4) ins]
    with 5 show ?thesis by (auto simp: ins_ok_def)
  qed (use ins kept_refl [OF wf] in \<open>auto simp: nsim_fib6_rt_insert_def nsim_fib6_rt_create_def ins_ok_def\<close>)
  then show "kept d d'" "err = None \<longleftrightarrow> ins_ok env d (routes d k = None) \<and> mem_ok env ev"
    "routes d' = (if err = None then (routes d)(k \<mapsto> route6 k (rt_arr ev)) else routes d)"
    "pf_fib (ipv6 d') = (if fail_route_offload d \<or> \<not> e_alloc env \<or> \<not> mem_ok env ev \<or> err = None \<and> routes d k = None
           then pf_fib (ipv6 d) else dec_if_positive (pf_fib (ipv6 d)))" "ipv4 d' = ipv4 d"
    by blast+
qed

lemma rec6_eq: "f6_nhs r = length (f6_nh_list r) \<Longrightarrow> r = rec6 (f6_key r) (f6_nh_list r)"
  by (cases r) (simp add: rec6_def)

lemma rec6_upd: "r\<lparr>f6_nh_list := L, f6_nhs := length L\<rparr> = rec6 (f6_key r) L"
  by (cases r) (simp add: rec6_def)

lemma set_nh_rec: "set_nh a (rec6 k L) L' (set_nh a (rec6 k nh) L d) = set_nh a (rec6 k nh) L' d"
  by (simp add: set_nh_def rec6_def algebra_simps)

text \<open>The entry of a route of the map.\<close>

lemma entry6_of_routes:
  assumes wf: "wf_fib d" and "routes d k = Some ro" and "k_family k = AF_INET6"
  obtains a nh where "fib_rt_ht d k = Some a" and "rt6_at d a (rec6 k nh)" and "ro = route6 k nh"
proof -
  obtain a where ht: "fib_rt_ht d k = Some a" using routes_None [OF wf] assms(2) by (metis not_None_eq option.distinct(1))
  obtain r where r: "rt6_at d a r" "f6_key r = k" "routes d k = Some (Rt6 r)" by (rule entry6 [OF wf ht assms(3)])
  then have "r = rec6 k (f6_nh_list r)" using rec6_eq [of r] by (simp add: rt6_at_def)
  with r assms(2) that [of a "f6_nh_list r"] ht show thesis by simp
qed

lemma set_nh_kept:
  assumes wf: "wf_fib d" and ht: "fib_rt_ht d k = Some a" and at: "rt6_at d a (rec6 k nh)" and fam: "k_family k = AF_INET6"
    and L: "0 \<notin> set L" and d': "d' = (set_nh a (rec6 k nh) L d)\<lparr>flags6 := f\<rparr>"
  shows "kept d d'" and "routes d' = (routes d)(k \<mapsto> route6 k L)" and "ipv4 d' = ipv4 d" and "ipv6 d' = ipv6 d"
proof -
  have tab: "wf_tab (rt_mem d) (rt_lim d) (fib_rt_ht d) (fib_rt_list d)" using wf by (simp add: wf_fib_def)
  have "rt_ok (route6 k L)" using fam L by simp
  note tab' = wf_tab_modify [OF tab, of "route6 k L", unfolded rt_key.simps rec6_simps(1), OF ht this]
  have eq: "d' = d\<lparr>rt_mem := (rt_mem d)(a \<mapsto> route6 k L), rt6_refs := (\<lambda>i. rt6_refs d i + cnt L i - cnt nh i), flags6 := f\<rparr>"
    by (simp add: d' set_nh_def rec6_upd)
  have old: "routes d k = Some (route6 k nh)" using ht at by (simp add: routes_def tab_routes_def rt6_at_def)
  show R: "routes d' = (routes d)(k \<mapsto> route6 k L)" using tab'(2) by (simp add: routes_def eq)
  show "kept d d'"
    by (rule kept_upd [OF wf _ R]) (use wf tab'(1) old in \<open>simp_all add: eq wf_fib_def frame_def\<close>)
  show "ipv4 d' = ipv4 d" "ipv6 d' = ipv6 d" by (simp_all add: eq)
qed

lemma append6:
  assumes wf: "wf_fib d" and arr: "arr_ok ev" and k: "k = key6 d (rt_arr ev ! 0)" and app: "nsim_fib6_rt_append env ev d = (err, d')"
  shows "kept d d'" and "err = None \<longleftrightarrow> \<not> fail_route_offload d \<and> routes d k \<noteq> None \<and> mem_ok env ev"
    and "dom (routes d') = dom (routes d)" and "ipv4 d' = ipv4 d" and "ipv6 d' = ipv6 d"
    and "err = None \<Longrightarrow> \<exists>nh. routes d k = Some (route6 k nh) \<and> routes d' = (routes d)(k \<mapsto> route6 k (nh @ rt_arr ev))"
proof -
  let ?ok = "\<not> fail_route_offload d \<and> routes d k \<noteq> None \<and> mem_ok env ev"
  have zero: "0 \<notin> set (rt_arr ev)" using arr by (simp add: arr_ok_def)
  consider "fail_route_offload d" | "\<not> fail_route_offload d" "routes d k = None"
    | ro where "\<not> fail_route_offload d" "routes d k = Some ro" by fastforce
  then have "kept d d' \<and> (err = None \<longleftrightarrow> ?ok) \<and> dom (routes d') = dom (routes d) \<and> ipv4 d' = ipv4 d \<and> ipv6 d' = ipv6 d
    \<and> (err = None \<longrightarrow> (\<exists>nh. routes d k = Some (route6 k nh) \<and> routes d' = (routes d)(k \<mapsto> route6 k (nh @ rt_arr ev))))"
  proof cases
    case 2
    then have "fib_rt_ht d k = None" using routes_None [OF wf] by simp
    then show ?thesis using app 2 kept_refl [OF wf] by (auto simp: nsim_fib6_rt_append_def lookup6 k)
  next
    case 3
    have fam: "k_family k = AF_INET6" by (simp add: k)
    obtain a nh where e: "fib_rt_ht d k = Some a" "rt6_at d a (rec6 k nh)" "ro = route6 k nh"
      by (rule entry6_of_routes [OF wf 3(2) fam])
    let ?n = "ok_prefix (e_nh env) 0 (rt_arr ev)"
    let ?L = "nh @ take ?n (rt_arr ev)" and ?g = "\<lambda>rt F. F(rt := (F rt)\<lparr>trap := True\<rparr>)"
    let ?d1 = "(set_nh a (rec6 k nh) ?L d)\<lparr>flags6 := fold ?g (take ?n (rt_arr ev)) (flags6 d)\<rparr>"
    have zL: "0 \<notin> set ?L" using zero e(2) by (auto simp: rt6_at_def dest: in_set_takeD)
    have loop: "nh_add_loop (e_nh env) (write_trap True) a 0 (rt_arr ev) d
        = ((?n, if ?n = length (rt_arr ev) then None else Some ENOMEM), ?d1)"
      using nh_add_loop_spec [OF e(2) zero, of "write_trap True" ?g "e_nh env" 0] by (simp add: write_trap_def Let_def)
    show ?thesis
    proof (cases "mem_ok env ev")
      case True
      then have ok: "err = None" "d' = ?d1"
        using app 3 e loop by (simp_all add: nsim_fib6_rt_append_def lookup6 k [symmetric] mem_ok_def)
      have L: "?L = nh @ rt_arr ev" using True by (simp add: mem_ok_def)
      note s = set_nh_kept [OF wf e(1,2) fam zL ok(2)]
      have "dom (routes d') = dom (routes d)" using s(2) 3(2) by (simp add: insert_absorb domI)
      then show ?thesis using s ok(1) 3 e(3) True unfolding L by auto
    next
      case False
      let ?h = "\<lambda>rt F. F(rt := (F rt)\<lparr>trap := False\<rparr>)"
      have at: "rt6_at ?d1 a (rec6 k ?L)"
        using rt6_at_set_nh [OF zL, of a "rec6 k nh" d] unfolding rec6_upd rt6_at_flags by (simp only: rec6_simps)
      have "err \<noteq> None" "d' = fold (\<lambda>rt d. nsim_fib6_rt_nh_del a rt (write_trap False rt d)) (rev (take ?n (rt_arr ev))) ?d1"
        using app 3 e loop False by (simp_all add: nsim_fib6_rt_append_def lookup6 k [symmetric] mem_ok_def) blast
      moreover note fold_nh_del [OF at, of "write_trap False" ?h "rev (take ?n (rt_arr ev))"]
      ultimately have err: "err \<noteq> None" and d': "d' = (set_nh a (rec6 k nh) (fold remove1 (rev (take ?n (rt_arr ev))) ?L) d)
          \<lparr>flags6 := fold ?h (rev (take ?n (rt_arr ev))) (fold ?g (take ?n (rt_arr ev)) (flags6 d))\<rparr>"
        by (simp_all only: write_trap_def set_nh_rec set_nh_flags rec6_simps simp_thms) simp_all
      have "mset (fold remove1 (rev (take ?n (rt_arr ev))) ?L) = mset nh" by (simp add: mset_fold_remove1)
      then have "0 \<notin> set (fold remove1 (rev (take ?n (rt_arr ev))) ?L)" using e(2) by (metis mset_eq_setD rec6_simps(2) rt6_at_def)
      note s = set_nh_kept [OF wf e(1,2) fam this d']
      have "dom (routes d') = dom (routes d)" using s(2) 3(2) by (simp add: insert_absorb domI)
      then show ?thesis using s(1,3,4) err False 3 by auto
    qed
  qed (use app kept_refl [OF wf] in \<open>auto simp: nsim_fib6_rt_append_def\<close>)
  then show "kept d d'" "err = None \<longleftrightarrow> ?ok" "dom (routes d') = dom (routes d)" "ipv4 d' = ipv4 d" "ipv6 d' = ipv6 d"
    "err = None \<Longrightarrow> \<exists>nh. routes d k = Some (route6 k nh) \<and> routes d' = (routes d)(k \<mapsto> route6 k (nh @ rt_arr ev))"
    by blast+
qed

text \<open>What is left of a route when a notification to delete nexthops has been handled.\<close>

definition rest6 :: "nsim_fib6_event \<Rightarrow> nsim_fib_rt option \<Rightarrow> nsim_fib_rt option" where
  "rest6 ev x = (case x of
     Some (Rt6 r) \<Rightarrow> if nrt6 ev \<noteq> f6_nhs r then Some (route6 (f6_key r) (fold remove1 (rt_arr ev) (f6_nh_list r))) else None
   | _ \<Rightarrow> None)"

lemma remove6:
  assumes wf: "wf_fib d" and k: "k = key6 d (rt_arr ev ! 0)"
  shows "kept d (nsim_fib6_rt_remove ev d)" and "routes (nsim_fib6_rt_remove ev d) = (routes d)(k := rest6 ev (routes d k))"
    and "ipv4 (nsim_fib6_rt_remove ev d) = ipv4 d" and "ipv6 (nsim_fib6_rt_remove ev d) = ipv6 d"
proof -
  let ?d = "nsim_fib6_rt_remove ev d"
  have "kept d ?d \<and> routes ?d = (routes d)(k := rest6 ev (routes d k)) \<and> ipv4 ?d = ipv4 d \<and> ipv6 ?d = ipv6 d"
  proof (cases "routes d k")
    case None
    then have "fib_rt_ht d k = None" using routes_None [OF wf] by simp
    then show ?thesis using kept_refl [OF wf] None
      by (simp add: nsim_fib6_rt_remove_def lookup6 k [symmetric] rest6_def fun_upd_idem)
  next
    case (Some ro)
    have fam: "k_family k = AF_INET6" by (simp add: k)
    obtain a nh where e: "fib_rt_ht d k = Some a" "rt6_at d a (rec6 k nh)" "ro = route6 k nh"
      by (rule entry6_of_routes [OF wf Some fam])
    show ?thesis
    proof (cases "nrt6 ev = length nh")
      case True
      then have "?d = nsim_fib6_rt_destroy a (ht_remove (f6_key (rec6 k nh)) a d)"
        using e rt6_at_rt6 [OF e(2)] by (simp add: nsim_fib6_rt_remove_def lookup6 k [symmetric])
      with destroy6 [OF wf _ e(2)] e True Some show ?thesis by (simp add: rest6_def)
    next
      case False
      have z: "0 \<notin> set (fold remove1 (rt_arr ev) nh)"
        using set_fold_remove1 [of "rt_arr ev" nh] e(2) by (auto simp: rt6_at_def)
      have "?d = set_nh a (rec6 k nh) (fold remove1 (rt_arr ev) nh) d"
        using e rt6_at_rt6 [OF e(2)] fold_nh_del_plain [OF e(2), of "rt_arr ev"] False
        by (simp add: nsim_fib6_rt_remove_def lookup6 k [symmetric])
      then have "?d = (set_nh a (rec6 k nh) (fold remove1 (rt_arr ev) nh) d)\<lparr>flags6 := flags6 d\<rparr>" by (simp add: set_nh_def)
      from set_nh_kept [OF wf e(1,2) fam z this] False Some e(3) show ?thesis by (simp add: rest6_def)
    qed
  qed
  then show "kept d ?d" "routes ?d = (routes d)(k := rest6 ev (routes d k))" "ipv4 ?d = ipv4 d" "ipv6 ?d = ipv6 d" by blast+
qed

end
