(* ===== verification/Nsim_Fib_Runs.thy ===== *)
theory Nsim_Fib_Runs
  imports Nsim_Fib_Ops6
begin

text \<open>
  Notifications, work and flush in any order: what always holds of the table, of the references and
  of the occupancy, failures included.
\<close>

section \<open>One event\<close>

primrec ev_fis :: "nat \<Rightarrow> nsim_fib_event \<Rightarrow> int" where
  "ev_fis i (Event4 event fen) = (if fen_fi fen = i then 1 else 0)"
| "ev_fis i (Event6 event ev6) = 0"

primrec ev_rts :: "nat \<Rightarrow> nsim_fib_event \<Rightarrow> int" where
  "ev_rts i (Event4 event fen) = 0"
| "ev_rts i (Event6 event ev6) = cnt (rt_arr ev6) i"

primrec ev_ok :: "nsim_fib_event \<Rightarrow> bool" where
  "ev_ok (Event4 event fen) = True"
| "ev_ok (Event6 event ev6) = arr_ok ev6"

text \<open>The entry of a resource after some of the decrements that the code makes.\<close>

definition dec_or_same :: "nsim_fib_entry \<Rightarrow> nsim_fib_entry \<Rightarrow> bool" where
  "dec_or_same e e' \<longleftrightarrow> e' = e \<or> e' = dec_if_positive e"

lemma event4_kept:
  assumes "wf_fib d" and "nsim_fib4_event env fen event d = (err, d')"
  shows "kept d d'" and "dec_or_same (pf_fib (ipv4 d)) (pf_fib (ipv4 d'))" and "ipv6 d' = ipv6 d"
proof -
  have "kept d d' \<and> dec_or_same (pf_fib (ipv4 d)) (pf_fib (ipv4 d')) \<and> ipv6 d' = ipv6 d"
  proof (cases event)
    case FIB_EVENT_ENTRY_REPLACE
    obtain e d1 where ins: "nsim_fib4_rt_insert env fen d = (e, d1)" by fastforce
    note i = insert4 [OF assms(1) ins]
    have "kept d (nsim_fib4_rt_offload_failed_flag_set fen d1)"
    proof -
      have R: "routes (nsim_fib4_rt_offload_failed_flag_set fen d1) = routes d1"
        by (simp add: nsim_fib4_rt_offload_failed_flag_set_def fib_alias_hw_flags_set_def routes_def)
      have "kept d1 (nsim_fib4_rt_offload_failed_flag_set fen d1)"
        by (rule kept_same [OF _ R]) (use keptD [OF i(1)] in
          \<open>simp_all add: nsim_fib4_rt_offload_failed_flag_set_def fib_alias_hw_flags_set_def wf_fib_def frame_def\<close>)
      with i(1) show ?thesis by (rule kept_trans)
    qed
    with i assms(2) FIB_EVENT_ENTRY_REPLACE ins show ?thesis
      by (cases e) (auto simp: nsim_fib4_event_def dec_or_same_def nsim_fib4_rt_offload_failed_flag_set_def fib_alias_hw_flags_set_def
          split: if_splits)
  next
    case FIB_EVENT_ENTRY_DEL
    with assms(2) remove4 [OF assms(1), of fen] show ?thesis by (auto simp: nsim_fib4_event_def dec_or_same_def)
  qed (use assms kept_refl in \<open>auto simp: nsim_fib4_event_def dec_or_same_def\<close>)
  then show "kept d d'" "dec_or_same (pf_fib (ipv4 d)) (pf_fib (ipv4 d'))" "ipv6 d' = ipv6 d" by blast+
qed

lemma failed_flags6: "nsim_fib6_rt_offload_failed_flag_set arr d =
    d\<lparr>flags6 := fold (\<lambda>rt F. F(rt := \<lparr>offload = False, trap = False, offload_failed = True\<rparr>)) arr (flags6 d)\<rparr>"
  by (simp add: nsim_fib6_rt_offload_failed_flag_set_def fold_hw_flags)

lemma kept_flags6: "kept d d1 \<Longrightarrow> kept d (d1\<lparr>flags6 := f\<rparr>)"
proof -
  assume k: "kept d d1"
  have "kept d1 (d1\<lparr>flags6 := f\<rparr>)"
    by (rule kept_same) (use keptD [OF k] in \<open>simp_all add: routes_def wf_fib_def frame_def\<close>)
  with k show ?thesis by (rule kept_trans)
qed

lemma event6_kept:
  assumes wf: "wf_fib d" and arr: "arr_ok ev6" and ev: "nsim_fib6_event env ev6 event d = (err, d')"
  shows "kept d d'" and "dec_or_same (pf_fib (ipv6 d)) (pf_fib (ipv6 d'))" and "ipv4 d' = ipv4 d"
proof -
  have "kept d d' \<and> dec_or_same (pf_fib (ipv6 d)) (pf_fib (ipv6 d')) \<and> ipv4 d' = ipv4 d"
  proof (cases "i6_src_plen (rt6_info d (rt_arr ev6 ! 0)) \<noteq> 0")
    case True
    then show ?thesis using ev kept_refl [OF wf] by (auto simp: nsim_fib6_event_def dec_or_same_def)
  next
    case src: False
    show ?thesis
    proof (cases event)
      case FIB_EVENT_ENTRY_REPLACE
      obtain e d1 where ins: "nsim_fib6_rt_insert env ev6 d = (e, d1)" by fastforce
      note i = insert6 [OF wf arr refl ins]
      with ev src FIB_EVENT_ENTRY_REPLACE ins kept_flags6 [OF i(1)] show ?thesis
        by (cases e) (auto simp: nsim_fib6_event_def dec_or_same_def failed_flags6 split: if_splits)
    next
      case FIB_EVENT_ENTRY_APPEND
      obtain e d1 where app: "nsim_fib6_rt_append env ev6 d = (e, d1)" by fastforce
      note a = append6 [OF wf arr refl app]
      with ev src FIB_EVENT_ENTRY_APPEND app kept_flags6 [OF a(1)] show ?thesis
        by (cases e) (auto simp: nsim_fib6_event_def dec_or_same_def failed_flags6)
    next
      case FIB_EVENT_ENTRY_DEL
      with ev src remove6 [OF wf refl, of ev6] show ?thesis by (auto simp: nsim_fib6_event_def dec_or_same_def)
    qed (use ev src kept_refl [OF wf] in \<open>auto simp: nsim_fib6_event_def dec_or_same_def\<close>)
  qed
  then show "kept d d'" "dec_or_same (pf_fib (ipv6 d)) (pf_fib (ipv6 d'))" "ipv4 d' = ipv4 d" by blast+
qed

lemma fini_eq: "0 \<notin> set arr \<Longrightarrow> fold nsim_rt6_release arr d = d\<lparr>rt6_refs := (\<lambda>i. rt6_refs d i - cnt arr i)\<rparr>"
  by (induction arr arbitrary: d) (auto simp: nsim_rt6_release_def fun_eq_iff intro!: arg_cong [where f = "\<lambda>r. rt6_refs_update (\<lambda>_. r) _"])

lemma hold_eq: "0 \<notin> set arr \<Longrightarrow> fold fib6_info_hold arr d = d\<lparr>rt6_refs := (\<lambda>i. rt6_refs d i + cnt arr i)\<rparr>"
  by (induction arr arbitrary: d) (auto simp: fib6_info_hold_def fun_eq_iff intro!: arg_cong [where f = "\<lambda>r. rt6_refs_update (\<lambda>_. r) _"])

lemma event_step:
  assumes wf: "wf_fib d" and ok: "ev_ok ev"
  shows "wf_fib (nsim_fib_event env ev d)" and "frame (nsim_fib_event env ev d) = frame d"
    and "bal4 (nsim_fib_event env ev d) i = bal4 d i - ev_fis i ev" and "bal6 (nsim_fib_event env ev d) i = bal6 d i - ev_rts i ev"
    and "dec_or_same (pf_fib (ipv4 d)) (pf_fib (ipv4 (nsim_fib_event env ev d)))"
    and "dec_or_same (pf_fib (ipv6 d)) (pf_fib (ipv6 (nsim_fib_event env ev d)))"
proof -
  let ?d = "nsim_fib_event env ev d"
  have "wf_fib ?d \<and> frame ?d = frame d \<and> bal4 ?d i = bal4 d i - ev_fis i ev \<and> bal6 ?d i = bal6 d i - ev_rts i ev
    \<and> dec_or_same (pf_fib (ipv4 d)) (pf_fib (ipv4 ?d)) \<and> dec_or_same (pf_fib (ipv6 d)) (pf_fib (ipv6 ?d))"
  proof (cases ev)
    case (Event4 event fen)
    obtain err d1 where e: "nsim_fib4_event env fen event d = (err, d1)" by fastforce
    note k = event4_kept [OF wf e]
    then have "?d = d1\<lparr>fi_refs := (fi_refs d1)(fen_fi fen := fi_refs d1 (fen_fi fen) - 1)\<rparr>"
      by (simp add: Event4 nsim_fib_event_def e fib_info_put_def)
    with k show ?thesis
      by (auto simp: Event4 kept_def wf_fib_def frame_def bal4_def [abs_def] bal6_def [abs_def] routes_def dec_or_same_def fun_eq_iff)
  next
    case (Event6 event ev6)
    obtain err d1 where e: "nsim_fib6_event env ev6 event d = (err, d1)" by fastforce
    have arr: "arr_ok ev6" using ok Event6 by simp
    note k = event6_kept [OF wf arr e]
    have "?d = d1\<lparr>rt6_refs := (\<lambda>i. rt6_refs d1 i - cnt (rt_arr ev6) i)\<rparr>"
      using arr by (simp add: Event6 nsim_fib_event_def e nsim_fib6_event_fini_def fini_eq arr_ok_def)
    with k show ?thesis
      by (auto simp: Event6 kept_def wf_fib_def frame_def bal4_def [abs_def] bal6_def [abs_def] routes_def dec_or_same_def fun_eq_iff)
  qed
  then show "wf_fib ?d" "frame ?d = frame d" "bal4 ?d i = bal4 d i - ev_fis i ev" "bal6 ?d i = bal6 d i - ev_rts i ev"
    "dec_or_same (pf_fib (ipv4 d)) (pf_fib (ipv4 ?d))" "dec_or_same (pf_fib (ipv6 d)) (pf_fib (ipv6 ?d))" by blast+
qed

section \<open>One notification\<close>

text \<open>The kernel announces as many siblings of an IPv6 route as there are, and none is NULL.\<close>

primrec info_ok :: "fib_notifier_info \<Rightarrow> bool" where
  "info_ok (Info4 fen) = True"
| "info_ok (Info6 fen6) = (fen6_nsiblings fen6 \<le> length (fen6_siblings fen6) \<and> 0 \<notin> set (fen6_rt fen6 # fen6_siblings fen6))"
| "info_ok (Info_plain f) = True"

definition event6_of :: "fen6_info \<Rightarrow> nsim_fib6_event" where
  "event6_of fen6 = \<lparr>rt_arr = fen6_rt fen6 # take (fen6_nsiblings fen6) (fen6_siblings fen6), nrt6 = fen6_nsiblings fen6 + 1\<rparr>"

lemma event6_of_ok: "info_ok (Info6 fen6) \<Longrightarrow> arr_ok (event6_of fen6)"
  by (auto simp: arr_ok_def event6_of_def dest: in_set_takeD)

lemma event_init:
  assumes "info_ok (Info6 fen6)"
  shows "nsim_fib6_event_init True fen6 d = (Inr (event6_of fen6), d\<lparr>rt6_refs := (\<lambda>i. rt6_refs d i + cnt (rt_arr (event6_of fen6)) i)\<rparr>)"
proof -
  have "0 \<notin> set (fen6_rt fen6 # take (fen6_nsiblings fen6) (fen6_siblings fen6))"
    using event6_of_ok [OF assms] by (simp add: arr_ok_def event6_of_def)
  from hold_eq [OF this, of d] assms show ?thesis
    by (simp add: nsim_fib6_event_init_def Let_def event6_of_def del: fold_simps)
qed

primrec queued :: "fib_event_type \<Rightarrow> fib_notifier_info \<Rightarrow> nsim_fib_event option" where
  "queued event (Info4 fen) = Some (Event4 event fen)"
| "queued event (Info6 fen6) = Some (Event6 event (event6_of fen6))"
| "queued event (Info_plain f) = None"

text \<open>What a notification does to the occupancy of the routes: one more, one less if there is one, or nothing.\<close>

definition inc_or_less :: "nsim_fib_entry \<Rightarrow> nsim_fib_entry \<Rightarrow> bool" where
  "inc_or_less e e' \<longleftrightarrow> e' = e \<or> e' = dec_if_positive e \<or> add_unless_max e = Some e'"

text \<open>
  A notification about a route either is refused and leaves no trace in references and queue, or
  is queued, with its references, and the work is scheduled.
\<close>

lemma prepare4:
  assumes "nsim_fib4_prepare_event fen event d = (r, d')"
  shows "\<exists>e. inc_or_less (pf_fib (ipv4 d)) e
    \<and> (if isl r then d' = d\<lparr>ipv4 := (ipv4 d)\<lparr>pf_fib := e\<rparr>\<rparr>
       else r = Inr (Event4 event fen)
         \<and> d' = d\<lparr>ipv4 := (ipv4 d)\<lparr>pf_fib := e\<rparr>, fi_refs := (fi_refs d)(fen_fi fen := fi_refs d (fen_fi fen) + 1)\<rparr>)"
  using assms
  by (cases event) (auto simp: nsim_fib4_prepare_event_def fib_info_hold_def account4_False upd_fib4_def inc_or_less_def account4_def
      nsim_fib_account_def split: if_splits option.splits prod.splits)

lemma prepare6:
  assumes ok: "info_ok (Info6 fen6)" and prep: "nsim_fib6_prepare_event mem fen6 event d = (r, d')"
  shows "\<exists>e. inc_or_less (pf_fib (ipv6 d)) e
    \<and> (if isl r then d' = d\<lparr>ipv6 := (ipv6 d)\<lparr>pf_fib := e\<rparr>\<rparr>
       else r = Inr (Event6 event (event6_of fen6))
         \<and> d' = d\<lparr>ipv6 := (ipv6 d)\<lparr>pf_fib := e\<rparr>, rt6_refs := (\<lambda>i. rt6_refs d i + cnt (rt_arr (event6_of fen6)) i)\<rparr>)"
proof (cases mem)
  case True
  have z: "0 \<notin> set (rt_arr (event6_of fen6))" using event6_of_ok [OF ok] by (simp add: arr_ok_def)
  show ?thesis
    using prep True
    by (cases event) (auto simp: nsim_fib6_prepare_event_def event_init [OF ok] account6_False upd_fib6_def inc_or_less_def account6_def
        nsim_fib_account_def nsim_fib6_event_fini_def fini_eq [OF z] split: if_splits option.splits prod.splits)
next
  case False
  then show ?thesis using prep
    by (auto simp: nsim_fib6_prepare_event_def nsim_fib6_event_init_def inc_or_less_def intro!: exI [of _ "pf_fib (ipv6 d)"])
qed

text \<open>The whole notifier: what it does to the state, by whether it queued an event.\<close>

definition entry_event :: "fib_event_type \<Rightarrow> bool" where
  "entry_event event \<longleftrightarrow> event \<in> {FIB_EVENT_ENTRY_REPLACE, FIB_EVENT_ENTRY_APPEND, FIB_EVENT_ENTRY_DEL}"

definition notified :: "nsim_fib_data \<Rightarrow> nsim_fib_event option \<Rightarrow> nsim_fib_data \<Rightarrow> bool" where
  "notified d ev d' \<longleftrightarrow> (\<exists>e4 e6 r4 r6 fl. inc_or_less (pf_fib (ipv4 d)) e4 \<and> inc_or_less (pf_fib (ipv6 d)) e6
     \<and> inc_or_less (pf_rules (ipv4 d)) r4 \<and> inc_or_less (pf_rules (ipv6 d)) r6
     \<and> d' = d\<lparr>ipv4 := \<lparr>pf_fib = e4, pf_rules = r4\<rparr>, ipv6 := \<lparr>pf_fib = e6, pf_rules = r6\<rparr>, fib_flush_work := fl,
            fi_refs := (\<lambda>i. fi_refs d i + (case ev of None \<Rightarrow> 0 | Some ev \<Rightarrow> ev_fis i ev)),
            rt6_refs := (\<lambda>i. rt6_refs d i + (case ev of None \<Rightarrow> 0 | Some ev \<Rightarrow> ev_rts i ev)),
            fib_event_queue := fib_event_queue d @ (case ev of None \<Rightarrow> [] | Some ev \<Rightarrow> [ev]),
            fib_event_work := (fib_event_work d \<or> ev \<noteq> None)\<rparr>)"

lemma inc_or_less_refl: "inc_or_less e e" by (simp add: inc_or_less_def)

lemma notifiedI:
  assumes "inc_or_less (pf_fib (ipv4 d)) (pf_fib p4)" "inc_or_less (pf_fib (ipv6 d)) (pf_fib p6)"
    "inc_or_less (pf_rules (ipv4 d)) (pf_rules p4)" "inc_or_less (pf_rules (ipv6 d)) (pf_rules p6)"
    and "d' = d\<lparr>ipv4 := p4, ipv6 := p6, fib_flush_work := fl,
            fi_refs := (\<lambda>i. fi_refs d i + (case ev of None \<Rightarrow> 0 | Some ev \<Rightarrow> ev_fis i ev)),
            rt6_refs := (\<lambda>i. rt6_refs d i + (case ev of None \<Rightarrow> 0 | Some ev \<Rightarrow> ev_rts i ev)),
            fib_event_queue := fib_event_queue d @ (case ev of None \<Rightarrow> [] | Some ev \<Rightarrow> [ev]),
            fib_event_work := (fib_event_work d \<or> ev \<noteq> None)\<rparr>"
  shows "notified d ev d'"
  unfolding notified_def using assms
  by (intro exI [of _ "pf_fib p4"] exI [of _ "pf_fib p6"] exI [of _ "pf_rules p4"] exI [of _ "pf_rules p6"] exI [of _ fl]) simp

lemma notified_rules:
  assumes "nsim_fib_rule_event fam add d = (err, d')"
  shows "notified d None d'"
proof -
  have acc: "inc_or_less e (snd (nsim_fib_rule_account add e))" for e
    by (auto simp: nsim_fib_rule_account_def inc_or_less_def split: option.split)
  show ?thesis
  proof (cases fam)
    case AF_INET
    with assms show ?thesis using acc
      by (intro notifiedI [of d "ipv4 d'" "ipv6 d'" _ _ "fib_flush_work d'"])
        (auto simp: nsim_fib_rule_event_def upd_rules4_def inc_or_less_refl Let_def case_prod_beta)
  next
    case AF_INET6
    with assms show ?thesis using acc
      by (intro notifiedI [of d "ipv4 d'" "ipv6 d'" _ _ "fib_flush_work d'"])
        (auto simp: nsim_fib_rule_event_def upd_rules6_def inc_or_less_refl Let_def case_prod_beta)
  next
    case (AF_other n)
    with assms show ?thesis
      by (intro notifiedI [of d "ipv4 d'" "ipv6 d'" _ _ "fib_flush_work d'"])
        (auto simp: nsim_fib_rule_event_def inc_or_less_refl)
  qed
qed

lemma self_update: "d\<lparr>ipv4 := ipv4 d\<rparr> = d" "d\<lparr>ipv4 := p, ipv6 := ipv6 d\<rparr> = d\<lparr>ipv4 := p\<rparr>" for d :: nsim_fib_data
  by (cases d, simp)+

lemma notified_schedule:
  assumes ok: "info_ok info" and sched: "nsim_fib_event_schedule_work mem mem_arr info event d = (n, d')"
  shows "notified d (if n = NOTIFY_DONE then queued event info else None) d'"
proof -
  have refused: "notified d None (if event = FIB_EVENT_ENTRY_DEL then d\<lparr>ipv4 := p4, ipv6 := p6, fib_flush_work := True\<rparr> else d\<lparr>ipv4 := p4, ipv6 := p6\<rparr>)"
    if "inc_or_less (pf_fib (ipv4 d)) (pf_fib p4)" "inc_or_less (pf_fib (ipv6 d)) (pf_fib p6)"
      "pf_rules p4 = pf_rules (ipv4 d)" "pf_rules p6 = pf_rules (ipv6 d)" for p4 p6
    by (rule notifiedI [of d p4 p6 _ _ "fib_flush_work d \<or> event = FIB_EVENT_ENTRY_DEL"]) (use that in \<open>auto simp: inc_or_less_refl\<close>)
  from refused [of "ipv4 d" "ipv6 d"]
  have refused0: "notified d None (if event = FIB_EVENT_ENTRY_DEL then d\<lparr>fib_flush_work := True\<rparr> else d)"
    by (cases "event = FIB_EVENT_ENTRY_DEL") (simp_all add: inc_or_less_refl self_update)
  show ?thesis
  proof (cases info)
    case (Info_plain f)
    with sched show ?thesis
      by (intro notifiedI [of d "ipv4 d" "ipv6 d" _ _ "fib_flush_work d"])
        (auto simp: nsim_fib_event_schedule_work_def inc_or_less_refl)
  next
    case (Info4 fen)
    show ?thesis
    proof (cases mem)
      case True
      obtain r d1 where prep: "nsim_fib4_prepare_event fen event d = (r, d1)" by fastforce
      from prepare4 [OF prep] obtain e where e: "inc_or_less (pf_fib (ipv4 d)) e"
        "if isl r then d1 = d\<lparr>ipv4 := (ipv4 d)\<lparr>pf_fib := e\<rparr>\<rparr>
         else r = Inr (Event4 event fen)
         \<and> d1 = d\<lparr>ipv4 := (ipv4 d)\<lparr>pf_fib := e\<rparr>, fi_refs := (fi_refs d)(fen_fi fen := fi_refs d (fen_fi fen) + 1)\<rparr>" by blast
      have upd: "(fi_refs d)(fen_fi fen := fi_refs d (fen_fi fen) + 1) = (\<lambda>i. fi_refs d i + (if fen_fi fen = i then 1 else 0))"
        by (auto simp: fun_eq_iff)
      show ?thesis
      proof (cases r)
        case (Inl x)
        with sched Info4 True prep e refused [of "(ipv4 d)\<lparr>pf_fib := e\<rparr>" "ipv6 d"] show ?thesis
          by (auto simp: nsim_fib_event_schedule_work_def inc_or_less_refl self_update split: if_splits)
      next
        case (Inr x)
        with sched Info4 True prep e show ?thesis
          by (intro notifiedI [of d "(ipv4 d)\<lparr>pf_fib := e\<rparr>" "ipv6 d" _ _ "fib_flush_work d"])
            (auto simp: nsim_fib_event_schedule_work_def inc_or_less_refl upd)
      qed
    qed (use sched Info4 refused0 in \<open>auto simp: nsim_fib_event_schedule_work_def\<close>)
  next
    case (Info6 fen6)
    show ?thesis
    proof (cases mem)
      case True
      obtain r d1 where prep: "nsim_fib6_prepare_event mem_arr fen6 event d = (r, d1)" by fastforce
      from prepare6 [OF _ prep] ok Info6 obtain e where e: "inc_or_less (pf_fib (ipv6 d)) e"
        "if isl r then d1 = d\<lparr>ipv6 := (ipv6 d)\<lparr>pf_fib := e\<rparr>\<rparr>
         else r = Inr (Event6 event (event6_of fen6))
         \<and> d1 = d\<lparr>ipv6 := (ipv6 d)\<lparr>pf_fib := e\<rparr>, rt6_refs := (\<lambda>i. rt6_refs d i + cnt (rt_arr (event6_of fen6)) i)\<rparr>" by blast
      show ?thesis
      proof (cases r)
        case (Inl x)
        with sched Info6 True prep e refused [of "ipv4 d" "(ipv6 d)\<lparr>pf_fib := e\<rparr>"] show ?thesis
          by (auto simp: nsim_fib_event_schedule_work_def inc_or_less_refl self_update split: if_splits)
      next
        case (Inr x)
        with sched Info6 True prep e show ?thesis
          by (intro notifiedI [of d "ipv4 d" "(ipv6 d)\<lparr>pf_fib := e\<rparr>" _ _ "fib_flush_work d"])
            (auto simp: nsim_fib_event_schedule_work_def inc_or_less_refl)
      qed
    qed (use sched Info6 refused0 in \<open>auto simp: nsim_fib_event_schedule_work_def\<close>)
  qed
qed

lemma notified_nb:
  assumes "info_ok info" and "nsim_fib_event_nb mem mem_arr event info d = (n, d')"
  shows "notified d (if entry_event event \<and> n = NOTIFY_DONE then queued event info else None) d'"
proof -
  consider "event = FIB_EVENT_RULE_ADD \<or> event = FIB_EVENT_RULE_DEL" | "entry_event event" | k where "event = FIB_EVENT_other k"
    by (cases event) (auto simp: entry_event_def)
  then show ?thesis
  proof cases
    case 1
    obtain err d1 where r: "nsim_fib_rule_event (info_family info) (event = FIB_EVENT_RULE_ADD) d = (err, d1)" by fastforce
    with notified_rules [OF r] assms(2) 1 show ?thesis by (auto simp: nsim_fib_event_nb_def entry_event_def)
  next
    case 2
    with assms(2) have "nsim_fib_event_schedule_work mem mem_arr info event d = (n, d')"
      by (auto simp: nsim_fib_event_nb_def entry_event_def)
    from notified_schedule [OF assms(1) this] 2 show ?thesis by simp
  next
    case 3
    with assms(2) show ?thesis
      by (intro notifiedI [of d "ipv4 d" "ipv6 d" _ _ "fib_flush_work d"])
        (auto simp: nsim_fib_event_nb_def entry_event_def inc_or_less_refl)
  qed
qed

section \<open>Flushing\<close>

lemma ht_remove_upd:
  "ht_remove k a (d\<lparr>flags4 := f4, ipv4 := p\<rparr>) = (ht_remove k a d)\<lparr>flags4 := f4, ipv4 := p\<rparr>"
  "ht_remove k a (d\<lparr>flags6 := f6, ipv6 := p\<rparr>) = (ht_remove k a d)\<lparr>flags6 := f6, ipv6 := p\<rparr>"
  by (simp_all add: ht_remove_def)

lemma bal_cong: "routes d' = routes d \<Longrightarrow> fi_refs d' = fi_refs d \<Longrightarrow> bal4 d' = bal4 d"
  "routes d' = routes d \<Longrightarrow> rt6_refs d' = rt6_refs d \<Longrightarrow> bal6 d' = bal6 d"
  by (simp_all add: bal4_def [abs_def] bal6_def [abs_def])

lemma flush_one:
  assumes wf: "wf_fib d" and a: "a \<in> set (fib_rt_list d)"
  shows "kept d (flush_one a d)" and "fib_rt_list (flush_one a d) = remove1 a (fib_rt_list d)"
    and "dec_or_same (pf_fib (ipv4 d)) (pf_fib (ipv4 (flush_one a d)))" and "dec_or_same (pf_fib (ipv6 d)) (pf_fib (ipv6 (flush_one a d)))"
proof -
  have tab: "wf_tab (rt_mem d) (rt_lim d) (fib_rt_ht d) (fib_rt_list d)" using wf by (simp add: wf_fib_def)
  obtain r where r: "rt_mem d a = Some r" using a wf_tabD(2) [OF tab] by blast
  have ht: "fib_rt_ht d (rt_key r) = Some a" and rok: "rt_ok r" using wf_tabD(4,5) [OF tab r] by simp_all
  have "kept d (flush_one a d) \<and> fib_rt_list (flush_one a d) = remove1 a (fib_rt_list d)
    \<and> dec_or_same (pf_fib (ipv4 d)) (pf_fib (ipv4 (flush_one a d))) \<and> dec_or_same (pf_fib (ipv6 d)) (pf_fib (ipv6 (flush_one a d)))"
  proof (cases r)
    case (Rt4 r4)
    let ?d = "d\<lparr>flags4 := (flags4 d)(fri_of_rt r4 := trapped False), ipv4 := (ipv4 d)\<lparr>pf_fib := dec_if_positive (pf_fib (ipv4 d))\<rparr>\<rparr>"
    have eq: "flush_one a d = nsim_fib4_rt_destroy a (ht_remove (f4_key r4) a ?d)"
      using r rok Rt4 ht unfolding ht_remove_upd
      by (simp add: flush_one_def nsim_fib_rt_free_def nsim_fib4_rt_free_def nsim_fib4_rt_hw_flags_set_def rt4_def ht_remove_def
          fib_alias_hw_flags_set_def account4_False upd_fib4_def)
    have R: "routes ?d = routes d" by (simp add: routes_def)
    have wf1: "wf_fib ?d" using wf by (simp add: wf_fib_def)
    have k1: "kept d ?d" by (rule kept_same [OF wf1 R]) (simp_all add: frame_def)
    have "fib_rt_ht ?d (f4_key r4) = Some a" "rt_mem ?d a = Some (Rt4 r4)" using ht r Rt4 by simp_all
    note s = destroy4 [OF wf1 this]
    show ?thesis unfolding eq using s kept_trans [OF k1 s(1)] by (simp add: dec_or_same_def)
  next
    case (Rt6 r6)
    let ?d = "d\<lparr>flags6 := fold (\<lambda>rt F. F(rt := trapped False)) (f6_nh_list r6) (flags6 d),
      ipv6 := (ipv6 d)\<lparr>pf_fib := dec_if_positive (pf_fib (ipv6 d))\<rparr>\<rparr>"
    have eq: "flush_one a d = nsim_fib6_rt_destroy a (ht_remove (f6_key r6) a ?d)"
      using r rok Rt6 ht unfolding ht_remove_upd
      by (simp add: flush_one_def nsim_fib_rt_free_def nsim_fib6_rt_free_def nsim_fib6_rt_hw_flags_set_def rt6_def ht_remove_def
          fold_hw_flags account6_False upd_fib6_def)
    have R: "routes ?d = routes d" by (simp add: routes_def)
    have wf1: "wf_fib ?d" using wf by (simp add: wf_fib_def)
    have k1: "kept d ?d" by (rule kept_same [OF wf1 R]) (simp_all add: frame_def)
    have "fib_rt_ht ?d (f6_key r6) = Some a" "rt6_at ?d a r6" using ht r Rt6 rok by (simp_all add: rt6_at_def)
    note s = destroy6 [OF wf1 this]
    show ?thesis unfolding eq using s kept_trans [OF k1 s(1)] by (simp add: dec_or_same_def)
  qed
  then show "kept d (flush_one a d)" "fib_rt_list (flush_one a d) = remove1 a (fib_rt_list d)"
    "dec_or_same (pf_fib (ipv4 d)) (pf_fib (ipv4 (flush_one a d)))" "dec_or_same (pf_fib (ipv6 d)) (pf_fib (ipv6 (flush_one a d)))"
    by blast+
qed

definition within :: "nsim_fib_entry \<Rightarrow> bool" where
  "within e \<longleftrightarrow> fe_num e \<le> fe_max e"

definition all_within :: "nsim_fib_data \<Rightarrow> bool" where
  "all_within d \<longleftrightarrow> within (pf_fib (ipv4 d)) \<and> within (pf_fib (ipv6 d)) \<and> within (pf_rules (ipv4 d)) \<and> within (pf_rules (ipv6 d))"

lemma within_dec: "within e \<Longrightarrow> within (dec_if_positive e)"
proof -
  assume w: "within e"
  show ?thesis
  proof (cases "fe_num e = 0")
    case True
    then show ?thesis using w by (simp add: dec_if_positive_def within_def)
  next
    case False
    then have "fe_num e - 1 \<le> fe_num e" by (simp add: word_le_sub1 order_less_imp_le measure_unat word_le_nat_alt)
    then show ?thesis using w by (auto simp: dec_if_positive_def within_def)
  qed
qed

lemma within_inc: "within e \<Longrightarrow> add_unless_max e = Some e' \<Longrightarrow> within e'"
  by (auto simp: within_def add_unless_max_def inc_le split: if_splits)

lemma within_steps: "within e \<Longrightarrow> dec_or_same e e' \<Longrightarrow> within e'" "within e \<Longrightarrow> inc_or_less e e' \<Longrightarrow> within e'"
  using within_dec within_inc by (auto simp: dec_or_same_def inc_or_less_def)

lemma flush_fold:
  assumes "wf_fib d" and "set lst \<subseteq> set (fib_rt_list d)" and "distinct lst"
  shows "kept d (fold flush_one lst d)" and "set (fib_rt_list (fold flush_one lst d)) = set (fib_rt_list d) - set lst"
    and "all_within d \<Longrightarrow> all_within (fold flush_one lst d)"
proof -
  have "kept d (fold flush_one lst d) \<and> set (fib_rt_list (fold flush_one lst d)) = set (fib_rt_list d) - set lst
    \<and> (all_within d \<longrightarrow> all_within (fold flush_one lst d))"
    using assms
  proof (induction lst arbitrary: d)
    case Nil
    then show ?case by (simp add: kept_refl)
  next
    case (Cons a lst)
    then have a: "a \<in> set (fib_rt_list d)" by simp
    note f = flush_one [OF Cons.prems(1) a]
    have "distinct (fib_rt_list d)" using Cons.prems(1) by (simp add: wf_fib_def wf_tab_def)
    with f(2) have lst: "set (fib_rt_list (flush_one a d)) = set (fib_rt_list d) - {a}" by simp
    have "frame (flush_one a d) = frame d" using f(1) by (simp add: kept_def)
    then have w: "all_within (flush_one a d)" if "all_within d"
      using that within_steps(1) f(3,4) by (auto simp: all_within_def frame_def)
    have "set lst \<subseteq> set (fib_rt_list (flush_one a d))" using Cons.prems lst by auto
    from Cons.IH [OF keptD [OF f(1)] this] Cons.prems(3) lst w kept_trans [OF f(1)] show ?case by auto
  qed
  then show "kept d (fold flush_one lst d)" "set (fib_rt_list (fold flush_one lst d)) = set (fib_rt_list d) - set lst"
    "all_within d \<Longrightarrow> all_within (fold flush_one lst d)" by blast+
qed

lemma empty_list_routes: "wf_fib d \<Longrightarrow> fib_rt_list d = [] \<Longrightarrow> routes d = Map.empty"
proof
  fix k
  assume "wf_fib d" "fib_rt_list d = []"
  then have "fib_rt_ht d k = None" unfolding wf_fib_def wf_tab_def by (cases "fib_rt_ht d k") auto
  then show "routes d k = None" by (simp add: routes_def tab_routes_def)
qed

lemma flush_list:
  assumes "wf_fib d"
  shows "kept d (flush_list d)" and "fib_rt_list (flush_list d) = []" and "routes (flush_list d) = Map.empty"
    and "all_within d \<Longrightarrow> all_within (flush_list d)"
proof -
  have "distinct (fib_rt_list d)" using assms by (simp add: wf_fib_def wf_tab_def)
  note f = flush_fold [OF assms subset_refl this]
  from f show 1: "kept d (flush_list d)" "fib_rt_list (flush_list d) = []" "all_within d \<Longrightarrow> all_within (flush_list d)"
    by (simp_all add: flush_list_def)
  show "routes (flush_list d) = Map.empty" by (rule empty_list_routes [OF keptD [OF 1(1)] 1(2)])
qed

section \<open>The invariant\<close>

definition held4 :: "nat \<Rightarrow> nsim_fib_event list \<Rightarrow> int" where
  "held4 i evs = (\<Sum>ev \<leftarrow> evs. ev_fis i ev)"

definition held6 :: "nat \<Rightarrow> nsim_fib_event list \<Rightarrow> int" where
  "held6 i evs = (\<Sum>ev \<leftarrow> evs. ev_rts i ev)"

lemma held_simps [simp]:
  "held4 i [] = 0" "held4 i (ev # evs) = ev_fis i ev + held4 i evs" "held4 i (evs @ evs') = held4 i evs + held4 i evs'"
  "held6 i [] = 0" "held6 i (ev # evs) = ev_rts i ev + held6 i evs" "held6 i (evs @ evs') = held6 i evs + held6 i evs'"
  by (simp_all add: held4_def held6_def)

text \<open>
  \<open>evs\<close> are the events the work has taken from the queue and not handled yet; \<open>o4\<close> and \<open>o6\<close> are the
  references that others hold.
\<close>

definition fib_inv :: "(nat \<Rightarrow> int) \<Rightarrow> (nat \<Rightarrow> int) \<Rightarrow> nsim_fib_event list \<Rightarrow> nsim_fib_data \<Rightarrow> bool" where
  "fib_inv o4 o6 evs d \<longleftrightarrow> wf_fib d \<and> (\<forall>ev \<in> set (evs @ fib_event_queue d). ev_ok ev)
     \<and> (\<forall>i. bal4 d i = o4 i + held4 i (evs @ fib_event_queue d)) \<and> (\<forall>i. bal6 d i = o6 i + held6 i (evs @ fib_event_queue d))
     \<and> (fib_event_queue d \<noteq> [] \<longrightarrow> fib_event_work d) \<and> all_within d"

lemma all_within_steps:
  assumes "all_within d" and "frame d' = frame d" and "dec_or_same (pf_fib (ipv4 d)) (pf_fib (ipv4 d'))"
    and "dec_or_same (pf_fib (ipv6 d)) (pf_fib (ipv6 d'))"
  shows "all_within d'"
  using assms within_steps(1) by (auto simp: all_within_def frame_def)

lemma frame_queue: "frame d' = frame d \<Longrightarrow> fib_event_queue d' = fib_event_queue d \<and> fib_event_work d' = fib_event_work d
    \<and> fib_flush_work d' = fib_flush_work d \<and> nexthops d' = nexthops d \<and> nexthop_ht d' = nexthop_ht d"
  by (simp add: frame_def)

lemma fib_inv_handle:
  assumes "fib_inv o4 o6 (ev # evs) d"
  shows "fib_inv o4 o6 evs (nsim_fib_event env ev d)"
proof -
  have wf: "wf_fib d" and ok: "ev_ok ev" and w: "all_within d" using assms by (simp_all add: fib_inv_def)
  note s = event_step [OF wf ok, of env]
  note q = frame_queue [OF s(2)]
  from assms s q all_within_steps [OF w s(2,5,6)] show ?thesis by (simp add: fib_inv_def)
qed

lemma fib_inv_handle_all: "fib_inv o4 o6 evs d \<Longrightarrow> fib_inv o4 o6 [] (handle_all env i evs d)"
  by (induction evs arbitrary: d i) (auto dest: fib_inv_handle)

lemma fib_inv_splice:
  "fib_inv o4 o6 [] d \<Longrightarrow> fib_inv o4 o6 (fib_event_queue d) (d\<lparr>fib_event_queue := [], fib_event_work := False\<rparr>)"
proof -
  assume inv: "fib_inv o4 o6 [] d"
  let ?d = "d\<lparr>fib_event_queue := [], fib_event_work := False\<rparr>"
  have "bal4 ?d = bal4 d" "bal6 ?d = bal6 d" by (rule bal_cong; simp add: routes_def)+
  with inv show ?thesis by (simp add: fib_inv_def wf_fib_def all_within_def)
qed

lemma fib_inv_work: "fib_inv o4 o6 [] d \<Longrightarrow> fib_inv o4 o6 [] (nsim_fib_event_work env d)"
  unfolding nsim_fib_event_work_def by (intro fib_inv_handle_all fib_inv_splice)

lemma handle_all_queue: "wf_fib d \<Longrightarrow> \<forall>ev \<in> set evs. ev_ok ev \<Longrightarrow> fib_event_queue (handle_all env i evs d) = fib_event_queue d
    \<and> fib_event_work (handle_all env i evs d) = fib_event_work d \<and> fib_flush_work (handle_all env i evs d) = fib_flush_work d
    \<and> nexthops (handle_all env i evs d) = nexthops d \<and> nexthop_ht (handle_all env i evs d) = nexthop_ht d"
proof (induction evs arbitrary: d i)
  case (Cons ev evs)
  then have ok: "ev_ok ev" by simp
  note s = event_step [OF Cons.prems(1) ok, of "env i"]
  from Cons.IH [OF s(1)] Cons.prems(2) frame_queue [OF s(2)] show ?case by simp
qed simp

text \<open>After \<open>flush_work\<close> the queue is empty.\<close>

lemma flush_event_work:
  assumes inv: "fib_inv o4 o6 [] d"
  shows "fib_inv o4 o6 [] (flush_event_work env d)" and "fib_event_queue (flush_event_work env d) = []"
    and "\<not> fib_event_work (flush_event_work env d)"
    and "nexthops (flush_event_work env d) = nexthops d" and "nexthop_ht (flush_event_work env d) = nexthop_ht d"
proof -
  show "fib_inv o4 o6 [] (flush_event_work env d)" using inv fib_inv_work by (simp add: flush_event_work_def)
  let ?d = "d\<lparr>fib_event_queue := [], fib_event_work := False\<rparr>"
  have "wf_fib ?d" "\<forall>ev \<in> set (fib_event_queue d). ev_ok ev" using inv by (simp_all add: fib_inv_def wf_fib_def)
  note h = handle_all_queue [OF this, of env 0]
  show "fib_event_queue (flush_event_work env d) = []" "\<not> fib_event_work (flush_event_work env d)"
    "nexthops (flush_event_work env d) = nexthops d" "nexthop_ht (flush_event_work env d) = nexthop_ht d"
    using h inv by (auto simp: flush_event_work_def nsim_fib_event_work_def fib_inv_def)
qed

lemma fib_inv_kept: "fib_inv o4 o6 evs d \<Longrightarrow> kept d d' \<Longrightarrow> (all_within d \<Longrightarrow> all_within d') \<Longrightarrow> fib_inv o4 o6 evs d'"
  using frame_queue [of d' d] by (simp add: fib_inv_def kept_def)

lemma fib_inv_flush_list: "fib_inv o4 o6 evs d \<Longrightarrow> fib_inv o4 o6 evs (flush_list d)"
proof (rule fib_inv_kept)
  assume "fib_inv o4 o6 evs d"
  then have wf: "wf_fib d" by (simp add: fib_inv_def)
  show "kept d (flush_list d)" using flush_list(1) [OF wf] .
  show "all_within (flush_list d)" if "all_within d" using flush_list(4) [OF wf that] .
qed

lemma fib_inv_flush: "fib_inv o4 o6 [] d \<Longrightarrow> fib_inv o4 o6 [] (nsim_fib_flush_work env d)"
proof -
  assume inv: "fib_inv o4 o6 [] d"
  have "bal4 (d\<lparr>fib_flush_work := False\<rparr>) = bal4 d" "bal6 (d\<lparr>fib_flush_work := False\<rparr>) = bal6 d"
    by (rule bal_cong; simp add: routes_def)+
  with inv have "fib_inv o4 o6 [] (d\<lparr>fib_flush_work := False\<rparr>)" by (simp add: fib_inv_def wf_fib_def all_within_def)
  then show ?thesis unfolding nsim_fib_flush_work_def by (intro fib_inv_flush_list flush_event_work(1))
qed

lemma fib_inv_notified:
  assumes inv: "fib_inv o4 o6 evs d" and n: "notified d ev d'" and ok: "\<forall>e. ev = Some e \<longrightarrow> ev_ok e"
  shows "fib_inv o4 o6 evs d'"
proof -
  from n obtain e4 e6 r4 r6 fl where occ: "inc_or_less (pf_fib (ipv4 d)) e4" "inc_or_less (pf_fib (ipv6 d)) e6"
    "inc_or_less (pf_rules (ipv4 d)) r4" "inc_or_less (pf_rules (ipv6 d)) r6"
    and d': "d' = d\<lparr>ipv4 := \<lparr>pf_fib = e4, pf_rules = r4\<rparr>, ipv6 := \<lparr>pf_fib = e6, pf_rules = r6\<rparr>, fib_flush_work := fl,
            fi_refs := (\<lambda>i. fi_refs d i + (case ev of None \<Rightarrow> 0 | Some ev \<Rightarrow> ev_fis i ev)),
            rt6_refs := (\<lambda>i. rt6_refs d i + (case ev of None \<Rightarrow> 0 | Some ev \<Rightarrow> ev_rts i ev)),
            fib_event_queue := fib_event_queue d @ (case ev of None \<Rightarrow> [] | Some ev \<Rightarrow> [ev]),
            fib_event_work := (fib_event_work d \<or> ev \<noteq> None)\<rparr>"
    unfolding notified_def by blast
  have "all_within d'" using inv occ within_steps(2) by (auto simp: fib_inv_def all_within_def d')
  then show ?thesis using inv ok
    by (cases ev) (auto simp: fib_inv_def d' wf_fib_def bal4_def bal6_def routes_def)
qed

lemma queued_ok: "info_ok info \<Longrightarrow> queued event info = Some ev \<Longrightarrow> ev_ok ev"
  using event6_of_ok by (cases info) auto

lemma fib_inv_nb:
  assumes "fib_inv o4 o6 evs d" and "info_ok info"
  shows "fib_inv o4 o6 evs (snd (nsim_fib_event_nb mem mem_arr event info d))"
proof -
  obtain n d' where nb: "nsim_fib_event_nb mem mem_arr event info d = (n, d')" by fastforce
  from fib_inv_notified [OF assms(1) notified_nb [OF assms(2) nb]] queued_ok [OF assms(2)] show ?thesis
    by (simp add: nb split: if_splits)
qed

end
