(* ===== verification/Nsim_Nexthop.thy ===== *)
theory Nsim_Nexthop
  imports Nsim_Fib Map_Total
begin

text \<open>
  The offload of nexthops in \<open>netdevsim/fib.c\<close>: every nexthop takes as many units of the resource as
  it has entries, and is accounted for as a whole or refused.
\<close>

section \<open>The code\<close>

text \<open>The kinds of \<open>struct nh_notifier_info\<close>: a group has the weights of its entries, a table its buckets.\<close>

datatype nh_info_type =
  NH_NOTIFIER_INFO_TYPE_SINGLE | NH_NOTIFIER_INFO_TYPE_GRP "nat list" | NH_NOTIFIER_INFO_TYPE_RES_TABLE nat
| NH_NOTIFIER_INFO_TYPE_other | NH_NOTIFIER_INFO_TYPE_RES_BUCKET nat

record nh_notifier_info =
  nhi_id :: u32
  nhi_type :: nh_info_type

datatype nexthop_event =
  NEXTHOP_EVENT_DEL | NEXTHOP_EVENT_REPLACE | NEXTHOP_EVENT_RES_TABLE_PRE_REPLACE | NEXTHOP_EVENT_BUCKET_REPLACE | NEXTHOP_EVENT_other

definition nsim_nexthop_create :: "bool \<Rightarrow> nh_notifier_info \<Rightarrow> errno + nsim_nexthop" where
  "nsim_nexthop_create mem info =
     (if \<not> mem then Inl ENOMEM
      else let nh = \<lparr>nh_occ = 0, nh_id = nhi_id info, is_resilient = False\<rparr>
           in case nhi_type info of
                NH_NOTIFIER_INFO_TYPE_SINGLE \<Rightarrow> Inr (nh\<lparr>nh_occ := 1\<rparr>)
              | NH_NOTIFIER_INFO_TYPE_GRP ws \<Rightarrow> Inr (nh\<lparr>nh_occ := fold (\<lambda>w occ. occ + of_nat w) ws 0\<rparr>)
              | NH_NOTIFIER_INFO_TYPE_RES_TABLE n \<Rightarrow> Inr (nh\<lparr>nh_occ := of_nat n, is_resilient := True\<rparr>)
              | _ \<Rightarrow> Inl EOPNOTSUPP)"

text \<open>
  Taking units one by one, as far as the resource goes: how many are left to take, and the entry. The C
  counts them in an \<open>int\<close>, which is enough for an occupancy below \<open>2 ^ 31\<close>.
\<close>

fun take_units :: "nat \<Rightarrow> nsim_fib_entry \<Rightarrow> nat \<times> nsim_fib_entry" where
  "take_units 0 e = (0, e)"
| "take_units (Suc n) e = (case add_unless_max e of None \<Rightarrow> (Suc n, e) | Some e \<Rightarrow> take_units n e)"

definition nsim_nexthop_account :: "u64 \<Rightarrow> bool \<Rightarrow> nsim_fib_data \<Rightarrow> ret \<times> nsim_fib_data" where
  "nsim_nexthop_account occ add d =
     (if add then
        (let (left, e) = take_units (unat occ) (nexthops d)
         in if left = 0 then (None, d\<lparr>nexthops := e\<rparr>)
            else (Some ENOSPC, d\<lparr>nexthops := e\<lparr>fe_num := fe_num e - of_nat (unat occ - left)\<rparr>\<rparr>))
      else if occ > fe_num (nexthops d) then (Some EINVAL, d\<lparr>fib_warned := True\<rparr>)
      else (None, upd_nexthops (\<lambda>e. e\<lparr>fe_num := fe_num e - occ\<rparr>) d))"

definition nsim_nexthop_hw_flags_set :: "nsim_nexthop \<Rightarrow> bool \<Rightarrow> nsim_fib_data \<Rightarrow> nsim_fib_data" where
  "nsim_nexthop_hw_flags_set nh t d =
     (let d = d\<lparr>nh_trap := (nh_trap d)(nh_id nh := t)\<rparr>
      in if \<not> is_resilient nh then d
         else d\<lparr>bucket_trap := (bucket_trap d)
                  (nh_id nh := (\<lambda>i. if i < unat (nh_occ nh) then t else bucket_trap d (nh_id nh) i))\<rparr>)"

text \<open>The result of the hash table is an argument where it can fail.\<close>

definition nsim_nexthop_add :: "ret \<Rightarrow> nsim_nexthop \<Rightarrow> nsim_fib_data \<Rightarrow> ret \<times> nsim_fib_data" where
  "nsim_nexthop_add ht nh d =
     (case nsim_nexthop_account (nh_occ nh) True d of
        (Some e, d) \<Rightarrow> (Some e, d)
      | (None, d) \<Rightarrow>
          (case ht of
             Some e \<Rightarrow> (Some e, snd (nsim_nexthop_account (nh_occ nh) False d))
           | None \<Rightarrow> (None, nsim_nexthop_hw_flags_set nh True (d\<lparr>nexthop_ht := (nexthop_ht d)(nh_id nh \<mapsto> nh)\<rparr>))))"

definition nsim_nexthop_replace :: "ret \<Rightarrow> nsim_nexthop \<Rightarrow> nsim_nexthop \<Rightarrow> nsim_fib_data \<Rightarrow> ret \<times> nsim_fib_data" where
  "nsim_nexthop_replace ht nh old d =
     (case nsim_nexthop_account (nh_occ nh) True d of
        (Some e, d) \<Rightarrow> (Some e, d)
      | (None, d) \<Rightarrow>
          (case ht of
             Some e \<Rightarrow> (Some e, snd (nsim_nexthop_account (nh_occ nh) False d))
           | None \<Rightarrow>
               (let d = nsim_nexthop_hw_flags_set nh True (d\<lparr>nexthop_ht := (nexthop_ht d)(nh_id nh \<mapsto> nh)\<rparr>)
                in (None, snd (nsim_nexthop_account (nh_occ old) False d)))))"

definition nsim_nexthop_insert :: "bool \<Rightarrow> ret \<Rightarrow> nh_notifier_info \<Rightarrow> nsim_fib_data \<Rightarrow> ret \<times> nsim_fib_data" where
  "nsim_nexthop_insert mem ht info d =
     (case nsim_nexthop_create mem info of
        Inl e \<Rightarrow> (Some e, d)
      | Inr nh \<Rightarrow>
          (case nexthop_ht d (nhi_id info) of
             None \<Rightarrow> nsim_nexthop_add ht nh d
           | Some old \<Rightarrow> nsim_nexthop_replace ht nh old d))"

definition nsim_nexthop_remove :: "nh_notifier_info \<Rightarrow> nsim_fib_data \<Rightarrow> nsim_fib_data" where
  "nsim_nexthop_remove info d =
     (case nexthop_ht d (nhi_id info) of
        None \<Rightarrow> d
      | Some nh \<Rightarrow>
          snd (nsim_nexthop_account (nh_occ nh) False (d\<lparr>nexthop_ht := (nexthop_ht d)(nhi_id info := None)\<rparr>)))"

definition nsim_nexthop_res_table_pre_replace :: "nsim_fib_data \<Rightarrow> ret" where
  "nsim_nexthop_res_table_pre_replace d = (if fail_res_nexthop_group_replace d then Some EINVAL else None)"

definition nsim_nexthop_bucket_replace :: "nh_notifier_info \<Rightarrow> nsim_fib_data \<Rightarrow> ret \<times> nsim_fib_data" where
  "nsim_nexthop_bucket_replace info d =
     (if fail_nexthop_bucket_replace d then (Some EINVAL, d)
      else case nhi_type info of
             NH_NOTIFIER_INFO_TYPE_RES_BUCKET i \<Rightarrow>
               (None, d\<lparr>bucket_trap := (bucket_trap d)(nhi_id info := (bucket_trap d (nhi_id info))(i := True))\<rparr>)
           | _ \<Rightarrow> (None, bad_access d))"

definition nsim_nexthop_event_nb ::
    "bool \<Rightarrow> ret \<Rightarrow> nexthop_event \<Rightarrow> nh_notifier_info \<Rightarrow> nsim_fib_data \<Rightarrow> notify \<times> nsim_fib_data" where
  "nsim_nexthop_event_nb mem ht event info d =
     (let (err, d) = (case event of
             NEXTHOP_EVENT_REPLACE \<Rightarrow> nsim_nexthop_insert mem ht info d
           | NEXTHOP_EVENT_DEL \<Rightarrow> (None, nsim_nexthop_remove info d)
           | NEXTHOP_EVENT_RES_TABLE_PRE_REPLACE \<Rightarrow> (nsim_nexthop_res_table_pre_replace d, d)
           | NEXTHOP_EVENT_BUCKET_REPLACE \<Rightarrow> nsim_nexthop_bucket_replace info d
           | NEXTHOP_EVENT_other \<Rightarrow> (None, d))
      in (notifier_from_errno err, d))"

definition nsim_nexthop_free :: "nsim_nexthop \<Rightarrow> nsim_fib_data \<Rightarrow> nsim_fib_data" where
  "nsim_nexthop_free nh d = snd (nsim_nexthop_account (nh_occ nh) False (nsim_nexthop_hw_flags_set nh False d))"

text \<open>
  Writing the activity of a bucket: whether the text could be copied, what \<open>sscanf\<close> makes of it, the memory
  for the bitmap. \<open>Inr\<close> is the number of bytes taken.
\<close>

definition nsim_nexthop_bucket_activity_write ::
    "bool \<Rightarrow> (u32 \<times> 16 word) option \<Rightarrow> bool \<Rightarrow> nat \<Rightarrow> int \<Rightarrow> nsim_fib_data \<Rightarrow> (errno + nat) \<times> nsim_fib_data" where
  "nsim_nexthop_bucket_activity_write copied parsed mem count pos d =
     (if pos \<noteq> 0 then (Inl EINVAL, d)
      else if count > 128 then (Inl EINVAL, d)
      else if \<not> copied then (Inl EFAULT, d)
      else case parsed of
             None \<Rightarrow> (Inl EINVAL, d)
           | Some (nhid, bucket_index) \<Rightarrow>
               (case nexthop_ht d nhid of
                  None \<Rightarrow> (Inl EINVAL, d)
                | Some nh \<Rightarrow>
                    if \<not> is_resilient nh \<or> ucast bucket_index \<ge> nh_occ nh then (Inl EINVAL, d)
                    else if \<not> mem then (Inl ENOMEM, d)
                    else (Inr count, d\<lparr>nh_activity := nh_activity d @ [(nhid, nh_occ nh, unat bucket_index)]\<rparr>)))"

section \<open>Occupancy\<close>

definition occupancy :: "nsim_fib_data \<Rightarrow> int" where
  "occupancy d = total (\<lambda>nh. uint (nh_occ nh)) (nexthop_ht d)"

definition nh_inv :: "nsim_fib_data \<Rightarrow> bool" where
  "nh_inv d \<longleftrightarrow> finite (dom (nexthop_ht d)) \<and> uint (fe_num (nexthops d)) = occupancy d
     \<and> fe_num (nexthops d) \<le> fe_max (nexthops d) \<and> (\<forall>k nh. nexthop_ht d k = Some nh \<longrightarrow> nh_id nh = k)"

lemma nexthop_of_create: "nsim_nexthop_create mem info = Inr nh \<Longrightarrow> nh_id nh = nhi_id info"
  by (auto simp: nsim_nexthop_create_def Let_def split: if_splits nh_info_type.splits)

lemma take_units_spec:
  assumes "fe_num e \<le> fe_max e"
  shows "take_units n e =
    (n - (unat (fe_max e) - unat (fe_num e)), e\<lparr>fe_num := fe_num e + of_nat (min n (unat (fe_max e) - unat (fe_num e)))\<rparr>)"
  using assms
proof (induction n arbitrary: e)
  case (Suc n)
  show ?case
  proof (cases "fe_num e = fe_max e")
    case False
    then have less: "fe_num e < fe_max e" using Suc.prems by simp
    then have up: "unat (fe_num e + 1) = unat (fe_num e) + 1"
      using unsigned_less [of "fe_max e", where ?'a = nat] by (simp add: unat_word_ariths word_less_nat_alt)
    then have le: "fe_num e + 1 \<le> fe_max e" using less by (simp add: word_le_nat_alt word_less_nat_alt)
    have "unat (fe_max e) - unat (fe_num e) = Suc (unat (fe_max e) - Suc (unat (fe_num e)))"
      using less by (simp add: word_less_nat_alt)
    with Suc.IH [of "e\<lparr>fe_num := fe_num e + 1\<rparr>"] le up False show ?thesis
      by (simp add: add_unless_max_def algebra_simps)
  qed (simp add: add_unless_max_def)
qed simp

text \<open>All units, or none.\<close>

lemma account_add:
  assumes "fe_num (nexthops d) \<le> fe_max (nexthops d)"
  shows "nsim_nexthop_account occ True d =
    (if uint occ + uint (fe_num (nexthops d)) \<le> uint (fe_max (nexthops d))
     then (None, d\<lparr>nexthops := (nexthops d)\<lparr>fe_num := fe_num (nexthops d) + occ\<rparr>\<rparr>)
     else (Some ENOSPC, d))"
proof -
  let ?room = "unat (fe_max (nexthops d)) - unat (fe_num (nexthops d))"
  have le: "unat (fe_num (nexthops d)) \<le> unat (fe_max (nexthops d))"
    using assms by (simp add: word_le_nat_alt)
  have fits: "uint occ + uint (fe_num (nexthops d)) \<le> uint (fe_max (nexthops d)) \<longleftrightarrow> unat occ \<le> ?room"
    using le by (simp only: uint_nat) linarith
  show ?thesis
  proof (cases "unat occ \<le> ?room")
    case True
    with fits show ?thesis by (simp add: nsim_nexthop_account_def take_units_spec [OF assms])
  next
    case False
    then have "unat occ - (unat occ - ?room) = ?room" by simp
    with False fits show ?thesis by (simp add: nsim_nexthop_account_def take_units_spec [OF assms])
  qed
qed

lemma account_sub:
  "occ \<le> fe_num (nexthops d) \<Longrightarrow>
   nsim_nexthop_account occ False d = (None, d\<lparr>nexthops := (nexthops d)\<lparr>fe_num := fe_num (nexthops d) - occ\<rparr>\<rparr>)"
  by (simp add: nsim_nexthop_account_def upd_nexthops_def)

lemma uint_slack:
  fixes a c :: int and w :: u64
  assumes "a \<le> c"
  shows "a - uint w \<le> c" and "a \<le> c + uint w"
  using assms unsigned_greater_eq [of w, where ?'a = int] by linarith+

lemma word_add_exact: "uint (a :: u64) + uint b \<le> uint (c :: u64) \<Longrightarrow> uint (a + b) = uint a + uint b"
  using uint_lt2p [of c] by (simp add: uint_plus_if')

lemma word_diff_exact: "(b :: u64) \<le> a \<Longrightarrow> uint (a - b) = uint a - uint b"
  by (simp add: uint_sub_lem word_le_def)

lemma hw_flags_keep [simp]:
  "nexthops (nsim_nexthop_hw_flags_set nh t d) = nexthops d" "nexthop_ht (nsim_nexthop_hw_flags_set nh t d) = nexthop_ht d"
  by (simp_all add: nsim_nexthop_hw_flags_set_def Let_def)

lemma occ_le_num: "nh_inv d \<Longrightarrow> nexthop_ht d k = Some nh \<Longrightarrow> nh_occ nh \<le> fe_num (nexthops d)"
  using weight_le_total [of "nexthop_ht d" "\<lambda>nh. uint (nh_occ nh)" k]
  by (simp add: nh_inv_def occupancy_def word_le_def)

text \<open>Putting a nexthop into the table, in the place of the one of its number if there is one.\<close>

definition put_nexthop :: "nsim_nexthop \<Rightarrow> nsim_fib_data \<Rightarrow> nsim_fib_data" where
  "put_nexthop nh d =
     (let occ_old = (case nexthop_ht d (nh_id nh) of None \<Rightarrow> 0 | Some old \<Rightarrow> nh_occ old);
          d1 = nsim_nexthop_hw_flags_set nh True
                 (d\<lparr>nexthops := (nexthops d)\<lparr>fe_num := fe_num (nexthops d) + nh_occ nh\<rparr>, nexthop_ht := (nexthop_ht d)(nh_id nh \<mapsto> nh)\<rparr>)
      in d1\<lparr>nexthops := (nexthops d)\<lparr>fe_num := fe_num (nexthops d) + nh_occ nh - occ_old\<rparr>\<rparr>)"

lemma insert_spec:
  assumes inv: "nh_inv d" and create: "nsim_nexthop_create mem info = Inr nh"
  shows "nsim_nexthop_insert mem ht info d =
    (if uint (nh_occ nh) + occupancy d \<le> uint (fe_max (nexthops d))
     then (case ht of Some e \<Rightarrow> (Some e, d) | None \<Rightarrow> (None, put_nexthop nh d))
     else (Some ENOSPC, d))"
proof -
  let ?d = "d\<lparr>nexthops := (nexthops d)\<lparr>fe_num := fe_num (nexthops d) + nh_occ nh\<rparr>\<rparr>"
  have num: "uint (fe_num (nexthops d)) = occupancy d" "fe_num (nexthops d) \<le> fe_max (nexthops d)"
    using inv by (simp_all add: nh_inv_def)
  have nhid: "nh_id nh = nhi_id info" using nexthop_of_create [OF create] .
  note add = account_add [OF num(2), of "nh_occ nh", unfolded num(1)]
  show ?thesis
  proof (cases "uint (nh_occ nh) + occupancy d \<le> uint (fe_max (nexthops d))")
    case True
    then have exact: "uint (fe_num (nexthops d) + nh_occ nh) = occupancy d + uint (nh_occ nh)"
      using word_add_exact [of "fe_num (nexthops d)" "nh_occ nh" "fe_max (nexthops d)"] num by (simp add: add.commute)
    have le: "nh_occ nh \<le> fe_num (nexthops d) + nh_occ nh"
      using exact num(1) unsigned_greater_eq [of "fe_num (nexthops d)", where ?'a = int] by (simp add: word_le_def)
    have "old_occ \<le> fe_num (nexthops d) + nh_occ nh" if "nexthop_ht d (nhi_id info) = Some old" "old_occ = nh_occ old" for old old_occ
      using occ_le_num [OF inv that(1)] that(2) exact num(1) by (simp add: word_le_def uint_slack)
    note old = this [OF _ refl]
    have undo: "snd (nsim_nexthop_account (nh_occ nh) False ?d) = d" using le by (simp add: account_sub)
    show ?thesis
      using True add old undo le
      by (auto simp: nsim_nexthop_insert_def create nsim_nexthop_add_def nsim_nexthop_replace_def put_nexthop_def Let_def nhid
          account_sub nsim_nexthop_hw_flags_set_def split: option.split)
  next
    case False
    with add show ?thesis
      by (auto simp: nsim_nexthop_insert_def create nsim_nexthop_add_def nsim_nexthop_replace_def split: option.split)
  qed
qed

lemma put_nexthop_inv:
  assumes inv: "nh_inv d" and room: "uint (nh_occ nh) + occupancy d \<le> uint (fe_max (nexthops d))"
  shows "nh_inv (put_nexthop nh d)" and "nexthop_ht (put_nexthop nh d) = (nexthop_ht d)(nh_id nh \<mapsto> nh)"
    and "fe_max (nexthops (put_nexthop nh d)) = fe_max (nexthops d)"
proof -
  let ?occ = "case nexthop_ht d (nh_id nh) of None \<Rightarrow> 0 | Some old \<Rightarrow> nh_occ old"
  show ht: "nexthop_ht (put_nexthop nh d) = (nexthop_ht d)(nh_id nh \<mapsto> nh)"
    and fe_max: "fe_max (nexthops (put_nexthop nh d)) = fe_max (nexthops d)"
    by (simp_all add: put_nexthop_def Let_def)
  have num: "uint (fe_num (nexthops d)) = occupancy d" "finite (dom (nexthop_ht d))"
    using inv by (simp_all add: nh_inv_def)
  have occ: "uint ?occ = weight (\<lambda>nh. uint (nh_occ nh)) (nexthop_ht d (nh_id nh))"
    by (simp split: option.split)
  have exact: "uint (fe_num (nexthops d) + nh_occ nh) = occupancy d + uint (nh_occ nh)"
    using word_add_exact [of "fe_num (nexthops d)" "nh_occ nh" "fe_max (nexthops d)"] num room by (simp add: add.commute)
  have w: "uint ?occ \<le> occupancy d"
    unfolding occ occupancy_def by (rule weight_le_total [OF num(2)]) simp
  then have "?occ \<le> fe_num (nexthops d) + nh_occ nh"
    unfolding word_le_def exact by (rule uint_slack)
  then have sub: "uint (fe_num (nexthops d) + nh_occ nh - ?occ) = occupancy d + uint (nh_occ nh) - uint ?occ"
    using word_diff_exact exact by simp
  have "occupancy (put_nexthop nh d) = occupancy d + uint (nh_occ nh) - uint ?occ"
    unfolding occupancy_def ht total_upd [OF num(2)] occ by simp
  moreover have "fe_num (nexthops (put_nexthop nh d)) = fe_num (nexthops d) + nh_occ nh - ?occ"
    by (simp add: put_nexthop_def Let_def)
  ultimately show "nh_inv (put_nexthop nh d)"
    using inv room sub w unfolding nh_inv_def ht fe_max by (auto simp: word_le_def add.commute uint_slack)
qed

lemma remove_inv:
  assumes inv: "nh_inv d"
  shows "nh_inv (nsim_nexthop_remove info d)" and "nexthop_ht (nsim_nexthop_remove info d) = (nexthop_ht d)(nhi_id info := None)"
    and "fe_max (nexthops (nsim_nexthop_remove info d)) = fe_max (nexthops d)"
proof -
  let ?d = "nsim_nexthop_remove info d"
  have fin: "finite (dom (nexthop_ht d))" using inv by (simp add: nh_inv_def)
  consider "nexthop_ht d (nhi_id info) = None" | nh where "nexthop_ht d (nhi_id info) = Some nh" by fastforce
  then have "nh_inv ?d \<and> nexthop_ht ?d = (nexthop_ht d)(nhi_id info := None) \<and> fe_max (nexthops ?d) = fe_max (nexthops d)"
  proof cases
    case 1
    then show ?thesis using inv by (auto simp: nsim_nexthop_remove_def fun_eq_iff)
  next
    case 2
    note le = occ_le_num [OF inv 2]
    have "uint (fe_num (nexthops d) - nh_occ nh) = occupancy d - uint (nh_occ nh)"
      using word_diff_exact [OF le] inv by (simp add: nh_inv_def)
    moreover have "total (\<lambda>nh. uint (nh_occ nh)) ((nexthop_ht d)(nhi_id info := None)) = occupancy d - uint (nh_occ nh)"
      using total_del [OF fin, of "\<lambda>nh. uint (nh_occ nh)" "nhi_id info"] 2 by (simp add: occupancy_def)
    ultimately show ?thesis
      using inv le 2 word_diff_exact [OF le]
      by (auto simp: uint_slack nsim_nexthop_remove_def account_sub nh_inv_def occupancy_def word_le_def)
  qed
  then show "nh_inv ?d" "nexthop_ht ?d = (nexthop_ht d)(nhi_id info := None)" "fe_max (nexthops ?d) = fe_max (nexthops d)"
    by simp_all
qed

section \<open>Events\<close>

text \<open>Everything that happens to the nexthops: events, writes to debugfs, and the switches there that make events fail.\<close>

datatype nh_op =
    Nh_event bool ret nexthop_event nh_notifier_info
  | Nh_write bool "(u32 \<times> 16 word) option" bool nat int
  | Nh_switch bool bool

primrec nh_step :: "nh_op \<Rightarrow> nsim_fib_data \<Rightarrow> nsim_fib_data" where
  "nh_step (Nh_event mem ht event info) d = snd (nsim_nexthop_event_nb mem ht event info d)"
| "nh_step (Nh_write copied parsed mem count pos) d = snd (nsim_nexthop_bucket_activity_write copied parsed mem count pos d)"
| "nh_step (Nh_switch grp bucket) d = d\<lparr>fail_res_nexthop_group_replace := grp, fail_nexthop_bucket_replace := bucket\<rparr>"

definition nh_run :: "nh_op list \<Rightarrow> nsim_fib_data \<Rightarrow> nsim_fib_data" where
  "nh_run ops d = fold nh_step ops d"

lemma write_keeps [simp]:
  "nexthops (snd (nsim_nexthop_bucket_activity_write c p m n pos d)) = nexthops d"
  "nexthop_ht (snd (nsim_nexthop_bucket_activity_write c p m n pos d)) = nexthop_ht d"
  by (simp_all add: nsim_nexthop_bucket_activity_write_def split: option.split prod.split)

lemma bucket_replace_keeps [simp]:
  "nexthops (snd (nsim_nexthop_bucket_replace info d)) = nexthops d"
  "nexthop_ht (snd (nsim_nexthop_bucket_replace info d)) = nexthop_ht d"
  by (simp_all add: nsim_nexthop_bucket_replace_def bad_access_def split: nh_info_type.split)

lemma nh_inv_cong: "nexthops d' = nexthops d \<Longrightarrow> nexthop_ht d' = nexthop_ht d \<Longrightarrow> nh_inv d' = nh_inv d"
  by (simp add: nh_inv_def occupancy_def)

lemma insert_keeps:
  assumes "nh_inv d" and "nsim_nexthop_insert mem ht info d = (err, d')"
  shows "nh_inv d'" and "fe_max (nexthops d') = fe_max (nexthops d)" and "err \<noteq> None \<Longrightarrow> d' = d"
proof -
  have "nh_inv d' \<and> fe_max (nexthops d') = fe_max (nexthops d) \<and> (err \<noteq> None \<longrightarrow> d' = d)"
  proof (cases "nsim_nexthop_create mem info")
    case (Inl e)
    then show ?thesis using assms by (auto simp: nsim_nexthop_insert_def)
  next
    case (Inr nh)
    show ?thesis
      using insert_spec [OF assms(1) Inr, of ht] assms put_nexthop_inv [OF assms(1), of nh]
      by (auto split: if_splits option.splits)
  qed
  then show "nh_inv d'" "fe_max (nexthops d') = fe_max (nexthops d)" "err \<noteq> None \<Longrightarrow> d' = d" by simp_all
qed

lemma nh_step_inv: "nh_inv d \<Longrightarrow> nh_inv (nh_step op d) \<and> fe_max (nexthops (nh_step op d)) = fe_max (nexthops d)"
proof (cases op)
  case (Nh_event mem ht event info)
  assume inv: "nh_inv d"
  obtain err d' where ins: "nsim_nexthop_insert mem ht info d = (err, d')" by fastforce
  show ?thesis
    using inv insert_keeps [OF inv ins] remove_inv [OF inv, of info] nh_inv_cong [OF bucket_replace_keeps, of info d]
    by (simp add: Nh_event nsim_nexthop_event_nb_def ins Let_def case_prod_beta split: nexthop_event.split)
qed (simp_all add: nh_inv_def occupancy_def)

lemma nh_run_inv: "nh_inv d \<Longrightarrow> nh_inv (nh_run ops d) \<and> fe_max (nexthops (nh_run ops d)) = fe_max (nexthops d)"
proof (induction ops arbitrary: d)
  case (Cons op ops)
  from Cons.IH [of "nh_step op d"] nh_step_inv [OF Cons.prems, of op] show ?case by (simp add: nh_run_def)
qed (simp add: nh_run_def)

text \<open>
  C32: Whatever nexthop events happen, in whatever order and with whatever failures: the resource is occupied by exactly
  the sum of what the nexthops in the table take, and within its limit. A nexthop is accepted exactly when it fits beside what is
  there, the one it replaces included; a refused event changes neither table nor occupancy.
\<close>

theorem nexthop_occupancy_exact:
  assumes "nexthop_ht d0 = Map.empty" and "fe_num (nexthops d0) = 0" and "d = nh_run ops d0"
  shows "uint (fe_num (nexthops d)) = (\<Sum>k \<in> dom (nexthop_ht d). uint (nh_occ (the (nexthop_ht d k))))
    \<and> fe_num (nexthops d) \<le> fe_max (nexthops d0)
    \<and> (\<forall>info nh. nsim_nexthop_create True info = Inr nh \<longrightarrow>
         (let (n, d') = nsim_nexthop_event_nb True None NEXTHOP_EVENT_REPLACE info d
          in if uint (nh_occ nh) + uint (fe_num (nexthops d)) \<le> uint (fe_max (nexthops d0))
             then n = NOTIFY_OK \<and> nexthop_ht d' = (nexthop_ht d)(nhi_id info \<mapsto> nh)
             else n = NOTIFY_errno ENOSPC \<and> d' = d))
    \<and> (\<forall>mem ht event info n d'. nsim_nexthop_event_nb mem ht event info d = (n, d') \<longrightarrow> n \<noteq> NOTIFY_OK \<longrightarrow> d' = d)"
proof -
  have "nh_inv d0" using assms(1,2) by (simp add: nh_inv_def occupancy_def)
  then have inv: "nh_inv d" and max: "fe_max (nexthops d) = fe_max (nexthops d0)"
    using nh_run_inv assms(3) by auto
  then have num: "uint (fe_num (nexthops d)) = occupancy d" "fe_num (nexthops d) \<le> fe_max (nexthops d0)"
    by (simp_all add: nh_inv_def)
  moreover have "let (n, d') = nsim_nexthop_event_nb True None NEXTHOP_EVENT_REPLACE info d
          in if uint (nh_occ nh) + uint (fe_num (nexthops d)) \<le> uint (fe_max (nexthops d0))
             then n = NOTIFY_OK \<and> nexthop_ht d' = (nexthop_ht d)(nhi_id info \<mapsto> nh)
             else n = NOTIFY_errno ENOSPC \<and> d' = d" if "nsim_nexthop_create True info = Inr nh" for info nh
    using insert_spec [OF inv that, of None] put_nexthop_inv [OF inv, of nh] nexthop_of_create [OF that] max num
    by (simp add: nsim_nexthop_event_nb_def Let_def)
  moreover have "d' = d" if ev: "nsim_nexthop_event_nb mem ht event info d = (n, d')" "n \<noteq> NOTIFY_OK" for mem ht event info n d'
  proof -
    obtain err d1 where ins: "nsim_nexthop_insert mem ht info d = (err, d1)" by fastforce
    have "err \<noteq> None \<Longrightarrow> d1 = d" using insert_keeps(3) [OF inv ins] .
    then show ?thesis using ev ins
      by (cases event; cases err) (auto simp: nsim_nexthop_event_nb_def nsim_nexthop_bucket_replace_def bad_access_def
          split: if_splits nh_info_type.splits)
  qed
  ultimately show ?thesis by (auto simp: occupancy_def total_def)
qed

section \<open>The end\<close>

text \<open>
  \<open>rhashtable_free_and_destroy\<close> calls \<open>nsim_nexthop_free\<close> for each nexthop, in the order \<open>nhs\<close> in which the table holds them.
\<close>

definition destroy_nexthops :: "nsim_nexthop list \<Rightarrow> nsim_fib_data \<Rightarrow> nsim_fib_data" where
  "destroy_nexthops nhs d = (fold nsim_nexthop_free nhs d)\<lparr>nexthop_ht := Map.empty\<rparr>"

lemma free_nexthops:
  assumes "(\<Sum>nh \<leftarrow> nhs. uint (nh_occ nh)) \<le> uint (fe_num (nexthops d))"
  shows "uint (fe_num (nexthops (fold nsim_nexthop_free nhs d))) = uint (fe_num (nexthops d)) - (\<Sum>nh \<leftarrow> nhs. uint (nh_occ nh))
    \<and> fib_warned (fold nsim_nexthop_free nhs d) = fib_warned d"
  using assms
proof (induction nhs arbitrary: d)
  case (Cons nh nhs)
  have "0 \<le> (\<Sum>nh \<leftarrow> nhs. uint (nh_occ nh))" by (rule sum_list_nonneg) auto
  with Cons.prems have le: "nh_occ nh \<le> fe_num (nexthops d)" unfolding word_le_def by simp
  let ?d = "nsim_nexthop_free nh d"
  have "fib_warned ?d = fib_warned d" "uint (fe_num (nexthops ?d)) = uint (fe_num (nexthops d)) - uint (nh_occ nh)"
    using word_diff_exact [OF le] le
    by (simp_all add: nsim_nexthop_free_def account_sub nsim_nexthop_hw_flags_set_def Let_def)
  with Cons.IH [of ?d] Cons.prems show ?case by simp
qed simp

text \<open>Any order of the entries of the table gives the same sum.\<close>

lemma sum_entries:
  assumes "finite (dom m)" and "\<forall>k nh. m k = Some nh \<longrightarrow> nh_id nh = k" and "distinct nhs" and "set nhs = ran m"
  shows "(\<Sum>nh \<leftarrow> nhs. uint (nh_occ nh)) = total (\<lambda>nh. uint (nh_occ nh)) m"
proof -
  have inj: "inj_on (\<lambda>k. the (m k)) (dom m)"
  proof (rule inj_onI)
    fix x y
    assume "x \<in> dom m" "y \<in> dom m" "the (m x) = the (m y)"
    then obtain a where "m x = Some a" "m y = Some a" by auto
    with assms(2) show "x = y" by metis
  qed
  have img: "(\<lambda>k. the (m k)) ` dom m = ran m" by (force simp: ran_def dom_def)
  have "(\<Sum>nh \<leftarrow> nhs. uint (nh_occ nh)) = (\<Sum>nh \<in> ran m. uint (nh_occ nh))"
    using sum_list_distinct_conv_sum_set [OF assms(3)] assms(4) by simp
  also have "\<dots> = (\<Sum>k \<in> dom m. uint (nh_occ (the (m k))))" using sum.reindex [OF inj] img by (simp add: o_def)
  finally show ?thesis by (simp add: total_def)
qed

lemma destroy_nexthops_empty:
  assumes "nh_inv d" and "distinct nhs" and "set nhs = ran (nexthop_ht d)"
  shows "fe_num (nexthops (destroy_nexthops nhs d)) = 0" and "nexthop_ht (destroy_nexthops nhs d) = Map.empty"
    and "fib_warned (destroy_nexthops nhs d) = fib_warned d"
proof -
  have "(\<Sum>nh \<leftarrow> nhs. uint (nh_occ nh)) = uint (fe_num (nexthops d))"
    using sum_entries [of "nexthop_ht d" nhs] assms by (simp add: nh_inv_def occupancy_def)
  with free_nexthops [of nhs d]
  have "uint (fe_num (nexthops (destroy_nexthops nhs d))) = uint (0 :: u64)" "fib_warned (destroy_nexthops nhs d) = fib_warned d"
    by (simp_all add: destroy_nexthops_def)
  then show "fe_num (nexthops (destroy_nexthops nhs d)) = 0" "fib_warned (destroy_nexthops nhs d) = fib_warned d"
    unfolding word_uint_eq_iff by simp_all
  show "nexthop_ht (destroy_nexthops nhs d) = Map.empty" by (simp add: destroy_nexthops_def)
qed

section \<open>A table\<close>

definition demo_fib :: nsim_fib_data where
  "demo_fib = \<lparr>ipv4 = \<lparr>pf_fib = \<lparr>fe_max = 8, fe_num = 0\<rparr>, pf_rules = \<lparr>fe_max = 8, fe_num = 0\<rparr>\<rparr>,
     ipv6 = \<lparr>pf_fib = \<lparr>fe_max = 8, fe_num = 0\<rparr>, pf_rules = \<lparr>fe_max = 8, fe_num = 0\<rparr>\<rparr>, nexthops = \<lparr>fe_max = 8, fe_num = 0\<rparr>,
     rt_mem = (\<lambda>_. None), rt_lim = 1, fib_rt_ht = Map.empty, fib_rt_list = [], nexthop_ht = Map.empty, fib_event_queue = [],
     fib_event_work = False, fib_flush_work = False, fail_route_offload = False, fail_res_nexthop_group_replace = False,
     fail_nexthop_bucket_replace = False, fail_route_delete = False,
     rt6_info = (\<lambda>i. \<lparr>i6_addr = replicate 16 0, i6_plen = 64, i6_tb_id = 254, i6_src_plen = 0\<rparr>),
     fi_refs = (\<lambda>_. 0), rt6_refs = (\<lambda>_. 0), flags4 = (\<lambda>_. \<lparr>offload = False, trap = False, offload_failed = False\<rparr>),
     flags6 = (\<lambda>_. \<lparr>offload = False, trap = False, offload_failed = False\<rparr>), nh_trap = (\<lambda>_. False),
     bucket_trap = (\<lambda>_ _. False), nh_activity = [], fib_warned = False, fib_fault = False\<rparr>"

lemma nexthop_occupancy_exact_witness:
  "fe_num (nexthops (nh_run [Nh_event True None NEXTHOP_EVENT_REPLACE \<lparr>nhi_id = 4, nhi_type = NH_NOTIFIER_INFO_TYPE_GRP [2, 3]\<rparr>] demo_fib))
   \<le> 8"
  using nexthop_occupancy_exact [of demo_fib, OF _ _ refl,
      of "[Nh_event True None NEXTHOP_EVENT_REPLACE \<lparr>nhi_id = 4, nhi_type = NH_NOTIFIER_INFO_TYPE_GRP [2, 3]\<rparr>]"]
  by (simp add: demo_fib_def)

end
