(* ===== verification/Nsim_Fib_Life.thy ===== *)
theory Nsim_Fib_Life
  imports Nsim_Fib_Runs Nsim_Nexthop
begin

text \<open>
  The life of the offload of \<open>netdevsim/fib.c\<close>: creation, with the replay of what the kernel
  already has and every error path, everything that happens afterwards, and destruction.
\<close>

section \<open>The code\<close>

definition nsim_fib_ipv4_resource_occ_get :: "nsim_fib_data \<Rightarrow> u64" where
  "nsim_fib_ipv4_resource_occ_get d = nsim_fib_get_val d NSIM_RESOURCE_IPV4_FIB False"

definition nsim_fib_ipv4_rules_res_occ_get :: "nsim_fib_data \<Rightarrow> u64" where
  "nsim_fib_ipv4_rules_res_occ_get d = nsim_fib_get_val d NSIM_RESOURCE_IPV4_FIB_RULES False"

definition nsim_fib_ipv6_resource_occ_get :: "nsim_fib_data \<Rightarrow> u64" where
  "nsim_fib_ipv6_resource_occ_get d = nsim_fib_get_val d NSIM_RESOURCE_IPV6_FIB False"

definition nsim_fib_ipv6_rules_res_occ_get :: "nsim_fib_data \<Rightarrow> u64" where
  "nsim_fib_ipv6_rules_res_occ_get d = nsim_fib_get_val d NSIM_RESOURCE_IPV6_FIB_RULES False"

definition nsim_fib_nexthops_res_occ_get :: "nsim_fib_data \<Rightarrow> u64" where
  "nsim_fib_nexthops_res_occ_get d = nsim_fib_get_val d NSIM_RESOURCE_NEXTHOPS False"

text \<open>The sizes that user space has given the resources; without one there is no limit.\<close>

definition nsim_fib_set_max_all :: "(nsim_resource_id \<Rightarrow> errno + u64) \<Rightarrow> nsim_fib_data \<Rightarrow> nsim_fib_data" where
  "nsim_fib_set_max_all sizes d =
     fold (\<lambda>res. nsim_fib_set_max res (case sizes res of Inl _ \<Rightarrow> -1 | Inr val \<Rightarrow> val))
       [NSIM_RESOURCE_IPV4_FIB, NSIM_RESOURCE_IPV4_FIB_RULES, NSIM_RESOURCE_IPV6_FIB, NSIM_RESOURCE_IPV6_FIB_RULES,
        NSIM_RESOURCE_NEXTHOPS] d"

definition nsim_fib_debugfs_init :: "ret \<Rightarrow> nsim_fib_data \<Rightarrow> ret \<times> nsim_fib_data" where
  "nsim_fib_debugfs_init dir d =
     (case dir of
        Some e \<Rightarrow> (Some e, d)
      | None \<Rightarrow> (None, d\<lparr>fail_route_offload := False, fail_res_nexthop_group_replace := False,
                     fail_nexthop_bucket_replace := False, fail_route_delete := False\<rparr>))"

text \<open>
  \<open>rhashtable_free_and_destroy\<close> on the table of routes: \<open>nsim_fib_rt_free\<close> for every object, in the order in
  which the table holds them.
\<close>

definition destroy_routes :: "nat list \<Rightarrow> nsim_fib_data \<Rightarrow> nsim_fib_data" where
  "destroy_routes ord d = (fold nsim_fib_rt_free ord d)\<lparr>fib_rt_ht := Map.empty\<rparr>"

text \<open>The data of a new instance: all zero, beside what the kernel has.\<close>

definition kzalloc_data :: "nsim_fib_data \<Rightarrow> nsim_fib_data" where
  "kzalloc_data k = (let e = \<lparr>fe_max = 0, fe_num = 0\<rparr>; p = \<lparr>pf_fib = e, pf_rules = e\<rparr>
     in k\<lparr>ipv4 := p, ipv6 := p, nexthops := e, rt_mem := Map.empty, rt_lim := 1, fib_rt_ht := Map.empty, fib_rt_list := [],
          nexthop_ht := Map.empty, fib_event_queue := [], fib_event_work := False, fib_flush_work := False,
          fail_route_offload := False, fail_res_nexthop_group_replace := False, fail_nexthop_bucket_replace := False,
          fail_route_delete := False\<rparr>)"

text \<open>
  While a notifier is registered the kernel replays what it has: nexthops, and routes and rules. The work may run in
  between, and a dump that turns out inconsistent is started again.
\<close>

datatype fib_replay =
    Replay bool bool fib_event_type fib_notifier_info
  | Replay_work "nat \<Rightarrow> fib_env"
  | Replay_inconsistent "nat \<Rightarrow> fib_env"

primrec replay_step :: "fib_replay \<Rightarrow> nsim_fib_data \<Rightarrow> nsim_fib_data" where
  "replay_step (Replay mem mem_arr event info) d = snd (nsim_fib_event_nb mem mem_arr event info d)"
| "replay_step (Replay_work env) d = flush_event_work env d"
| "replay_step (Replay_inconsistent env) d = nsim_fib_dump_inconsistent env d"

text \<open>
  What happens around a creation: the memory, the directory, the two tables, the sizes, the nexthops that are
  replayed and the result of that registration, the routes and the result. At the end, on the error paths and in the
  destruction: the last run of the work, the orders of the two tables, and the nexthops that unregistering the notifier
  deletes (all in newer kernels, none in older ones).
\<close>

record create_env =
  c_mem :: bool
  c_dir :: ret
  c_nh_table :: ret
  c_rt_table :: ret
  c_sizes :: "nsim_resource_id \<Rightarrow> errno + u64"
  c_nh_replay :: "(bool \<times> ret \<times> nh_notifier_info) list"
  c_nh_reg :: ret
  c_replay :: "fib_replay list"
  c_reg :: ret

record end_env =
  x_env :: "nat \<Rightarrow> fib_env"
  x_order :: "nsim_fib_data \<Rightarrow> nat list"
  x_nexthops :: "nsim_fib_data \<Rightarrow> nsim_nexthop list"
  x_dels :: "nh_notifier_info list"

text \<open>The end of both the creation's error paths and the destruction.\<close>

definition err_rhashtable_nexthop_destroy :: "end_env \<Rightarrow> nsim_fib_data \<Rightarrow> nsim_fib_data" where
  "err_rhashtable_nexthop_destroy x d = destroy_nexthops (x_nexthops x d) d"

definition err_rhashtable_fib_destroy :: "end_env \<Rightarrow> nsim_fib_data \<Rightarrow> nsim_fib_data" where
  "err_rhashtable_fib_destroy x d =
     (let d = flush_event_work (x_env x) (d\<lparr>fib_flush_work := False\<rparr>);
          d = destroy_routes (x_order x d) d
      in err_rhashtable_nexthop_destroy x d)"

definition unregister_nexthop_notifier :: "end_env \<Rightarrow> nsim_fib_data \<Rightarrow> nsim_fib_data" where
  "unregister_nexthop_notifier x d =
     fold (\<lambda>info d. snd (nsim_nexthop_event_nb True None NEXTHOP_EVENT_DEL info d)) (x_dels x) d"

definition err_nexthop_nb_unregister :: "end_env \<Rightarrow> nsim_fib_data \<Rightarrow> nsim_fib_data" where
  "err_nexthop_nb_unregister x d = err_rhashtable_fib_destroy x (unregister_nexthop_notifier x d)"

definition nsim_fib_create :: "create_env \<Rightarrow> end_env \<Rightarrow> nsim_fib_data \<Rightarrow> ret \<times> nsim_fib_data" where
  "nsim_fib_create c x k =
     (if \<not> c_mem c then (Some ENOMEM, k)
      else case nsim_fib_debugfs_init (c_dir c) (kzalloc_data k) of
        (Some e, d) \<Rightarrow> (Some e, d)
      | (None, d) \<Rightarrow>
          (case c_nh_table c of Some e \<Rightarrow> (Some e, d)
           | None \<Rightarrow>
               (case c_rt_table c of Some e \<Rightarrow> (Some e, err_rhashtable_nexthop_destroy x d)
                | None \<Rightarrow>
                    (let d = nsim_fib_set_max_all (c_sizes c) d;
                         d = fold (\<lambda>(mem, ht, info) d. snd (nsim_nexthop_event_nb mem ht NEXTHOP_EVENT_REPLACE info d)) (c_nh_replay c) d
                     in case c_nh_reg c of Some e \<Rightarrow> (Some e, err_rhashtable_fib_destroy x d)
                        | None \<Rightarrow>
                            (let d = fold replay_step (c_replay c) d
                             in case c_reg c of Some e \<Rightarrow> (Some e, err_nexthop_nb_unregister x d)
                                | None \<Rightarrow> (None, d))))))"

definition nsim_fib_destroy :: "end_env \<Rightarrow> nsim_fib_data \<Rightarrow> nsim_fib_data" where
  "nsim_fib_destroy x d =
     (let d = unregister_nexthop_notifier x d;
          d = flush_event_work (x_env x) (d\<lparr>fib_flush_work := False\<rparr>);
          d = destroy_routes (x_order x d) d;
          d = destroy_nexthops (x_nexthops x d) d
      in if fib_event_queue d \<noteq> [] \<or> fib_rt_list d \<noteq> [] then d\<lparr>fib_warned := True\<rparr> else d)"

section \<open>Freeing the table\<close>

lemma alloc_ht_commute:
  "(nsim_fib4_rt_destroy a d)\<lparr>fib_rt_ht := h\<rparr> = nsim_fib4_rt_destroy a (d\<lparr>fib_rt_ht := h\<rparr>)"
  "(nsim_fib4_rt_hw_flags_set a t d)\<lparr>fib_rt_ht := h\<rparr> = nsim_fib4_rt_hw_flags_set a t (d\<lparr>fib_rt_ht := h\<rparr>)"
  "(nsim_fib6_rt_hw_flags_set a t d)\<lparr>fib_rt_ht := h\<rparr> = nsim_fib6_rt_hw_flags_set a t (d\<lparr>fib_rt_ht := h\<rparr>)"
  "(snd (account4 False d))\<lparr>fib_rt_ht := h\<rparr> = snd (account4 False (d\<lparr>fib_rt_ht := h\<rparr>))"
  "(snd (account6 False d))\<lparr>fib_rt_ht := h\<rparr> = snd (account6 False (d\<lparr>fib_rt_ht := h\<rparr>))"
  "(bad_access d)\<lparr>fib_rt_ht := h\<rparr> = bad_access (d\<lparr>fib_rt_ht := h\<rparr>)"
  by (simp_all add: nsim_fib4_rt_destroy_def nsim_fib4_rt_hw_flags_set_def nsim_fib6_rt_hw_flags_set_def rt4_def rt6_def bad_access_def
      kfree_rt_def nsim_fib_rt_fini_def fib_info_put_def fib_alias_hw_flags_set_def fold_hw_flags account4_False account6_False
      upd_fib4_def upd_fib6_def split: option.split nsim_fib_rt.split)

lemma nh_del_ht: "(nsim_fib6_rt_nh_del a rt d)\<lparr>fib_rt_ht := h\<rparr> = nsim_fib6_rt_nh_del a rt (d\<lparr>fib_rt_ht := h\<rparr>)"
  by (simp add: nsim_fib6_rt_nh_del_def rt6_def bad_access_def nsim_rt6_release_def split: option.split nsim_fib_rt.split)

lemma fold_nh_del_ht: "(fold (nsim_fib6_rt_nh_del a) xs d)\<lparr>fib_rt_ht := h\<rparr> = fold (nsim_fib6_rt_nh_del a) xs (d\<lparr>fib_rt_ht := h\<rparr>)"
  by (induction xs arbitrary: d) (simp_all add: nh_del_ht)

lemma rt6_ht [simp]: "rt6 (d\<lparr>fib_rt_ht := h\<rparr>) a = rt6 d a"
  by (simp add: rt6_def)

lemma destroy6_ht: "(nsim_fib6_rt_destroy a d)\<lparr>fib_rt_ht := h\<rparr> = nsim_fib6_rt_destroy a (d\<lparr>fib_rt_ht := h\<rparr>)"
proof (cases "rt6 d a")
  case None
  then show ?thesis by (simp add: nsim_fib6_rt_destroy_def bad_access_def)
next
  case (Some r)
  let ?d = "fold (nsim_fib6_rt_nh_del a) (f6_nh_list r) d"
  have "rt6 (fold (nsim_fib6_rt_nh_del a) (f6_nh_list r) (d\<lparr>fib_rt_ht := h\<rparr>)) a = rt6 ?d a"
    by (simp flip: fold_nh_del_ht)
  with Some show ?thesis
    by (simp add: nsim_fib6_rt_destroy_def kfree_rt_def nsim_fib_rt_fini_def bad_access_def Let_def flip: fold_nh_del_ht
        split: option.split)
qed

lemma rt_free_ht: "(nsim_fib_rt_free a d)\<lparr>fib_rt_ht := h\<rparr> = nsim_fib_rt_free a (d\<lparr>fib_rt_ht := h\<rparr>)"
  by (simp add: nsim_fib_rt_free_def nsim_fib4_rt_free_def nsim_fib6_rt_free_def alloc_ht_commute destroy6_ht
      split: option.split family.split)

lemma flush_one_ht: "(flush_one a d)\<lparr>fib_rt_ht := h\<rparr> = nsim_fib_rt_free a (d\<lparr>fib_rt_ht := h\<rparr>)"
proof (cases "rt_mem d a")
  case None
  then show ?thesis by (simp add: flush_one_def nsim_fib_rt_free_def bad_access_def)
next
  case (Some r)
  have "(ht_remove (rt_key r) a d)\<lparr>fib_rt_ht := h\<rparr> = d\<lparr>fib_rt_ht := h\<rparr>" by (simp add: ht_remove_def)
  with Some show ?thesis by (simp add: flush_one_def rt_free_ht)
qed

text \<open>Freeing the objects of the table in any order is flushing.\<close>

lemma destroy_is_flush: "destroy_routes ord d = (fold flush_one ord d)\<lparr>fib_rt_ht := Map.empty\<rparr>"
proof -
  have "(fold flush_one ord d)\<lparr>fib_rt_ht := Map.empty\<rparr> = fold nsim_fib_rt_free ord (d\<lparr>fib_rt_ht := Map.empty\<rparr>)" for d
    by (induction ord arbitrary: d) (simp_all add: flush_one_ht)
  moreover have "(fold nsim_fib_rt_free ord d)\<lparr>fib_rt_ht := Map.empty\<rparr> = fold nsim_fib_rt_free ord (d\<lparr>fib_rt_ht := Map.empty\<rparr>)" for d
    by (induction ord arbitrary: d) (simp_all add: rt_free_ht)
  ultimately show ?thesis by (simp add: destroy_routes_def)
qed

lemma ran_list:
  assumes wf: "wf_fib d"
  shows "ran (fib_rt_ht d) = set (fib_rt_list d)" and "distinct (fib_rt_list d)"
proof -
  have tab: "wf_tab (rt_mem d) (rt_lim d) (fib_rt_ht d) (fib_rt_list d)" using wf by (simp add: wf_fib_def)
  show "distinct (fib_rt_list d)" using wf_tabD(1) [OF tab] .
  show "ran (fib_rt_ht d) = set (fib_rt_list d)"
  proof
    show "ran (fib_rt_ht d) \<subseteq> set (fib_rt_list d)" using wf_tab_entry [OF tab] by (auto simp: ran_def)
    show "set (fib_rt_list d) \<subseteq> ran (fib_rt_ht d)"
    proof
      fix a assume "a \<in> set (fib_rt_list d)"
      then obtain r where "rt_mem d a = Some r" using wf_tabD(2) [OF tab] by blast
      from wf_tabD(5) [OF tab this] show "a \<in> ran (fib_rt_ht d)" by (rule ranI)
    qed
  qed
qed

lemma destroy_routes_empty:
  assumes wf: "wf_fib d" and ord: "distinct ord" "set ord = ran (fib_rt_ht d)"
  shows "kept d (destroy_routes ord d)" and "fib_rt_list (destroy_routes ord d) = []" and "routes (destroy_routes ord d) = Map.empty"
    and "all_within d \<Longrightarrow> all_within (destroy_routes ord d)" and "fib_rt_ht (destroy_routes ord d) = Map.empty"
proof -
  from ran_list(1) [OF wf]
  have s: "set ord \<subseteq> set (fib_rt_list d)" "set (fib_rt_list d) - set ord = {}" using ord by auto
  note f = flush_fold [OF wf s(1) ord(1)]
  from f(2) s(2) have l: "fib_rt_list (fold flush_one ord d) = []" by simp
  note R = empty_list_routes [OF keptD [OF f(1)] l]
  have "fib_rt_ht (fold flush_one ord d) k = None" for k
    using routes_None [OF keptD [OF f(1)], of k] R by simp
  then have "fib_rt_ht (fold flush_one ord d) = Map.empty" by blast
  then have "(fold flush_one ord d)\<lparr>fib_rt_ht := Map.empty\<rparr> = fold flush_one ord d"
    by (cases "fold flush_one ord d") simp
  then have "destroy_routes ord d = fold flush_one ord d" by (simp add: destroy_is_flush)
  with f l R show "kept d (destroy_routes ord d)" "fib_rt_list (destroy_routes ord d) = []" "routes (destroy_routes ord d) = Map.empty"
    "all_within d \<Longrightarrow> all_within (destroy_routes ord d)" by simp_all
  show "fib_rt_ht (destroy_routes ord d) = Map.empty" by (simp add: destroy_routes_def)
qed

section \<open>Routes and nexthops together\<close>

definition rt_part where
  "rt_part d = ((rt_mem d, rt_lim d, fib_rt_ht d, fib_rt_list d, fib_fault d, fib_warned d),
     (fi_refs d, rt6_refs d, fib_event_queue d, fib_event_work d, ipv4 d, ipv6 d))"

lemma fib_inv_cong: "rt_part d' = rt_part d \<Longrightarrow> fib_inv o4 o6 evs d' = fib_inv o4 o6 evs d"
  by (simp add: rt_part_def fib_inv_def wf_fib_def all_within_def bal4_def bal6_def routes_def)

text \<open>A notification about a bucket names the bucket.\<close>

primrec nh_op_ok :: "nh_op \<Rightarrow> bool" where
  "nh_op_ok (Nh_event mem ht event info) =
     (event = NEXTHOP_EVENT_BUCKET_REPLACE \<longrightarrow> (case nhi_type info of NH_NOTIFIER_INFO_TYPE_RES_BUCKET i \<Rightarrow> True | _ \<Rightarrow> False))"
| "nh_op_ok (Nh_write copied parsed mem n pos) = True"
| "nh_op_ok (Nh_switch grp bucket) = True"

lemma hw_part: "rt_part (nsim_nexthop_hw_flags_set nh t d) = rt_part d"
  by (simp add: nsim_nexthop_hw_flags_set_def rt_part_def Let_def)

lemma insert_part:
  assumes "nh_inv d"
  shows "rt_part (snd (nsim_nexthop_insert mem ht info d)) = rt_part d"
proof (cases "nsim_nexthop_create mem info")
  case (Inl e)
  then show ?thesis by (simp add: nsim_nexthop_insert_def)
next
  case (Inr nh)
  have "rt_part (put_nexthop nh d) = rt_part d"
    by (simp add: put_nexthop_def Let_def rt_part_def nsim_nexthop_hw_flags_set_def)
  then show ?thesis unfolding insert_spec [OF assms Inr] by (simp split: option.split)
qed

lemma remove_part:
  assumes "nh_inv d"
  shows "rt_part (nsim_nexthop_remove info d) = rt_part d"
  using occ_le_num [OF assms, of "nhi_id info"]
  by (simp add: nsim_nexthop_remove_def account_sub rt_part_def split: option.split)

lemma nh_step_part:
  assumes "nh_inv d" and "nh_op_ok op"
  shows "rt_part (nh_step op d) = rt_part d"
proof (cases op)
  case (Nh_event mem ht event info)
  have "rt_part (snd (nsim_nexthop_bucket_replace info d)) = rt_part d" if "event = NEXTHOP_EVENT_BUCKET_REPLACE"
    using assms(2) that Nh_event by (simp add: nsim_nexthop_bucket_replace_def rt_part_def split: nh_info_type.splits)
  with Nh_event insert_part [OF assms(1), of mem ht info] remove_part [OF assms(1), of info] show ?thesis
    by (cases event) (simp_all add: nsim_nexthop_event_nb_def Let_def case_prod_beta)
next
  case (Nh_write copied parsed mem n pos)
  then show ?thesis by (simp add: nsim_nexthop_bucket_activity_write_def rt_part_def split: option.split prod.split)
qed (simp add: rt_part_def)

definition sys_inv :: "(nat \<Rightarrow> int) \<Rightarrow> (nat \<Rightarrow> int) \<Rightarrow> nsim_fib_event list \<Rightarrow> nsim_fib_data \<Rightarrow> bool" where
  "sys_inv o4 o6 evs d \<longleftrightarrow> fib_inv o4 o6 evs d \<and> nh_inv d"

lemma sys_nh: "sys_inv o4 o6 evs d \<Longrightarrow> nh_op_ok op \<Longrightarrow> sys_inv o4 o6 evs (nh_step op d)"
  using nh_step_part [of d op] fib_inv_cong [of "nh_step op d" d] nh_step_inv [of d op] by (simp add: sys_inv_def)

lemma notified_nexthops: "notified d ev d' \<Longrightarrow> nexthops d' = nexthops d \<and> nexthop_ht d' = nexthop_ht d"
  by (auto simp: notified_def)

lemma sys_nb:
  assumes "sys_inv o4 o6 evs d" and "info_ok info"
  shows "sys_inv o4 o6 evs (snd (nsim_fib_event_nb mem mem_arr event info d))"
proof -
  obtain n d' where nb: "nsim_fib_event_nb mem mem_arr event info d = (n, d')" by fastforce
  from notified_nexthops [OF notified_nb [OF assms(2) nb]] nh_inv_cong [of d' d]
    fib_inv_nb [OF _ assms(2), of o4 o6 evs d mem mem_arr event] assms(1) show ?thesis by (simp add: sys_inv_def nb)
qed

lemma sys_handle: "sys_inv o4 o6 (ev # evs) d \<Longrightarrow> sys_inv o4 o6 evs (nsim_fib_event env ev d)"
proof -
  assume inv: "sys_inv o4 o6 (ev # evs) d"
  then have "wf_fib d" "ev_ok ev" by (simp_all add: sys_inv_def fib_inv_def)
  from frame_queue [OF event_step(2) [OF this, of env]] nh_inv_cong [of "nsim_fib_event env ev d" d] inv fib_inv_handle
  show ?thesis by (auto simp: sys_inv_def)
qed

lemma sys_splice:
  "sys_inv o4 o6 [] d \<Longrightarrow> sys_inv o4 o6 (fib_event_queue d) (d\<lparr>fib_event_queue := [], fib_event_work := False\<rparr>)"
  using fib_inv_splice nh_inv_cong [of "d\<lparr>fib_event_queue := [], fib_event_work := False\<rparr>" d] by (simp add: sys_inv_def)

lemma sys_flush_event_work: "sys_inv o4 o6 [] d \<Longrightarrow> sys_inv o4 o6 [] (flush_event_work env d)"
  using flush_event_work(1,4,5) [of o4 o6 d env] nh_inv_cong [of "flush_event_work env d" d] by (simp add: sys_inv_def)

lemma sys_flush_list: "sys_inv o4 o6 evs d \<Longrightarrow> sys_inv o4 o6 evs (flush_list d)"
proof -
  assume inv: "sys_inv o4 o6 evs d"
  then have "kept d (flush_list d)" by (simp add: sys_inv_def fib_inv_def flush_list)
  then have "nexthops (flush_list d) = nexthops d" "nexthop_ht (flush_list d) = nexthop_ht d"
    using frame_queue by (auto simp: kept_def)
  with inv fib_inv_flush_list nh_inv_cong [of "flush_list d" d] show ?thesis by (simp add: sys_inv_def)
qed

lemma sys_unflush: "sys_inv o4 o6 evs d \<Longrightarrow> sys_inv o4 o6 evs (d\<lparr>fib_flush_work := False\<rparr>)"
  using fib_inv_cong [of "d\<lparr>fib_flush_work := False\<rparr>" d] nh_inv_cong [of "d\<lparr>fib_flush_work := False\<rparr>" d]
  by (simp add: sys_inv_def rt_part_def)

lemma sys_flush_work: "sys_inv o4 o6 [] d \<Longrightarrow> sys_inv o4 o6 [] (nsim_fib_flush_work env d)"
  unfolding nsim_fib_flush_work_def by (intro sys_flush_list sys_flush_event_work sys_unflush)

lemma sys_dump_inconsistent: "sys_inv o4 o6 [] d \<Longrightarrow> sys_inv o4 o6 [] (nsim_fib_dump_inconsistent env d)"
proof -
  assume "sys_inv o4 o6 [] d"
  then have inv: "sys_inv o4 o6 [] (flush_list (flush_event_work env d))" by (intro sys_flush_list sys_flush_event_work)
  let ?d = "flush_list (flush_event_work env d)" and ?z = "\<lambda>e. e\<lparr>fe_num := 0\<rparr>"
  have "fib_inv o4 o6 [] (upd_rules6 ?z (upd_rules4 ?z ?d))"
    using inv by (simp add: sys_inv_def fib_inv_def upd_rules4_def upd_rules6_def wf_fib_def all_within_def within_def bal4_def bal6_def
        routes_def)
  moreover have "nh_inv (upd_rules6 ?z (upd_rules4 ?z ?d))"
    using inv nh_inv_cong [of "upd_rules6 ?z (upd_rules4 ?z ?d)" ?d] by (simp add: sys_inv_def upd_rules4_def upd_rules6_def)
  ultimately show ?thesis by (simp add: sys_inv_def nsim_fib_dump_inconsistent_def Let_def)
qed

section \<open>Everything that happens\<close>

text \<open>
  A state with the events that the work has taken and not handled yet. Notifications of both
  kinds come at any time, the work handles one event in a step; a flush is one step.
\<close>

inductive fib_step :: "nsim_fib_event list \<times> nsim_fib_data \<Rightarrow> nsim_fib_event list \<times> nsim_fib_data \<Rightarrow> bool" where
  notify: "info_ok info \<Longrightarrow> fib_step (evs, d) (evs, snd (nsim_fib_event_nb mem mem_arr event info d))"
| nexthop: "nh_op_ok op \<Longrightarrow> fib_step (evs, d) (evs, nh_step op d)"
| take: "fib_event_work d \<Longrightarrow> fib_step ([], d) (fib_event_queue d, d\<lparr>fib_event_queue := [], fib_event_work := False\<rparr>)"
| handle: "fib_step (ev # evs, d) (evs, nsim_fib_event env ev d)"
| flush: "fib_flush_work d \<Longrightarrow> fib_step ([], d) ([], nsim_fib_flush_work envs d)"
| switch: "fib_step (evs, d) (evs, d\<lparr>fail_route_offload := x, fail_route_delete := y\<rparr>)"

inductive_cases fib_stepE: "fib_step (evs, d) (evs', d')"

lemma sys_step:
  assumes step: "fib_step (evs, d) (evs', d')" and inv: "sys_inv o4 o6 evs d"
  shows "sys_inv o4 o6 evs' d'"
proof -
  have sw: "sys_inv o4 o6 evs (d\<lparr>fail_route_offload := x, fail_route_delete := y\<rparr>)" for x y
    using fib_inv_cong [of "d\<lparr>fail_route_offload := x, fail_route_delete := y\<rparr>" d]
      nh_inv_cong [of "d\<lparr>fail_route_offload := x, fail_route_delete := y\<rparr>" d] inv by (simp add: sys_inv_def rt_part_def)
  show ?thesis
    by (rule fib_stepE [OF step]) (use inv sw in \<open>auto intro: sys_nb sys_nh sys_splice sys_handle sys_flush_work\<close>)
qed

lemma sys_steps: "fib_step\<^sup>*\<^sup>* (evs, d) (evs', d') \<Longrightarrow> sys_inv o4 o6 evs d \<Longrightarrow> sys_inv o4 o6 evs' d'"
  by (induction "(evs', d')" arbitrary: evs' d' rule: rtranclp_induct) (auto dest: sys_step)

section \<open>Creation and destruction\<close>

text \<open>The two tables can be walked in some order that meets every object once.\<close>

definition order_ok :: "end_env \<Rightarrow> bool" where
  "order_ok x \<longleftrightarrow> (\<forall>d. wf_fib d \<longrightarrow> distinct (x_order x d) \<and> set (x_order x d) = ran (fib_rt_ht d))
     \<and> (\<forall>d. nh_inv d \<longrightarrow> distinct (x_nexthops x d) \<and> set (x_nexthops x d) = ran (nexthop_ht d))"

text \<open>What is left when everything has been taken down: nothing but the references of others.\<close>

definition all_gone :: "nsim_fib_data \<Rightarrow> nsim_fib_data \<Rightarrow> bool" where
  "all_gone k d \<longleftrightarrow> fi_refs d = fi_refs k \<and> rt6_refs d = rt6_refs k \<and> rt_mem d = Map.empty \<and> fib_rt_list d = [] \<and> fib_event_queue d = []
     \<and> nexthop_ht d = Map.empty \<and> fe_num (nexthops d) = 0 \<and> \<not> fib_warned d \<and> \<not> fib_fault d"

lemma free_part: "rt_part (nsim_nexthop_free nh d) = rt_part d \<or> fib_warned (nsim_nexthop_free nh d)"
  by (simp add: nsim_nexthop_free_def nsim_nexthop_account_def nsim_nexthop_hw_flags_set_def rt_part_def upd_nexthops_def Let_def)

lemma free_warned: "fib_warned d \<Longrightarrow> fib_warned (nsim_nexthop_free nh d)"
  by (simp add: nsim_nexthop_free_def nsim_nexthop_account_def nsim_nexthop_hw_flags_set_def upd_nexthops_def Let_def)

lemma destroy_nexthops_part:
  assumes "\<not> fib_warned (destroy_nexthops nhs d)"
  shows "rt_part (destroy_nexthops nhs d) = rt_part d"
proof -
  have mono: "fib_warned d \<Longrightarrow> fib_warned (fold nsim_nexthop_free nhs d)" for nhs d
    by (induction nhs arbitrary: d) (auto dest: free_warned)
  have "\<not> fib_warned (fold nsim_nexthop_free nhs d) \<Longrightarrow> rt_part (fold nsim_nexthop_free nhs d) = rt_part d" for nhs d
  proof (induction nhs arbitrary: d)
    case (Cons nh nhs)
    have "\<not> fib_warned (nsim_nexthop_free nh d)" using Cons.prems mono by auto
    with free_part [of nh d] Cons show ?case by simp
  qed simp
  with assms show ?thesis by (simp add: destroy_nexthops_def rt_part_def)
qed

lemma ending:
  assumes inv: "sys_inv (fi_refs k) (rt6_refs k) [] d" and x: "order_ok x"
  shows "all_gone k (err_rhashtable_fib_destroy x d)"
proof -
  let ?d1 = "flush_event_work (x_env x) (d\<lparr>fib_flush_work := False\<rparr>)"
  let ?d2 = "destroy_routes (x_order x ?d1) ?d1"
  let ?d3 = "destroy_nexthops (x_nexthops x ?d2) ?d2"
  have inv0: "sys_inv (fi_refs k) (rt6_refs k) [] (d\<lparr>fib_flush_work := False\<rparr>)" using sys_unflush [OF inv] .
  have inv1: "sys_inv (fi_refs k) (rt6_refs k) [] ?d1" using sys_flush_event_work [OF inv0] .
  have q1: "fib_event_queue ?d1 = []" using flush_event_work(2) [of "fi_refs k" "rt6_refs k"] inv0 by (simp add: sys_inv_def)
  have wf1: "wf_fib ?d1" using inv1 by (simp add: sys_inv_def fib_inv_def)
  then have "distinct (x_order x ?d1)" "set (x_order x ?d1) = ran (fib_rt_ht ?d1)" using x by (simp_all add: order_ok_def)
  note e = destroy_routes_empty [OF wf1 this]
  have fr: "frame ?d2 = frame ?d1" using e(1) by (simp add: kept_def)
  have q2: "fib_event_queue ?d2 = []" using frame_queue [OF fr] q1 by simp
  have nh2: "nh_inv ?d2" using frame_queue [OF fr] nh_inv_cong [of ?d2 ?d1] inv1 by (simp add: sys_inv_def)
  then have "distinct (x_nexthops x ?d2)" "set (x_nexthops x ?d2) = ran (nexthop_ht ?d2)" using x by (simp_all add: order_ok_def)
  note n = destroy_nexthops_empty [OF nh2 this]
  have wf2: "wf_fib ?d2" using keptD [OF e(1)] .
  then have "\<not> fib_warned ?d3" using n(3) by (simp add: wf_fib_def)
  from destroy_nexthops_part [OF this] have p: "rt_part ?d3 = rt_part ?d2" .
  have mem: "rt_mem ?d2 = Map.empty" using wf2 e(2) unfolding wf_fib_def wf_tab_def by auto
  have "bal4 ?d2 i = fi_refs k i" "bal6 ?d2 i = rt6_refs k i" for i
    using e(1) inv1 q1 by (simp_all add: kept_def sys_inv_def fib_inv_def)
  then have refs: "fi_refs ?d2 = fi_refs k" "rt6_refs ?d2 = rt6_refs k" using e(3) by (auto simp: bal4_def bal6_def fun_eq_iff)
  have "all_gone k ?d3"
    using p mem refs n(1,2) e(2) q2 wf2 by (auto simp: all_gone_def rt_part_def wf_fib_def)
  then show ?thesis by (simp add: err_rhashtable_fib_destroy_def err_rhashtable_nexthop_destroy_def Let_def)
qed

lemma sys_unregister: "sys_inv o4 o6 evs d \<Longrightarrow> sys_inv o4 o6 evs (unregister_nexthop_notifier x d)"
proof -
  have "sys_inv o4 o6 evs d \<Longrightarrow> sys_inv o4 o6 evs (fold (\<lambda>info d. snd (nsim_nexthop_event_nb True None NEXTHOP_EVENT_DEL info d)) infos d)" for infos
  proof (induction infos arbitrary: d)
    case (Cons info infos)
    from sys_nh [OF Cons.prems, of "Nh_event True None NEXTHOP_EVENT_DEL info"] Cons.IH show ?case by simp
  qed simp
  then show "sys_inv o4 o6 evs d \<Longrightarrow> ?thesis" by (simp add: unregister_nexthop_notifier_def)
qed

text \<open>What the kernel replays is well-formed too.\<close>

primrec replay_ok :: "fib_replay \<Rightarrow> bool" where
  "replay_ok (Replay mem mem_arr event info) = info_ok info"
| "replay_ok (Replay_work env) = True"
| "replay_ok (Replay_inconsistent env) = True"

lemma sys_replay: "sys_inv o4 o6 [] d \<Longrightarrow> replay_ok r \<Longrightarrow> sys_inv o4 o6 [] (replay_step r d)"
  by (cases r) (auto intro: sys_nb sys_flush_event_work sys_dump_inconsistent)

lemma sys_replays: "sys_inv o4 o6 [] d \<Longrightarrow> \<forall>r \<in> set rs. replay_ok r \<Longrightarrow> sys_inv o4 o6 [] (fold replay_step rs d)"
  by (induction rs arbitrary: d) (auto intro: sys_replay)

lemma sys_nh_replays: "sys_inv o4 o6 [] d \<Longrightarrow>
    sys_inv o4 o6 [] (fold (\<lambda>(mem, ht, info) d. snd (nsim_nexthop_event_nb mem ht NEXTHOP_EVENT_REPLACE info d)) rs d)"
proof (induction rs arbitrary: d)
  case (Cons r rs)
  obtain mem ht info where r: "r = (mem, ht, info)" by (cases r)
  from sys_nh [OF Cons.prems, of "Nh_event mem ht NEXTHOP_EVENT_REPLACE info"] Cons.IH show ?case by (simp add: r)
qed simp

text \<open>The state before the notifiers are registered.\<close>

definition create_start :: "create_env \<Rightarrow> nsim_fib_data \<Rightarrow> nsim_fib_data" where
  "create_start c k = nsim_fib_set_max_all (c_sizes c) (kzalloc_data k)"

lemma debugfs_None: "nsim_fib_debugfs_init None (kzalloc_data k) = (None, kzalloc_data k)"
  by (simp add: nsim_fib_debugfs_init_def kzalloc_data_def Let_def)

lemma tab_routes_empty: "tab_routes (\<lambda>_. None) m = Map.empty"
  by (simp add: tab_routes_def fun_eq_iff)

lemma create_start_inv: "\<not> fib_warned k \<Longrightarrow> \<not> fib_fault k \<Longrightarrow> sys_inv (fi_refs k) (rt6_refs k) [] (create_start c k)"
  by (simp add: create_start_def nsim_fib_set_max_all_def nsim_fib_set_max_def upd_fib4_def upd_fib6_def upd_rules4_def upd_rules6_def
      upd_nexthops_def kzalloc_data_def Let_def sys_inv_def fib_inv_def wf_fib_def wf_tab_def all_within_def within_def bal4_def
      bal6_def routes_def tab_routes_empty nh_inv_def occupancy_def)

text \<open>A creation: it succeeds after the replays, or it fails and all is gone.\<close>

lemma create_cases:
  assumes create: "nsim_fib_create c x k = (err, d)" and mem: "c_mem c" and k: "\<not> fib_warned k" "\<not> fib_fault k" and x: "order_ok x"
    and replay: "\<forall>r \<in> set (c_replay c). replay_ok r"
  shows "if err = None then sys_inv (fi_refs k) (rt6_refs k) [] d else all_gone k d"
proof -
  let ?d1 = "fold (\<lambda>(mem, ht, info) d. snd (nsim_nexthop_event_nb mem ht NEXTHOP_EVENT_REPLACE info d)) (c_nh_replay c) (create_start c k)"
  let ?d2 = "fold replay_step (c_replay c) ?d1"
  have i1: "sys_inv (fi_refs k) (rt6_refs k) [] ?d1" by (rule sys_nh_replays [OF create_start_inv [OF k]])
  have i2: "sys_inv (fi_refs k) (rt6_refs k) [] ?d2" by (rule sys_replays [OF i1 replay])
  have gone1: "all_gone k (err_rhashtable_fib_destroy x ?d1)" by (rule ending [OF i1 x])
  have gone2: "all_gone k (err_nexthop_nb_unregister x ?d2)"
    unfolding err_nexthop_nb_unregister_def by (rule ending [OF sys_unregister [OF i2] x])
  have gone: "all_gone k (kzalloc_data k)" using k by (simp add: all_gone_def kzalloc_data_def Let_def)
  have nhk: "nh_inv (kzalloc_data k)" by (simp add: nh_inv_def occupancy_def kzalloc_data_def Let_def)
  then have "distinct (x_nexthops x (kzalloc_data k))" "set (x_nexthops x (kzalloc_data k)) = ran (nexthop_ht (kzalloc_data k))"
    using x by (simp_all add: order_ok_def)
  then have "x_nexthops x (kzalloc_data k) = []" by (simp add: kzalloc_data_def Let_def)
  then have "err_rhashtable_nexthop_destroy x (kzalloc_data k) = (kzalloc_data k)\<lparr>nexthop_ht := Map.empty\<rparr>"
    by (simp add: err_rhashtable_nexthop_destroy_def destroy_nexthops_def)
  then have gone0: "all_gone k (err_rhashtable_nexthop_destroy x (kzalloc_data k))" using gone by (simp add: all_gone_def)
  show ?thesis
  proof (cases "c_dir c")
    case None
    with create mem gone gone0 gone1 gone2 i2 show ?thesis
      by (auto simp: nsim_fib_create_def debugfs_None create_start_def Let_def split: option.splits)
  next
    case (Some e)
    with create mem gone show ?thesis by (auto simp: nsim_fib_create_def nsim_fib_debugfs_init_def)
  qed
qed

text \<open>
  C29: Once created, the offload can be used in every way and taken down at any time when the work is not in the middle of its
  events: all references on routes that it took are given back, no object, no table entry and no queued
  event is left, the nexthops occupy nothing, and the code neither warned nor touched a dead object.
\<close>

theorem fib_create_destroy:
  assumes "nsim_fib_create c x0 k = (None, d0)" and "\<not> fib_warned k \<and> \<not> fib_fault k" and "\<forall>r \<in> set (c_replay c). replay_ok r"
    and "fib_step\<^sup>*\<^sup>* ([], d0) ([], d)" and "order_ok x0 \<and> order_ok x"
  shows "all_gone k (nsim_fib_destroy x d)"
proof -
  have "c_mem c" using assms(1) by (auto simp: nsim_fib_create_def split: if_splits)
  from create_cases [OF assms(1) this] assms have "sys_inv (fi_refs k) (rt6_refs k) [] d0" by simp
  from sys_steps [OF assms(4) this] have inv: "sys_inv (fi_refs k) (rt6_refs k) [] d" .
  have "all_gone k (err_rhashtable_fib_destroy x (unregister_nexthop_notifier x d))"
    by (rule ending [OF sys_unregister [OF inv]]) (use assms(5) in simp)
  moreover from this have "nsim_fib_destroy x d = err_rhashtable_fib_destroy x (unregister_nexthop_notifier x d)"
    by (simp add: nsim_fib_destroy_def err_rhashtable_fib_destroy_def err_rhashtable_nexthop_destroy_def Let_def all_gone_def)
  ultimately show ?thesis by simp
qed

text \<open>
  C30: A creation that fails, at whatever step and after whatever the kernel has replayed by then, leaves nothing behind.
\<close>

theorem fib_create_all_or_nothing:
  assumes "nsim_fib_create c x k = (Some e, d)" and "c_mem c" and "\<not> fib_warned k \<and> \<not> fib_fault k"
    and "\<forall>r \<in> set (c_replay c). replay_ok r" and "order_ok x"
  shows "all_gone k d"
  using create_cases [OF assms(1,2)] assms(3-5) by simp

text \<open>
  C31: At every moment after the creation no resource is occupied beyond its limit, the list and the hash table hold
  the same routes, each once, queued events have their work scheduled, and the code neither warned nor touched a
  dead object, whatever was notified and whatever failed.
\<close>

theorem fib_always_consistent:
  assumes "nsim_fib_create c x k = (None, d0)" and "\<not> fib_warned k \<and> \<not> fib_fault k" and "\<forall>r \<in> set (c_replay c). replay_ok r"
    and "fib_step\<^sup>*\<^sup>* ([], d0) (evs, d)" and "order_ok x"
  shows "nsim_fib_get_val d res False \<le> nsim_fib_get_val d res True
    \<and> ran (fib_rt_ht d) = set (fib_rt_list d) \<and> distinct (fib_rt_list d)
    \<and> (fib_event_queue d \<noteq> [] \<longrightarrow> fib_event_work d) \<and> \<not> fib_warned d \<and> \<not> fib_fault d"
proof -
  have "c_mem c" using assms(1) by (auto simp: nsim_fib_create_def split: if_splits)
  from create_cases [OF assms(1) this] assms have "sys_inv (fi_refs k) (rt6_refs k) [] d0" by simp
  from sys_steps [OF assms(4) this] have inv: "sys_inv (fi_refs k) (rt6_refs k) evs d" .
  then have wf: "wf_fib d" by (simp add: sys_inv_def fib_inv_def)
  have "nsim_fib_get_val d res False \<le> nsim_fib_get_val d res True"
    using inv by (cases res) (simp_all add: nsim_fib_get_val_def resource_def sys_inv_def fib_inv_def all_within_def within_def nh_inv_def)
  with ran_list [OF wf] inv show ?thesis by (simp add: sys_inv_def fib_inv_def wf_fib_def)
qed

section \<open>An instance\<close>

definition demo_end :: end_env where
  "demo_end = \<lparr>x_env = (\<lambda>_. \<lparr>e_alloc = True, e_nh = (\<lambda>_. True), e_ht = None\<rparr>), x_order = fib_rt_list,
     x_nexthops = (\<lambda>d. map (\<lambda>k. the (nexthop_ht d k)) (sorted_list_of_set (dom (nexthop_ht d)))), x_dels = []\<rparr>"

definition demo_create :: "ret \<Rightarrow> create_env" where
  "demo_create reg = \<lparr>c_mem = True, c_dir = None, c_nh_table = None, c_rt_table = None, c_sizes = (\<lambda>_. Inr 2), c_nh_replay = [],
     c_nh_reg = None, c_replay = [Replay True True FIB_EVENT_RULE_ADD (Info_plain AF_INET)], c_reg = reg\<rparr>"

lemma demo_order: "order_ok demo_end"
proof -
  have "distinct (x_nexthops demo_end d) \<and> set (x_nexthops demo_end d) = ran (nexthop_ht d)" if "nh_inv d" for d
  proof -
    have fin: "finite (dom (nexthop_ht d))" using that by (simp add: nh_inv_def)
    have "inj_on (\<lambda>k. the (nexthop_ht d k)) (dom (nexthop_ht d))"
    proof (rule inj_onI)
      fix i j
      assume "i \<in> dom (nexthop_ht d)" "j \<in> dom (nexthop_ht d)" "the (nexthop_ht d i) = the (nexthop_ht d j)"
      then obtain nh where "nexthop_ht d i = Some nh" "nexthop_ht d j = Some nh" by auto
      then show "i = j" using that by (auto simp: nh_inv_def)
    qed
    moreover have "(\<lambda>k. the (nexthop_ht d k)) ` dom (nexthop_ht d) = ran (nexthop_ht d)" by (force simp: ran_def dom_def)
    ultimately show ?thesis using fin by (simp add: demo_end_def distinct_map)
  qed
  then show ?thesis using ran_list by (simp add: order_ok_def) (simp add: demo_end_def)
qed

definition demo_fen :: fen_info where
  "demo_fen = \<lparr>fen_dst = 0x0A000000, fen_dst_len = 8, fen_tb_id = 254, fen_fi = 7, fen_dscp = 0, fen_type = 1\<rparr>"

definition demo_start :: nsim_fib_data where
  "demo_start = snd (nsim_fib_create (demo_create None) demo_end demo_fib)"

lemma demo_started: "nsim_fib_create (demo_create None) demo_end demo_fib = (None, demo_start)"
  by (simp add: demo_start_def nsim_fib_create_def demo_create_def debugfs_None Let_def)

lemma demo_sane: "\<not> fib_warned demo_fib \<and> \<not> fib_fault demo_fib" "\<forall>r \<in> set (c_replay (demo_create reg)). replay_ok r"
  by (simp_all add: demo_fib_def demo_create_def)

lemma demo_step: "fib_step\<^sup>*\<^sup>* ([], demo_start) ([], snd (nsim_fib_event_nb True True FIB_EVENT_ENTRY_REPLACE (Info4 demo_fen) demo_start))"
  by (rule r_into_rtranclp, rule fib_step.notify) simp

lemma fib_create_destroy_witness:
  "all_gone demo_fib (nsim_fib_destroy demo_end (snd (nsim_fib_event_nb True True FIB_EVENT_ENTRY_REPLACE (Info4 demo_fen) demo_start)))"
  by (rule fib_create_destroy [OF demo_started demo_sane demo_step]) (simp add: demo_order)

lemma fib_create_all_or_nothing_witness:
  "all_gone demo_fib (snd (nsim_fib_create (demo_create (Some EINVAL)) demo_end demo_fib))"
proof -
  obtain d where d: "nsim_fib_create (demo_create (Some EINVAL)) demo_end demo_fib = (Some EINVAL, d)"
    by (simp add: nsim_fib_create_def demo_create_def debugfs_None Let_def)
  have "all_gone demo_fib d"
    by (rule fib_create_all_or_nothing [OF d _ demo_sane demo_order]) (simp add: demo_create_def)
  with d show ?thesis by simp
qed

lemma fib_always_consistent_witness:
  "nsim_fib_get_val (snd (nsim_fib_event_nb True True FIB_EVENT_ENTRY_REPLACE (Info4 demo_fen) demo_start)) NSIM_RESOURCE_IPV4_FIB False
   \<le> nsim_fib_get_val (snd (nsim_fib_event_nb True True FIB_EVENT_ENTRY_REPLACE (Info4 demo_fen) demo_start)) NSIM_RESOURCE_IPV4_FIB True"
  using fib_always_consistent [OF demo_started demo_sane demo_step demo_order, of NSIM_RESOURCE_IPV4_FIB] by blast

end
