(* ===== verification/Nsim_Fib_Follow.thy ===== *)
theory Nsim_Fib_Follow
  imports Nsim_Fib_Life
begin

text \<open>
  When nothing fails the table is what the kernel's notifications say: they are applied to a map of
  routes, and the table is that map as soon as the queue is empty. The occupancy counts a route from
  its notification on.
\<close>

section \<open>The map that the notifications describe\<close>

primrec ev_type :: "nsim_fib_event \<Rightarrow> fib_event_type" where
  "ev_type (Event4 event fen) = event"
| "ev_type (Event6 event ev6) = event"

primrec ev_key :: "(nat \<Rightarrow> fib6_info) \<Rightarrow> nsim_fib_event \<Rightarrow> nsim_fib_rt_key" where
  "ev_key I (Event4 event fen) = key4 fen"
| "ev_key I (Event6 event ev6) =
     (let i6 = I (rt_arr ev6 ! 0) in make_key (i6_addr i6) (i6_plen i6) AF_INET6 (i6_tb_id i6))"

lemma ev_key6: "ev_key (rt6_info d) (Event6 event ev6) = key6 d (rt_arr ev6 ! 0)"
  by (simp add: key6_def)

text \<open>The route that an event puts in the place of another, is appended to one, or leaves of one.\<close>

primrec ev_route :: "(nat \<Rightarrow> fib6_info) \<Rightarrow> nsim_fib_event \<Rightarrow> nsim_fib_rt" where
  "ev_route I (Event4 event fen) = route4 fen"
| "ev_route I (Event6 event ev6) = route6 (ev_key I (Event6 event ev6)) (rt_arr ev6)"

fun append_rt :: "nsim_fib_event \<Rightarrow> nsim_fib_rt option \<Rightarrow> nsim_fib_rt option" where
  "append_rt (Event6 event ev6) (Some (Rt6 r)) = Some (route6 (f6_key r) (f6_nh_list r @ rt_arr ev6))"
| "append_rt ev x = x"

fun rest_rt :: "nsim_fib_event \<Rightarrow> nsim_fib_rt option \<Rightarrow> nsim_fib_rt option" where
  "rest_rt (Event6 event ev6) x = rest6 ev6 x"
| "rest_rt (Event4 event fen) x = None"

definition view_ev ::
    "(nat \<Rightarrow> fib6_info) \<Rightarrow> nsim_fib_event \<Rightarrow> (nsim_fib_rt_key \<Rightarrow> nsim_fib_rt option) \<Rightarrow> nsim_fib_rt_key \<Rightarrow> nsim_fib_rt option" where
  "view_ev I ev V = (let k = ev_key I ev in
     case ev_type ev of
       FIB_EVENT_ENTRY_REPLACE \<Rightarrow> V(k \<mapsto> ev_route I ev)
     | FIB_EVENT_ENTRY_APPEND \<Rightarrow> V(k := append_rt ev (V k))
     | FIB_EVENT_ENTRY_DEL \<Rightarrow> V(k := rest_rt ev (V k))
     | _ \<Rightarrow> V)"

text \<open>
  What a consistent kernel sends: it deletes or extends only routes that it has announced, deletes all nexthops of a
  route at once, and has no routes with a source prefix.
\<close>

definition lawful :: "(nat \<Rightarrow> fib6_info) \<Rightarrow> (nsim_fib_rt_key \<Rightarrow> nsim_fib_rt option) \<Rightarrow> nsim_fib_event \<Rightarrow> bool" where
  "lawful I V ev \<longleftrightarrow> ev_ok ev \<and> entry_event (ev_type ev)
     \<and> (ev_type ev \<noteq> FIB_EVENT_ENTRY_REPLACE \<longrightarrow> V (ev_key I ev) \<noteq> None)
     \<and> (case ev of Event4 event fen \<Rightarrow> True
        | Event6 event ev6 \<Rightarrow> i6_src_plen (I (rt_arr ev6 ! 0)) = 0
            \<and> (event = FIB_EVENT_ENTRY_DEL \<longrightarrow> rest6 ev6 (V (ev_key I ev)) = None))"

fun all_lawful :: "(nat \<Rightarrow> fib6_info) \<Rightarrow> (nsim_fib_rt_key \<Rightarrow> nsim_fib_rt option) \<Rightarrow> nsim_fib_event list \<Rightarrow> bool" where
  "all_lawful I V [] = True"
| "all_lawful I V (ev # evs) = (lawful I V ev \<and> all_lawful I (view_ev I ev V) evs)"

lemma all_lawful_append: "all_lawful I V (evs @ evs') \<longleftrightarrow> all_lawful I V evs \<and> all_lawful I (fold (view_ev I) evs V) evs'"
  by (induction evs arbitrary: V) auto

definition env_good :: "fib_env \<Rightarrow> bool" where
  "env_good env \<longleftrightarrow> e_alloc env \<and> (\<forall>i. e_nh env i) \<and> e_ht env = None"

lemma good_mem: "env_good env \<Longrightarrow> mem_ok env ev"
proof -
  assume good: "env_good env"
  have "ok_prefix (e_nh env) i xs = length xs" for i and xs :: "nat list"
    using good by (induction xs arbitrary: i) (simp_all add: env_good_def)
  then show ?thesis by (simp add: mem_ok_def)
qed

text \<open>The routes of a family, the entry of the resource, and the events that replace something there.\<close>

definition is_fam :: "family \<Rightarrow> nsim_fib_rt \<Rightarrow> int" where
  "is_fam f r = (if k_family (rt_key r) = f then 1 else 0)"

definition entry_of :: "family \<Rightarrow> nsim_fib_data \<Rightarrow> nsim_fib_entry" where
  "entry_of f d = (if f = AF_INET then pf_fib (ipv4 d) else pf_fib (ipv6 d))"

definition replaces :: "family \<Rightarrow> (nat \<Rightarrow> fib6_info) \<Rightarrow> (nsim_fib_rt_key \<Rightarrow> nsim_fib_rt option) \<Rightarrow> nsim_fib_event \<Rightarrow> bool" where
  "replaces f I V ev \<longleftrightarrow> ev_type ev = FIB_EVENT_ENTRY_REPLACE \<and> V (ev_key I ev) \<noteq> None \<and> k_family (ev_key I ev) = f"

section \<open>Handling an event\<close>

text \<open>The work does to the table what the event says, and takes the second count of a replaced route back.\<close>

lemma handle_follows:
  assumes wf: "wf_fib d" and law: "lawful (rt6_info d) (routes d) ev" and good: "env_good env" "\<not> fail_route_offload d"
    and f: "f = AF_INET \<or> f = AF_INET6"
  shows "routes (nsim_fib_event env ev d) = view_ev (rt6_info d) ev (routes d)"
    and "entry_of f (nsim_fib_event env ev d) = (if replaces f (rt6_info d) (routes d) ev then dec_if_positive (entry_of f d) else entry_of f d)"
proof -
  let ?d = "nsim_fib_event env ev d" and ?I = "rt6_info d"
  have ok: "ins_ok env d x" for x using good by (simp add: ins_ok_def env_good_def)
  have alloc: "e_alloc env" using good by (simp add: env_good_def)
  have "routes ?d = view_ev ?I ev (routes d)
    \<and> entry_of f ?d = (if replaces f ?I (routes d) ev then dec_if_positive (entry_of f d) else entry_of f d)"
  proof (cases ev)
    case (Event4 event fen)
    consider "event = FIB_EVENT_ENTRY_REPLACE" | "event = FIB_EVENT_ENTRY_APPEND" | "event = FIB_EVENT_ENTRY_DEL"
      using law Event4 by (auto simp: lawful_def entry_event_def)
    then show ?thesis
    proof cases
      case 1
      obtain err d1 where ins: "nsim_fib4_rt_insert env fen d = (err, d1)" by fastforce
      note i = insert4 [OF wf ins]
      then have "err = None" using ok by simp
      with i good(2) alloc 1 ins f show ?thesis
        by (auto simp: Event4 nsim_fib_event_def nsim_fib4_event_def fib_info_put_def routes_def view_ev_def entry_of_def replaces_def)
    next
      case 2
      then show ?thesis
        by (simp add: Event4 nsim_fib_event_def nsim_fib4_event_def fib_info_put_def routes_def view_ev_def entry_of_def replaces_def)
    next
      case 3
      with remove4 [OF wf, of fen] show ?thesis
        by (simp add: Event4 nsim_fib_event_def nsim_fib4_event_def fib_info_put_def routes_def view_ev_def entry_of_def replaces_def)
    qed
  next
    case (Event6 event ev6)
    let ?k = "key6 d (rt_arr ev6 ! 0)"
    have arr: "arr_ok ev6" and src: "i6_src_plen (rt6_info d (rt_arr ev6 ! 0)) = 0" using law Event6 by (simp_all add: lawful_def)
    have fini: "routes (nsim_fib6_event_fini ev6 d1) = routes d1" "ipv4 (nsim_fib6_event_fini ev6 d1) = ipv4 d1"
      "ipv6 (nsim_fib6_event_fini ev6 d1) = ipv6 d1" for d1
      using arr by (simp_all add: nsim_fib6_event_fini_def fini_eq arr_ok_def routes_def)
    note key = ev_key6 [of d _ ev6]
    consider "event = FIB_EVENT_ENTRY_REPLACE" | "event = FIB_EVENT_ENTRY_APPEND" | "event = FIB_EVENT_ENTRY_DEL"
      using law Event6 by (auto simp: lawful_def entry_event_def)
    then show ?thesis
    proof cases
      case 1
      obtain err d1 where ins: "nsim_fib6_rt_insert env ev6 d = (err, d1)" by fastforce
      note i = insert6 [OF wf arr refl ins]
      then have "err = None" using ok good_mem [OF good(1)] by simp
      with i good(2) alloc good_mem [OF good(1), of ev6] 1 ins f src show ?thesis
        by (auto simp: Event6 nsim_fib_event_def nsim_fib6_event_def fini view_ev_def entry_of_def replaces_def key
            simp del: ev_key.simps)
    next
      case 2
      obtain err d1 where app: "nsim_fib6_rt_append env ev6 d = (err, d1)" by fastforce
      note a = append6 [OF wf arr refl app]
      have "routes d ?k \<noteq> None" using law 2 Event6 key by (simp add: lawful_def del: ev_key.simps)
      with a(2) have err: "err = None" using good good_mem [OF good(1)] by simp
      from a(6) [OF err] obtain nh where "routes d ?k = Some (route6 ?k nh)" "routes d1 = (routes d)(?k \<mapsto> route6 ?k (nh @ rt_arr ev6))"
        by blast
      with a(4,5) err 2 app src show ?thesis
        by (simp add: Let_def Event6 nsim_fib_event_def nsim_fib6_event_def fini view_ev_def entry_of_def replaces_def key
            del: ev_key.simps)
    next
      case 3
      with remove6 [OF wf refl, of ev6] src show ?thesis
        by (simp add: Let_def Event6 nsim_fib_event_def nsim_fib6_event_def fini view_ev_def entry_of_def replaces_def key
            del: ev_key.simps)
    qed
  qed
  then show "routes ?d = view_ev ?I ev (routes d)"
    "entry_of f ?d = (if replaces f ?I (routes d) ev then dec_if_positive (entry_of f d) else entry_of f d)" by blast+
qed

section \<open>Counting\<close>

definition view_ok :: "(nsim_fib_rt_key \<Rightarrow> nsim_fib_rt option) \<Rightarrow> bool" where
  "view_ok V \<longleftrightarrow> finite (dom V) \<and> (\<forall>k r. V k = Some r \<longrightarrow> rt_key r = k)"

lemma routes_ok: "wf_fib d \<Longrightarrow> view_ok (routes d)"
proof -
  assume wf: "wf_fib d"
  then have tab: "wf_tab (rt_mem d) (rt_lim d) (fib_rt_ht d) (fib_rt_list d)" by (simp add: wf_fib_def)
  have "rt_key r = k" if rt: "routes d k = Some r" for k r
  proof -
    obtain a where "fib_rt_ht d k = Some a" using rt routes_None [OF wf, of k] by fastforce
    from wf_tab_entry [OF tab this] rt show ?thesis unfolding routes_def by (metis option.inject)
  qed
  then show ?thesis using routes_finite [OF wf] by (simp add: view_ok_def)
qed

lemma rest6_key: "rest6 ev6 (Some r0) = Some r \<Longrightarrow> rt_key r = rt_key r0"
  by (auto simp: rest6_def split: nsim_fib_rt.splits if_splits)

lemma view_ev_ok:
  assumes "view_ok V" and "lawful I V ev"
  shows "view_ok (view_ev I ev V)"
proof -
  have fin: "finite (dom V)" and key: "\<And>k r. V k = Some r \<Longrightarrow> rt_key r = k" using assms(1) by (simp_all add: view_ok_def)
  have upd: "view_ok (V(k := x))" if "\<And>r. x = Some r \<Longrightarrow> rt_key r = k" for k x
  proof -
    have "finite (dom (V(k := x)))" using fin by (cases x) simp_all
    then show ?thesis using that key by (auto simp: view_ok_def)
  qed
  have app: "rt_key r = k" if "append_rt ev (V k) = Some r" for k r
    using that key [of k] by (cases "(ev, V k)" rule: append_rt.cases) auto
  have rest: "rt_key r = k" if "rest_rt ev (V k) = Some r" for k r
  proof (cases ev)
    case (Event6 event ev6)
    with that obtain r0 where "V k = Some r0" by (cases "V k") (auto simp: rest6_def)
    with that Event6 rest6_key [of ev6 r0 r] key show ?thesis by auto
  qed (use that in simp)
  have "rt_key (ev_route I ev) = ev_key I ev" by (cases ev) auto
  with upd app rest show ?thesis
    by (cases "ev_type ev") (auto simp: view_ev_def Let_def assms(1))
qed

text \<open>How an event changes the number of routes of a family.\<close>

lemma view_ev_count:
  assumes ok: "view_ok V" and law: "lawful I V ev"
  shows "total (is_fam f) (view_ev I ev V) = total (is_fam f) V +
    (if k_family (ev_key I ev) \<noteq> f then 0
     else if ev_type ev = FIB_EVENT_ENTRY_REPLACE then (if V (ev_key I ev) = None then 1 else 0)
     else if ev_type ev = FIB_EVENT_ENTRY_DEL then -1 else 0)"
proof -
  let ?k = "ev_key I ev"
  let ?w = "if k_family ?k = f then 1 else 0 :: int"
  have fin: "finite (dom V)" using ok by (simp add: view_ok_def)
  have old: "weight (is_fam f) (V ?k) = (if V ?k = None then 0 else ?w)"
    using ok by (auto simp: view_ok_def is_fam_def weight_def split: option.split)
  have route: "is_fam f (ev_route I ev) = ?w" by (cases ev) (auto simp: is_fam_def)
  consider "ev_type ev = FIB_EVENT_ENTRY_REPLACE" | "ev_type ev = FIB_EVENT_ENTRY_APPEND" | "ev_type ev = FIB_EVENT_ENTRY_DEL"
    using law by (auto simp: lawful_def entry_event_def)
  then show ?thesis
  proof cases
    case 1
    then have "view_ev I ev V = V(?k \<mapsto> ev_route I ev)" by (simp add: view_ev_def Let_def)
    with total_upd [OF fin, of "is_fam f" ?k "ev_route I ev"] old route 1 show ?thesis by simp
  next
    case 2
    obtain r0 where r0: "V ?k = Some r0" "rt_key r0 = ?k" using law 2 ok by (auto simp: lawful_def view_ok_def)
    have "\<exists>r. append_rt ev (Some r0) = Some r \<and> rt_key r = ?k" using r0(2) by (cases "(ev, Some r0)" rule: append_rt.cases) auto
    then obtain r where r: "append_rt ev (V ?k) = Some r" "rt_key r = ?k" using r0 by auto
    then have "view_ev I ev V = V(?k \<mapsto> r)" using 2 by (simp add: view_ev_def Let_def)
    with total_upd [OF fin, of "is_fam f" ?k r] old r r0 2 show ?thesis by (simp add: is_fam_def)
  next
    case 3
    have "rest_rt ev (V ?k) = None" using law 3 by (cases ev) (auto simp: lawful_def)
    then have "view_ev I ev V = V(?k := None)" using 3 by (simp add: view_ev_def Let_def)
    moreover have "V ?k \<noteq> None" using law 3 by (simp add: lawful_def)
    ultimately show ?thesis using total_del [OF fin, of "is_fam f" ?k] old 3 by auto
  qed
qed

text \<open>The routes that are counted twice, because the event that replaces them is still queued.\<close>

fun twice :: "family \<Rightarrow> (nat \<Rightarrow> fib6_info) \<Rightarrow> (nsim_fib_rt_key \<Rightarrow> nsim_fib_rt option) \<Rightarrow> nsim_fib_event list \<Rightarrow> int" where
  "twice f I V [] = 0"
| "twice f I V (ev # evs) = (if replaces f I V ev then 1 else 0) + twice f I (view_ev I ev V) evs"

lemma twice_append: "twice f I V (evs @ evs') = twice f I V evs + twice f I (fold (view_ev I) evs V) evs'"
  by (induction evs arbitrary: V) simp_all

lemma twice_nonneg: "0 \<le> twice f I V evs"
  by (induction evs arbitrary: V) auto

lemma fold_view_ok: "view_ok V \<Longrightarrow> all_lawful I V evs \<Longrightarrow> view_ok (fold (view_ev I) evs V)"
  by (induction evs arbitrary: V) (auto intro: view_ev_ok)

section \<open>A notification\<close>

definition uses_family :: "fib_notifier_info \<Rightarrow> family \<Rightarrow> bool" where
  "uses_family info f \<longleftrightarrow> (case info of Info4 _ \<Rightarrow> f = AF_INET | Info6 _ \<Rightarrow> f = AF_INET6 | Info_plain _ \<Rightarrow> False)"

text \<open>A notification is refused when it announces a route and the resource is full, and is counted and queued otherwise.\<close>

lemma notify_counts:
  assumes ok: "info_ok info" and ev: "queued event info = Some ev" and entry: "entry_event event" and del: "\<not> fail_route_delete d"
    and nb: "nsim_fib_event_nb True True event info d = (n, d')" and uf: "uses_family info f"
  shows "if event = FIB_EVENT_ENTRY_REPLACE \<and> fe_num (entry_of f d) = fe_max (entry_of f d) then n = NOTIFY_BAD
         else n = NOTIFY_DONE \<and> fib_event_queue d' = fib_event_queue d @ [ev] \<and> entry_of f d' =
           (if event = FIB_EVENT_ENTRY_REPLACE then (entry_of f d)\<lparr>fe_num := fe_num (entry_of f d) + 1\<rparr>
            else if event = FIB_EVENT_ENTRY_DEL then dec_if_positive (entry_of f d) else entry_of f d)"
    and "n = NOTIFY_BAD \<Longrightarrow> fib_event_queue d' = fib_event_queue d \<and> entry_of f d' = entry_of f d"
    and "g = AF_INET \<or> g = AF_INET6 \<Longrightarrow> g \<noteq> f \<Longrightarrow> entry_of g d' = entry_of g d"
    and "routes d' = routes d \<and> rt6_info d' = rt6_info d \<and> fail_route_offload d' = fail_route_offload d
      \<and> fail_route_delete d' = fail_route_delete d"
proof -
  have "(if event = FIB_EVENT_ENTRY_REPLACE \<and> fe_num (entry_of f d) = fe_max (entry_of f d) then n = NOTIFY_BAD
         else n = NOTIFY_DONE \<and> fib_event_queue d' = fib_event_queue d @ [ev] \<and> entry_of f d' =
           (if event = FIB_EVENT_ENTRY_REPLACE then (entry_of f d)\<lparr>fe_num := fe_num (entry_of f d) + 1\<rparr>
            else if event = FIB_EVENT_ENTRY_DEL then dec_if_positive (entry_of f d) else entry_of f d))
    \<and> (n = NOTIFY_BAD \<longrightarrow> fib_event_queue d' = fib_event_queue d \<and> entry_of f d' = entry_of f d)
    \<and> (\<forall>g. g = AF_INET \<or> g = AF_INET6 \<longrightarrow> g \<noteq> f \<longrightarrow> entry_of g d' = entry_of g d)
    \<and> routes d' = routes d \<and> rt6_info d' = rt6_info d \<and> fail_route_offload d' = fail_route_offload d
      \<and> fail_route_delete d' = fail_route_delete d"
  proof (cases info)
    case (Info4 fen)
    have f: "f = AF_INET" using uf Info4 by (simp add: uses_family_def)
    consider "event = FIB_EVENT_ENTRY_REPLACE" | "event = FIB_EVENT_ENTRY_APPEND" | "event = FIB_EVENT_ENTRY_DEL"
      using entry by (auto simp: entry_event_def)
    then show ?thesis
      by cases (use nb ev Info4 del in \<open>auto simp: f nsim_fib_event_nb_def nsim_fib_event_schedule_work_def nsim_fib4_prepare_event_def
          account4_def nsim_fib_account_def add_unless_max_def fib_info_hold_def entry_of_def upd_fib4_def routes_def split: if_splits\<close>)
  next
    case (Info6 fen6)
    have f: "f = AF_INET6" using uf Info6 by (simp add: uses_family_def)
    have z: "0 \<notin> set (rt_arr (event6_of fen6))" using event6_of_ok [of fen6] ok Info6 by (simp add: arr_ok_def)
    note init = event_init [OF ok [unfolded Info6]]
    consider "event = FIB_EVENT_ENTRY_REPLACE" | "event = FIB_EVENT_ENTRY_APPEND" | "event = FIB_EVENT_ENTRY_DEL"
      using entry by (auto simp: entry_event_def)
    then show ?thesis
      by cases (use nb ev Info6 del in \<open>auto simp: f nsim_fib_event_nb_def nsim_fib_event_schedule_work_def nsim_fib6_prepare_event_def
          init account6_def nsim_fib_account_def add_unless_max_def entry_of_def upd_fib6_def routes_def nsim_fib6_event_fini_def
          fini_eq [OF z] split: if_splits\<close>)
  qed (use ev in simp)
  then show "if event = FIB_EVENT_ENTRY_REPLACE \<and> fe_num (entry_of f d) = fe_max (entry_of f d) then n = NOTIFY_BAD
         else n = NOTIFY_DONE \<and> fib_event_queue d' = fib_event_queue d @ [ev] \<and> entry_of f d' =
           (if event = FIB_EVENT_ENTRY_REPLACE then (entry_of f d)\<lparr>fe_num := fe_num (entry_of f d) + 1\<rparr>
            else if event = FIB_EVENT_ENTRY_DEL then dec_if_positive (entry_of f d) else entry_of f d)"
    "n = NOTIFY_BAD \<Longrightarrow> fib_event_queue d' = fib_event_queue d \<and> entry_of f d' = entry_of f d"
    "g = AF_INET \<or> g = AF_INET6 \<Longrightarrow> g \<noteq> f \<Longrightarrow> entry_of g d' = entry_of g d"
    "routes d' = routes d \<and> rt6_info d' = rt6_info d \<and> fail_route_offload d' = fail_route_offload d
      \<and> fail_route_delete d' = fail_route_delete d" by blast+
qed

section \<open>Runs without failures\<close>

text \<open>
  \<open>log\<close> are the events that were accepted, \<open>evs\<close> those that the work has in hand. Notifications come at any
  time, between any two events that the work handles.
\<close>

abbreviation announced :: "nsim_fib_data \<Rightarrow> nsim_fib_event list \<Rightarrow> nsim_fib_rt_key \<Rightarrow> nsim_fib_rt option" where
  "announced d0 log \<equiv> fold (view_ev (rt6_info d0)) log (routes d0)"

inductive kernel_run :: "nsim_fib_data \<Rightarrow> nsim_fib_event list \<Rightarrow> nsim_fib_event list \<Rightarrow> nsim_fib_data \<Rightarrow> bool" for d0 where
  start: "kernel_run d0 [] [] d0"
| accepted: "kernel_run d0 log evs d \<Longrightarrow> info_ok info \<Longrightarrow> queued event info = Some ev \<Longrightarrow>
    lawful (rt6_info d0) (announced d0 log) ev \<Longrightarrow> nsim_fib_event_nb True True event info d = (NOTIFY_DONE, d') \<Longrightarrow>
    kernel_run d0 (log @ [ev]) evs d'"
| refused: "kernel_run d0 log evs d \<Longrightarrow> info_ok info \<Longrightarrow> queued event info = Some ev \<Longrightarrow>
    lawful (rt6_info d0) (announced d0 log) ev \<Longrightarrow> nsim_fib_event_nb True True event info d = (NOTIFY_BAD, d') \<Longrightarrow>
    kernel_run d0 log evs d'"
| take: "kernel_run d0 log [] d \<Longrightarrow> fib_event_work d \<Longrightarrow>
    kernel_run d0 log (fib_event_queue d) (d\<lparr>fib_event_queue := [], fib_event_work := False\<rparr>)"
| handle: "kernel_run d0 log (ev # evs) d \<Longrightarrow> env_good env \<Longrightarrow> kernel_run d0 log evs (nsim_fib_event env ev d)"

text \<open>A state with an empty queue and an exact count, nothing of which is made to fail.\<close>

definition exact :: "family \<Rightarrow> nsim_fib_data \<Rightarrow> bool" where
  "exact f d \<longleftrightarrow> uint (fe_num (entry_of f d)) = total (is_fam f) (routes d)"

definition settled :: "nsim_fib_data \<Rightarrow> bool" where
  "settled d \<longleftrightarrow> (\<exists>o4 o6. fib_inv o4 o6 [] d) \<and> fib_event_queue d = [] \<and> \<not> fail_route_offload d \<and> \<not> fail_route_delete d
     \<and> exact AF_INET d \<and> exact AF_INET6 d"

definition follows :: "nsim_fib_data \<Rightarrow> nsim_fib_event list \<Rightarrow> nsim_fib_event list \<Rightarrow> nsim_fib_data \<Rightarrow> bool" where
  "follows d0 log evs d \<longleftrightarrow> (\<exists>o4 o6. fib_inv o4 o6 evs d) \<and> rt6_info d = rt6_info d0 \<and> \<not> fail_route_offload d \<and> \<not> fail_route_delete d
     \<and> all_lawful (rt6_info d0) (routes d) (evs @ fib_event_queue d)
     \<and> fold (view_ev (rt6_info d0)) (evs @ fib_event_queue d) (routes d) = announced d0 log
     \<and> (\<forall>f. f = AF_INET \<or> f = AF_INET6 \<longrightarrow>
          uint (fe_num (entry_of f d)) = total (is_fam f) (announced d0 log) + twice f (rt6_info d0) (routes d) (evs @ fib_event_queue d)
          \<and> uint (fe_num (entry_of f d)) \<le> total (is_fam f) (routes d0) + int (length log))"

lemma dec_exact: "0 < uint (fe_num e) \<Longrightarrow> uint (fe_num e) < 2 ^ 63 \<Longrightarrow> uint (fe_num (dec_if_positive e)) = uint (fe_num e) - 1"
proof -
  assume pos: "0 < uint (fe_num e)" "uint (fe_num e) < 2 ^ 63"
  have "1 \<le> fe_num e" using pos(1) by (simp add: word_le_def)
  then have u: "uint (fe_num e - 1) = uint (fe_num e) - 1" using word_diff_exact [of 1 "fe_num e"] by simp
  have "sint (fe_num e - 1) = uint (fe_num e - 1)"
    using pos u by (simp add: sint_uint signed_take_bit_int_eq_self)
  then have "\<not> sint (fe_num e - 1) < 0" using u pos by simp
  then show ?thesis using u by (simp add: dec_if_positive_def)
qed

lemma inc_exact: "uint (n :: u64) < 2 ^ 63 \<Longrightarrow> uint (n + 1) = uint n + 1"
  by (simp add: uint_plus_if')

lemma is_fam_nonneg: "0 \<le> total (is_fam f) V"
  by (rule total_nonneg) (simp add: is_fam_def)

lemma uses_key: "queued event info = Some ev \<Longrightarrow> uses_family info (k_family (ev_key I ev))"
  by (cases info) (auto simp: uses_family_def make_key_def Let_def)

lemma queued_type: "queued event info = Some ev \<Longrightarrow> ev_type ev = event"
  by (cases info) auto

lemma family_cases: "f = AF_INET \<or> f = AF_INET6" if "queued event info = Some ev" "f = k_family (ev_key I ev)"
  using that by (cases info) (auto simp: make_key_def Let_def)

text \<open>A notification keeps all of it.\<close>

lemma follows_notify:
  assumes inv: "follows d0 log evs d" and ok: "info_ok info" and ev: "queued event info = Some ev"
    and law: "lawful (rt6_info d0) (announced d0 log) ev" and nb: "nsim_fib_event_nb True True event info d = (n, d')"
    and len: "\<forall>f. f = AF_INET \<or> f = AF_INET6 \<longrightarrow> total (is_fam f) (routes d0) + int (length log) < 2 ^ 63 - 1"
  shows "n = NOTIFY_DONE \<Longrightarrow> follows d0 (log @ [ev]) evs d'" and "n = NOTIFY_BAD \<Longrightarrow> follows d0 log evs d'"
    and "n = NOTIFY_DONE \<or> n = NOTIFY_BAD"
proof -
  let ?I = "rt6_info d0" and ?f = "k_family (ev_key (rt6_info d0) ev)"
  let ?V = "announced d0 log"
  obtain o4 o6 where fi: "fib_inv o4 o6 evs d" using inv by (auto simp: follows_def)
  have I: "rt6_info d = ?I" and off: "\<not> fail_route_offload d" "\<not> fail_route_delete d"
    and lawful: "all_lawful ?I (routes d) (evs @ fib_event_queue d)"
    and view: "fold (view_ev ?I) (evs @ fib_event_queue d) (routes d) = ?V"
    using inv by (simp_all add: follows_def)
  have fi': "fib_inv o4 o6 evs d'" using fib_inv_nb [OF fi ok, of True True event] nb by simp
  have type: "ev_type ev = event" using queued_type [OF ev] .
  then have entry: "entry_event event" using law by (simp add: lawful_def)
  note c = notify_counts [OF ok ev entry off(2) nb uses_key [OF ev, of ?I]]
  show n: "n = NOTIFY_DONE \<or> n = NOTIFY_BAD" using c(1) by (auto split: if_splits)
  have old: "uint (fe_num (entry_of f d)) = total (is_fam f) ?V + twice f ?I (routes d) (evs @ fib_event_queue d)"
    "uint (fe_num (entry_of f d)) \<le> total (is_fam f) (routes d0) + int (length log)" if "f = AF_INET \<or> f = AF_INET6" for f
    using inv that by (auto simp: follows_def)
  have fam: "?f = AF_INET \<or> ?f = AF_INET6" using family_cases [OF ev refl] by blast
  show "follows d0 log evs d'" if "n = NOTIFY_BAD"
  proof -
    have "entry_of f d' = entry_of f d" if "f = AF_INET \<or> f = AF_INET6" for f
      using c(2) [OF \<open>n = NOTIFY_BAD\<close>] c(3) that by (cases "f = ?f") auto
    with c(2) [OF that] c(4) inv fi' show ?thesis by (auto simp: follows_def)
  qed
  show "follows d0 (log @ [ev]) evs d'" if fin: "n = NOTIFY_DONE"
  proof -
    have q: "fib_event_queue d' = fib_event_queue d @ [ev]" using c(1) fin by (auto split: if_splits)
    have R: "routes d' = routes d" "rt6_info d' = ?I" "\<not> fail_route_offload d'" "\<not> fail_route_delete d'" using c(4) off I by auto
    have view': "fold (view_ev ?I) (evs @ fib_event_queue d') (routes d') = announced d0 (log @ [ev])"
      using view by (simp add: q R)
    have lawful': "all_lawful ?I (routes d') (evs @ fib_event_queue d')"
      using lawful law view unfolding q R append_assoc [symmetric] all_lawful_append by simp
    have vok: "view_ok ?V"
      using fold_view_ok [OF routes_ok lawful] fi view by (simp add: fib_inv_def)
    note count = view_ev_count [OF vok law]
    have tw: "twice f ?I (routes d') (evs @ fib_event_queue d')
        = twice f ?I (routes d) (evs @ fib_event_queue d) + (if replaces f ?I ?V ev then 1 else 0)" for f
      unfolding q R append_assoc [symmetric] twice_append [of f ?I "routes d" "evs @ fib_event_queue d" "[ev]"] view by simp
    have "uint (fe_num (entry_of f d')) = total (is_fam f) (announced d0 (log @ [ev])) + twice f ?I (routes d') (evs @ fib_event_queue d')
        \<and> uint (fe_num (entry_of f d')) \<le> total (is_fam f) (routes d0) + int (length (log @ [ev]))"
      if f: "f = AF_INET \<or> f = AF_INET6" for f
    proof (cases "f = ?f")
      case False
      with c(3) [OF f] old [OF f] count [of f] show ?thesis by (simp add: tw replaces_def)
    next
      case True
      have small: "uint (fe_num (entry_of f d)) < 2 ^ 63" using old(2) [OF f] len f by fastforce
      consider "event = FIB_EVENT_ENTRY_REPLACE" | "event = FIB_EVENT_ENTRY_APPEND" | "event = FIB_EVENT_ENTRY_DEL"
        using entry by (auto simp: entry_event_def)
      then show ?thesis
      proof cases
        case 1
        then have "uint (fe_num (entry_of f d')) = uint (fe_num (entry_of f d)) + 1"
          using c(1) fin True inc_exact [OF small] by (simp split: if_splits)
        with old [OF f] count [of f] True 1 type show ?thesis by (simp add: tw replaces_def)
      next
        case 2
        then have "entry_of f d' = entry_of f d" using c(1) True by simp
        with old [OF f] count [of f] True 2 type show ?thesis by (simp add: tw replaces_def)
      next
        case 3
        then have e: "entry_of f d' = dec_if_positive (entry_of f d)" using c(1) True by simp
        have "0 \<le> total (is_fam f) (view_ev ?I ev ?V)" by (rule is_fam_nonneg)
        then have "0 < uint (fe_num (entry_of f d))"
          using old(1) [OF f] count [of f] True 3 type twice_nonneg [of f ?I "routes d" "evs @ fib_event_queue d"] by simp
        from dec_exact [OF this small] old [OF f] count [of f] True 3 type e show ?thesis by (simp add: tw replaces_def)
      qed
    qed
    with fi' R view' lawful' show ?thesis unfolding follows_def by blast
  qed
qed

text \<open>So does the handling of an event.\<close>

lemma follows_handle:
  assumes inv: "follows d0 log (ev # evs) d" and good: "env_good env"
    and len: "\<forall>f. f = AF_INET \<or> f = AF_INET6 \<longrightarrow> total (is_fam f) (routes d0) + int (length log) < 2 ^ 63 - 1"
  shows "follows d0 log evs (nsim_fib_event env ev d)"
proof -
  let ?I = "rt6_info d0" and ?d = "nsim_fib_event env ev d"
  obtain o4 o6 where fi: "fib_inv o4 o6 (ev # evs) d" using inv by (auto simp: follows_def)
  have wf: "wf_fib d" and ok: "ev_ok ev" using fi by (simp_all add: fib_inv_def)
  have I: "rt6_info d = ?I" and off: "\<not> fail_route_offload d" "\<not> fail_route_delete d" using inv by (simp_all add: follows_def)
  have law: "lawful (rt6_info d) (routes d) ev" using inv I by (simp add: follows_def)
  note h = handle_follows [OF wf law good off(1), unfolded I]
  have fr: "frame ?d = frame d" by (rule event_step(2) [OF wf ok])
  then have q: "fib_event_queue ?d = fib_event_queue d" and R: "rt6_info ?d = ?I" "\<not> fail_route_offload ?d" "\<not> fail_route_delete ?d"
    using I off by (simp_all add: frame_def)
  have routes: "routes ?d = view_ev ?I ev (routes d)" using h(1) by blast
  have "uint (fe_num (entry_of f ?d)) = total (is_fam f) (announced d0 log) + twice f ?I (routes ?d) (evs @ fib_event_queue ?d)
      \<and> uint (fe_num (entry_of f ?d)) \<le> total (is_fam f) (routes d0) + int (length log)"
    if f: "f = AF_INET \<or> f = AF_INET6" for f
  proof -
    have old: "uint (fe_num (entry_of f d)) = total (is_fam f) (announced d0 log)
        + ((if replaces f ?I (routes d) ev then 1 else 0) + twice f ?I (routes ?d) (evs @ fib_event_queue ?d))"
      "uint (fe_num (entry_of f d)) \<le> total (is_fam f) (routes d0) + int (length log)"
      using inv f by (auto simp: follows_def routes q)
    have small: "uint (fe_num (entry_of f d)) < 2 ^ 63" using old(2) len f by fastforce
    show ?thesis
    proof (cases "replaces f ?I (routes d) ev")
      case True
      have "0 < uint (fe_num (entry_of f d))"
        using old(1) True twice_nonneg [of f ?I "routes ?d" "evs @ fib_event_queue ?d"] is_fam_nonneg [of f "announced d0 log"] by simp
      from dec_exact [OF this small] old h(2) [OF f] True show ?thesis by simp
    next
      case False
      with old h(2) [OF f] show ?thesis by simp
    qed
  qed
  moreover have "all_lawful ?I (routes ?d) (evs @ fib_event_queue ?d)"
    "fold (view_ev ?I) (evs @ fib_event_queue ?d) (routes ?d) = announced d0 log"
    using inv by (auto simp: follows_def routes q)
  ultimately show ?thesis using fib_inv_handle [OF fi, of env] R unfolding follows_def by blast
qed

lemma follows_take:
  assumes inv: "follows d0 log [] d"
  shows "follows d0 log (fib_event_queue d) (d\<lparr>fib_event_queue := [], fib_event_work := False\<rparr>)"
proof -
  let ?d = "d\<lparr>fib_event_queue := [], fib_event_work := False\<rparr>"
  have "routes ?d = routes d" "entry_of f ?d = entry_of f d" for f by (simp_all add: routes_def entry_of_def)
  note same = this
  obtain o4 o6 where "fib_inv o4 o6 [] d" using inv unfolding follows_def by blast
  note fi = fib_inv_splice [OF this]
  then have "\<exists>o4 o6. fib_inv o4 o6 (fib_event_queue d) ?d" by blast
  moreover have "rt6_info ?d = rt6_info d0 \<and> \<not> fail_route_offload ?d \<and> \<not> fail_route_delete ?d"
    using inv by (simp add: follows_def)
  moreover have "fib_event_queue d @ fib_event_queue ?d = [] @ fib_event_queue d" by simp
  ultimately show ?thesis using inv unfolding follows_def same by metis
qed

lemma follows_run:
  assumes "kernel_run d0 log evs d" and "settled d0"
    and "\<forall>f. f = AF_INET \<or> f = AF_INET6 \<longrightarrow> total (is_fam f) (routes d0) + int (length log) < 2 ^ 63 - 1"
  shows "follows d0 log evs d"
  using assms
proof (induction rule: kernel_run.induct)
  case start
  then show ?case by (auto simp: follows_def settled_def exact_def)
next
  case (accepted log evs d info event ev d')
  then have len: "\<forall>f. f = AF_INET \<or> f = AF_INET6 \<longrightarrow> total (is_fam f) (routes d0) + int (length log) < 2 ^ 63 - 1" by auto
  with accepted have "follows d0 log evs d" by blast
  from follows_notify(1) [OF this accepted.hyps(2-5) len] show ?case by simp
next
  case (refused log evs d info event ev d')
  then have "follows d0 log evs d" by blast
  from follows_notify(2) [OF this refused.hyps(2-5) refused.prems(2)] show ?case by simp
next
  case (take log d)
  show ?case by (rule follows_take [OF take.IH [OF take.prems]])
next
  case (handle log ev evs d env)
  show ?case by (rule follows_handle [OF handle.IH [OF handle.prems] handle.hyps(2) handle.prems(2)])
qed

text \<open>The number of routes of a family.\<close>

definition route_count :: "family \<Rightarrow> (nsim_fib_rt_key \<Rightarrow> nsim_fib_rt option) \<Rightarrow> nat" where
  "route_count f V = card {k. V k \<noteq> None \<and> k_family k = f}"

lemma total_count: "view_ok V \<Longrightarrow> total (is_fam f) V = int (route_count f V)"
proof -
  assume ok: "view_ok V"
  have "total (is_fam f) V = (\<Sum>k \<in> dom V. if k_family k = f then 1 else 0)"
    unfolding total_def using ok by (intro sum.cong) (auto simp: view_ok_def is_fam_def)
  also have "\<dots> = int (card {k \<in> dom V. k_family k = f})"
    using ok by (simp add: view_ok_def sum.If_cases Int_def)
  finally show ?thesis by (simp add: route_count_def dom_def)
qed


section \<open>A run, and the limits of the count\<close>

definition demo_env :: fib_env where
  "demo_env = \<lparr>e_alloc = True, e_nh = (\<lambda>_. True), e_ht = None\<rparr>"

lemmas create_defs = demo_start_def nsim_fib_create_def demo_create_def nsim_fib_debugfs_init_def kzalloc_data_def nsim_fib_set_max_all_def
  nsim_fib_set_max_def upd_fib4_def upd_fib6_def upd_rules4_def upd_rules6_def upd_nexthops_def nsim_fib_event_nb_def
  nsim_fib_rule_event_def nsim_fib_rule_account_def add_unless_max_def demo_fib_def

lemma demo_start_fields:
  "ipv4 demo_start = \<lparr>pf_fib = \<lparr>fe_max = 2, fe_num = 0\<rparr>, pf_rules = \<lparr>fe_max = 2, fe_num = 1\<rparr>\<rparr>"
  "ipv6 demo_start = \<lparr>pf_fib = \<lparr>fe_max = 2, fe_num = 0\<rparr>, pf_rules = \<lparr>fe_max = 2, fe_num = 0\<rparr>\<rparr>"
  "rt_mem demo_start = Map.empty" "rt_lim demo_start = 1" "fib_rt_ht demo_start = Map.empty" "fib_rt_list demo_start = []"
  "fib_event_queue demo_start = []" "\<not> fib_event_work demo_start" "\<not> fail_route_offload demo_start" "\<not> fail_route_delete demo_start"
  "rt6_info demo_start = rt6_info demo_fib"
  by (simp_all add: create_defs Let_def)

lemma demo_settled: "settled demo_start"
proof -
  have "sys_inv (fi_refs demo_fib) (rt6_refs demo_fib) [] demo_start"
    using create_cases [OF demo_started] demo_sane demo_order by (simp add: demo_create_def)
  then show ?thesis
    by (auto simp: settled_def sys_inv_def demo_start_fields exact_def entry_of_def routes_def tab_routes_empty)
qed

definition demo_run :: nsim_fib_data where
  "demo_run = (let d = snd (nsim_fib_event_nb True True FIB_EVENT_ENTRY_REPLACE (Info4 demo_fen) demo_start)
     in nsim_fib_event demo_env (Event4 FIB_EVENT_ENTRY_REPLACE demo_fen) (d\<lparr>fib_event_queue := [], fib_event_work := False\<rparr>))"

lemma demo_kernel_run: "kernel_run demo_start [Event4 FIB_EVENT_ENTRY_REPLACE demo_fen] [] demo_run"
proof -
  let ?ev = "Event4 FIB_EVENT_ENTRY_REPLACE demo_fen"
  let ?d = "snd (nsim_fib_event_nb True True FIB_EVENT_ENTRY_REPLACE (Info4 demo_fen) demo_start)"
  have nb: "nsim_fib_event_nb True True FIB_EVENT_ENTRY_REPLACE (Info4 demo_fen) demo_start = (NOTIFY_DONE, ?d)"
    "fib_event_queue ?d = [?ev]" "fib_event_work ?d"
    by (simp_all add: nsim_fib_event_nb_def nsim_fib_event_schedule_work_def nsim_fib4_prepare_event_def account4_def
        nsim_fib_account_def add_unless_max_def demo_start_fields upd_fib4_def fib_info_hold_def)
  have "kernel_run demo_start ([] @ [?ev]) [] ?d"
    by (rule kernel_run.accepted [OF kernel_run.start, of "Info4 demo_fen" FIB_EVENT_ENTRY_REPLACE])
      (use nb in \<open>simp_all add: lawful_def entry_event_def\<close>)
  then have "kernel_run demo_start [?ev] (fib_event_queue ?d) (?d\<lparr>fib_event_queue := [], fib_event_work := False\<rparr>)"
    using kernel_run.take nb(3) by simp
  from kernel_run.handle [OF this [unfolded nb(2)], of demo_env] show ?thesis
    by (simp add: demo_run_def demo_env_def env_good_def)
qed


text \<open>
  Two ways in which the count is lost when the events are not of that kind. Deleting one of two nexthops is
  subtracted as if the route were gone; a route that could not be offloaded stays counted, and is counted again when
  the kernel replaces it.
\<close>

abbreviation notify_and_work :: "fib_event_type \<Rightarrow> fib_notifier_info \<Rightarrow> nsim_fib_data \<Rightarrow> nsim_fib_data" where
  "notify_and_work event info d \<equiv> nsim_fib_event_work (\<lambda>_. demo_env) (snd (nsim_fib_event_nb True True event info d))"

lemmas run_defs = nsim_fib_event_work_def nsim_fib_event_nb_def nsim_fib_event_schedule_work_def nsim_fib4_prepare_event_def
  nsim_fib6_prepare_event_def event_init account4_def account6_def nsim_fib_account_def add_unless_max_def upd_fib4_def upd_fib6_def
  fib_info_hold_def fib_info_put_def nsim_fib_event_def nsim_fib4_event_def nsim_fib6_event_def nsim_fib4_rt_insert_def
  nsim_fib4_rt_create_def new_object_def nsim_fib_rt_init_def lookup4 lookup6 nsim_fib4_rt_add_def rt4_def rt6_def
  nsim_fib4_rt_hw_flags_set_def fib_alias_hw_flags_set_def nsim_fib4_rt_offload_failed_flag_set_def nsim_fib6_rt_insert_def
  nsim_fib6_rt_create_def nsim_fib6_rt_add_def nsim_fib6_rt_hw_flags_set_def fib6_info_hw_flags_set_def nsim_fib6_rt_nh_add_def
  fib6_info_hold_def nsim_fib6_rt_remove_def nsim_fib6_rt_nh_del_def nsim_fib6_rt_nh_find_def nsim_rt6_release_def
  nsim_fib6_event_fini_def dec_if_positive_def event6_of_def key6_def demo_start_fields demo_env_def demo_fib_def

lemma deleted_nexthop_uncounted:
  "let d = notify_and_work FIB_EVENT_ENTRY_DEL (Info6 \<lparr>fen6_rt = 2, fen6_nsiblings = 0, fen6_siblings = []\<rparr>)
             (notify_and_work FIB_EVENT_ENTRY_REPLACE (Info6 \<lparr>fen6_rt = 1, fen6_nsiblings = 1, fen6_siblings = [2]\<rparr>) demo_start)
   in fe_num (pf_fib (ipv6 d)) = 0 \<and> length (fib_rt_list d) = 1"
  by (simp add: run_defs Let_def)

lemma failed_offload_stays_counted:
  "let d = notify_and_work FIB_EVENT_ENTRY_REPLACE (Info4 demo_fen)
             ((notify_and_work FIB_EVENT_ENTRY_REPLACE (Info4 demo_fen) (demo_start\<lparr>fail_route_offload := True\<rparr>))
                \<lparr>fail_route_offload := False\<rparr>)
   in fe_num (pf_fib (ipv4 d)) = 2 \<and> length (fib_rt_list d) = 1"
  by (simp add: run_defs Let_def)

end
