(* ===== verification/Spec2Isabelle.thy ===== *)
theory Spec2Isabelle
  imports Ptp_Props Nsim_Macsec Dpll_Reach Dpll_Dump Nsim_Gnss_Props Nsim_Exit Nsim_Ipsec Nsim_Hwstats Nsim_Fib_Follow
begin

text \<open>
  Verification library of netdevsim-dkms: out-of-tree builds of the kernel's network device
  simulator (\<open>netdevsim/\<close>) with the PTP clock core and its mock driver (\<open>ptp/\<close>) and the DPLL
  core (\<open>dpll/\<close>), extended by a simulated GNSS receiver and DPLL devices for testing time
  synchronisation software.

  PTP. \<open>Ts_Queue\<close>: the queue of external timestamps, \<open>struct timestamp_event_queue\<close>, with the
  writer of \<open>ptp_clock.c\<close> and the reader of \<open>ptp_chardev.c\<close>; the ring is shown to be a bounded
  queue (locale \<open>bounded_fifo\<close>). \<open>Ptp_Types\<close>: pins, requests and \<open>struct ptp_clock_info\<close>, the
  table of driver callbacks. \<open>Mock_Phc\<close>: the mock hardware clock of \<open>ptp_mock.c\<close>, shown to be
  a clock (locale \<open>ptp_hw_clock\<close>), and its 1PPS timer. \<open>Ptp_Clock\<close>: \<open>struct ptp_clock\<close>, the posix
  clock operations, event delivery and pin assignment. \<open>Ptp_Chardev\<close>: open, release, ioctl,
  poll and read. \<open>Ptp_Register\<close>: the clocks of the system as objects in memory with what they own, and their registration with
  every error path. \<open>Ptp_Vclock\<close>: virtual clocks over the cycle counter of a physical one, unregistration, the hash table and
  the conversion of timestamps. \<open>Ptp_Register_Props\<close>: registration is all or nothing. \<open>Ptp_System\<close>, \<open>Ptp_Life\<close>: the invariant that
  relates indices, ownership, references, virtual clocks and hash table, and that every operation keeps it. \<open>Ptp_Sysfs\<close>: the
  attributes of \<open>ptp_sysfs.c\<close>. \<open>Ptp_Props\<close>: the properties of all these. A call that sleeps, takes a lock or allocates has the outcome as an
  argument; a clock reading is an argument; locks are not modelled otherwise, so one step
  here is one critical section there.

  DPLL. \<open>Xarray\<close>: the kernel's index map (locale \<open>index_map\<close>). \<open>Dpll_Types\<close>: devices, pins, references,
  callback tables, messages. \<open>Dpll_Msg\<close>: the message builders and notifications of
  \<open>dpll_netlink.c\<close>. \<open>Dpll_Core\<close>: the operations of \<open>dpll_core.c\<close>. \<open>Dpll_Registry\<close>: references as a table of
  registrations (locale \<open>registry\<close>), the invariant \<open>wf\<close>, registration as all-or-nothing.
  \<open>Dpll_Life\<close>, \<open>Dpll_Onpin\<close>, \<open>Dpll_Reach\<close>: the life cycle, registration with a parent pin, and what
  every reachable state satisfies. \<open>Dpll_Reply\<close>: message builders append and do not fault.
  \<open>Dpll_Set\<close>, \<open>Dpll_Query\<close>: the requests of user space, \<open>Dpll_Set_Props\<close>: a shared value is set on
  all devices or none, \<open>Dpll_Requests\<close>: every request is safe, \<open>Dpll_Dump\<close>: dumps are complete
  (locale \<open>message_source\<close>). The policies that vet attributes (\<open>dpll_nl.c\<close>, generated) and the
  socket are not modelled.

  netdevsim. \<open>Nsim_Ubx\<close>: frames, checksum and messages of the UBX protocol. \<open>Nsim_Gnss\<close>: the
  simulated GNSS receiver and the lock status it drives, \<open>Nsim_Gnss_Props\<close>: its invariant and how
  input is obeyed. \<open>Nsim_Dpll\<close>: the driver's callbacks, set-up and removal on top of \<open>Dpll_Core\<close>.
  \<open>Dpll_Undo\<close>, \<open>Dpll_Adds\<close>: what takes an operation of the core back, in reverse order for devices and in any order
  for pins; \<open>Nsim_Init\<close>, \<open>Nsim_Exit\<close>: with them, every error path of the set-up restores the tables of
  the core, and so does the exit after any events in between. \<open>Slot_Table\<close>: a table of slots with a flag
  in use (locale \<open>slot_table\<close>); \<open>Printing\<close>: numbers as \<open>printf\<close> writes them, \<open>scnprintf\<close> into a buffer.
  \<open>Nsim_Ipsec\<close>: \<open>ipsec.c\<close>, the table of offloaded security associations is a set of at most 33, and its
  listing fits the buffer. \<open>Nsim_Hwstats\<close>: \<open>hwstats.c\<close>, the list of devices with simulated hardware
  statistics, the references held on them and the traffic reported for them.

  \<open>Request_Runs\<close>: sequences of requests with their replies (locale \<open>request_refinement\<close>). \<open>Nsim_Macsec\<close>: \<open>macsec.c\<close>, the table of secure
  entities behaves as a map of at most three identifiers.

  Route offload, \<open>fib.c\<close>. \<open>Nsim_Fib\<close>: \<open>struct nsim_fib_data\<close> with the memory of its routes, and the resources.
  \<open>Nsim_Fib_Routes\<close>: insertion, replacement, appending and removal of routes. \<open>Nsim_Fib_Work\<close>:
  notifications, which account and queue, the work that handles the queue, and the flush. \<open>Nsim_Nexthop\<close>: the
  nexthops and their accounting. \<open>Map_Total\<close>: totals over a finite map, for references and occupancy.
  \<open>Nsim_Fib_Table\<close>, \<open>Nsim_Fib_Ops\<close>, \<open>Nsim_Fib_Ops6\<close>, \<open>Nsim_Fib_Runs\<close>: table, list and memory as one map of
  routes, and what every operation does to it. \<open>Nsim_Fib_Life\<close>: creation and destruction around any sequence of events.
  \<open>Nsim_Fib_Follow\<close>: without failures the table is what the notifications describe, and the count is exact.
\<close>

end
